(* ===== verification/Prelude.thy ===== *)
theory Prelude
  imports Main
begin

text \<open>
  Shared material of the development: the exceptions of the program as a datatype, its
  early returns as a sum type, the chains of \<^verbatim>\<open>if ...: raise ...\<close> checks that open most
  constructors, and the small facts on lists, association lists and updates that the
  component theories share.  The collection \<open>check_simps\<close> holds the rewrite rules that turn
  "this chain of checks succeeds" into the conjunction of its conditions.
\<close>

named_theorems check_simps \<open>rules that decide chains of validation checks\<close>
named_theorems fresh_intro \<open>introduction rules for distinctness and freshness invariants\<close>

section \<open>Exceptions and early returns\<close>

datatype py_error =
    ValueError string
  | RuntimeError string
  | KeyError string
  | TypeError string
  | IndexError string
  | OverflowError string
  | ZeroDivisionError string
  | OutOfModel string  \<comment> \<open>not an exception: a non-finite value reached the rational arithmetic\<close>

type_synonym 'a result = "py_error + 'a"

definition bindE :: "'e + 'a \<Rightarrow> ('a \<Rightarrow> 'e + 'b) \<Rightarrow> 'e + 'b" where
  "bindE m f = (case m of Inl e \<Rightarrow> Inl e | Inr a \<Rightarrow> f a)"

definition raise_if :: "bool \<Rightarrow> 'e \<Rightarrow> 'e + unit" where
  "raise_if bad e = (if bad then Inl e else Inr ())"

text \<open>
  A run of consecutive statements \<^verbatim>\<open>if bad: raise ValueError(msg)\<close>: the first bad condition
  wins, as in the source.
\<close>

fun checks :: "(bool \<times> string) list \<Rightarrow> unit result" where
  "checks [] = Inr ()"
| "checks ((bad, msg) # cs) = (if bad then Inl (ValueError msg) else checks cs)"

text \<open>The issue lists of the validators: every bad condition contributes its message.\<close>

fun issues :: "(bool \<times> string) list \<Rightarrow> string list" where
  "issues [] = []"
| "issues ((bad, msg) # cs) = (if bad then msg # issues cs else issues cs)"

lemma bindE_simps [simp]:
  "bindE (Inl e) f = Inl e"
  "bindE (Inr a) f = f a"
  by (simp_all add: bindE_def)

lemma bindE_eq_Inr [check_simps]:
  "bindE m f = Inr b \<longleftrightarrow> (\<exists>a. m = Inr a \<and> f a = Inr b)"
  by (cases m) simp_all

lemma bindE_cong [fundef_cong]:
  "m = m' \<Longrightarrow> (\<And>a. m' = Inr a \<Longrightarrow> f a = g a) \<Longrightarrow> bindE m f = bindE m' g"
  by (cases m') simp_all

lemma raise_if_eq_Inr [check_simps]: "raise_if bad e = Inr u \<longleftrightarrow> \<not> bad"
  by (simp add: raise_if_def)

lemma raise_if_eq_Inl [check_simps]: "raise_if bad e = Inl e' \<longleftrightarrow> bad \<and> e' = e"
  by (auto simp: raise_if_def)

lemma checks_eq_Inr [check_simps]: "checks cs = Inr u \<longleftrightarrow> (\<forall>c \<in> set cs. \<not> fst c)"
  by (induction cs rule: checks.induct) auto

lemma checks_Inl_iff: "(\<exists>e. checks cs = Inl e) \<longleftrightarrow> (\<exists>c \<in> set cs. fst c)"
  by (induction cs rule: checks.induct) auto

lemma checks_Inl_ValueError: "checks cs = Inl e \<Longrightarrow> \<exists>msg. e = ValueError msg"
  by (induction cs rule: checks.induct) (auto split: if_splits)

lemma issues_empty_iff [check_simps]: "issues cs = [] \<longleftrightarrow> (\<forall>c \<in> set cs. \<not> fst c)"
  by (induction cs rule: issues.induct) auto

lemma checks_issues: "checks cs = Inr () \<longleftrightarrow> issues cs = []"
  by (simp add: check_simps)

text \<open>
  Chains of checks are decided by the collection; the recursion equations, which would
  unfold a literal chain first, are used for evaluation only.
\<close>

declare checks.simps [simp del] issues.simps [simp del]

lemmas check_eval = checks.simps issues.simps bindE_def raise_if_def

section \<open>Loops that may raise\<close>

text \<open>A \<^verbatim>\<open>for\<close> loop over a list whose body may raise, threading a state.\<close>

fun foldE :: "('a \<Rightarrow> 's \<Rightarrow> 'e + 's) \<Rightarrow> 'a list \<Rightarrow> 's \<Rightarrow> 'e + 's" where
  "foldE f [] s = Inr s"
| "foldE f (x # xs) s = bindE (f x s) (foldE f xs)"

lemma foldE_append: "foldE f (xs @ ys) s = bindE (foldE f xs s) (foldE f ys)"
  by (induction xs arbitrary: s) (auto simp: bindE_def split: sum.splits)

lemma foldE_invariant:
  assumes "foldE f xs s = Inr t" and "P s"
    and "\<And>x s s'. x \<in> set xs \<Longrightarrow> P s \<Longrightarrow> f x s = Inr s' \<Longrightarrow> P s'"
  shows "P t"
  using assms by (induction xs arbitrary: s) (auto simp: check_simps)

text \<open>A comprehension whose element may raise.\<close>

fun mapE :: "('a \<Rightarrow> 'e + 'b) \<Rightarrow> 'a list \<Rightarrow> 'e + 'b list" where
  "mapE f [] = Inr []"
| "mapE f (x # xs) = bindE (f x) (\<lambda>y. bindE (mapE f xs) (\<lambda>ys. Inr (y # ys)))"

lemma mapE_length: "mapE f xs = Inr ys \<Longrightarrow> length ys = length xs"
  by (induction xs arbitrary: ys) (auto simp: check_simps)

lemma mapE_nth: "mapE f xs = Inr ys \<Longrightarrow> k < length xs \<Longrightarrow> f (xs ! k) = Inr (ys ! k)"
proof (induction xs arbitrary: ys k)
  case (Cons x xs)
  then show ?case by (cases k) (auto simp: check_simps)
qed simp

lemma mapE_total: "\<forall>x \<in> set xs. \<exists>y. f x = Inr y \<Longrightarrow> \<exists>ys. mapE f xs = Inr ys"
  by (induction xs) auto

section \<open>Dictionaries that keep insertion order\<close>

text \<open>
  A Python dict iterates in insertion order; where the order is observable it is modelled by
  an association list with distinct keys.  \<open>dict_set\<close> overwrites in place or appends.
\<close>

fun dict_set :: "'k \<Rightarrow> 'v \<Rightarrow> ('k \<times> 'v) list \<Rightarrow> ('k \<times> 'v) list" where
  "dict_set k v [] = [(k, v)]"
| "dict_set k v ((k', v') # d) = (if k' = k then (k, v) # d else (k', v') # dict_set k v d)"

lemma map_of_dict_set [simp]: "map_of (dict_set k v d) = (map_of d)(k \<mapsto> v)"
  by (induction d) (auto simp: fun_upd_twist)

lemma keys_dict_set [simp]: "fst ` set (dict_set k v d) = insert k (fst ` set d)"
  by (induction k v d rule: dict_set.induct) (simp_all add: insert_commute)

lemma distinct_dict_set [fresh_intro]:
  "distinct (map fst d) \<Longrightarrow> distinct (map fst (dict_set k v d))"
  by (induction k v d rule: dict_set.induct) auto

lemma length_dict_set:
  "length (dict_set k v d) = (if k \<in> fst ` set d then length d else Suc (length d))"
  by (induction k v d rule: dict_set.induct) simp_all

section \<open>Lists\<close>

lemma sum_list_update:
  fixes xs :: "'a::ab_group_add list"
  shows "i < length xs \<Longrightarrow> sum_list (xs[i := v]) = sum_list xs + v - xs ! i"
proof (induction xs arbitrary: i)
  case (Cons x xs)
  then show ?case by (cases i) (simp_all add: algebra_simps)
qed simp

lemma sum_list_members_le:
  fixes xs :: "int list"
  assumes "\<forall>x \<in> set xs. 0 \<le> x" "x \<in> set xs" shows "x \<le> sum_list xs"
  using assms member_le_sum_list by blast

lemma set_updateD: "x \<in> set (xs[i := v]) \<Longrightarrow> x = v \<or> x \<in> set xs"
  using set_update_subset_insert[of xs i v] by blast

lemma ball_update: "\<forall>x \<in> set xs. P x \<Longrightarrow> P v \<Longrightarrow> \<forall>x \<in> set (xs[i := v]). P x"
  by (blast dest: set_updateD)

lemma list_all_update:
  "list_all P xs \<Longrightarrow> P v \<Longrightarrow> list_all P (xs[i := v])"
  unfolding list_all_iff by (rule ball_update)

text \<open>An update guarded by its own index: beyond the end nothing changes.\<close>

lemma ball_update_guarded:
  "\<forall>x \<in> set xs. P x \<Longrightarrow> (i < length xs \<Longrightarrow> P v) \<Longrightarrow> \<forall>x \<in> set (xs[i := v]). P x"
  by (cases "i < length xs") (auto simp: list_update_beyond dest: set_updateD)

lemma map2_nth:
  "i < length xs \<Longrightarrow> i < length ys \<Longrightarrow> map2 f xs ys ! i = f (xs ! i) (ys ! i)"
  by simp

lemma count_list_True_update:
  "i < length xs \<Longrightarrow> \<not> xs ! i \<Longrightarrow> count_list (xs[i := True]) True = Suc (count_list xs True)"
proof (induction xs arbitrary: i)
  case (Cons x xs)
  then show ?case by (cases i) auto
qed simp

lemma count_list_False_update:
  "i < length xs \<Longrightarrow> xs ! i \<Longrightarrow> Suc (count_list (xs[i := False]) True) = count_list xs True"
proof (induction xs arbitrary: i)
  case (Cons x xs)
  then show ?case by (cases i) auto
qed simp

lemma nth_update_if: "xs[i := x] ! j = (if i = j \<and> j < length xs then x else xs ! j)"
  by (cases "i < length xs") (auto simp: nth_list_update list_update_beyond)

end
