(* ===== verification/PyFloat.thy ===== *)
theory PyFloat
  imports Prelude Complex_Main
begin

text \<open>
  The floating-point arithmetic of the program.  Python's \<^verbatim>\<open>float\<close> is IEEE binary64 and the
  NumPy arrays hold binary32 or binary64 values; every arithmetic operation of either is the
  exact operation followed by one rounding to nearest, ties to even.  A finite float is
  represented by the rational number it denotes, and \<open>r32\<close> and \<open>r64\<close> are the two roundings,
  subnormal range included.  Exponents are not bounded above: an overflow to infinity does
  not occur in the model.  The two zeros are one value, as they are for every comparison.
  The locale \<open>rounding\<close> states what the clients rely on; both roundings interpret it.
  Scalars that the code itself tests with \<^verbatim>\<open>isfinite\<close> have the type \<open>pyfloat\<close>, which has the
  infinities and NaN.
\<close>

section \<open>Rounding to nearest, ties to even\<close>

definition rne :: "rat \<Rightarrow> int" where
  "rne r = (let f = \<lfloor>r\<rfloor>; d = r - of_int f in
     if d < 1/2 then f else if 1/2 < d then f + 1 else if even f then f else f + 1)"

function nlog2 :: "int \<Rightarrow> nat" where
  "nlog2 n = (if n < 2 then 0 else Suc (nlog2 (n div 2)))"
  by pat_completeness auto
termination
  by (relation "measure nat") auto

declare nlog2.simps [simp del]

text \<open>The exponent of a positive rational: \<open>2\<^bsup>e\<^esup> \<le> x < 2\<^bsup>e+1\<^esup>\<close>.\<close>

definition expo :: "rat \<Rightarrow> int" where
  "expo x = (if 1 \<le> x then int (nlog2 \<lfloor>x\<rfloor>)
     else let k = nlog2 \<lfloor>1 / x\<rfloor> in if x * 2 ^ k = 1 then - int k else - int k - 1)"

definition quantum :: "nat \<Rightarrow> int \<Rightarrow> rat \<Rightarrow> int" where
  "quantum p qmin x = max (expo x - int p + 1) qmin"

definition round_pos :: "nat \<Rightarrow> int \<Rightarrow> rat \<Rightarrow> rat" where
  "round_pos p qmin x = (let q = 2 powi quantum p qmin x in of_int (rne (x / q)) * q)"

definition round_float :: "nat \<Rightarrow> int \<Rightarrow> rat \<Rightarrow> rat" where
  "round_float p qmin x =
     (if x = 0 then 0 else if x < 0 then - round_pos p qmin (- x) else round_pos p qmin x)"

definition r32 :: "rat \<Rightarrow> rat" where
  "r32 = round_float 24 (- 149)"

definition r64 :: "rat \<Rightarrow> rat" where
  "r64 = round_float 53 (- 1074)"

section \<open>Facts about the rounding\<close>

lemma rne_of_int [simp]: "rne (of_int n) = n"
  by (simp add: rne_def)

lemma rne_mono: assumes "x \<le> y" shows "rne x \<le> rne y"
proof (cases "\<lfloor>x\<rfloor> = \<lfloor>y\<rfloor>")
  case True
  then show ?thesis using assms by (auto simp: rne_def Let_def)
next
  case False
  with assms have "\<lfloor>x\<rfloor> + 1 \<le> \<lfloor>y\<rfloor>"
    using floor_mono[OF assms] by linarith
  moreover have "rne x \<le> \<lfloor>x\<rfloor> + 1" by (simp add: rne_def Let_def)
  moreover have "\<lfloor>y\<rfloor> \<le> rne y" by (simp add: rne_def Let_def)
  ultimately show ?thesis by linarith
qed

lemma rne_nonneg: "0 \<le> x \<Longrightarrow> 0 \<le> rne x"
  using rne_mono[of 0 x] rne_of_int[of 0] by simp

lemma nlog2_bounds: "1 \<le> n \<Longrightarrow> 2 ^ nlog2 n \<le> n \<and> n < 2 ^ Suc (nlog2 n)"
proof (induction n rule: nlog2.induct)
  case (1 n)
  show ?case
  proof (cases "n < 2")
    case True
    with 1 show ?thesis by (simp add: nlog2.simps[of n])
  next
    case False
    with 1 have "2 ^ nlog2 (n div 2) \<le> n div 2 \<and> n div 2 < 2 ^ Suc (nlog2 (n div 2))"
      by simp
    with False show ?thesis by (simp add: nlog2.simps[of n]) linarith
  qed
qed

lemma nlog2_rat:
  assumes "1 \<le> (x::rat)"
  shows "2 ^ nlog2 \<lfloor>x\<rfloor> \<le> x" and "x < 2 * 2 ^ nlog2 \<lfloor>x\<rfloor>"
proof -
  define n where "n = \<lfloor>x\<rfloor>"
  have "1 \<le> n" using assms by (simp add: le_floor_iff n_def)
  then have b: "2 ^ nlog2 n \<le> n" "n + 1 \<le> 2 * 2 ^ nlog2 n"
    using nlog2_bounds by (simp_all add: add1_zle_eq)
  have "(2 ^ nlog2 n :: rat) = of_int (2 ^ nlog2 n)" by simp
  also have "\<dots> \<le> of_int n" using b(1) of_int_le_iff by blast
  also have "\<dots> \<le> x" by (simp only: n_def of_int_floor_le)
  finally show "2 ^ nlog2 \<lfloor>x\<rfloor> \<le> x" by (simp only: n_def)
  have "x < of_int \<lfloor>x\<rfloor> + 1" by linarith
  also have "\<dots> = of_int (n + 1)" by (simp add: n_def)
  also have "\<dots> \<le> of_int (2 * 2 ^ nlog2 n)" using b(2) of_int_le_iff by blast
  also have "\<dots> = 2 * 2 ^ nlog2 n" by simp
  finally show "x < 2 * 2 ^ nlog2 \<lfloor>x\<rfloor>" by (simp only: n_def)
qed

lemma expo_bounds:
  assumes "0 < x"
  shows "2 powi expo x \<le> x" and "x < 2 powi (expo x + 1)"
proof -
  have "2 powi expo x \<le> x \<and> x < 2 powi (expo x + 1)"
  proof (cases "1 \<le> x")
    case True
    then show ?thesis
      using nlog2_rat[OF True] by (simp add: expo_def power_int_add)
  next
    case False
    define k where "k = nlog2 \<lfloor>1 / x\<rfloor>"
    have "1 \<le> 1 / x" using False assms by (simp add: field_simps)
    from nlog2_rat[OF this] have b: "2 ^ k \<le> 1 / x" "1 / x < 2 * 2 ^ k"
      by (simp_all add: k_def)
    then have b': "x * 2 ^ k \<le> 1" "1 < x * (2 * 2 ^ k)"
      using assms by (simp_all add: field_simps)
    show ?thesis
    proof (cases "x * 2 ^ k = 1")
      case True
      then have x: "x = 1 / 2 ^ k" by (simp add: field_simps)
      have e: "expo x = - int k" using False True by (simp add: expo_def k_def)
      have p: "2 powi (- int k) = x" by (simp add: power_int_minus x field_simps)
      have "2 powi (- int k + 1) = 2 powi (- int k) * (2 powi 1 :: rat)"
        by (rule power_int_add) simp
      then show ?thesis using assms p unfolding e by simp
    next
      case F2: False
      then have e: "expo x = - int k - 1" using False by (simp add: expo_def k_def Let_def)
      have lt: "x < 1 / 2 ^ k" using b'(1) F2 by (simp add: field_simps)
      have le: "1 / (2 * 2 ^ k) \<le> x" using b'(2) by (simp add: field_simps)
      have p: "2 powi (- int k) = (1 / 2 ^ k :: rat)"
        by (simp add: power_int_minus field_simps)
      have "2 powi (- int k - 1) = 2 powi (- int k) / (2 powi 1 :: rat)"
        by (rule power_int_diff) simp
      then show ?thesis using lt le p unfolding e by simp
    qed
  qed
  then show "2 powi expo x \<le> x" and "x < 2 powi (expo x + 1)" by simp_all
qed

lemma powi2_pos [simp]: "0 < (2 powi k :: rat)"
  by (simp add: zero_less_power_int)

lemma powi2_mono: "a \<le> b \<Longrightarrow> (2 powi a :: rat) \<le> 2 powi b"
  by (rule power_int_increasing) simp_all

lemma powi2_less_iff: "(2 powi a :: rat) < 2 powi b \<longleftrightarrow> a < b"
  by (metis linorder_not_le powi2_mono power_int_strict_increasing one_less_numeral_iff semiring_norm(76))

lemma expo_mono: assumes "0 < x" "x \<le> y" shows "expo x \<le> expo y"
proof -
  have "2 powi expo x < (2 powi (expo y + 1) :: rat)"
    using expo_bounds[OF assms(1)] expo_bounds[of y] assms by linarith
  then show ?thesis by (simp add: powi2_less_iff)
qed

text \<open>A power of two above the quantum is a fixed point that rounding cannot cross.\<close>

lemma powi2_quotient:
  assumes "q \<le> j" shows "2 powi j / 2 powi q = (of_int (2 ^ nat (j - q)) :: rat)"
proof -
  have "2 powi j / 2 powi q = (2 powi (j - q) :: rat)" by (simp add: power_int_diff)
  also have "\<dots> = 2 ^ nat (j - q)" using assms by (simp add: power_int_def)
  finally show ?thesis by simp
qed

lemma round_pos_le_multiple:
  assumes "x \<le> of_int m * 2 powi quantum p qmin x"
  shows "round_pos p qmin x \<le> of_int m * 2 powi quantum p qmin x"
proof -
  let ?q = "2 powi quantum p qmin x :: rat"
  have "x / ?q \<le> of_int m" using assms by (simp add: pos_divide_le_eq)
  from rne_mono[OF this] have "rne (x / ?q) \<le> m" by simp
  then show ?thesis by (simp add: round_pos_def Let_def)
qed

lemma round_pos_ge_multiple:
  assumes "of_int m * 2 powi quantum p qmin x \<le> x"
  shows "of_int m * 2 powi quantum p qmin x \<le> round_pos p qmin x"
proof -
  let ?q = "2 powi quantum p qmin x :: rat"
  have "of_int m \<le> x / ?q" using assms by (simp add: pos_le_divide_eq)
  from rne_mono[OF this] have "m \<le> rne (x / ?q)" by simp
  then show ?thesis by (simp add: round_pos_def Let_def)
qed

lemma multiple_of_quantum:
  assumes "q \<le> j"
  shows "\<exists>m. (of_int n * 2 powi j :: rat) = of_int m * 2 powi q"
proof -
  have "(of_int n * 2 powi j :: rat) = of_int n * (2 powi j / 2 powi q) * 2 powi q"
    by simp
  also have "\<dots> = of_int (n * 2 ^ nat (j - q)) * 2 powi q"
    by (simp add: powi2_quotient[OF assms] del: of_int_power)
  finally show ?thesis by blast
qed

lemma round_pos_fixed:
  assumes "x = of_int m * 2 powi q" and "quantum p qmin x \<le> q"
  shows "round_pos p qmin x = x"
proof -
  obtain m' where "x = of_int m' * 2 powi quantum p qmin x"
    using multiple_of_quantum[OF assms(2), of m] assms(1) by auto
  then show ?thesis
    using round_pos_le_multiple[of x m' p qmin] round_pos_ge_multiple[of m' p qmin x] by simp
qed

lemma quantum_mono: "0 < x \<Longrightarrow> x \<le> y \<Longrightarrow> quantum p qmin x \<le> quantum p qmin y"
  using expo_mono[of x y] by (auto simp: quantum_def)

lemma round_pos_mono:
  assumes "0 < x" "x \<le> y" "0 < p" shows "round_pos p qmin x \<le> round_pos p qmin y"
proof (cases "quantum p qmin x = quantum p qmin y")
  case True
  have "x / 2 powi quantum p qmin y \<le> y / 2 powi quantum p qmin y"
    using assms(2) by (simp add: divide_right_mono)
  from rne_mono[OF this] show ?thesis
    by (simp add: round_pos_def Let_def True)
next
  case False
  then have lt: "quantum p qmin x < quantum p qmin y"
    using quantum_mono[OF assms(1,2), of p qmin] by linarith
  then have qy: "quantum p qmin y = expo y - int p + 1"
    by (simp add: quantum_def max_def split: if_splits)
  have ex: "expo x < expo y" using lt qy by (simp add: quantum_def)
  let ?B = "2 powi expo y :: rat"
  have xB: "x \<le> ?B"
    using expo_bounds(2)[OF assms(1)] powi2_mono[of "expo x + 1" "expo y"] ex by linarith
  have "quantum p qmin x \<le> expo y" using lt qy assms(3) by linarith
  from multiple_of_quantum[OF this, of 1] obtain m where
    "?B = of_int m * 2 powi quantum p qmin x" by auto
  then have "round_pos p qmin x \<le> ?B"
    using round_pos_le_multiple[of x m p qmin] xB by simp
  moreover have "quantum p qmin y \<le> expo y" using qy assms(3) by linarith
  from multiple_of_quantum[OF this, of 1] obtain m' where
    "?B = of_int m' * 2 powi quantum p qmin y" by auto
  then have "?B \<le> round_pos p qmin y"
    using round_pos_ge_multiple[of m' p qmin y] expo_bounds(1)[of y] assms by simp
  ultimately show ?thesis by linarith
qed

lemma round_pos_nonneg: "0 \<le> x \<Longrightarrow> 0 \<le> round_pos p qmin x"
  by (simp add: round_pos_def Let_def rne_nonneg)

lemma round_float_0 [simp]: "round_float p qmin 0 = 0"
  by (simp add: round_float_def)

lemma round_float_minus: "round_float p qmin (- x) = - round_float p qmin x"
  by (simp add: round_float_def)

lemma round_float_nonneg: "0 \<le> x \<Longrightarrow> 0 \<le> round_float p qmin x"
  by (simp add: round_float_def round_pos_nonneg)

lemma round_float_mono:
  assumes "x \<le> y" "0 < p" shows "round_float p qmin x \<le> round_float p qmin y"
proof -
  consider "0 < x" | "x \<le> 0" "0 \<le> y" | "y < 0" by linarith
  then show ?thesis
  proof cases
    case 1
    then show ?thesis using assms round_pos_mono[of x y p qmin] by (simp add: round_float_def)
  next
    case 2
    then have "round_float p qmin x \<le> 0"
      using round_float_nonneg[of "- x" p qmin] by (simp add: round_float_minus)
    also have "0 \<le> round_float p qmin y" using 2 by (simp add: round_float_nonneg)
    finally show ?thesis .
  next
    case 3
    then show ?thesis using assms round_pos_mono[of "- y" "- x" p qmin]
      by (simp add: round_float_def)
  qed
qed

text \<open>Every number with a \<open>p\<close>-bit significand is represented exactly.\<close>

lemma round_pos_exact:
  assumes "0 < x" "x = of_int m * 2 powi q" "\<bar>m\<bar> < 2 ^ p" "qmin \<le> q"
  shows "round_pos p qmin x = x"
proof (rule round_pos_fixed[OF assms(2)])
  have "m < 2 ^ p" using assms(3) by linarith
  then have "(of_int m :: rat) < of_int (2 ^ p)" by (simp only: of_int_less_iff)
  then have "of_int m * 2 powi q < (2 ^ p * 2 powi q :: rat)"
    by (intro mult_strict_right_mono) simp_all
  then have "x < 2 powi (int p + q)"
    by (simp add: assms(2) power_int_add)
  then have "2 powi expo x < (2 powi (int p + q) :: rat)"
    using expo_bounds(1)[OF assms(1)] by linarith
  then have "expo x < int p + q" by (simp add: powi2_less_iff)
  then show "quantum p qmin x \<le> q" using assms(4) by (simp add: quantum_def)
qed

lemma round_float_exact_strict:
  assumes "x = of_int m * 2 powi q" "\<bar>m\<bar> < 2 ^ p" "qmin \<le> q"
  shows "round_float p qmin x = x"
proof -
  consider "x = 0" | "0 < x" | "x < 0" by linarith
  then show ?thesis
  proof cases
    case 2
    then show ?thesis using round_pos_exact[OF 2 assms] by (simp add: round_float_def)
  next
    case 3
    then have "round_pos p qmin (- x) = - x"
      using round_pos_exact[of "- x" "- m" q p qmin] assms by simp
    then show ?thesis using 3 by (simp add: round_float_def)
  qed simp
qed

lemma round_float_exact:
  assumes "x = of_int m * 2 powi q" "\<bar>m\<bar> \<le> 2 ^ p" "qmin \<le> q" "0 < p"
  shows "round_float p qmin x = x"
proof (cases "\<bar>m\<bar> = 2 ^ p")
  case True
  have "x = of_int (sgn m) * 2 powi (int p + q)"
    using assms(1) sgn_mult_abs[of m, symmetric] True
    by (simp add: power_int_add) (metis of_int_mult of_int_numeral of_int_power)
  moreover have "\<bar>sgn m\<bar> < (2::int) ^ p" using assms(4) by (simp add: abs_sgn_eq)
  ultimately show ?thesis
    using round_float_exact_strict[of x "sgn m" "int p + q" p qmin] assms(3) by simp
next
  case False
  then show ?thesis using round_float_exact_strict[OF assms(1) _ assms(3)] assms(2) by simp
qed

lemma round_float_of_int:
  "\<bar>n\<bar> \<le> 2 ^ p \<Longrightarrow> 0 < p \<Longrightarrow> qmin \<le> 0 \<Longrightarrow> round_float p qmin (of_int n) = of_int n"
  using round_float_exact[of "of_int n" n 0 p qmin] by simp

lemma round_pos_representable:
  assumes "0 < x"
  obtains m where "round_pos p qmin x = of_int m * 2 powi quantum p qmin x" "\<bar>m\<bar> \<le> 2 ^ p"
proof -
  let ?q = "quantum p qmin x"
  have "expo x + 1 \<le> int p + ?q" by (simp add: quantum_def)
  then have "x \<le> 2 powi (int p + ?q)"
    using expo_bounds(2)[OF assms] powi2_mono[of "expo x + 1" "int p + ?q"] by linarith
  then have "x / 2 powi ?q \<le> of_int (2 ^ p)"
    by (simp add: power_int_add pos_divide_le_eq)
  from rne_mono[OF this] have "rne (x / 2 powi ?q) \<le> 2 ^ p" by (simp only: rne_of_int)
  moreover have "0 \<le> rne (x / 2 powi ?q)" using assms by (simp add: rne_nonneg)
  ultimately show ?thesis using that by (simp add: round_pos_def Let_def)
qed

lemma round_float_idem:
  assumes "0 < p" shows "round_float p qmin (round_float p qmin x) = round_float p qmin x"
proof -
  have pos: "round_float p qmin (round_pos p qmin y) = round_pos p qmin y" if "0 < y" for y
  proof -
    obtain m where "round_pos p qmin y = of_int m * 2 powi quantum p qmin y" "\<bar>m\<bar> \<le> 2 ^ p"
      using round_pos_representable[OF \<open>0 < y\<close>] by metis
    then show ?thesis
      using round_float_exact[of "round_pos p qmin y" m "quantum p qmin y" p qmin] assms
      by (simp add: quantum_def)
  qed
  consider "x = 0" | "0 < x" | "x < 0" by linarith
  then show ?thesis
  proof cases
    case 2
    then show ?thesis using pos[of x] by (simp add: round_float_def[of p qmin x])
  next
    case 3
    then show ?thesis using pos[of "- x"]
      by (simp add: round_float_def[of p qmin x] round_float_minus)
  qed simp
qed

section \<open>Evaluation on literals\<close>

lemma floor_rat_literals [simp]:
  "\<lfloor>numeral a / numeral b :: rat\<rfloor> = numeral a div numeral b"
  "\<lfloor>1 / numeral b :: rat\<rfloor> = 1 div numeral b"
  using floor_divide_of_int_eq[of "numeral a" "numeral b", where 'a = rat]
    floor_divide_of_int_eq[of 1 "numeral b", where 'a = rat] by simp_all

lemmas float_eval = r32_def r64_def round_float_def round_pos_def quantum_def expo_def
  nlog2.simps rne_def Let_def power_int_def power_divide

section \<open>The interface of a rounding\<close>

locale rounding =
  fixes rd :: "rat \<Rightarrow> rat"
  assumes rd_mono: "x \<le> y \<Longrightarrow> rd x \<le> rd y"
    and rd_idem: "rd (rd x) = rd x"
    and rd_minus: "rd (- x) = - rd x"
    and rd_int: "\<bar>n\<bar> \<le> 2 ^ 24 \<Longrightarrow> rd (of_int n) = of_int n"
begin

lemma rd_0 [simp]: "rd 0 = 0"
  using rd_int[of 0] by simp

lemma rd_1 [simp]: "rd 1 = 1"
  using rd_int[of 1] by simp

lemma rd_nonneg: "0 \<le> x \<Longrightarrow> 0 \<le> rd x"
  using rd_mono[of 0 x] by simp

lemma rd_nonpos: "x \<le> 0 \<Longrightarrow> rd x \<le> 0"
  using rd_mono[of x 0] by simp

lemma rd_le_float: "x \<le> y \<Longrightarrow> rd y = y \<Longrightarrow> rd x \<le> y"
  using rd_mono[of x y] by simp

lemma rd_ge_float: "y \<le> x \<Longrightarrow> rd y = y \<Longrightarrow> y \<le> rd x"
  using rd_mono[of y x] by simp

text \<open>Adding a non-negative number to a float never takes it below that float.\<close>

lemma rd_add_ge: "rd a = a \<Longrightarrow> 0 \<le> b \<Longrightarrow> a \<le> rd (a + b)"
  by (rule rd_ge_float) simp_all

lemma rd_add_ge2: "rd b = b \<Longrightarrow> 0 \<le> a \<Longrightarrow> b \<le> rd (a + b)"
  by (rule rd_ge_float) simp_all

text \<open>A quotient of a float by a larger one is at most one; a share of a float is at most
  that float.\<close>

lemma rd_div_le_1: "0 \<le> a \<Longrightarrow> a \<le> b \<Longrightarrow> 0 < b \<Longrightarrow> rd (a / b) \<le> 1"
  by (rule rd_le_float) simp_all

lemma rd_mult_share_le: "rd a = a \<Longrightarrow> 0 \<le> a \<Longrightarrow> s \<le> 1 \<Longrightarrow> rd (a * s) \<le> a"
  by (rule rd_le_float) (simp_all add: mult_left_le)

lemma rd_max: "rd a = a \<Longrightarrow> rd b = b \<Longrightarrow> rd (max a b) = max a b"
  by (simp add: max_def)

lemma rd_min: "rd a = a \<Longrightarrow> rd b = b \<Longrightarrow> rd (min a b) = min a b"
  by (simp add: min_def)

lemma rd_add_ints:
  assumes "\<bar>m + n\<bar> \<le> 2 ^ 24" shows "rd (of_int m + of_int n) = of_int (m + n)"
  using rd_int[OF assms] by simp

end

interpretation f32: rounding r32
proof
  show "\<And>x y. x \<le> y \<Longrightarrow> r32 x \<le> r32 y" by (simp add: r32_def round_float_mono)
  show "\<And>x. r32 (r32 x) = r32 x" by (simp add: r32_def round_float_idem)
  show "\<And>x. r32 (- x) = - r32 x" by (simp add: r32_def round_float_minus)
  show "\<And>n. \<bar>n\<bar> \<le> 2 ^ 24 \<Longrightarrow> r32 (of_int n) = of_int n"
    by (simp add: r32_def round_float_of_int)
qed

interpretation f64: rounding r64
proof
  show "\<And>x y. x \<le> y \<Longrightarrow> r64 x \<le> r64 y" by (simp add: r64_def round_float_mono)
  show "\<And>x. r64 (r64 x) = r64 x" by (simp add: r64_def round_float_idem)
  show "\<And>x. r64 (- x) = - r64 x" by (simp add: r64_def round_float_minus)
  show "\<And>n. \<bar>n\<bar> \<le> 2 ^ 24 \<Longrightarrow> r64 (of_int n) = of_int n"
    by (simp add: r64_def round_float_of_int)
qed

lemma r32_of_int: "\<bar>n\<bar> \<le> 2 ^ 24 \<Longrightarrow> r32 (of_int n) = of_int n"
  by (rule f32.rd_int)

text \<open>The rounding of an integer is an integer; half-integers below \<open>2\<^bsup>23\<^esup>\<close> are exact, so a small
  tolerance never changes the whole part of a token count.\<close>

lemma round_pos_of_int: "0 < p \<Longrightarrow> qmin \<le> 0 \<Longrightarrow> 0 < n \<Longrightarrow> \<exists>m. round_pos p qmin (of_int n) = of_int m"
proof -
  assume p: "0 < p" "qmin \<le> 0" "0 < n"
  let ?q = "quantum p qmin (of_int n)"
  show ?thesis
  proof (cases "?q \<le> 0")
    case True
    then show ?thesis using round_pos_fixed[of "of_int n" n 0 p qmin] by auto
  next
    case False
    then have "2 powi ?q = (of_int (2 ^ nat ?q) :: rat)" by (simp add: power_int_def)
    then show ?thesis
      unfolding round_pos_def Let_def by (metis of_int_mult)
  qed
qed

lemma r32_int: "\<exists>m. r32 (of_int n) = of_int m"
proof -
  consider "n = 0" | "0 < n" | "n < 0" by linarith
  then show ?thesis
  proof cases
    case 1
    then show ?thesis by (intro exI[of _ 0]) (simp add: r32_def)
  next
    case 2
    then show ?thesis using round_pos_of_int[of 24 "- 149" n] by (simp add: r32_def round_float_def)
  next
    case 3
    then obtain m where "round_pos 24 (- 149) (of_int (- n)) = of_int m"
      using round_pos_of_int[of 24 "- 149" "- n"] by auto
    then show ?thesis using 3
      by (intro exI[of _ "- m"]) (simp add: r32_def round_float_def)
  qed
qed

lemma r32_half: "0 \<le> n \<Longrightarrow> n < 2 ^ 23 \<Longrightarrow> r32 (of_int n + 1 / 2) = of_int n + 1 / 2"
  unfolding r32_def
  by (rule round_float_exact[of _ "2 * n + 1" "- 1"]) (simp_all add: power_int_def field_simps)

lemma floor_tolerance:
  assumes "0 \<le> n" "n < 2 ^ 23" "0 \<le> e" "e \<le> 1 / 2"
  shows "\<lfloor>r32 (of_int n + e)\<rfloor> = n"
proof -
  have "of_int n \<le> r32 (of_int n + e)"
    by (rule f32.rd_add_ge) (use assms in \<open>simp_all add: r32_of_int\<close>)
  moreover have "r32 (of_int n + e) \<le> of_int n + 1 / 2"
    by (rule f32.rd_le_float) (use assms r32_half in simp_all)
  ultimately show ?thesis by linarith
qed

lemma r64_half: "0 \<le> n \<Longrightarrow> n < 2 ^ 23 \<Longrightarrow> r64 (of_int n + 1 / 2) = of_int n + 1 / 2"
  unfolding r64_def
  by (rule round_float_exact[of _ "2 * n + 1" "- 1"]) (simp_all add: power_int_def field_simps)

lemma floor_tolerance64:
  assumes "0 \<le> n" "n < 2 ^ 23" "0 \<le> e" "e \<le> 1 / 2"
  shows "\<lfloor>r64 (of_int n + e)\<rfloor> = n"
proof -
  have "of_int n \<le> r64 (of_int n + e)"
    by (rule f64.rd_add_ge) (use assms f64.rd_int[of n] in simp_all)
  moreover have "r64 (of_int n + e) \<le> of_int n + 1 / 2"
    by (rule f64.rd_le_float) (use assms r64_half in simp_all)
  ultimately show ?thesis by linarith
qed

text \<open>The values of a float32 array and of a Python float.\<close>

definition is_f32 :: "rat \<Rightarrow> bool" where
  "is_f32 x \<longleftrightarrow> r32 x = x"

definition is_f64 :: "rat \<Rightarrow> bool" where
  "is_f64 x \<longleftrightarrow> r64 x = x"

lemma is_f32_r32 [simp]: "is_f32 (r32 x)"
  by (simp add: is_f32_def f32.rd_idem)

lemma is_f64_r64 [simp]: "is_f64 (r64 x)"
  by (simp add: is_f64_def f64.rd_idem)

lemma r32_id [simp]: "is_f32 x \<Longrightarrow> r32 x = x"
  by (simp add: is_f32_def)

lemma r64_id [simp]: "is_f64 x \<Longrightarrow> r64 x = x"
  by (simp add: is_f64_def)

lemma is_f32_0 [simp]: "is_f32 0" and is_f32_1 [simp]: "is_f32 1"
  by (simp_all add: is_f32_def)

lemma is_f32_of_int: "\<bar>n\<bar> \<le> 2 ^ 24 \<Longrightarrow> is_f32 (of_int n)"
  by (simp add: is_f32_def r32_of_int)

lemma is_f32_max: "is_f32 a \<Longrightarrow> is_f32 b \<Longrightarrow> is_f32 (max a b)"
  by (simp add: max_def)

lemma is_f32_min: "is_f32 a \<Longrightarrow> is_f32 b \<Longrightarrow> is_f32 (min a b)"
  by (simp add: min_def)

lemma map_r32_id: "\<forall>x \<in> set xs. is_f32 x \<Longrightarrow> map r32 xs = xs"
  by (simp add: map_idI)

text \<open>A binary32 value is a binary64 value, so widening is exact.\<close>

lemma r64_of_int: "\<bar>n\<bar> \<le> 2 ^ 53 \<Longrightarrow> r64 (of_int n) = of_int n"
  by (simp add: r64_def round_float_of_int)

lemma r64_r32: "r64 (r32 x) = r32 x"
proof -
  have pos: "r64 (round_pos 24 (- 149) y) = round_pos 24 (- 149) y" if "0 < y" for y
  proof -
    obtain m where m: "round_pos 24 (- 149) y = of_int m * 2 powi quantum 24 (- 149) y"
      "\<bar>m\<bar> \<le> 2 ^ 24"
      using round_pos_representable[OF \<open>0 < y\<close>] by metis
    moreover have "\<bar>m\<bar> \<le> 2 ^ 53" using m(2) by simp
    ultimately show ?thesis unfolding r64_def
      by (intro round_float_exact[of _ m "quantum 24 (- 149) y"]) (simp_all add: quantum_def)
  qed
  consider "x = 0" | "0 < x" | "x < 0" by linarith
  then show ?thesis
  proof cases
    case 2
    then show ?thesis using pos[of x] by (simp add: r32_def round_float_def[of 24])
  next
    case 3
    then show ?thesis using pos[of "- x"]
      by (simp add: r32_def round_float_def[of 24] f64.rd_minus)
  qed simp
qed

section \<open>Floats with infinities and NaN\<close>

datatype pyfloat = Fin rat | PosInf | NegInf | NaN

definition isfinite :: "pyfloat \<Rightarrow> bool" where
  "isfinite x = (case x of Fin _ \<Rightarrow> True | _ \<Rightarrow> False)"

text \<open>\<^verbatim>\<open>np.float32(x)\<close>.\<close>

fun pf_r32 :: "pyfloat \<Rightarrow> pyfloat" where
  "pf_r32 (Fin a) = Fin (r32 a)"
| "pf_r32 x = x"

fun pf_le :: "pyfloat \<Rightarrow> pyfloat \<Rightarrow> bool" where
  "pf_le NaN _ = False"
| "pf_le _ NaN = False"
| "pf_le NegInf _ = True"
| "pf_le _ PosInf = True"
| "pf_le (Fin a) (Fin b) = (a \<le> b)"
| "pf_le _ _ = False"

fun pf_lt :: "pyfloat \<Rightarrow> pyfloat \<Rightarrow> bool" where
  "pf_lt NaN _ = False"
| "pf_lt _ NaN = False"
| "pf_lt (Fin a) (Fin b) = (a < b)"
| "pf_lt NegInf b = (b \<noteq> NegInf)"
| "pf_lt a PosInf = (a \<noteq> PosInf)"
| "pf_lt _ _ = False"

fun finite_part :: "pyfloat \<Rightarrow> rat" where
  "finite_part (Fin a) = a"
| "finite_part _ = 0"

lemma isfinite_Fin [simp]: "isfinite (Fin a)"
  by (simp add: isfinite_def)

lemma isfinite_iff: "isfinite x \<longleftrightarrow> (\<exists>a. x = Fin a)"
  by (cases x) (simp_all add: isfinite_def)

lemma pf_le_Fin_bounds: "pf_le (Fin a) x \<Longrightarrow> pf_le x (Fin b) \<Longrightarrow> \<exists>c. x = Fin c \<and> a \<le> c \<and> c \<le> b"
  by (cases x) auto

end
