(* ===== verification/RoadNetwork.thy ===== *)
theory RoadNetwork
  imports PyFloat
begin

text \<open>
  The static road network (src/src/metroflow/city/graph.py): its entities with their
  validating constructors, the topology validation, and the CSR adjacency that routing and
  the flow engine index.  \<open>build_link_csr\<close> is the counting sort of the source, write pointers
  included; the lemmas show that each of its rows lists, in declaration order, exactly the
  links of a node.
\<close>

section \<open>Entities\<close>

datatype road_class = LocalRoad | Collector | Arterial | Expressway | Ramp | Bridge

datatype turn_type = LeftTurn | Through | RightTurn | RampOn | RampOff | UTurnForbidden

record road_node =
  node_id :: int
  node_x :: pyfloat
  node_y :: pyfloat
  node_zone :: "int option"
  signal_group :: "int option"

record road_link =
  link_id :: int
  src_node :: int
  dst_node :: int
  link_class :: road_class
  length_m :: pyfloat
  free_flow_speed :: pyfloat
  link_capacity :: pyfloat
  lanes :: int
  bridge_group :: "int option"
  is_blockable :: bool
  physical_road :: "int option"
  ramp_purpose :: "string option"

text \<open>\<^verbatim>\<open>RoadLink.__post_init__\<close>: the float comparisons are Python's, false on NaN.\<close>

definition make_road_link :: "road_link \<Rightarrow> road_link result" where
  "make_road_link l =
     bindE (checks [
       (src_node l = dst_node l, ''RoadLink src_node_id and dst_node_id must differ''),
       (pf_le (length_m l) (Fin 0), ''RoadLink length_m must be > 0''),
       (pf_le (free_flow_speed l) (Fin 0), ''RoadLink free_flow_speed_mps must be > 0''),
       (pf_lt (link_capacity l) (Fin 0), ''RoadLink capacity_veh_per_tick must be >= 0''),
       (lanes l < 1, ''RoadLink lanes must be >= 1''),
       (link_class l = Bridge \<and> bridge_group l = None,
          ''RoadLink bridge_group_id is required for bridge links''),
       (case physical_road l of None \<Rightarrow> False | Some p \<Rightarrow> p < 0,
          ''RoadLink physical_road_id must be >= 0 when provided''),
       (ramp_purpose l \<notin> {None, Some ''on_ramp'', Some ''off_ramp''},
          ''RoadLink ramp_purpose must be on_ramp or off_ramp when provided''),
       (ramp_purpose l \<noteq> None \<and> link_class l \<noteq> Ramp, ''RoadLink ramp_purpose requires RoadClass.RAMP'')])
     (\<lambda>_. Inr l)"

record turn_movement =
  from_link :: int
  to_link :: int
  movement_type :: turn_type
  base_priority :: pyfloat
  signal_phase :: "int option"

definition make_turn_movement :: "turn_movement \<Rightarrow> turn_movement result" where
  "make_turn_movement t =
     bindE (checks [(pf_lt (base_priority t) (Fin 0), ''TurnMovement base_priority must be >= 0'')])
       (\<lambda>_. Inr t)"

record bridge_crossing =
  crossing_group :: int
  crossing_links :: "int list"
  barrier_id :: int
  crossing_name :: string
  bottleneck_rank :: "int option"

definition make_bridge_crossing :: "bridge_crossing \<Rightarrow> bridge_crossing result" where
  "make_bridge_crossing b =
     bindE (checks [(crossing_links b = [], ''BridgeCrossing link_ids must not be empty'')])
       (\<lambda>_. Inr b)"

section \<open>Topology validation\<close>

datatype topology_issue =
    DuplicateNodeIds
  | DuplicateLinkIds
  | LinkNodeRefMissing int int int
  | BridgeGroupMissing int
  | TurnLinkRefMissing int int
  | TurnLinksNotAdjacent int int int int
  | BridgeCrossingLinkRefMissing int "int list"
  | BridgeCrossingGroupMismatch int "int list"
  | WeakConnectivityMissing nat "nat list"

text \<open>\<^verbatim>\<open>{x.id: x for x in xs}\<close>: the last entry of a key wins.\<close>

definition dict_by :: "('a \<Rightarrow> int) \<Rightarrow> 'a list \<Rightarrow> int \<rightharpoonup> 'a" where
  "dict_by f xs = map_of (rev (map (\<lambda>x. (f x, x)) xs))"

definition link_issues :: "int list \<Rightarrow> road_link \<Rightarrow> topology_issue list" where
  "link_issues ids l =
     (if src_node l \<notin> set ids \<or> dst_node l \<notin> set ids
      then [LinkNodeRefMissing (link_id l) (src_node l) (dst_node l)] else []) @
     (if link_class l = Bridge \<and> bridge_group l = None then [BridgeGroupMissing (link_id l)] else [])"

definition turn_issues :: "(int \<rightharpoonup> road_link) \<Rightarrow> turn_movement \<Rightarrow> topology_issue list" where
  "turn_issues by_id t = (case (by_id (from_link t), by_id (to_link t)) of
       (Some a, Some b) \<Rightarrow>
         if dst_node a \<noteq> src_node b
         then [TurnLinksNotAdjacent (from_link t) (to_link t) (dst_node a) (src_node b)] else []
     | _ \<Rightarrow> [TurnLinkRefMissing (from_link t) (to_link t)])"

definition crossing_issues :: "(int \<rightharpoonup> road_link) \<Rightarrow> bridge_crossing \<Rightarrow> topology_issue list" where
  "crossing_issues by_id c =
     (let missing = filter (\<lambda>i. by_id i = None) (crossing_links c) in
      if missing \<noteq> [] then [BridgeCrossingLinkRefMissing (crossing_group c) missing]
      else let mismatched = filter (\<lambda>i. bridge_group (the (by_id i)) \<noteq> Some (crossing_group c))
                 (crossing_links c) in
        if mismatched \<noteq> [] then [BridgeCrossingGroupMismatch (crossing_group c) mismatched] else [])"

text \<open>\<open>component_sizes\<close> is the weak-connectivity analysis, theory Connectivity.\<close>

definition validate_road_network_topology :: "(int list \<Rightarrow> road_link list \<Rightarrow> nat list) \<Rightarrow>
    road_node list \<Rightarrow> road_link list \<Rightarrow> turn_movement list \<Rightarrow> bridge_crossing list \<Rightarrow> bool \<Rightarrow>
    topology_issue list" where
  "validate_road_network_topology component_sizes nodes links turns crossings weak =
     (let ids = map node_id nodes; by_id = dict_by link_id links;
          issues =
            (if \<not> distinct ids then [DuplicateNodeIds] else []) @
            (if \<not> distinct (map link_id links) then [DuplicateLinkIds] else []) @
            concat (map (link_issues ids) links) @
            concat (map (turn_issues by_id) turns) @
            concat (map (crossing_issues by_id) crossings)
      in if weak \<and> issues = []
         then let sizes = component_sizes ids links in
           if 1 < length sizes then [WeakConnectivityMissing (length sizes) sizes] else []
         else issues)"

section \<open>CSR adjacency\<close>

definition csr_counts :: "nat \<Rightarrow> nat list \<Rightarrow> nat list" where
  "csr_counts n idxs = fold (\<lambda>v c. c[v := Suc (c ! v)]) idxs (replicate n 0)"

fun prefix_sums :: "nat \<Rightarrow> nat list \<Rightarrow> nat list" where
  "prefix_sums s [] = [s]"
| "prefix_sums s (c # cs) = s # prefix_sums (s + c) cs"

text \<open>The state of the fill loop: the write pointers and the indices written so far.\<close>

fun csr_write :: "nat \<times> nat \<Rightarrow> nat list \<times> nat list \<Rightarrow> nat list \<times> nat list" where
  "csr_write (link, v) (ptr, indices) = (ptr[v := ptr ! v + 1], indices[ptr ! v := link])"

definition build_link_csr :: "nat \<Rightarrow> nat list \<Rightarrow> nat list \<times> nat list" where
  "build_link_csr n idxs =
     (let indptr = prefix_sums 0 (csr_counts n idxs) in
      (indptr, snd (fold csr_write (zip [0..<length idxs] idxs)
                     (butlast indptr, replicate (length idxs) 0))))"

definition csr_row :: "nat list \<times> nat list \<Rightarrow> nat \<Rightarrow> nat list" where
  "csr_row csr v = (let (indptr, indices) = csr in
     take (indptr ! (v + 1) - indptr ! v) (drop (indptr ! v) indices))"

section \<open>The rows of the CSR\<close>

text \<open>The links of node \<open>v\<close> among the first \<open>k\<close>, in order.\<close>

definition links_of :: "nat list \<Rightarrow> nat \<Rightarrow> nat \<Rightarrow> nat list" where
  "links_of idxs k v = filter (\<lambda>l. idxs ! l = v) [0..<k]"

lemma links_of_Suc:
  "links_of idxs (Suc k) v = links_of idxs k v @ (if idxs ! k = v then [k] else [])"
  by (simp add: links_of_def)

lemma links_of_mono: "k \<le> m \<Longrightarrow> length (links_of idxs k v) \<le> length (links_of idxs m v)"
  by (induction rule: dec_induct) (simp_all add: links_of_Suc)

lemma prefix_sums_length [simp]: "length (prefix_sums s cs) = Suc (length cs)"
  by (induction cs arbitrary: s) simp_all

lemma prefix_sums_nth: "i \<le> length cs \<Longrightarrow> prefix_sums s cs ! i = s + sum_list (take i cs)"
proof (induction cs arbitrary: s i)
  case (Cons c cs)
  then show ?case by (cases i) (simp_all add: add.assoc)
qed simp

lemma fold_counts_length [simp]: "length (fold (\<lambda>v c. c[v := Suc (c ! v)]) xs c) = length c"
  by (induction xs arbitrary: c) simp_all

lemma fold_counts_nth:
  "\<forall>x \<in> set xs. x < length c \<Longrightarrow> v < length c \<Longrightarrow>
   fold (\<lambda>v c. c[v := Suc (c ! v)]) xs c ! v = c ! v + count_list xs v"
  by (induction xs arbitrary: c) (auto simp: nth_list_update)

lemma csr_counts_length [simp]: "length (csr_counts n idxs) = n"
  by (simp add: csr_counts_def)

lemma count_list_links_of: "k \<le> length idxs \<Longrightarrow> count_list (take k idxs) v = length (links_of idxs k v)"
proof (induction k)
  case (Suc k)
  then show ?case by (simp add: links_of_Suc take_Suc_conv_app_nth)
qed (simp add: links_of_def)

lemma csr_counts_nth:
  "\<forall>x \<in> set idxs. x < n \<Longrightarrow> v < n \<Longrightarrow> csr_counts n idxs ! v = length (links_of idxs (length idxs) v)"
  using count_list_links_of[of "length idxs" idxs v]
  by (simp add: csr_counts_def fold_counts_nth)

definition row_start :: "nat \<Rightarrow> nat list \<Rightarrow> nat \<Rightarrow> nat" where
  "row_start n idxs v = prefix_sums 0 (csr_counts n idxs) ! v"

lemma row_start_Suc:
  assumes "\<forall>x \<in> set idxs. x < n" "v < n"
  shows "row_start n idxs (Suc v) = row_start n idxs v + length (links_of idxs (length idxs) v)"
  using assms csr_counts_nth[OF assms]
  by (simp add: row_start_def prefix_sums_nth take_Suc_conv_app_nth)

lemma row_start_mono:
  assumes "\<forall>x \<in> set idxs. x < n" "v \<le> w" "w \<le> n"
  shows "row_start n idxs v \<le> row_start n idxs w"
  using assms(2,3)
proof (induction rule: dec_induct)
  case (step w)
  then show ?case using row_start_Suc[OF assms(1), of w] by simp
qed simp

lemma row_start_last:
  assumes "\<forall>x \<in> set idxs. x < n" shows "row_start n idxs n = length idxs"
proof -
  have "sum_list (csr_counts n idxs) = sum_list (map (count_list idxs) [0..<n])"
    using assms by (intro arg_cong[of _ _ sum_list] nth_equalityI) (simp_all add: csr_counts_def fold_counts_nth)
  also have "\<dots> = length idxs"
    using assms
  proof (induction idxs)
    case (Cons x xs)
    have "sum_list (map (count_list (x # xs)) [0..<n])
        = sum_list (map (\<lambda>v. count_list xs v + (if x = v then 1 else 0)) [0..<n])"
      by (intro arg_cong[of _ _ sum_list] map_cong) auto
    also have "\<dots> = sum_list (map (count_list xs) [0..<n]) + sum_list (map (\<lambda>v. if x = v then 1 else 0) [0..<n])"
      by (rule sum_list_addf)
    also have "sum_list (map (\<lambda>v. if x = v then 1 else (0::nat)) [0..<n]) = 1"
      using Cons.prems by (simp add: interv_sum_list_conv_sum_set_nat)
    finally show ?case using Cons by simp
  qed simp
  finally show ?thesis by (simp add: row_start_def prefix_sums_nth)
qed

text \<open>Where a link of the list is written.\<close>

definition csr_filled :: "nat \<Rightarrow> nat list \<Rightarrow> nat \<Rightarrow> nat list \<times> nat list \<Rightarrow> bool" where
  "csr_filled n idxs k st \<longleftrightarrow> length (fst st) = n \<and> length (snd st) = length idxs \<and>
     (\<forall>v < n. fst st ! v = row_start n idxs v + length (links_of idxs k v)) \<and>
     (\<forall>v < n. \<forall>j < length (links_of idxs k v).
        snd st ! (row_start n idxs v + j) = links_of idxs k v ! j)"

lemma csr_filled_step:
  assumes "\<forall>x \<in> set idxs. x < n" "k < length idxs" "csr_filled n idxs k st"
  shows "csr_filled n idxs (Suc k) (csr_write (k, idxs ! k) st)"
proof -
  obtain ptr ind where st: "st = (ptr, ind)" by (cases st)
  let ?v = "idxs ! k" and ?m = "length idxs"
  have v: "?v < n" using assms(1,2) by simp
  have room: "Suc (length (links_of idxs k ?v)) \<le> length (links_of idxs ?m ?v)"
    using links_of_mono[of "Suc k" ?m idxs ?v] assms(2) by (simp add: links_of_Suc)
  have pos: "ptr ! ?v = row_start n idxs ?v + length (links_of idxs k ?v)"
    using assms(3) v by (simp add: csr_filled_def st)
  have pos_less: "ptr ! ?v < row_start n idxs (Suc ?v)"
    using pos room row_start_Suc[OF assms(1) v] by simp
  have fits: "ptr ! ?v < ?m"
    using pos_less row_start_mono[OF assms(1), of "Suc ?v" n] row_start_last[OF assms(1)] v by simp
  have other: "row_start n idxs w + j \<noteq> ptr ! ?v"
    if w: "w < n" "w \<noteq> ?v" "j < length (links_of idxs k w)" for w j
  proof -
    have "row_start n idxs w + j < row_start n idxs (Suc w)"
      using row_start_Suc[OF assms(1) w(1)] w(3) links_of_mono[of k ?m idxs w] assms(2) by simp
    moreover have "row_start n idxs (Suc w) \<le> row_start n idxs ?v" if "w < ?v"
      using row_start_mono[OF assms(1), of "Suc w" ?v] that v by simp
    moreover have "row_start n idxs (Suc ?v) \<le> row_start n idxs w" if "?v < w"
      using row_start_mono[OF assms(1), of "Suc ?v" w] that w(1) by simp
    ultimately show ?thesis using pos pos_less w(2) by (cases "w < ?v") auto
  qed
  have len: "length ptr = n" "length ind = ?m" using assms(3) by (simp_all add: csr_filled_def st)
  have written: "ind[ptr ! ?v := k] ! (row_start n idxs w + j) = links_of idxs (Suc k) w ! j"
    if w: "w < n" "j < length (links_of idxs (Suc k) w)" for w j
  proof (cases "j < length (links_of idxs k w)")
    case True
    then have "row_start n idxs w + j \<noteq> ptr ! ?v" using other[of w j] w(1) pos by (cases "w = ?v") auto
    moreover have "ind ! (row_start n idxs w + j) = links_of idxs k w ! j"
      using assms(3) w(1) True by (simp add: csr_filled_def st)
    ultimately show ?thesis using True by (simp add: links_of_Suc nth_append)
  next
    case False
    then have "w = ?v" "j = length (links_of idxs k ?v)"
      using w(2) by (auto simp: links_of_Suc split: if_splits)
    then show ?thesis using pos fits len by (simp add: links_of_Suc)
  qed
  show ?thesis
    using assms(3) len written pos v
    by (auto simp: csr_filled_def st links_of_Suc nth_list_update)
qed

lemma csr_filled_all:
  assumes "\<forall>x \<in> set idxs. x < n" "k \<le> length idxs"
  shows "csr_filled n idxs k (fold csr_write (zip [0..<k] (take k idxs))
    (butlast (prefix_sums 0 (csr_counts n idxs)), replicate (length idxs) 0))"
  using assms(2)
proof (induction k)
  case 0
  then show ?case by (simp add: csr_filled_def links_of_def nth_butlast row_start_def)
next
  case (Suc k)
  then show ?case
    using csr_filled_step[OF assms(1), of k] by (simp add: take_Suc_conv_app_nth)
qed

lemma csr_row_links:
  assumes "\<forall>x \<in> set idxs. x < n" "v < n"
  shows "csr_row (build_link_csr n idxs) v = links_of idxs (length idxs) v"
proof -
  let ?st = "fold csr_write (zip [0..<length idxs] idxs)
    (butlast (prefix_sums 0 (csr_counts n idxs)), replicate (length idxs) 0)"
  have filled: "csr_filled n idxs (length idxs) ?st"
    using csr_filled_all[OF assms(1), of "length idxs"] by simp
  have "row_start n idxs (Suc v) \<le> length idxs"
    using row_start_mono[OF assms(1), of "Suc v" n] row_start_last[OF assms(1)] assms(2) by simp
  then show ?thesis
    using filled assms(2) row_start_Suc[OF assms]
    by (intro nth_equalityI)
      (auto simp: csr_row_def build_link_csr_def Let_def csr_filled_def row_start_def)
qed

section \<open>The network\<close>

record road_network =
  net_nodes :: "road_node list"
  net_links :: "road_link list"
  net_turns :: "turn_movement list"
  net_crossings :: "bridge_crossing list"
  node_index :: "int \<rightharpoonup> nat"
  link_index :: "int \<rightharpoonup> nat"
  link_src :: "nat list"
  link_dst :: "nat list"
  outgoing :: "nat list \<times> nat list"
  incoming :: "nat list \<times> nat list"
  turn_from :: "nat list"
  turn_to :: "nat list"
  turn_priority :: "pyfloat list"
  turn_forbidden :: "bool list"
  turn_pair_index :: "int \<times> int \<rightharpoonup> nat"

text \<open>\<^verbatim>\<open>{x: i for i, x in enumerate(ids)}\<close>.\<close>

definition index_of :: "int list \<Rightarrow> int \<rightharpoonup> nat" where
  "index_of ids = map_of (rev (zip ids [0..<length ids]))"

definition as_int32 :: "int list \<Rightarrow> unit result" where
  "as_int32 xs = raise_if (\<exists>x \<in> set xs. x < - (2 ^ 31) \<or> 2 ^ 31 \<le> x)
     (OverflowError ''Python integer out of bounds for int32'')"

definition lookup_all :: "(int \<rightharpoonup> nat) \<Rightarrow> int list \<Rightarrow> nat list result" where
  "lookup_all m ks = (if \<exists>k \<in> set ks. m k = None then Inl (KeyError ''id'') else Inr (map (the \<circ> m) ks))"

fun collect_turn_pairs :: "(nat \<times> turn_movement \<times> bool) list \<Rightarrow> (int \<times> int \<rightharpoonup> nat) \<Rightarrow>
    (int \<times> int \<rightharpoonup> nat) result" where
  "collect_turn_pairs [] m = Inr m"
| "collect_turn_pairs ((i, t, forb) # ts) m =
     (if forb then collect_turn_pairs ts m
      else if m (from_link t, to_link t) \<noteq> None then Inl (ValueError ''duplicate legal turn pair'')
      else collect_turn_pairs ts (m((from_link t, to_link t) \<mapsto> i)))"

text \<open>\<^verbatim>\<open>RoadNetworkCSR.__post_init__\<close> with every array left to its default.\<close>

definition make_road_network :: "road_node list \<Rightarrow> road_link list \<Rightarrow> turn_movement list \<Rightarrow>
    bridge_crossing list \<Rightarrow> road_network result" where
  "make_road_network nodes links turns crossings =
     (let nidx = index_of (map node_id nodes); lidx = index_of (map link_id links);
          forb = map (\<lambda>t. movement_type t = UTurnForbidden) turns in
      bindE (as_int32 (map node_id nodes)) (\<lambda>_.
      bindE (as_int32 (map link_id links)) (\<lambda>_.
      bindE (lookup_all nidx (map src_node links)) (\<lambda>src.
      bindE (lookup_all nidx (map dst_node links)) (\<lambda>dst.
      bindE (lookup_all lidx (map from_link turns)) (\<lambda>tf.
      bindE (lookup_all lidx (map to_link turns)) (\<lambda>tt.
      bindE (collect_turn_pairs (zip [0..<length turns] (zip turns forb)) Map.empty) (\<lambda>pairs.
      Inr \<lparr>net_nodes = nodes, net_links = links, net_turns = turns, net_crossings = crossings,
        node_index = nidx, link_index = lidx, link_src = src, link_dst = dst,
        outgoing = build_link_csr (length nodes) src, incoming = build_link_csr (length nodes) dst,
        turn_from = tf, turn_to = tt, turn_priority = map (pf_r32 \<circ> base_priority) turns,
        turn_forbidden = forb, turn_pair_index = pairs\<rparr>))))))))"

definition net_node_count :: "road_network \<Rightarrow> nat" where
  "net_node_count net = length (net_nodes net)"

definition net_link_count :: "road_network \<Rightarrow> nat" where
  "net_link_count net = length (net_links net)"

definition net_turn_count :: "road_network \<Rightarrow> nat" where
  "net_turn_count net = length (net_turns net)"

definition outgoing_links_for_node :: "road_network \<Rightarrow> int \<Rightarrow> road_link list result" where
  "outgoing_links_for_node net nid = (case node_index net nid of
       None \<Rightarrow> Inl (KeyError ''node_id'')
     | Some v \<Rightarrow> Inr (map (\<lambda>i. net_links net ! i) (csr_row (outgoing net) v)))"

definition build_road_network_csr :: "(int list \<Rightarrow> road_link list \<Rightarrow> nat list) \<Rightarrow> road_node list \<Rightarrow>
    road_link list \<Rightarrow> turn_movement list \<Rightarrow> bridge_crossing list \<Rightarrow> bool \<Rightarrow> bool \<Rightarrow> road_network result"
  where
  "build_road_network_csr component_sizes nodes links turns crossings validate weak =
     bindE (checks [(validate \<and>
         validate_road_network_topology component_sizes nodes links turns crossings weak \<noteq> [],
         ''Invalid road network topology'')])
       (\<lambda>_. make_road_network nodes links turns crossings)"

section \<open>Facts about a network\<close>

lemma index_of_distinct:
  assumes "distinct ids" shows "index_of ids k = Some i \<longleftrightarrow> i < length ids \<and> ids ! i = k"
proof -
  have "distinct (map fst (rev (zip ids [0..<length ids])))" using assms by (simp flip: rev_map)
  then have "index_of ids k = Some i \<longleftrightarrow> (k, i) \<in> set (zip ids [0..<length ids])"
    by (simp add: index_of_def)
  also have "\<dots> \<longleftrightarrow> i < length ids \<and> ids ! i = k" by (auto simp: in_set_zip)
  finally show ?thesis .
qed

lemma index_of_dom: "dom (index_of ids) = set ids"
proof -
  have "dom (index_of ids) = fst ` set (zip ids [0..<length ids])"
    by (simp add: index_of_def dom_map_of_conv_image_fst)
  also have "\<dots> = set (map fst (zip ids [0..<length ids]))" by (simp only: list.set_map)
  also have "map fst (zip ids [0..<length ids]) = ids" by simp
  finally show ?thesis .
qed

lemma index_of_range: "index_of ids k = Some i \<Longrightarrow> i < length ids \<and> ids ! i = k"
  by (auto simp: index_of_def dest!: map_of_SomeD simp: in_set_zip)

lemma dict_by_distinct:
  assumes "distinct (map f xs)" "x \<in> set xs" shows "dict_by f xs (f x) = Some x"
proof -
  have "distinct (map fst (rev (map (\<lambda>x. (f x, x)) xs)))"
    using assms(1) by (simp add: comp_def flip: rev_map)
  then show ?thesis using assms(2) by (simp add: dict_by_def)
qed

lemma dict_by_SomeD: "dict_by f xs k = Some x \<Longrightarrow> x \<in> set xs \<and> f x = k"
  by (auto simp: dict_by_def dest!: map_of_SomeD)

text \<open>What an accepted topology is.\<close>

definition topology_ok :: "road_node list \<Rightarrow> road_link list \<Rightarrow> turn_movement list \<Rightarrow> bool" where
  "topology_ok nodes links turns \<longleftrightarrow> distinct (map node_id nodes) \<and> distinct (map link_id links) \<and>
     (\<forall>l \<in> set links. src_node l \<in> set (map node_id nodes) \<and> dst_node l \<in> set (map node_id nodes)) \<and>
     (\<forall>t \<in> set turns. \<exists>a \<in> set links. \<exists>b \<in> set links. link_id a = from_link t \<and> link_id b = to_link t \<and>
        dst_node a = src_node b)"

lemma validated_topology_ok:
  assumes "validate_road_network_topology cs nodes links turns crossings weak = []"
  shows "topology_ok nodes links turns"
proof -
  have d: "distinct (map node_id nodes)" "distinct (map link_id links)"
    and l: "\<forall>l \<in> set links. link_issues (map node_id nodes) l = []"
    and t: "\<forall>t \<in> set turns. turn_issues (dict_by link_id links) t = []"
    using assms by (auto simp: validate_road_network_topology_def Let_def split: if_splits)
  have "\<exists>a \<in> set links. \<exists>b \<in> set links. link_id a = from_link t \<and> link_id b = to_link t \<and>
      dst_node a = src_node b" if t': "t \<in> set turns" for t
  proof -
    obtain a b where "dict_by link_id links (from_link t) = Some a"
      "dict_by link_id links (to_link t) = Some b" "dst_node a = src_node b"
      using t t' by (fastforce simp: turn_issues_def split: option.splits if_splits)
    then show ?thesis using dict_by_SomeD[of link_id links] by blast
  qed
  then show ?thesis using d l by (auto simp: topology_ok_def link_issues_def split: if_splits)
qed

definition wf_network :: "road_network \<Rightarrow> bool" where
  "wf_network net \<longleftrightarrow>
     (let n = net_node_count net; m = net_link_count net; k = net_turn_count net in
       node_index net = index_of (map node_id (net_nodes net)) \<and>
       link_index net = index_of (map link_id (net_links net)) \<and>
       distinct (map node_id (net_nodes net)) \<and> distinct (map link_id (net_links net)) \<and>
       length (link_src net) = m \<and> length (link_dst net) = m \<and>
       (\<forall>i < m. link_src net ! i < n \<and> link_dst net ! i < n \<and>
          src_node (net_links net ! i) = node_id (net_nodes net ! (link_src net ! i)) \<and>
          dst_node (net_links net ! i) = node_id (net_nodes net ! (link_dst net ! i))) \<and>
       outgoing net = build_link_csr n (link_src net) \<and> incoming net = build_link_csr n (link_dst net) \<and>
       length (turn_from net) = k \<and> length (turn_to net) = k \<and> length (turn_forbidden net) = k \<and>
       (\<forall>j < k. turn_from net ! j < m \<and> turn_to net ! j < m \<and>
          link_id (net_links net ! (turn_from net ! j)) = from_link (net_turns net ! j) \<and>
          link_id (net_links net ! (turn_to net ! j)) = to_link (net_turns net ! j) \<and>
          link_dst net ! (turn_from net ! j) = link_src net ! (turn_to net ! j)))"

lemma lookup_all_eq_Inr:
  "lookup_all m ks = Inr vs \<longleftrightarrow> (\<forall>k \<in> set ks. m k \<noteq> None) \<and> vs = map (the \<circ> m) ks"
  by (auto simp: lookup_all_def)

lemma make_road_network_fields:
  assumes "make_road_network nodes links turns crossings = Inr net"
  shows "net_nodes net = nodes" "net_links net = links" "net_turns net = turns"
    "net_crossings net = crossings" "node_index net = index_of (map node_id nodes)"
    "link_index net = index_of (map link_id links)"
    "link_src net = map (\<lambda>l. the (node_index net (src_node l))) links"
    "link_dst net = map (\<lambda>l. the (node_index net (dst_node l))) links"
    "outgoing net = build_link_csr (length nodes) (link_src net)"
    "incoming net = build_link_csr (length nodes) (link_dst net)"
    "turn_from net = map (\<lambda>t. the (link_index net (from_link t))) turns"
    "turn_to net = map (\<lambda>t. the (link_index net (to_link t))) turns"
    "turn_forbidden net = map (\<lambda>t. movement_type t = UTurnForbidden) turns"
  using assms by (auto simp: make_road_network_def Let_def check_simps lookup_all_eq_Inr)

lemma make_road_network_wf:
  assumes "make_road_network nodes links turns crossings = Inr net" "topology_ok nodes links turns"
  shows "wf_network net"
proof -
  note f = make_road_network_fields[OF assms(1)]
  have d: "distinct (map node_id nodes)" "distinct (map link_id links)"
    using assms(2) by (simp_all add: topology_ok_def)
  have node: "\<exists>v < length nodes. index_of (map node_id nodes) i = Some v \<and> node_id (nodes ! v) = i"
    if "i \<in> set (map node_id nodes)" for i
    using that index_of_distinct[OF d(1)] unfolding in_set_conv_nth by auto
  have ends: "link_src net ! i < length nodes \<and> link_dst net ! i < length nodes \<and>
      src_node (links ! i) = node_id (nodes ! (link_src net ! i)) \<and>
      dst_node (links ! i) = node_id (nodes ! (link_dst net ! i))" if i: "i < length links" for i
  proof -
    have "links ! i \<in> set links" using i by simp
    then have "src_node (links ! i) \<in> set (map node_id nodes)" "dst_node (links ! i) \<in> set (map node_id nodes)"
      using assms(2) unfolding topology_ok_def by blast+
    with node[OF this(1)] node[OF this(2)] i f(5,7,8) show ?thesis by auto
  qed
  have turn: "turn_from net ! j < length links \<and> turn_to net ! j < length links \<and>
      link_id (links ! (turn_from net ! j)) = from_link (turns ! j) \<and>
      link_id (links ! (turn_to net ! j)) = to_link (turns ! j) \<and>
      link_dst net ! (turn_from net ! j) = link_src net ! (turn_to net ! j)" if j: "j < length turns" for j
  proof -
    have "turns ! j \<in> set turns" using j by simp
    then obtain a b where ab: "a \<in> set links" "b \<in> set links" "link_id a = from_link (turns ! j)"
      "link_id b = to_link (turns ! j)" "dst_node a = src_node b"
      using assms(2) unfolding topology_ok_def by blast
    then obtain x y where xy: "x < length links" "a = links ! x" "y < length links" "b = links ! y"
      by (metis in_set_conv_nth)
    have "index_of (map link_id links) (from_link (turns ! j)) = Some x"
      "index_of (map link_id links) (to_link (turns ! j)) = Some y"
      using index_of_distinct[OF d(2)] ab(3,4) xy by simp_all
    then have "turn_from net ! j = x" "turn_to net ! j = y" using j f(6,11,12) by simp_all
    moreover have "link_dst net ! x = link_src net ! y" using f(7,8) xy ab(5) by simp
    ultimately show ?thesis using xy ab by simp
  qed
  have len: "length (link_src net) = length links" "length (link_dst net) = length links"
    "length (turn_from net) = length turns" "length (turn_to net) = length turns"
    "length (turn_forbidden net) = length turns" using f by simp_all
  show ?thesis
    unfolding wf_network_def Let_def net_node_count_def net_link_count_def net_turn_count_def f(1-6)
    using f(9,10) d len ends turn by simp
qed

text \<open>The row of a node in the outgoing and incoming adjacency.\<close>

lemma outgoing_row:
  assumes "wf_network net" "v < net_node_count net"
  shows "csr_row (outgoing net) v = filter (\<lambda>i. link_src net ! i = v) [0..<net_link_count net]"
    and "csr_row (incoming net) v = filter (\<lambda>i. link_dst net ! i = v) [0..<net_link_count net]"
proof -
  have "\<forall>x \<in> set (link_src net). x < net_node_count net" "\<forall>x \<in> set (link_dst net). x < net_node_count net"
    using assms(1) by (auto simp: wf_network_def Let_def in_set_conv_nth)
  then show "csr_row (outgoing net) v = filter (\<lambda>i. link_src net ! i = v) [0..<net_link_count net]"
    and "csr_row (incoming net) v = filter (\<lambda>i. link_dst net ! i = v) [0..<net_link_count net]"
    using csr_row_links assms by (simp_all add: wf_network_def Let_def links_of_def)
qed

lemma build_validated:
  assumes "build_road_network_csr cs nodes links turns crossings True weak = Inr net"
  shows "wf_network net" "net_nodes net = nodes" "net_links net = links" "net_turns net = turns"
    "topology_ok nodes links turns"
proof -
  have m: "make_road_network nodes links turns crossings = Inr net"
    and v: "validate_road_network_topology cs nodes links turns crossings weak = []"
    using assms by (auto simp: build_road_network_csr_def check_simps)
  show "topology_ok nodes links turns" by (rule validated_topology_ok[OF v])
  then show "wf_network net" by (rule make_road_network_wf[OF m])
  show "net_nodes net = nodes" "net_links net = links" "net_turns net = turns"
    using make_road_network_fields[OF m] by simp_all
qed

text \<open>C10: in a validated network the outgoing links the CSR adjacency reports for a node are
  exactly the links that leave it, in declaration order.\<close>

theorem outgoing_links_exact:
  assumes "build_road_network_csr cs nodes links turns crossings True weak = Inr net" "nd \<in> set nodes"
  shows "outgoing_links_for_node net (node_id nd) = Inr (filter (\<lambda>l. src_node l = node_id nd) links)"
proof -
  note b = build_validated[OF assms(1)]
  have idx: "node_index net = index_of (map node_id nodes)" and d: "distinct (map node_id nodes)"
    using b(1) by (simp_all add: wf_network_def Let_def b(2))
  obtain v where v: "v < length nodes" "nd = nodes ! v" using assms(2) by (metis in_set_conv_nth)
  have some: "node_index net (node_id nd) = Some v"
    using index_of_distinct[OF d] v by (simp add: idx)
  have same: "(link_src net ! i = v) = (src_node (links ! i) = node_id nd)" if "i < length links" for i
  proof -
    have "src_node (links ! i) = node_id (nodes ! (link_src net ! i))" "link_src net ! i < length nodes"
      using b(1) that by (simp_all add: wf_network_def Let_def b(2,3) net_node_count_def net_link_count_def)
    then show ?thesis using v d by (auto simp: distinct_conv_nth)
  qed
  have "map (\<lambda>i. links ! i) (filter (\<lambda>i. link_src net ! i = v) [0..<length links])
      = map (\<lambda>i. links ! i) (filter (\<lambda>i. src_node (links ! i) = node_id nd) [0..<length links])"
    using same by (intro arg_cong[of _ _ "map _"] filter_cong) auto
  also have "\<dots> = filter (\<lambda>l. src_node l = node_id nd) (map (\<lambda>i. links ! i) [0..<length links])"
    by (simp add: filter_map comp_def)
  finally show ?thesis
    using outgoing_row(1)[OF b(1), of v] v some
    by (simp add: outgoing_links_for_node_def b(2,3) net_node_count_def net_link_count_def map_nth)
qed

lemma collect_turn_pairs_error: "collect_turn_pairs ts m = Inl e \<Longrightarrow> e = ValueError ''duplicate legal turn pair''"
  by (induction ts m rule: collect_turn_pairs.induct) (auto split: if_splits)

lemma lookup_all_total: "set ks \<subseteq> set ids \<Longrightarrow> \<exists>vs. lookup_all (index_of ids) ks = Inr vs"
  unfolding lookup_all_eq_Inr using index_of_dom[of ids] by blast

text \<open>Validation is enough.  A topology without issues is never rejected with a KeyError: the
  network is built, or the ids do not fit in int32, or two legal turns join the same links.\<close>

theorem validated_build_no_key_error:
  assumes "validate_road_network_topology cs nodes links turns crossings weak = []"
  shows "(\<exists>net. build_road_network_csr cs nodes links turns crossings True weak = Inr net \<and> wf_network net) \<or>
    build_road_network_csr cs nodes links turns crossings True weak
      = Inl (OverflowError ''Python integer out of bounds for int32'') \<or>
    build_road_network_csr cs nodes links turns crossings True weak
      = Inl (ValueError ''duplicate legal turn pair'')"
proof -
  note ok = validated_topology_ok[OF assms]
  have "set (map src_node links) \<subseteq> set (map node_id nodes)" "set (map dst_node links) \<subseteq> set (map node_id nodes)"
    using ok by (auto simp: topology_ok_def)
  moreover have "set (map from_link turns) \<subseteq> set (map link_id links)"
    "set (map to_link turns) \<subseteq> set (map link_id links)"
    using ok unfolding topology_ok_def by (auto simp: image_iff) metis+
  ultimately have "\<exists>ks. lookup_all (index_of (map node_id nodes)) (map src_node links) = Inr ks"
    "\<exists>ks. lookup_all (index_of (map node_id nodes)) (map dst_node links) = Inr ks"
    "\<exists>ks. lookup_all (index_of (map link_id links)) (map from_link turns) = Inr ks"
    "\<exists>ks. lookup_all (index_of (map link_id links)) (map to_link turns) = Inr ks"
    using lookup_all_total by blast+
  then have "(\<exists>net. make_road_network nodes links turns crossings = Inr net) \<or>
      make_road_network nodes links turns crossings = Inl (OverflowError ''Python integer out of bounds for int32'') \<or>
      make_road_network nodes links turns crossings = Inl (ValueError ''duplicate legal turn pair'')"
    using collect_turn_pairs_error
    by (auto simp: make_road_network_def Let_def as_int32_def raise_if_def bindE_def split: sum.splits)
  then show ?thesis
    using assms make_road_network_wf[OF _ ok] by (auto simp: build_road_network_csr_def check_eval)
qed

section \<open>A concrete network\<close>

text \<open>Three nodes in a line, four links, two turns.\<close>

definition demo_road :: "int \<Rightarrow> int \<Rightarrow> int \<Rightarrow> road_link" where
  "demo_road i a b = \<lparr>link_id = i, src_node = a, dst_node = b, link_class = Collector,
     length_m = Fin 100, free_flow_speed = Fin 10, link_capacity = Fin 8, lanes = 1,
     bridge_group = None, is_blockable = True, physical_road = None, ramp_purpose = None\<rparr>"

definition demo_roads :: "road_link list" where
  "demo_roads = [demo_road 10 1 2, demo_road 11 2 3, demo_road 12 2 1, demo_road 13 3 2]"

definition demo_junctions :: "road_node list" where
  "demo_junctions = map (\<lambda>i. \<lparr>node_id = i, node_x = Fin 0, node_y = Fin 0, node_zone = None,
     signal_group = None\<rparr>) [1, 2, 3]"

definition demo_turns :: "turn_movement list" where
  "demo_turns = [\<lparr>from_link = 10, to_link = 11, movement_type = Through, base_priority = Fin 1,
       signal_phase = None\<rparr>,
     \<lparr>from_link = 10, to_link = 12, movement_type = UTurnForbidden, base_priority = Fin 1,
       signal_phase = None\<rparr>]"

definition no_components :: "int list \<Rightarrow> road_link list \<Rightarrow> nat list" where
  "no_components ids links = [length ids]"

lemma demo_validates:
  "validate_road_network_topology no_components demo_junctions demo_roads demo_turns [] False = []"
  by (simp add: validate_road_network_topology_def demo_junctions_def demo_roads_def demo_turns_def
      demo_road_def link_issues_def turn_issues_def dict_by_def Let_def)

lemma demo_builds:
  "\<exists>net. build_road_network_csr no_components demo_junctions demo_roads demo_turns [] True False = Inr net"
  using demo_validates
  by (simp add: build_road_network_csr_def check_eval make_road_network_def Let_def as_int32_def
      lookup_all_def demo_junctions_def demo_roads_def demo_turns_def demo_road_def index_of_def
      upt_rec)

lemma outgoing_links_exact_witness:
  "\<exists>net. build_road_network_csr no_components demo_junctions demo_roads demo_turns [] True False = Inr net \<and>
     outgoing_links_for_node net 2 = Inr [demo_road 11 2 3, demo_road 12 2 1]"
proof -
  obtain net where net:
    "build_road_network_csr no_components demo_junctions demo_roads demo_turns [] True False = Inr net"
    using demo_builds by blast
  show ?thesis
    using net outgoing_links_exact[OF net, of "demo_junctions ! 1"]
    by (simp add: demo_junctions_def demo_roads_def demo_road_def)
qed

end
