(* ===== verification/Arrays.thy ===== *)
theory Arrays
  imports PyFloat
begin

text \<open>
  The NumPy operations the engine uses, on lists.  A one-dimensional float32 array is a list
  of rationals; every element-wise operation rounds once.  \<open>segment_sum\<close> is
  \<^verbatim>\<open>np.add.at\<close> on a zeroed float32 array (src/src/metroflow/flow/engine.py, \<^verbatim>\<open>_segment_sum\<close>):
  the addends are accumulated in index order and the running value is rounded at every step.
  The lemmas give its bounds for arbitrary floats and its exact value for vehicle tokens.
\<close>

abbreviation gather :: "'a list \<Rightarrow> nat list \<Rightarrow> 'a list" where
  "gather xs idx \<equiv> map (\<lambda>i. xs ! i) idx"

definition eps32 :: rat where
  "eps32 = r32 (1 / 10 ^ 6)"

fun scatter_add :: "(rat \<times> nat) list \<Rightarrow> rat list \<Rightarrow> rat list" where
  "scatter_add [] out = out"
| "scatter_add ((v, i) # vs) out = scatter_add vs (out[i := r32 (out ! i + v)])"

definition segment_sum :: "rat list \<Rightarrow> nat list \<Rightarrow> nat \<Rightarrow> rat list" where
  "segment_sum vals idx n = scatter_add (zip (map r32 vals) idx) (replicate n 0)"

text \<open>The exact sum of the values that go to one segment.\<close>

fun segment_total :: "('a::comm_monoid_add) list \<Rightarrow> nat list \<Rightarrow> nat \<Rightarrow> 'a" where
  "segment_total (v # vs) (i # idx) j = (if i = j then v else 0) + segment_total vs idx j"
| "segment_total _ _ j = 0"

lemma length_scatter_add [simp]: "length (scatter_add vs out) = length out"
  by (induction vs out rule: scatter_add.induct) simp_all

lemma length_segment_sum [simp]: "length (segment_sum vals idx n) = n"
  by (simp add: segment_sum_def)

lemma scatter_add_float:
  assumes "\<forall>x \<in> set out. is_f32 x"
  shows "\<forall>x \<in> set (scatter_add vs out). is_f32 x"
  using assms
proof (induction vs out rule: scatter_add.induct)
  case (2 v i vs out)
  have "\<forall>x \<in> set (out[i := r32 (out ! i + v)]). is_f32 x"
    by (rule ball_update[OF "2.prems"]) simp
  from "2.IH"[OF this] show ?case by simp
qed simp

lemma segment_sum_float: "x \<in> set (segment_sum vals idx n) \<Longrightarrow> is_f32 x"
  using scatter_add_float[of "replicate n 0"] by (auto simp: segment_sum_def)

lemma scatter_add_mono:
  assumes "\<forall>x \<in> set out. is_f32 x" "\<forall>(v, i) \<in> set vs. 0 \<le> v" "j < length out"
  shows "out ! j \<le> scatter_add vs out ! j"
  using assms
proof (induction vs out rule: scatter_add.induct)
  case (2 v i vs out)
  let ?out = "out[i := r32 (out ! i + v)]"
  have "out ! j \<le> ?out ! j"
    using 2 f32.rd_add_ge[of "out ! j" v] by (cases "i = j") auto
  also have "\<dots> \<le> scatter_add vs ?out ! j"
    by (rule "2.IH"[OF ball_update[OF "2.prems"(1)]]) (use 2 in simp_all)
  finally show ?case by simp
qed simp

lemma segment_sum_nonneg:
  assumes "\<forall>v \<in> set vals. 0 \<le> v" "j < n"
  shows "0 \<le> segment_sum vals idx n ! j"
proof -
  have "\<forall>(v, i) \<in> set (zip (map r32 vals) idx). 0 \<le> v"
    using assms(1) by (auto simp: f32.rd_nonneg dest!: set_zip_leftD)
  then show ?thesis
    using assms(2) scatter_add_mono[of "replicate n 0" "zip (map r32 vals) idx" j]
    by (simp add: segment_sum_def)
qed

lemma segment_sum_member:
  assumes "\<forall>v \<in> set vals. 0 \<le> v" "x \<in> set (segment_sum vals idx n)"
  shows "is_f32 x \<and> 0 \<le> x"
proof -
  obtain j where "j < n" "x = segment_sum vals idx n ! j"
    using assms(2) by (auto simp: in_set_conv_nth)
  then show ?thesis using segment_sum_nonneg[OF assms(1)] segment_sum_float[OF assms(2)] by simp
qed

text \<open>No addend exceeds the rounded total: the shares computed from it are at most one.\<close>

lemma scatter_add_ge:
  assumes "\<forall>x \<in> set out. is_f32 x" "\<forall>x \<in> set out. 0 \<le> x"
    and "\<forall>(v, i) \<in> set vs. 0 \<le> v \<and> is_f32 v" "(v, j) \<in> set vs" "j < length out"
  shows "v \<le> scatter_add vs out ! j"
  using assms
proof (induction vs out rule: scatter_add.induct)
  case (2 w i vs out)
  let ?out = "out[i := r32 (out ! i + w)]"
  have f: "\<forall>x \<in> set ?out. is_f32 x"
    by (rule ball_update[OF "2.prems"(1)]) simp
  have nn: "\<forall>x \<in> set ?out. 0 \<le> x"
    by (rule ball_update_guarded[OF "2.prems"(2)]) (use 2 in \<open>simp add: f32.rd_nonneg\<close>)
  note inv = f nn
  show ?case
  proof (cases "(v, j) = (w, i)")
    case True
    with 2 have "v \<le> ?out ! j" using f32.rd_add_ge2[of v "out ! j"] by auto
    also have "\<dots> \<le> scatter_add vs ?out ! j"
      using 2 True inv by (intro scatter_add_mono) auto
    finally show ?thesis by simp
  next
    case False
    have "v \<le> scatter_add vs ?out ! j"
      using inv 2 False by (intro "2.IH") auto
    then show ?thesis by simp
  qed
qed simp

lemma segment_sum_ge:
  assumes "\<forall>v \<in> set vals. 0 \<le> v \<and> is_f32 v" "length vals = length idx"
    and "k < length vals" "idx ! k < n"
  shows "vals ! k \<le> segment_sum vals idx n ! (idx ! k)"
proof -
  have "map r32 vals = vals" using assms(1) by (simp add: map_r32_id)
  moreover have "(vals ! k, idx ! k) \<in> set (zip vals idx)"
    using assms(2,3) by (auto simp: set_zip)
  ultimately show ?thesis
    using assms scatter_add_ge[of "replicate n 0" "zip vals idx" "vals ! k" "idx ! k"]
    by (auto simp: segment_sum_def dest!: set_zip_leftD)
qed

text \<open>Integer tokens are summed exactly as long as the total stays below \<open>2\<^bsup>24\<^esup>\<close>.\<close>

lemma segment_total_nonneg:
  fixes ts :: "int list"
  shows "\<forall>t \<in> set ts. 0 \<le> t \<Longrightarrow> 0 \<le> segment_total ts idx j"
  by (induction ts idx j rule: segment_total.induct) auto

lemma scatter_add_ints:
  assumes "\<forall>t \<in> set ts. 0 \<le> t" "length ts = length idx" "j < length out"
    and "out = map of_int ns" "\<forall>n \<in> set ns. 0 \<le> n"
    and "\<And>j. j < length out \<Longrightarrow> ns ! j + segment_total ts idx j \<le> 2 ^ 24"
  shows "scatter_add (zip (map of_int ts) idx) out ! j
    = of_int (ns ! j + segment_total ts idx j)"
  using assms
proof (induction ts arbitrary: idx out ns)
  case (Cons t ts)
  then obtain i idx' where idx: "idx = i # idx'" "length ts = length idx'"
    by (cases idx) auto
  let ?ns = "ns[i := ns ! i + t]"
  have step: "out[i := r32 (out ! i + of_int t)] = map of_int ?ns"
  proof (cases "i < length out")
    case True
    have "ns ! i + t \<le> 2 ^ 24"
      using Cons.prems(6)[OF True] Cons.prems(1) segment_total_nonneg[of ts idx' i]
      by (simp add: idx)
    moreover have "0 \<le> ns ! i + t" using Cons.prems True by simp
    ultimately have "r32 (of_int (ns ! i) + of_int t) = of_int (ns ! i + t)"
      by (intro f32.rd_add_ints) simp
    then show ?thesis using True Cons.prems(4) by (simp add: map_update)
  next
    case False
    then show ?thesis using Cons.prems(4) by (simp add: list_update_beyond)
  qed
  have tot: "?ns ! j + segment_total ts idx' j = ns ! j + segment_total (t # ts) idx j"
    if "j < length out" for j
    using that Cons.prems(4) by (simp add: idx nth_list_update)
  have "\<forall>n \<in> set ?ns. 0 \<le> n"
    using Cons.prems(1,5) by (intro ball_update_guarded) auto
  moreover have "?ns ! j + segment_total ts idx' j \<le> 2 ^ 24" if "j < length out" for j
    using Cons.prems(6)[OF that] tot[OF that] by simp
  ultimately have
    "scatter_add (zip (map of_int ts) idx') (out[i := r32 (out ! i + of_int t)]) ! j
      = of_int (?ns ! j + segment_total ts idx' j)"
    using Cons.prems(1,3) idx by (intro Cons.IH[OF _ _ _ step]) simp_all
  then show ?case using tot[OF Cons.prems(3)] by (simp add: idx)
qed simp

lemma segment_sum_ints:
  assumes "\<forall>t \<in> set ts. 0 \<le> t" "length ts = length idx"
    and "\<And>j. j < n \<Longrightarrow> segment_total ts idx j \<le> 2 ^ 24" "j < n"
    and "\<forall>t \<in> set ts. t \<le> 2 ^ 24"
  shows "segment_sum (map of_int ts) idx n ! j = of_int (segment_total ts idx j)"
proof -
  have "map r32 (map of_int ts) = map of_int ts"
    using assms(1,5) by (simp add: r32_of_int)
  moreover have "scatter_add (zip (map of_int ts) idx) (replicate n 0) ! j
      = of_int (replicate n 0 ! j + segment_total ts idx j)"
    by (rule scatter_add_ints[OF assms(1,2)]) (use assms(3,4) in simp_all)
  ultimately show ?thesis
    using assms(4) by (simp only: segment_sum_def nth_replicate add_0)
qed

lemma segment_total_sum:
  fixes ts :: "int list"
  assumes "\<forall>i \<in> set idx. i < n" "length ts = length idx"
  shows "(\<Sum>j<n. segment_total ts idx j) = sum_list ts"
  using assms(2,1)
proof (induction ts idx rule: list_induct2)
  case (Cons t ts i idx)
  have "(\<Sum>j<n. if i = j then t else 0) = t"
    using Cons.prems by (simp add: sum.delta)
  then show ?case using Cons by (simp add: sum.distrib)
qed simp

lemma segment_total_update:
  fixes ts :: "int list"
  assumes "k < length ts" "length ts = length idx"
  shows "segment_total (ts[k := ts ! k + d]) idx j
    = segment_total ts idx j + (if idx ! k = j then d else 0)"
  using assms(2,1)
proof (induction ts idx arbitrary: k rule: list_induct2)
  case (Cons t ts i idx)
  then show ?case by (cases k) auto
qed simp

lemma segment_total_zero [simp]: "segment_total (replicate m (0::int)) idx j = 0"
proof (induction m arbitrary: idx)
  case (Suc m)
  then show ?case by (cases idx) simp_all
qed simp

lemma segment_total_le_member:
  fixes ts :: "int list"
  assumes "\<forall>t \<in> set ts. 0 \<le> t" "length ts = length idx" "k < length ts"
  shows "ts ! k \<le> segment_total ts idx (idx ! k)"
  using assms(2,1,3)
proof (induction ts idx arbitrary: k rule: list_induct2)
  case (Cons t ts i idx)
  then show ?case
    by (cases k) (auto simp: segment_total_nonneg add_increasing)
qed simp

section \<open>A binary heap of comparable entries\<close>

text \<open>
  The contract of \<^verbatim>\<open>heapq\<close> that the loops rely on: popping removes a least entry.  The loops
  only ever look at the least entry, and entries that compare equal are equal, so a sorted
  list gives exactly the sequence of pops of the binary heap.
\<close>

locale min_queue =
  fixes push :: "'a::linorder \<Rightarrow> 'q \<Rightarrow> 'q"
    and pop :: "'q \<Rightarrow> ('a \<times> 'q) option"
    and entries :: "'q \<Rightarrow> 'a set"
    and size_of :: "'q \<Rightarrow> nat"
    and invar :: "'q \<Rightarrow> bool"
  assumes entries_push: "entries (push x q) = insert x (entries q)"
    and size_push: "size_of (push x q) = Suc (size_of q)"
    and invar_push: "invar q \<Longrightarrow> invar (push x q)"
    and pop_None: "pop q = None \<longleftrightarrow> entries q = {}"
    and pop_in: "pop q = Some (x, q') \<Longrightarrow> entries q = insert x (entries q')"
    and pop_size: "pop q = Some (x, q') \<Longrightarrow> Suc (size_of q') = size_of q"
    and pop_invar: "invar q \<Longrightarrow> pop q = Some (x, q') \<Longrightarrow> invar q'"
    and pop_least: "invar q \<Longrightarrow> pop q = Some (x, q') \<Longrightarrow> y \<in> entries q \<Longrightarrow> x \<le> y"
begin

lemma pop_other: "pop q = Some (x, q') \<Longrightarrow> y \<in> entries q \<Longrightarrow> y \<noteq> x \<Longrightarrow> y \<in> entries q'"
  using pop_in by blast

lemma pop_subset: "pop q = Some (x, q') \<Longrightarrow> y \<in> entries q' \<Longrightarrow> y \<in> entries q"
  using pop_in by blast

lemma pop_member: "pop q = Some (x, q') \<Longrightarrow> x \<in> entries q"
  using pop_in by blast

lemma pop_push_size: "pop q = Some (x, q') \<Longrightarrow> size_of (push y q') = size_of q"
  using pop_size size_push by simp

end

definition heap_push :: "'a::linorder \<Rightarrow> 'a list \<Rightarrow> 'a list" where
  "heap_push x h = insort x h"

fun heap_pop :: "'a list \<Rightarrow> ('a \<times> 'a list) option" where
  "heap_pop [] = None"
| "heap_pop (x # h) = Some (x, h)"

definition heapify :: "'a::linorder list \<Rightarrow> 'a list" where
  "heapify xs = sort xs"

interpretation heapq: min_queue heap_push heap_pop set length sorted
proof
  fix h h' :: "'a::linorder list" and x y
  show "set (heap_push x h) = insert x (set h)" by (simp add: heap_push_def set_insort_key)
  show "length (heap_push x h) = Suc (length h)" by (simp add: heap_push_def)
  show "sorted h \<Longrightarrow> sorted (heap_push x h)" by (simp add: heap_push_def sorted_insort)
  show "heap_pop h = None \<longleftrightarrow> set h = {}" by (cases h) simp_all
  show "heap_pop h = Some (x, h') \<Longrightarrow> set h = insert x (set h')" by (cases h) auto
  show "heap_pop h = Some (x, h') \<Longrightarrow> Suc (length h') = length h" by (cases h) auto
  show "sorted h \<Longrightarrow> heap_pop h = Some (x, h') \<Longrightarrow> sorted h'" by (cases h) auto
  show "sorted h \<Longrightarrow> heap_pop h = Some (x, h') \<Longrightarrow> y \<in> set h \<Longrightarrow> x \<le> y" by (cases h) auto
qed

lemma heapify_set [simp]: "set (heapify xs) = set xs"
  by (simp add: heapify_def)

lemma heapify_sorted [simp]: "sorted (heapify xs)"
  by (simp add: heapify_def)

lemma heapify_length [simp]: "length (heapify xs) = length xs"
  by (simp add: heapify_def)

end
