(* ===== verification/FlowState.thy ===== *)
theory FlowState
  imports Arrays "HOL-Library.Word"
begin

text \<open>
  The link and node state containers of the traffic engine
  (src/src/metroflow/flow/state.py).  \<open>link_state\<close> and \<open>node_state\<close> are the two dataclasses;
  \<open>make_link_state\<close> and \<open>make_node_state\<close> are their validating constructors,
  \<open>link_from_internal_arrays\<close> and \<open>node_from_internal_arrays\<close> the unchecked ones, and
  \<open>create_link_state\<close>, \<open>create_node_state\<close>, \<open>validate_link_state\<close>, \<open>validate_node_state\<close> the
  module's functions.  Arrays are lists (so always one-dimensional) of finite floats; the
  metadata dictionaries map keys to the few kinds of values the engine stores.
\<close>

section \<open>Metadata\<close>

datatype meta_value =
    MFlag bool
  | MInt int
  | MScalar pyfloat
  | MVector "pyfloat list"

type_synonym metadata = "string \<rightharpoonup> meta_value"

text \<open>\<^verbatim>\<open>np.asarray(raw, dtype=np.float32)\<close> of a stored value: a scalar or a vector.\<close>

fun as_array32 :: "meta_value \<Rightarrow> pyfloat + pyfloat list" where
  "as_array32 (MFlag b) = Inl (Fin (if b then 1 else 0))"
| "as_array32 (MInt n) = Inl (Fin (r32 (of_int n)))"
| "as_array32 (MScalar x) = Inl (pf_r32 x)"
| "as_array32 (MVector xs) = Inr (map pf_r32 xs)"

text \<open>\<^verbatim>\<open>np.asarray(raw, dtype=np.bool_)\<close>: every number but zero is true, NaN included.\<close>

definition truthy :: "pyfloat \<Rightarrow> bool" where
  "truthy x \<longleftrightarrow> x \<noteq> Fin 0"

fun as_array_bool :: "meta_value \<Rightarrow> bool + bool list" where
  "as_array_bool (MFlag b) = Inl b"
| "as_array_bool (MInt n) = Inl (n \<noteq> 0)"
| "as_array_bool (MScalar x) = Inl (truthy x)"
| "as_array_bool (MVector xs) = Inr (map truthy xs)"

text \<open>\<^verbatim>\<open>bool(metadata.get(key, False))\<close> for a flag.\<close>

definition meta_flag :: "metadata \<Rightarrow> string \<Rightarrow> bool" where
  "meta_flag m k = (case m k of
       None \<Rightarrow> False
     | Some (MFlag b) \<Rightarrow> b
     | Some (MInt n) \<Rightarrow> n \<noteq> 0
     | Some (MScalar x) \<Rightarrow> x \<noteq> Fin 0
     | Some (MVector xs) \<Rightarrow> xs \<noteq> [])"

definition fin_vector :: "rat list \<Rightarrow> meta_value" where
  "fin_vector xs = MVector (map Fin xs)"

lemma map_finite_part_Fin [simp]: "map (finite_part \<circ> Fin) xs = xs"
  by (simp add: map_idI)

section \<open>Link state\<close>

record link_state =
  queue_vehicles :: "rat list"
  inflow_vehicles :: "rat list"
  outflow_vehicles :: "rat list"
  travel_time_cost :: "rat list"
  capacity_veh_per_tick :: "rat list"
  incident_capacity_multiplier :: "rat list"
  capacity_violation_flags :: "bool list"
  link_metadata :: metadata

definition link_count :: "link_state \<Rightarrow> nat" where
  "link_count ls = length (queue_vehicles ls)"

definition effective_capacity_vehicles :: "link_state \<Rightarrow> rat list" where
  "effective_capacity_vehicles ls =
     map2 (\<lambda>c m. r32 (c * m)) (capacity_veh_per_tick ls) (incident_capacity_multiplier ls)"

definition capacity_violation_count :: "link_state \<Rightarrow> nat" where
  "capacity_violation_count ls = count_list (capacity_violation_flags ls) True"

definition same_shape :: "nat list \<Rightarrow> unit result" where
  "same_shape ns = checks [(\<exists>n \<in> set ns. n \<noteq> hd ns, ''all arrays must have the same shape'')]"

definition make_link_state :: "rat list \<Rightarrow> rat list \<Rightarrow> rat list \<Rightarrow> rat list \<Rightarrow> rat list \<Rightarrow>
    rat list \<Rightarrow> bool list option \<Rightarrow> metadata \<Rightarrow> link_state result" where
  "make_link_state q i ou t c m fl md =
     (let q = map r32 q; i = map r32 i; ou = map r32 ou; t = map r32 t; c = map r32 c;
          m = map r32 m;
          fl = (case fl of None \<Rightarrow> replicate (length q) False | Some b \<Rightarrow> b)
      in bindE (same_shape [length q, length i, length ou, length t, length c, length m, length fl])
         (\<lambda>_. bindE (checks [
            (\<exists>x \<in> set q. x < 0, ''queue_vehicles must be >= 0''),
            (\<exists>x \<in> set i. x < 0, ''inflow_vehicles must be >= 0''),
            (\<exists>x \<in> set ou. x < 0, ''outflow_vehicles must be >= 0''),
            (\<exists>x \<in> set t. x \<le> 0, ''travel_time_cost must be > 0''),
            (\<exists>x \<in> set c. x < 0, ''capacity_veh_per_tick must be >= 0''),
            ((\<exists>x \<in> set m. x < 0) \<or> (\<exists>x \<in> set m. 1 < x),
               ''incident_capacity_multiplier must be in [0, 1]'')])
         (\<lambda>_. Inr \<lparr>queue_vehicles = q, inflow_vehicles = i, outflow_vehicles = ou,
            travel_time_cost = t, capacity_veh_per_tick = c, incident_capacity_multiplier = m,
            capacity_violation_flags = fl, link_metadata = md\<rparr>)))"

definition link_from_internal_arrays :: "rat list \<Rightarrow> rat list \<Rightarrow> rat list \<Rightarrow> rat list \<Rightarrow> rat list \<Rightarrow>
    rat list \<Rightarrow> bool list \<Rightarrow> metadata \<Rightarrow> link_state result" where
  "link_from_internal_arrays q i ou t c m fl md =
     bindE (same_shape [length q, length i, length ou, length t, length c, length m, length fl])
       (\<lambda>_. Inr \<lparr>queue_vehicles = map r32 q, inflow_vehicles = map r32 i,
          outflow_vehicles = map r32 ou, travel_time_cost = map r32 t,
          capacity_veh_per_tick = map r32 c, incident_capacity_multiplier = map r32 m,
          capacity_violation_flags = fl, link_metadata = md\<rparr>)"

text \<open>A scalar or an array argument, broadcast to the number of links.\<close>

datatype scalar_or_array = Scalar rat | Arr "rat list"

fun broadcast_1d :: "scalar_or_array \<Rightarrow> nat \<Rightarrow> rat list result" where
  "broadcast_1d (Scalar v) n = Inr (replicate n (r32 v))"
| "broadcast_1d (Arr xs) n =
     (if length xs = n then Inr (map r32 xs)
      else Inl (ValueError ''value must be scalar or shape''))"

definition create_link_state :: "int \<Rightarrow> scalar_or_array \<Rightarrow> scalar_or_array \<Rightarrow> link_state result" where
  "create_link_state count travel capacity =
     bindE (checks [(count < 0, ''link_count must be >= 0'')])
       (\<lambda>_. let n = nat count; zeros = replicate n 0; ones = replicate n 1 in
         bindE (broadcast_1d travel n) (\<lambda>t. bindE (broadcast_1d capacity n) (\<lambda>c.
           link_from_internal_arrays zeros zeros zeros t c ones (replicate n False) Map.empty)))"

section \<open>Node state\<close>

text \<open>Signal phases and timers are int32 counters: the timer's increment wraps.\<close>

type_synonym i32 = "32 word"

record node_state =
  turn_from_link_index :: "int list"
  turn_to_link_index :: "int list"
  turn_demand :: "rat list"
  turn_supply :: "rat list"
  turn_flow :: "rat list"
  signal_phase_index :: "i32 list"
  signal_phase_timer :: "i32 list"
  node_metadata :: metadata

definition turn_count :: "node_state \<Rightarrow> nat" where
  "turn_count ns = length (turn_demand ns)"

definition node_count :: "node_state \<Rightarrow> nat" where
  "node_count ns = length (signal_phase_index ns)"

definition make_node_state :: "int list \<Rightarrow> int list \<Rightarrow> rat list \<Rightarrow> rat list \<Rightarrow> rat list \<Rightarrow>
    i32 list \<Rightarrow> i32 list \<Rightarrow> metadata \<Rightarrow> node_state result" where
  "make_node_state f t d s fl pidx ptim md =
     (let d = map r32 d; s = map r32 s; fl = map r32 fl in
      bindE (same_shape [length f, length t, length d, length s, length fl])
        (\<lambda>_. bindE (checks [
           (\<exists>x \<in> set d. x < 0, ''turn_demand must be >= 0''),
           (\<exists>x \<in> set s. x < 0, ''turn_supply must be >= 0''),
           (\<exists>x \<in> set fl. x < 0, ''turn_flow must be >= 0''),
           (\<exists>x \<in> set ptim. sint x < 0, ''signal_phase_timer must be >= 0'')])
        (\<lambda>_. Inr \<lparr>turn_from_link_index = f, turn_to_link_index = t, turn_demand = d,
           turn_supply = s, turn_flow = fl, signal_phase_index = pidx,
           signal_phase_timer = ptim, node_metadata = md\<rparr>)))"

definition node_from_internal_arrays :: "int list \<Rightarrow> int list \<Rightarrow> rat list \<Rightarrow> rat list \<Rightarrow> rat list \<Rightarrow>
    i32 list \<Rightarrow> i32 list \<Rightarrow> metadata \<Rightarrow> node_state result" where
  "node_from_internal_arrays f t d s fl pidx ptim md =
     bindE (same_shape [length f, length t, length d, length s, length fl])
       (\<lambda>_. Inr \<lparr>turn_from_link_index = f, turn_to_link_index = t, turn_demand = map r32 d,
          turn_supply = map r32 s, turn_flow = map r32 fl, signal_phase_index = pidx,
          signal_phase_timer = ptim, node_metadata = md\<rparr>)"

definition create_node_state :: "int list \<Rightarrow> int list \<Rightarrow> int \<Rightarrow> node_state result" where
  "create_node_state f t count =
     bindE (checks [
       (count < 0, ''node_count must be >= 0''),
       (length f \<noteq> length t,
          ''turn_from_link_index and turn_to_link_index must have same shape'')])
       (\<lambda>_. let z = replicate (length f) 0; p = replicate (nat count) 0 in
         node_from_internal_arrays f t z z z p p Map.empty)"

section \<open>Validators\<close>

text \<open>
  The capacity authority of \<open>validate_link_state\<close>: the effective capacity, or the recorded
  service tokens when the discrete-agent authority is on and the tokens are usable.
\<close>

definition rint :: "rat \<Rightarrow> rat" where
  "rint x = of_int (rne x)"

definition link_capacity_authority :: "link_state \<Rightarrow> string list \<times> rat list" where
  "link_capacity_authority ls =
     (let eff = effective_capacity_vehicles ls in
      if \<not> meta_flag (link_metadata ls) ''runtime_discrete_agent_authority'' then ([], eff)
      else case link_metadata ls ''runtime_link_service_tokens'' of
        None \<Rightarrow> ([''runtime_link_service_tokens missing for discrete-agent authority''], eff)
      | Some raw \<Rightarrow>
         (case as_array32 raw of
            Inl _ \<Rightarrow> ([''runtime_link_service_tokens shape mismatch''], eff)
          | Inr toks \<Rightarrow>
             (if length toks \<noteq> link_count ls
              then ([''runtime_link_service_tokens shape mismatch''], eff)
              else if \<not> list_all isfinite toks
              then ([''runtime_link_service_tokens contains non-finite values''], eff)
              else let ts = map finite_part toks in
              if \<exists>t \<in> set ts. t < 0
              then ([''runtime_link_service_tokens contains negative values''], eff)
              else if \<exists>t \<in> set ts. eps32 < \<bar>r32 (t - rint t)\<bar>
              then ([''runtime_link_service_tokens contains non-integral values''], eff)
              else ([], ts))))"

definition validate_link_state :: "link_state \<Rightarrow> string list" where
  "validate_link_state ls =
     (let (token_issues, authority) = link_capacity_authority ls;
          exceed = map2 (\<lambda>ou cap. r32 (cap + eps32) < ou) (outflow_vehicles ls) authority
      in issues [
           (\<exists>x \<in> set (queue_vehicles ls). x < 0, ''queue_vehicles contains negative values''),
           (\<exists>x \<in> set (outflow_vehicles ls). x < 0, ''outflow_vehicles contains negative values''),
           (\<exists>x \<in> set (inflow_vehicles ls). x < 0, ''inflow_vehicles contains negative values''),
           (\<exists>x \<in> set (travel_time_cost ls). x \<le> 0,
              ''travel_time_cost contains non-positive values''),
           ((\<exists>x \<in> set (incident_capacity_multiplier ls). x < 0) \<or>
            (\<exists>x \<in> set (incident_capacity_multiplier ls). 1 < x),
              ''incident_capacity_multiplier contains values outside [0, 1]'')]
         @ token_issues
         @ issues [(capacity_violation_count ls < count_list exceed True,
              ''capacity_violation_flags under-report outflow > effective capacity'')])"

definition validate_node_state :: "node_state \<Rightarrow> rat \<Rightarrow> string list" where
  "validate_node_state ns tol = issues [
     (\<exists>x \<in> set (turn_demand ns). x < 0, ''turn_demand contains negative values''),
     (\<exists>x \<in> set (turn_supply ns). x < 0, ''turn_supply contains negative values''),
     (\<exists>x \<in> set (turn_flow ns). x < 0, ''turn_flow contains negative values''),
     (\<exists>(f, d) \<in> set (zip (turn_flow ns) (turn_demand ns)). r32 tol < r32 (f - d),
        ''turn_flow exceeds turn_demand''),
     (\<exists>(f, s) \<in> set (zip (turn_flow ns) (turn_supply ns)). r32 tol < r32 (f - s),
        ''turn_flow exceeds turn_supply''),
     (\<exists>x \<in> set (signal_phase_timer ns). sint x < 0,
        ''signal_phase_timer contains negative values'')]"

section \<open>Well-formed states\<close>

text \<open>What the validating constructors establish.\<close>

definition wf_link :: "link_state \<Rightarrow> bool" where
  "wf_link ls \<longleftrightarrow>
     (let n = link_count ls in
       length (inflow_vehicles ls) = n \<and> length (outflow_vehicles ls) = n \<and>
       length (travel_time_cost ls) = n \<and> length (capacity_veh_per_tick ls) = n \<and>
       length (incident_capacity_multiplier ls) = n \<and>
       length (capacity_violation_flags ls) = n) \<and>
     (\<forall>x \<in> set (queue_vehicles ls). is_f32 x \<and> 0 \<le> x) \<and>
     (\<forall>x \<in> set (inflow_vehicles ls). is_f32 x \<and> 0 \<le> x) \<and>
     (\<forall>x \<in> set (outflow_vehicles ls). is_f32 x \<and> 0 \<le> x) \<and>
     (\<forall>x \<in> set (travel_time_cost ls). is_f32 x \<and> 0 < x) \<and>
     (\<forall>x \<in> set (capacity_veh_per_tick ls). is_f32 x \<and> 0 \<le> x) \<and>
     (\<forall>x \<in> set (incident_capacity_multiplier ls). is_f32 x \<and> 0 \<le> x \<and> x \<le> 1)"

definition wf_node :: "node_state \<Rightarrow> bool" where
  "wf_node ns \<longleftrightarrow>
     (let n = turn_count ns in
       length (turn_from_link_index ns) = n \<and> length (turn_to_link_index ns) = n \<and>
       length (turn_supply ns) = n \<and> length (turn_flow ns) = n) \<and>
     (\<forall>x \<in> set (turn_demand ns). is_f32 x \<and> 0 \<le> x) \<and>
     (\<forall>x \<in> set (turn_supply ns). is_f32 x \<and> 0 \<le> x) \<and>
     (\<forall>x \<in> set (turn_flow ns). is_f32 x \<and> 0 \<le> x) \<and>
     (\<forall>x \<in> set (signal_phase_timer ns). 0 \<le> sint x)"

lemma make_link_state_wf:
  assumes "make_link_state q i ou t c m fl md = Inr ls" shows "wf_link ls"
  using assms
  by (auto simp: make_link_state_def Let_def check_simps same_shape_def wf_link_def
      link_count_def linorder_not_less linorder_not_le)

lemma make_node_state_wf:
  assumes "make_node_state f t d s fl pidx ptim md = Inr ns" shows "wf_node ns"
  using assms
  by (auto simp: make_node_state_def Let_def check_simps same_shape_def wf_node_def
      turn_count_def linorder_not_less linorder_not_le)

text \<open>The constructor accepts exactly such arrays.\<close>

lemma make_link_state_ok:
  assumes "length i = length q" "length ou = length q" "length t = length q"
    "length c = length q" "length m = length q" "length fl = length q"
    "\<forall>x \<in> set q. 0 \<le> r32 x" "\<forall>x \<in> set i. 0 \<le> r32 x" "\<forall>x \<in> set ou. 0 \<le> r32 x"
    "\<forall>x \<in> set t. 0 < r32 x" "\<forall>x \<in> set c. 0 \<le> r32 x"
    "\<forall>x \<in> set m. 0 \<le> r32 x \<and> r32 x \<le> 1"
  shows "make_link_state q i ou t c m (Some fl) md = Inr
    \<lparr>queue_vehicles = map r32 q, inflow_vehicles = map r32 i, outflow_vehicles = map r32 ou,
     travel_time_cost = map r32 t, capacity_veh_per_tick = map r32 c,
     incident_capacity_multiplier = map r32 m, capacity_violation_flags = fl,
     link_metadata = md\<rparr>"
  using assms
  by (auto simp: make_link_state_def Let_def check_simps same_shape_def
      linorder_not_less linorder_not_le)

lemma make_node_state_ok:
  assumes "length f = length d" "length t = length d" "length s = length d" "length fl = length d"
    "\<forall>x \<in> set d. 0 \<le> r32 x" "\<forall>x \<in> set s. 0 \<le> r32 x" "\<forall>x \<in> set fl. 0 \<le> r32 x"
    "\<forall>x \<in> set ptim. 0 \<le> sint x"
  shows "make_node_state f t d s fl pidx ptim md = Inr
    \<lparr>turn_from_link_index = f, turn_to_link_index = t, turn_demand = map r32 d,
     turn_supply = map r32 s, turn_flow = map r32 fl, signal_phase_index = pidx,
     signal_phase_timer = ptim, node_metadata = md\<rparr>"
  using assms
  by (auto simp: make_node_state_def Let_def check_simps same_shape_def
      linorder_not_less linorder_not_le)

lemma effective_capacity_wf:
  assumes "wf_link ls"
  shows "length (effective_capacity_vehicles ls) = link_count ls"
    and "x \<in> set (effective_capacity_vehicles ls) \<Longrightarrow> is_f32 x \<and> 0 \<le> x"
proof -
  show "length (effective_capacity_vehicles ls) = link_count ls"
    using assms by (simp add: effective_capacity_vehicles_def wf_link_def Let_def)
  assume "x \<in> set (effective_capacity_vehicles ls)"
  then obtain c m where x: "x = r32 (c * m)" and cm: "c \<in> set (capacity_veh_per_tick ls)"
      "m \<in> set (incident_capacity_multiplier ls)"
    by (auto simp: effective_capacity_vehicles_def dest: set_zip_leftD set_zip_rightD)
  from cm assms have "0 \<le> c * m" by (auto simp: wf_link_def)
  then show "is_f32 x \<and> 0 \<le> x" by (simp add: x f32.rd_nonneg)
qed

text \<open>An incident never raises the capacity of a link.\<close>

lemma effective_capacity_le:
  assumes "wf_link ls" "k < link_count ls"
  shows "effective_capacity_vehicles ls ! k \<le> capacity_veh_per_tick ls ! k"
proof -
  have "k < length (capacity_veh_per_tick ls)" "k < length (incident_capacity_multiplier ls)"
    using assms by (simp_all add: wf_link_def Let_def)
  then have "is_f32 (capacity_veh_per_tick ls ! k)" "0 \<le> capacity_veh_per_tick ls ! k"
    "incident_capacity_multiplier ls ! k \<le> 1"
    using assms(1) nth_mem unfolding wf_link_def by blast+
  then show ?thesis
    using \<open>k < length (capacity_veh_per_tick ls)\<close> \<open>k < length (incident_capacity_multiplier ls)\<close>
      f32.rd_mult_share_le
    by (simp add: effective_capacity_vehicles_def is_f32_def)
qed

end
