(* ===== verification/DynamicPotential.thy ===== *)
theory DynamicPotential
  imports RoadNetwork FlowState "HOL-Library.Product_Lexorder"
begin

text \<open>
  Congestion-aware routing (src/src/metroflow/routing/dynamic_potential.py): the reverse
  Dijkstra over float32 costs, the scoring of legal next links and the greedy route.  The
  heap loop may in principle run forever, so it is a partial function; the lemmas show that it
  returns whenever the costs are non-negative, and that its result is the least float32 cost
  of an unblocked walk to the destination.  The compiled backend is a parameter.
\<close>

section \<open>Costs and blocked links\<close>

definition inf_cost :: rat where
  "inf_cost = 10 ^ 12"

definition inf32 :: rat where
  "inf32 = r32 inf_cost"

definition half_inf :: rat where
  "half_inf = 5 * 10 ^ 11"

definition micro_cost32 :: rat where
  "micro_cost32 = r32 (1 / 10 ^ 6)"

definition micro_cost64 :: rat where
  "micro_cost64 = r64 (1 / 10 ^ 6)"

definition free_flow_cost :: "road_link \<Rightarrow> rat" where
  "free_flow_cost l = r32 (max micro_cost64
     (r64 (finite_part (length_m l) / max micro_cost64 (finite_part (free_flow_speed l)))))"

definition resolve_link_costs :: "road_network \<Rightarrow> link_state option \<Rightarrow> pyfloat list option \<Rightarrow>
    rat list result" where
  "resolve_link_costs net ls arr = (case ls of
       Some s \<Rightarrow>
         if link_count s \<noteq> net_link_count net
         then Inl (ValueError ''link_state.link_count must match network.link_count'')
         else Inr (map (\<lambda>x. max x micro_cost32) (travel_time_cost s))
     | None \<Rightarrow> (case arr of
         Some xs \<Rightarrow>
           if length xs \<noteq> net_link_count net
           then Inl (ValueError ''link_travel_time_cost must have shape (link_count,)'')
           else if \<not> list_all isfinite xs then Inl (OutOfModel ''link_travel_time_cost'')
           else Inr (map (\<lambda>x. max (r32 (finite_part x)) micro_cost32) xs)
       | None \<Rightarrow>
           if \<not> list_all (\<lambda>l. isfinite (length_m l) \<and> isfinite (free_flow_speed l)) (net_links net)
           then Inl (OutOfModel ''free-flow cost'')
           else Inr (map free_flow_cost (net_links net))))"

definition static_blockable_mask :: "road_network \<Rightarrow> bool list" where
  "static_blockable_mask net = map is_blockable (net_links net)"

definition resolve_blocked_link_mask :: "road_network \<Rightarrow> link_state option \<Rightarrow> bool list" where
  "resolve_blocked_link_mask net ls = (case ls of
       None \<Rightarrow> replicate (net_link_count net) False
     | Some s \<Rightarrow> map2 (\<and>) (map (\<lambda>c. c \<le> 0) (effective_capacity_vehicles s))
                   (static_blockable_mask net))"

section \<open>Reverse Dijkstra\<close>

type_synonym search_state = "rat list \<times> (rat \<times> nat) list"

text \<open>One incoming link of the node that was popped with cost \<open>cur\<close>.\<close>

definition relax_link :: "road_network \<Rightarrow> rat list \<Rightarrow> bool list \<Rightarrow> rat \<Rightarrow> nat \<Rightarrow> search_state \<Rightarrow>
    search_state" where
  "relax_link net costs blocked cur l st =
     (if blocked ! l then st
      else let prev = link_src net ! l; cand = r32 (cur + costs ! l) in
        if cand < fst st ! prev
        then ((fst st)[prev := cand], heap_push (cand, prev) (snd st)) else st)"

definition expand_node :: "road_network \<Rightarrow> rat list \<Rightarrow> bool list \<Rightarrow> rat \<times> nat \<Rightarrow> search_state \<Rightarrow>
    search_state" where
  "expand_node net costs blocked entry st =
     (let cur = r32 (fst entry) in
      if fst st ! snd entry < cur then st
      else fold (relax_link net costs blocked cur) (csr_row (incoming net) (snd entry)) st)"

partial_function (option) dijkstra_loop :: "road_network \<Rightarrow> rat list \<Rightarrow> bool list \<Rightarrow> search_state \<Rightarrow>
    rat list option" where
  "dijkstra_loop net costs blocked st = (case heap_pop (snd st) of
       None \<Rightarrow> Some (fst st)
     | Some (entry, h) \<Rightarrow>
         dijkstra_loop net costs blocked (expand_node net costs blocked entry (fst st, h)))"

definition reverse_dijkstra_node_costs :: "road_network \<Rightarrow> rat list \<Rightarrow> bool list \<Rightarrow> nat \<Rightarrow>
    rat list option" where
  "reverse_dijkstra_node_costs net costs blocked dest =
     dijkstra_loop net costs blocked
       ((replicate (net_node_count net) inf32)[dest := 0], [(0, dest)])"

section \<open>Walks and their rounded costs\<close>

text \<open>The cost of a walk, accumulated from the destination backwards as the search does.\<close>

fun walk_cost :: "rat list \<Rightarrow> nat list \<Rightarrow> rat" where
  "walk_cost costs [] = 0"
| "walk_cost costs (l # p) = r32 (walk_cost costs p + costs ! l)"

fun walk_to :: "road_network \<Rightarrow> bool list \<Rightarrow> nat \<Rightarrow> nat \<Rightarrow> nat list \<Rightarrow> bool" where
  "walk_to net blocked dest v [] \<longleftrightarrow> v = dest"
| "walk_to net blocked dest v (l # p) \<longleftrightarrow> l < net_link_count net \<and> \<not> blocked ! l \<and>
     link_src net ! l = v \<and> walk_to net blocked dest (link_dst net ! l) p"

definition wf_costs :: "road_network \<Rightarrow> rat list \<Rightarrow> bool" where
  "wf_costs net costs \<longleftrightarrow> length costs = net_link_count net \<and> (\<forall>c \<in> set costs. is_f32 c \<and> 0 \<le> c)"

lemma inf32_f32 [simp]: "is_f32 inf32"
  by (simp add: inf32_def)

lemma inf32_pos: "0 < inf32"
proof -
  have "r32 1 \<le> inf32" unfolding inf32_def by (rule f32.rd_mono) (simp add: inf_cost_def)
  then show ?thesis by simp
qed

lemma cost_nth: "wf_costs net costs \<Longrightarrow> l < net_link_count net \<Longrightarrow> is_f32 (costs ! l) \<and> 0 \<le> costs ! l"
  by (simp add: wf_costs_def)

section \<open>The invariant of the search\<close>

definition relaxed :: "road_network \<Rightarrow> rat list \<Rightarrow> bool list \<Rightarrow> rat list \<Rightarrow> nat \<Rightarrow> bool" where
  "relaxed net costs blocked d v \<longleftrightarrow>
     (\<forall>l \<in> set (csr_row (incoming net) v). \<not> blocked ! l \<longrightarrow> d ! (link_src net ! l) \<le> r32 (d ! v + costs ! l))"

definition dist_ok :: "road_network \<Rightarrow> rat list \<Rightarrow> bool list \<Rightarrow> nat \<Rightarrow> rat list \<Rightarrow> bool" where
  "dist_ok net costs blocked dest d \<longleftrightarrow> length d = net_node_count net \<and> d ! dest = 0 \<and>
     (\<forall>v < net_node_count net. is_f32 (d ! v) \<and> 0 \<le> d ! v \<and> d ! v \<le> inf32 \<and>
        (d ! v = inf32 \<or> (\<exists>p. walk_to net blocked dest v p \<and> walk_cost costs p = d ! v)))"

definition heap_ok :: "road_network \<Rightarrow> search_state \<Rightarrow> bool" where
  "heap_ok net st \<longleftrightarrow> (\<forall>(c, v) \<in> set (snd st). v < net_node_count net \<and> is_f32 c \<and> fst st ! v \<le> c)"

definition search_inv :: "road_network \<Rightarrow> rat list \<Rightarrow> bool list \<Rightarrow> nat \<Rightarrow> search_state \<Rightarrow> bool" where
  "search_inv net costs blocked dest st \<longleftrightarrow> dist_ok net costs blocked dest (fst st) \<and> heap_ok net st \<and>
     (\<forall>v < net_node_count net. (fst st ! v, v) \<in> set (snd st) \<or> relaxed net costs blocked (fst st) v)"

section \<open>The search returns\<close>

text \<open>Float32 values are multiples of the least subnormal: a distance can only fall finitely often.\<close>

lemma f32_units:
  assumes "is_f32 x" "0 \<le> x" shows "\<exists>m. x * 2 ^ 149 = of_int m"
proof (cases "x = 0")
  case True
  then show ?thesis by (intro exI[of _ 0]) simp
next
  case False
  then have pos: "0 < x" using assms(2) by simp
  let ?q = "quantum 24 (- 149) x"
  obtain m where "round_pos 24 (- 149) x = of_int m * 2 powi ?q"
    using round_pos_representable[OF pos] by metis
  then have x: "x = of_int m * 2 powi ?q"
    using assms(1) pos by (simp add: is_f32_def r32_def round_float_def)
  have "2 powi ?q * (2 ^ 149 :: rat) = 2 powi (?q + 149)"
    by (simp add: power_int_add)
  also have "\<dots> = of_int (2 ^ nat (?q + 149))"
    by (simp add: power_int_def quantum_def)
  finally show ?thesis
    by (subst x) (metis (no_types, lifting) mult.assoc of_int_mult)
qed

lemma sum_list_update_less:
  fixes xs :: "nat list"
  shows "i < length xs \<Longrightarrow> v < xs ! i \<Longrightarrow> sum_list (xs[i := v]) < sum_list xs"
proof (induction xs arbitrary: i)
  case (Cons x xs)
  then show ?case by (cases i) simp_all
qed simp

definition units :: "rat list \<Rightarrow> nat" where
  "units d = (\<Sum>x\<leftarrow>d. nat \<lfloor>x * 2 ^ 149\<rfloor>)"

lemma units_update:
  assumes "i < length d" "is_f32 c" "is_f32 (d ! i)" "0 \<le> c" "c < d ! i"
  shows "units (d[i := c]) < units d"
proof -
  obtain a b where ab: "c * 2 ^ 149 = of_int a" "d ! i * 2 ^ 149 = of_int b"
    using f32_units[OF assms(2,4)] f32_units[OF assms(3)] assms(4,5) by auto
  have "(of_int a :: rat) < of_int b" using assms(5) by (simp flip: ab)
  moreover have "(0::rat) \<le> of_int a" using assms(4) by (simp flip: ab)
  ultimately have less: "nat \<lfloor>c * 2 ^ 149\<rfloor> < nat \<lfloor>d ! i * 2 ^ 149\<rfloor>"
    unfolding ab by simp
  let ?u = "\<lambda>x. nat \<lfloor>x * 2 ^ 149\<rfloor>"
  have "units (d[i := c]) = sum_list ((map ?u d)[i := ?u c])"
    by (simp add: units_def map_update)
  also have "\<dots> < sum_list (map ?u d)"
    using sum_list_update_less[of i "map ?u d" "?u c"] assms(1) less by simp
  finally show ?thesis by (simp add: units_def)
qed

definition search_work :: "search_state \<Rightarrow> nat" where
  "search_work st = 2 * units (fst st) + length (snd st)"

section \<open>One step of the search\<close>

text \<open>The node \<open>v\<close> is being expanded at its distance; the links \<open>done\<close> have been relaxed.\<close>

definition expanding :: "road_network \<Rightarrow> rat list \<Rightarrow> bool list \<Rightarrow> nat \<Rightarrow> nat \<Rightarrow> rat \<Rightarrow> nat set \<Rightarrow>
    search_state \<Rightarrow> bool" where
  "expanding net costs blocked dest v cur relaxed_links st \<longleftrightarrow>
     dist_ok net costs blocked dest (fst st) \<and> heap_ok net st \<and> v < net_node_count net \<and>
     fst st ! v = cur \<and>
     (\<forall>w < net_node_count net. w \<noteq> v \<longrightarrow>
        (fst st ! w, w) \<in> set (snd st) \<or> relaxed net costs blocked (fst st) w) \<and>
     (\<forall>l \<in> relaxed_links. \<not> blocked ! l \<longrightarrow> fst st ! (link_src net ! l) \<le> r32 (cur + costs ! l))"

lemma row_members:
  assumes "wf_network net" "v < net_node_count net"
  shows "l \<in> set (csr_row (incoming net) v) \<longleftrightarrow> l < net_link_count net \<and> link_dst net ! l = v"
  using outgoing_row(2)[OF assms] by auto

lemma link_ends:
  assumes "wf_network net" "l < net_link_count net"
  shows "link_src net ! l < net_node_count net" "link_dst net ! l < net_node_count net"
  using assms by (simp_all add: wf_network_def Let_def)

lemma dist_update:
  assumes "wf_network net" "wf_costs net costs" "dist_ok net costs blocked dest d"
    "dest < net_node_count net" "l < net_link_count net" "link_dst net ! l = v" "\<not> blocked ! l"
    "r32 (d ! v + costs ! l) < d ! (link_src net ! l)"
  shows "dist_ok net costs blocked dest (d[link_src net ! l := r32 (d ! v + costs ! l)])"
proof -
  let ?u = "link_src net ! l" and ?c = "r32 (d ! v + costs ! l)"
  have u: "?u < net_node_count net" and v: "v < net_node_count net"
    using link_ends[OF assms(1,5)] assms(6) by simp_all
  have c: "is_f32 (costs ! l)" "0 \<le> costs ! l" using cost_nth[OF assms(2,5)] by simp_all
  have dv: "is_f32 (d ! v)" "0 \<le> d ! v" "d ! v \<le> inf32"
    "d ! v = inf32 \<or> (\<exists>p. walk_to net blocked dest v p \<and> walk_cost costs p = d ! v)"
    and du: "d ! ?u \<le> inf32"
    using assms(3) u v by (auto simp: dist_ok_def)
  have c0: "0 \<le> ?c" using dv c by (intro f32.rd_nonneg) simp
  have "d ! v \<le> ?c" by (rule f32.rd_add_ge) (use dv c in simp_all)
  then have "d ! v \<noteq> inf32" using assms(8) du by linarith
  then obtain p where "walk_to net blocked dest v p" "walk_cost costs p = d ! v" using dv(4) by blast
  then have walk: "walk_to net blocked dest ?u (l # p)" "walk_cost costs (l # p) = ?c"
    using assms(5-7) by simp_all
  have "?u \<noteq> dest" using assms(3,8) c0 by (auto simp: dist_ok_def)
  have cle: "?c \<le> inf32" using assms(8) du by linarith
  show ?thesis
    unfolding dist_ok_def
  proof (intro conjI allI impI)
    show "length (d[?u := ?c]) = net_node_count net" "d[?u := ?c] ! dest = 0"
      using assms(3) \<open>?u \<noteq> dest\<close> by (simp_all add: dist_ok_def)
    fix w assume w: "w < net_node_count net"
    then have dw: "is_f32 (d ! w) \<and> 0 \<le> d ! w \<and> d ! w \<le> inf32 \<and>
        (d ! w = inf32 \<or> (\<exists>p. walk_to net blocked dest w p \<and> walk_cost costs p = d ! w))"
      and len: "length d = net_node_count net" using assms(3) by (simp_all add: dist_ok_def)
    have "is_f32 (d[?u := ?c] ! w) \<and> 0 \<le> d[?u := ?c] ! w \<and> d[?u := ?c] ! w \<le> inf32 \<and>
        (d[?u := ?c] ! w = inf32 \<or> (\<exists>p. walk_to net blocked dest w p \<and> walk_cost costs p = d[?u := ?c] ! w))"
    proof (cases "w = ?u")
      case True
      then have "d[?u := ?c] ! w = ?c" using len w by simp
      then show ?thesis using True c0 cle walk by (simp only: is_f32_r32) blast
    next
      case False
      then show ?thesis using dw by simp
    qed
    then show "is_f32 (d[?u := ?c] ! w)" "0 \<le> d[?u := ?c] ! w" "d[?u := ?c] ! w \<le> inf32"
      "d[?u := ?c] ! w = inf32 \<or>
        (\<exists>p. walk_to net blocked dest w p \<and> walk_cost costs p = d[?u := ?c] ! w)" by blast+
  qed
qed

lemma relax_expanding:
  assumes "wf_network net" "wf_costs net costs" "dest < net_node_count net"
    "expanding net costs blocked dest v cur S st" "l \<in> set (csr_row (incoming net) v)"
  shows "expanding net costs blocked dest v cur (insert l S) (relax_link net costs blocked cur l st)
    \<and> search_work (relax_link net costs blocked cur l st) \<le> search_work st"
proof -
  obtain d h where st: "st = (d, h)" by (cases st)
  let ?u = "link_src net ! l" and ?c = "r32 (cur + costs ! l)"
  have e: "dist_ok net costs blocked dest d" "heap_ok net (d, h)" "v < net_node_count net" "d ! v = cur"
    and other: "\<And>w. w < net_node_count net \<Longrightarrow> w \<noteq> v \<Longrightarrow>
        (d ! w, w) \<in> set h \<or> relaxed net costs blocked d w"
    and old: "\<And>m. m \<in> S \<Longrightarrow> \<not> blocked ! m \<Longrightarrow> d ! (link_src net ! m) \<le> r32 (cur + costs ! m)"
    using assms(4) by (auto simp: expanding_def st)
  have l: "l < net_link_count net" "link_dst net ! l = v"
    using row_members[OF assms(1) e(3)] assms(5) by simp_all
  have c: "is_f32 (costs ! l)" "0 \<le> costs ! l" using cost_nth[OF assms(2) l(1)] by simp_all
  have u: "?u < net_node_count net" by (rule link_ends[OF assms(1) l(1)])
  have len: "length d = net_node_count net" and du: "is_f32 (d ! ?u)" and dv: "is_f32 cur" "0 \<le> cur"
    using e u by (auto simp: dist_ok_def)
  have cle: "cur \<le> ?c" by (rule f32.rd_add_ge) (use dv c in simp_all)
  show ?thesis
  proof (cases "\<not> blocked ! l \<and> ?c < d ! ?u")
    case False
    then have "relax_link net costs blocked cur l st = st"
      by (auto simp: relax_link_def Let_def st)
    moreover have "\<not> blocked ! l \<Longrightarrow> d ! ?u \<le> ?c" using False by simp
    ultimately show ?thesis using assms(4) by (auto simp: expanding_def st)
  next
    case True
    let ?d = "d[?u := ?c]"
    have eq: "relax_link net costs blocked cur l st = (?d, heap_push (?c, ?u) h)"
      using True by (simp add: relax_link_def Let_def st)
    have ne: "?u \<noteq> v" using True cle e(4) by auto
    have le: "?d ! w \<le> d ! w" for w using True len u by (cases "w = ?u") auto
    have same: "?d ! w = d ! w" if "w \<noteq> ?u" for w using that by simp
    have "dist_ok net costs blocked dest ?d"
      using dist_update[OF assms(1,2) e(1) assms(3) l] True e(4) by simp
    moreover have "heap_ok net (?d, heap_push (?c, ?u) h)"
      using e(2) u len le by (fastforce simp: heap_ok_def heapq.entries_push intro: order_trans)
    moreover have "(?d ! w, w) \<in> set (heap_push (?c, ?u) h) \<or> relaxed net costs blocked ?d w"
      if w: "w < net_node_count net" "w \<noteq> v" for w
    proof (cases "w = ?u")
      case True
      then show ?thesis using len u by (simp add: heapq.entries_push)
    next
      case False
      then show ?thesis
        using other[OF w] le same[OF False] by (auto simp: heapq.entries_push relaxed_def intro: order_trans)
    qed
    moreover have "?d ! (link_src net ! m) \<le> r32 (cur + costs ! m)" if "m \<in> insert l S" "\<not> blocked ! m" for m
      using that old[of m] le[of "link_src net ! m"] len u by auto
    moreover have "search_work (?d, heap_push (?c, ?u) h) \<le> search_work (d, h)"
      using units_update[of ?u d ?c] len u du True cle dv heapq.size_push[of "(?c, ?u)" h]
      by (simp add: search_work_def)
    ultimately have "expanding net costs blocked dest v cur (insert l S) (?d, heap_push (?c, ?u) h)"
      "search_work (?d, heap_push (?c, ?u) h) \<le> search_work (d, h)"
      using e ne by (simp_all add: expanding_def)
    then show ?thesis by (simp add: eq[unfolded st] st)
  qed
qed

lemma expand_fold:
  assumes "wf_network net" "wf_costs net costs" "dest < net_node_count net"
    "expanding net costs blocked dest v cur S st" "set ls \<subseteq> set (csr_row (incoming net) v)"
  shows "expanding net costs blocked dest v cur (S \<union> set ls) (fold (relax_link net costs blocked cur) ls st)
    \<and> search_work (fold (relax_link net costs blocked cur) ls st) \<le> search_work st"
  using assms(4,5)
proof (induction ls arbitrary: S st)
  case (Cons l ls)
  have step: "expanding net costs blocked dest v cur (insert l S) (relax_link net costs blocked cur l st)"
    "search_work (relax_link net costs blocked cur l st) \<le> search_work st"
    using relax_expanding[OF assms(1-3) Cons.prems(1)] Cons.prems(2) by simp_all
  show ?case using Cons.IH[OF step(1)] Cons.prems(2) step(2) by simp
qed simp

lemma search_step:
  assumes "wf_network net" "wf_costs net costs" "dest < net_node_count net"
    "search_inv net costs blocked dest st" "heap_pop (snd st) = Some (entry, h)"
  defines "st' \<equiv> expand_node net costs blocked entry (fst st, h)"
  shows "search_inv net costs blocked dest st' \<and> search_work st' < search_work st"
proof -
  obtain c v where entry: "entry = (c, v)" by (cases entry)
  have inv: "dist_ok net costs blocked dest (fst st)" "heap_ok net st"
    and cov: "\<And>w. w < net_node_count net \<Longrightarrow> (fst st ! w, w) \<in> set (snd st) \<or> relaxed net costs blocked (fst st) w"
    using assms(4) by (auto simp: search_inv_def)
  have e: "v < net_node_count net" "is_f32 c" "fst st ! v \<le> c"
    using inv(2) heapq.pop_member[OF assms(5)] by (auto simp: heap_ok_def entry)
  have hok: "heap_ok net (fst st, h)"
    using inv(2) heapq.pop_subset[OF assms(5)] by (auto simp: heap_ok_def)
  have shrink: "search_work (fst st, h) < search_work st"
    using heapq.pop_size[OF assms(5)] by (simp add: search_work_def)
  have kept: "(fst st ! w, w) \<in> set h \<or> relaxed net costs blocked (fst st) w"
    if "w < net_node_count net" "(fst st ! w, w) \<noteq> entry" for w
    using cov[OF that(1)] heapq.pop_other[OF assms(5)] that(2) by blast
  show ?thesis
  proof (cases "fst st ! v < c")
    case True
    then have "st' = (fst st, h)" using e by (simp add: st'_def expand_node_def entry)
    moreover have "(fst st ! w, w) \<noteq> entry" for w using True by (auto simp: entry)
    ultimately show ?thesis using inv(1) hok kept shrink by (simp add: search_inv_def)
  next
    case False
    then have cur: "fst st ! v = c" using e by simp
    let ?row = "csr_row (incoming net) v"
    have "expanding net costs blocked dest v c {} (fst st, h)"
      using inv(1) hok e cur kept by (simp add: expanding_def entry)
    from expand_fold[OF assms(1-3) this, of ?row]
    have res: "expanding net costs blocked dest v c (set ?row) (fold (relax_link net costs blocked c) ?row (fst st, h))"
      "search_work (fold (relax_link net costs blocked c) ?row (fst st, h)) \<le> search_work (fst st, h)"
      by simp_all
    have eq: "st' = fold (relax_link net costs blocked c) ?row (fst st, h)"
      using False e by (simp add: st'_def expand_node_def entry)
    have "(fst st' ! w, w) \<in> set (snd st') \<or> relaxed net costs blocked (fst st') w"
      if "w < net_node_count net" for w
      using res(1) that by (cases "w = v") (auto simp: eq expanding_def relaxed_def)
    then show ?thesis
      using res shrink by (simp add: search_inv_def eq[symmetric] expanding_def)
  qed
qed

section \<open>The search is exact\<close>

lemma dijkstra_loop_correct:
  assumes "wf_network net" "wf_costs net costs" "dest < net_node_count net"
    "search_inv net costs blocked dest st"
  shows "\<exists>d. dijkstra_loop net costs blocked st = Some d \<and> dist_ok net costs blocked dest d \<and>
    (\<forall>v < net_node_count net. relaxed net costs blocked d v)"
  using assms(4)
proof (induction "search_work st" arbitrary: st rule: less_induct)
  case less
  show ?case
  proof (cases "heap_pop (snd st)")
    case None
    then have "snd st = []" by (cases "snd st") simp_all
    then show ?thesis using less.prems None by (subst dijkstra_loop.simps) (simp add: search_inv_def)
  next
    case (Some eh)
    then obtain entry h where pop: "heap_pop (snd st) = Some (entry, h)" by (cases eh) simp
    note step = search_step[OF assms(1-3) less.prems pop]
    from less.hyps[OF conjunct2[OF step] conjunct1[OF step]]
    show ?thesis using pop by (subst dijkstra_loop.simps) simp
  qed
qed

lemma initial_search_inv:
  assumes "dest < net_node_count net" "wf_network net" "wf_costs net costs"
  shows "search_inv net costs blocked dest
    ((replicate (net_node_count net) inf32)[dest := 0], [(0, dest)])"
proof -
  let ?d = "(replicate (net_node_count net) inf32)[dest := 0]"
  have nth: "?d ! v = (if v = dest then 0 else inf32)" if "v < net_node_count net" for v
    using that assms(1) by (simp add: nth_list_update)
  have "dist_ok net costs blocked dest ?d"
    using nth assms(1) inf32_pos
    by (auto simp: dist_ok_def intro: exI[of _ "[]"] intro!: less_imp_le)
  moreover have "relaxed net costs blocked ?d v" if v: "v < net_node_count net" "v \<noteq> dest" for v
    unfolding relaxed_def
  proof (intro ballI impI)
    fix l assume "l \<in> set (csr_row (incoming net) v)"
    then have l: "l < net_link_count net" using row_members[OF assms(2) v(1)] by simp
    have "?d ! (link_src net ! l) \<le> inf32"
      using nth[OF link_ends(1)[OF assms(2) l]] inf32_pos by simp
    also have "inf32 \<le> r32 (?d ! v + costs ! l)"
      using nth[OF v(1)] v(2) cost_nth[OF assms(3) l] by (simp add: f32.rd_add_ge)
    finally show "?d ! (link_src net ! l) \<le> r32 (?d ! v + costs ! l)" .
  qed
  ultimately show ?thesis using nth assms(1) by (auto simp: search_inv_def heap_ok_def)
qed

lemma relaxed_below_walks:
  assumes "wf_network net" "\<forall>v < net_node_count net. relaxed net costs blocked d v"
    "d ! dest = 0" "dest < net_node_count net" "walk_to net blocked dest v p"
  shows "d ! v \<le> walk_cost costs p"
  using assms(5)
proof (induction p arbitrary: v)
  case Nil
  then show ?case using assms(3) by simp
next
  case (Cons l p)
  let ?w = "link_dst net ! l"
  have l: "l < net_link_count net" "\<not> blocked ! l" "link_src net ! l = v" "walk_to net blocked dest ?w p"
    using Cons.prems by simp_all
  have w: "?w < net_node_count net" by (rule link_ends[OF assms(1) l(1)])
  then have "l \<in> set (csr_row (incoming net) ?w)" using row_members[OF assms(1) w] l(1) by simp
  then have "d ! v \<le> r32 (d ! ?w + costs ! l)" using assms(2) w l by (auto simp: relaxed_def)
  also have "\<dots> \<le> r32 (walk_cost costs p + costs ! l)"
    by (rule f32.rd_mono) (use Cons.IH[OF l(4)] in simp)
  finally show ?case by simp
qed

lemma reverse_dijkstra_correct:
  assumes "wf_network net" "wf_costs net costs" "dest < net_node_count net"
  obtains d where "reverse_dijkstra_node_costs net costs blocked dest = Some d"
    "dist_ok net costs blocked dest d"
    "\<And>v p. walk_to net blocked dest v p \<Longrightarrow> d ! v \<le> walk_cost costs p"
proof -
  obtain d where d: "reverse_dijkstra_node_costs net costs blocked dest = Some d"
    "dist_ok net costs blocked dest d" "\<forall>v < net_node_count net. relaxed net costs blocked d v"
    using dijkstra_loop_correct[OF assms initial_search_inv[OF assms(3,1,2)]]
    by (auto simp: reverse_dijkstra_node_costs_def)
  show ?thesis
    by (rule that[OF d(1,2)]) (use relaxed_below_walks[OF assms(1) d(3) _ assms(3)] d(2) in \<open>auto simp: dist_ok_def\<close>)
qed

text \<open>C8: the reverse Dijkstra returns, and every node's cost-to-go is the least float32 cost of
  an unblocked walk to the destination, or the infinity constant when no walk is cheaper.\<close>

theorem dijkstra_exact:
  assumes "wf_network net" "wf_costs net costs" "dest < net_node_count net"
  shows "\<exists>d. reverse_dijkstra_node_costs net costs blocked dest = Some d \<and>
    length d = net_node_count net \<and> d ! dest = 0 \<and>
    (\<forall>v < net_node_count net.
       (\<forall>p. walk_to net blocked dest v p \<longrightarrow> d ! v \<le> walk_cost costs p) \<and>
       (d ! v < inf32 \<longrightarrow> (\<exists>p. walk_to net blocked dest v p \<and> walk_cost costs p = d ! v)))"
proof -
  obtain d where d: "reverse_dijkstra_node_costs net costs blocked dest = Some d"
    "dist_ok net costs blocked dest d"
    "\<And>v p. walk_to net blocked dest v p \<Longrightarrow> d ! v \<le> walk_cost costs p"
    using reverse_dijkstra_correct[OF assms] by metis
  then show ?thesis by (intro exI[of _ d]) (auto simp: dist_ok_def)
qed

section \<open>Legal successors\<close>

text \<open>\<^verbatim>\<open>_get_turn_successor_lookup\<close>: sorted, without duplicates; None when the link starts no turn.\<close>

definition successors_where :: "road_network \<Rightarrow> (nat \<Rightarrow> bool) \<Rightarrow> nat \<Rightarrow> nat list option" where
  "successors_where net keep from =
     (let ts = filter (\<lambda>t. keep t \<and> turn_from net ! t = from) [0..<net_turn_count net] in
      if ts = [] then None else Some (sort (remdups (map (\<lambda>t. turn_to net ! t) ts))))"

definition all_successors :: "road_network \<Rightarrow> nat \<Rightarrow> nat list option" where
  "all_successors net = successors_where net (\<lambda>_. True)"

definition allowed_successors :: "road_network \<Rightarrow> nat \<Rightarrow> nat list option" where
  "allowed_successors net = successors_where net (\<lambda>t. \<not> turn_forbidden net ! t)"

definition filter_legal_turn_successors :: "road_network \<Rightarrow> nat list \<Rightarrow> int option \<Rightarrow> nat list" where
  "filter_legal_turn_successors net out incoming_link = (case incoming_link of
       None \<Rightarrow> out
     | Some i \<Rightarrow>
        if out = [] \<or> net_turn_count net = 0 then out
        else (case link_index net i of
            None \<Rightarrow> []
          | Some idx \<Rightarrow> (case all_successors net idx of
              None \<Rightarrow> []
            | Some _ \<Rightarrow> filter (\<lambda>j. j \<in> set out)
                (case allowed_successors net idx of None \<Rightarrow> [] | Some js \<Rightarrow> js))))"

definition legal_turn :: "road_network \<Rightarrow> nat \<Rightarrow> nat \<Rightarrow> bool" where
  "legal_turn net i j \<longleftrightarrow> net_turn_count net = 0 \<or>
     (\<exists>t < net_turn_count net. turn_from net ! t = i \<and> turn_to net ! t = j \<and> \<not> turn_forbidden net ! t)"

lemma legal_successors:
  assumes "j \<in> set (filter_legal_turn_successors net out inc)"
  shows "j \<in> set out" and "inc = Some i \<Longrightarrow> link_index net i = Some idx \<Longrightarrow> legal_turn net idx j"
  using assms
  by (auto simp: filter_legal_turn_successors_def legal_turn_def allowed_successors_def
      successors_where_def Let_def split: option.splits if_splits)

lemma legal_successors_iff:
  assumes "link_index net i = Some idx"
  shows "j \<in> set (filter_legal_turn_successors net out (Some i)) \<longleftrightarrow> j \<in> set out \<and> legal_turn net idx j"
  using assms
  by (auto simp: filter_legal_turn_successors_def legal_turn_def allowed_successors_def
      all_successors_def successors_where_def Let_def filter_empty_conv split: option.splits)

section \<open>The potential and the scores\<close>

record potential_state =
  destination_node :: int
  destination_index :: nat
  node_cost_to_go :: "rat list"
  link_cost :: "rat list"
  blocked_links :: "bool list"
  backend_used :: string
  backend_requested :: string
  backend_fallback :: "string option"

text \<open>The compiled backend: whether it loads, and its functions.\<close>

record rust_routing =
  rust_available :: bool
  rust_node_costs :: "road_network \<Rightarrow> rat list \<Rightarrow> bool list \<Rightarrow> nat \<Rightarrow> rat list result"
  rust_action_costs :: "road_network \<Rightarrow> potential_state \<Rightarrow> nat list \<Rightarrow> rat list result"
  rust_greedy_route :: "road_network \<Rightarrow> potential_state \<Rightarrow> nat \<Rightarrow> int \<Rightarrow> nat \<Rightarrow> int list result"

definition is_runtime :: "py_error \<Rightarrow> bool" where
  "is_runtime e = (case e of RuntimeError _ \<Rightarrow> True | _ \<Rightarrow> False)"

definition validate_routing_backend :: "string \<Rightarrow> unit result" where
  "validate_routing_backend b =
     checks [(b \<notin> {''baseline'', ''rust_cpu'', ''auto''}, ''routing_backend must be one of: baseline, rust_cpu, auto'')]"

text \<open>None is a search that does not return.\<close>

definition compute_node_cost_to_go :: "rust_routing \<Rightarrow> road_network \<Rightarrow> rat list \<Rightarrow> bool list \<Rightarrow> nat \<Rightarrow>
    string \<Rightarrow> (rat list \<times> string \<times> string option) result option" where
  "compute_node_cost_to_go rust net costs blocked dest backend =
     (let baseline = (\<lambda>reason. map_option (\<lambda>d. Inr (d, ''baseline'', reason))
            (reverse_dijkstra_node_costs net costs blocked dest)) in
      if backend = ''auto'' \<and> \<not> rust_available rust then baseline (Some ''rust_cpu_unavailable'')
      else if backend = ''rust_cpu'' \<or> backend = ''auto'' then
        (case rust_node_costs rust net costs blocked dest of
           Inr d \<Rightarrow> Some (Inr (d, ''rust_cpu'', None))
         | Inl e \<Rightarrow> if \<not> is_runtime e \<or> backend = ''rust_cpu'' then Some (Inl e)
                    else baseline (Some ''rust_cpu_failed''))
      else baseline None)"

text \<open>\<^verbatim>\<open>DynamicPotentialState.__post_init__\<close>.\<close>

definition make_potential_state :: "int \<Rightarrow> nat \<Rightarrow> rat list \<Rightarrow> rat list \<Rightarrow> bool list \<Rightarrow> string \<Rightarrow> string \<Rightarrow>
    string option \<Rightarrow> potential_state result" where
  "make_potential_state dest dest_idx node_cost costs blocked used requested fallback =
     bindE (checks [
       (length costs \<noteq> length blocked, ''link_travel_time_cost and blocked_link_mask must have same shape''),
       (length node_cost \<le> dest_idx, ''destination_node_index out of range'')])
     (\<lambda>_. Inr \<lparr>destination_node = dest, destination_index = dest_idx,
        node_cost_to_go = map r32 node_cost, link_cost = map r32 costs, blocked_links = blocked,
        backend_used = used, backend_requested = requested, backend_fallback = fallback\<rparr>)"

text \<open>The caller's cache is keyed by the requested backend and the caller's key; the statistics count
  hits and recomputations.\<close>

record 'k potential_cache =
  cached_states :: "string \<times> 'k \<rightharpoonup> potential_state"
  cache_hits :: nat
  cache_recomputes :: nat

definition compute_dynamic_potential_state :: "rust_routing \<Rightarrow> road_network \<Rightarrow> int \<Rightarrow> link_state option \<Rightarrow>
    pyfloat list option \<Rightarrow> string \<Rightarrow> 'k option \<Rightarrow> 'k potential_cache \<Rightarrow>
    (potential_state \<times> 'k potential_cache) result option" where
  "compute_dynamic_potential_state rust net dest ls arr backend key cache =
     (case validate_routing_backend backend of
        Inl e \<Rightarrow> Some (Inl e)
      | Inr _ \<Rightarrow>
        (case (case key of None \<Rightarrow> None | Some k \<Rightarrow> cached_states cache (backend, k)) of
           Some s \<Rightarrow> Some (Inr (s, cache\<lparr>cache_hits := cache_hits cache + 1\<rparr>))
         | None \<Rightarrow>
           (case node_index net dest of
              None \<Rightarrow> Some (Inl (KeyError ''destination_node_id''))
            | Some d \<Rightarrow>
              (case resolve_link_costs net ls arr of
                 Inl e \<Rightarrow> Some (Inl e)
               | Inr costs \<Rightarrow>
                 (let blocked = resolve_blocked_link_mask net ls in
                  map_option (\<lambda>res. bindE res (\<lambda>(node_cost, used, reason).
                     bindE (make_potential_state dest d node_cost costs blocked used backend reason) (\<lambda>s.
                     Inr (s, cache\<lparr>cached_states := (case key of None \<Rightarrow> cached_states cache
                                     | Some k \<Rightarrow> (cached_states cache)((backend, k) \<mapsto> s)),
                                   cache_recomputes := cache_recomputes cache + 1\<rparr>))))
                   (compute_node_cost_to_go rust net costs blocked d backend))))))"

section \<open>Scoring the next links\<close>

text \<open>The float32 arrays are compared with the rounded constant.\<close>

definition next_link_costs :: "road_network \<Rightarrow> potential_state \<Rightarrow> nat list \<Rightarrow> rat list" where
  "next_link_costs net ps cand =
     map (\<lambda>l. let tail = node_cost_to_go ps ! (link_dst net ! l) in
            if \<not> blocked_links ps ! l \<and> tail < r32 half_inf then r32 (link_cost ps ! l + tail) else inf32) cand"

definition next_link_costs_for_backend :: "rust_routing \<Rightarrow> road_network \<Rightarrow> potential_state \<Rightarrow>
    nat list \<Rightarrow> string \<Rightarrow> rat list result" where
  "next_link_costs_for_backend rust net ps cand backend =
     (if backend = ''auto'' \<and> \<not> rust_available rust then Inr (next_link_costs net ps cand)
      else if backend = ''rust_cpu'' \<or> backend = ''auto'' then
        (case rust_action_costs rust net ps cand of
           Inr c \<Rightarrow> Inr c
         | Inl e \<Rightarrow> if \<not> is_runtime e \<or> backend = ''rust_cpu'' then Inl e
                    else Inr (next_link_costs net ps cand))
      else Inr (next_link_costs net ps cand))"

record next_link_scores =
  score_node :: int
  candidate_links :: "int list"
  action_costs :: "rat list"
  best_link :: "int option"
  best_cost :: "rat option"

definition score_legal_next_links :: "rust_routing \<Rightarrow> road_network \<Rightarrow> potential_state \<Rightarrow> int \<Rightarrow>
    int option \<Rightarrow> string \<Rightarrow> next_link_scores result" where
  "score_legal_next_links rust net ps node incoming_link backend =
     bindE (validate_routing_backend backend) (\<lambda>_.
     case node_index net node of
       None \<Rightarrow> Inl (KeyError ''node_id'')
     | Some v \<Rightarrow>
        let allowed = filter_legal_turn_successors net (csr_row (outgoing net) v) incoming_link in
        bindE (next_link_costs_for_backend rust net ps allowed backend) (\<lambda>raw.
        let scored = sort (map (\<lambda>(l, c). (c, link_id (net_links net ! l)))
              (filter (\<lambda>(l, c). c < half_inf) (zip allowed raw))) in
        Inr \<lparr>score_node = node, candidate_links = map snd scored, action_costs = map fst scored,
          best_link = (case scored of [] \<Rightarrow> None | x # _ \<Rightarrow> Some (snd x)),
          best_cost = (case scored of [] \<Rightarrow> None | x # _ \<Rightarrow> Some (fst x))\<rparr>))"

section \<open>The greedy route\<close>

text \<open>The choice among the allowed links: least float64 total, then least link id.\<close>

fun best_next_link :: "road_network \<Rightarrow> potential_state \<Rightarrow> nat list \<Rightarrow> (rat \<times> nat) option \<Rightarrow>
    (rat \<times> nat) option" where
  "best_next_link net ps [] best = best"
| "best_next_link net ps (l # ls) best =
     (let tail = node_cost_to_go ps ! (link_dst net ! l);
          total = r64 (link_cost ps ! l + tail);
          better = (case best of None \<Rightarrow> True | Some (c, b) \<Rightarrow> total < c \<or>
             total = c \<and> link_id (net_links net ! l) < link_id (net_links net ! b)) in
      if blocked_links ps ! l \<or> half_inf \<le> tail \<or> half_inf \<le> total \<or> \<not> better
      then best_next_link net ps ls best
      else best_next_link net ps ls (Some (total, l)))"

definition best_legal_next_link :: "road_network \<Rightarrow> potential_state \<Rightarrow> nat \<Rightarrow> int option \<Rightarrow> nat option" where
  "best_legal_next_link net ps v incoming_link =
     map_option snd (best_next_link net ps
       (filter_legal_turn_successors net (csr_row (outgoing net) v) incoming_link) None)"

fun greedy_steps :: "road_network \<Rightarrow> potential_state \<Rightarrow> nat \<Rightarrow> int \<Rightarrow> int option \<Rightarrow> int set \<Rightarrow> nat list \<Rightarrow>
    nat list" where
  "greedy_steps net ps 0 node inc visited path = []"
| "greedy_steps net ps (Suc hops) node inc visited path =
     (case best_legal_next_link net ps (the (node_index net node)) inc of
        None \<Rightarrow> []
      | Some l \<Rightarrow>
          let link = net_links net ! l; next = dst_node link in
          if next = destination_node ps then path @ [l]
          else if next \<in> visited then []
          else greedy_steps net ps hops next (Some (link_id link)) (insert next visited) (path @ [l]))"

definition greedy_route_baseline :: "road_network \<Rightarrow> potential_state \<Rightarrow> int \<Rightarrow> int option \<Rightarrow> nat \<Rightarrow> int list result"
  where
  "greedy_route_baseline net ps origin inc hops =
     (if node_index net origin = None then Inl (KeyError ''node_id'')
      else Inr (map (\<lambda>l. link_id (net_links net ! l)) (greedy_steps net ps hops origin inc {origin} [])))"

definition greedy_route_rust :: "rust_routing \<Rightarrow> road_network \<Rightarrow> potential_state \<Rightarrow> int \<Rightarrow> int option \<Rightarrow>
    nat \<Rightarrow> int list result" where
  "greedy_route_rust rust net ps origin inc hops = (case node_index net origin of
       None \<Rightarrow> Inl (KeyError ''node_id'')
     | Some v \<Rightarrow> (case inc of
          None \<Rightarrow> rust_greedy_route rust net ps v (- 1) hops
        | Some i \<Rightarrow> (case link_index net i of
            None \<Rightarrow> Inr []
          | Some j \<Rightarrow> rust_greedy_route rust net ps v (int j) hops)))"

definition build_greedy_route_candidate :: "rust_routing \<Rightarrow> road_network \<Rightarrow> potential_state \<Rightarrow> int \<Rightarrow>
    int option \<Rightarrow> int option \<Rightarrow> string \<Rightarrow> int list result" where
  "build_greedy_route_candidate rust net ps origin inc max_hops backend =
     bindE (validate_routing_backend backend) (\<lambda>_.
     if origin = destination_node ps then Inr []
     else let hops = (case max_hops of Some h \<Rightarrow> max 1 (nat h) | None \<Rightarrow> max 1 (net_link_count net + 1));
              baseline = greedy_route_baseline net ps origin inc hops in
       if backend = ''auto'' \<and> \<not> rust_available rust then baseline
       else if backend = ''rust_cpu'' \<or> backend = ''auto'' then
         (case greedy_route_rust rust net ps origin inc hops of
            Inr p \<Rightarrow> Inr p
          | Inl e \<Rightarrow> if \<not> is_runtime e \<or> backend = ''rust_cpu'' then Inl e else baseline)
       else baseline)"

section \<open>Routes are legal\<close>

fun legal_route :: "road_network \<Rightarrow> bool list \<Rightarrow> int \<Rightarrow> int option \<Rightarrow> nat list \<Rightarrow> bool" where
  "legal_route net blocked node inc [] \<longleftrightarrow> True"
| "legal_route net blocked node inc (l # p) \<longleftrightarrow> l < net_link_count net \<and> \<not> blocked ! l \<and>
     src_node (net_links net ! l) = node \<and>
     (\<forall>i idx. inc = Some i \<and> link_index net i = Some idx \<longrightarrow> legal_turn net idx l) \<and>
     legal_route net blocked (dst_node (net_links net ! l)) (Some (link_id (net_links net ! l))) p"

definition ends_of :: "road_network \<Rightarrow> nat list \<Rightarrow> int list" where
  "ends_of net p = map (\<lambda>l. dst_node (net_links net ! l)) p"

lemma best_next_link_in:
  "best_next_link net ps ls best = Some (c, l) \<Longrightarrow>
   best = Some (c, l) \<or> l \<in> set ls \<and> \<not> blocked_links ps ! l"
  by (induction net ps ls best rule: best_next_link.induct) (auto simp: Let_def split: if_splits)

lemma best_legal_next_link_ok:
  assumes "wf_network net" "node_index net node = Some v"
    "best_legal_next_link net ps v inc = Some l"
  shows "l < net_link_count net" "\<not> blocked_links ps ! l" "src_node (net_links net ! l) = node"
    "inc = Some i \<Longrightarrow> link_index net i = Some idx \<Longrightarrow> legal_turn net idx l"
    "\<exists>w. node_index net (dst_node (net_links net ! l)) = Some w"
proof -
  have v: "v < net_node_count net" "node_id (net_nodes net ! v) = node"
    using assms(1,2) index_of_range[of "map node_id (net_nodes net)" node v]
    by (auto simp: wf_network_def Let_def net_node_count_def)
  have l: "l \<in> set (filter_legal_turn_successors net (csr_row (outgoing net) v) inc)"
    and b: "\<not> blocked_links ps ! l"
    using assms(3) best_next_link_in by (fastforce simp: best_legal_next_link_def)+
  have row: "l \<in> set (csr_row (outgoing net) v)" by (rule legal_successors(1)[OF l])
  then have "l < net_link_count net" "link_src net ! l = v"
    using outgoing_row(1)[OF assms(1) v(1)] by auto
  then show "l < net_link_count net" "\<not> blocked_links ps ! l" "src_node (net_links net ! l) = node"
    using assms(1) v b by (auto simp: wf_network_def Let_def)
  show "inc = Some i \<Longrightarrow> link_index net i = Some idx \<Longrightarrow> legal_turn net idx l"
    by (rule legal_successors(2)[OF l])
  show "\<exists>w. node_index net (dst_node (net_links net ! l)) = Some w"
    using assms(1) \<open>l < net_link_count net\<close> link_ends(2)[OF assms(1), of l]
      index_of_distinct[of "map node_id (net_nodes net)" _ "link_dst net ! l"]
    by (auto simp: wf_network_def Let_def net_node_count_def)
qed

lemma greedy_steps_legal:
  assumes "wf_network net" "node_index net node = Some v" "node \<in> visited"
    "destination_node ps \<notin> visited"
  shows "greedy_steps net ps hops node inc visited path = [] \<or>
    (\<exists>p. greedy_steps net ps hops node inc visited path = path @ p \<and> p \<noteq> [] \<and> length p \<le> hops \<and>
       legal_route net (blocked_links ps) node inc p \<and> last (ends_of net p) = destination_node ps \<and>
       distinct (ends_of net p) \<and> set (ends_of net p) \<inter> visited = {})"
  using assms(2-4)
proof (induction hops arbitrary: node v inc visited path)
  case (Suc hops)
  show ?case
  proof (cases "best_legal_next_link net ps v inc")
    case None
    then show ?thesis using Suc.prems by simp
  next
    case (Some l)
    let ?next = "dst_node (net_links net ! l)" and ?id = "link_id (net_links net ! l)"
    note ok = best_legal_next_link_ok[OF assms(1) Suc.prems(1) Some]
    consider "?next = destination_node ps" | "?next \<noteq> destination_node ps" "?next \<in> visited"
      | "?next \<noteq> destination_node ps" "?next \<notin> visited" by blast
    then show ?thesis
    proof cases
      case 1
      then have "legal_route net (blocked_links ps) node inc [l]" using ok by simp
      then show ?thesis using 1 Some Suc.prems by (auto simp: ends_of_def intro!: exI[of _ "[l]"])
    next
      case 2
      then show ?thesis using Some Suc.prems by simp
    next
      case 3
      have eq: "greedy_steps net ps (Suc hops) node inc visited path
          = greedy_steps net ps hops ?next (Some ?id) (insert ?next visited) (path @ [l])"
        using 3 Some Suc.prems by (simp add: Let_def)
      obtain w where "node_index net ?next = Some w" using ok(5) by blast
      from Suc.IH[OF this, of "insert ?next visited" "Some ?id" "path @ [l]"] 3 Suc.prems(3)
      consider "greedy_steps net ps hops ?next (Some ?id) (insert ?next visited) (path @ [l]) = []"
        | p where "greedy_steps net ps hops ?next (Some ?id) (insert ?next visited) (path @ [l])
              = (path @ [l]) @ p" "p \<noteq> []" "length p \<le> hops"
            "legal_route net (blocked_links ps) ?next (Some ?id) p"
            "last (ends_of net p) = destination_node ps" "distinct (ends_of net p)"
            "set (ends_of net p) \<inter> insert ?next visited = {}"
        by auto
      then show ?thesis
      proof cases
        case 1
        then show ?thesis by (simp only: eq) simp
      next
        case (2 p)
        have "legal_route net (blocked_links ps) node inc (l # p)" using ok 2(4) by simp
        then show ?thesis
          unfolding eq using 2 3 by (intro disjI2 exI[of _ "l # p"]) (auto simp: ends_of_def)
      qed
    qed
  qed
qed simp

text \<open>C28: a greedy route, when there is one, is a legal simple route.  It leaves the origin, each
  link starts where the previous one ends, every turn is allowed, no link is blocked, no node is
  visited twice, it has at most the allowed number of links, and it ends at the destination.\<close>

theorem greedy_route_legal:
  assumes "wf_network net"
    and "build_greedy_route_candidate rust net ps origin inc max_hops ''baseline'' = Inr ids" "ids \<noteq> []"
  shows "\<exists>p. ids = map (\<lambda>l. link_id (net_links net ! l)) p \<and>
    legal_route net (blocked_links ps) origin inc p \<and>
    last (ends_of net p) = destination_node ps \<and> distinct (origin # ends_of net p) \<and>
    length p \<le> (case max_hops of Some h \<Rightarrow> max 1 (nat h) | None \<Rightarrow> net_link_count net + 1)"
proof -
  let ?hops = "case max_hops of Some h \<Rightarrow> max 1 (nat h) | None \<Rightarrow> max 1 (net_link_count net + 1)"
  have ne: "origin \<noteq> destination_node ps"
    and ids: "greedy_route_baseline net ps origin inc ?hops = Inr ids"
    using assms(2,3) by (auto simp: build_greedy_route_candidate_def check_simps Let_def
        validate_routing_backend_def split: if_splits)
  then obtain v where v: "node_index net origin = Some v"
    and g: "ids = map (\<lambda>l. link_id (net_links net ! l)) (greedy_steps net ps ?hops origin inc {origin} [])"
    by (auto simp: greedy_route_baseline_def split: if_splits)
  have "greedy_steps net ps ?hops origin inc {origin} [] \<noteq> []" using g assms(3) by auto
  with greedy_steps_legal[OF assms(1) v, of "{origin}" ps ?hops inc "[]"] ne
  obtain p where p: "greedy_steps net ps ?hops origin inc {origin} [] = p" "length p \<le> ?hops"
      "legal_route net (blocked_links ps) origin inc p" "last (ends_of net p) = destination_node ps"
      "distinct (ends_of net p)" "set (ends_of net p) \<inter> {origin} = {}"
    by auto
  have "length p \<le> (case max_hops of Some h \<Rightarrow> max 1 (nat h) | None \<Rightarrow> net_link_count net + 1)"
    using p(2) by (cases max_hops) auto
  then show ?thesis using p g by (intro exI[of _ p]) auto
qed

lemma sorted_fst_sort: "sorted (map fst (sort (xs :: (rat \<times> int) list)))"
proof -
  have "sorted (sort xs)" by simp
  then show ?thesis by (rule sorted_map_mono) (auto simp: mono_on_def less_eq_prod_def)
qed

text \<open>The scores of a decision list, cheapest first, exactly the legal unblocked outgoing links
  whose float32 cost-to-go is below half the infinity constant; the best link is the first.\<close>

theorem scores_exact:
  assumes "score_legal_next_links rust net ps node inc ''baseline'' = Inr sc"
    and "node_index net node = Some v"
  shows "sorted (action_costs sc) \<and>
    set (zip (candidate_links sc) (action_costs sc)) =
      {(link_id (net_links net ! l), c) | l c.
        l \<in> set (filter_legal_turn_successors net (csr_row (outgoing net) v) inc) \<and>
        c = hd (next_link_costs net ps [l]) \<and> c < half_inf} \<and>
    best_link sc = (case candidate_links sc of [] \<Rightarrow> None | b # _ \<Rightarrow> Some b) \<and>
    best_cost sc = (case action_costs sc of [] \<Rightarrow> None | c # _ \<Rightarrow> Some c)"
proof -
  let ?allowed = "filter_legal_turn_successors net (csr_row (outgoing net) v) inc"
  define scored where "scored = sort (map (\<lambda>(l, c). (c, link_id (net_links net ! l)))
              (filter (\<lambda>(l, c). c < half_inf) (zip ?allowed (next_link_costs net ps ?allowed))))"
  have sc: "candidate_links sc = map snd scored" "action_costs sc = map fst scored"
    "best_link sc = (case scored of [] \<Rightarrow> None | x # _ \<Rightarrow> Some (snd x))"
    "best_cost sc = (case scored of [] \<Rightarrow> None | x # _ \<Rightarrow> Some (fst x))"
    using assms by (auto simp: score_legal_next_links_def check_simps Let_def scored_def
        next_link_costs_for_backend_def)
  have cost: "next_link_costs net ps ls = map (\<lambda>l. hd (next_link_costs net ps [l])) ls" for ls
    by (simp add: next_link_costs_def)
  have "set (zip (candidate_links sc) (action_costs sc)) = (\<lambda>(c, i). (i, c)) ` set scored"
    by (force simp: sc(1,2) zip_map_map zip_same_conv_map)
  also have "\<dots> = {(link_id (net_links net ! l), c) | l c.
        l \<in> set ?allowed \<and> c = hd (next_link_costs net ps [l]) \<and> c < half_inf}"
    unfolding scored_def set_sort list.set_map set_filter
    by (subst cost) (auto simp: zip_map2 zip_same_conv_map image_iff)
  finally show ?thesis
    using sc sorted_fst_sort by (auto simp: scored_def split: list.splits)
qed

section \<open>The potential as a whole\<close>

lemma resolved_costs_wf:
  assumes "resolve_link_costs net ls arr = Inr costs" "\<forall>s. ls = Some s \<longrightarrow> wf_link s"
  shows "wf_costs net costs"
proof -
  have m: "is_f32 micro_cost32" "0 \<le> micro_cost32"
    by (simp_all add: micro_cost32_def f32.rd_nonneg)
  have m64: "0 \<le> micro_cost64" by (simp add: micro_cost64_def f64.rd_nonneg)
  have t: "is_f32 x" if "ls = Some s" "x \<in> set (travel_time_cost s)" for s x
    using assms(2) that by (simp add: wf_link_def)
  have len: "length (travel_time_cost s) = link_count s" if "ls = Some s" for s
    using assms(2) that by (simp add: wf_link_def Let_def)
  show ?thesis
    using assms(1) m m64 t len
    by (auto simp: wf_costs_def resolve_link_costs_def net_link_count_def is_f32_max free_flow_cost_def
        le_max_iff_disj intro!: f32.rd_nonneg split: option.splits if_splits)
qed

lemma resolved_blocked_length:
  assumes "\<forall>s. ls = Some s \<longrightarrow> wf_link s \<and> link_count s = net_link_count net"
  shows "length (resolve_blocked_link_mask net ls) = net_link_count net"
  using assms effective_capacity_wf(1)
  by (auto simp: resolve_blocked_link_mask_def static_blockable_mask_def net_link_count_def
      split: option.splits)

text \<open>What a potential is for: the costs and closures of a link state, and exact costs-to-go over them.\<close>

definition exact_costs :: "road_network \<Rightarrow> potential_state \<Rightarrow> bool" where
  "exact_costs net ps \<longleftrightarrow> node_index net (destination_node ps) = Some (destination_index ps) \<and>
     (\<forall>v < net_node_count net. (\<forall>p. walk_to net (blocked_links ps) (destination_index ps) v p \<longrightarrow> node_cost_to_go ps ! v \<le> walk_cost (link_cost ps) p) \<and>
       (node_cost_to_go ps ! v < inf32 \<longrightarrow>
          (\<exists>p. walk_to net (blocked_links ps) (destination_index ps) v p \<and> walk_cost (link_cost ps) p = node_cost_to_go ps ! v)))"

definition potential_for :: "road_network \<Rightarrow> link_state \<Rightarrow> int \<Rightarrow> potential_state \<Rightarrow> bool" where
  "potential_for net s dest ps \<longleftrightarrow> destination_node ps = dest \<and>
     link_cost ps = map (\<lambda>x. max x micro_cost32) (travel_time_cost s) \<and>
     blocked_links ps = resolve_blocked_link_mask net (Some s) \<and> exact_costs net ps"

lemma potential_computed:
  assumes "wf_network net" "node_index net dest = Some d" "wf_link s" "link_count s = net_link_count net"
    and hit: "\<forall>k ps. key = Some k \<longrightarrow> cached_states cache (''baseline'', k) = Some ps \<longrightarrow> potential_for net s dest ps"
  obtains ps cache' where
    "compute_dynamic_potential_state rust net dest (Some s) None ''baseline'' key cache = Some (Inr (ps, cache'))"
    "potential_for net s dest ps"
    "\<forall>b k ps'. cached_states cache' (b, k) = Some ps' \<longrightarrow>
       cached_states cache (b, k) = Some ps' \<or> b = ''baseline'' \<and> key = Some k \<and> ps' = ps"
proof (cases "case key of None \<Rightarrow> None | Some k \<Rightarrow> cached_states cache (''baseline'', k)")
  case (Some ps)
  then have "potential_for net s dest ps" using hit by (cases key) simp_all
  moreover have "compute_dynamic_potential_state rust net dest (Some s) None ''baseline'' key cache =
      Some (Inr (ps, cache\<lparr>cache_hits := cache_hits cache + 1\<rparr>))"
    using Some by (simp add: compute_dynamic_potential_state_def validate_routing_backend_def check_eval)
  ultimately show thesis by (intro that[of ps "cache\<lparr>cache_hits := cache_hits cache + 1\<rparr>"]) simp_all
next
  case None
  let ?costs = "map (\<lambda>x. max x micro_cost32) (travel_time_cost s)"
  let ?blocked = "resolve_blocked_link_mask net (Some s)"
  have costs: "resolve_link_costs net (Some s) None = Inr ?costs"
    using assms(4) by (simp add: resolve_link_costs_def)
  have wfc: "wf_costs net ?costs" by (rule resolved_costs_wf[OF costs]) (use assms(3) in simp)
  have d: "d < net_node_count net"
    using assms(1,2) index_of_range[of "map node_id (net_nodes net)" dest d]
    by (simp add: wf_network_def Let_def net_node_count_def)
  obtain dist where dist: "reverse_dijkstra_node_costs net ?costs ?blocked d = Some dist"
    "dist_ok net ?costs ?blocked d dist"
    "\<And>v p. walk_to net ?blocked d v p \<Longrightarrow> dist ! v \<le> walk_cost ?costs p"
    using reverse_dijkstra_correct[OF assms(1) wfc d] by metis
  have f32s: "map r32 dist = dist" "map r32 ?costs = ?costs"
    using dist(2) wfc by (auto simp: dist_ok_def wf_costs_def in_set_conv_nth intro!: map_idI)
  have "length ?costs = length ?blocked" "d < length dist"
    using wfc resolved_blocked_length[of "Some s" net] assms(3,4) dist(2) d
    by (simp_all add: wf_costs_def dist_ok_def)
  define ps where "ps = \<lparr>destination_node = dest, destination_index = d, node_cost_to_go = dist,
    link_cost = ?costs, blocked_links = ?blocked, backend_used = ''baseline'',
    backend_requested = ''baseline'', backend_fallback = None\<rparr>"
  have mk: "make_potential_state dest d dist ?costs ?blocked ''baseline'' ''baseline'' None = Inr ps"
    unfolding make_potential_state_def ps_def f32s
    using \<open>length ?costs = length ?blocked\<close> \<open>d < length dist\<close> by (simp add: check_eval)
  have eq: "compute_dynamic_potential_state rust net dest (Some s) None ''baseline'' key cache
      = Some (Inr (ps, cache\<lparr>cached_states := (case key of None \<Rightarrow> cached_states cache
           | Some k \<Rightarrow> (cached_states cache)((''baseline'', k) \<mapsto> ps)), cache_recomputes := cache_recomputes cache + 1\<rparr>))"
    using assms(2) costs dist(1) None mk
    by (simp add: compute_dynamic_potential_state_def validate_routing_backend_def check_eval
        compute_node_cost_to_go_def Let_def)
  have "\<forall>v < net_node_count net. dist ! v < inf32 \<longrightarrow>
      (\<exists>p. walk_to net ?blocked d v p \<and> walk_cost ?costs p = dist ! v)"
    using dist(2) by (auto simp: dist_ok_def)
  then have "potential_for net s dest ps"
    using assms(2) dist(3) by (simp add: potential_for_def exact_costs_def ps_def)
  then show thesis by (intro that[OF eq]) (auto split: option.splits if_splits)
qed

text \<open>On a live link state the baseline potential is always computed, and it is exact for
  the travel times in force: no cost is below the cheapest unblocked walk, and every finite
  one is the cost of a walk.\<close>

theorem potential_state_exact:
  assumes "wf_network net" "node_index net dest = Some d" "wf_link s" "link_count s = net_link_count net"
  shows "\<exists>ps cache'. compute_dynamic_potential_state rust net dest (Some s) None ''baseline'' None cache
      = Some (Inr (ps, cache')) \<and> destination_node ps = dest \<and>
    link_cost ps = map (\<lambda>x. max x micro_cost32) (travel_time_cost s) \<and>
    blocked_links ps = resolve_blocked_link_mask net (Some s) \<and>
    (\<forall>v < net_node_count net.
       (\<forall>p. walk_to net (blocked_links ps) d v p \<longrightarrow> node_cost_to_go ps ! v \<le> walk_cost (link_cost ps) p) \<and>
       (node_cost_to_go ps ! v < inf32 \<longrightarrow>
          (\<exists>p. walk_to net (blocked_links ps) d v p \<and> walk_cost (link_cost ps) p = node_cost_to_go ps ! v)))"
proof -
  obtain ps cache' where "compute_dynamic_potential_state rust net dest (Some s) None ''baseline'' None cache = Some (Inr (ps, cache'))"
    "potential_for net s dest ps"
    by (rule potential_computed[OF assms, of None cache rust]) simp_all
  moreover from this(2) have "destination_index ps = d" using assms(2) by (auto simp: potential_for_def exact_costs_def)
  ultimately show ?thesis by (auto simp: potential_for_def exact_costs_def)
qed

text \<open>A cached potential is served unchanged.  After a keyed computation, asking again under the
  same key returns the same state and counts a hit, whatever the link state has become.\<close>

lemma potential_cache_serves:
  assumes "compute_dynamic_potential_state rust net dest ls arr backend (Some k) cache = Some (Inr (ps, cache'))"
  shows "compute_dynamic_potential_state rust net dest' ls' arr' backend (Some k) cache'
    = Some (Inr (ps, cache'\<lparr>cache_hits := cache_hits cache' + 1\<rparr>))"
  using assms
  by (auto simp: compute_dynamic_potential_state_def check_simps Let_def
      split: sum.splits option.splits)

section \<open>A concrete network\<close>

definition no_rust_routing :: rust_routing where
  "no_rust_routing = \<lparr>rust_available = False,
     rust_node_costs = \<lambda>_ _ _ _. Inl (RuntimeError ''rust''),
     rust_action_costs = \<lambda>_ _ _. Inl (RuntimeError ''rust''),
     rust_greedy_route = \<lambda>_ _ _ _ _. Inl (RuntimeError ''rust'')\<rparr>"

text \<open>The three-node network of theory RoadNetwork, as built.\<close>

definition demo_net :: road_network where
  "demo_net = \<lparr>net_nodes = demo_junctions, net_links = demo_roads, net_turns = demo_turns,
     net_crossings = [], node_index = index_of [1, 2, 3], link_index = index_of [10, 11, 12, 13],
     link_src = [0, 1, 1, 2], link_dst = [1, 2, 0, 1],
     outgoing = build_link_csr 3 [0, 1, 1, 2], incoming = build_link_csr 3 [1, 2, 0, 1],
     turn_from = [0, 0], turn_to = [1, 2], turn_priority = [Fin 1, Fin 1],
     turn_forbidden = [False, True], turn_pair_index = [(10, 11) \<mapsto> 0]\<rparr>"

lemma less_Suc_cases: "(\<forall>i < Suc n. P i) \<longleftrightarrow> P n \<and> (\<forall>i < n. P i)"
  by (auto simp: less_Suc_eq)

lemma demo_net_wf: "wf_network demo_net"
  by (simp add: wf_network_def demo_net_def demo_junctions_def demo_roads_def demo_turns_def
      demo_road_def net_node_count_def net_link_count_def net_turn_count_def Let_def
      less_Suc_cases numeral_eq_Suc)

definition demo_costs :: "rat list" where
  "demo_costs = [10, 20, 10, 20]"

lemma demo_costs_wf: "wf_costs demo_net demo_costs"
  using is_f32_of_int[of 10] is_f32_of_int[of 20]
  by (simp add: wf_costs_def demo_costs_def demo_net_def net_link_count_def demo_roads_def)

lemma demo_index: "node_index demo_net 3 = Some 2" "node_index demo_net 1 = Some 0"
  by (simp_all add: demo_net_def index_of_def upt_rec)

lemma dijkstra_exact_witness:
  "\<exists>d. reverse_dijkstra_node_costs demo_net demo_costs [False, False, False, False] 2 = Some d \<and> d ! 2 = 0 \<and>
     d ! 0 \<le> walk_cost demo_costs [0, 1]"
proof -
  have "walk_to demo_net [False, False, False, False] 2 0 [0, 1]"
    by (simp add: demo_net_def net_link_count_def demo_roads_def)
  moreover have "(2::nat) < net_node_count demo_net" "(0::nat) < net_node_count demo_net"
    by (simp_all add: demo_net_def net_node_count_def demo_junctions_def)
  ultimately show ?thesis
    using dijkstra_exact[OF demo_net_wf demo_costs_wf, of 2 "[False, False, False, False]"] by blast
qed

definition demo_live :: link_state where
  "demo_live = \<lparr>queue_vehicles = [0, 0, 0, 0], inflow_vehicles = [0, 0, 0, 0],
     outflow_vehicles = [0, 0, 0, 0], travel_time_cost = [10, 20, 10, 20],
     capacity_veh_per_tick = [8, 8, 8, 8], incident_capacity_multiplier = [1, 1, 1, 1],
     capacity_violation_flags = [False, False, False, False], link_metadata = Map.empty\<rparr>"

lemma demo_live_wf: "wf_link demo_live" "link_count demo_live = net_link_count demo_net"
  using is_f32_of_int[of 10] is_f32_of_int[of 20] is_f32_of_int[of 8]
  by (simp_all add: wf_link_def demo_live_def link_count_def Let_def demo_net_def
      net_link_count_def demo_roads_def)

definition empty_cache :: "nat potential_cache" where
  "empty_cache = \<lparr>cached_states = Map.empty, cache_hits = 0, cache_recomputes = 0\<rparr>"

definition demo_potential :: potential_state where
  "demo_potential = \<lparr>destination_node = 3, destination_index = 2, node_cost_to_go = [30, 20, 0],
     link_cost = [10, 20, 10, 20], blocked_links = [False, False, False, False],
     backend_used = ''baseline'', backend_requested = ''baseline'', backend_fallback = None\<rparr>"

lemma demo_greedy:
  "build_greedy_route_candidate no_rust_routing demo_net demo_potential 1 None None ''baseline''
     = Inr [10, 11]"
  by code_simp

lemma greedy_route_legal_witness:
  "\<exists>p. [10, 11] = map (\<lambda>l. link_id (net_links demo_net ! l)) p \<and>
     legal_route demo_net (blocked_links demo_potential) 1 None p"
proof -
  have "[10, 11 :: int] \<noteq> []" by simp
  from greedy_route_legal[OF demo_net_wf demo_greedy this] show ?thesis
    by (elim exE conjE) (intro exI conjI)
qed

lemma demo_scores:
  "\<exists>sc. score_legal_next_links no_rust_routing demo_net demo_potential 1 None ''baseline'' = Inr sc"
  using demo_index(2)
  by (simp add: score_legal_next_links_def validate_routing_backend_def check_eval Let_def
      next_link_costs_for_backend_def)

definition warm_cache :: "nat potential_cache" where
  "warm_cache = \<lparr>cached_states = [(''baseline'', 7) \<mapsto> demo_potential], cache_hits = 0,
     cache_recomputes = 1\<rparr>"

lemma potential_cache_serves_witness:
  "\<exists>c. compute_dynamic_potential_state no_rust_routing demo_net 3 None None ''baseline'' (Some 7)
     warm_cache = Some (Inr (demo_potential, c)) \<and>
   compute_dynamic_potential_state no_rust_routing demo_net 1 (Some demo_live) None ''baseline'' (Some 7) c
     = Some (Inr (demo_potential, c\<lparr>cache_hits := cache_hits c + 1\<rparr>))"
proof -
  have hit: "compute_dynamic_potential_state no_rust_routing demo_net 3 None None ''baseline'' (Some 7)
     warm_cache = Some (Inr (demo_potential, warm_cache\<lparr>cache_hits := 1\<rparr>))"
    by (simp add: compute_dynamic_potential_state_def validate_routing_backend_def check_eval warm_cache_def)
  show ?thesis using hit potential_cache_serves[OF hit] by blast
qed

end
