(* ===== verification/Candidates.thy ===== *)
theory Candidates
  imports DynamicPotential "HOL-Library.List_Lexorder" "HOL-Library.Option_ord"
begin

text \<open>
  Route candidates of an origin and a destination (src/src/metroflow/routing/candidates.py): the candidate
  set and its refresh policy, the ranked enumeration of loop-free routes guided by the dynamic
  potential, the cost and overlap factors of the candidates, and the refresh.  The enumeration is a
  best-first search over partial routes in a heap; its number of expansions is bounded by the source,
  so it is structural recursion.  Compiled kernels are parameters.  A search result of None stands for a
  Dijkstra search that does not return; it never does on a well-formed network.
\<close>

section \<open>Candidate sets and the refresh policy\<close>

record candidate_metadata =
  meta_origin :: int
  meta_destination :: int
  candidates_requested :: int
  candidates_returned :: nat
  meta_max_hops :: int
  path_costs :: "rat list"
  path_size_factors :: "rat list"
  metadata_backend :: string
  generation_mode :: string
  enumeration_backend :: string
  meta_backend :: string
  meta_backend_requested :: string
  meta_backend_fallback :: "string option"

text \<open>A set whose metadata dict is empty has None.\<close>

record candidate_set =
  od_key :: "int \<times> int"
  candidate_ids :: "int list"
  candidate_paths :: "int list list"
  last_refresh_tick :: int
  candidate_meta :: "candidate_metadata option"

definition make_candidate_set :: "candidate_set \<Rightarrow> candidate_set result" where
  "make_candidate_set s =
     bindE (checks [
       (last_refresh_tick s < 0, ''last_refresh_tick must be >= 0''),
       (length (candidate_ids s) \<noteq> length (candidate_paths s), ''candidate_ids and candidate_paths must have the same length''),
       (\<not> distinct (candidate_ids s), ''candidate_ids must be unique''),
       (\<exists>i \<in> set (candidate_ids s). i < 0, ''candidate_ids must be non-negative''),
       (\<exists>p \<in> set (candidate_paths s). \<exists>l \<in> set p. l < 0, ''candidate_paths must contain non-negative link ids'')])
     (\<lambda>_. Inr s)"

record refresh_policy =
  refresh_interval_ticks :: int
  force_refresh_on_incident :: bool
  max_candidates :: int
  max_hops :: int

definition make_refresh_policy :: "refresh_policy \<Rightarrow> refresh_policy result" where
  "make_refresh_policy p =
     bindE (checks [
       (refresh_interval_ticks p < 1, ''refresh_interval_ticks must be >= 1''),
       (max_candidates p < 1, ''max_candidates must be >= 1''),
       (max_hops p < 1, ''max_hops must be >= 1'')]) (\<lambda>_. Inr p)"

definition default_refresh_policy :: refresh_policy where
  "default_refresh_policy = \<lparr>refresh_interval_ticks = 8, force_refresh_on_incident = True, max_candidates = 1, max_hops = 64\<rparr>"

definition should_refresh_route_candidate_set :: "candidate_set option \<Rightarrow> int \<Rightarrow> bool \<Rightarrow> bool \<Rightarrow> refresh_policy option \<Rightarrow> bool" where
  "should_refresh_route_candidate_set existing tick incident force policy =
     (if force then True
      else case existing of None \<Rightarrow> True
        | Some s \<Rightarrow>
            let p = (case policy of None \<Rightarrow> default_refresh_policy | Some p \<Rightarrow> p) in
            if incident \<and> force_refresh_on_incident p then True
            else if tick < last_refresh_tick s then True
            else refresh_interval_ticks p \<le> tick - last_refresh_tick s)"

section \<open>The ranked enumeration\<close>

text \<open>An entry of the heap: estimated cost, cost so far, serial number, links, current node, last link and the nodes
  visited.  The serial numbers differ, so the comparison of two entries never looks further.\<close>

type_synonym partial_route = "rat \<times> rat \<times> nat \<times> int list \<times> int \<times> int option \<times> int list"

definition consider_link :: "road_network \<Rightarrow> potential_state \<Rightarrow> int \<Rightarrow> partial_route \<Rightarrow> int \<Rightarrow>
    partial_route list \<times> nat \<Rightarrow> (partial_route list \<times> nat) result" where
  "consider_link net ps dest entry l st =
     (case entry of (_, cost, _, path, _, _, visited) \<Rightarrow>
      case link_index net l of
        None \<Rightarrow> Inl (KeyError ''link_id'')
      | Some i \<Rightarrow>
         let next = dst_node (net_links net ! i); step = link_cost ps ! i in
         if next \<in> set visited then Inr st
         else if half_inf \<le> step then Inr st
         else case node_index net next of
             None \<Rightarrow> Inl (KeyError ''node_id'')
           | Some v \<Rightarrow>
              let tail = (if next = dest then 0 else node_cost_to_go ps ! v); g = r64 (cost + step) in
              if half_inf \<le> tail then Inr st
              else Inr (heap_push (r64 (g + tail), g, snd st + 1, path @ [l], next, Some l, visited @ [next]) (fst st),
                snd st + 1))"

fun ranked_loop :: "rust_routing \<Rightarrow> road_network \<Rightarrow> potential_state \<Rightarrow> int \<Rightarrow> int \<Rightarrow> int \<Rightarrow> string \<Rightarrow> nat \<Rightarrow>
    partial_route list \<times> nat \<Rightarrow> int list list \<Rightarrow> int list list result" where
  "ranked_loop rust net ps dest k hops backend 0 st paths = Inr paths"
| "ranked_loop rust net ps dest k hops backend (Suc n) st paths =
     (case heap_pop (fst st) of
        None \<Rightarrow> Inr paths
      | Some (entry, h) \<Rightarrow>
         if k \<le> int (length paths) then Inr paths
         else case entry of (_, _, _, path, node, last_link, visited) \<Rightarrow>
           if node = dest \<and> path \<noteq> []
           then ranked_loop rust net ps dest k hops backend n (h, snd st) (if path \<in> set paths then paths else paths @ [path])
           else if hops \<le> int (length path) then ranked_loop rust net ps dest k hops backend n (h, snd st) paths
           else bindE (score_legal_next_links rust net ps node last_link backend) (\<lambda>sc.
             bindE (foldE (consider_link net ps dest entry) (candidate_links sc) (h, snd st)) (\<lambda>st.
             ranked_loop rust net ps dest k hops backend n st paths)))"

definition max_expansions :: "road_network \<Rightarrow> int \<Rightarrow> nat" where
  "max_expansions net k = nat (max (k * max 16 (int (net_link_count net) * 4)) 1)"

definition ranked_routes_host :: "rust_routing \<Rightarrow> road_network \<Rightarrow> potential_state \<Rightarrow> int \<Rightarrow> int \<Rightarrow> int option \<Rightarrow> int \<Rightarrow> int \<Rightarrow>
    string \<Rightarrow> int list list result" where
  "ranked_routes_host rust net ps origin dest inc k hops backend =
     (if origin = dest then Inr []
      else ranked_loop rust net ps dest k hops backend (max_expansions net k)
        ([(0, 0, 0, [], origin, inc, [origin])], 0) [])"

text \<open>The compiled kernels of this module.\<close>

record rust_candidates =
  rust_search :: rust_routing
  rust_ranked_routes :: "road_network \<Rightarrow> potential_state \<Rightarrow> nat \<Rightarrow> nat \<Rightarrow> int \<Rightarrow> int \<Rightarrow> int \<Rightarrow> int list list result"
  rust_candidate_metadata :: "road_network \<Rightarrow> rat list \<Rightarrow> int list list \<Rightarrow> (rat list \<times> rat list) result"
  rust_selected_index :: "int list \<Rightarrow> int list list \<Rightarrow> rat list \<Rightarrow> rat list \<Rightarrow> rat \<Rightarrow> (int \<times> rat) result"

definition ranked_routes_rust :: "rust_candidates \<Rightarrow> road_network \<Rightarrow> potential_state \<Rightarrow> int \<Rightarrow> int \<Rightarrow> int option \<Rightarrow> int \<Rightarrow>
    int \<Rightarrow> int list list result" where
  "ranked_routes_rust rust net ps origin dest inc k hops =
     (case (node_index net origin, node_index net dest) of
        (Some v, Some w) \<Rightarrow>
          (case inc of
             None \<Rightarrow> rust_ranked_routes rust net ps v w (- 1) hops k
           | Some i \<Rightarrow> (case link_index net i of None \<Rightarrow> Inr [] | Some j \<Rightarrow> rust_ranked_routes rust net ps v w (int j) hops k))
      | _ \<Rightarrow> Inl (KeyError ''node_id''))"

definition ranked_routes :: "rust_candidates \<Rightarrow> road_network \<Rightarrow> potential_state \<Rightarrow> int \<Rightarrow> int \<Rightarrow> int option \<Rightarrow> int \<Rightarrow> int \<Rightarrow>
    string \<Rightarrow> (int list list \<times> string) result" where
  "ranked_routes rust net ps origin dest inc k hops backend =
     (let host = bindE (ranked_routes_host (rust_search rust) net ps origin dest inc k hops backend)
            (\<lambda>ps. Inr (ps, ''python_host_ranked_k'')) in
      if backend = ''auto'' \<and> \<not> rust_available (rust_search rust) then host
      else if backend = ''rust_cpu'' \<or> backend = ''auto'' then
        (case ranked_routes_rust rust net ps origin dest inc k hops of
           Inr paths \<Rightarrow> Inr (paths, ''rust_cpu_ranked_k'')
         | Inl e \<Rightarrow> if \<not> is_runtime e \<or> backend = ''rust_cpu'' then Inl e else host)
      else host)"

section \<open>Costs and overlap of the candidates\<close>

fun candidate_path_cost :: "road_network \<Rightarrow> rat list \<Rightarrow> rat \<Rightarrow> int list \<Rightarrow> rat result" where
  "candidate_path_cost net costs acc [] = Inr acc"
| "candidate_path_cost net costs acc (l # path) = (case link_index net l of
      None \<Rightarrow> Inl (KeyError ''link_id'')
    | Some i \<Rightarrow> candidate_path_cost net costs (r64 (acc + costs ! i)) path)"

definition candidate_path_costs :: "road_network \<Rightarrow> rat list \<Rightarrow> int list list \<Rightarrow> rat list result" where
  "candidate_path_costs net costs paths = mapE (candidate_path_cost net costs 0) paths"

text \<open>\<^verbatim>\<open>sum\<close> of floats is the compensated sum of the language since version 3.12.\<close>

fun compensated_sum :: "rat \<Rightarrow> rat \<Rightarrow> rat list \<Rightarrow> rat" where
  "compensated_sum tot c [] = (if c = 0 then tot else r64 (tot + c))"
| "compensated_sum tot c (x # xs) =
     (let t = r64 (tot + x) in
      compensated_sum t (r64 (c + (if \<bar>x\<bar> \<le> \<bar>tot\<bar> then r64 (r64 (tot - t) + x) else r64 (r64 (x - t) + tot)))) xs)"

definition float_sum :: "rat list \<Rightarrow> rat" where
  "float_sum xs = (case xs of [] \<Rightarrow> 0 | x # xs \<Rightarrow> compensated_sum x 0 xs)"

definition candidate_length :: "road_network \<Rightarrow> int \<Rightarrow> rat result" where
  "candidate_length net l = (case link_index net l of
      None \<Rightarrow> Inl (KeyError ''link_id'')
    | Some i \<Rightarrow> (let x = length_m (net_links net ! i) in
        if \<not> pf_lt (Fin micro_cost64) x then Inr micro_cost64
        else if isfinite x then Inr (finite_part x) else Inl (OutOfModel ''infinite link length'')))"

definition usage_count :: "int list list \<Rightarrow> int \<Rightarrow> nat" where
  "usage_count paths l = count_list (concat paths) l"

fun path_size_factor :: "int list list \<Rightarrow> rat \<Rightarrow> rat \<Rightarrow> (int \<times> rat) list \<Rightarrow> rat" where
  "path_size_factor paths tot acc [] = acc"
| "path_size_factor paths tot acc ((l, x) # rest) =
     path_size_factor paths tot (r64 (acc + r64 (r64 (x / tot) * r64 (1 / of_nat (max (usage_count paths l) 1))))) rest"

definition tiny_factor :: rat where
  "tiny_factor = r64 (1 / 10 ^ 12)"

definition candidate_path_size :: "road_network \<Rightarrow> int list list \<Rightarrow> int list \<Rightarrow> rat result" where
  "candidate_path_size net paths path =
     bindE (mapE (candidate_length net) path) (\<lambda>lengths.
     let whole = float_sum lengths in
     if whole \<le> 0 then Inr 1 else Inr (max (path_size_factor paths whole 0 (zip path lengths)) tiny_factor))"

definition candidate_path_size_factors :: "road_network \<Rightarrow> int list list \<Rightarrow> rat list result" where
  "candidate_path_size_factors net paths = mapE (candidate_path_size net paths) paths"

definition candidate_path_metadata :: "rust_candidates \<Rightarrow> road_network \<Rightarrow> rat list \<Rightarrow> int list list \<Rightarrow> string \<Rightarrow>
    (rat list \<times> rat list \<times> string) result" where
  "candidate_path_metadata rust net costs paths backend =
     (let host = bindE (candidate_path_costs net costs paths) (\<lambda>cs.
            bindE (candidate_path_size_factors net paths) (\<lambda>fs. Inr (cs, fs, ''python_host_candidate_metadata''))) in
      if backend = ''auto'' \<and> \<not> rust_available (rust_search rust) then host
      else if backend = ''rust_cpu'' \<or> backend = ''auto'' then
        (case rust_candidate_metadata rust net costs paths of
           Inr (cs, fs) \<Rightarrow> Inr (cs, fs, ''rust_cpu_candidate_metadata'')
         | Inl e \<Rightarrow> if \<not> is_runtime e \<or> backend = ''rust_cpu'' then Inl e else host)
      else host)"

section \<open>Building and refreshing a candidate set\<close>

definition candidate_set_of :: "int \<times> int \<Rightarrow> int \<Rightarrow> int \<Rightarrow> int \<Rightarrow> int \<Rightarrow> int \<Rightarrow> potential_state \<Rightarrow> int list list \<times> string \<Rightarrow>
    rat list \<times> rat list \<times> string \<Rightarrow> candidate_set" where
  "candidate_set_of od origin dest tick k hops ps found data = (case found of (paths, enum) \<Rightarrow> case data of (costs, sizes, used) \<Rightarrow>
     \<lparr>od_key = od, candidate_ids = map int [0..<length paths], candidate_paths = paths, last_refresh_tick = tick,
      candidate_meta = Some \<lparr>meta_origin = origin, meta_destination = dest, candidates_requested = k,
        candidates_returned = length paths, meta_max_hops = hops, path_costs = costs, path_size_factors = sizes,
        metadata_backend = used, generation_mode = (if k = 1 then ''baseline_greedy_single'' else ''baseline_ranked_k''),
        enumeration_backend = enum, meta_backend = backend_used ps, meta_backend_requested = backend_requested ps,
        meta_backend_fallback = backend_fallback ps\<rparr>\<rparr>)"

definition candidate_routes :: "rust_candidates \<Rightarrow> road_network \<Rightarrow> potential_state \<Rightarrow> int \<Rightarrow> int \<Rightarrow> int option \<Rightarrow> int \<Rightarrow> int \<Rightarrow>
    string \<Rightarrow> (int list list \<times> string) result" where
  "candidate_routes rust net ps origin dest inc k hops backend =
     (if k = 1 then bindE (build_greedy_route_candidate (rust_search rust) net ps origin inc (Some hops) backend) (\<lambda>path.
          Inr (if path = [] then [] else [path], ''backend_greedy_route_candidate''))
      else ranked_routes rust net ps origin dest inc k hops backend)"

definition build_route_candidate_set :: "rust_candidates \<Rightarrow> road_network \<Rightarrow> link_state \<Rightarrow> int \<times> int \<Rightarrow> int \<Rightarrow> int \<Rightarrow> int \<Rightarrow>
    int option \<Rightarrow> int \<Rightarrow> int \<Rightarrow> string \<Rightarrow> 'k option \<Rightarrow> 'k potential_cache \<Rightarrow> (candidate_set \<times> 'k potential_cache) result option" where
  "build_route_candidate_set rust net ls od origin dest tick inc k hops backend key cache =
     (if k < 1 then Some (Inl (ValueError ''max_candidates must be >= 1''))
      else map_option (\<lambda>res. bindE res (\<lambda>(ps, cache).
         bindE (candidate_routes rust net ps origin dest inc k hops backend) (\<lambda>found.
         bindE (candidate_path_metadata rust net (link_cost ps) (fst found) backend) (\<lambda>data.
         bindE (make_candidate_set (candidate_set_of od origin dest tick k hops ps found data)) (\<lambda>s. Inr (s, cache))))))
       (compute_dynamic_potential_state (rust_search rust) net dest (Some ls) None backend key cache))"

definition matching_candidates :: "candidate_set option \<Rightarrow> int \<times> int \<Rightarrow> int \<Rightarrow> int \<Rightarrow> candidate_set option" where
  "matching_candidates existing od origin dest = (case existing of
       None \<Rightarrow> None
     | Some s \<Rightarrow>
        if od_key s \<noteq> od then None
        else (case candidate_meta s of
            None \<Rightarrow> Some s
          | Some m \<Rightarrow> if meta_origin m \<noteq> origin \<or> meta_destination m \<noteq> dest then None else Some s))"

definition refresh_od_route_candidate_set :: "rust_candidates \<Rightarrow> road_network \<Rightarrow> link_state \<Rightarrow> candidate_set option \<Rightarrow> int \<times> int \<Rightarrow>
    int \<Rightarrow> int \<Rightarrow> int \<Rightarrow> int option \<Rightarrow> bool \<Rightarrow> bool \<Rightarrow> refresh_policy option \<Rightarrow> string \<Rightarrow> 'k option \<Rightarrow> 'k potential_cache \<Rightarrow>
    (candidate_set \<times> 'k potential_cache) result option" where
  "refresh_od_route_candidate_set rust net ls existing od origin dest tick inc incident force policy backend key cache =
     (let p = (case policy of None \<Rightarrow> default_refresh_policy | Some p \<Rightarrow> p);
          kept = matching_candidates existing od origin dest in
      case kept of
        Some s \<Rightarrow> if should_refresh_route_candidate_set kept tick incident force (Some p)
          then build_route_candidate_set rust net ls od origin dest tick inc (max_candidates p) (max_hops p) backend key cache
          else Some (Inr (s, cache))
      | None \<Rightarrow> build_route_candidate_set rust net ls od origin dest tick inc (max_candidates p) (max_hops p) backend key cache)"

section \<open>Partial routes\<close>

abbreviation lid :: "road_network \<Rightarrow> nat \<Rightarrow> int" where
  "lid net l \<equiv> link_id (net_links net ! l)"

definition route_end :: "road_network \<Rightarrow> int \<Rightarrow> nat list \<Rightarrow> int" where
  "route_end net node p = last (node # ends_of net p)"

definition route_in :: "road_network \<Rightarrow> int option \<Rightarrow> nat list \<Rightarrow> int option" where
  "route_in net inc p = (if p = [] then inc else Some (lid net (last p)))"

lemma ends_of_simps [simp]: "ends_of net [] = []" "ends_of net (l # p) = dst_node (net_links net ! l) # ends_of net p"
  "ends_of net (p @ q) = ends_of net p @ ends_of net q" "length (ends_of net p) = length p"
  by (simp_all add: ends_of_def)

lemma route_end_simps [simp]: "route_end net node [] = node" "route_end net node (p @ [l]) = dst_node (net_links net ! l)"
  "route_end net node (l # p) = route_end net (dst_node (net_links net ! l)) p"
  by (simp_all add: route_end_def ends_of_def)

lemma legal_route_append:
  "legal_route net b node inc (p @ q) \<longleftrightarrow>
     legal_route net b node inc p \<and> legal_route net b (route_end net node p) (route_in net inc p) q"
proof (induction p arbitrary: node inc)
  case (Cons l p)
  have "route_in net inc (l # p) = route_in net (Some (lid net l)) p" by (simp add: route_in_def)
  then show ?case using Cons.IH[of "dst_node (net_links net ! l)" "Some (lid net l)"] by auto
qed (simp add: route_in_def)

text \<open>The cost of a route in the order the enumeration adds it up.\<close>

definition route_cost :: "rat list \<Rightarrow> nat list \<Rightarrow> rat" where
  "route_cost costs p = foldl (\<lambda>c l. r64 (c + costs ! l)) 0 p"

lemma route_cost_simps [simp]: "route_cost costs [] = 0" "route_cost costs (p @ [l]) = r64 (route_cost costs p + costs ! l)"
  by (simp_all add: route_cost_def)

lemma index_known: "wf_network net \<Longrightarrow> node_index net n = Some v \<longleftrightarrow> v < net_node_count net \<and> node_id (net_nodes net ! v) = n"
  by (auto simp: wf_network_def Let_def net_node_count_def index_of_distinct)

lemma link_known: "wf_network net \<Longrightarrow> link_index net n = Some l \<longleftrightarrow> l < net_link_count net \<and> lid net l = n"
  by (auto simp: wf_network_def Let_def net_link_count_def index_of_distinct)

lemma link_nodes:
  assumes "wf_network net" "l < net_link_count net"
  shows "node_index net (src_node (net_links net ! l)) = Some (link_src net ! l)"
    "node_index net (dst_node (net_links net ! l)) = Some (link_dst net ! l)"
  using assms by (simp_all add: index_known) (simp_all add: wf_network_def Let_def)

text \<open>What the baseline scores offer: the legal unblocked links whose tail is reachable.\<close>

lemma score_candidates:
  assumes "wf_network net" "node_index net node = Some v"
  obtains sc where "score_legal_next_links rust net ps node inc ''baseline'' = Inr sc"
    "\<forall>x. x \<in> set (candidate_links sc) \<longleftrightarrow> (\<exists>l. x = lid net l \<and> hd (next_link_costs net ps [l]) < half_inf \<and>
       l \<in> set (filter_legal_turn_successors net (csr_row (outgoing net) v) inc))"
proof -
  let ?allowed = "filter_legal_turn_successors net (csr_row (outgoing net) v) inc"
  have costs: "next_link_costs net ps ls = map (\<lambda>l. hd (next_link_costs net ps [l])) ls" for ls
    by (simp add: next_link_costs_def)
  obtain sc where sc: "score_legal_next_links rust net ps node inc ''baseline'' = Inr sc"
    "candidate_links sc = map snd (sort (map (\<lambda>(l, c). (c, lid net l))
       (filter (\<lambda>(l, c). c < half_inf) (zip ?allowed (next_link_costs net ps ?allowed)))))"
    using assms(2) by (auto simp: score_legal_next_links_def check_eval Let_def validate_routing_backend_def
        next_link_costs_for_backend_def)
  have "set (candidate_links sc) = lid net ` {l \<in> set ?allowed. hd (next_link_costs net ps [l]) < half_inf}"
    unfolding sc(2) by (subst costs) (auto simp: zip_map2 zip_same_conv_map image_iff)
  then show thesis by (intro that[OF sc(1)]) (auto simp: image_iff)
qed

section \<open>The search space\<close>

text \<open>Simple legal routes, the entry that stands for one, and its extensions.\<close>

definition simple_route :: "road_network \<Rightarrow> bool list \<Rightarrow> int \<Rightarrow> int option \<Rightarrow> int \<Rightarrow> nat list \<Rightarrow> bool" where
  "simple_route net b origin inc hops p \<longleftrightarrow> legal_route net b origin inc p \<and> distinct (origin # ends_of net p) \<and>
     int (length p) \<le> max hops 0"

definition entry_of :: "road_network \<Rightarrow> potential_state \<Rightarrow> int \<Rightarrow> int option \<Rightarrow> nat list \<Rightarrow> rat \<Rightarrow> nat \<Rightarrow> partial_route" where
  "entry_of net ps origin inc p est ser = (est, route_cost (link_cost ps) p, ser, map (lid net) p, route_end net origin p,
     route_in net inc p, origin # ends_of net p)"

definition tail_guess :: "road_network \<Rightarrow> potential_state \<Rightarrow> int \<Rightarrow> nat \<Rightarrow> rat" where
  "tail_guess net ps dest l =
     (if dst_node (net_links net ! l) = dest then 0 else node_cost_to_go ps ! (link_dst net ! l))"

definition extendable :: "road_network \<Rightarrow> potential_state \<Rightarrow> int \<Rightarrow> int \<Rightarrow> nat list \<Rightarrow> nat \<Rightarrow> bool" where
  "extendable net ps origin dest p l \<longleftrightarrow> dst_node (net_links net ! l) \<notin> set (origin # ends_of net p) \<and>
     link_cost ps ! l < half_inf \<and> tail_guess net ps dest l < half_inf"

definition child :: "road_network \<Rightarrow> potential_state \<Rightarrow> int \<Rightarrow> int \<Rightarrow> int option \<Rightarrow> nat list \<Rightarrow> nat \<Rightarrow> nat \<Rightarrow> partial_route" where
  "child net ps origin dest inc p l ser = entry_of net ps origin inc (p @ [l])
     (r64 (route_cost (link_cost ps) (p @ [l]) + tail_guess net ps dest l)) ser"

lemma consider_link_step:
  assumes "wf_network net" "l < net_link_count net"
  shows "consider_link net ps dest (entry_of net ps origin inc p est ser) (lid net l) st =
    Inr (if extendable net ps origin dest p l
      then (heap_push (child net ps origin dest inc p l (snd st + 1)) (fst st), snd st + 1) else st)"
proof -
  have l: "link_index net (lid net l) = Some l" using assms by (simp add: link_known)
  show ?thesis
    using l link_nodes(2)[OF assms]
    by (auto simp: consider_link_def entry_of_def Let_def extendable_def child_def tail_guess_def route_in_def)
qed

text \<open>The expansion of an entry: everything stays in the heap, exactly its extensions come in.\<close>

definition expanded :: "road_network \<Rightarrow> potential_state \<Rightarrow> int \<Rightarrow> int \<Rightarrow> int option \<Rightarrow> nat list \<Rightarrow> nat set \<Rightarrow> partial_route list \<Rightarrow>
    partial_route list \<Rightarrow> bool" where
  "expanded net ps origin dest inc p ls h h' \<longleftrightarrow> set h \<subseteq> set h' \<and>
     (\<forall>e \<in> set h' - set h. \<exists>l \<in> ls. extendable net ps origin dest p l \<and> (\<exists>ser. e = child net ps origin dest inc p l ser)) \<and>
     (\<forall>l \<in> ls. extendable net ps origin dest p l \<longrightarrow> (\<exists>ser. child net ps origin dest inc p l ser \<in> set h')) \<and>
     (sorted h \<longrightarrow> sorted h')"

lemma consider_links:
  assumes "wf_network net" "\<forall>l \<in> set ls. l < net_link_count net"
  obtains h' ser' where "foldE (consider_link net ps dest (entry_of net ps origin inc p est ser)) (map (lid net) ls) (h, s) = Inr (h', ser')"
    "expanded net ps origin dest inc p (set ls) h h'"
  using assms(2)
proof (induction ls arbitrary: h s thesis)
  case Nil
  then show ?case by (simp add: expanded_def)
next
  case (Cons l ls)
  let ?e = "extendable net ps origin dest p l" and ?c = "child net ps origin dest inc p l (s + 1)"
  let ?h = "if ?e then heap_push ?c h else h" and ?s = "if ?e then s + 1 else s"
  have one: "consider_link net ps dest (entry_of net ps origin inc p est ser) (lid net l) (h, s) = Inr (?h, ?s)"
    using consider_link_step[OF assms(1)] Cons.prems(2) by simp
  obtain h' ser' where rest:
    "foldE (consider_link net ps dest (entry_of net ps origin inc p est ser)) (map (lid net) ls) (?h, ?s) = Inr (h', ser')"
    "expanded net ps origin dest inc p (set ls) ?h h'"
    using Cons.IH[where h = ?h and s = ?s] Cons.prems(2) by auto
  have sub: "set h \<subseteq> set ?h" "set ?h \<subseteq> insert ?c (set h)" "?e \<Longrightarrow> ?c \<in> set ?h" "sorted h \<Longrightarrow> sorted ?h"
    by (auto simp: heapq.entries_push heapq.invar_push)
  have new: "\<exists>l \<in> set (l # ls). extendable net ps origin dest p l \<and> (\<exists>ser. e = child net ps origin dest inc p l ser)"
    if "e \<in> set h' - set h" for e
  proof (cases "e \<in> set ?h")
    case True
    then show ?thesis using that by (auto simp: heapq.entries_push split: if_splits)
  next
    case False
    then show ?thesis using that rest(2) by (auto simp: expanded_def)
  qed
  have "expanded net ps origin dest inc p (set (l # ls)) h h'"
    using rest(2) sub new unfolding expanded_def by (auto 0 3)
  then show ?case using one rest(1) by (intro Cons.prems(1)[of h' ser']) simp_all
qed

lemma expanded_new:
  "expanded net ps origin dest inc p ls h h' \<Longrightarrow> e \<in> set h' \<Longrightarrow> e \<notin> set h \<Longrightarrow>
    \<exists>l \<in> ls. extendable net ps origin dest p l \<and> (\<exists>ser. e = child net ps origin dest inc p l ser)"
  unfolding expanded_def by blast

text \<open>One expansion of the source: the scores of the node, then its links.\<close>

definition next_links :: "road_network \<Rightarrow> potential_state \<Rightarrow> int \<Rightarrow> int option \<Rightarrow> nat list \<Rightarrow> nat set" where
  "next_links net ps origin inc p = {l. l < net_link_count net \<and> src_node (net_links net ! l) = route_end net origin p \<and>
     l \<in> set (filter_legal_turn_successors net [0..<net_link_count net] (route_in net inc p)) \<and>
     \<not> blocked_links ps ! l \<and> node_cost_to_go ps ! (link_dst net ! l) < r32 half_inf \<and>
     r32 (link_cost ps ! l + node_cost_to_go ps ! (link_dst net ! l)) < half_inf}"

lemma r32_power2: "r32 (2 ^ k) = 2 ^ k"
  using round_float_exact[of "2 ^ k" 1 "int k" 24 "- 149"] by (simp add: r32_def)

lemma half_inf_bounds: "half_inf < inf32" "2 ^ 38 \<le> r32 half_inf" "2 ^ 38 < half_inf"
proof -
  have "2 ^ 39 \<le> inf32" unfolding inf32_def using f32.rd_mono[of "2 ^ 39" inf_cost] unfolding r32_power2 by (simp add: inf_cost_def)
  then show "half_inf < inf32" by (simp add: half_inf_def)
  show "2 ^ 38 \<le> r32 half_inf" using f32.rd_mono[of "2 ^ 38" half_inf] unfolding r32_power2 by (simp add: half_inf_def)
qed (simp add: half_inf_def)

lemma expansion:
  assumes net: "wf_network net" and node: "node_index net (route_end net origin p) = Some v"
  obtains sc h' s' where
    "score_legal_next_links rust net ps (route_end net origin p) (route_in net inc p) ''baseline'' = Inr sc"
    "foldE (consider_link net ps dest (entry_of net ps origin inc p est ser)) (candidate_links sc) (h, s) = Inr (h', s')"
    "expanded net ps origin dest inc p (next_links net ps origin inc p) h h'"
proof -
  obtain sc where sc: "score_legal_next_links rust net ps (route_end net origin p) (route_in net inc p) ''baseline'' = Inr sc"
    "\<forall>x. x \<in> set (candidate_links sc) \<longleftrightarrow> (\<exists>l. x = lid net l \<and> hd (next_link_costs net ps [l]) < half_inf \<and>
       l \<in> set (filter_legal_turn_successors net (csr_row (outgoing net) v) (route_in net inc p)))"
    by (rule score_candidates[OF net node, where rust = rust and ps = ps and inc = "route_in net inc p"])
  have v: "v < net_node_count net" "node_id (net_nodes net ! v) = route_end net origin p"
    using node index_known[OF net] by simp_all
  have src: "link_src net ! l = v \<longleftrightarrow> src_node (net_links net ! l) = route_end net origin p" if "l < net_link_count net" for l
  proof
    assume "link_src net ! l = v"
    then have "node_index net (src_node (net_links net ! l)) = Some v" using link_nodes(1)[OF net that] by simp
    then show "src_node (net_links net ! l) = route_end net origin p" using v(2) unfolding index_known[OF net] by simp
  next
    assume "src_node (net_links net ! l) = route_end net origin p"
    then show "link_src net ! l = v" using link_nodes(1)[OF net that] node by simp
  qed
  have row: "set (csr_row (outgoing net) v) = {l. l < net_link_count net \<and> src_node (net_links net ! l) = route_end net origin p}"
    using outgoing_row(1)[OF net v(1)] src by auto
  have cost: "hd (next_link_costs net ps [l]) < half_inf \<longleftrightarrow> \<not> blocked_links ps ! l \<and>
      node_cost_to_go ps ! (link_dst net ! l) < r32 half_inf \<and>
      r32 (link_cost ps ! l + node_cost_to_go ps ! (link_dst net ! l)) < half_inf" for l
    using half_inf_bounds(1) by (simp add: next_link_costs_def Let_def)
  have inset: "l \<in> set (filter_legal_turn_successors net (csr_row (outgoing net) v) i) \<longleftrightarrow>
     l \<in> set (csr_row (outgoing net) v) \<and> l \<in> set (filter_legal_turn_successors net [0..<net_link_count net] i)" for l i
    using row by (auto simp: filter_legal_turn_successors_def split: option.splits if_splits)
  have links: "x \<in> set (candidate_links sc) \<longleftrightarrow> (\<exists>l \<in> next_links net ps origin inc p. x = lid net l)" for x
    by (simp only: sc(2)[rule_format] next_links_def inset row cost mem_Collect_eq) blast
  define ls where "ls = map (\<lambda>x. the (link_index net x)) (candidate_links sc)"
  have known: "link_index net (lid net l) = Some l" if "l \<in> next_links net ps origin inc p" for l
    using that link_known[OF net] by (simp add: next_links_def)
  have ls: "candidate_links sc = map (lid net) ls"
    unfolding ls_def using links known by (auto intro!: map_idI[symmetric])
  have "set ls = next_links net ps origin inc p"
    unfolding ls_def using links known by (force simp: image_iff)
  moreover from this have "\<forall>l \<in> set ls. l < net_link_count net" by (simp add: next_links_def)
  then obtain h' s' where "foldE (consider_link net ps dest (entry_of net ps origin inc p est ser)) (map (lid net) ls) (h, s) = Inr (h', s')"
    "expanded net ps origin dest inc p (set ls) h h'"
    by (rule consider_links[OF net])
  ultimately show thesis using that sc(1) ls by simp
qed

section \<open>What the enumeration finds\<close>

definition heap_sound :: "road_network \<Rightarrow> potential_state \<Rightarrow> int \<Rightarrow> int option \<Rightarrow> int \<Rightarrow> partial_route list \<Rightarrow> bool" where
  "heap_sound net ps origin inc hops h \<longleftrightarrow>
     (\<forall>e \<in> set h. \<exists>p est ser. e = entry_of net ps origin inc p est ser \<and> simple_route net (blocked_links ps) origin inc hops p)"

definition candidate_route :: "road_network \<Rightarrow> bool list \<Rightarrow> int \<Rightarrow> int \<Rightarrow> int option \<Rightarrow> int \<Rightarrow> nat list \<Rightarrow> bool" where
  "candidate_route net b origin dest inc hops p \<longleftrightarrow>
     simple_route net b origin inc hops p \<and> p \<noteq> [] \<and> route_end net origin p = dest"

definition found_sound :: "road_network \<Rightarrow> potential_state \<Rightarrow> int \<Rightarrow> int \<Rightarrow> int option \<Rightarrow> int \<Rightarrow> int list list \<Rightarrow> bool" where
  "found_sound net ps origin dest inc hops paths \<longleftrightarrow> distinct paths \<and>
     (\<forall>path \<in> set paths. \<exists>p. path = map (lid net) p \<and> candidate_route net (blocked_links ps) origin dest inc hops p)"

lemma heap_sound_cons [simp]: "heap_sound net ps origin inc hops (e # h) \<longleftrightarrow>
   (\<exists>p est ser. e = entry_of net ps origin inc p est ser \<and> simple_route net (blocked_links ps) origin inc hops p) \<and>
   heap_sound net ps origin inc hops h"
  by (simp add: heap_sound_def)

lemma extension_simple:
  assumes "simple_route net (blocked_links ps) origin inc hops p" "l \<in> next_links net ps origin inc p"
    "extendable net ps origin dest p l" "int (length p) < hops"
  shows "simple_route net (blocked_links ps) origin inc hops (p @ [l])"
proof -
  have "\<forall>i idx. route_in net inc p = Some i \<and> link_index net i = Some idx \<longrightarrow> legal_turn net idx l"
    using assms(2) legal_successors(2) by (fastforce simp: next_links_def)
  then show ?thesis
    using assms by (simp add: simple_route_def legal_route_append next_links_def extendable_def)
qed

lemma expanded_sound:
  assumes "expanded net ps origin dest inc p (next_links net ps origin inc p) h h'" "heap_sound net ps origin inc hops h"
    "simple_route net (blocked_links ps) origin inc hops p" "int (length p) < hops"
  shows "heap_sound net ps origin inc hops h'"
  unfolding heap_sound_def
proof
  fix e assume e: "e \<in> set h'"
  show "\<exists>q est ser. e = entry_of net ps origin inc q est ser \<and> simple_route net (blocked_links ps) origin inc hops q"
  proof (cases "e \<in> set h")
    case True
    then show ?thesis using assms(2) by (simp add: heap_sound_def)
  next
    case False
    then obtain l ser where "l \<in> next_links net ps origin inc p" "extendable net ps origin dest p l"
      "e = child net ps origin dest inc p l ser" using expanded_new[OF assms(1) e] by blast
    then show ?thesis using extension_simple[OF assms(3) _ _ assms(4)] unfolding child_def by blast
  qed
qed

lemma node_of_route:
  assumes "wf_network net" "node_index net origin \<noteq> None" "legal_route net b origin inc p"
  shows "\<exists>v. node_index net (route_end net origin p) = Some v"
proof (cases p rule: rev_cases)
  case (snoc q l)
  then have "l < net_link_count net" using assms(3) by (simp add: legal_route_append)
  then show ?thesis using link_nodes(2)[OF assms(1)] snoc by simp
qed (use assms(2) in simp)

lemma ranked_loop_step:
  assumes "fst st = entry_of net ps origin inc p est ser # h" "int (length paths) < k"
  shows "route_end net origin p = dest \<and> p \<noteq> [] \<Longrightarrow>
      ranked_loop rust net ps dest k hops backend (Suc n) st paths = ranked_loop rust net ps dest k hops backend n (h, snd st)
        (if map (lid net) p \<in> set paths then paths else paths @ [map (lid net) p])"
    and "route_end net origin p \<noteq> dest \<or> p = [] \<Longrightarrow> hops \<le> int (length p) \<Longrightarrow>
      ranked_loop rust net ps dest k hops backend (Suc n) st paths = ranked_loop rust net ps dest k hops backend n (h, snd st) paths"
    and "route_end net origin p \<noteq> dest \<or> p = [] \<Longrightarrow> int (length p) < hops \<Longrightarrow>
      score_legal_next_links rust net ps (route_end net origin p) (route_in net inc p) backend = Inr sc \<Longrightarrow>
      foldE (consider_link net ps dest (entry_of net ps origin inc p est ser)) (candidate_links sc) (h, snd st) = Inr st' \<Longrightarrow>
      ranked_loop rust net ps dest k hops backend (Suc n) st paths = ranked_loop rust net ps dest k hops backend n st' paths"
  using assms by (auto simp: entry_of_def)

lemma ranked_loop_sound:
  assumes net: "wf_network net" and origin: "node_index net origin \<noteq> None"
    and "heap_sound net ps origin inc hops (fst st)" "found_sound net ps origin dest inc hops paths" "int (length paths) \<le> max k 0"
  shows "\<exists>res. ranked_loop rust net ps dest k hops ''baseline'' n st paths = Inr res \<and>
    found_sound net ps origin dest inc hops res \<and> int (length res) \<le> max k 0"
  using assms(3-)
proof (induction n arbitrary: st paths)
  case (Suc n)
  show ?case
  proof (cases "fst st")
    case Nil
    then show ?thesis using Suc.prems by simp
  next
    case (Cons e h)
    obtain p est ser where p: "e = entry_of net ps origin inc p est ser" "simple_route net (blocked_links ps) origin inc hops p"
      and h: "heap_sound net ps origin inc hops h" using Suc.prems(1) Cons by auto
    let ?path = "map (lid net) p" and ?node = "route_end net origin p"
    consider (full) "k \<le> int (length paths)" | (found) "int (length paths) < k" "?node = dest" "p \<noteq> []"
      | (deep) "int (length paths) < k" "?node \<noteq> dest \<or> p = []" "hops \<le> int (length p)"
      | (wide) "int (length paths) < k" "?node \<noteq> dest \<or> p = []" "int (length p) < hops" by linarith
    then show ?thesis
    proof cases
      case full
      then show ?thesis using Suc.prems Cons by simp
    next
      case found
      let ?paths = "if ?path \<in> set paths then paths else paths @ [?path]"
      have "candidate_route net (blocked_links ps) origin dest inc hops p" using found p(2) by (simp add: candidate_route_def)
      then have "found_sound net ps origin dest inc hops ?paths" using Suc.prems(2) by (auto simp: found_sound_def)
      moreover have "int (length ?paths) \<le> max k 0" using Suc.prems(3) found by simp
      ultimately show ?thesis using Suc.IH[of "(h, snd st)" ?paths] h
        ranked_loop_step(1)[OF Cons[unfolded p(1)] found(1)] found(2,3) by simp
    next
      case deep
      then show ?thesis using Suc.IH[of "(h, snd st)" paths] Suc.prems(2,3) h
        ranked_loop_step(2)[OF Cons[unfolded p(1)] deep] by simp
    next
      case wide
      obtain v where v: "node_index net ?node = Some v"
        using node_of_route[OF net origin, of "blocked_links ps" inc p] p(2) by (auto simp: simple_route_def)
      obtain sc h' s' where exp: "score_legal_next_links rust net ps ?node (route_in net inc p) ''baseline'' = Inr sc"
        "foldE (consider_link net ps dest (entry_of net ps origin inc p est ser)) (candidate_links sc) (h, snd st) = Inr (h', s')"
        "expanded net ps origin dest inc p (next_links net ps origin inc p) h h'"
        by (rule expansion[OF net v])
      have "heap_sound net ps origin inc hops h'" by (rule expanded_sound[OF exp(3) h p(2) wide(3)])
      then show ?thesis
        using Suc.IH[of "(h', s')" paths] Suc.prems(2,3)
          ranked_loop_step(3)[OF Cons[unfolded p(1)] wide exp(1,2)] by simp
    qed
  qed
qed (use assms in simp)

lemma start_sound:
  "heap_sound net ps origin inc hops [(0, 0, 0, [], origin, inc, [origin])]"
  by (simp add: heap_sound_def entry_of_def simple_route_def route_in_def exI[of _ "[]"])

section \<open>The interface between the potential and the search\<close>

fun arcs :: "('l \<Rightarrow> 'n \<Rightarrow> 'n \<Rightarrow> bool) \<Rightarrow> 'n \<Rightarrow> 'l list \<Rightarrow> 'n \<Rightarrow> bool" where
  "arcs arc u [] w \<longleftrightarrow> u = w"
| "arcs arc u (l # p) w \<longleftrightarrow> (\<exists>v. arc l u v \<and> arcs arc v p w)"

text \<open>A guide never promises more than a step costs.\<close>

locale consistent_guide =
  fixes ready :: "'s \<Rightarrow> bool" and arc :: "'s \<Rightarrow> 'l \<Rightarrow> 'n \<Rightarrow> 'n \<Rightarrow> bool" and weight :: "'s \<Rightarrow> 'l \<Rightarrow> rat"
    and guide :: "'s \<Rightarrow> 'n \<Rightarrow> rat" and goal :: "'s \<Rightarrow> 'n"
  assumes guide_goal: "ready s \<Longrightarrow> guide s (goal s) = 0"
    and guide_step: "ready s \<Longrightarrow> arc s l u v \<Longrightarrow> guide s u \<le> weight s l + guide s v"
begin

lemma guide_along: "ready s \<Longrightarrow> arcs (arc s) u p v \<Longrightarrow> guide s u \<le> sum_list (map (weight s) p) + guide s v"
proof (induction p arbitrary: u)
  case (Cons l p)
  then obtain w where w: "arc s l u w" "arcs (arc s) w p v" by auto
  show ?case using guide_step[OF Cons.prems(1) w(1)] Cons.IH[OF Cons.prems(1) w(2)] by simp
qed simp

lemma guide_admissible: "ready s \<Longrightarrow> arcs (arc s) u p (goal s) \<Longrightarrow> guide s u \<le> sum_list (map (weight s) p)"
  using guide_along guide_goal by fastforce

end

text \<open>An exact potential over travel times that are whole numbers with a small sum.\<close>

definition whole_costs :: "road_network \<Rightarrow> potential_state \<Rightarrow> int list \<Rightarrow> bool" where
  "whole_costs net ps K \<longleftrightarrow> link_cost ps = map of_int K \<and> length K = net_link_count net \<and> (\<forall>k \<in> set K. 0 \<le> k) \<and>
     sum_list K < 2 ^ 22"

definition whole_potential :: "road_network \<times> potential_state \<Rightarrow> bool" where
  "whole_potential = (\<lambda>(net, ps). wf_network net \<and> exact_costs net ps \<and> (\<exists>K. whole_costs net ps K))"

definition whole_sum :: "int list \<Rightarrow> nat list \<Rightarrow> int" where
  "whole_sum K p = (\<Sum>l\<leftarrow>p. K ! l)"

lemma whole_sum_simps [simp]: "whole_sum K [] = 0" "whole_sum K (l # p) = K ! l + whole_sum K p"
  "whole_sum K (p @ q) = whole_sum K p + whole_sum K q"
  by (simp_all add: whole_sum_def)

lemma whole_sum_nonneg: "\<forall>k \<in> set K. 0 \<le> k \<Longrightarrow> \<forall>l \<in> set p. l < length K \<Longrightarrow> 0 \<le> whole_sum K p"
  by (induction p) simp_all

lemma whole_sum_le:
  assumes "distinct p" "\<forall>l \<in> set p. l < length K" "\<forall>k \<in> set K. 0 \<le> k"
  shows "whole_sum K p \<le> sum_list K"
proof -
  have "whole_sum K p = (\<Sum>l \<in> set p. K ! l)"
    using assms(1) by (simp add: whole_sum_def sum_list_distinct_conv_sum_set)
  also have "\<dots> \<le> (\<Sum>l \<in> {..<length K}. K ! l)"
    by (rule sum_mono2) (use assms(2,3) in auto)
  also have "\<dots> = sum_list K" by (simp add: sum_list_sum_nth atLeast0LessThan)
  finally show ?thesis .
qed

text \<open>Below the bound the float32 sums of a walk and the float64 sums of a route are exact.\<close>

lemma walk_cost_nonneg: "\<forall>l \<in> set p. l < length K \<Longrightarrow> \<forall>k \<in> set K. 0 \<le> k \<Longrightarrow> 0 \<le> walk_cost (map of_int K) p"
  by (induction p) (simp_all add: f32.rd_nonneg)

lemma walk_cost_float: "r32 (walk_cost costs p) = walk_cost costs p"
  by (cases p) (simp_all add: f32.rd_idem)

lemma walk_cost_whole:
  assumes "\<forall>l \<in> set p. l < length K" "\<forall>k \<in> set K. 0 \<le> k" "whole_sum K p \<le> 2 ^ 23"
  shows "walk_cost (map of_int K) p = of_int (whole_sum K p)"
  using assms
proof (induction p)
  case (Cons l p)
  have k: "0 \<le> K ! l" using Cons.prems by simp
  have "0 \<le> whole_sum K p" using Cons.prems by (intro whole_sum_nonneg) simp_all
  moreover have "whole_sum K p \<le> 2 ^ 23" using Cons.prems(3) k by simp
  then have "walk_cost (map of_int K) p = of_int (whole_sum K p)" using Cons by simp
  ultimately show ?case
    using f32.rd_add_ints[of "whole_sum K p" "K ! l"] Cons.prems k by (simp add: add.commute)
qed simp

lemma walk_cost_small:
  assumes "\<forall>l \<in> set p. l < length K" "\<forall>k \<in> set K. 0 \<le> k" "walk_cost (map of_int K) p < 2 ^ 23" "\<forall>k \<in> set K. k < 2 ^ 22"
  shows "walk_cost (map of_int K) p = of_int (whole_sum K p)"
  using assms
proof (induction p)
  case (Cons l p)
  let ?w = "walk_cost (map rat_of_int K) p"
  have k: "0 \<le> K ! l" "K ! l < 2 ^ 22" using Cons.prems by simp_all
  have w: "walk_cost (map rat_of_int K) (l # p) = r32 (?w + of_int (K ! l))" using Cons.prems(1) by simp
  have "?w \<le> r32 (?w + of_int (K ! l))" by (rule f32.rd_add_ge[OF walk_cost_float]) (use k in simp)
  then have "?w < 2 ^ 23" using Cons.prems(3) w by simp
  then have eq: "?w = of_int (whole_sum K p)" using Cons by simp
  then have "whole_sum K p < 2 ^ 23" using \<open>?w < 2 ^ 23\<close> by (metis of_int_less_numeral_power_cancel_iff)
  moreover have "0 \<le> whole_sum K p" using Cons.prems by (intro whole_sum_nonneg) simp_all
  ultimately show ?case
    using f32.rd_add_ints[of "whole_sum K p" "K ! l"] k unfolding w eq by (simp add: add.commute)
qed simp

lemma route_cost_whole:
  assumes "\<forall>l \<in> set p. l < length K" "\<forall>k \<in> set K. 0 \<le> k" "whole_sum K p \<le> 2 ^ 23"
  shows "route_cost (map of_int K) p = of_int (whole_sum K p)"
  using assms
proof (induction p rule: rev_induct)
  case (snoc l p)
  have "0 \<le> whole_sum K p" using snoc.prems by (intro whole_sum_nonneg) simp_all
  moreover have k: "0 \<le> K ! l" "whole_sum K p \<le> 2 ^ 23" using snoc.prems nth_mem[of l K] by fastforce+
  moreover have "route_cost (map of_int K) p = of_int (whole_sum K p)" using snoc k by simp
  ultimately show ?case using snoc.prems f64.rd_add_ints[of "whole_sum K p" "K ! l"] by simp
qed simp

text \<open>A walk that attains the least cost can be taken without repeating a node.\<close>

lemma walk_to_append:
  "walk_to net b d v (p @ q) \<longleftrightarrow> (\<exists>w. arcs (\<lambda>l u w. l < net_link_count net \<and> \<not> b ! l \<and> link_src net ! l = u \<and> link_dst net ! l = w) v p w \<and>
     walk_to net b d w q)"
  by (induction p arbitrary: v) auto

lemma walk_links: "walk_to net b d v p \<Longrightarrow> \<forall>l \<in> set p. l < net_link_count net"
  by (induction p arbitrary: v) auto

lemma walk_skip:
  assumes "walk_to net b d v (p @ l # q @ m # r)" "link_src net ! l = link_src net ! m"
  shows "walk_to net b d v (p @ m # r)"
  using assms by (fastforce simp: walk_to_append)

lemma short_walk:
  assumes "walk_to net b d v p"
  obtains q where "walk_to net b d v q" "distinct q"
proof -
  obtain q where q: "walk_to net b d v q" "\<And>r. walk_to net b d v r \<Longrightarrow> length q \<le> length r"
    using assms ex_has_least_nat[of "walk_to net b d v" p length] by blast
  have "distinct q"
  proof (rule ccontr)
    assume "\<not> distinct q"
    then obtain xs ys zs l where dec: "q = xs @ [l] @ ys @ [l] @ zs" using not_distinct_decomp by blast
    then have "walk_to net b d v (xs @ l # zs)" using walk_skip[of net b d v xs l ys l zs] q(1) by simp
    then show False using q(2)[of "xs @ l # zs"] dec by simp
  qed
  then show thesis using that q(1) by blast
qed

lemma whole_guide:
  assumes "exact_costs net ps" "whole_costs net ps K" "v < net_node_count net" "node_cost_to_go ps ! v < inf32"
  shows "\<exists>m. node_cost_to_go ps ! v = of_int m \<and> 0 \<le> m \<and> m < 2 ^ 22"
proof -
  let ?d = "destination_index ps" and ?b = "blocked_links ps"
  have K: "link_cost ps = map of_int K" "length K = net_link_count net" "\<forall>k \<in> set K. 0 \<le> k" "sum_list K < 2 ^ 22"
    using assms(2) by (simp_all add: whole_costs_def)
  obtain p where p: "walk_to net ?b ?d v p" "walk_cost (link_cost ps) p = node_cost_to_go ps ! v"
    using assms(1,3,4) unfolding exact_costs_def by blast
  obtain q where q: "walk_to net ?b ?d v q" "distinct q" by (rule short_walk[OF p(1)])
  have "whole_sum K q \<le> sum_list K" using whole_sum_le[OF q(2)] walk_links[OF q(1)] K by simp
  then have le: "node_cost_to_go ps ! v \<le> of_int (whole_sum K q)" "whole_sum K q < 2 ^ 22"
    using assms(1,3) q(1) K walk_links[OF q(1)] walk_cost_whole[of q K] unfolding exact_costs_def by fastforce+
  have small: "walk_cost (map of_int K) p < 2 ^ 22" using le p(2) K(1) by (simp add: less_le_trans order_le_less_trans)
  have "\<forall>k \<in> set K. k < 2 ^ 22" using sum_list_members_le[OF K(3)] K(4) by fastforce
  then have "walk_cost (map of_int K) p = of_int (whole_sum K p)"
    using walk_cost_small[of p K] walk_links[OF p(1)] K small by simp
  moreover from this have "whole_sum K p < 2 ^ 22" using small by simp
  moreover have "0 \<le> whole_sum K p" using whole_sum_nonneg[OF K(3)] walk_links[OF p(1)] K(2) by simp
  ultimately show ?thesis using p(2) K(1) by (intro exI[of _ "whole_sum K p"]) simp
qed

definition open_arc :: "road_network \<times> potential_state \<Rightarrow> nat \<Rightarrow> nat \<Rightarrow> nat \<Rightarrow> bool" where
  "open_arc = (\<lambda>(net, ps) l u v. l < net_link_count net \<and> \<not> blocked_links ps ! l \<and> link_src net ! l = u \<and>
     link_dst net ! l = v \<and> node_cost_to_go ps ! v < inf32)"

interpretation potential: consistent_guide whole_potential open_arc "\<lambda>(net, ps) l. link_cost ps ! l"
  "\<lambda>(net, ps) v. node_cost_to_go ps ! v" "\<lambda>(net, ps). destination_index ps"
proof
  fix s :: "road_network \<times> potential_state" and l u v :: nat
  obtain net ps where s: "s = (net, ps)" by (cases s)
  assume "whole_potential s"
  then obtain K where net: "wf_network net" "exact_costs net ps" and K: "whole_costs net ps K"
    by (auto simp: whole_potential_def s)
  let ?d = "destination_index ps" and ?b = "blocked_links ps"
  have d: "?d < net_node_count net" using net by (simp add: exact_costs_def index_known)
  have Kc: "link_cost ps = map of_int K" "length K = net_link_count net" "\<forall>k \<in> set K. 0 \<le> k" "sum_list K < 2 ^ 22"
    using K by (simp_all add: whole_costs_def)
  have exact: "\<And>v p. v < net_node_count net \<Longrightarrow> walk_to net ?b ?d v p \<Longrightarrow> node_cost_to_go ps ! v \<le> walk_cost (link_cost ps) p"
    "\<And>v. v < net_node_count net \<Longrightarrow> node_cost_to_go ps ! v < inf32 \<Longrightarrow>
       \<exists>p. walk_to net ?b ?d v p \<and> walk_cost (link_cost ps) p = node_cost_to_go ps ! v"
    using net(2) unfolding exact_costs_def by blast+
  have "node_cost_to_go ps ! ?d \<le> 0" using exact(1)[OF d, of "[]"] by simp
  moreover have "node_cost_to_go ps ! ?d < inf32" using calculation inf32_pos by simp
  ultimately show "(case s of (net, ps) \<Rightarrow> \<lambda>v. node_cost_to_go ps ! v) (case s of (net, ps) \<Rightarrow> destination_index ps) = 0"
    using whole_guide[OF net(2) K d] by (auto simp: s)
  assume "open_arc s l u v"
  then have l: "l < net_link_count net" "\<not> ?b ! l" "link_src net ! l = u" "link_dst net ! l = v" "node_cost_to_go ps ! v < inf32"
    by (simp_all add: open_arc_def s)
  have uv: "u < net_node_count net" "v < net_node_count net" using link_ends[OF net(1) l(1)] l(3,4) by simp_all
  obtain p where p: "walk_to net ?b ?d v p" "walk_cost (link_cost ps) p = node_cost_to_go ps ! v" using exact(2)[OF uv(2) l(5)] by blast
  obtain m where m: "node_cost_to_go ps ! v = of_int m" "0 \<le> m" "m < 2 ^ 22" using whole_guide[OF net(2) K uv(2) l(5)] by blast
  have k: "0 \<le> K ! l" "K ! l < 2 ^ 22" using Kc l(1) sum_list_members_le[OF Kc(3), of "K ! l"] by simp_all
  have "node_cost_to_go ps ! u \<le> walk_cost (link_cost ps) (l # p)" using exact(1)[OF uv(1), of "l # p"] p(1) l by simp
  also have "\<dots> = of_int (m + K ! l)"
    using f32.rd_add_ints[of m "K ! l"] m k Kc(1,2) l(1) p(2) by simp
  finally show "(case s of (net, ps) \<Rightarrow> \<lambda>v. node_cost_to_go ps ! v) u \<le> (case s of (net, ps) \<Rightarrow> \<lambda>l. link_cost ps ! l) l +
      (case s of (net, ps) \<Rightarrow> \<lambda>v. node_cost_to_go ps ! v) v"
    using m(1) Kc(1,2) l(1) by (simp add: s add.commute)
qed

section \<open>The order of the candidates\<close>

definition estimate :: "road_network \<Rightarrow> potential_state \<Rightarrow> nat list \<Rightarrow> rat" where
  "estimate net ps p = (if p = [] then 0
     else r64 (route_cost (link_cost ps) p + tail_guess net ps (destination_node ps) (last p)))"

lemma legal_links: "legal_route net b node inc p \<Longrightarrow> \<forall>l \<in> set p. l < net_link_count net"
  by (induction p arbitrary: node inc) auto

lemma simple_distinct: "simple_route net b origin inc hops p \<Longrightarrow> distinct p"
  by (simp add: simple_route_def ends_of_def distinct_map)

lemma whole_route:
  assumes "whole_costs net ps K" "simple_route net b origin inc hops p"
  shows "route_cost (link_cost ps) p = of_int (whole_sum K p)" "0 \<le> whole_sum K p" "whole_sum K p < 2 ^ 22"
proof -
  have K: "link_cost ps = map of_int K" "length K = net_link_count net" "\<forall>k \<in> set K. 0 \<le> k" "sum_list K < 2 ^ 22"
    using assms(1) by (simp_all add: whole_costs_def)
  have l: "\<forall>l \<in> set p. l < length K" using legal_links assms(2) K(2) by (auto simp: simple_route_def)
  show "0 \<le> whole_sum K p" by (rule whole_sum_nonneg[OF K(3) l])
  show "whole_sum K p < 2 ^ 22" using whole_sum_le[OF simple_distinct[OF assms(2)] l K(3)] K(4) by simp
  then show "route_cost (link_cost ps) p = of_int (whole_sum K p)" using route_cost_whole[OF l K(3)] K(1) by simp
qed

lemma tail_guess_whole:
  assumes "whole_potential (net, ps)" "l < net_link_count net"
  shows "tail_guess net ps (destination_node ps) l = node_cost_to_go ps ! (link_dst net ! l)"
proof -
  have net: "wf_network net" "exact_costs net ps" using assms(1) by (simp_all add: whole_potential_def)
  have "link_dst net ! l = destination_index ps" if "dst_node (net_links net ! l) = destination_node ps"
    using link_nodes(2)[OF net(1) assms(2)] that net(2) by (simp add: exact_costs_def)
  then show ?thesis using potential.guide_goal[OF assms(1)] by (simp add: tail_guess_def)
qed

lemma estimate_whole:
  assumes "whole_potential (net, ps)" "whole_costs net ps K" "simple_route net b origin inc hops (p @ [l])"
    "node_cost_to_go ps ! (link_dst net ! l) < inf32"
  obtains m where "node_cost_to_go ps ! (link_dst net ! l) = of_int m" "0 \<le> m" "m < 2 ^ 22"
    "estimate net ps (p @ [l]) = of_int (whole_sum K (p @ [l]) + m)"
proof -
  have net: "wf_network net" "exact_costs net ps" using assms(1) by (simp_all add: whole_potential_def)
  have l: "l < net_link_count net" using legal_links assms(3) by (auto simp: simple_route_def)
  obtain m where m: "node_cost_to_go ps ! (link_dst net ! l) = of_int m" "0 \<le> m" "m < 2 ^ 22"
    using whole_guide[OF net(2) assms(2) link_ends(2)[OF net(1) l] assms(4)] by blast
  note r = whole_route[OF assms(2,3)]
  have "estimate net ps (p @ [l]) = r64 (of_int (whole_sum K (p @ [l])) + of_int m)"
    unfolding estimate_def r(1) by (simp add: tail_guess_whole[OF assms(1) l] m(1))
  also have "\<dots> = of_int (whole_sum K (p @ [l]) + m)" by (rule f64.rd_add_ints) (use r m in simp)
  finally show thesis using that m by blast
qed

lemma simple_prefix: "simple_route net b origin inc hops (p @ q) \<Longrightarrow> simple_route net b origin inc hops p"
  by (auto simp: simple_route_def legal_route_append)

lemma legal_walk:
  assumes "wf_network net" "legal_route net b node inc p" "node_index net node = Some u"
    "node_index net (route_end net node p) = Some d"
  shows "walk_to net b d u p"
  using assms(2-)
proof (induction p arbitrary: node inc u)
  case (Cons l p)
  have l: "l < net_link_count net" "src_node (net_links net ! l) = node" using Cons.prems(1) by simp_all
  then show ?case
    using Cons.IH[OF _ link_nodes(2)[OF assms(1) l(1)]] Cons.prems link_nodes(1)[OF assms(1) l(1)] by auto
qed simp

lemma walk_arcs:
  assumes "whole_potential (net, ps)" "whole_costs net ps K" "walk_to net (blocked_links ps) (destination_index ps) u p" "distinct p"
    "u < net_node_count net"
  shows "arcs (open_arc (net, ps)) u p (destination_index ps)" "node_cost_to_go ps ! u < 2 ^ 22"
proof -
  have net: "wf_network net" "exact_costs net ps" using assms(1) by (simp_all add: whole_potential_def)
  have K: "link_cost ps = map of_int K" "length K = net_link_count net" "\<forall>k \<in> set K. 0 \<le> k" "sum_list K < 2 ^ 22"
    using assms(2) by (simp_all add: whole_costs_def)
  have low: "node_cost_to_go ps ! v < 2 ^ 22"
    if w: "walk_to net (blocked_links ps) (destination_index ps) v q" "distinct q" "v < net_node_count net" for v q
  proof -
    have links: "\<forall>l \<in> set q. l < length K" using walk_links[OF w(1)] K(2) by simp
    have small: "whole_sum K q < 2 ^ 22" using whole_sum_le[OF w(2) links K(3)] K(4) by simp
    have "node_cost_to_go ps ! v \<le> of_int (whole_sum K q)"
      using net(2) w walk_cost_whole[OF links K(3)] small K(1) unfolding exact_costs_def by fastforce
    also have "\<dots> < 2 ^ 22" using small by simp
    finally show ?thesis .
  qed
  show "node_cost_to_go ps ! u < 2 ^ 22" by (rule low[OF assms(3-5)])
  have fin: "(2 ^ 22 :: rat) < inf32" using half_inf_bounds(1) by (simp add: half_inf_def)
  show "arcs (open_arc (net, ps)) u p (destination_index ps)"
    using assms(3-5)
  proof (induction p arbitrary: u)
    case (Cons l p)
    then have v: "link_dst net ! l < net_node_count net" using link_ends(2)[OF net(1)] by simp
    have "node_cost_to_go ps ! (link_dst net ! l) < inf32" using low[of "link_dst net ! l" p] Cons.prems v fin by simp
    then show ?case using Cons v by (simp add: open_arc_def)
  qed simp
qed

text \<open>A candidate is never cheaper than the estimate of one of its beginnings.\<close>

lemma candidate_tail:
  assumes "whole_potential (net, ps)" "whole_costs net ps K" "node_index net origin \<noteq> None"
    and q: "candidate_route net (blocked_links ps) origin (destination_node ps) inc hops (p @ r)"
    and u: "node_index net (route_end net origin p) = Some u"
  shows "node_cost_to_go ps ! u \<le> of_int (whole_sum K r)" "node_cost_to_go ps ! u < 2 ^ 22"
proof -
  have net: "wf_network net" "exact_costs net ps" using assms(1) by (simp_all add: whole_potential_def)
  have d: "node_index net (destination_node ps) = Some (destination_index ps)" using net(2) by (simp add: exact_costs_def)
  have simple: "simple_route net (blocked_links ps) origin inc hops (p @ r)" "route_end net origin (p @ r) = destination_node ps"
    using q by (simp_all add: candidate_route_def)
  have legal: "legal_route net (blocked_links ps) (route_end net origin p) (route_in net inc p) r"
    using simple(1) by (simp add: simple_route_def legal_route_append)
  have "route_end net (route_end net origin p) r = destination_node ps"
    using simple(2) by (cases r rule: rev_cases; cases p rule: rev_cases) (simp_all add: route_end_def)
  then have walk: "walk_to net (blocked_links ps) (destination_index ps) u r"
    using legal_walk[OF net(1) legal u] d by simp
  have un: "u < net_node_count net" using u by (simp add: index_known[OF net(1)])
  have dist: "distinct r" using simple_distinct[OF simple(1)] by simp
  note arcs = walk_arcs[OF assms(1,2) walk dist un]
  show "node_cost_to_go ps ! u < 2 ^ 22" by (rule arcs(2))
  have links: "\<forall>l \<in> set r. l < net_link_count net" by (rule walk_links[OF walk])
  have "node_cost_to_go ps ! u \<le> sum_list (map (\<lambda>l. link_cost ps ! l) r)"
    using potential.guide_admissible[OF assms(1)] arcs(1) by simp
  also have "\<dots> = of_int (whole_sum K r)"
    using assms(2) links by (induction r) (simp_all add: whole_costs_def)
  finally show "node_cost_to_go ps ! u \<le> of_int (whole_sum K r)" .
qed

lemma estimate_admissible:
  assumes "whole_potential (net, ps)" "whole_costs net ps K" "node_index net origin \<noteq> None"
    and q: "candidate_route net (blocked_links ps) origin (destination_node ps) inc hops (p @ r)"
  shows "estimate net ps p \<le> route_cost (link_cost ps) (p @ r)"
proof (cases p rule: rev_cases)
  case Nil
  then show ?thesis
    using whole_route(1,2)[OF assms(2), of "blocked_links ps" origin inc hops "p @ r"] q by (simp add: estimate_def candidate_route_def)
next
  case (snoc p' l)
  have simple: "simple_route net (blocked_links ps) origin inc hops (p @ r)" using q by (simp add: candidate_route_def)
  have p: "simple_route net (blocked_links ps) origin inc hops (p' @ [l])" using simple_prefix[OF simple] snoc by simp
  then have l: "l < net_link_count net" by (simp add: simple_route_def legal_route_append)
  have net: "wf_network net" using assms(1) by (simp add: whole_potential_def)
  have u: "node_index net (route_end net origin p) = Some (link_dst net ! l)" using link_nodes(2)[OF net l] snoc by simp
  note tail = candidate_tail[OF assms u]
  have "(2 ^ 22 :: rat) < inf32" using half_inf_bounds(1) by (simp add: half_inf_def)
  then obtain m where m: "node_cost_to_go ps ! (link_dst net ! l) = of_int m"
    "estimate net ps (p' @ [l]) = of_int (whole_sum K (p' @ [l]) + m)"
    using estimate_whole[OF assms(1,2) p] tail(2) by (metis less_trans)
  have "m \<le> whole_sum K r" using tail(1) m(1) by simp
  then show ?thesis using m(2) whole_route(1)[OF assms(2) simple] snoc by simp
qed

text \<open>The estimate never falls along a route.\<close>

lemma estimate_mono:
  assumes "whole_potential (net, ps)" "whole_costs net ps K" "simple_route net (blocked_links ps) origin inc hops (p @ [l])"
    and l: "l \<in> next_links net ps origin inc p" "extendable net ps origin (destination_node ps) p l"
  shows "estimate net ps p \<le> estimate net ps (p @ [l])"
proof -
  have net: "wf_network net" "exact_costs net ps" using assms(1) by (simp_all add: whole_potential_def)
  have ln: "l < net_link_count net" using l(1) by (simp add: next_links_def)
  have fin: "node_cost_to_go ps ! (link_dst net ! l) < inf32"
    using l(2) tail_guess_whole[OF assms(1) ln] half_inf_bounds(1) by (simp add: extendable_def)
  obtain m where m: "node_cost_to_go ps ! (link_dst net ! l) = of_int m" "0 \<le> m" "m < 2 ^ 22"
    "estimate net ps (p @ [l]) = of_int (whole_sum K (p @ [l]) + m)"
    by (rule estimate_whole[OF assms(1-3) fin])
  note all = whole_route[OF assms(2,3)]
  show ?thesis
  proof (cases p rule: rev_cases)
    case Nil
    then show ?thesis using m all by (simp add: estimate_def)
  next
    case (snoc p' l')
    have p: "simple_route net (blocked_links ps) origin inc hops (p' @ [l'])" using simple_prefix[OF assms(3)] snoc by simp
    then have l': "l' < net_link_count net" by (simp add: simple_route_def legal_route_append)
    have "link_src net ! l = link_dst net ! l'"
      using l(1) link_nodes(1)[OF net(1) ln] link_nodes(2)[OF net(1) l'] snoc by (simp add: next_links_def)
    then have arc: "open_arc (net, ps) l (link_dst net ! l') (link_dst net ! l)"
      using l(1) fin by (simp add: open_arc_def next_links_def)
    have k: "link_cost ps ! l = of_int (K ! l)" "K ! l < 2 ^ 22"
      using assms(2) ln sum_list_members_le[of K "K ! l"] by (simp_all add: whole_costs_def)
    have step: "node_cost_to_go ps ! (link_dst net ! l') \<le> of_int (K ! l + m)"
      using potential.guide_step[OF assms(1) arc] m(1) k(1) by simp
    also have "\<dots> < 2 ^ 23" using k(2) m(3) by simp
    finally have "node_cost_to_go ps ! (link_dst net ! l') < inf32" using half_inf_bounds(1) by (simp add: half_inf_def)
    then obtain m' where m': "node_cost_to_go ps ! (link_dst net ! l') = of_int m'"
      "estimate net ps (p' @ [l']) = of_int (whole_sum K (p' @ [l']) + m')"
      using estimate_whole[OF assms(1,2) p] by metis
    have "m' \<le> K ! l + m" using step m'(1) by (simp del: of_int_add)
    then show ?thesis using m(4) m'(2) snoc by (simp del: of_int_add)
  qed
qed

text \<open>The search offers the next link of every candidate.\<close>

lemma candidate_extends:
  assumes "whole_potential (net, ps)" "whole_costs net ps K" "node_index net origin \<noteq> None"
    "\<forall>i. inc = Some i \<longrightarrow> link_index net i \<noteq> None"
    and q: "candidate_route net (blocked_links ps) origin (destination_node ps) inc hops (p @ l # r)"
  shows "l \<in> next_links net ps origin inc p" "extendable net ps origin (destination_node ps) p l" "int (length p) < hops"
    "p = [] \<or> route_end net origin p \<noteq> destination_node ps"
proof -
  have net: "wf_network net" using assms(1) by (simp add: whole_potential_def)
  have simple: "simple_route net (blocked_links ps) origin inc hops (p @ l # r)"
    "route_end net origin (p @ l # r) = destination_node ps" using q by (simp_all add: candidate_route_def)
  have l: "l < net_link_count net" "\<not> blocked_links ps ! l" "src_node (net_links net ! l) = route_end net origin p"
    "\<forall>i idx. route_in net inc p = Some i \<and> link_index net i = Some idx \<longrightarrow> legal_turn net idx l"
    using simple(1) unfolding simple_route_def legal_route_append legal_route.simps by blast+
  have known: "\<forall>i. route_in net inc p = Some i \<longrightarrow> link_index net i \<noteq> None"
  proof (cases p rule: rev_cases)
    case (snoc p' l')
    then have "l' < net_link_count net" using simple(1) by (simp add: simple_route_def legal_route_append)
    then show ?thesis using snoc link_known[OF net, of "lid net l'" l'] by (simp add: route_in_def)
  qed (use assms(4) in \<open>simp add: route_in_def\<close>)
  have turn: "l \<in> set (filter_legal_turn_successors net [0..<net_link_count net] (route_in net inc p))"
  proof (cases "route_in net inc p")
    case None
    then show ?thesis using l(1) by (simp add: filter_legal_turn_successors_def)
  next
    case (Some i)
    then obtain idx where "link_index net i = Some idx" using known by blast
    then show ?thesis using legal_successors_iff[of net i idx l] Some l(1,4) by simp
  qed
  have u: "node_index net (route_end net origin (p @ [l])) = Some (link_dst net ! l)" using link_nodes(2)[OF net l(1)] by simp
  have tail: "node_cost_to_go ps ! (link_dst net ! l) < 2 ^ 22"
    using candidate_tail(2)[OF assms(1-3) _ u] q by simp
  have k: "link_cost ps ! l = of_int (K ! l)" "K ! l < 2 ^ 22"
    using assms(2) l(1) sum_list_members_le[of K "K ! l"] by (simp_all add: whole_costs_def)
  have big: "(2 ^ 23 :: rat) < half_inf" "(2 ^ 23 :: rat) < r32 half_inf" using half_inf_bounds by simp_all
  have "r32 (link_cost ps ! l + node_cost_to_go ps ! (link_dst net ! l)) \<le> 2 ^ 23"
    using f32.rd_le_float[of "link_cost ps ! l + node_cost_to_go ps ! (link_dst net ! l)" "2 ^ 23"] k tail r32_power2[of 23] by simp
  then show "l \<in> next_links net ps origin inc p" using l turn tail big by (simp add: next_links_def)
  have "dst_node (net_links net ! l) \<notin> set (origin # ends_of net p)" using simple(1) by (auto simp: simple_route_def)
  then show "extendable net ps origin (destination_node ps) p l"
    using k tail big tail_guess_whole[OF assms(1) l(1)] by (simp add: extendable_def)
  show "int (length p) < hops" using simple(1) by (auto simp: simple_route_def max_def split: if_splits)
  have "destination_node ps \<in> set (ends_of net (l # r))"
    using simple(2) by (cases r rule: rev_cases) (simp_all add: route_end_def)
  then show "p = [] \<or> route_end net origin p \<noteq> destination_node ps"
    using simple(1) by (cases p rule: rev_cases) (auto simp: simple_route_def)
qed

definition heap_ranked :: "road_network \<Rightarrow> potential_state \<Rightarrow> int \<Rightarrow> int option \<Rightarrow> int \<Rightarrow> rat \<Rightarrow> partial_route list \<Rightarrow> bool" where
  "heap_ranked net ps origin inc hops bound h \<longleftrightarrow> sorted h \<and>
     (\<forall>e \<in> set h. bound \<le> fst e \<and> (\<exists>p ser. e = entry_of net ps origin inc p (estimate net ps p) ser \<and>
        simple_route net (blocked_links ps) origin inc hops p))"

definition rank_inv :: "road_network \<Rightarrow> potential_state \<Rightarrow> int \<Rightarrow> int option \<Rightarrow> int \<Rightarrow> rat \<Rightarrow> partial_route list \<Rightarrow> nat list list \<Rightarrow> bool" where
  "rank_inv net ps origin inc hops bound h P \<longleftrightarrow> heap_ranked net ps origin inc hops bound h \<and>
     (\<forall>p \<in> set P. candidate_route net (blocked_links ps) origin (destination_node ps) inc hops p \<and>
        route_cost (link_cost ps) p \<le> bound) \<and>
     sorted (map (route_cost (link_cost ps)) P) \<and>
     (\<forall>q. candidate_route net (blocked_links ps) origin (destination_node ps) inc hops q \<longrightarrow> q \<in> set P \<or>
        (\<exists>p r ser. q = p @ r \<and> entry_of net ps origin inc p (estimate net ps p) ser \<in> set h))"

text \<open>What the invariant says of the routes found so far: they come in the order of their costs, and no route that
  is missing is cheaper than one that was found.\<close>

definition best_routes :: "road_network \<Rightarrow> potential_state \<Rightarrow> int \<Rightarrow> int option \<Rightarrow> int \<Rightarrow> nat list list \<Rightarrow> bool" where
  "best_routes net ps origin inc hops P \<longleftrightarrow> sorted (map (route_cost (link_cost ps)) P) \<and>
     (\<forall>p \<in> set P. candidate_route net (blocked_links ps) origin (destination_node ps) inc hops p) \<and>
     (\<forall>q. candidate_route net (blocked_links ps) origin (destination_node ps) inc hops q \<longrightarrow> q \<in> set P \<or>
        (\<forall>p \<in> set P. route_cost (link_cost ps) p \<le> route_cost (link_cost ps) q))"

lemma rank_inv_best:
  assumes "whole_potential (net, ps)" "whole_costs net ps K" "node_index net origin \<noteq> None" "rank_inv net ps origin inc hops bound h P"
  shows "best_routes net ps origin inc hops P"
  unfolding best_routes_def
proof (intro conjI allI impI)
  fix q assume q: "candidate_route net (blocked_links ps) origin (destination_node ps) inc hops q"
  show "q \<in> set P \<or> (\<forall>p \<in> set P. route_cost (link_cost ps) p \<le> route_cost (link_cost ps) q)"
  proof (cases "q \<in> set P")
    case False
    then obtain p r ser where p: "q = p @ r" "entry_of net ps origin inc p (estimate net ps p) ser \<in> set h"
      using assms(4) q unfolding rank_inv_def by blast
    have "bound \<le> estimate net ps p" using assms(4) p(2) by (fastforce simp: rank_inv_def heap_ranked_def entry_of_def)
    also have "\<dots> \<le> route_cost (link_cost ps) q" using estimate_admissible[OF assms(1-3)] q p(1) by simp
    finally show ?thesis using assms(4) unfolding rank_inv_def by (blast intro: order_trans)
  qed simp
qed (use assms(4) in \<open>simp_all add: rank_inv_def\<close>)

lemma lid_inj:
  assumes "wf_network net" "map (lid net) p = map (lid net) q" "\<forall>l \<in> set p. l < net_link_count net" "\<forall>l \<in> set q. l < net_link_count net"
  shows "p = q"
proof -
  have "map (link_index net \<circ> lid net) r = map Some r" if "\<forall>l \<in> set r. l < net_link_count net" for r
    using that link_known[OF assms(1)] by (simp add: map_eq_conv)
  then have "map Some p = map Some q" using assms(2-4) by (metis map_map)
  then show ?thesis by (simp add: inj_map_eq_map)
qed

lemma candidate_links_valid: "candidate_route net b origin dest inc hops p \<Longrightarrow> \<forall>l \<in> set p. l < net_link_count net"
  using legal_links by (auto simp: candidate_route_def simple_route_def)

text \<open>The three steps of the loop.\<close>

lemma estimate_found:
  assumes "whole_costs net ps K" "candidate_route net (blocked_links ps) origin (destination_node ps) inc hops p"
  shows "estimate net ps p = route_cost (link_cost ps) p"
proof -
  have p: "simple_route net (blocked_links ps) origin inc hops p" "p \<noteq> []" "route_end net origin p = destination_node ps"
    using assms(2) by (simp_all add: candidate_route_def)
  have "tail_guess net ps (destination_node ps) (last p) = 0"
    using p(2,3) by (cases p rule: rev_cases) (simp_all add: tail_guess_def)
  moreover have "r64 (of_int (whole_sum K p)) = of_int (whole_sum K p)"
    by (rule r64_of_int) (use whole_route(2,3)[OF assms(1) p(1)] in simp)
  ultimately show ?thesis using p(2) whole_route(1)[OF assms(1) p(1)] by (simp add: estimate_def)
qed

definition waiting :: "road_network \<Rightarrow> potential_state \<Rightarrow> int \<Rightarrow> int option \<Rightarrow> partial_route list \<Rightarrow> nat list \<Rightarrow> bool" where
  "waiting net ps origin inc h q \<longleftrightarrow> (\<exists>p r ser. q = p @ r \<and> entry_of net ps origin inc p (estimate net ps p) ser \<in> set h)"

lemma rank_pop:
  assumes "rank_inv net ps origin inc hops bound (entry_of net ps origin inc p (estimate net ps p) ser # h) P"
    and net: "wf_network net" and p: "simple_route net (blocked_links ps) origin inc hops p"
  shows "heap_ranked net ps origin inc hops (estimate net ps p) h" "bound \<le> estimate net ps p"
    "\<And>q. candidate_route net (blocked_links ps) origin (destination_node ps) inc hops q \<Longrightarrow>
       q \<in> set P \<or> waiting net ps origin inc h q \<or> (\<exists>r. q = p @ r)"
proof -
  let ?e = "entry_of net ps origin inc p (estimate net ps p) ser"
  have inv: "heap_ranked net ps origin inc hops bound (?e # h)" using assms(1) by (simp add: rank_inv_def)
  then show "bound \<le> estimate net ps p" by (simp add: heap_ranked_def entry_of_def)
  have least: "fst ?e \<le> fst e" if "e \<in> set h" for e
    using inv that by (auto simp: heap_ranked_def less_eq_prod_def)
  then show "heap_ranked net ps origin inc hops (estimate net ps p) h"
    using inv by (simp add: heap_ranked_def entry_of_def)
  fix q assume q: "candidate_route net (blocked_links ps) origin (destination_node ps) inc hops q"
  consider "q \<in> set P"
    | q' r ser' where "q = q' @ r" "entry_of net ps origin inc q' (estimate net ps q') ser' \<in> set (?e # h)"
    using assms(1) q unfolding rank_inv_def by blast
  then show "q \<in> set P \<or> waiting net ps origin inc h q \<or> (\<exists>r. q = p @ r)"
  proof cases
    case (2 q' r ser')
    show ?thesis
    proof (cases "entry_of net ps origin inc q' (estimate net ps q') ser' = ?e")
      case True
      then have "map (lid net) q' = map (lid net) p" by (simp add: entry_of_def)
      then have "q' = p"
        by (rule lid_inj[OF net]) (use candidate_links_valid[OF q] legal_links p 2(1) in \<open>auto simp: simple_route_def\<close>)
      then show ?thesis using 2(1) by blast
    next
      case False
      then show ?thesis using 2 by (auto simp: waiting_def)
    qed
  qed simp
qed

lemma rank_inv_alt:
  "rank_inv net ps origin inc hops bound h P \<longleftrightarrow> heap_ranked net ps origin inc hops bound h \<and>
     (\<forall>p \<in> set P. candidate_route net (blocked_links ps) origin (destination_node ps) inc hops p \<and>
        route_cost (link_cost ps) p \<le> bound) \<and> sorted (map (route_cost (link_cost ps)) P) \<and>
     (\<forall>q. candidate_route net (blocked_links ps) origin (destination_node ps) inc hops q \<longrightarrow>
        q \<in> set P \<or> waiting net ps origin inc h q)"
  by (simp add: rank_inv_def waiting_def)

lemma candidate_maximal:
  assumes "candidate_route net b origin dest inc hops p" "candidate_route net b origin dest inc hops (p @ r)"
  shows "r = []"
proof (rule ccontr)
  assume "r \<noteq> []"
  then have "route_end net origin (p @ r) \<in> set (ends_of net r)" by (cases r rule: rev_cases) (simp_all add: route_end_def)
  moreover have "route_end net origin p \<in> set (ends_of net p)"
    using assms(1) by (cases p rule: rev_cases) (simp_all add: candidate_route_def)
  ultimately show False using assms by (auto simp: candidate_route_def simple_route_def)
qed

lemma rank_found:
  assumes "whole_costs net ps K" "rank_inv net ps origin inc hops bound (entry_of net ps origin inc p (estimate net ps p) ser # h) P"
    and net: "wf_network net" and p: "candidate_route net (blocked_links ps) origin (destination_node ps) inc hops p"
  shows "rank_inv net ps origin inc hops (estimate net ps p) h (if p \<in> set P then P else P @ [p])"
proof -
  have simple: "simple_route net (blocked_links ps) origin inc hops p" using p by (simp add: candidate_route_def)
  note pop = rank_pop[OF assms(2) net simple]
  have "q \<in> set (P @ [p]) \<or> waiting net ps origin inc h q"
    if q: "candidate_route net (blocked_links ps) origin (destination_node ps) inc hops q" for q
    using pop(3)[OF q] candidate_maximal[OF p] q by auto
  then show ?thesis
    using assms(2) p pop(1,2) estimate_found[OF assms(1) p]
    by (auto simp: rank_inv_alt sorted_append intro: order_trans)
qed

lemma rank_deep:
  assumes whole: "whole_potential (net, ps)" "whole_costs net ps K" "node_index net origin \<noteq> None"
    "\<forall>i. inc = Some i \<longrightarrow> link_index net i \<noteq> None"
    and inv: "rank_inv net ps origin inc hops bound (entry_of net ps origin inc p (estimate net ps p) ser # h) P"
    and p: "simple_route net (blocked_links ps) origin inc hops p" "route_end net origin p \<noteq> destination_node ps \<or> p = []" "hops \<le> int (length p)"
  shows "rank_inv net ps origin inc hops (estimate net ps p) h P"
proof -
  have net: "wf_network net" using whole(1) by (simp add: whole_potential_def)
  note pop = rank_pop[OF inv net p(1)]
  have "q \<in> set P \<or> waiting net ps origin inc h q"
    if q: "candidate_route net (blocked_links ps) origin (destination_node ps) inc hops q" for q
  proof -
    have "q \<noteq> p @ r" for r
    proof
      assume r: "q = p @ r"
      then obtain l r' where "r = l # r'" using q p(2) by (cases r) (auto simp: candidate_route_def)
      then show False using candidate_extends(3)[OF whole, of hops p l r'] q r p(3) by simp
    qed
    then show ?thesis using pop(3)[OF q] by blast
  qed
  then show ?thesis using inv pop(1,2) by (auto simp: rank_inv_alt intro: order_trans)
qed

lemma rank_wide:
  assumes whole: "whole_potential (net, ps)" "whole_costs net ps K" "node_index net origin \<noteq> None"
    "\<forall>i. inc = Some i \<longrightarrow> link_index net i \<noteq> None"
    and inv: "rank_inv net ps origin inc hops bound (entry_of net ps origin inc p (estimate net ps p) ser # h) P"
    and p: "simple_route net (blocked_links ps) origin inc hops p" "route_end net origin p \<noteq> destination_node ps \<or> p = []" "int (length p) < hops"
    and exp: "expanded net ps origin (destination_node ps) inc p (next_links net ps origin inc p) h h'"
  shows "rank_inv net ps origin inc hops (estimate net ps p) h' P"
proof -
  have net: "wf_network net" using whole(1) by (simp add: whole_potential_def)
  note pop = rank_pop[OF inv net p(1)]
  have child: "child net ps origin (destination_node ps) inc p l ser = entry_of net ps origin inc (p @ [l]) (estimate net ps (p @ [l])) ser" for l ser
    by (simp add: child_def estimate_def)
  have new: "estimate net ps p \<le> fst e \<and> (\<exists>q ser. e = entry_of net ps origin inc q (estimate net ps q) ser \<and>
      simple_route net (blocked_links ps) origin inc hops q)" if e: "e \<in> set h'" for e
  proof (cases "e \<in> set h")
    case True
    then show ?thesis using pop(1) by (simp add: heap_ranked_def)
  next
    case False
    then obtain l ser where l: "l \<in> next_links net ps origin inc p" "extendable net ps origin (destination_node ps) p l"
      "e = child net ps origin (destination_node ps) inc p l ser" using expanded_new[OF exp e] by blast
    have s: "simple_route net (blocked_links ps) origin inc hops (p @ [l])" by (rule extension_simple[OF p(1) l(1,2) p(3)])
    show ?thesis using estimate_mono[OF whole(1,2) s l(1,2)] s l(3) unfolding child by (auto simp: entry_of_def)
  qed
  have "sorted h'" using exp pop(1) by (simp add: expanded_def heap_ranked_def)
  then have ranked: "heap_ranked net ps origin inc hops (estimate net ps p) h'" using new by (simp add: heap_ranked_def)
  have "q \<in> set P \<or> waiting net ps origin inc h' q"
    if q: "candidate_route net (blocked_links ps) origin (destination_node ps) inc hops q" for q
  proof -
    consider "q \<in> set P" | "waiting net ps origin inc h q" | r where "q = p @ r" using pop(3)[OF q] by blast
    then show ?thesis
    proof cases
      case 2
      then show ?thesis using exp unfolding waiting_def expanded_def by blast
    next
      case (3 r)
      then obtain l r' where r: "r = l # r'" using q p(2) by (cases r) (auto simp: candidate_route_def)
      note ext = candidate_extends[OF whole, of hops p l r', folded r, folded 3, OF q]
      then obtain ser where "child net ps origin (destination_node ps) inc p l ser \<in> set h'"
        using exp unfolding expanded_def by blast
      then have "waiting net ps origin inc h' ((p @ [l]) @ r')" unfolding child waiting_def by blast
      then show ?thesis using 3 r by simp
    qed simp
  qed
  then show ?thesis using inv pop(2) ranked by (auto simp: rank_inv_alt intro: order_trans)
qed

lemma ranked_loop_best:
  assumes whole: "whole_potential (net, ps)" "whole_costs net ps K" "node_index net origin \<noteq> None"
    "\<forall>i. inc = Some i \<longrightarrow> link_index net i \<noteq> None"
    and "rank_inv net ps origin inc hops bound (fst st) P"
  shows "\<exists>P'. ranked_loop rust net ps (destination_node ps) k hops ''baseline'' n st (map (map (lid net)) P) = Inr (map (map (lid net)) P') \<and>
    best_routes net ps origin inc hops P'"
  using assms(5)
proof (induction n arbitrary: st P bound)
  case 0
  then show ?case using rank_inv_best[OF whole(1-3)] by (intro exI[of _ P]) auto
next
  case (Suc n)
  have net: "wf_network net" using whole(1) by (simp add: whole_potential_def)
  note best = rank_inv_best[OF whole(1-3) Suc.prems]
  show ?case
  proof (cases "fst st")
    case Nil
    then show ?thesis using best by (intro exI[of _ P]) simp
  next
    case (Cons e h)
    obtain p ser where e: "e = entry_of net ps origin inc p (estimate net ps p) ser"
      and p: "simple_route net (blocked_links ps) origin inc hops p"
      using Suc.prems Cons by (auto simp: rank_inv_def heap_ranked_def)
    note heap = Cons[unfolded e] and inv = Suc.prems[unfolded Cons e]
    let ?P = "map (map (lid net)) P" and ?node = "route_end net origin p"
    consider (full) "k \<le> int (length ?P)" | (found) "int (length ?P) < k" "?node = destination_node ps \<and> p \<noteq> []"
      | (deep) "int (length ?P) < k" "?node \<noteq> destination_node ps \<or> p = []" "hops \<le> int (length p)"
      | (wide) "int (length ?P) < k" "?node \<noteq> destination_node ps \<or> p = []" "int (length p) < hops" by linarith
    then show ?thesis
    proof cases
      case full
      then show ?thesis using best Cons by (intro exI[of _ P]) simp
    next
      case found
      have cand: "candidate_route net (blocked_links ps) origin (destination_node ps) inc hops p"
        using found(2) p by (simp add: candidate_route_def)
      have "map (lid net) p \<in> set ?P \<longleftrightarrow> p \<in> set P"
        using lid_inj[OF net _ candidate_links_valid[OF cand]] candidate_links_valid inv by (fastforce simp: rank_inv_def)
      then show ?thesis
        using Suc.IH[where st = "(h, snd st)" and P = "if p \<in> set P then P else P @ [p]" and bound = "estimate net ps p"]
          rank_found[OF whole(2) inv net cand] ranked_loop_step(1)[OF heap found] by (auto split: if_splits)
    next
      case deep
      show ?thesis
        using Suc.IH[where st = "(h, snd st)" and P = P and bound = "estimate net ps p"] rank_deep[OF whole inv p deep(2,3)]
          ranked_loop_step(2)[OF heap deep] by simp
    next
      case wide
      obtain v where v: "node_index net ?node = Some v"
        using node_of_route[OF net whole(3), of "blocked_links ps" inc p] p by (auto simp: simple_route_def)
      obtain sc h' s' where exp: "score_legal_next_links rust net ps ?node (route_in net inc p) ''baseline'' = Inr sc"
        "foldE (consider_link net ps (destination_node ps) (entry_of net ps origin inc p (estimate net ps p) ser)) (candidate_links sc) (h, snd st) = Inr (h', s')"
        "expanded net ps origin (destination_node ps) inc p (next_links net ps origin inc p) h h'"
        by (rule expansion[OF net v])
      show ?thesis
        using Suc.IH[where st = "(h', s')" and P = P and bound = "estimate net ps p"] rank_wide[OF whole inv p wide(2,3) exp(3)]
          ranked_loop_step(3)[OF heap wide exp(1,2)] by simp
    qed
  qed
qed

lemma rank_inv_start:
  "rank_inv net ps origin inc hops 0 [(0, 0, 0, [], origin, inc, [origin])] []"
proof -
  have e: "(0, 0, 0, [], origin, inc, [origin]) = entry_of net ps origin inc [] (estimate net ps []) 0"
    by (simp add: entry_of_def estimate_def route_in_def)
  have "waiting net ps origin inc [(0, 0, 0, [], origin, inc, [origin])] q" for q
    unfolding waiting_def e by (rule exI[of _ "[]"]) (auto simp: e)
  then show ?thesis
    by (auto simp: rank_inv_alt heap_ranked_def e simple_route_def entry_of_def estimate_def intro!: exI[of _ "[]"] exI[of _ 0])
qed

lemma ranked_host_best:
  assumes "whole_potential (net, ps)" "whole_costs net ps K" "node_index net origin \<noteq> None"
    "\<forall>i. inc = Some i \<longrightarrow> link_index net i \<noteq> None"
  obtains P where "ranked_routes_host rust net ps origin (destination_node ps) inc k hops ''baseline'' = Inr (map (map (lid net)) P)"
    "best_routes net ps origin inc hops P"
proof (cases "origin = destination_node ps")
  case True
  then show ?thesis using that[of "[]"] by (simp add: ranked_routes_host_def best_routes_def)
next
  case False
  have "rank_inv net ps origin inc hops 0 (fst ([(0, 0, 0, [], origin, inc, [origin])], 0 :: nat)) []"
    by (simp add: rank_inv_start)
  from ranked_loop_best[OF assms this, of rust k "max_expansions net k"] that False
  show ?thesis by (auto simp: ranked_routes_host_def)
qed

lemma ranked_host_sound:
  assumes "wf_network net" "node_index net origin \<noteq> None"
  obtains paths where "ranked_routes_host rust net ps origin dest inc k hops ''baseline'' = Inr paths"
    "found_sound net ps origin dest inc hops paths" "int (length paths) \<le> max k 0"
proof (cases "origin = dest")
  case True
  then show ?thesis using that[of "[]"] by (simp add: ranked_routes_host_def found_sound_def)
next
  case False
  from ranked_loop_sound[OF assms, of ps inc hops "([(0, 0, 0, [], origin, inc, [origin])], 0)" dest "[]" k rust "max_expansions net k"]
    start_sound False that show ?thesis by (auto simp: ranked_routes_host_def found_sound_def)
qed

section \<open>A candidate set as a whole\<close>

lemma map_choice: "\<forall>x \<in> set xs. \<exists>p. x = f p \<and> Q p \<Longrightarrow> \<exists>P. xs = map f P \<and> (\<forall>p \<in> set P. Q p)"
proof (induction xs)
  case (Cons x xs)
  then obtain p P where "x = f p" "Q p" "xs = map f P" "\<forall>p \<in> set P. Q p" by auto
  then show ?case by (intro exI[of _ "p # P"]) simp
qed simp

lemma greedy_candidate:
  assumes "wf_network net" "node_index net origin \<noteq> None" "1 \<le> hops"
  obtains P where "build_greedy_route_candidate rust net ps origin inc (Some hops) ''baseline'' = Inr (concat (map (map (lid net)) P))"
    "length P \<le> 1" "\<forall>p \<in> set P. candidate_route net (blocked_links ps) origin (destination_node ps) inc hops p"
proof (cases "origin = destination_node ps")
  case True
  then show thesis by (intro that[of "[]"]) (simp_all add: build_greedy_route_candidate_def validate_routing_backend_def check_eval)
next
  case False
  obtain v where v: "node_index net origin = Some v" using assms(2) by blast
  let ?hops = "max 1 (nat hops)" and ?p = "greedy_steps net ps (max 1 (nat hops)) origin inc {origin} []"
  have eq: "build_greedy_route_candidate rust net ps origin inc (Some hops) ''baseline'' = Inr (map (lid net) ?p)"
    using False v by (simp add: build_greedy_route_candidate_def validate_routing_backend_def check_eval Let_def greedy_route_baseline_def)
  show thesis
  proof (cases "?p = []")
    case True
    then show thesis using eq by (intro that[of "[]"]) simp_all
  next
    case ne: False
    have "\<exists>p. ?p = [] @ p \<and> p \<noteq> [] \<and> length p \<le> ?hops \<and> legal_route net (blocked_links ps) origin inc p \<and>
        last (ends_of net p) = destination_node ps \<and> distinct (ends_of net p) \<and> set (ends_of net p) \<inter> {origin} = {}"
      using greedy_steps_legal[OF assms(1) v, of "{origin}" ps ?hops inc "[]"] False ne by blast
    then have p: "length ?p \<le> ?hops" "legal_route net (blocked_links ps) origin inc ?p" "last (ends_of net ?p) = destination_node ps"
      "distinct (ends_of net ?p)" "origin \<notin> set (ends_of net ?p)" by auto
    have "ends_of net ?p \<noteq> []" using ne by (simp add: ends_of_def)
    then have "candidate_route net (blocked_links ps) origin (destination_node ps) inc hops ?p"
      using p ne assms(3) by (simp add: candidate_route_def simple_route_def route_end_def)
    then show thesis using eq by (intro that[of "[?p]"]) simp_all
  qed
qed

text \<open>The routes of a set, whichever enumeration made them.\<close>

lemma candidate_routes_sound:
  assumes "wf_network net" "node_index net origin \<noteq> None" "1 \<le> k" "1 \<le> hops"
  obtains P enum where "candidate_routes rust net ps origin (destination_node ps) inc k hops ''baseline'' = Inr (map (map (lid net)) P, enum)"
    "int (length P) \<le> k" "\<forall>p \<in> set P. candidate_route net (blocked_links ps) origin (destination_node ps) inc hops p" "distinct P"
    "\<And>K. whole_potential (net, ps) \<Longrightarrow> whole_costs net ps K \<Longrightarrow> \<forall>i. inc = Some i \<longrightarrow> link_index net i \<noteq> None \<Longrightarrow> k \<noteq> 1 \<Longrightarrow>
       best_routes net ps origin inc hops P"
proof (cases "k = 1")
  case True
  obtain P where P: "build_greedy_route_candidate (rust_search rust) net ps origin inc (Some hops) ''baseline'' = Inr (concat (map (map (lid net)) P))"
    "length P \<le> 1" "\<forall>p \<in> set P. candidate_route net (blocked_links ps) origin (destination_node ps) inc hops p"
    by (rule greedy_candidate[OF assms(1,2,4)])
  have "(if concat (map (map (lid net)) P) = [] then [] else [concat (map (map (lid net)) P)]) = map (map (lid net)) P"
    using P(2,3) by (cases P) (auto simp: candidate_route_def)
  moreover have "distinct P" using P(2) by (cases P) simp_all
  ultimately show thesis using P True by (intro that[of P]) (simp_all add: candidate_routes_def)
next
  case False
  obtain paths where paths: "ranked_routes_host (rust_search rust) net ps origin (destination_node ps) inc k hops ''baseline'' = Inr paths"
    "found_sound net ps origin (destination_node ps) inc hops paths" "int (length paths) \<le> max k 0"
    by (rule ranked_host_sound[OF assms(1,2)])
  obtain P where P: "paths = map (map (lid net)) P" "\<forall>p \<in> set P. candidate_route net (blocked_links ps) origin (destination_node ps) inc hops p"
    using map_choice[of paths "map (lid net)"] paths(2) by (auto simp: found_sound_def)
  have "distinct P" using paths(2) P(1) by (simp add: found_sound_def distinct_map)
  moreover have "candidate_routes rust net ps origin (destination_node ps) inc k hops ''baseline'' = Inr (map (map (lid net)) P, ''python_host_ranked_k'')"
    using False paths(1) P(1) by (simp add: candidate_routes_def ranked_routes_def Let_def)
  moreover have "best_routes net ps origin inc hops P"
    if whole: "whole_potential (net, ps)" "whole_costs net ps K" "\<forall>i. inc = Some i \<longrightarrow> link_index net i \<noteq> None" for K
  proof -
    obtain P' where P': "map (map (lid net)) P' = map (map (lid net)) P" "best_routes net ps origin inc hops P'"
      by (rule ranked_host_best[OF whole(1,2) assms(2) whole(3), of "rust_search rust" k hops]) (use paths(1) P(1) in simp)
    have valid: "\<forall>p \<in> set P' \<union> set P. \<forall>l \<in> set p. l < net_link_count net"
      using candidate_links_valid P(2) P'(2) unfolding best_routes_def by blast
    have "P' = P"
    proof (rule nth_equalityI)
      show len: "length P' = length P" using P'(1) by (metis length_map)
      fix i assume i: "i < length P'"
      have "map (lid net) (P' ! i) = map (lid net) (P ! i)" using arg_cong[OF P'(1), of "\<lambda>xs. xs ! i"] i len by simp
      then show "P' ! i = P ! i"
        by (rule lid_inj[OF assms(1)])
          (use valid i len nth_mem[of i P'] nth_mem[of i P] in auto)
    qed
    then show ?thesis using P'(2) by simp
  qed
  ultimately show thesis using that[of P] paths(3) P assms(3) by simp
qed

lemma candidate_path_cost_route:
  assumes "wf_network net" "\<forall>l \<in> set p. l < net_link_count net"
  shows "candidate_path_cost net costs acc (map (lid net) p) = Inr (foldl (\<lambda>c l. r64 (c + costs ! l)) acc p)"
  using assms(2)
proof (induction p arbitrary: acc)
  case (Cons l p)
  then have "link_index net (lid net l) = Some l" using link_known[OF assms(1)] by simp
  then show ?case using Cons by simp
qed simp

definition plain_links :: "road_network \<Rightarrow> bool" where
  "plain_links net \<longleftrightarrow> (\<forall>l \<in> set (net_links net). 0 \<le> link_id l \<and> length_m l \<noteq> PosInf)"

lemma candidate_metadata_total:
  assumes "wf_network net" "plain_links net" "\<forall>p \<in> set P. \<forall>l \<in> set p. l < net_link_count net"
  obtains sizes used where "candidate_path_metadata rust net costs (map (map (lid net)) P) ''baseline'' = Inr (map (route_cost costs) P, sizes, used)"
    "length sizes = length P"
proof -
  have costs: "candidate_path_costs net costs (map (map (lid net)) Q) = Inr (map (route_cost costs) Q)" if "set Q \<subseteq> set P" for Q
    using that assms(3) candidate_path_cost_route[OF assms(1)]
    by (induction Q) (auto simp: candidate_path_costs_def route_cost_def subset_iff)
  have len: "\<exists>x. candidate_length net (lid net l) = Inr x" if "l < net_link_count net" for l
  proof -
    have "link_index net (lid net l) = Some l" using link_known[OF assms(1)] that by simp
    moreover have "length_m (net_links net ! l) \<noteq> PosInf" using assms(2) that by (simp add: plain_links_def net_link_count_def)
    ultimately show ?thesis by (cases "length_m (net_links net ! l)") (auto simp: candidate_length_def Let_def)
  qed
  have "\<exists>x. candidate_path_size net (map (map (lid net)) P) path = Inr x" if path: "path \<in> set (map (map (lid net)) P)" for path
  proof -
    obtain p where p: "p \<in> set P" "path = map (lid net) p" using path by auto
    have "\<forall>x \<in> set path. \<exists>y. candidate_length net x = Inr y" using len assms(3) p by auto
    then obtain lengths where "mapE (candidate_length net) path = Inr lengths" using mapE_total[of path "candidate_length net"] by blast
    then show ?thesis by (simp add: candidate_path_size_def Let_def)
  qed
  then obtain sizes where sizes: "candidate_path_size_factors net (map (map (lid net)) P) = Inr sizes"
    using mapE_total[of "map (map (lid net)) P" "candidate_path_size net (map (map (lid net)) P)"]
    by (auto simp: candidate_path_size_factors_def)
  have "length sizes = length P" using sizes mapE_length by (fastforce simp: candidate_path_size_factors_def)
  then show thesis using that costs[of P] sizes by (simp add: candidate_path_metadata_def Let_def)
qed

text \<open>What one set promises: numbered legal routes with their costs, in a metadata record that names the pair of nodes.\<close>

definition candidates_of :: "road_network \<Rightarrow> link_state \<Rightarrow> int \<Rightarrow> int \<Rightarrow> int option \<Rightarrow> int \<Rightarrow> nat list list \<Rightarrow> candidate_set \<Rightarrow> bool" where
  "candidates_of net s origin dest inc hops P cs \<longleftrightarrow> candidate_paths cs = map (map (lid net)) P \<and>
     candidate_ids cs = map int [0..<length P] \<and> distinct P \<and>
     (\<forall>p \<in> set P. candidate_route net (resolve_blocked_link_mask net (Some s)) origin dest inc hops p) \<and>
     (\<exists>m. candidate_meta cs = Some m \<and> meta_origin m = origin \<and> meta_destination m = dest \<and>
        path_costs m = map (route_cost (map (\<lambda>x. max x micro_cost32) (travel_time_cost s))) P \<and>
        length (path_size_factors m) = length P)"

lemma build_candidates:
  assumes net: "wf_network net" "plain_links net" "node_index net origin \<noteq> None" "node_index net dest \<noteq> None"
    and s: "wf_link s" "link_count s = net_link_count net"
    and hit: "\<forall>k ps. key = Some k \<longrightarrow> cached_states cache (''baseline'', k) = Some ps \<longrightarrow> potential_for net s dest ps"
    and args: "1 \<le> k" "1 \<le> hops" "0 \<le> tick"
  obtains cs cache' ps P where
    "build_route_candidate_set rust net s od origin dest tick inc k hops ''baseline'' key cache = Some (Inr (cs, cache'))"
    "potential_for net s dest ps" "candidates_of net s origin dest inc hops P cs" "int (length P) \<le> k"
    "od_key cs = od" "last_refresh_tick cs = tick"
    "\<forall>b k ps'. cached_states cache' (b, k) = Some ps' \<longrightarrow>
       cached_states cache (b, k) = Some ps' \<or> b = ''baseline'' \<and> key = Some k \<and> ps' = ps"
    "\<And>K. whole_potential (net, ps) \<Longrightarrow> whole_costs net ps K \<Longrightarrow> \<forall>i. inc = Some i \<longrightarrow> link_index net i \<noteq> None \<Longrightarrow> k \<noteq> 1 \<Longrightarrow>
       best_routes net ps origin inc hops P"
proof -
  obtain d where d: "node_index net dest = Some d" using net(4) by blast
  obtain ps cache' where pot: "compute_dynamic_potential_state (rust_search rust) net dest (Some s) None ''baseline'' key cache = Some (Inr (ps, cache'))"
    "potential_for net s dest ps" "\<forall>b k ps'. cached_states cache' (b, k) = Some ps' \<longrightarrow>
       cached_states cache (b, k) = Some ps' \<or> b = ''baseline'' \<and> key = Some k \<and> ps' = ps"
    by (rule potential_computed[OF net(1) d s hit])
  have ps: "destination_node ps = dest" "link_cost ps = map (\<lambda>x. max x micro_cost32) (travel_time_cost s)"
    "blocked_links ps = resolve_blocked_link_mask net (Some s)" using pot(2) by (simp_all add: potential_for_def)
  obtain P enum where P: "candidate_routes rust net ps origin dest inc k hops ''baseline'' = Inr (map (map (lid net)) P, enum)"
    "int (length P) \<le> k" "\<forall>p \<in> set P. candidate_route net (blocked_links ps) origin dest inc hops p" "distinct P"
    "\<And>K. whole_potential (net, ps) \<Longrightarrow> whole_costs net ps K \<Longrightarrow> \<forall>i. inc = Some i \<longrightarrow> link_index net i \<noteq> None \<Longrightarrow> k \<noteq> 1 \<Longrightarrow>
       best_routes net ps origin inc hops P"
    using candidate_routes_sound[OF net(1,3) args(1,2), of rust ps inc thesis] unfolding ps(1) by blast
  have links: "\<forall>p \<in> set P. \<forall>l \<in> set p. l < net_link_count net" using candidate_links_valid P(3) by blast
  obtain sizes used where data: "candidate_path_metadata rust net (link_cost ps) (map (map (lid net)) P) ''baseline'' =
      Inr (map (route_cost (link_cost ps)) P, sizes, used)" "length sizes = length P"
    by (rule candidate_metadata_total[OF net(1,2) links])
  define cs where "cs = candidate_set_of od origin dest tick k hops ps (map (map (lid net)) P, enum)
    (map (route_cost (link_cost ps)) P, sizes, used)"
  have ids: "\<forall>p \<in> set P. \<forall>l \<in> set p. 0 \<le> lid net l"
    using links net(2) by (simp add: plain_links_def net_link_count_def)
  have "make_candidate_set cs = Inr cs"
    using args(3) ids by (auto simp: cs_def candidate_set_of_def make_candidate_set_def check_eval not_less distinct_map)
  then have "build_route_candidate_set rust net s od origin dest tick inc k hops ''baseline'' key cache = Some (Inr (cs, cache'))"
    using args(1) pot(1) P(1) data(1) by (simp add: build_route_candidate_set_def cs_def)
  moreover have "candidates_of net s origin dest inc hops P cs"
    using P(3,4) data(2) ps by (simp add: candidates_of_def cs_def candidate_set_of_def)
  ultimately show thesis using that pot P(2,5) by (simp add: cs_def candidate_set_of_def)
qed

text \<open>C29: building a candidate set on a live link state always returns, and every candidate is a legal simple route
  from the origin to the destination over open links, with at most the allowed number of hops; the ids number the
  routes and the reported costs are the sums that ranked them.\<close>

theorem candidates_legal:
  assumes "wf_network net" "plain_links net" "node_index net origin \<noteq> None" "node_index net dest \<noteq> None"
    "wf_link s" "link_count s = net_link_count net" "1 \<le> k" "1 \<le> hops" "0 \<le> tick"
  shows "\<exists>cs cache' P. build_route_candidate_set rust net s od origin dest tick inc k hops ''baseline'' None cache = Some (Inr (cs, cache')) \<and>
    candidates_of net s origin dest inc hops P cs \<and> int (length P) \<le> k"
proof -
  have hit: "\<forall>k ps. None = Some k \<longrightarrow> cached_states cache (''baseline'', k) = Some ps \<longrightarrow> potential_for net s dest ps" by simp
  show ?thesis by (rule build_candidates[OF assms(1-6) hit assms(7-9), of rust od inc]) blast
qed

text \<open>Travel times of at least a second are above the least cost of a link.\<close>

lemma seconds_costs:
  assumes "\<forall>k \<in> set K. (1 :: int) \<le> k"
  shows "map (\<lambda>x. max x micro_cost32) (map rat_of_int K) = map of_int K"
proof -
  have "micro_cost32 \<le> 1" unfolding micro_cost32_def by (rule f32.rd_le_float) simp_all
  have "max (of_int k) micro_cost32 = of_int k" if "k \<in> set K" for k
  proof (rule max_absorb1)
    have "(1 :: rat) \<le> of_int k" using assms that by simp
    with \<open>micro_cost32 \<le> 1\<close> show "micro_cost32 \<le> of_int k" by simp
  qed
  then show ?thesis by simp
qed

lemma route_cost_seconds:
  assumes "length K = net_link_count net" "\<forall>k \<in> set K. (1 :: int) \<le> k" "sum_list K < 2 ^ 22"
    "simple_route net b origin inc hops p"
  shows "route_cost (map (\<lambda>x. max x micro_cost32) (map of_int K)) p = of_int (whole_sum K p)"
proof -
  have nn: "\<forall>k \<in> set K. 0 \<le> k" using assms(2) by fastforce
  have l: "\<forall>l \<in> set p. l < length K" using legal_links assms(1,4) by (auto simp: simple_route_def)
  have "whole_sum K p < 2 ^ 22" using whole_sum_le[OF simple_distinct[OF assms(4)] l nn] assms(3) by simp
  then show ?thesis unfolding seconds_costs[OF assms(2)] using route_cost_whole[OF l nn] by simp
qed

text \<open>With travel times in whole seconds the ranked candidates are the best routes: they come in the order of
  their costs, and a legal simple route within the hop limit that is not among them costs at least as much as each of
  them, however many partial routes the search was allowed to expand.\<close>

lemma candidates_best:
  assumes net: "wf_network net" "plain_links net" "node_index net origin \<noteq> None" "node_index net dest \<noteq> None"
    and s: "wf_link s" "link_count s = net_link_count net" "travel_time_cost s = map of_int K" "\<forall>k \<in> set K. 1 \<le> k" "sum_list K < 2 ^ 22"
    and args: "2 \<le> k" "1 \<le> hops" "0 \<le> tick"
  shows "\<exists>cs cache' P. build_route_candidate_set rust net s od origin dest tick None k hops ''baseline'' None cache = Some (Inr (cs, cache')) \<and>
    candidates_of net s origin dest None hops P cs \<and> int (length P) \<le> k \<and> sorted (map (whole_sum K) P) \<and>
    (\<forall>q. candidate_route net (resolve_blocked_link_mask net (Some s)) origin dest None hops q \<longrightarrow>
       q \<in> set P \<or> (\<forall>p \<in> set P. whole_sum K p \<le> whole_sum K q))"
proof -
  have hit: "\<forall>k ps. None = Some k \<longrightarrow> cached_states cache (''baseline'', k) = Some ps \<longrightarrow> potential_for net s dest ps" by simp
  have k1: "1 \<le> k" using args(1) by simp
  obtain cs cache' ps P where built:
    "build_route_candidate_set rust net s od origin dest tick None k hops ''baseline'' None cache = Some (Inr (cs, cache'))"
    "potential_for net s dest ps" "candidates_of net s origin dest None hops P cs" "int (length P) \<le> k"
    "\<And>K. whole_potential (net, ps) \<Longrightarrow> whole_costs net ps K \<Longrightarrow> k \<noteq> 1 \<Longrightarrow> best_routes net ps origin None hops P"
    by (rule build_candidates[OF net s(1,2) hit k1 args(2,3), of rust od None]) blast
  have ps: "destination_node ps = dest" "link_cost ps = map (\<lambda>x. max x micro_cost32) (travel_time_cost s)"
    "blocked_links ps = resolve_blocked_link_mask net (Some s)" "exact_costs net ps" using built(2) by (simp_all add: potential_for_def)
  have "link_cost ps = map of_int K" unfolding ps(2) s(3) by (rule seconds_costs[OF s(4)])
  moreover have "length K = net_link_count net" using s(1-3) by (simp add: wf_link_def Let_def)
  ultimately have whole: "whole_costs net ps K" using s(4,5) by (force simp: whole_costs_def)
  then have best: "best_routes net ps origin None hops P"
    using built(5) net(1) ps(4) args(1) by (auto simp: whole_potential_def)
  have cost: "route_cost (link_cost ps) p = of_int (whole_sum K p)"
    if "candidate_route net (blocked_links ps) origin dest None hops p" for p
    using whole_route(1)[OF whole, of "blocked_links ps" origin None hops p] that by (simp add: candidate_route_def)
  have routes: "\<forall>p \<in> set P. candidate_route net (blocked_links ps) origin dest None hops p"
    using best unfolding best_routes_def ps(1) by blast
  have "map (route_cost (link_cost ps)) P = map (\<lambda>p. of_int (whole_sum K p)) P" using routes cost by simp
  then have "sorted (map (\<lambda>p. rat_of_int (whole_sum K p)) P)" using best unfolding best_routes_def by metis
  then have "sorted (map (whole_sum K) P)" by (simp add: sorted_iff_nth_mono)
  moreover have "q \<in> set P \<or> (\<forall>p \<in> set P. whole_sum K p \<le> whole_sum K q)"
    if q: "candidate_route net (resolve_blocked_link_mask net (Some s)) origin dest None hops q" for q
    using best q routes cost unfolding best_routes_def ps(1) ps(3)[symmetric] by (metis of_int_le_iff)
  ultimately show ?thesis using built by blast
qed

lemma demo_plain_links: "plain_links demo_net"
  by (simp add: plain_links_def demo_net_def demo_roads_def demo_road_def)

definition no_rust_candidates :: rust_candidates where
  "no_rust_candidates = \<lparr>rust_search = no_rust_routing, rust_ranked_routes = \<lambda>_ _ _ _ _ _ _. Inl (RuntimeError ''rust''),
     rust_candidate_metadata = \<lambda>_ _ _. Inl (RuntimeError ''rust''),
     rust_selected_index = \<lambda>_ _ _ _ _. Inl (RuntimeError ''rust'')\<rparr>"

lemma candidates_legal_witness:
  "\<exists>cs cache' P. build_route_candidate_set no_rust_candidates demo_net demo_live (7, 8) 1 3 0 None 2 8 ''baseline'' None empty_cache
      = Some (Inr (cs, cache')) \<and> candidates_of demo_net demo_live 1 3 None 8 P cs"
proof -
  have n: "node_index demo_net 1 \<noteq> None" "node_index demo_net 3 \<noteq> None" by (simp_all add: demo_net_def index_of_def)
  from candidates_legal[OF demo_net_wf demo_plain_links n demo_live_wf, of 2 8 0 no_rust_candidates "(7, 8)" None empty_cache]
  show ?thesis by simp blast
qed

end
