(* ===== verification/ActiveAgents.thy ===== *)
theory ActiveAgents
  imports PyFloat
begin

text \<open>
  The packed pool of active agents (src/src/metroflow/sim/active_agents.py): a fixed number of
  slots kept as parallel arrays, with a stack of free slot ids.  \<open>agent_slot\<close> is the logical
  payload, \<open>agent_pool\<close> the packed state; \<open>create_active_agent_pool\<close>,
  \<open>allocate_active_agent_slot\<close>, \<open>release_active_agent_slot\<close>, \<open>read_active_agent_slot\<close> and
  \<open>validate_active_agent_pool\<close> are the module's operations.  The int32 arrays hold integers;
  every write of a Python integer checks the int32 range, as NumPy does, and progress values are
  rounded to float32.  The locale \<open>slot_allocator\<close> states what a client of the pool relies on.
\<close>

section \<open>Slots\<close>

text \<open>An entry of the plugin memory is a dictionary, or some other object that reads as empty.\<close>

datatype 'm plugin_entry = DictEntry "string \<rightharpoonup> 'm" | OtherEntry 'm

record 'm agent_slot =
  slot_id :: int
  slot_alive :: bool
  slot_citizen :: int
  slot_trip :: int
  slot_link :: int
  slot_progress :: rat
  slot_route_ptr :: int
  slot_dest :: int
  slot_profile :: int
  slot_cooldown :: int
  slot_memory :: "string \<rightharpoonup> 'm"

text \<open>\<^verbatim>\<open>ActiveAgentSlot.__post_init__\<close>; the progress argument is any Python float.\<close>

definition make_agent_slot :: "int \<Rightarrow> bool \<Rightarrow> int \<Rightarrow> int \<Rightarrow> int \<Rightarrow> pyfloat \<Rightarrow> int \<Rightarrow> int \<Rightarrow> int \<Rightarrow> int \<Rightarrow>
    (string \<rightharpoonup> 'm) \<Rightarrow> 'm agent_slot result" where
  "make_agent_slot i alive cit trp lnk prog ptr dst prof cool mem =
     bindE (checks [
       (\<not> (pf_le (Fin 0) prog \<and> pf_le prog (Fin 1)), ''progress_01 must be in [0, 1]''),
       (cool < 0, ''reroute_cooldown_ticks must be >= 0'')])
     (\<lambda>_. Inr \<lparr>slot_id = i, slot_alive = alive, slot_citizen = cit, slot_trip = trp, slot_link = lnk,
        slot_progress = finite_part prog, slot_route_ptr = ptr, slot_dest = dst, slot_profile = prof,
        slot_cooldown = cool, slot_memory = mem\<rparr>)"

text \<open>\<^verbatim>\<open>ActiveAgentSlot.spawn\<close>.\<close>

definition spawn_agent_slot :: "int \<Rightarrow> int \<Rightarrow> int \<Rightarrow> int \<Rightarrow> int \<Rightarrow> pyfloat \<Rightarrow> int \<Rightarrow> int \<Rightarrow>
    'm agent_slot result" where
  "spawn_agent_slot cit trp lnk dst prof prog ptr cool =
     make_agent_slot (- 1) True cit trp lnk prog ptr dst prof cool Map.empty"

section \<open>The pool\<close>

record 'm agent_pool =
  capacity :: int
  free_slot_stack :: "int list"
  free_slot_count :: int
  alive_mask :: "bool list"
  alive_count :: int
  citizen_id :: "int list"
  trip_id :: "int list"
  current_link_id :: "int list"
  progress_01 :: "rat list"
  remaining_route_ptr :: "int list"
  dest_node_id :: "int list"
  behavior_profile_id :: "int list"
  reroute_cooldown_ticks :: "int list"
  plugin_memory :: "int \<rightharpoonup> 'm plugin_entry"

definition pool_shapes :: "'m agent_pool \<Rightarrow> (nat \<times> string) list" where
  "pool_shapes p = [
     (length (free_slot_stack p), ''free_slot_stack''), (length (alive_mask p), ''alive_mask''),
     (length (citizen_id p), ''citizen_id''), (length (trip_id p), ''trip_id''),
     (length (current_link_id p), ''current_link_id''), (length (progress_01 p), ''progress_01''),
     (length (remaining_route_ptr p), ''remaining_route_ptr''),
     (length (dest_node_id p), ''dest_node_id''),
     (length (behavior_profile_id p), ''behavior_profile_id''),
     (length (reroute_cooldown_ticks p), ''reroute_cooldown_ticks'')]"

text \<open>\<^verbatim>\<open>_validate_pool_array_shapes\<close> and its NumPy variant.\<close>

definition validate_pool_array_shapes :: "'m agent_pool \<Rightarrow> unit result" where
  "validate_pool_array_shapes p =
     checks (map (\<lambda>(n, name). (int n \<noteq> capacity p, name @ '' must have the pool shape'')) (pool_shapes p))"

definition pool_count_checks :: "'m agent_pool \<Rightarrow> (bool \<times> string) list" where
  "pool_count_checks p = [
     (\<not> (0 \<le> free_slot_count p \<and> free_slot_count p \<le> capacity p), ''free_slot_count out of range''),
     (\<not> (0 \<le> alive_count p \<and> alive_count p \<le> capacity p), ''alive_count out of range''),
     (free_slot_count p + alive_count p \<noteq> capacity p, ''free_slot_count + alive_count must equal capacity'')]"

text \<open>\<^verbatim>\<open>__post_init__\<close> checks the shapes before the counts, \<^verbatim>\<open>from_internal_arrays\<close> after them.\<close>

definition make_agent_pool :: "'m agent_pool \<Rightarrow> 'm agent_pool result" where
  "make_agent_pool p =
     bindE (checks [(capacity p \<le> 0, ''capacity must be > 0'')]) (\<lambda>_.
     bindE (validate_pool_array_shapes p) (\<lambda>_.
     bindE (checks (pool_count_checks p)) (\<lambda>_.
     Inr (p\<lparr>progress_01 := map r32 (progress_01 p)\<rparr>))))"

definition pool_from_internal_arrays :: "'m agent_pool \<Rightarrow> 'm agent_pool result" where
  "pool_from_internal_arrays p =
     bindE (checks ((capacity p \<le> 0, ''capacity must be > 0'') # pool_count_checks p)) (\<lambda>_.
     bindE (validate_pool_array_shapes p) (\<lambda>_.
     Inr (p\<lparr>progress_01 := map r32 (progress_01 p)\<rparr>)))"

definition create_active_agent_pool :: "int \<Rightarrow> 'm agent_pool result" where
  "create_active_agent_pool cap =
     bindE (checks [(cap \<le> 0, ''capacity must be > 0'')]) (\<lambda>_.
     let n = nat cap; zeros = replicate n (0::int); minus = map (\<lambda>z. z - 1) zeros in
     pool_from_internal_arrays \<lparr>capacity = cap,
       free_slot_stack = rev (map int [0..<n]), free_slot_count = cap,
       alive_mask = replicate n False, alive_count = 0,
       citizen_id = minus, trip_id = minus, current_link_id = minus, progress_01 = replicate n 0,
       remaining_route_ptr = zeros, dest_node_id = minus, behavior_profile_id = minus,
       reroute_cooldown_ticks = zeros, plugin_memory = Map.empty\<rparr>)"

section \<open>Allocation and release\<close>

definition fits32 :: "int \<Rightarrow> bool" where
  "fits32 n \<longleftrightarrow> - (2 ^ 31) \<le> n \<and> n < 2 ^ 31"

text \<open>\<^verbatim>\<open>_array_set_1d\<close> on an int32 array, on a float32 array and on a mask.\<close>

definition array_set_i32 :: "int list \<Rightarrow> int \<Rightarrow> int \<Rightarrow> int list result" where
  "array_set_i32 xs i v =
     (if fits32 v then Inr (xs[nat i := v]) else Inl (OverflowError ''Python integer out of bounds for int32''))"

definition array_set_f32 :: "rat list \<Rightarrow> int \<Rightarrow> rat \<Rightarrow> rat list" where
  "array_set_f32 xs i v = xs[nat i := r32 v]"

definition array_set_bool :: "bool list \<Rightarrow> int \<Rightarrow> bool \<Rightarrow> bool list" where
  "array_set_bool xs i v = xs[nat i := v]"

definition validate_slot_index :: "int \<Rightarrow> int \<Rightarrow> unit result" where
  "validate_slot_index i cap =
     raise_if (i < 0 \<or> cap \<le> i) (IndexError ''slot_id out of range for capacity'')"

lemma array_set_i32_iff [check_simps]:
  "array_set_i32 xs i v = Inr ys \<longleftrightarrow> fits32 v \<and> ys = xs[nat i := v]"
  by (auto simp: array_set_i32_def)

lemma validate_slot_index_iff [check_simps]: "validate_slot_index i cap = Inr u \<longleftrightarrow> 0 \<le> i \<and> i < cap"
  by (auto simp: validate_slot_index_def raise_if_def)

definition allocate_active_agent_slot :: "'m agent_pool \<Rightarrow> 'm agent_slot \<Rightarrow>
    ('m agent_pool \<times> int) result" where
  "allocate_active_agent_slot p s =
     bindE (raise_if (free_slot_count p \<le> 0) (RuntimeError ''active-agent pool is full'')) (\<lambda>_.
     bindE (raise_if (\<not> slot_alive s) (ValueError ''slot_payload.alive must be True for allocation'')) (\<lambda>_.
     let top = free_slot_count p - 1; i = free_slot_stack p ! nat top in
     bindE (validate_slot_index i (capacity p)) (\<lambda>_.
     bindE (array_set_i32 (citizen_id p) i (slot_citizen s)) (\<lambda>cit.
     bindE (array_set_i32 (trip_id p) i (slot_trip s)) (\<lambda>trp.
     bindE (array_set_i32 (current_link_id p) i (slot_link s)) (\<lambda>lnk.
     bindE (array_set_i32 (remaining_route_ptr p) i (slot_route_ptr s)) (\<lambda>ptr.
     bindE (array_set_i32 (dest_node_id p) i (slot_dest s)) (\<lambda>dst.
     bindE (array_set_i32 (behavior_profile_id p) i (slot_profile s)) (\<lambda>prof.
     bindE (array_set_i32 (reroute_cooldown_ticks p) i (slot_cooldown s)) (\<lambda>cool.
     bindE (make_agent_pool (p\<lparr>free_slot_count := free_slot_count p - 1,
         alive_count := alive_count p + 1, alive_mask := array_set_bool (alive_mask p) i True,
         citizen_id := cit, trip_id := trp, current_link_id := lnk,
         progress_01 := array_set_f32 (progress_01 p) i (slot_progress s),
         remaining_route_ptr := ptr, dest_node_id := dst, behavior_profile_id := prof,
         reroute_cooldown_ticks := cool\<rparr>)) (\<lambda>p'.
     Inr (p', i))))))))))))"

definition release_active_agent_slot :: "'m agent_pool \<Rightarrow> int \<Rightarrow> 'm agent_pool result" where
  "release_active_agent_slot p i =
     bindE (validate_slot_index i (capacity p)) (\<lambda>_.
     bindE (raise_if (\<not> alive_mask p ! nat i) (ValueError ''slot is not alive'')) (\<lambda>_.
     bindE (raise_if (capacity p \<le> free_slot_count p) (RuntimeError ''free_slot_stack overflow'')) (\<lambda>_.
     bindE (array_set_i32 (free_slot_stack p) (free_slot_count p) i) (\<lambda>stack.
     bindE (array_set_i32 (citizen_id p) i (- 1)) (\<lambda>cit.
     bindE (array_set_i32 (trip_id p) i (- 1)) (\<lambda>trp.
     bindE (array_set_i32 (current_link_id p) i (- 1)) (\<lambda>lnk.
     bindE (array_set_i32 (remaining_route_ptr p) i 0) (\<lambda>ptr.
     bindE (array_set_i32 (dest_node_id p) i (- 1)) (\<lambda>dst.
     bindE (array_set_i32 (behavior_profile_id p) i (- 1)) (\<lambda>prof.
     bindE (array_set_i32 (reroute_cooldown_ticks p) i 0) (\<lambda>cool.
     make_agent_pool (p\<lparr>free_slot_stack := stack, free_slot_count := free_slot_count p + 1,
         alive_count := alive_count p - 1, alive_mask := array_set_bool (alive_mask p) i False,
         citizen_id := cit, trip_id := trp, current_link_id := lnk,
         progress_01 := array_set_f32 (progress_01 p) i 0,
         remaining_route_ptr := ptr, dest_node_id := dst, behavior_profile_id := prof,
         reroute_cooldown_ticks := cool\<rparr>))))))))))))"

section \<open>Reading and validating\<close>

definition read_active_agent_slot :: "'m agent_pool \<Rightarrow> int \<Rightarrow> 'm agent_slot result" where
  "read_active_agent_slot p i =
     bindE (validate_slot_index i (capacity p)) (\<lambda>_.
     let k = nat i;
         mem = (case plugin_memory p i of Some (DictEntry d) \<Rightarrow> d | _ \<Rightarrow> Map.empty) in
     make_agent_slot i (alive_mask p ! k) (citizen_id p ! k) (trip_id p ! k) (current_link_id p ! k)
       (Fin (progress_01 p ! k)) (remaining_route_ptr p ! k) (dest_node_id p ! k)
       (behavior_profile_id p ! k) (reroute_cooldown_ticks p ! k) mem)"

definition free_ids :: "'m agent_pool \<Rightarrow> int list" where
  "free_ids p = take (nat (free_slot_count p)) (free_slot_stack p)"

definition alive_ids :: "'m agent_pool \<Rightarrow> int set" where
  "alive_ids p = int ` {k \<in> {..<length (alive_mask p)}. alive_mask p ! k}"

definition validate_active_agent_pool :: "'m agent_pool \<Rightarrow> string list" where
  "validate_active_agent_pool p = issues [
     (alive_count p \<noteq> int (count_list (alive_mask p) True), ''alive_count != sum(alive_mask)''),
     (free_slot_count p + alive_count p \<noteq> capacity p, ''free_slot_count + alive_count != capacity''),
     (card (set (free_ids p)) \<noteq> length (free_ids p), ''duplicate slot ids in free_slot_stack''),
     (\<exists>i \<in> set (free_ids p). i < 0 \<or> capacity p \<le> i, ''free_slot_stack contains out-of-range slot ids''),
     (alive_ids p \<inter> set (free_ids p) \<noteq> {}, ''slot ids appear in both alive set and free_slot_stack''),
     ((\<exists>x \<in> set (progress_01 p). x < 0) \<or> (\<exists>x \<in> set (progress_01 p). 1 < x),
        ''progress_01 contains values outside [0, 1]''),
     (\<exists>x \<in> set (reroute_cooldown_ticks p). x < 0, ''reroute_cooldown_ticks contains negative values'')]"

section \<open>The pool invariant\<close>

text \<open>
  The free part of the stack lists, without repetition, exactly the dead slots; the counters
  agree with the mask; dead slots carry the default values.
\<close>

definition slot_clean :: "'m agent_pool \<Rightarrow> nat \<Rightarrow> bool" where
  "slot_clean p k \<longleftrightarrow> citizen_id p ! k = - 1 \<and> trip_id p ! k = - 1 \<and> current_link_id p ! k = - 1 \<and>
     progress_01 p ! k = 0 \<and> remaining_route_ptr p ! k = 0 \<and> dest_node_id p ! k = - 1 \<and>
     behavior_profile_id p ! k = - 1 \<and> reroute_cooldown_ticks p ! k = 0"

definition pool_shaped :: "'m agent_pool \<Rightarrow> bool" where
  "pool_shaped p \<longleftrightarrow> length (free_slot_stack p) = nat (capacity p) \<and> length (alive_mask p) = nat (capacity p) \<and>
     length (citizen_id p) = nat (capacity p) \<and> length (trip_id p) = nat (capacity p) \<and>
     length (current_link_id p) = nat (capacity p) \<and> length (progress_01 p) = nat (capacity p) \<and>
     length (remaining_route_ptr p) = nat (capacity p) \<and> length (dest_node_id p) = nat (capacity p) \<and>
     length (behavior_profile_id p) = nat (capacity p) \<and> length (reroute_cooldown_ticks p) = nat (capacity p)"

definition pool_values_ok :: "'m agent_pool \<Rightarrow> bool" where
  "pool_values_ok p \<longleftrightarrow> (\<forall>x \<in> set (progress_01 p). is_f32 x \<and> 0 \<le> x \<and> x \<le> 1) \<and>
     (\<forall>x \<in> set (reroute_cooldown_ticks p). 0 \<le> x)"

definition pool_ok :: "'m agent_pool \<Rightarrow> bool" where
  "pool_ok p \<longleftrightarrow> 0 < capacity p \<and> capacity p \<le> 2 ^ 31 \<and> pool_shaped p \<and> 0 \<le> free_slot_count p \<and>
     free_slot_count p + alive_count p = capacity p \<and>
     alive_count p = int (count_list (alive_mask p) True) \<and>
     distinct (free_ids p) \<and>
     set (free_ids p) = {i. 0 \<le> i \<and> i < capacity p \<and> \<not> alive_mask p ! nat i} \<and> pool_values_ok p \<and>
     (\<forall>k < nat (capacity p). \<not> alive_mask p ! k \<longrightarrow> slot_clean p k)"

definition payload_ok :: "'m agent_slot \<Rightarrow> bool" where
  "payload_ok s \<longleftrightarrow> 0 \<le> slot_progress s \<and> slot_progress s \<le> 1 \<and> 0 \<le> slot_cooldown s"

definition payload_fits :: "'m agent_slot \<Rightarrow> bool" where
  "payload_fits s \<longleftrightarrow> fits32 (slot_citizen s) \<and> fits32 (slot_trip s) \<and> fits32 (slot_link s) \<and>
     fits32 (slot_route_ptr s) \<and> fits32 (slot_dest s) \<and> fits32 (slot_profile s) \<and> fits32 (slot_cooldown s)"

lemma make_agent_slot_ok: "make_agent_slot i a c t l pr pt d b co m = Inr s \<Longrightarrow> payload_ok s"
  by (auto simp: make_agent_slot_def check_simps payload_ok_def dest: pf_le_Fin_bounds)

text \<open>Writing all the payload fields of one slot.\<close>

definition fill_slot :: "'m agent_pool \<Rightarrow> nat \<Rightarrow> 'm agent_slot \<Rightarrow> 'm agent_pool" where
  "fill_slot p k s = p\<lparr>citizen_id := (citizen_id p)[k := slot_citizen s],
     trip_id := (trip_id p)[k := slot_trip s], current_link_id := (current_link_id p)[k := slot_link s],
     progress_01 := (progress_01 p)[k := r32 (slot_progress s)],
     remaining_route_ptr := (remaining_route_ptr p)[k := slot_route_ptr s],
     dest_node_id := (dest_node_id p)[k := slot_dest s],
     behavior_profile_id := (behavior_profile_id p)[k := slot_profile s],
     reroute_cooldown_ticks := (reroute_cooldown_ticks p)[k := slot_cooldown s]\<rparr>"

definition blank_slot :: "'m agent_slot" where
  "blank_slot = \<lparr>slot_id = - 1, slot_alive = False, slot_citizen = - 1, slot_trip = - 1, slot_link = - 1,
     slot_progress = 0, slot_route_ptr = 0, slot_dest = - 1, slot_profile = - 1, slot_cooldown = 0,
     slot_memory = Map.empty\<rparr>"

definition occupied :: "'m agent_pool \<Rightarrow> nat \<Rightarrow> 'm agent_slot \<Rightarrow> 'm agent_pool" where
  "occupied p k s = (fill_slot p k s)\<lparr>free_slot_count := free_slot_count p - 1,
     alive_count := alive_count p + 1, alive_mask := (alive_mask p)[k := True]\<rparr>"

definition vacated :: "'m agent_pool \<Rightarrow> nat \<Rightarrow> 'm agent_pool" where
  "vacated p k = (fill_slot p k blank_slot)\<lparr>
     free_slot_stack := (free_slot_stack p)[nat (free_slot_count p) := int k],
     free_slot_count := free_slot_count p + 1, alive_count := alive_count p - 1,
     alive_mask := (alive_mask p)[k := False]\<rparr>"

definition top_slot :: "'m agent_pool \<Rightarrow> nat" where
  "top_slot p = nat (free_slot_stack p ! (nat (free_slot_count p) - 1))"

lemma pool_shapes_iff:
  assumes "0 \<le> capacity p"
  shows "(\<forall>c \<in> set (map (\<lambda>(n, name). (int n \<noteq> capacity p, name @ e)) (pool_shapes p)). \<not> fst c)
    \<longleftrightarrow> pool_shaped p"
proof -
  have "int n = capacity p \<longleftrightarrow> n = nat (capacity p)" for n using assms by auto
  then show ?thesis by (simp add: pool_shapes_def pool_shaped_def)
qed

lemma make_agent_pool_iff:
  "make_agent_pool p = Inr q \<longleftrightarrow> 0 < capacity p \<and> pool_shaped p \<and> 0 \<le> free_slot_count p \<and>
     0 \<le> alive_count p \<and> free_slot_count p + alive_count p = capacity p \<and>
     q = p\<lparr>progress_01 := map r32 (progress_01 p)\<rparr>"
proof (cases "0 < capacity p")
  case True
  then show ?thesis
    using pool_shapes_iff[of p "'' must have the pool shape''"]
    by (auto simp: make_agent_pool_def validate_pool_array_shapes_def check_simps pool_count_checks_def)
qed (simp add: make_agent_pool_def check_simps)

lemma fill_slot_simps [simp]:
  "capacity (fill_slot p k s) = capacity p" "free_slot_stack (fill_slot p k s) = free_slot_stack p"
  "free_slot_count (fill_slot p k s) = free_slot_count p" "alive_mask (fill_slot p k s) = alive_mask p"
  "alive_count (fill_slot p k s) = alive_count p" "plugin_memory (fill_slot p k s) = plugin_memory p"
  by (simp_all add: fill_slot_def)

lemma shaped_occupied [simp]: "pool_shaped (occupied p k s) = pool_shaped p"
  by (simp add: occupied_def fill_slot_def pool_shaped_def)

lemma shaped_vacated [simp]: "pool_shaped (vacated p k) = pool_shaped p"
  by (simp add: vacated_def fill_slot_def pool_shaped_def)

lemma progress_rounded: "pool_values_ok p \<Longrightarrow> map r32 (progress_01 p) = progress_01 p"
  by (rule map_r32_id) (simp add: pool_values_ok_def)

lemma r32_unit: "0 \<le> x \<Longrightarrow> x \<le> 1 \<Longrightarrow> is_f32 (r32 x) \<and> 0 \<le> r32 x \<and> r32 x \<le> 1"
  using f32.rd_mono[of x 1] by (simp add: f32.rd_nonneg)

lemma values_fill: "pool_values_ok p \<Longrightarrow> payload_ok s \<Longrightarrow> pool_values_ok (fill_slot p k s)"
  unfolding pool_values_ok_def payload_ok_def
  by (intro conjI; unfold fill_slot_def; simp; intro ball_update; simp add: r32_unit)

lemma values_occupied: "pool_values_ok p \<Longrightarrow> payload_ok s \<Longrightarrow> pool_values_ok (occupied p k s)"
  using values_fill[of p s k] by (simp add: occupied_def pool_values_ok_def)

lemma values_vacated: "pool_values_ok p \<Longrightarrow> pool_values_ok (vacated p k)"
  using values_fill[of p blank_slot k] by (simp add: vacated_def pool_values_ok_def payload_ok_def blank_slot_def)

section \<open>What the operations return\<close>

lemma free_split:
  assumes "pool_ok p" "0 < free_slot_count p"
  shows "free_ids p = take (nat (free_slot_count p) - 1) (free_slot_stack p) @ [int (top_slot p)]"
    "top_slot p < nat (capacity p)" "\<not> alive_mask p ! top_slot p"
    "free_slot_stack p ! (nat (free_slot_count p) - 1) = int (top_slot p)"
proof -
  let ?f = "nat (free_slot_count p)"
  have "free_slot_count p \<le> capacity p" "length (free_slot_stack p) = nat (capacity p)"
    using assms(1) by (simp_all add: pool_ok_def pool_shaped_def)
  then have len: "?f - 1 < length (free_slot_stack p)" "0 < ?f" using assms(2) by auto
  then have split: "free_ids p = take (?f - 1) (free_slot_stack p) @ [free_slot_stack p ! (?f - 1)]"
    using take_Suc_conv_app_nth[OF len(1)] by (simp add: free_ids_def)
  then have "free_slot_stack p ! (?f - 1) \<in> set (free_ids p)" by simp
  then have range: "0 \<le> free_slot_stack p ! (?f - 1) \<and> free_slot_stack p ! (?f - 1) < capacity p \<and>
      \<not> alive_mask p ! top_slot p"
    using assms(1) by (simp add: pool_ok_def top_slot_def)
  then show eq: "free_slot_stack p ! (?f - 1) = int (top_slot p)" by (simp add: top_slot_def)
  show "free_ids p = take (?f - 1) (free_slot_stack p) @ [int (top_slot p)]" using split eq by simp
  show "top_slot p < nat (capacity p)" "\<not> alive_mask p ! top_slot p" using range eq by auto
qed

lemma allocate_iff:
  assumes "pool_ok p" "payload_ok s"
  shows "allocate_active_agent_slot p s = Inr (q, i) \<longleftrightarrow> 0 < free_slot_count p \<and> slot_alive s \<and>
    payload_fits s \<and> i = int (top_slot p) \<and> q = occupied p (top_slot p) s"
proof (cases "0 < free_slot_count p")
  case True
  note top = free_split[OF assms(1) True]
  have "map r32 (progress_01 (occupied p (top_slot p) s)) = progress_01 (occupied p (top_slot p) s)"
    by (rule progress_rounded) (use assms in \<open>simp add: values_occupied pool_ok_def\<close>)
  then have round: "q\<lparr>progress_01 := map r32 (progress_01 q)\<rparr> = q" if "q = occupied p (top_slot p) s" for q
    using that by simp
  have eq: "p\<lparr>free_slot_count := free_slot_count p - 1, alive_count := alive_count p + 1,
      alive_mask := (alive_mask p)[top_slot p := True], citizen_id := (citizen_id p)[top_slot p := slot_citizen s],
      trip_id := (trip_id p)[top_slot p := slot_trip s],
      current_link_id := (current_link_id p)[top_slot p := slot_link s],
      progress_01 := (progress_01 p)[top_slot p := r32 (slot_progress s)],
      remaining_route_ptr := (remaining_route_ptr p)[top_slot p := slot_route_ptr s],
      dest_node_id := (dest_node_id p)[top_slot p := slot_dest s],
      behavior_profile_id := (behavior_profile_id p)[top_slot p := slot_profile s],
      reroute_cooldown_ticks := (reroute_cooldown_ticks p)[top_slot p := slot_cooldown s]\<rparr>
    = occupied p (top_slot p) s" by (simp add: occupied_def fill_slot_def)
  have make: "make_agent_pool (occupied p (top_slot p) s) = Inr (occupied p (top_slot p) s)"
    using assms True round by (simp add: make_agent_pool_iff pool_ok_def) (simp add: occupied_def)
  have slot: "free_slot_stack p ! nat (free_slot_count p - 1) = int (top_slot p)"
    using top(4) True by (simp add: nat_minus_as_int)
  have range: "int (top_slot p) < capacity p" using top(2) by simp
  show ?thesis
    using True range
    by (simp add: allocate_active_agent_slot_def check_simps slot array_set_f32_def array_set_bool_def
        Let_def eq make payload_fits_def del: make_agent_pool_iff) blast
qed (simp add: allocate_active_agent_slot_def raise_if_def)

lemma alive_counted:
  assumes "pool_ok p" "k < nat (capacity p)" "alive_mask p ! k"
  shows "free_slot_count p < capacity p" "0 < alive_count p"
proof -
  have "True \<in> set (alive_mask p)"
    using assms by (auto simp: pool_ok_def pool_shaped_def in_set_conv_nth)
  then have "0 < count_list (alive_mask p) True" using count_list_0_iff[of "alive_mask p" True] by auto
  then show "free_slot_count p < capacity p" "0 < alive_count p" using assms(1) by (auto simp: pool_ok_def)
qed

lemma release_iff:
  assumes "pool_ok p"
  shows "release_active_agent_slot p i = Inr q \<longleftrightarrow>
    0 \<le> i \<and> i < capacity p \<and> alive_mask p ! nat i \<and> q = vacated p (nat i)"
proof (cases "0 \<le> i \<and> i < capacity p \<and> alive_mask p ! nat i")
  case True
  then have k: "nat i < nat (capacity p)" "alive_mask p ! nat i" by auto
  note cnt = alive_counted[OF assms k]
  have fits: "fits32 i" "fits32 (- 1)" "fits32 0"
    using True assms by (auto simp: fits32_def pool_ok_def)
  have "map r32 (progress_01 (vacated p (nat i))) = progress_01 (vacated p (nat i))"
    by (rule progress_rounded) (use assms in \<open>simp add: values_vacated pool_ok_def\<close>)
  then have make: "make_agent_pool (vacated p (nat i)) = Inr (vacated p (nat i))"
    using assms cnt by (simp add: make_agent_pool_iff pool_ok_def) (simp add: vacated_def)
  have eq: "p\<lparr>free_slot_stack := (free_slot_stack p)[nat (free_slot_count p) := i],
      free_slot_count := free_slot_count p + 1, alive_count := alive_count p - 1,
      alive_mask := (alive_mask p)[nat i := False], citizen_id := (citizen_id p)[nat i := - 1],
      trip_id := (trip_id p)[nat i := - 1], current_link_id := (current_link_id p)[nat i := - 1],
      progress_01 := (progress_01 p)[nat i := 0],
      remaining_route_ptr := (remaining_route_ptr p)[nat i := 0],
      dest_node_id := (dest_node_id p)[nat i := - 1],
      behavior_profile_id := (behavior_profile_id p)[nat i := - 1],
      reroute_cooldown_ticks := (reroute_cooldown_ticks p)[nat i := 0]\<rparr> = vacated p (nat i)"
    using True by (simp add: vacated_def fill_slot_def blank_slot_def)
  show ?thesis
    using True cnt fits
    by (simp add: release_active_agent_slot_def check_simps array_set_f32_def array_set_bool_def eq make)
      blast
qed (auto simp: release_active_agent_slot_def check_simps)

section \<open>Preservation of the invariant\<close>

lemma slot_clean_other:
  "j \<noteq> k \<Longrightarrow> slot_clean (fill_slot p k s) j = slot_clean p j"
  by (simp add: slot_clean_def fill_slot_def)

lemma slot_clean_cong:
  "slot_clean (p\<lparr>free_slot_stack := a\<rparr>) j = slot_clean p j"
  "slot_clean (p\<lparr>free_slot_count := b, alive_count := c, alive_mask := d\<rparr>) j = slot_clean p j"
  by (simp_all add: slot_clean_def)

lemma slot_clean_blank:
  "pool_shaped p \<Longrightarrow> k < nat (capacity p) \<Longrightarrow> slot_clean (fill_slot p k blank_slot) k"
  by (simp add: slot_clean_def fill_slot_def blank_slot_def pool_shaped_def)

lemma occupied_ok:
  assumes "pool_ok p" "payload_ok s" "0 < free_slot_count p"
  shows "pool_ok (occupied p (top_slot p) s)"
proof -
  let ?k = "top_slot p" and ?q = "occupied p (top_slot p) s"
  note top = free_split[OF assms(1,3)]
  have len: "length (alive_mask p) = nat (capacity p)" using assms(1) by (simp add: pool_ok_def pool_shaped_def)
  have ids: "free_ids ?q = take (nat (free_slot_count p) - 1) (free_slot_stack p)"
    using assms(3) by (simp add: free_ids_def occupied_def nat_minus_as_int)
  have old: "distinct (free_ids p)" "set (free_ids p) = {i. 0 \<le> i \<and> i < capacity p \<and> \<not> alive_mask p ! nat i}"
    using assms(1) by (simp_all add: pool_ok_def)
  have dist: "distinct (free_ids ?q)" using old(1) top(1) ids by simp
  have "set (free_ids ?q) = set (free_ids p) - {int ?k}" using old(1) top(1) ids by auto
  also have "\<dots> = {i. 0 \<le> i \<and> i < capacity ?q \<and> \<not> alive_mask ?q ! nat i}"
    using top(2) len by (auto simp: old(2) occupied_def nth_update_if)
  finally have set: "set (free_ids ?q) = {i. 0 \<le> i \<and> i < capacity ?q \<and> \<not> alive_mask ?q ! nat i}" .
  have cnt: "alive_count ?q = int (count_list (alive_mask ?q) True)"
    using assms(1) top(2,3) len by (simp add: occupied_def count_list_True_update pool_ok_def)
  have clean: "\<forall>j < nat (capacity ?q). \<not> alive_mask ?q ! j \<longrightarrow> slot_clean ?q j"
    using assms(1) top(2) len
    by (simp add: occupied_def slot_clean_cong slot_clean_other nth_update_if pool_ok_def)
  have misc: "0 < capacity p" "capacity p \<le> 2 ^ 31" "pool_shaped p" "pool_values_ok ?q"
    "free_slot_count p + alive_count p = capacity p"
    using assms by (simp_all add: pool_ok_def values_occupied)
  show ?thesis
    unfolding pool_ok_def
    by (intro conjI dist set cnt clean misc(4)) (use misc assms(3) in \<open>simp_all add: shaped_occupied\<close>,
      simp_all add: occupied_def)
qed

lemma vacated_ok:
  assumes "pool_ok p" "k < nat (capacity p)" "alive_mask p ! k"
  shows "pool_ok (vacated p k)"
proof -
  let ?q = "vacated p k" and ?f = "nat (free_slot_count p)"
  note cnt = alive_counted[OF assms]
  have len: "length (alive_mask p) = nat (capacity p)" "length (free_slot_stack p) = nat (capacity p)"
    and misc: "0 < capacity p" "capacity p \<le> 2 ^ 31" "pool_shaped p" "pool_values_ok ?q" "0 \<le> free_slot_count p"
    "free_slot_count p + alive_count p = capacity p"
    using assms by (simp_all add: pool_ok_def pool_shaped_def values_vacated)
  have f: "?f < length (free_slot_stack p)" "nat (free_slot_count p + 1) = Suc ?f"
    using cnt(1) misc(5) len(2) by auto
  have ids: "free_ids ?q = free_ids p @ [int k]"
    using f take_Suc_conv_app_nth[of ?f "(free_slot_stack p)[?f := int k]"]
    by (simp add: free_ids_def vacated_def)
  have old: "distinct (free_ids p)" "set (free_ids p) = {i. 0 \<le> i \<and> i < capacity p \<and> \<not> alive_mask p ! nat i}"
    using assms(1) by (simp_all add: pool_ok_def)
  have dist: "distinct (free_ids ?q)" using old assms(2,3) ids by auto
  have set: "set (free_ids ?q) = {i. 0 \<le> i \<and> i < capacity ?q \<and> \<not> alive_mask ?q ! nat i}"
    unfolding ids using assms(2) len(1) by (auto simp: old(2) vacated_def nth_update_if)
  have "Suc (count_list (alive_mask ?q) True) = count_list (alive_mask p) True"
    using assms(2,3) len(1) by (simp add: vacated_def count_list_False_update)
  then have count: "alive_count ?q = int (count_list (alive_mask ?q) True)"
    using assms(1) by (simp add: pool_ok_def) (simp add: vacated_def)
  have clean: "\<forall>j < nat (capacity ?q). \<not> alive_mask ?q ! j \<longrightarrow> slot_clean ?q j"
  proof (intro allI impI)
    fix j assume j: "j < nat (capacity ?q)" "\<not> alive_mask ?q ! j"
    have "slot_clean (fill_slot p k blank_slot) j"
    proof (cases "j = k")
      case True
      then show ?thesis using slot_clean_blank[OF misc(3) assms(2)] by simp
    next
      case False
      then show ?thesis using j assms(1) by (simp add: slot_clean_other vacated_def pool_ok_def)
    qed
    then show "slot_clean ?q j" by (simp add: vacated_def slot_clean_cong)
  qed
  show ?thesis
    unfolding pool_ok_def
    by (intro conjI dist set count clean misc(4)) (use misc in \<open>simp_all add: shaped_vacated\<close>,
      simp_all add: vacated_def)
qed

lemma create_ok:
  assumes "create_active_agent_pool cap = Inr p" "cap \<le> 2 ^ 31"
  shows "pool_ok p" "capacity p = cap" "alive_mask p = replicate (nat cap) False"
proof -
  let ?n = "nat cap"
  have cap: "0 < cap" and p: "p = \<lparr>capacity = cap, free_slot_stack = rev (map int [0..<?n]), free_slot_count = cap,
       alive_mask = replicate ?n False, alive_count = 0,
       citizen_id = replicate ?n (- 1), trip_id = replicate ?n (- 1), current_link_id = replicate ?n (- 1),
       progress_01 = replicate ?n 0, remaining_route_ptr = replicate ?n 0, dest_node_id = replicate ?n (- 1),
       behavior_profile_id = replicate ?n (- 1), reroute_cooldown_ticks = replicate ?n 0,
       plugin_memory = Map.empty\<rparr>"
    using assms(1) by (auto simp: create_active_agent_pool_def pool_from_internal_arrays_def check_simps Let_def)
  have ids: "free_ids p = rev (map int [0..<?n])" using cap by (simp add: p free_ids_def)
  have set: "set (free_ids p) = {i. 0 \<le> i \<and> i < capacity p \<and> \<not> alive_mask p ! nat i}"
    unfolding ids by (auto simp: p image_iff Bex_def intro!: exI[of _ "nat _"])
  have dist: "distinct (free_ids p)" by (simp add: ids distinct_map)
  show "capacity p = cap" "alive_mask p = replicate (nat cap) False" by (simp_all add: p)
  have shaped: "pool_shaped p" by (simp add: p pool_shaped_def)
  have vals: "pool_values_ok p" "alive_count p = int (count_list (alive_mask p) True)"
    by (simp_all add: p pool_values_ok_def)
  have clean: "\<forall>k < nat (capacity p). \<not> alive_mask p ! k \<longrightarrow> slot_clean p k" by (simp add: p slot_clean_def)
  show "pool_ok p" unfolding pool_ok_def
    by (intro conjI set dist shaped vals clean) (use cap assms(2) in \<open>simp_all add: p\<close>)
qed

section \<open>What a client relies on\<close>

text \<open>
  An allocator of numbered slots: allocation yields a slot that was not live, and is possible
  exactly while there is room; releasing a slot makes room, undoes the allocation that made it live,
  and makes it the next one to be handed out.
\<close>

fun alloc_all :: "('p \<Rightarrow> 'x \<Rightarrow> ('p \<times> int) option) \<Rightarrow> 'p \<Rightarrow> 'x list \<Rightarrow> ('p \<times> int list) option" where
  "alloc_all al p [] = Some (p, [])"
| "alloc_all al p (x # xs) = (case al p x of None \<Rightarrow> None | Some (q, i) \<Rightarrow>
     (case alloc_all al q xs of None \<Rightarrow> None | Some (r, is) \<Rightarrow> Some (r, i # is)))"

fun free_all :: "('p \<Rightarrow> int \<Rightarrow> 'p option) \<Rightarrow> 'p \<Rightarrow> int list \<Rightarrow> 'p option" where
  "free_all fr p [] = Some p"
| "free_all fr p (i # is) = (case fr p i of None \<Rightarrow> None | Some q \<Rightarrow> free_all fr q is)"

lemma free_all_append:
  "free_all fr p (is @ js) = (case free_all fr p is of None \<Rightarrow> None | Some q \<Rightarrow> free_all fr q js)"
  by (induction "is" arbitrary: p) (auto split: option.splits)

locale slot_allocator =
  fixes al :: "'p \<Rightarrow> 'x \<Rightarrow> ('p \<times> int) option"
    and fr :: "'p \<Rightarrow> int \<Rightarrow> 'p option"
    and live :: "'p \<Rightarrow> int set"
    and room :: "'p \<Rightarrow> nat"
    and ok :: "'p \<Rightarrow> bool"
    and good :: "'x \<Rightarrow> bool"
  assumes al_possible: "ok p \<Longrightarrow> good x \<Longrightarrow> (al p x \<noteq> None) = (0 < room p)"
    and al_ok: "ok p \<Longrightarrow> good x \<Longrightarrow> al p x = Some (q, i) \<Longrightarrow>
      ok q \<and> i \<notin> live p \<and> live q = insert i (live p) \<and> Suc (room q) = room p"
    and fr_possible: "ok p \<Longrightarrow> (fr p i \<noteq> None) = (i \<in> live p)"
    and fr_ok: "ok p \<Longrightarrow> fr p i = Some q \<Longrightarrow> ok q \<and> live q = live p - {i} \<and> room q = Suc (room p)"
    and undo: "ok p \<Longrightarrow> good x \<Longrightarrow> al p x = Some (q, i) \<Longrightarrow> fr q i = Some p"
    and lifo: "ok p \<Longrightarrow> good x \<Longrightarrow> fr p j = Some q \<Longrightarrow> \<exists>r. al q x = Some (r, j)"
begin

lemma batch_possible:
  "ok p \<Longrightarrow> \<forall>x \<in> set xs. good x \<Longrightarrow> (alloc_all al p xs \<noteq> None) = (length xs \<le> room p)"
proof (induction xs arbitrary: p)
  case (Cons x xs)
  show ?case
  proof (cases "al p x")
    case None
    then show ?thesis using al_possible[of p x] Cons.prems by simp
  next
    case (Some qi)
    obtain q i where qi: "qi = (q, i)" by (cases qi)
    have q: "ok q" "Suc (room q) = room p" using al_ok[of p x q i] Some qi Cons.prems by auto
    have "(alloc_all al q xs \<noteq> None) = (length xs \<le> room q)" using Cons.IH[OF q(1)] Cons.prems by simp
    then show ?thesis using Some qi q(2) by (auto split: option.splits)
  qed
qed simp

lemma batch_fresh:
  "ok p \<Longrightarrow> \<forall>x \<in> set xs. good x \<Longrightarrow> alloc_all al p xs = Some (q, is) \<Longrightarrow>
    ok q \<and> distinct is \<and> length is = length xs \<and> set is \<inter> live p = {} \<and> live q = live p \<union> set is \<and>
    room q + length xs = room p"
proof (induction xs arbitrary: p "is")
  case (Cons x xs)
  obtain p1 i js where s: "al p x = Some (p1, i)" "alloc_all al p1 xs = Some (q, js)" "is = i # js"
    using Cons.prems(3) by (auto split: option.splits)
  have p1: "ok p1" "i \<notin> live p" "live p1 = insert i (live p)" "Suc (room p1) = room p"
    using al_ok[of p x p1 i] s(1) Cons.prems by auto
  have "\<forall>x \<in> set xs. good x" using Cons.prems(2) by simp
  from Cons.IH[OF p1(1) this s(2)] show ?case using p1 s(3) by auto
qed simp

lemma batch_undo:
  "ok p \<Longrightarrow> \<forall>x \<in> set xs. good x \<Longrightarrow> alloc_all al p xs = Some (q, is) \<Longrightarrow> free_all fr q (rev is) = Some p"
proof (induction xs arbitrary: p "is")
  case (Cons x xs)
  obtain p1 i js where s: "al p x = Some (p1, i)" "alloc_all al p1 xs = Some (q, js)" "is = i # js"
    using Cons.prems(3) by (auto split: option.splits)
  have "ok p1" using al_ok[of p x p1 i] s(1) Cons.prems by auto
  then have "free_all fr q (rev js) = Some p1" using Cons.IH s(2) Cons.prems(2) by simp
  then show ?case using undo[OF Cons.prems(1) _ s(1)] Cons.prems(2) s(3) by (simp add: free_all_append)
qed simp

end

section \<open>The pool is such an allocator\<close>

definition pool_alloc :: "'m agent_pool \<Rightarrow> 'm agent_slot \<Rightarrow> ('m agent_pool \<times> int) option" where
  "pool_alloc p s = (case allocate_active_agent_slot p s of Inl _ \<Rightarrow> None | Inr r \<Rightarrow> Some r)"

definition pool_free :: "'m agent_pool \<Rightarrow> int \<Rightarrow> 'm agent_pool option" where
  "pool_free p i = (case release_active_agent_slot p i of Inl _ \<Rightarrow> None | Inr q \<Rightarrow> Some q)"

definition spawnable :: "'m agent_slot \<Rightarrow> bool" where
  "spawnable s \<longleftrightarrow> slot_alive s \<and> payload_ok s \<and> payload_fits s"

lemma pool_alloc_iff: "pool_alloc p s = Some r \<longleftrightarrow> allocate_active_agent_slot p s = Inr r"
  by (auto simp: pool_alloc_def split: sum.splits)

lemma pool_free_iff: "pool_free p i = Some q \<longleftrightarrow> release_active_agent_slot p i = Inr q"
  by (auto simp: pool_free_def split: sum.splits)

lemma pool_alloc_cases:
  assumes "pool_ok p" "spawnable s"
  shows "pool_alloc p s = Some (q, i) \<longleftrightarrow> 0 < free_slot_count p \<and> i = int (top_slot p) \<and>
    q = occupied p (top_slot p) s"
  using allocate_iff[of p s q i] assms by (auto simp: pool_alloc_iff spawnable_def)

lemma pool_free_cases:
  assumes "pool_ok p"
  shows "pool_free p i = Some q \<longleftrightarrow> 0 \<le> i \<and> i < capacity p \<and> alive_mask p ! nat i \<and> q = vacated p (nat i)"
  using release_iff[OF assms] by (simp add: pool_free_iff)

lemma alive_ids_iff:
  assumes "pool_ok p"
  shows "i \<in> alive_ids p \<longleftrightarrow> 0 \<le> i \<and> i < capacity p \<and> alive_mask p ! nat i"
proof -
  have len: "length (alive_mask p) = nat (capacity p)" using assms by (simp add: pool_ok_def pool_shaped_def)
  show ?thesis
  proof
    assume "0 \<le> i \<and> i < capacity p \<and> alive_mask p ! nat i"
    then have "i = int (nat i)" "nat i \<in> {k \<in> {..<length (alive_mask p)}. alive_mask p ! k}" using len by auto
    then show "i \<in> alive_ids p" unfolding alive_ids_def by (rule image_eqI)
  next
    assume "i \<in> alive_ids p"
    then show "0 \<le> i \<and> i < capacity p \<and> alive_mask p ! nat i" using len by (auto simp: alive_ids_def)
  qed
qed

lemma list_update_same_id: "xs ! k = v \<Longrightarrow> xs[k := v] = xs"
  by auto

lemma vacate_occupied:
  assumes "pool_ok p" "0 < free_slot_count p"
  shows "vacated (occupied p (top_slot p) s) (top_slot p) = p"
proof -
  note top = free_split[OF assms]
  have clean: "slot_clean p (top_slot p)" using assms(1) top(2,3) by (simp add: pool_ok_def)
  have idx: "nat (free_slot_count p - 1) = nat (free_slot_count p) - 1" using assms(2) by simp
  show ?thesis
    using clean top(3,4)
    by (intro agent_pool.equality;
      simp add: vacated_def occupied_def fill_slot_def blank_slot_def slot_clean_def list_update_same_id idx)
qed

lemma top_vacated:
  assumes "pool_ok p" "k < nat (capacity p)" "alive_mask p ! k"
  shows "top_slot (vacated p k) = k"
proof -
  have "nat (free_slot_count p) < length (free_slot_stack p)" "0 \<le> free_slot_count p"
    using assms(1) alive_counted(1)[OF assms] by (auto simp: pool_ok_def pool_shaped_def)
  then show ?thesis by (simp add: top_slot_def vacated_def nat_add_distrib)
qed

lemma live_occupied:
  assumes "pool_ok p" "0 < free_slot_count p"
  shows "alive_ids (occupied p (top_slot p) s) = insert (int (top_slot p)) (alive_ids p)"
    "int (top_slot p) \<notin> alive_ids p"
proof -
  note top = free_split[OF assms]
  have "top_slot p < length (alive_mask p)" using assms(1) top(2) by (simp add: pool_ok_def pool_shaped_def)
  then have "{k \<in> {..<length (alive_mask p)}. (alive_mask p)[top_slot p := True] ! k} =
      insert (top_slot p) {k \<in> {..<length (alive_mask p)}. alive_mask p ! k}"
    by (auto simp: nth_update_if)
  then show "alive_ids (occupied p (top_slot p) s) = insert (int (top_slot p)) (alive_ids p)"
    by (simp add: alive_ids_def occupied_def)
  show "int (top_slot p) \<notin> alive_ids p" using top(3) by (auto simp: alive_ids_def)
qed

lemma live_vacated:
  assumes "pool_ok p" "k < nat (capacity p)"
  shows "alive_ids (vacated p k) = alive_ids p - {int k}"
proof -
  have "k < length (alive_mask p)" using assms by (simp add: pool_ok_def pool_shaped_def)
  then have "{j \<in> {..<length (alive_mask p)}. (alive_mask p)[k := False] ! j} =
      {j \<in> {..<length (alive_mask p)}. alive_mask p ! j} - {k}"
    by (auto simp: nth_update_if)
  then show ?thesis by (simp add: alive_ids_def vacated_def image_set_diff)
qed

lemma occupied_fields:
  "capacity (occupied p k s) = capacity p" "free_slot_count (occupied p k s) = free_slot_count p - 1"
  "alive_mask (occupied p k s) = (alive_mask p)[k := True]"
  by (simp_all add: occupied_def)

lemma vacated_fields: "free_slot_count (vacated p k) = free_slot_count p + 1"
  by (simp add: vacated_def)

interpretation agents: slot_allocator pool_alloc pool_free alive_ids "\<lambda>p. nat (free_slot_count p)" pool_ok spawnable
proof (unfold_locales, goal_cases)
  case (1 p x)
  then show ?case using pool_alloc_cases[of p x] by auto
next
  case (2 p x q i)
  then have a: "0 < free_slot_count p" "i = int (top_slot p)" "q = occupied p (top_slot p) x"
    using pool_alloc_cases[of p x q i] by simp_all
  have "pool_ok q" using a 2 by (simp add: occupied_ok spawnable_def)
  then show ?case using live_occupied[OF 2(1) a(1)] a by (simp add: occupied_fields nat_minus_as_int)
next
  case (3 p i)
  then show ?case using pool_free_cases[of p i] by (simp add: alive_ids_iff)
next
  case (4 p i q)
  then have a: "0 \<le> i" "i < capacity p" "alive_mask p ! nat i" "q = vacated p (nat i)"
    using pool_free_cases[of p i q] by simp_all
  have k: "nat i < nat (capacity p)" using a by simp
  have "0 \<le> free_slot_count p" using 4(1) by (simp add: pool_ok_def)
  then show ?case
    using vacated_ok[OF 4(1) k a(3)] live_vacated[OF 4(1) k] a by (simp add: vacated_fields nat_add_distrib)
next
  case (5 p x q i)
  then have a: "0 < free_slot_count p" "i = int (top_slot p)" "q = occupied p (top_slot p) x"
    using pool_alloc_cases[of p x q i] by simp_all
  have ok: "pool_ok (occupied p (top_slot p) x)" using a 5 by (simp add: occupied_ok spawnable_def)
  have top: "top_slot p < length (alive_mask p)" "top_slot p < nat (capacity p)"
    using 5(1) free_split(2)[OF 5(1) a(1)] by (simp_all add: pool_ok_def pool_shaped_def)
  then have "int (top_slot p) < capacity p" by simp
  then show ?case
    unfolding a(2,3) pool_free_cases[OF ok] occupied_fields vacate_occupied[OF 5(1) a(1)] nat_int
    using top by simp
next
  case (6 p x j q)
  then have a: "0 \<le> j" "j < capacity p" "alive_mask p ! nat j" "q = vacated p (nat j)"
    using pool_free_cases[of p j q] by simp_all
  have k: "nat j < nat (capacity p)" using a by simp
  have "0 \<le> free_slot_count p" using 6(1) by (simp add: pool_ok_def)
  then have "0 < free_slot_count q" by (simp add: a(4) vacated_fields)
  moreover have "top_slot q = nat j" unfolding a(4) by (rule top_vacated[OF 6(1) k a(3)])
  moreover have "pool_ok q" unfolding a(4) by (rule vacated_ok[OF 6(1) k a(3)])
  ultimately show ?case using pool_alloc_cases[of q x] 6(2) a(1) by auto
qed

section \<open>Reachable pools\<close>

text \<open>The operations of the module, and the replacement of the plugin memory by its clients.\<close>

inductive pool_reachable :: "int \<Rightarrow> 'm agent_pool \<Rightarrow> bool" for cap where
  created: "create_active_agent_pool cap = Inr p \<Longrightarrow> pool_reachable cap p"
| allocated: "pool_reachable cap p \<Longrightarrow> payload_ok s \<Longrightarrow> allocate_active_agent_slot p s = Inr (q, i) \<Longrightarrow>
    pool_reachable cap q"
| released: "pool_reachable cap p \<Longrightarrow> release_active_agent_slot p i = Inr q \<Longrightarrow> pool_reachable cap q"
| remembered: "pool_reachable cap p \<Longrightarrow> pool_reachable cap (p\<lparr>plugin_memory := mem\<rparr>)"

lemma pool_ok_memory: "pool_ok p \<Longrightarrow> pool_ok (p\<lparr>plugin_memory := mem\<rparr>)"
  by (simp add: pool_ok_def pool_shaped_def free_ids_def pool_values_ok_def slot_clean_def)

lemma pool_reachable_ok: "pool_reachable cap p \<Longrightarrow> cap \<le> 2 ^ 31 \<Longrightarrow> pool_ok p \<and> capacity p = cap"
proof (induction rule: pool_reachable.induct)
  case (created p)
  then show ?case using create_ok by blast
next
  case (allocated p s q i)
  then show ?case using allocate_iff[of p s q i] occupied_ok[of p s] by (auto simp: occupied_fields)
next
  case (released p i q)
  then have "0 \<le> i" "i < capacity p" "alive_mask p ! nat i" "q = vacated p (nat i)"
    using release_iff[of p i q] by auto
  then show ?case using released vacated_ok[of p "nat i"] by (simp add: vacated_def)
next
  case (remembered p mem)
  then show ?case by (simp add: pool_ok_memory)
qed

lemma pool_ok_validates: assumes "pool_ok p" shows "validate_active_agent_pool p = []"
proof -
  have "alive_ids p \<inter> set (free_ids p) = {}"
    using assms by (auto simp: alive_ids_iff pool_ok_def)
  moreover have "\<forall>i \<in> set (free_ids p). \<not> (i < 0 \<or> capacity p \<le> i)" using assms by (auto simp: pool_ok_def)
  moreover have "\<forall>x \<in> set (progress_01 p). \<not> x < 0 \<and> \<not> 1 < x" "\<forall>x \<in> set (reroute_cooldown_ticks p). \<not> x < 0"
    using assms by (auto simp: pool_ok_def pool_values_ok_def)
  moreover have "card (set (free_ids p)) = length (free_ids p)"
    using assms by (intro distinct_card) (simp add: pool_ok_def)
  ultimately show ?thesis using assms
    by (auto simp: validate_active_agent_pool_def check_simps) (simp_all add: pool_ok_def)
qed

lemma read_slot_ok:
  assumes "pool_ok p" "0 \<le> i" "i < capacity p"
  shows "read_active_agent_slot p i = Inr \<lparr>slot_id = i, slot_alive = alive_mask p ! nat i,
     slot_citizen = citizen_id p ! nat i, slot_trip = trip_id p ! nat i, slot_link = current_link_id p ! nat i,
     slot_progress = progress_01 p ! nat i, slot_route_ptr = remaining_route_ptr p ! nat i,
     slot_dest = dest_node_id p ! nat i, slot_profile = behavior_profile_id p ! nat i,
     slot_cooldown = reroute_cooldown_ticks p ! nat i,
     slot_memory = (case plugin_memory p i of Some (DictEntry d) \<Rightarrow> d | _ \<Rightarrow> Map.empty)\<rparr>"
proof -
  have "nat i < length (progress_01 p)" "nat i < length (reroute_cooldown_ticks p)"
    using assms by (simp_all add: pool_ok_def pool_shaped_def)
  then have "0 \<le> progress_01 p ! nat i" "progress_01 p ! nat i \<le> 1" "0 \<le> reroute_cooldown_ticks p ! nat i"
    using assms(1) nth_mem by (auto simp: pool_ok_def pool_values_ok_def)
  then show ?thesis using assms(2,3)
    by (simp add: read_active_agent_slot_def make_agent_slot_def validate_slot_index_def Let_def check_eval)
qed

section \<open>The properties of the pool\<close>

text \<open>C14: every pool reached from an empty one by allocations, releases and replacements of the
  plugin memory passes the module's own consistency validator, and its free stack and its alive
  mask partition the slots.\<close>

theorem reachable_pool_consistent:
  assumes "pool_reachable cap p" "cap \<le> 2 ^ 31"
  shows "validate_active_agent_pool p = [] \<and> alive_ids p \<union> set (free_ids p) = {0..<cap} \<and>
    alive_ids p \<inter> set (free_ids p) = {}"
  using pool_reachable_ok[OF assms] pool_ok_validates[of p]
  by (auto simp: alive_ids_iff pool_ok_def)

text \<open>The branches of an allocation, one by one.\<close>

lemma allocate_branches:
  assumes "pool_ok p" "payload_ok s"
  shows "free_slot_count p = 0 \<Longrightarrow> allocate_active_agent_slot p s = Inl (RuntimeError ''active-agent pool is full'')"
    and "0 < free_slot_count p \<Longrightarrow> \<not> slot_alive s \<Longrightarrow>
      allocate_active_agent_slot p s = Inl (ValueError ''slot_payload.alive must be True for allocation'')"
    and "0 < free_slot_count p \<Longrightarrow> slot_alive s \<Longrightarrow> \<not> payload_fits s \<Longrightarrow>
      allocate_active_agent_slot p s = Inl (OverflowError ''Python integer out of bounds for int32'')"
    and "0 < free_slot_count p \<Longrightarrow> slot_alive s \<Longrightarrow> payload_fits s \<Longrightarrow>
      \<exists>q i. allocate_active_agent_slot p s = Inr (q, i) \<and> i \<notin> alive_ids p \<and>
        read_active_agent_slot q i = Inr (s\<lparr>slot_id := i, slot_progress := r32 (slot_progress s),
          slot_memory := (case plugin_memory p i of Some (DictEntry d) \<Rightarrow> d | _ \<Rightarrow> Map.empty)\<rparr>) \<and>
        (\<forall>j. j \<noteq> i \<longrightarrow> read_active_agent_slot q j = read_active_agent_slot p j)"
proof -
  show "allocate_active_agent_slot p s = Inl (RuntimeError ''active-agent pool is full'')" if "free_slot_count p = 0"
    using that by (simp add: allocate_active_agent_slot_def raise_if_def)
  show "allocate_active_agent_slot p s = Inl (ValueError ''slot_payload.alive must be True for allocation'')"
    if "0 < free_slot_count p" "\<not> slot_alive s"
    using that by (simp add: allocate_active_agent_slot_def raise_if_def)
next
  assume f: "0 < free_slot_count p" and alive: "slot_alive s"
  note top = free_split[OF assms(1) f]
  have slot: "free_slot_stack p ! nat (free_slot_count p - 1) = int (top_slot p)"
    using top(4) f by (simp add: nat_minus_as_int)
  have k: "int (top_slot p) < capacity p" using top(2) by simp
  show "allocate_active_agent_slot p s = Inl (OverflowError ''Python integer out of bounds for int32'')"
    if "\<not> payload_fits s"
    using f alive slot k that
    by (auto simp: allocate_active_agent_slot_def raise_if_def validate_slot_index_def payload_fits_def
        array_set_i32_def bindE_def Let_def)
  assume fits: "payload_fits s"
  let ?q = "occupied p (top_slot p) s"
  have a: "allocate_active_agent_slot p s = Inr (?q, int (top_slot p))"
    using allocate_iff[OF assms] f alive fits by blast
  have ok: "pool_ok ?q" by (rule occupied_ok[OF assms f])
  have len: "pool_shaped p" "top_slot p < nat (capacity p)" using assms(1) top(2) by (simp_all add: pool_ok_def)
  have read: "read_active_agent_slot ?q (int (top_slot p)) = Inr (s\<lparr>slot_id := int (top_slot p),
      slot_progress := r32 (slot_progress s),
      slot_memory := (case plugin_memory p (int (top_slot p)) of Some (DictEntry d) \<Rightarrow> d | _ \<Rightarrow> Map.empty)\<rparr>)"
    unfolding read_slot_ok[OF ok of_nat_0_le_iff k[folded occupied_fields(1)[of p "top_slot p" s]]]
    using len alive by (simp add: occupied_def fill_slot_def pool_shaped_def)
  have other: "read_active_agent_slot ?q j = read_active_agent_slot p j" if "j \<noteq> int (top_slot p)" for j
  proof (cases "0 \<le> j \<and> j < capacity p")
    case True
    then have "nat j \<noteq> top_slot p" "0 \<le> j" "j < capacity p" "j < capacity ?q" using that by (auto simp: occupied_fields)
    then show ?thesis
      unfolding read_slot_ok[OF ok \<open>0 \<le> j\<close> \<open>j < capacity ?q\<close>] read_slot_ok[OF assms(1) \<open>0 \<le> j\<close> \<open>j < capacity p\<close>]
      by (simp add: occupied_def fill_slot_def)
  next
    case False
    then show ?thesis by (auto simp: read_active_agent_slot_def validate_slot_index_def raise_if_def occupied_fields)
  qed
  show "\<exists>q i. allocate_active_agent_slot p s = Inr (q, i) \<and> i \<notin> alive_ids p \<and>
        read_active_agent_slot q i = Inr (s\<lparr>slot_id := i, slot_progress := r32 (slot_progress s),
          slot_memory := (case plugin_memory p i of Some (DictEntry d) \<Rightarrow> d | _ \<Rightarrow> Map.empty)\<rparr>) \<and>
        (\<forall>j. j \<noteq> i \<longrightarrow> read_active_agent_slot q j = read_active_agent_slot p j)"
    using a read other live_occupied(2)[OF assms(1) f] by blast
qed

text \<open>C19: allocation on every branch.  A full pool, a dead payload and a payload beyond int32 raise
  their errors, in this order; otherwise a dead slot is handed out, reading it gives the payload
  back (its progress rounded to float32, its memory the one stored for the slot), and every other
  slot reads as before.\<close>

theorem allocate_exact:
  assumes "pool_ok p" "payload_ok s"
  shows "if free_slot_count p = 0
      then allocate_active_agent_slot p s = Inl (RuntimeError ''active-agent pool is full'')
    else if \<not> slot_alive s
      then allocate_active_agent_slot p s = Inl (ValueError ''slot_payload.alive must be True for allocation'')
    else if \<not> payload_fits s
      then allocate_active_agent_slot p s = Inl (OverflowError ''Python integer out of bounds for int32'')
    else \<exists>q i. allocate_active_agent_slot p s = Inr (q, i) \<and> i \<notin> alive_ids p \<and>
        read_active_agent_slot q i = Inr (s\<lparr>slot_id := i, slot_progress := r32 (slot_progress s),
          slot_memory := (case plugin_memory p i of Some (DictEntry d) \<Rightarrow> d | _ \<Rightarrow> Map.empty)\<rparr>) \<and>
        (\<forall>j. j \<noteq> i \<longrightarrow> read_active_agent_slot q j = read_active_agent_slot p j)"
proof -
  have "free_slot_count p = 0 \<or> 0 < free_slot_count p" using assms(1) by (auto simp: pool_ok_def)
  then show ?thesis using allocate_branches[OF assms] by presburger
qed

text \<open>C20: allocating a batch of agents succeeds exactly when the pool has as many free slots; the
  slots are distinct and were all dead; releasing them in the reverse order gives back the very
  pool one started from.\<close>

theorem batch_roundtrip:
  assumes "pool_ok p" "\<forall>s \<in> set ss. spawnable s"
  shows "(alloc_all pool_alloc p ss \<noteq> None) = (int (length ss) \<le> free_slot_count p) \<and>
    (\<forall>q is. alloc_all pool_alloc p ss = Some (q, is) \<longrightarrow>
      distinct is \<and> set is \<inter> alive_ids p = {} \<and> alive_ids q = alive_ids p \<union> set is \<and>
      free_all pool_free q (rev is) = Some p)"
proof -
  have "0 \<le> free_slot_count p" using assms(1) by (simp add: pool_ok_def)
  then have "(alloc_all pool_alloc p ss \<noteq> None) = (int (length ss) \<le> free_slot_count p)"
    using agents.batch_possible[OF assms] by (simp add: le_nat_iff)
  then show ?thesis using agents.batch_fresh[OF assms] agents.batch_undo[OF assms] by blast
qed

text \<open>A released slot is the next one to be handed out.\<close>

theorem released_slot_reused:
  assumes "pool_ok p" "release_active_agent_slot p i = Inr q" "spawnable s"
  shows "\<exists>r. allocate_active_agent_slot q s = Inr (r, i)"
  using agents.lifo[OF assms(1,3)] assms(2) by (auto simp: pool_free_iff pool_alloc_iff)

section \<open>A concrete pool\<close>

definition demo_pool :: "nat agent_pool" where
  "demo_pool = \<lparr>capacity = 2, free_slot_stack = [1, 0], free_slot_count = 2,
     alive_mask = [False, False], alive_count = 0, citizen_id = [- 1, - 1], trip_id = [- 1, - 1],
     current_link_id = [- 1, - 1], progress_01 = [0, 0], remaining_route_ptr = [0, 0],
     dest_node_id = [- 1, - 1], behavior_profile_id = [- 1, - 1], reroute_cooldown_ticks = [0, 0],
     plugin_memory = Map.empty\<rparr>"

definition demo_agent :: "nat agent_slot" where
  "demo_agent = \<lparr>slot_id = - 1, slot_alive = True, slot_citizen = 7, slot_trip = 8, slot_link = 9,
     slot_progress = 0, slot_route_ptr = 0, slot_dest = 4, slot_profile = 1, slot_cooldown = 0,
     slot_memory = Map.empty\<rparr>"

lemma demo_pool_created: "create_active_agent_pool 2 = Inr demo_pool"
  by (simp add: create_active_agent_pool_def pool_from_internal_arrays_def pool_count_checks_def check_eval
      validate_pool_array_shapes_def pool_shapes_def demo_pool_def Let_def numeral_2_eq_2)

lemma demo_pool_ok: "pool_ok demo_pool"
  using create_ok(1)[OF demo_pool_created] by simp

lemma demo_agent_ok: "payload_ok demo_agent" "spawnable demo_agent" "slot_alive demo_agent" "payload_fits demo_agent"
  by (simp_all add: payload_ok_def spawnable_def demo_agent_def payload_fits_def fits32_def)

lemma reachable_pool_consistent_witness:
  "validate_active_agent_pool demo_pool = [] \<and> alive_ids demo_pool \<union> set (free_ids demo_pool) = {0..<2}"
  using reachable_pool_consistent[OF created[OF demo_pool_created]] by simp

lemma allocate_exact_witness:
  "\<exists>q i. allocate_active_agent_slot demo_pool demo_agent = Inr (q, i) \<and> i \<notin> alive_ids demo_pool"
proof -
  have "free_slot_count demo_pool \<noteq> 0" by (simp add: demo_pool_def)
  then show ?thesis using allocate_exact[OF demo_pool_ok demo_agent_ok(1)] demo_agent_ok(3,4) by auto
qed

lemma demo_batch: "\<exists>q. alloc_all pool_alloc demo_pool [demo_agent, demo_agent] = Some q"
  using agents.batch_possible[OF demo_pool_ok, of "[demo_agent, demo_agent]"] demo_agent_ok(2)
  by (simp add: demo_pool_def)

lemma batch_roundtrip_witness:
  "\<exists>q is. alloc_all pool_alloc demo_pool [demo_agent, demo_agent] = Some (q, is) \<and>
     free_all pool_free q (rev is) = Some demo_pool"
proof -
  have "\<forall>s \<in> set [demo_agent, demo_agent]. spawnable s" using demo_agent_ok(2) by simp
  from batch_roundtrip[OF demo_pool_ok this] demo_batch show ?thesis by auto
qed

lemma released_slot_reused_witness:
  "\<exists>p i q r. release_active_agent_slot p i = Inr q \<and> allocate_active_agent_slot q demo_agent = Inr (r, i)"
proof -
  have f: "0 < free_slot_count demo_pool" by (simp add: demo_pool_def)
  let ?p = "occupied demo_pool (top_slot demo_pool) demo_agent"
  have ok: "pool_ok ?p" by (rule occupied_ok[OF demo_pool_ok demo_agent_ok(1) f])
  have "release_active_agent_slot ?p 0 = Inr demo_pool"
    unfolding release_iff[OF ok] using vacate_occupied[OF demo_pool_ok f, of demo_agent]
    by (simp add: occupied_fields) (simp add: top_slot_def demo_pool_def numeral_2_eq_2)
  from this released_slot_reused[OF ok this demo_agent_ok(2)] show ?thesis by blast
qed

end
