(* ===== verification/SpatialQueue.thy ===== *)
theory SpatialQueue
  imports ActiveAgents RoadNetwork
begin

text \<open>
  Physical storage of links and the progress of agents along them
  (src/src/metroflow/traffic/spatial_queue.py).  \<open>compute_link_storage_capacity\<close> turns lane length
  into whole vehicles; \<open>advance_agent_link_progress\<close> moves every alive agent along its link.
  Non-finite lengths and speeds leave the model with \<open>OutOfModel\<close>, except where the source raises.
\<close>

section \<open>Storage\<close>

definition link_storage :: "rat \<Rightarrow> road_link \<Rightarrow> rat result" where
  "link_storage spacing l = (case length_m l of
       Fin len \<Rightarrow> Inr (r32 (of_int (max 1 \<lfloor>r64 (r64 (len * r64 (of_int (lanes l))) / spacing)\<rfloor>)))
     | NaN \<Rightarrow> Inl (ValueError ''cannot convert float NaN to integer'')
     | _ \<Rightarrow> Inl (OverflowError ''cannot convert float infinity to integer''))"

definition compute_link_storage_capacity :: "road_link list \<Rightarrow> pyfloat \<Rightarrow> rat list result" where
  "compute_link_storage_capacity links spacing =
     bindE (checks [
       (\<not> (isfinite spacing \<and> pf_le (Fin 2) spacing \<and> pf_le spacing (Fin 20)),
          ''jam_spacing_m must be finite and in [2, 20]''),
       (links = [], ''road_csr must contain links'')])
     (\<lambda>_. mapE (link_storage (finite_part spacing)) links)"

text \<open>Every storage is a whole number of vehicles and holds at least one.\<close>

lemma storage_integral:
  assumes "compute_link_storage_capacity links spacing = Inr st"
  shows "length st = length links" "\<forall>x \<in> set st. \<exists>n. x = of_int n \<and> 1 \<le> n"
proof -
  have m: "mapE (link_storage (finite_part spacing)) links = Inr st"
    using assms by (simp add: compute_link_storage_capacity_def check_simps)
  show len: "length st = length links" by (rule mapE_length[OF m])
  show "\<forall>x \<in> set st. \<exists>n. x = of_int n \<and> 1 \<le> n"
  proof
    fix x assume "x \<in> set st"
    then obtain k where k: "k < length links" "x = st ! k" by (auto simp: in_set_conv_nth len)
    have "\<exists>n. x = r32 (of_int (max 1 n))"
      using mapE_nth[OF m k(1)] unfolding k(2) by (auto simp: link_storage_def split: pyfloat.splits) metis
    then obtain n where n: "x = r32 (of_int (max 1 n))" by blast
    obtain i where i: "r32 (of_int (max 1 n)) = of_int i" using r32_int by blast
    have "1 \<le> r32 (of_int (max 1 n))" using f32.rd_mono[of 1 "of_int (max 1 n)"] by simp
    then show "\<exists>n. x = of_int n \<and> 1 \<le> n" using n i by auto
  qed
qed

section \<open>Progress\<close>

definition progress_increment :: "rat \<Rightarrow> road_link \<Rightarrow> rat result" where
  "progress_increment tick l = (case (free_flow_speed l, length_m l) of
       (Fin v, Fin len) \<Rightarrow> Inr (r64 (r64 (v * tick) / len))
     | _ \<Rightarrow> Inl (OutOfModel ''non-finite road link''))"

text \<open>One slot of the loop; the state is the progress array and the counter.\<close>

definition advance_slot :: "road_network \<Rightarrow> rat \<Rightarrow> int set \<Rightarrow> 'm agent_pool \<Rightarrow> nat \<Rightarrow> rat list \<times> nat \<Rightarrow>
    (rat list \<times> nat) result" where
  "advance_slot net tick skip p k st =
     (if \<not> alive_mask p ! k \<or> int k \<in> skip then Inr st
      else case link_index net (current_link_id p ! k) of
        None \<Rightarrow> Inl (RuntimeError ''active agent references missing physical link'')
      | Some i \<Rightarrow> bindE (progress_increment tick (net_links net ! i)) (\<lambda>inc.
          let previous = fst st ! k; nxt = min 1 (r64 (previous + inc)) in
          Inr ((fst st)[k := r32 nxt], if r64 (previous + r64 (1 / 10 ^ 9)) < nxt then snd st + 1 else snd st)))"

definition near_exit :: "rat" where
  "near_exit = r32 (r64 (1 - r64 (1 / 10 ^ 6)))"

definition exit_count :: "bool list \<Rightarrow> rat list \<Rightarrow> nat" where
  "exit_count alive progress = length (filter (\<lambda>(a, x). a \<and> near_exit \<le> x) (zip alive progress))"

record progress_counters =
  progressed :: nat
  at_exit :: nat
  in_transit :: int

definition advance_agent_link_progress :: "'m agent_pool \<Rightarrow> road_network \<Rightarrow> pyfloat \<Rightarrow> int set \<Rightarrow>
    ('m agent_pool \<times> progress_counters) result" where
  "advance_agent_link_progress p net tick skip =
     bindE (checks [
       (\<not> isfinite tick \<or> pf_le tick (Fin 0), ''tick_seconds must be finite and > 0''),
       (net_links net = [], ''road_csr must contain indexed links'')]) (\<lambda>_.
     bindE (foldE (advance_slot net (finite_part tick) skip p) [0..<length (alive_mask p)] (progress_01 p, 0))
       (\<lambda>(progress, count).
     let exits = exit_count (alive_mask p) progress in
     bindE (pool_from_internal_arrays (p\<lparr>progress_01 := progress\<rparr>)) (\<lambda>p'.
     Inr (p', \<lparr>progressed = count, at_exit = exits, in_transit = alive_count p - int exits\<rparr>))))"

section \<open>Progress is monotone and keeps the pool\<close>

lemma pool_from_internal_iff:
  "pool_from_internal_arrays p = Inr q \<longleftrightarrow> make_agent_pool p = Inr q"
  by (auto simp: make_agent_pool_def pool_from_internal_arrays_def check_simps)

definition sane_links :: "road_network \<Rightarrow> bool" where
  "sane_links net \<longleftrightarrow> (\<forall>i. (\<exists>l. link_index net l = Some i) \<longrightarrow>
     (\<exists>v len. free_flow_speed (net_links net ! i) = Fin v \<and> length_m (net_links net ! i) = Fin len \<and> 0 < v \<and> 0 < len))"

lemma increment_nonneg:
  "0 \<le> tick \<Longrightarrow> 0 \<le> v \<Longrightarrow> 0 < len \<Longrightarrow> 0 \<le> r64 (r64 (v * tick) / len)"
  by (simp add: f64.rd_nonneg)

text \<open>What the loop does to the progress array, slot by slot.\<close>

definition progress_of :: "road_network \<Rightarrow> rat \<Rightarrow> int set \<Rightarrow> 'm agent_pool \<Rightarrow> nat \<Rightarrow> rat" where
  "progress_of net tick skip p k =
     (if \<not> alive_mask p ! k \<or> int k \<in> skip then progress_01 p ! k
      else case link_index net (current_link_id p ! k) of
        None \<Rightarrow> 0
      | Some i \<Rightarrow> r32 (min 1 (r64 (progress_01 p ! k +
          (case progress_increment tick (net_links net ! i) of Inr inc \<Rightarrow> inc | _ \<Rightarrow> 0)))))"

lemma advance_loop:
  assumes "n \<le> length (progress_01 p)"
    "foldE (advance_slot net tick skip p) [0..<n] (progress_01 p, 0) = Inr (progress, count)"
  shows "length progress = length (progress_01 p) \<and>
    (\<forall>k < length (progress_01 p). progress ! k = (if k < n then progress_of net tick skip p k else progress_01 p ! k))"
  using assms
proof (induction n arbitrary: progress count)
  case (Suc n)
  obtain pr c where s: "foldE (advance_slot net tick skip p) [0..<n] (progress_01 p, 0) = Inr (pr, c)"
    "advance_slot net tick skip p n (pr, c) = Inr (progress, count)"
    using Suc.prems(2) by (auto simp: foldE_append check_simps)
  have ih: "length pr = length (progress_01 p)"
    "\<And>k. k < length (progress_01 p) \<Longrightarrow>
      pr ! k = (if k < n then progress_of net tick skip p k else progress_01 p ! k)"
    using Suc.IH[OF _ s(1)] Suc.prems(1) by auto
  have n: "pr ! n = progress_01 p ! n" using ih(2)[of n] Suc.prems(1) by simp
  have "progress = pr[n := progress_of net tick skip p n]"
    using s(2) n by (auto simp: advance_slot_def progress_of_def check_simps Let_def list_update_same_id
        split: if_splits option.splits)
  then show ?case using ih Suc.prems(1) by (auto simp: nth_update_if less_Suc_eq)
qed simp

lemma progress_of_range:
  assumes "pool_values_ok p" "k < length (progress_01 p)" "0 \<le> tick" "sane_links net"
    "\<forall>k < length (alive_mask p). alive_mask p ! k \<longrightarrow> link_index net (current_link_id p ! k) \<noteq> None"
    "length (alive_mask p) = length (progress_01 p)"
  shows "is_f32 (progress_of net tick skip p k) \<and> progress_01 p ! k \<le> progress_of net tick skip p k \<and>
    progress_of net tick skip p k \<le> 1"
proof -
  let ?x = "progress_01 p ! k"
  have x: "is_f32 ?x" "0 \<le> ?x" "?x \<le> 1" using assms(1,2) by (auto simp: pool_values_ok_def)
  show ?thesis
  proof (cases "\<not> alive_mask p ! k \<or> int k \<in> skip")
    case True
    then show ?thesis using x by (simp add: progress_of_def)
  next
    case False
    then obtain i where i: "link_index net (current_link_id p ! k) = Some i"
      using assms(2,5,6) by auto
    then obtain v len where l: "free_flow_speed (net_links net ! i) = Fin v"
      "length_m (net_links net ! i) = Fin len" "0 < v" "0 < len" using assms(4) by (auto simp: sane_links_def)
    let ?inc = "r64 (r64 (v * tick) / len)"
    have "?x \<le> r64 (?x + ?inc)"
      by (rule f64.rd_ge_float) (use x assms(3) l increment_nonneg[of tick v len] r64_r32[of ?x] in simp_all)
    then have "?x \<le> min 1 (r64 (?x + ?inc))" using x(3) by simp
    then have "?x \<le> r32 (min 1 (r64 (?x + ?inc)))" by (rule f32.rd_ge_float) (use x(1) in simp)
    moreover have "r32 (min 1 (r64 (?x + ?inc))) \<le> 1" using f32.rd_mono[of "min 1 (r64 (?x + ?inc))" 1] by simp
    ultimately show ?thesis using False i l by (simp add: progress_of_def progress_increment_def)
  qed
qed

lemma advance_progress_ok:
  assumes "pool_ok p" "sane_links net"
    "\<forall>k < nat (capacity p). alive_mask p ! k \<longrightarrow> link_index net (current_link_id p ! k) \<noteq> None"
    "advance_agent_link_progress p net tick skip = Inr (q, c)"
  shows "pool_ok q" "q = p\<lparr>progress_01 := progress_01 q\<rparr>"
    "\<forall>k < nat (capacity p). progress_01 q ! k = progress_of net (finite_part tick) skip p k"
    "\<forall>k < nat (capacity p). progress_01 p ! k \<le> progress_01 q ! k \<and> progress_01 q ! k \<le> 1"
proof -
  let ?t = "finite_part tick"
  have shape: "length (progress_01 p) = nat (capacity p)" "length (alive_mask p) = nat (capacity p)"
    and vals: "pool_values_ok p" using assms(1) by (simp_all add: pool_ok_def pool_shaped_def)
  have t: "0 \<le> ?t" using assms(4)
    by (cases tick) (auto simp: advance_agent_link_progress_def check_simps isfinite_def)
  obtain pr n where s: "foldE (advance_slot net ?t skip p) [0..<nat (capacity p)] (progress_01 p, 0) = Inr (pr, n)"
    "q = p\<lparr>progress_01 := map r32 pr\<rparr>"
    using assms(4) shape(2)
    by (auto simp: advance_agent_link_progress_def check_simps Let_def pool_from_internal_iff make_agent_pool_iff)
  have len: "length pr = nat (capacity p)" and nth: "\<And>k. k < nat (capacity p) \<Longrightarrow> pr ! k = progress_of net ?t skip p k"
    using advance_loop[OF _ s(1)] shape by auto
  have range: "is_f32 (pr ! k) \<and> progress_01 p ! k \<le> pr ! k \<and> pr ! k \<le> 1" if "k < nat (capacity p)" for k
    using progress_of_range[OF vals _ t assms(2), of k skip] that shape assms(3) nth by auto
  have "\<forall>x \<in> set pr. is_f32 x" using range len by (auto simp: in_set_conv_nth)
  then have pr: "map r32 pr = pr" by (rule map_r32_id)
  show "q = p\<lparr>progress_01 := progress_01 q\<rparr>" by (simp add: s(2))
  show "\<forall>k < nat (capacity p). progress_01 q ! k = progress_of net ?t skip p k"
    "\<forall>k < nat (capacity p). progress_01 p ! k \<le> progress_01 q ! k \<and> progress_01 q ! k \<le> 1"
    using range nth by (simp_all add: s(2) pr)
  have "0 \<le> progress_01 p ! k" if "k < nat (capacity p)" for k
    using vals that shape by (auto simp: pool_values_ok_def)
  then have vq: "pool_values_ok q"
    using range vals len by (force simp: s(2) pr pool_values_ok_def in_set_conv_nth)
  have "progress_01 q ! k = progress_01 p ! k" if "k < nat (capacity p)" "\<not> alive_mask p ! k" for k
    using that nth by (simp add: s(2) pr progress_of_def)
  then have "\<forall>k < nat (capacity p). \<not> alive_mask p ! k \<longrightarrow> slot_clean q k"
    using assms(1) by (simp add: pool_ok_def slot_clean_def) (simp add: s(2))
  then show "pool_ok q"
    using assms(1) vq len by (simp add: pool_ok_def) (simp add: s(2) pool_shaped_def free_ids_def)
qed

text \<open>C24: advancing the agents along their links keeps the pool consistent, changes nothing but
  the progress, never moves an agent backwards or beyond the end of its link, and leaves skipped
  agents where they were.\<close>

theorem progress_monotone:
  assumes "pool_ok p" "sane_links net"
    "\<forall>k < nat (capacity p). alive_mask p ! k \<longrightarrow> link_index net (current_link_id p ! k) \<noteq> None"
    "advance_agent_link_progress p net tick skip = Inr (q, c)"
  shows "pool_ok q \<and> q = p\<lparr>progress_01 := progress_01 q\<rparr> \<and>
    (\<forall>k < nat (capacity p). progress_01 p ! k \<le> progress_01 q ! k \<and> progress_01 q ! k \<le> 1 \<and>
      (int k \<in> skip \<longrightarrow> progress_01 q ! k = progress_01 p ! k))"
proof -
  note r = advance_progress_ok[OF assms]
  have "progress_01 q ! k = progress_01 p ! k" if "k < nat (capacity p)" "int k \<in> skip" for k
    using r(3) that by (simp add: progress_of_def)
  then show ?thesis using r by blast
qed

section \<open>A concrete tick\<close>

definition demo_street :: road_network where
  "demo_street = \<lparr>net_nodes = [], net_links = [\<lparr>link_id = 9, src_node = 1, dst_node = 4, link_class = Collector,
       length_m = Fin 100, free_flow_speed = Fin 10, link_capacity = Fin 8, lanes = 1, bridge_group = None,
       is_blockable = True, physical_road = None, ramp_purpose = None\<rparr>], net_turns = [], net_crossings = [],
     node_index = Map.empty, link_index = [9 \<mapsto> 0], link_src = [0], link_dst = [1],
     outgoing = ([], []), incoming = ([], []), turn_from = [], turn_to = [], turn_priority = [],
     turn_forbidden = [], turn_pair_index = Map.empty\<rparr>"

lemma demo_street_sane: "sane_links demo_street"
  by (auto simp: sane_links_def demo_street_def split: if_splits)

definition demo_driving :: "nat agent_pool" where
  "demo_driving = occupied demo_pool 0 demo_agent"

lemma demo_driving_ok: "pool_ok demo_driving"
proof -
  have "top_slot demo_pool = 0" by (simp add: top_slot_def demo_pool_def numeral_2_eq_2)
  then show ?thesis
    using occupied_ok[OF demo_pool_ok demo_agent_ok(1)] by (simp add: demo_driving_def demo_pool_def)
qed

lemma demo_progress:
  "\<exists>q c. advance_agent_link_progress demo_driving demo_street (Fin 1) {} = Inr (q, c)"
proof -
  have fields: "capacity demo_driving = 2" "alive_mask demo_driving = [True, False]"
    "current_link_id demo_driving = [9, - 1]" "progress_01 demo_driving = [0, 0]"
    by (simp_all add: demo_driving_def occupied_def fill_slot_def demo_pool_def demo_agent_def)
  have links: "net_links demo_street \<noteq> []" "link_index demo_street 9 = Some 0"
    "free_flow_speed (net_links demo_street ! 0) = Fin 10" "length_m (net_links demo_street ! 0) = Fin 100"
    by (simp_all add: demo_street_def)
  obtain x n where "foldE (advance_slot demo_street 1 {} demo_driving) [0..<2] ([0, 0], 0) = Inr ([x, 0], n)"
    by (simp add: fields links advance_slot_def numeral_2_eq_2 upt_conv_Cons progress_increment_def Let_def)
  moreover have "\<exists>q. pool_from_internal_arrays (demo_driving\<lparr>progress_01 := [x, 0]\<rparr>) = Inr q"
    using demo_driving_ok
    by (simp add: pool_from_internal_iff make_agent_pool_iff fields pool_ok_def pool_shaped_def)
  ultimately show ?thesis
    by (auto simp: advance_agent_link_progress_def check_eval isfinite_def links fields Let_def numeral_2_eq_2)
qed

lemma progress_monotone_witness:
  "\<exists>q c. advance_agent_link_progress demo_driving demo_street (Fin 1) {} = Inr (q, c) \<and> pool_ok q"
proof -
  have "\<forall>k < nat (capacity demo_driving). alive_mask demo_driving ! k \<longrightarrow>
      link_index demo_street (current_link_id demo_driving ! k) \<noteq> None"
    by (simp add: demo_driving_def occupied_def fill_slot_def demo_pool_def demo_agent_def demo_street_def
        less_Suc_eq numeral_2_eq_2)
  with demo_progress progress_monotone[OF demo_driving_ok demo_street_sane] show ?thesis by blast
qed

end
