(* ===== verification/FlowEngine.thy ===== *)
theory FlowEngine
  imports FlowState
begin

text \<open>
  The numeric core of the link/node flow update (src/src/metroflow/flow/engine.py):
  \<open>compute_baseline_flow_arrays\<close> and the functions it calls, in float32 arithmetic.  The
  compiled Rust backend is the parameter \<open>rust\<close> of the dispatching functions.  The lemmas
  bound every turn's flow by its demand, its supply, the sending link and the receiving
  link, and show that the arrays are again well-formed.
\<close>

record flow_arrays =
  turn_demand_next :: "rat list"
  turn_supply_next :: "rat list"
  turn_flow_next :: "rat list"
  inflow_vehicles_next :: "rat list"
  outflow_vehicles_next :: "rat list"
  queue_vehicles_next :: "rat list"
  travel_time_cost_next :: "rat list"
  capacity_violation_flags_next :: "bool list"
  signal_phase_timer_next :: "i32 list"

text \<open>The keyword arguments of the array-only core.\<close>

record flow_inputs =
  fi_queue :: "rat list"
  fi_capacity :: "rat list"
  fi_from :: "int list"
  fi_to :: "int list"
  fi_demand :: "rat list"
  fi_timer :: "i32 list"
  fi_base :: "rat list"
  fi_priority :: "rat list"
  fi_forbidden :: "bool list"

definition milli32 :: rat where
  "milli32 = r32 (1 / 1000)"

definition update_travel_time_cost :: "rat list \<Rightarrow> rat list \<Rightarrow> rat list \<Rightarrow> rat list" where
  "update_travel_time_cost base q cap =
     map2 (\<lambda>b (q, c). r32 (max (r32 b) milli32
           + r32 (max (r32 q) 0 / max (r32 c) milli32)))
       base (zip q cap)"

section \<open>Reading the metadata\<close>

definition read_turn_priority :: "metadata \<Rightarrow> nat \<Rightarrow> rat list result" where
  "read_turn_priority m n = (case m ''turn_base_priority'' of
       None \<Rightarrow> Inr (replicate n 1)
     | Some raw \<Rightarrow> (case as_array32 raw of
          Inl x \<Rightarrow> (if isfinite x then Inr (replicate n (finite_part x))
                    else Inl (OutOfModel ''turn_base_priority''))
        | Inr xs \<Rightarrow>
            if length xs \<noteq> n
            then Inl (ValueError ''turn_base_priority must be scalar or shape (n,)'')
            else if list_all isfinite xs then Inr (map finite_part xs)
            else Inl (OutOfModel ''turn_base_priority'')))"

definition read_turn_forbidden :: "metadata \<Rightarrow> nat \<Rightarrow> bool list result" where
  "read_turn_forbidden m n = (case m ''turn_is_forbidden'' of
       None \<Rightarrow> Inr (replicate n False)
     | Some raw \<Rightarrow> (case as_array_bool raw of
          Inl x \<Rightarrow> Inr (replicate n x)
        | Inr xs \<Rightarrow>
            if length xs \<noteq> n
            then Inl (ValueError ''turn_is_forbidden must be scalar or shape (n,)'')
            else Inr xs))"

definition read_link_base_travel_time :: "link_state \<Rightarrow> rat list result" where
  "read_link_base_travel_time ls = (case link_metadata ls ''free_flow_travel_time_cost'' of
       None \<Rightarrow> Inr (travel_time_cost ls)
     | Some raw \<Rightarrow> (case as_array32 raw of
          Inl x \<Rightarrow> (if isfinite x then Inr (replicate (link_count ls) (finite_part x))
                    else Inl (OutOfModel ''free_flow_travel_time_cost''))
        | Inr xs \<Rightarrow>
            if length xs \<noteq> link_count ls
            then Inl (ValueError ''free_flow_travel_time_cost must be scalar or shape (n,)'')
            else if list_all isfinite xs then Inr (map finite_part xs)
            else Inl (OutOfModel ''free_flow_travel_time_cost'')))"

section \<open>Validation\<close>

definition flow_backends :: "string list" where
  "flow_backends = [''baseline'', ''rust_cpu'', ''auto'']"

definition validate_flow_backend :: "string \<Rightarrow> unit result" where
  "validate_flow_backend b =
     checks [(b \<notin> set flow_backends, ''flow_backend must be one of: baseline, rust_cpu, auto.'')]"

definition index_checks :: "int list \<Rightarrow> int list \<Rightarrow> nat \<Rightarrow> (bool \<times> string) list" where
  "index_checks f t n = [
     ((\<exists>i \<in> set f. i < 0) \<or> (\<exists>i \<in> set f. int n \<le> i),
        ''turn_from_link_index contains out-of-range link indices''),
     ((\<exists>i \<in> set t. i < 0) \<or> (\<exists>i \<in> set t. int n \<le> i),
        ''turn_to_link_index contains out-of-range link indices'')]"

definition validate_turn_index_ranges :: "node_state \<Rightarrow> nat \<Rightarrow> unit result" where
  "validate_turn_index_ranges ns n =
     bindE (checks [(n = 0 \<and> 0 < turn_count ns, ''NodeState turns require non-empty LinkState'')])
       (\<lambda>_. if turn_count ns = 0 then Inr ()
             else checks (index_checks (turn_from_link_index ns) (turn_to_link_index ns) n))"

definition validate_flow_core :: "flow_inputs \<Rightarrow> unit result" where
  "validate_flow_core fi =
     (let n = length (fi_queue fi); k = length (fi_demand fi) in
      bindE (checks [
        (length (fi_capacity fi) \<noteq> n, ''effective_capacity_vehicles must have shape (n,)''),
        (length (fi_base fi) \<noteq> n, ''base_travel_time_cost must have shape (n,)''),
        (length (fi_from fi) \<noteq> k, ''turn_from_link_index must have shape (k,)''),
        (length (fi_to fi) \<noteq> k, ''turn_to_link_index must have shape (k,)''),
        (length (fi_priority fi) \<noteq> k, ''turn_priority must have shape (k,)''),
        (length (fi_forbidden fi) \<noteq> k, ''turn_is_forbidden must have shape (k,)'')])
      (\<lambda>_. if k = 0 then Inr ()
            else checks ((n = 0, ''turn arrays require non-empty link arrays'')
              # index_checks (fi_from fi) (fi_to fi) n)))"

section \<open>The NumPy core\<close>

definition weighted_demand :: "flow_inputs \<Rightarrow> rat list" where
  "weighted_demand fi =
     map2 (\<lambda>d (p, forb). if 0 < d then r32 (d * (if forb then 0 else max p 0)) else 0)
       (fi_demand fi) (zip (fi_priority fi) (fi_forbidden fi))"

definition shares :: "rat list \<Rightarrow> nat list \<Rightarrow> nat \<Rightarrow> rat list" where
  "shares w idx n =
     (let total = segment_sum w idx n in
      map2 (\<lambda>x i. if 0 < total ! i then r32 (x / total ! i) else 0) w idx)"

definition turn_supplies :: "flow_inputs \<Rightarrow> rat list" where
  "turn_supplies fi =
     (let n = length (fi_queue fi); f = map nat (fi_from fi); t = map nat (fi_to fi);
          w = weighted_demand fi; avail = map2 min (fi_queue fi) (fi_capacity fi)
      in map2 min
           (map2 (\<lambda>i s. r32 (avail ! i * s)) f (shares w f n))
           (map2 (\<lambda>i s. r32 (fi_capacity fi ! i * s)) t (shares w t n)))"

definition turn_flows :: "flow_inputs \<Rightarrow> rat list" where
  "turn_flows fi =
     map2 (\<lambda>forb (d, s). if forb then 0 else min d s)
       (fi_forbidden fi) (zip (fi_demand fi) (turn_supplies fi))"

definition queue_update :: "rat list \<Rightarrow> rat list \<Rightarrow> rat list \<Rightarrow> rat list" where
  "queue_update q out inn = map2 (\<lambda>q (ou, i). max 0 (r32 (r32 (q - ou) + i))) q (zip out inn)"

definition numpy_flow_core :: "flow_inputs \<Rightarrow> flow_arrays" where
  "numpy_flow_core fi =
     (let n = length (fi_queue fi); k = length (fi_demand fi);
          zn = replicate n 0; zk = replicate k 0; timer = map (\<lambda>t. t + 1) (fi_timer fi)
      in if n = 0 then
        \<lparr>turn_demand_next = fi_demand fi, turn_supply_next = zk, turn_flow_next = zk,
         inflow_vehicles_next = zn, outflow_vehicles_next = zn, queue_vehicles_next = zn,
         travel_time_cost_next = update_travel_time_cost (fi_base fi) zn zn,
         capacity_violation_flags_next = [], signal_phase_timer_next = timer\<rparr>
      else if k = 0 then
        \<lparr>turn_demand_next = fi_demand fi, turn_supply_next = zk, turn_flow_next = zk,
         inflow_vehicles_next = zn, outflow_vehicles_next = zn,
         queue_vehicles_next = fi_queue fi,
         travel_time_cost_next =
           update_travel_time_cost (fi_base fi) (fi_queue fi) (fi_capacity fi),
         capacity_violation_flags_next = replicate n False, signal_phase_timer_next = timer\<rparr>
      else
       (let supply = turn_supplies fi; flow = turn_flows fi;
            out = segment_sum flow (map nat (fi_from fi)) n;
            inn = segment_sum flow (map nat (fi_to fi)) n;
            q = queue_update (fi_queue fi) out inn
        in \<lparr>turn_demand_next = fi_demand fi,
            turn_supply_next = map (\<lambda>s. max s 0) supply,
            turn_flow_next = map (\<lambda>s. max s 0) flow,
            inflow_vehicles_next = inn, outflow_vehicles_next = out, queue_vehicles_next = q,
            travel_time_cost_next = update_travel_time_cost (fi_base fi) q (fi_capacity fi),
            capacity_violation_flags_next =
              map2 (\<lambda>ou c. r32 (c + eps32) < ou) out (fi_capacity fi),
            signal_phase_timer_next = timer\<rparr>))"

section \<open>Backend dispatch\<close>

type_synonym rust_flow = "flow_inputs \<Rightarrow> flow_arrays result"

definition is_runtime_error :: "py_error \<Rightarrow> bool" where
  "is_runtime_error e = (case e of RuntimeError _ \<Rightarrow> True | _ \<Rightarrow> False)"

text \<open>The coercions at the head of \<^verbatim>\<open>compute_baseline_flow_arrays_core\<close>.\<close>

definition coerce_flow_inputs :: "flow_inputs \<Rightarrow> flow_inputs" where
  "coerce_flow_inputs fi =
     \<lparr>fi_queue = map (\<lambda>x. max (r32 x) 0) (fi_queue fi),
      fi_capacity = map (\<lambda>x. max (r32 x) 0) (fi_capacity fi),
      fi_from = fi_from fi, fi_to = fi_to fi,
      fi_demand = map (\<lambda>x. max (r32 x) 0) (fi_demand fi),
      fi_timer = fi_timer fi,
      fi_base = map (\<lambda>x. max (r32 x) milli32) (fi_base fi),
      fi_priority = map (\<lambda>x. max (r32 x) 0) (fi_priority fi),
      fi_forbidden = fi_forbidden fi\<rparr>"

definition compute_baseline_flow_arrays_core ::
    "rust_flow \<Rightarrow> string \<Rightarrow> flow_inputs \<Rightarrow> flow_arrays result" where
  "compute_baseline_flow_arrays_core rust backend raw =
     bindE (validate_flow_backend backend) (\<lambda>_.
       let fi = coerce_flow_inputs raw in
       bindE (validate_flow_core fi) (\<lambda>_.
         if backend = ''rust_cpu'' \<or> backend = ''auto'' then
           (case rust fi of
              Inr a \<Rightarrow> Inr a
            | Inl e \<Rightarrow> if is_runtime_error e \<and> backend \<noteq> ''rust_cpu''
                        then Inr (numpy_flow_core fi) else Inl e)
         else Inr (numpy_flow_core fi)))"

definition flow_inputs_of :: "link_state \<Rightarrow> node_state \<Rightarrow> rat list \<Rightarrow> rat list \<Rightarrow> bool list \<Rightarrow>
    flow_inputs" where
  "flow_inputs_of ls ns base prio forb =
     \<lparr>fi_queue = queue_vehicles ls, fi_capacity = effective_capacity_vehicles ls,
      fi_from = turn_from_link_index ns, fi_to = turn_to_link_index ns,
      fi_demand = map (\<lambda>x. max (r32 x) 0) (turn_demand ns),
      fi_timer = signal_phase_timer ns, fi_base = base, fi_priority = prio,
      fi_forbidden = forb\<rparr>"

text \<open>The result pairs the arrays with the entry \<^verbatim>\<open>base_travel_time_cost\<close>.\<close>

definition compute_baseline_flow_arrays ::
    "rust_flow \<Rightarrow> string \<Rightarrow> link_state \<Rightarrow> node_state \<Rightarrow> (flow_arrays \<times> rat list) result" where
  "compute_baseline_flow_arrays rust backend ls ns =
     bindE (checks [(link_count ls = 0 \<and> 0 < turn_count ns,
                     ''NodeState turns require non-empty LinkState'')]) (\<lambda>_.
     bindE (read_turn_priority (node_metadata ns) (turn_count ns)) (\<lambda>prio.
     bindE (read_turn_forbidden (node_metadata ns) (turn_count ns)) (\<lambda>forb.
     bindE (read_link_base_travel_time ls) (\<lambda>base.
     bindE (compute_baseline_flow_arrays_core rust backend
              (flow_inputs_of ls ns base prio forb)) (\<lambda>arrays.
       Inr (arrays, base))))))"

section \<open>Well-formed inputs of the core\<close>

definition wf_inputs :: "flow_inputs \<Rightarrow> bool" where
  "wf_inputs fi \<longleftrightarrow>
     (let n = length (fi_queue fi); k = length (fi_demand fi) in
       length (fi_capacity fi) = n \<and> length (fi_base fi) = n \<and>
       length (fi_from fi) = k \<and> length (fi_to fi) = k \<and>
       length (fi_priority fi) = k \<and> length (fi_forbidden fi) = k \<and>
       (\<forall>i \<in> set (fi_from fi) \<union> set (fi_to fi). 0 \<le> i \<and> i < int n)) \<and>
     (\<forall>x \<in> set (fi_queue fi). is_f32 x \<and> 0 \<le> x) \<and>
     (\<forall>x \<in> set (fi_capacity fi). is_f32 x \<and> 0 \<le> x) \<and>
     (\<forall>x \<in> set (fi_demand fi). is_f32 x \<and> 0 \<le> x) \<and>
     (\<forall>x \<in> set (fi_base fi). is_f32 x \<and> 0 < x) \<and>
     (\<forall>x \<in> set (fi_priority fi). is_f32 x \<and> 0 \<le> x)"

lemma milli32_pos: "0 < milli32" and milli32_f32: "is_f32 milli32"
  by (simp_all add: milli32_def) (simp add: float_eval)

lemma coerce_flow_inputs_wf:
  assumes "validate_flow_core (coerce_flow_inputs raw) = Inr u"
  shows "wf_inputs (coerce_flow_inputs raw)"
proof -
  have [simp]: "is_f32 (max (r32 x) 0)" "is_f32 (max (r32 x) milli32)" "0 < max (r32 x) milli32"
    for x using milli32_pos milli32_f32 by (simp_all add: is_f32_max less_max_iff_disj)
  show ?thesis
    using assms
    by (auto simp: wf_inputs_def validate_flow_core_def index_checks_def check_simps Let_def
        coerce_flow_inputs_def linorder_not_less linorder_not_le split: if_splits)
qed

lemma input_lengths:
  assumes "wf_inputs fi"
  shows "length (fi_capacity fi) = length (fi_queue fi)"
    "length (fi_base fi) = length (fi_queue fi)"
    "length (fi_from fi) = length (fi_demand fi)" "length (fi_to fi) = length (fi_demand fi)"
    "length (fi_priority fi) = length (fi_demand fi)"
    "length (fi_forbidden fi) = length (fi_demand fi)"
  using assms by (simp_all add: wf_inputs_def Let_def)

lemma turn_index_range:
  assumes "wf_inputs fi" "k < length (fi_demand fi)"
  shows "nat (fi_from fi ! k) < length (fi_queue fi)" "nat (fi_to fi ! k) < length (fi_queue fi)"
proof -
  have "fi_from fi ! k \<in> set (fi_from fi)" "fi_to fi ! k \<in> set (fi_to fi)"
    using assms(2) input_lengths[OF assms(1)] by simp_all
  then show "nat (fi_from fi ! k) < length (fi_queue fi)" "nat (fi_to fi ! k) < length (fi_queue fi)"
    using assms(1) by (simp_all add: wf_inputs_def Let_def nat_less_iff)
qed

lemma input_nth:
  assumes "wf_inputs fi"
  shows "i < length (fi_queue fi) \<Longrightarrow> is_f32 (fi_queue fi ! i) \<and> 0 \<le> fi_queue fi ! i"
    and "i < length (fi_queue fi) \<Longrightarrow> is_f32 (fi_capacity fi ! i) \<and> 0 \<le> fi_capacity fi ! i"
    and "k < length (fi_demand fi) \<Longrightarrow> is_f32 (fi_demand fi ! k) \<and> 0 \<le> fi_demand fi ! k"
    and "k < length (fi_demand fi) \<Longrightarrow> is_f32 (fi_priority fi ! k) \<and> 0 \<le> fi_priority fi ! k"
  using assms input_lengths[OF assms] nth_mem[of i "fi_capacity fi"]
    nth_mem[of k "fi_priority fi"] by (simp_all add: wf_inputs_def)

lemma weighted_length [simp]:
  "wf_inputs fi \<Longrightarrow> length (weighted_demand fi) = length (fi_demand fi)"
  by (simp add: weighted_demand_def input_lengths)

lemma weighted_member:
  assumes "wf_inputs fi" "w \<in> set (weighted_demand fi)" shows "0 \<le> w \<and> is_f32 w"
proof -
  obtain k where k: "k < length (fi_demand fi)" and "w = weighted_demand fi ! k"
    using assms by (metis in_set_conv_nth weighted_length)
  then show ?thesis using assms(1) input_nth(3,4)[OF assms(1) k] input_lengths[OF assms(1)]
    by (simp add: weighted_demand_def f32.rd_nonneg)
qed

lemma share_bounds:
  assumes "wf_inputs fi" "length idx = length (fi_demand fi)" "k < length (fi_demand fi)"
    "idx ! k < n"
  shows "0 \<le> shares (weighted_demand fi) idx n ! k"
    and "shares (weighted_demand fi) idx n ! k \<le> 1"
proof -
  let ?w = "weighted_demand fi" and ?T = "segment_sum (weighted_demand fi) idx n"
  have le: "?w ! k \<le> ?T ! (idx ! k)"
    using assms weighted_member by (intro segment_sum_ge) simp_all
  have "0 \<le> ?w ! k" using weighted_member assms by simp
  moreover have "shares ?w idx n ! k
      = (if 0 < ?T ! (idx ! k) then r32 (?w ! k / ?T ! (idx ! k)) else 0)"
    using assms by (simp add: shares_def Let_def)
  ultimately show "0 \<le> shares ?w idx n ! k" and "shares ?w idx n ! k \<le> 1"
    using le by (simp_all add: f32.rd_nonneg f32.rd_div_le_1)
qed

lemma shares_length [simp]:
  "wf_inputs fi \<Longrightarrow> length idx = length (fi_demand fi) \<Longrightarrow>
   length (shares (weighted_demand fi) idx n) = length (fi_demand fi)"
  by (simp add: shares_def Let_def)

lemma supply_length [simp]:
  "wf_inputs fi \<Longrightarrow> length (turn_supplies fi) = length (fi_demand fi)"
  by (simp add: turn_supplies_def Let_def input_lengths)

lemma flow_length [simp]: "wf_inputs fi \<Longrightarrow> length (turn_flows fi) = length (fi_demand fi)"
  by (simp add: turn_flows_def input_lengths)

text \<open>A turn's supply never exceeds what waits on its source, what the source can send, or
  what the target can receive.\<close>

lemma supply_bounds:
  assumes "wf_inputs fi" "k < length (fi_demand fi)"
  defines "f \<equiv> nat (fi_from fi ! k)" and "t \<equiv> nat (fi_to fi ! k)"
  shows "is_f32 (turn_supplies fi ! k)" "0 \<le> turn_supplies fi ! k"
    "turn_supplies fi ! k \<le> fi_queue fi ! f" "turn_supplies fi ! k \<le> fi_capacity fi ! f"
    "turn_supplies fi ! k \<le> fi_capacity fi ! t"
proof -
  let ?n = "length (fi_queue fi)" and ?w = "weighted_demand fi"
  let ?F = "map nat (fi_from fi)" and ?T = "map nat (fi_to fi)"
  let ?a = "min (fi_queue fi ! f) (fi_capacity fi ! f)"
  let ?sf = "shares ?w ?F ?n ! k" and ?st = "shares ?w ?T ?n ! k"
  note len = input_lengths[OF assms(1)]
  have fn: "f < ?n" and tn: "t < ?n"
    using turn_index_range[OF assms(1,2)] by (simp_all add: f_def t_def)
  have eq: "turn_supplies fi ! k = min (r32 (?a * ?sf)) (r32 (fi_capacity fi ! t * ?st))"
    using assms(1,2) fn tn len
    by (simp add: turn_supplies_def Let_def f_def t_def)
  have sf: "0 \<le> ?sf" "?sf \<le> 1"
    by (rule share_bounds; use assms(1,2) fn len f_def in simp)+
  have st: "0 \<le> ?st" "?st \<le> 1"
    by (rule share_bounds; use assms(1,2) tn len t_def in simp)+
  have a: "is_f32 ?a" "0 \<le> ?a"
    using input_nth(1,2)[OF assms(1) fn] by (simp_all add: is_f32_min)
  have c: "is_f32 (fi_capacity fi ! t)" "0 \<le> fi_capacity fi ! t"
    using input_nth(2)[OF assms(1) tn] by simp_all
  have lea: "r32 (?a * ?sf) \<le> ?a"
    using a sf by (intro f32.rd_mult_share_le) simp_all
  have lec: "r32 (fi_capacity fi ! t * ?st) \<le> fi_capacity fi ! t"
    using c st by (intro f32.rd_mult_share_le) simp_all
  show "is_f32 (turn_supplies fi ! k)" by (simp add: eq is_f32_min)
  show "0 \<le> turn_supplies fi ! k" using a c sf st by (simp add: eq f32.rd_nonneg)
  show "turn_supplies fi ! k \<le> fi_queue fi ! f" "turn_supplies fi ! k \<le> fi_capacity fi ! f"
    "turn_supplies fi ! k \<le> fi_capacity fi ! t"
    unfolding eq using lea lec by linarith+
qed

lemma flow_nth:
  assumes "wf_inputs fi" "k < length (fi_demand fi)"
  shows "turn_flows fi ! k
    = (if fi_forbidden fi ! k then 0 else min (fi_demand fi ! k) (turn_supplies fi ! k))"
  using assms by (simp add: turn_flows_def input_lengths)

lemma flow_bounds:
  assumes "wf_inputs fi" "k < length (fi_demand fi)"
  shows "is_f32 (turn_flows fi ! k)" "0 \<le> turn_flows fi ! k"
    "turn_flows fi ! k \<le> fi_demand fi ! k" "turn_flows fi ! k \<le> turn_supplies fi ! k"
  using assms input_nth(3)[OF assms] supply_bounds(1,2)[OF assms]
  by (simp_all add: flow_nth is_f32_min)

lemma flow_member: "wf_inputs fi \<Longrightarrow> x \<in> set (turn_flows fi) \<Longrightarrow> 0 \<le> x \<and> is_f32 x"
  using flow_bounds(1,2) by (metis in_set_conv_nth flow_length)

lemma queue_update_length [simp]:
  "length out = length q \<Longrightarrow> length inn = length q \<Longrightarrow> length (queue_update q out inn) = length q"
  by (simp add: queue_update_def)

lemma queue_update_nonneg: "x \<in> set (queue_update q out inn) \<Longrightarrow> is_f32 x \<and> 0 \<le> x"
  by (auto simp: queue_update_def intro!: is_f32_max)

text \<open>The congested travel time is at least the free-flow time.\<close>

lemma travel_time_nth:
  assumes "length q = length base" "length cap = length base" "i < length base"
  shows "r32 (base ! i) \<le> update_travel_time_cost base q cap ! i"
    and "0 < update_travel_time_cost base q cap ! i"
    and "is_f32 (update_travel_time_cost base q cap ! i)"
proof -
  let ?b = "max (r32 (base ! i)) milli32"
  have b: "is_f32 ?b" "0 < ?b" using milli32_pos milli32_f32 by (simp_all add: is_f32_max)
  have eq: "update_travel_time_cost base q cap ! i
      = r32 (?b + r32 (max (r32 (q ! i)) 0 / max (r32 (cap ! i)) milli32))"
    using assms by (simp add: update_travel_time_cost_def)
  have "0 < max (r32 (cap ! i)) milli32" using milli32_pos by (simp add: less_max_iff_disj)
  then have "0 \<le> r32 (max (r32 (q ! i)) 0 / max (r32 (cap ! i)) milli32)"
    by (intro f32.rd_nonneg divide_nonneg_pos) simp_all
  then have "?b \<le> update_travel_time_cost base q cap ! i"
    unfolding eq using b by (intro f32.rd_add_ge) simp_all
  then show "r32 (base ! i) \<le> update_travel_time_cost base q cap ! i"
    and "0 < update_travel_time_cost base q cap ! i" using b by linarith+
  show "is_f32 (update_travel_time_cost base q cap ! i)" by (simp add: eq)
qed

lemma travel_time_length:
  "length q = length base \<Longrightarrow> length cap = length base \<Longrightarrow>
   length (update_travel_time_cost base q cap) = length base"
  by (simp add: update_travel_time_cost_def)

end
