(* ===== verification/TokenScheduler.thy ===== *)
theory TokenScheduler
  imports Arrays
begin

text \<open>
  The deficit scheduler of the discrete-agent authority: the heap loop of
  \<^verbatim>\<open>_apply_discrete_agent_flow_authority\<close> (src/src/metroflow/flow/engine.py).  Movements
  (internal turns and final-link sinks) compete in one heap ordered by accrued credit; each
  pop serves at most one vehicle and charges the source's service tokens, its vehicles, and
  for a turn the target's receiving tokens.  The lemmas show that the loop stops, never
  indexes out of range, never overdraws a budget, accounts for every token, and leaves no
  movement unserved that could still be served.
\<close>

section \<open>Heap entries\<close>

text \<open>\<^verbatim>\<open>(-credit, class, index)\<close> with class 0 for a sink and 1 for a turn, ordered as the
  Python tuples are.\<close>

datatype movement = Movement (neg_credit: rat) (movement_class: nat) (movement_index: nat)

instantiation movement :: linorder
begin

definition less_eq_movement :: "movement \<Rightarrow> movement \<Rightarrow> bool" where
  "less_eq_movement a b \<longleftrightarrow> neg_credit a < neg_credit b \<or>
     neg_credit a = neg_credit b \<and>
       (movement_class a < movement_class b \<or>
        movement_class a = movement_class b \<and> movement_index a \<le> movement_index b)"

definition less_movement :: "movement \<Rightarrow> movement \<Rightarrow> bool" where
  "less_movement a b \<longleftrightarrow> neg_credit a < neg_credit b \<or>
     neg_credit a = neg_credit b \<and>
       (movement_class a < movement_class b \<or>
        movement_class a = movement_class b \<and> movement_index a < movement_index b)"

instance
  by standard (auto simp: less_eq_movement_def less_movement_def intro: movement.expand)

end

section \<open>The loop\<close>

record token_state =
  realized_turn :: "int list"
  sink_flow :: "int list"
  remaining_service :: "int list"
  remaining_receiving :: "int list"
  remaining_vehicles :: "int list"
  remaining_turn_demand :: "int list"
  remaining_sink_demand :: "int list"
  next_turn_credit :: "rat list"
  next_sink_credit :: "rat list"
  service_heap :: "movement list"

definition bump :: "int list \<Rightarrow> nat \<Rightarrow> int \<Rightarrow> int list" where
  "bump xs i d = xs[i := xs ! i + d]"

text \<open>The two guards of the loop body, also the conditions under which an entry is pushed
  back.\<close>

definition sink_servable :: "token_state \<Rightarrow> nat \<Rightarrow> bool" where
  "sink_servable st s \<longleftrightarrow> 0 < remaining_sink_demand st ! s \<and> 0 < remaining_service st ! s \<and>
     0 < remaining_vehicles st ! s"

definition turn_servable :: "nat list \<Rightarrow> nat list \<Rightarrow> token_state \<Rightarrow> nat \<Rightarrow> bool" where
  "turn_servable f t st k \<longleftrightarrow> 0 < remaining_turn_demand st ! k \<and>
     0 < remaining_service st ! (f ! k) \<and> 0 < remaining_vehicles st ! (f ! k) \<and>
     0 < remaining_receiving st ! (t ! k)"

definition charge_sink :: "nat \<Rightarrow> token_state \<Rightarrow> token_state" where
  "charge_sink s st = st
     \<lparr>sink_flow := bump (sink_flow st) s 1,
      remaining_sink_demand := bump (remaining_sink_demand st) s (- 1),
      remaining_service := bump (remaining_service st) s (- 1),
      remaining_vehicles := bump (remaining_vehicles st) s (- 1),
      next_sink_credit := (next_sink_credit st)[s := r64 (next_sink_credit st ! s - 1)]\<rparr>"

definition charge_turn :: "nat list \<Rightarrow> nat list \<Rightarrow> nat \<Rightarrow> token_state \<Rightarrow> token_state" where
  "charge_turn f t k st = st
     \<lparr>realized_turn := bump (realized_turn st) k 1,
      remaining_turn_demand := bump (remaining_turn_demand st) k (- 1),
      remaining_service := bump (remaining_service st) (f ! k) (- 1),
      remaining_receiving := bump (remaining_receiving st) (t ! k) (- 1),
      remaining_vehicles := bump (remaining_vehicles st) (f ! k) (- 1),
      next_turn_credit := (next_turn_credit st)[k := r64 (next_turn_credit st ! k - 1)]\<rparr>"

definition push_sink :: "nat \<Rightarrow> token_state \<Rightarrow> token_state" where
  "push_sink s st = st\<lparr>service_heap :=
     heap_push (Movement (- (next_sink_credit st ! s)) 0 s) (service_heap st)\<rparr>"

definition push_turn :: "nat \<Rightarrow> token_state \<Rightarrow> token_state" where
  "push_turn k st = st\<lparr>service_heap :=
     heap_push (Movement (- (next_turn_credit st ! k)) 1 k) (service_heap st)\<rparr>"

definition serve_sink :: "nat \<Rightarrow> token_state \<Rightarrow> token_state result" where
  "serve_sink s st =
     (if length (remaining_sink_demand st) \<le> s then Inl (IndexError ''sink'')
      else if \<not> sink_servable st s then Inr st
      else let st' = charge_sink s st in
        Inr (if sink_servable st' s then push_sink s st' else st'))"

definition serve_turn :: "nat list \<Rightarrow> nat list \<Rightarrow> nat \<Rightarrow> token_state \<Rightarrow> token_state result" where
  "serve_turn f t k st =
     (if length (remaining_turn_demand st) \<le> k then Inl (IndexError ''turn'')
      else if \<not> turn_servable f t st k then Inr st
      else let st' = charge_turn f t k st in
        Inr (if turn_servable f t st' k then push_turn k st' else st'))"

definition serve_movement :: "nat list \<Rightarrow> nat list \<Rightarrow> movement \<Rightarrow> token_state \<Rightarrow> token_state result"
  where
  "serve_movement f t m st =
     (if movement_class m = 0 then serve_sink (movement_index m) st
      else serve_turn f t (movement_index m) st)"

text \<open>The work left: unmet demand plus pending heap entries.\<close>

definition demand_left :: "int list \<Rightarrow> nat" where
  "demand_left ds = sum_list (map nat ds)"

definition work :: "token_state \<Rightarrow> nat" where
  "work st = demand_left (remaining_sink_demand st) + demand_left (remaining_turn_demand st)
     + length (service_heap st)"

lemma bump_length [simp]: "length (bump xs i d) = length xs"
  by (simp add: bump_def)

lemma bump_nth: "i < length xs \<Longrightarrow> bump xs i d ! j = (if i = j then xs ! j + d else xs ! j)"
  by (simp add: bump_def nth_list_update)

lemma demand_left_bump:
  "i < length ds \<Longrightarrow> 0 < ds ! i \<Longrightarrow> Suc (demand_left (bump ds i (- 1))) = demand_left ds"
proof (induction ds arbitrary: i)
  case (Cons d ds)
  then show ?case by (cases i) (auto simp: demand_left_def bump_def)
qed simp

lemma serve_sink_work:
  "serve_sink s st = Inr st' \<Longrightarrow> work st' \<le> work st"
  using demand_left_bump[of s "remaining_sink_demand st"]
  by (auto simp: serve_sink_def Let_def work_def charge_sink_def push_sink_def sink_servable_def
      heap_push_def split: if_splits)

lemma serve_turn_work:
  "serve_turn f t k st = Inr st' \<Longrightarrow> work st' \<le> work st"
  using demand_left_bump[of k "remaining_turn_demand st"]
  by (auto simp: serve_turn_def Let_def work_def charge_turn_def push_turn_def turn_servable_def
      heap_push_def split: if_splits)

lemma serve_movement_work: "serve_movement f t m st = Inr st' \<Longrightarrow> work st' \<le> work st"
  by (auto simp: serve_movement_def serve_sink_work serve_turn_work split: if_splits)

function serve_loop :: "nat list \<Rightarrow> nat list \<Rightarrow> token_state \<Rightarrow> token_state result" where
  "serve_loop f t st = (case heap_pop (service_heap st) of
       None \<Rightarrow> Inr st
     | Some (m, h) \<Rightarrow> bindE (serve_movement f t m (st\<lparr>service_heap := h\<rparr>)) (serve_loop f t))"
  by pat_completeness auto
termination
proof (relation "measure (\<lambda>(f, t, st). work st)", simp, clarsimp)
  fix f t st m h st'
  assume pop: "heap_pop (service_heap st) = Some (m, h)"
    and "serve_movement f t m (st\<lparr>service_heap := h\<rparr>) = Inr st'"
  then have "work st' \<le> work (st\<lparr>service_heap := h\<rparr>)" using serve_movement_work by blast
  also have "\<dots> < work st" using heapq.pop_size[OF pop] by (simp add: work_def)
  finally show "work st' < work st" .
qed

declare serve_loop.simps [simp del]

section \<open>Budgets\<close>

text \<open>What the loop starts from; the tokens, vehicles and demands are non-negative.\<close>

record token_budget =
  turn_source :: "nat list"
  turn_target :: "nat list"
  service_tokens :: "int list"
  receiving_tokens :: "int list"
  vehicles :: "int list"
  turn_demand_tokens :: "int list"
  sink_demand_tokens :: "int list"

definition wf_budget :: "token_budget \<Rightarrow> bool" where
  "wf_budget b \<longleftrightarrow>
     (let n = length (service_tokens b); k = length (turn_demand_tokens b) in
       length (receiving_tokens b) = n \<and> length (vehicles b) = n \<and>
       length (sink_demand_tokens b) = n \<and> length (turn_source b) = k \<and>
       length (turn_target b) = k \<and>
       (\<forall>i \<in> set (turn_source b). i < n) \<and> (\<forall>i \<in> set (turn_target b). i < n)) \<and>
     (\<forall>x \<in> set (service_tokens b) \<union> set (receiving_tokens b) \<union> set (vehicles b)
        \<union> set (turn_demand_tokens b) \<union> set (sink_demand_tokens b). 0 \<le> x)"

text \<open>The ledger: every remaining budget is what it was less what has been granted, and
  nothing is overdrawn.\<close>

definition ledger :: "token_budget \<Rightarrow> token_state \<Rightarrow> bool" where
  "ledger b st \<longleftrightarrow>
     (let n = length (service_tokens b); k = length (turn_demand_tokens b) in
       length (remaining_service st) = n \<and> length (remaining_receiving st) = n \<and>
       length (remaining_vehicles st) = n \<and> length (remaining_sink_demand st) = n \<and>
       length (sink_flow st) = n \<and> length (next_sink_credit st) = n \<and>
       length (remaining_turn_demand st) = k \<and> length (realized_turn st) = k \<and>
       length (next_turn_credit st) = k \<and>
       (\<forall>s < n.
          remaining_service st ! s = service_tokens b ! s - sink_flow st ! s
            - segment_total (realized_turn st) (turn_source b) s \<and>
          remaining_vehicles st ! s = vehicles b ! s - sink_flow st ! s
            - segment_total (realized_turn st) (turn_source b) s \<and>
          remaining_receiving st ! s = receiving_tokens b ! s
            - segment_total (realized_turn st) (turn_target b) s \<and>
          remaining_sink_demand st ! s = sink_demand_tokens b ! s - sink_flow st ! s \<and>
          0 \<le> remaining_service st ! s \<and> 0 \<le> remaining_vehicles st ! s \<and>
          0 \<le> remaining_receiving st ! s \<and> 0 \<le> remaining_sink_demand st ! s \<and>
          0 \<le> sink_flow st ! s) \<and>
       (\<forall>j < k.
          remaining_turn_demand st ! j = turn_demand_tokens b ! j - realized_turn st ! j \<and>
          0 \<le> remaining_turn_demand st ! j \<and> 0 \<le> realized_turn st ! j))"

text \<open>Pending entries are in range, and every movement that can still be served is pending.\<close>

definition pending :: "token_budget \<Rightarrow> nat set \<Rightarrow> nat set \<Rightarrow> token_state \<Rightarrow> bool" where
  "pending b turns sinks st \<longleftrightarrow> sorted (service_heap st) \<and>
     (\<forall>m \<in> set (service_heap st).
        (movement_class m = 0 \<longrightarrow> movement_index m < length (sink_demand_tokens b)) \<and>
        (movement_class m \<noteq> 0 \<longrightarrow> movement_index m < length (turn_demand_tokens b))) \<and>
     (\<forall>k \<in> turns. turn_servable (turn_source b) (turn_target b) st k \<longrightarrow>
        (\<exists>c. Movement c 1 k \<in> set (service_heap st))) \<and>
     (\<forall>s \<in> sinks. sink_servable st s \<longrightarrow> (\<exists>c. Movement c 0 s \<in> set (service_heap st)))"

lemma wf_budget_nth:
  assumes "wf_budget b" "k < length (turn_demand_tokens b)"
  shows "turn_source b ! k < length (service_tokens b)"
    "turn_target b ! k < length (service_tokens b)"
  using assms by (simp_all add: wf_budget_def Let_def)

lemma ledger_heap_update [simp]: "ledger b (st\<lparr>service_heap := h\<rparr>) = ledger b st"
  by (simp add: ledger_def)

lemma servable_heap_update [simp]:
  "sink_servable (st\<lparr>service_heap := h\<rparr>) s = sink_servable st s"
  "turn_servable f t (st\<lparr>service_heap := h\<rparr>) k = turn_servable f t st k"
  by (simp_all add: sink_servable_def turn_servable_def)

lemma charge_sink_ledger:
  assumes "ledger b st" "sink_servable st s" "s < length (service_tokens b)"
  shows "ledger b (charge_sink s st)"
  using assms unfolding ledger_def Let_def charge_sink_def sink_servable_def
  by (auto simp: bump_nth)

lemma charge_turn_ledger:
  assumes "wf_budget b" "ledger b st" "turn_servable (turn_source b) (turn_target b) st k"
    "k < length (turn_demand_tokens b)"
  shows "ledger b (charge_turn (turn_source b) (turn_target b) k st)"
proof -
  have len: "length (realized_turn st) = length (turn_demand_tokens b)"
    "length (turn_source b) = length (turn_demand_tokens b)"
    "length (turn_target b) = length (turn_demand_tokens b)"
    using assms(1,2) by (simp_all add: ledger_def wf_budget_def Let_def)
  have tot: "segment_total (bump (realized_turn st) k 1) idx j
      = segment_total (realized_turn st) idx j + (if idx ! k = j then 1 else 0)"
    if "length idx = length (turn_demand_tokens b)" for idx j
    unfolding bump_def using that assms(4) len by (intro segment_total_update) simp_all
  show ?thesis
    using assms(2,3,4) wf_budget_nth[OF assms(1,4)] len
    unfolding ledger_def Let_def charge_turn_def turn_servable_def
    by (auto simp: bump_nth tot)
qed

section \<open>The loop keeps the ledger and serves what it can\<close>

lemma bump_minus_le: "bump xs i (- 1) ! j \<le> xs ! j"
  by (cases "i < length xs") (auto simp: bump_def nth_list_update list_update_beyond)

lemma bump_minus_pos: "0 < bump xs i (- 1) ! j \<Longrightarrow> 0 < xs ! j"
  using bump_minus_le[of xs i j] by linarith

lemma charge_antitone:
  "sink_servable (charge_sink s st) i \<Longrightarrow> sink_servable st i"
  "turn_servable f t (charge_sink s st) k \<Longrightarrow> turn_servable f t st k"
  "sink_servable (charge_turn f t j st) i \<Longrightarrow> sink_servable st i"
  "turn_servable f t (charge_turn f t j st) k \<Longrightarrow> turn_servable f t st k"
  by (auto simp: sink_servable_def turn_servable_def charge_sink_def charge_turn_def
      dest: bump_minus_pos)

lemma charge_heap [simp]:
  "service_heap (charge_sink s st) = service_heap st"
  "service_heap (charge_turn f t k st) = service_heap st"
  by (simp_all add: charge_sink_def charge_turn_def)

text \<open>Popping an entry whose movement is exhausted keeps every servable movement pending.\<close>

lemma pending_pop:
  assumes "pending b turns sinks st" "heap_pop (service_heap st) = Some (m, h)"
    and "movement_class m = 0 \<Longrightarrow> \<not> sink_servable st (movement_index m)"
    and "movement_class m \<noteq> 0 \<Longrightarrow>
      \<not> turn_servable (turn_source b) (turn_target b) st (movement_index m)"
  shows "pending b turns sinks (st\<lparr>service_heap := h\<rparr>)"
  using assms heapq.pop_in[OF assms(2)] heapq.pop_invar[OF _ assms(2)]
  by (fastforce simp: pending_def)

text \<open>Serving an entry and pushing it back when it stays servable does so as well.\<close>

lemma pending_serve:
  assumes "pending b turns sinks st" "heap_pop (service_heap st) = Some (m, h)"
    and heap: "service_heap st' = h"
    and anti: "\<And>i. sink_servable st' i \<Longrightarrow> sink_servable st i"
      "\<And>k. turn_servable (turn_source b) (turn_target b) st' k \<Longrightarrow>
         turn_servable (turn_source b) (turn_target b) st k"
    and push: "st'' = (if servable then st'\<lparr>service_heap := heap_push (Movement c (movement_class m)
         (movement_index m)) h\<rparr> else st')"
    and ex: "\<not> servable \<Longrightarrow> movement_class m = 0 \<Longrightarrow> \<not> sink_servable st' (movement_index m)"
      "\<not> servable \<Longrightarrow> movement_class m \<noteq> 0 \<Longrightarrow>
         \<not> turn_servable (turn_source b) (turn_target b) st' (movement_index m)"
    and cls: "movement_class m \<le> 1"
  shows "pending b turns sinks st''"
proof -
  have split: "set (service_heap st) = insert m (set h)" and srt: "sorted h"
    using heapq.pop_in[OF assms(2)] heapq.pop_invar[OF _ assms(2)] assms(1)
    by (simp_all add: pending_def)
  have h'': "set (service_heap st'')
      = (if servable then insert (Movement c (movement_class m) (movement_index m)) (set h)
         else set h)" "sorted (service_heap st'')"
    using srt heap by (simp_all add: push heapq.entries_push heapq.invar_push)
  have serv: "sink_servable st'' i = sink_servable st' i"
    "turn_servable f t st'' k = turn_servable f t st' k" for i k f t
    by (simp_all add: push)
  have pt: "\<forall>k \<in> turns. turn_servable (turn_source b) (turn_target b) st k \<longrightarrow>
        (\<exists>c. Movement c 1 k \<in> insert m (set h))"
    and ps: "\<forall>s \<in> sinks. sink_servable st s \<longrightarrow> (\<exists>c. Movement c 0 s \<in> insert m (set h))"
    using assms(1) unfolding pending_def split by simp_all
  have turns: "\<exists>c. Movement c 1 k \<in> set (service_heap st'')"
    if k: "k \<in> turns" and sv: "turn_servable (turn_source b) (turn_target b) st' k" for k
  proof -
    obtain c' where c': "Movement c' 1 k \<in> insert m (set h)"
      using pt k anti(2)[OF sv] by blast
    show ?thesis
    proof (cases "Movement c' 1 k = m")
      case True
      then have "movement_class m = 1" "movement_index m = k" by auto
      then show ?thesis using sv ex(2) h''(1) by auto
    next
      case False
      then show ?thesis using c' h''(1) by auto
    qed
  qed
  have sinks: "\<exists>c. Movement c 0 i \<in> set (service_heap st'')"
    if i: "i \<in> sinks" and sv: "sink_servable st' i" for i
  proof -
    obtain c' where c': "Movement c' 0 i \<in> insert m (set h)"
      using ps i anti(1)[OF sv] by blast
    show ?thesis
    proof (cases "Movement c' 0 i = m")
      case True
      then have "movement_class m = 0" "movement_index m = i" by auto
      then show ?thesis using sv ex(1) h''(1) by auto
    next
      case False
      then show ?thesis using c' h''(1) by auto
    qed
  qed
  have rng: "\<forall>x \<in> insert m (set h).
      (movement_class x = 0 \<longrightarrow> movement_index x < length (sink_demand_tokens b)) \<and>
      (movement_class x \<noteq> 0 \<longrightarrow> movement_index x < length (turn_demand_tokens b))"
    using assms(1) split unfolding pending_def by simp
  have "\<forall>x \<in> set (service_heap st'').
      (movement_class x = 0 \<longrightarrow> movement_index x < length (sink_demand_tokens b)) \<and>
      (movement_class x \<noteq> 0 \<longrightarrow> movement_index x < length (turn_demand_tokens b))"
    using rng h''(1) by auto
  then show ?thesis using turns sinks h''(2) serv unfolding pending_def by blast
qed

lemma serve_step:
  assumes wf: "wf_budget b" and led: "ledger b st" and pen: "pending b turns sinks st"
    and pop: "heap_pop (service_heap st) = Some (m, h)" and cls: "movement_class m \<le> 1"
  shows "\<exists>st'. serve_movement (turn_source b) (turn_target b) m (st\<lparr>service_heap := h\<rparr>) = Inr st' \<and>
    ledger b st' \<and> pending b turns sinks st'"
proof -
  let ?f = "turn_source b" and ?t = "turn_target b" and ?st = "st\<lparr>service_heap := h\<rparr>"
  have m: "m \<in> set (service_heap st)" by (rule heapq.pop_member[OF pop])
  show ?thesis
  proof (cases "movement_class m = 0")
    case True
    let ?s = "movement_index m" and ?st' = "charge_sink (movement_index m) ?st"
    have s: "?s < length (sink_demand_tokens b)" using pen m True by (simp add: pending_def)
    then have len: "?s < length (remaining_sink_demand st)" "?s < length (service_tokens b)"
      using led wf by (simp_all add: ledger_def wf_budget_def Let_def)
    show ?thesis
    proof (cases "sink_servable st ?s")
      case False
      then show ?thesis using True len led pending_pop[OF pen pop]
        by (simp add: serve_movement_def serve_sink_def)
    next
      case sv: True
      let ?st'' = "if sink_servable ?st' ?s then push_sink ?s ?st' else ?st'"
      have anti: "sink_servable ?st' i \<Longrightarrow> sink_servable st i"
        "turn_servable ?f ?t ?st' k \<Longrightarrow> turn_servable ?f ?t st k" for i k
        using charge_antitone(1,2)[where st = ?st and s = ?s] by simp_all
      have "serve_movement ?f ?t m ?st = Inr ?st''"
        using True len sv by (simp add: serve_movement_def serve_sink_def Let_def)
      moreover have "ledger b ?st''"
        using charge_sink_ledger[of b ?st ?s] led sv len by (simp add: push_sink_def)
      moreover have "pending b turns sinks ?st''"
        by (rule pending_serve[OF pen pop, of ?st' _ "sink_servable ?st' ?s"
              "- (next_sink_credit ?st' ! ?s)"])
          (use True cls anti in \<open>simp_all add: push_sink_def\<close>)
      ultimately show ?thesis by blast
    qed
  next
    case False
    let ?k = "movement_index m" and ?st' = "charge_turn ?f ?t (movement_index m) ?st"
    have k: "?k < length (turn_demand_tokens b)" using pen m False by (simp add: pending_def)
    then have len: "?k < length (remaining_turn_demand st)"
      using led by (simp add: ledger_def Let_def)
    have c1: "movement_class m = 1" using False cls by simp
    show ?thesis
    proof (cases "turn_servable ?f ?t st ?k")
      case F2: False
      then show ?thesis using False len led pending_pop[OF pen pop]
        by (simp add: serve_movement_def serve_turn_def)
    next
      case sv: True
      let ?st'' = "if turn_servable ?f ?t ?st' ?k then push_turn ?k ?st' else ?st'"
      have anti: "sink_servable ?st' i \<Longrightarrow> sink_servable st i"
        "turn_servable ?f ?t ?st' k \<Longrightarrow> turn_servable ?f ?t st k" for i k
        using charge_antitone(3,4)[where st = ?st and j = ?k and f = ?f and t = ?t] by simp_all
      have "serve_movement ?f ?t m ?st = Inr ?st''"
        using False len sv by (simp add: serve_movement_def serve_turn_def Let_def)
      moreover have "ledger b ?st''"
        using charge_turn_ledger[of b ?st ?k] wf led sv k by (simp add: push_turn_def)
      moreover have "pending b turns sinks ?st''"
        by (rule pending_serve[OF pen pop, of ?st' _ "turn_servable ?f ?t ?st' ?k"
              "- (next_turn_credit ?st' ! ?k)"])
          (use c1 cls anti in \<open>simp_all add: push_turn_def\<close>)
      ultimately show ?thesis by blast
    qed
  qed
qed

text \<open>Every entry the loop creates has class 0 or 1.\<close>

definition class_ok :: "token_state \<Rightarrow> bool" where
  "class_ok st \<longleftrightarrow> (\<forall>m \<in> set (service_heap st). movement_class m \<le> 1)"

lemma serve_class_ok:
  assumes "class_ok st" "heap_pop (service_heap st) = Some (m, h)"
    and "serve_movement f t m (st\<lparr>service_heap := h\<rparr>) = Inr st'"
  shows "class_ok st'"
  using assms heapq.pop_in[OF assms(2)]
  by (auto simp: class_ok_def serve_movement_def serve_sink_def serve_turn_def Let_def
      push_sink_def push_turn_def heapq.entries_push split: if_splits)

theorem serve_loop_correct:
  assumes "wf_budget b" "ledger b st" "pending b turns sinks st" "class_ok st"
  shows "\<exists>st'. serve_loop (turn_source b) (turn_target b) st = Inr st' \<and> ledger b st' \<and>
    pending b turns sinks st' \<and> service_heap st' = []"
  using assms
proof (induction "work st" arbitrary: st rule: less_induct)
  case less
  let ?f = "turn_source b" and ?t = "turn_target b"
  show ?case
  proof (cases "heap_pop (service_heap st)")
    case None
    then have "service_heap st = []" by (cases "service_heap st") simp_all
    then show ?thesis using less.prems None by (subst serve_loop.simps) simp
  next
    case (Some mh)
    then obtain m h where pop: "heap_pop (service_heap st) = Some (m, h)" by (cases mh) simp
    have cls: "movement_class m \<le> 1"
      using less.prems(4) heapq.pop_member[OF pop] by (simp add: class_ok_def)
    obtain st1 where st1: "serve_movement ?f ?t m (st\<lparr>service_heap := h\<rparr>) = Inr st1"
      "ledger b st1" "pending b turns sinks st1"
      using serve_step[OF less.prems(1-3) pop cls] by blast
    have "work st1 \<le> work (st\<lparr>service_heap := h\<rparr>)" by (rule serve_movement_work[OF st1(1)])
    also have "\<dots> < work st" using heapq.pop_size[OF pop] by (simp add: work_def)
    finally have "work st1 < work st" .
    from less.hyps[OF this less.prems(1) st1(2,3) serve_class_ok[OF less.prems(4) pop st1(1)]]
    show ?thesis using st1(1) pop by (subst serve_loop.simps) simp
  qed
qed

section \<open>The start of the loop\<close>

text \<open>The heap is built from the eligible turns and the sinks with demand.\<close>

definition initial_heap :: "bool list \<Rightarrow> int list \<Rightarrow> rat list \<Rightarrow> rat list \<Rightarrow> movement list" where
  "initial_heap eligible sink_demand turn_credit sink_credit = heapify (
     map (\<lambda>k. Movement (- (turn_credit ! k)) 1 k) (filter (\<lambda>k. eligible ! k) [0..<length eligible])
     @ map (\<lambda>s. Movement (- (sink_credit ! s)) 0 s)
         (filter (\<lambda>s. 0 < sink_demand ! s) [0..<length sink_demand]))"

definition initial_token_state :: "token_budget \<Rightarrow> bool list \<Rightarrow> rat list \<Rightarrow> rat list \<Rightarrow> token_state" where
  "initial_token_state b eligible turn_credit sink_credit =
     \<lparr>realized_turn = replicate (length (turn_demand_tokens b)) 0,
      sink_flow = replicate (length (sink_demand_tokens b)) 0,
      remaining_service = service_tokens b, remaining_receiving = receiving_tokens b,
      remaining_vehicles = vehicles b, remaining_turn_demand = turn_demand_tokens b,
      remaining_sink_demand = sink_demand_tokens b,
      next_turn_credit = turn_credit, next_sink_credit = sink_credit,
      service_heap = initial_heap eligible (sink_demand_tokens b) turn_credit sink_credit\<rparr>"

definition eligible_turns :: "bool list \<Rightarrow> nat set" where
  "eligible_turns eligible = {k. k < length eligible \<and> eligible ! k}"

lemma initial_ledger:
  assumes "wf_budget b" "length tc = length (turn_demand_tokens b)"
    "length sc = length (sink_demand_tokens b)"
  shows "ledger b (initial_token_state b el tc sc)"
  using assms by (simp add: ledger_def wf_budget_def Let_def initial_token_state_def)

lemma initial_pending:
  assumes "wf_budget b" "length el = length (turn_demand_tokens b)"
  shows "pending b (eligible_turns el) {..<length (sink_demand_tokens b)}
    (initial_token_state b el tc sc)"
  using assms
  by (force simp: pending_def initial_token_state_def initial_heap_def eligible_turns_def
      sink_servable_def)

lemma initial_class_ok: "class_ok (initial_token_state b el tc sc)"
  by (auto simp: class_ok_def initial_token_state_def initial_heap_def)

definition schedule_tokens :: "token_budget \<Rightarrow> bool list \<Rightarrow> rat list \<Rightarrow> rat list \<Rightarrow>
    token_state result" where
  "schedule_tokens b eligible turn_credit sink_credit =
     serve_loop (turn_source b) (turn_target b)
       (initial_token_state b eligible turn_credit sink_credit)"

lemma schedule_tokens_correct:
  assumes "wf_budget b" "length el = length (turn_demand_tokens b)"
    "length tc = length (turn_demand_tokens b)" "length sc = length (sink_demand_tokens b)"
  shows "\<exists>st. schedule_tokens b el tc sc = Inr st \<and> ledger b st \<and> service_heap st = [] \<and>
    pending b (eligible_turns el) {..<length (sink_demand_tokens b)} st"
  using serve_loop_correct[OF assms(1) initial_ledger[OF assms(1,3,4)]
      initial_pending[OF assms(1,2)] initial_class_ok]
  unfolding schedule_tokens_def by blast

section \<open>Only eligible turns move\<close>

definition only_eligible :: "nat set \<Rightarrow> token_state \<Rightarrow> bool" where
  "only_eligible turns st \<longleftrightarrow>
     (\<forall>m \<in> set (service_heap st). movement_class m \<noteq> 0 \<longrightarrow> movement_index m \<in> turns) \<and>
     (\<forall>k < length (realized_turn st). k \<notin> turns \<longrightarrow> realized_turn st ! k = 0)"

lemma serve_only_eligible:
  assumes "only_eligible turns st" "heap_pop (service_heap st) = Some (m, h)"
    and "serve_movement f t m (st\<lparr>service_heap := h\<rparr>) = Inr st'"
  shows "only_eligible turns st'"
proof -
  have m: "movement_class m \<noteq> 0 \<longrightarrow> movement_index m \<in> turns"
    and h: "\<forall>m \<in> set h. movement_class m \<noteq> 0 \<longrightarrow> movement_index m \<in> turns"
    using assms(1) heapq.pop_member[OF assms(2)] heapq.pop_in[OF assms(2)]
    by (auto simp: only_eligible_def)
  show ?thesis
    using assms(1,3) m h
    by (auto simp: only_eligible_def serve_movement_def serve_sink_def serve_turn_def Let_def
        push_sink_def push_turn_def charge_sink_def charge_turn_def bump_def nth_update_if
        heapq.entries_push split: if_splits)
qed

lemma serve_loop_only_eligible:
  "serve_loop f t st = Inr st' \<Longrightarrow> only_eligible turns st \<Longrightarrow> only_eligible turns st'"
proof (induction "work st" arbitrary: st rule: less_induct)
  case less
  show ?case
  proof (cases "heap_pop (service_heap st)")
    case None
    then show ?thesis using less.prems by (subst (asm) serve_loop.simps) simp
  next
    case (Some mh)
    then obtain m h where pop: "heap_pop (service_heap st) = Some (m, h)" by (cases mh) simp
    then obtain st1 where st1: "serve_movement f t m (st\<lparr>service_heap := h\<rparr>) = Inr st1"
      "serve_loop f t st1 = Inr st'"
      using less.prems(1) by (subst (asm) serve_loop.simps) (auto simp: check_simps)
    have "work st1 \<le> work (st\<lparr>service_heap := h\<rparr>)" by (rule serve_movement_work[OF st1(1)])
    also have "\<dots> < work st" using heapq.pop_size[OF pop] by (simp add: work_def)
    finally show ?thesis
      using less.hyps st1 serve_only_eligible[OF less.prems(2) pop st1(1)] by blast
  qed
qed

lemma schedule_only_eligible:
  assumes "schedule_tokens b el tc sc = Inr st" "length el = length (turn_demand_tokens b)"
  shows "only_eligible (eligible_turns el) st"
proof (rule serve_loop_only_eligible[OF assms(1)[unfolded schedule_tokens_def]])
  show "only_eligible (eligible_turns el) (initial_token_state b el tc sc)"
    by (auto simp: only_eligible_def initial_token_state_def initial_heap_def eligible_turns_def)
qed

end
