(* ===== verification/TokenAuthority.thy ===== *)
theory TokenAuthority
  imports FlowEngine TokenScheduler
begin

text \<open>
  The discrete-agent authority \<^verbatim>\<open>_apply_discrete_agent_flow_authority\<close>
  (src/src/metroflow/flow/engine.py): fractional allocations become integer vehicle tokens.
  \<open>storage_views\<close> and \<open>read_prior\<close> are its argument and metadata checks, \<open>token_setup\<close> its
  accruals, \<open>schedule_tokens\<close> (theory TokenScheduler) its loop and \<open>finish_authority\<close> the
  arrays and metadata it returns.
\<close>

section \<open>Metadata vectors\<close>

definition micro64 :: rat where
  "micro64 = r64 (1 / 10 ^ 6)"

definition nano64 :: rat where
  "nano64 = r64 (1 / 10 ^ 9)"

definition near_one32 :: rat where
  "near_one32 = r32 (r64 (1 - micro64))"

datatype upper_bound = NoBound | AtMost rat | Below rat

fun above_bound :: "upper_bound \<Rightarrow> rat \<Rightarrow> bool" where
  "above_bound NoBound v = False"
| "above_bound (AtMost b) v = (r32 (r64 (b + micro64)) < v)"
| "above_bound (Below b) v = (b \<le> v)"

definition metadata_vector :: "metadata \<Rightarrow> string \<Rightarrow> nat \<Rightarrow> bool \<Rightarrow> bool \<Rightarrow> upper_bound \<Rightarrow>
    rat list result" where
  "metadata_vector m key n allow_negative required ub = (case m key of
       None \<Rightarrow> (if required then Inl (ValueError (key @ '' is required by prior discrete-agent authority''))
                else Inr (replicate n 0))
     | Some raw \<Rightarrow>
        bindE (case as_array32 raw of
                 Inl x \<Rightarrow> Inr (replicate n x)
               | Inr xs \<Rightarrow> if length xs = n then Inr xs
                          else Inl (ValueError (key @ '' must be scalar or shape (n,)'')))
          (\<lambda>vs. if \<not> list_all isfinite vs
             then Inl (ValueError (key @ '' must contain only finite values''))
             else let xs = map finite_part vs in
               bindE (checks [
                 (\<not> allow_negative \<and> (\<exists>x \<in> set xs. x < 0), key @ '' must be non-negative''),
                 (\<exists>x \<in> set xs. above_bound ub x, key @ '' exceeds its bound'')])
               (\<lambda>_. Inr xs)))"

lemma metadata_vector_length:
  "metadata_vector m key n neg req ub = Inr xs \<Longrightarrow> length xs = n"
  by (auto simp: metadata_vector_def check_simps Let_def split: option.splits if_splits sum.splits)

lemma metadata_vector_nonneg:
  "metadata_vector m key n False req ub = Inr xs \<Longrightarrow> x \<in> set xs \<Longrightarrow> 0 \<le> x"
  by (auto simp: metadata_vector_def check_simps Let_def linorder_not_less
      split: option.splits if_splits sum.splits)

lemma pf_r32_f32: "is_f32 (finite_part (pf_r32 x))"
  by (cases x) simp_all

lemma as_array32_f32:
  "as_array32 raw = Inl x \<Longrightarrow> is_f32 (finite_part x)"
  "as_array32 raw = Inr xs \<Longrightarrow> y \<in> set xs \<Longrightarrow> is_f32 (finite_part y)"
  by (cases raw; auto simp: pf_r32_f32)+

lemma metadata_vector_f32:
  "metadata_vector m key n neg req ub = Inr xs \<Longrightarrow> x \<in> set xs \<Longrightarrow> is_f32 x"
  by (auto simp: metadata_vector_def check_simps Let_def as_array32_f32
      split: option.splits if_splits sum.splits)

definition next_below_one32 :: rat where
  "next_below_one32 = 1 - 1 / 2 ^ 24"

definition unit_residual_float32 :: "rat list \<Rightarrow> rat list result" where
  "unit_residual_float32 vals =
     (let res = map (\<lambda>x. if \<bar>x\<bar> \<le> nano64 then 0 else x) vals in
      if (\<exists>x \<in> set res. x < 0) \<or> (\<exists>x \<in> set res. 1 \<le> x)
      then Inl (RuntimeError ''unit residual calculation escaped [0, 1)'')
      else Inr (map (\<lambda>x. min (r32 x) next_below_one32) res))"

section \<open>Prior authority\<close>

text \<open>\<^verbatim>\<open>int(metadata.get(key, 1))\<close>.\<close>

definition meta_version :: "metadata \<Rightarrow> int result" where
  "meta_version m = (case m ''runtime_token_authority_version'' of
       None \<Rightarrow> Inr 1
     | Some (MInt n) \<Rightarrow> Inr n
     | Some (MFlag b) \<Rightarrow> Inr (if b then 1 else 0)
     | Some (MScalar (Fin x)) \<Rightarrow> Inr (if x < 0 then - \<lfloor>- x\<rfloor> else \<lfloor>x\<rfloor>)
     | Some (MScalar NaN) \<Rightarrow> Inl (ValueError ''cannot convert float NaN to integer'')
     | Some (MScalar _) \<Rightarrow> Inl (OverflowError ''cannot convert float infinity to integer'')
     | Some (MVector _) \<Rightarrow> Inl (TypeError ''only length-1 arrays can be converted''))"

record prior_authority =
  prior_turn_credit :: "rat list"
  prior_service_credit :: "rat list"
  prior_receiving_credit :: "rat list"
  prior_sink_credit :: "rat list"
  prior_service_carry :: "rat list"
  prior_receiving_carry :: "rat list"
  sink_demand :: "int list"

definition integral_tokens :: "rat list \<Rightarrow> bool" where
  "integral_tokens xs \<longleftrightarrow> (\<forall>x \<in> set xs. \<bar>r32 (x - rint x)\<bar> \<le> eps32)"

definition read_carries :: "link_state \<Rightarrow> node_state \<Rightarrow> (rat list \<times> rat list) result" where
  "read_carries ls ns =
     (let n = link_count ls; lm = link_metadata ls; nm = node_metadata ns in
      bindE (meta_version lm) (\<lambda>ver.
      bindE (metadata_vector lm ''runtime_link_service_token_carry'' n False (2 \<le> ver) (AtMost 1)) (\<lambda>sc.
      bindE (metadata_vector lm ''runtime_link_receiving_token_carry'' n False (2 \<le> ver) (AtMost 1)) (\<lambda>rc.
      bindE (metadata_vector lm ''runtime_link_service_tokens'' n False True NoBound) (\<lambda>st.
      bindE (metadata_vector lm ''runtime_link_receiving_tokens'' n False True NoBound) (\<lambda>rt.
      bindE (metadata_vector lm ''runtime_sink_flow_vehicles'' n False True NoBound) (\<lambda>lsf.
      bindE (metadata_vector nm ''runtime_sink_flow_by_link_index'' n False True NoBound) (\<lambda>nsf.
      bindE (checks [
         (\<not> integral_tokens sc, ''runtime_link_service_token_carry must contain integer vehicle tokens''),
         (\<not> integral_tokens rc, ''runtime_link_receiving_token_carry must contain integer vehicle tokens''),
         (\<not> integral_tokens st, ''runtime_link_service_tokens must contain integer vehicle tokens''),
         (\<not> integral_tokens rt, ''runtime_link_receiving_tokens must contain integer vehicle tokens''),
         (\<not> integral_tokens lsf, ''runtime_sink_flow_vehicles must contain integer vehicle tokens''),
         (\<not> integral_tokens nsf, ''runtime_sink_flow_by_link_index must contain integer vehicle tokens''),
         (lsf \<noteq> nsf, ''runtime link/node sink flow token metadata must match exactly'')])
      (\<lambda>_. Inr (sc, rc))))))))))"

definition read_prior :: "link_state \<Rightarrow> node_state \<Rightarrow> prior_authority result" where
  "read_prior ls ns =
     (let n = link_count ls; k = turn_count ns; lm = link_metadata ls; nm = node_metadata ns;
          prior = meta_flag lm ''runtime_discrete_agent_authority'' in
      bindE (metadata_vector nm ''runtime_turn_flow_residual'' k True prior NoBound) (\<lambda>tc.
      bindE (metadata_vector lm ''runtime_link_service_residual'' n False prior (Below 1)) (\<lambda>sv.
      bindE (metadata_vector lm ''runtime_link_receiving_residual'' n False prior (Below 1)) (\<lambda>rv.
      bindE (metadata_vector nm ''runtime_sink_flow_residual'' n True prior NoBound) (\<lambda>sk.
      bindE (if prior then read_carries ls ns else Inr (replicate n 0, replicate n 0)) (\<lambda>(sc, rc).
      bindE (metadata_vector nm ''runtime_sink_demand_by_link_index'' n False False NoBound) (\<lambda>sd.
      Inr \<lparr>prior_turn_credit = tc, prior_service_credit = sv, prior_receiving_credit = rv,
           prior_sink_credit = sk, prior_service_carry = sc, prior_receiving_carry = rc,
           sink_demand = map (\<lambda>x. \<lfloor>r32 (max x 0 + eps32)\<rfloor>) sd\<rparr>)))))))"

section \<open>Storage\<close>

text \<open>The storage capacity and the receiving space, when a storage bound is in force.\<close>

definition storage_views :: "link_state \<Rightarrow> pyfloat list option \<Rightarrow>
    (rat list \<times> rat list) option result" where
  "storage_views ls storage = (case storage of
       None \<Rightarrow> Inr None
     | Some raw \<Rightarrow>
        let sc = map pf_r32 raw; st = map finite_part sc;
            q = map (\<lambda>x. max x 0) (queue_vehicles ls) in
        bindE (checks [
          (length sc \<noteq> link_count ls, ''storage_capacity_vehicles shape mismatch''),
          (\<not> list_all isfinite sc \<or> (\<exists>x \<in> set st. x < 1),
             ''storage_capacity_vehicles must be finite and >= 1''),
          (\<exists>(x, s) \<in> set (zip q st). r32 (s + eps32) < x,
             ''link queue exceeds finite storage capacity'')])
        (\<lambda>_. Inr (Some (st, map2 (\<lambda>s x. max (r32 (s - x)) 0) st q))))"

section \<open>Accruing the tokens\<close>

record token_setup =
  su_queue :: "rat list"
  su_capacity :: "rat list"
  su_demand :: "rat list"
  su_fractional_flow :: "rat list"
  su_fractional_supply :: "rat list"
  su_eligible :: "bool list"
  su_budget :: token_budget
  su_turn_credit :: "rat list"
  su_sink_credit :: "rat list"
  su_service_credit :: "rat list"
  su_receiving_credit :: "rat list"
  su_service_carry_enabled :: "bool list"
  su_receiving_carry_enabled :: "bool list"

definition links_with_demand :: "nat \<Rightarrow> nat list \<Rightarrow> bool list \<Rightarrow> bool list" where
  "links_with_demand n idx eligible =
     map (\<lambda>i. \<exists>(j, e) \<in> set (zip idx eligible). e \<and> j = i) [0..<n]"

definition accrue :: "bool list \<Rightarrow> rat list \<Rightarrow> rat list \<Rightarrow> rat list" where
  "accrue has credit cap = map2 (\<lambda>h (c, e). if h then r64 (c + e) else 0) has (zip credit cap)"

definition whole_tokens :: "rat \<Rightarrow> int" where
  "whole_tokens a = \<lfloor>r64 (a + nano64)\<rfloor>"

definition add_carry :: "int list \<Rightarrow> bool list \<Rightarrow> rat list \<Rightarrow> int list" where
  "add_carry tokens enabled carry =
     map2 (\<lambda>t (e, c). t + (if e then rne c else 0)) tokens (zip enabled carry)"

text \<open>The split of a source's capacity between its turns and its sink.\<close>

definition internal_credit_budget :: "rat list \<Rightarrow> rat list \<Rightarrow> rat list \<Rightarrow> rat list \<Rightarrow> rat list" where
  "internal_credit_budget cap internal sink fractional =
     map2 (\<lambda>(e, i) (s, fr).
         min (if 0 < r64 (i + s) then r64 (r64 (e * i) / r64 (i + s)) else 0) fr)
       (zip cap internal) (zip sink fractional)"

definition sink_credit_budget :: "rat list \<Rightarrow> rat list \<Rightarrow> rat list \<Rightarrow> rat list" where
  "sink_credit_budget cap sink internal_budget =
     map2 (\<lambda>(e, s) ib. min s (max (r64 (e - ib)) 0)) (zip cap sink) internal_budget"

definition mask_by_space :: "rat list option \<Rightarrow> nat list \<Rightarrow> rat list \<Rightarrow> rat list" where
  "mask_by_space space to xs = (case space of
       None \<Rightarrow> xs
     | Some sp \<Rightarrow> map2 (\<lambda>j x. if near_one32 \<le> sp ! j then x else 0) to xs)"

definition token_setup :: "flow_arrays \<Rightarrow> link_state \<Rightarrow> node_state \<Rightarrow> prior_authority \<Rightarrow>
    (rat list \<times> rat list) option \<Rightarrow> token_setup" where
  "token_setup arrays ls ns prior storage =
     (let n = link_count ls; k = turn_count ns;
          f = map nat (turn_from_link_index ns); t = map nat (turn_to_link_index ns);
          queue = map (\<lambda>x. max x 0) (queue_vehicles ls);
          cap = map (\<lambda>x. max x 0) (effective_capacity_vehicles ls);
          demand = map (\<lambda>x. max x 0) (turn_demand ns);
          space = map_option snd storage;
          flow = mask_by_space space t (map (\<lambda>x. max x 0) (turn_flow_next arrays));
          supply = mask_by_space space t (map (\<lambda>x. max x 0) (turn_supply_next arrays));
          eligible = map2 (\<lambda>d fl. 0 < d \<and> 0 < fl) demand flow;
          sending = map2 (\<lambda>h s. h \<or> 0 < s) (links_with_demand n f eligible) (sink_demand prior);
          receiving = links_with_demand n t eligible;
          service_acc = accrue sending (prior_service_credit prior) cap;
          receiving_acc = accrue receiving (prior_receiving_credit prior) cap;
          service_en = map2 (\<lambda>h e. h \<and> 0 < e) sending cap;
          receiving_en = map2 (\<lambda>h e. h \<and> 0 < e) receiving cap;
          service = add_carry (map whole_tokens service_acc) service_en (prior_service_carry prior);
          receiving0 =
            add_carry (map whole_tokens receiving_acc) receiving_en (prior_receiving_carry prior);
          receiving_tok = (case space of None \<Rightarrow> receiving0
            | Some sp \<Rightarrow> map2 (\<lambda>r s. min r \<lfloor>r32 (s + eps32)\<rfloor>) receiving0 sp);
          internal = segment_sum (map2 (\<lambda>e d. if e then d else 0) eligible demand) f n;
          fractional = segment_sum flow f n;
          sinkf = map of_int (sink_demand prior);
          ib = internal_credit_budget cap internal sinkf fractional;
          sb = sink_credit_budget cap sinkf ib;
          incr = map2 (\<lambda>fl i. if 0 < fractional ! i then r64 (r64 (fl * ib ! i) / fractional ! i)
                              else 0) flow f
      in \<lparr>su_queue = queue, su_capacity = cap, su_demand = demand,
          su_fractional_flow = flow, su_fractional_supply = supply, su_eligible = eligible,
          su_budget = \<lparr>turn_source = f, turn_target = t, service_tokens = service,
             receiving_tokens = receiving_tok,
             vehicles = map (\<lambda>x. \<lfloor>r32 (x + eps32)\<rfloor>) queue,
             turn_demand_tokens = map (\<lambda>x. \<lfloor>r32 (x + eps32)\<rfloor>) demand,
             sink_demand_tokens = sink_demand prior\<rparr>,
          su_turn_credit = map2 (\<lambda>d (c, x). if 0 < d then r64 (c + x) else 0) demand
             (zip (prior_turn_credit prior) incr),
          su_sink_credit = map2 (\<lambda>s (c, x). if 0 < s then r64 (c + x) else 0) (sink_demand prior)
             (zip (prior_sink_credit prior) sb),
          su_service_credit = map (\<lambda>a. r64 (a - of_int (whole_tokens a))) service_acc,
          su_receiving_credit = map (\<lambda>a. r64 (a - of_int (whole_tokens a))) receiving_acc,
          su_service_carry_enabled = service_en, su_receiving_carry_enabled = receiving_en\<rparr>)"

section \<open>Committing the tokens\<close>

definition to_f32 :: "int list \<Rightarrow> rat list" where
  "to_f32 xs = map (\<lambda>x. r32 (of_int x)) xs"

definition committed_inflow :: "token_setup \<Rightarrow> token_state \<Rightarrow> rat list" where
  "committed_inflow su st =
     segment_sum (to_f32 (realized_turn st)) (turn_target (su_budget su)) (length (su_queue su))"

definition committed_outflow :: "token_setup \<Rightarrow> token_state \<Rightarrow> rat list" where
  "committed_outflow su st = map2 (\<lambda>a b. r32 (a + b))
     (segment_sum (to_f32 (realized_turn st)) (turn_source (su_budget su)) (length (su_queue su)))
     (to_f32 (sink_flow st))"

definition committed_queue :: "token_setup \<Rightarrow> token_state \<Rightarrow> rat list" where
  "committed_queue su st =
     queue_update (su_queue su) (committed_outflow su st) (committed_inflow su st)"

definition committed_flags :: "token_setup \<Rightarrow> token_state \<Rightarrow> bool list" where
  "committed_flags su st = map2 (\<lambda>(ou, s) (i, r). r32 (s + eps32) < ou \<or> r32 (r + eps32) < i)
     (zip (committed_outflow su st) (to_f32 (service_tokens (su_budget su))))
     (zip (committed_inflow su st) (to_f32 (receiving_tokens (su_budget su))))"

definition next_carry :: "bool list \<Rightarrow> int list \<Rightarrow> int list" where
  "next_carry enabled remaining = map2 (\<lambda>e r. if e then min r 1 else 0) enabled remaining"

definition spillback_blocked :: "token_setup \<Rightarrow> rat list option \<Rightarrow> nat" where
  "spillback_blocked su space = length (filter (\<lambda>(d, j). 0 < d \<and>
       (case space of None \<Rightarrow> False | Some sp \<Rightarrow> sp ! j < near_one32))
     (zip (su_demand su) (turn_target (su_budget su))))"

definition authority_link_metadata :: "token_setup \<Rightarrow> token_state \<Rightarrow> rat list \<Rightarrow> rat list \<Rightarrow>
    (rat list \<times> rat list) option \<Rightarrow> metadata" where
  "authority_link_metadata su st service_residual receiving_residual storage =
     (let n = length (su_queue su) in [
       ''runtime_discrete_agent_authority'' \<mapsto> MFlag True,
       ''runtime_token_authority_version'' \<mapsto> MInt 2,
       ''runtime_link_service_residual'' \<mapsto> fin_vector service_residual,
       ''runtime_link_service_token_carry'' \<mapsto>
         fin_vector (to_f32 (next_carry (su_service_carry_enabled su) (remaining_service st))),
       ''runtime_link_service_tokens'' \<mapsto> fin_vector (to_f32 (service_tokens (su_budget su))),
       ''runtime_link_receiving_residual'' \<mapsto> fin_vector receiving_residual,
       ''runtime_link_receiving_token_carry'' \<mapsto>
         fin_vector (to_f32 (next_carry (su_receiving_carry_enabled su) (remaining_receiving st))),
       ''runtime_link_receiving_tokens'' \<mapsto> fin_vector (to_f32 (receiving_tokens (su_budget su))),
       ''runtime_sink_flow_vehicles'' \<mapsto> fin_vector (to_f32 (sink_flow st)),
       ''runtime_storage_capacity_vehicles'' \<mapsto> fin_vector (case storage of
          None \<Rightarrow> replicate n 0 | Some s \<Rightarrow> fst s),
       ''runtime_receiving_space_vehicles'' \<mapsto> fin_vector (case storage of
          None \<Rightarrow> replicate n 0 | Some s \<Rightarrow> snd s),
       ''runtime_spillback_blocked_turn_count'' \<mapsto>
         MInt (int (spillback_blocked su (map_option snd storage)))])"

definition authority_node_metadata :: "token_setup \<Rightarrow> token_state \<Rightarrow> metadata" where
  "authority_node_metadata su st = [
     ''runtime_fractional_turn_supply'' \<mapsto> fin_vector (su_fractional_supply su),
     ''runtime_fractional_turn_flow'' \<mapsto> fin_vector (su_fractional_flow su),
     ''runtime_turn_flow_residual'' \<mapsto> fin_vector (map r32 (next_turn_credit st)),
     ''runtime_sink_flow_residual'' \<mapsto> fin_vector (map r32 (next_sink_credit st)),
     ''runtime_sink_flow_by_link_index'' \<mapsto> fin_vector (to_f32 (sink_flow st))]"

definition finish_authority :: "flow_arrays \<Rightarrow> rat list \<Rightarrow> token_setup \<Rightarrow> token_state \<Rightarrow>
    (rat list \<times> rat list) option \<Rightarrow> (flow_arrays \<times> metadata \<times> metadata) result" where
  "finish_authority arrays base su st storage =
     (let queue = committed_queue su st in
      bindE (raise_if (case storage of None \<Rightarrow> False
               | Some (cap, _) \<Rightarrow> \<exists>(x, s) \<in> set (zip queue cap). r32 (s + eps32) < x)
             (RuntimeError ''spatial queue update exceeded finite link storage'')) (\<lambda>_.
      bindE (unit_residual_float32 (su_service_credit su)) (\<lambda>sr.
      bindE (unit_residual_float32 (su_receiving_credit su)) (\<lambda>rr.
      Inr (arrays
        \<lparr>turn_supply_next := to_f32 (realized_turn st), turn_flow_next := to_f32 (realized_turn st),
         inflow_vehicles_next := committed_inflow su st,
         outflow_vehicles_next := committed_outflow su st,
         queue_vehicles_next := queue,
         travel_time_cost_next := update_travel_time_cost base queue (su_capacity su),
         capacity_violation_flags_next := committed_flags su st\<rparr>,
        authority_link_metadata su st sr rr storage,
        authority_node_metadata su st)))))"

definition apply_discrete_agent_flow_authority ::
    "flow_arrays \<Rightarrow> rat list \<Rightarrow> link_state \<Rightarrow> node_state \<Rightarrow> pyfloat list option \<Rightarrow>
     (flow_arrays \<times> metadata \<times> metadata) result" where
  "apply_discrete_agent_flow_authority arrays base ls ns storage_arg =
     bindE (storage_views ls storage_arg) (\<lambda>storage.
     bindE (read_prior ls ns) (\<lambda>prior.
     let su = token_setup arrays ls ns prior storage in
     bindE (schedule_tokens (su_budget su) (su_eligible su) (su_turn_credit su) (su_sink_credit su))
       (\<lambda>st. finish_authority arrays base su st storage)))"

section \<open>The budgets are well-formed\<close>

definition turns_in_range :: "link_state \<Rightarrow> node_state \<Rightarrow> bool" where
  "turns_in_range ls ns \<longleftrightarrow>
     (\<forall>i \<in> set (turn_from_link_index ns) \<union> set (turn_to_link_index ns).
        0 \<le> i \<and> i < int (link_count ls))"

lemma validate_turn_index_ranges_iff:
  assumes "wf_node ns"
  shows "validate_turn_index_ranges ns (link_count ls) = Inr () \<longleftrightarrow> turns_in_range ls ns"
proof -
  have l: "length (turn_from_link_index ns) = turn_count ns"
    "length (turn_to_link_index ns) = turn_count ns"
    using assms by (simp_all add: wf_node_def Let_def)
  show ?thesis
  proof (cases "turn_count ns = 0")
    case True
    then show ?thesis using l
      by (simp add: validate_turn_index_ranges_def turns_in_range_def check_simps)
  next
    case False
    then obtain i where "i \<in> set (turn_from_link_index ns)"
      using l by (cases "turn_from_link_index ns") auto
    then show ?thesis using False
      by (fastforce simp: validate_turn_index_ranges_def turns_in_range_def index_checks_def
          check_simps linorder_not_less linorder_not_le)
  qed
qed

definition wf_prior :: "nat \<Rightarrow> nat \<Rightarrow> prior_authority \<Rightarrow> bool" where
  "wf_prior n k p \<longleftrightarrow>
     length (prior_turn_credit p) = k \<and> length (prior_service_credit p) = n \<and>
     length (prior_receiving_credit p) = n \<and> length (prior_sink_credit p) = n \<and>
     length (prior_service_carry p) = n \<and> length (prior_receiving_carry p) = n \<and>
     length (sink_demand p) = n \<and>
     (\<forall>x \<in> set (prior_service_credit p) \<union> set (prior_receiving_credit p)
        \<union> set (prior_service_carry p) \<union> set (prior_receiving_carry p). 0 \<le> x) \<and>
     (\<forall>x \<in> set (sink_demand p). 0 \<le> x)"

lemma eps32_nonneg: "0 \<le> eps32"
  by (simp add: eps32_def f32.rd_nonneg)

lemma nano64_nonneg: "0 \<le> nano64"
  by (simp add: nano64_def f64.rd_nonneg)

lemma plus_eps32_nonneg: "0 \<le> x \<Longrightarrow> 0 \<le> r32 (x + eps32)"
  using eps32_nonneg f32.rd_nonneg[of "x + eps32"] by simp

lemma floor_nonneg32: "0 \<le> x \<Longrightarrow> 0 \<le> \<lfloor>r32 (x + eps32)\<rfloor>"
  using plus_eps32_nonneg[of x] by simp

lemma whole_tokens_nonneg: "0 \<le> a \<Longrightarrow> 0 \<le> whole_tokens a"
  using nano64_nonneg f64.rd_nonneg[of "a + nano64"] by (simp add: whole_tokens_def)

lemma read_carries_wf:
  assumes "read_carries ls ns = Inr (sc, rc)"
  shows "length sc = link_count ls" "length rc = link_count ls"
    "\<forall>x \<in> set sc \<union> set rc. 0 \<le> x"
  using assms
  by (auto simp: read_carries_def Let_def check_simps dest: metadata_vector_length
      metadata_vector_nonneg)

lemma read_prior_wf:
  assumes "read_prior ls ns = Inr p" shows "wf_prior (link_count ls) (turn_count ns) p"
proof -
  have carry: "length sc = link_count ls \<and> length rc = link_count ls \<and>
      (\<forall>x \<in> set sc \<union> set rc. 0 \<le> x)"
    if "(if b then read_carries ls ns else Inr (replicate (link_count ls) 0, replicate (link_count ls) 0))
      = Inr (sc, rc)" for b sc rc
    using that read_carries_wf[of ls ns sc rc] by (auto split: if_splits)
  show ?thesis
    using assms unfolding read_prior_def Let_def
    by (auto simp: check_simps wf_prior_def plus_eps32_nonneg dest: metadata_vector_length
        metadata_vector_nonneg dest!: carry)
qed

definition wf_storage :: "nat \<Rightarrow> (rat list \<times> rat list) option \<Rightarrow> bool" where
  "wf_storage n storage \<longleftrightarrow> (case storage of None \<Rightarrow> True
     | Some (cap, space) \<Rightarrow> length cap = n \<and> length space = n \<and> (\<forall>x \<in> set space. 0 \<le> x))"

lemma storage_views_wf:
  "storage_views ls arg = Inr storage \<Longrightarrow> wf_storage (link_count ls) storage"
  by (auto simp: storage_views_def wf_storage_def check_simps Let_def link_count_def
      split: option.splits)

lemma add_carry_nonneg:
  assumes "\<forall>t \<in> set toks. 0 \<le> t" "\<forall>c \<in> set carry. 0 \<le> c" "x \<in> set (add_carry toks en carry)"
  shows "0 \<le> x"
  using assms by (auto simp: add_carry_def rne_nonneg elim!: in_set_zipE)

lemma accrue_nonneg:
  assumes "\<forall>c \<in> set credit. 0 \<le> c" "\<forall>e \<in> set cap. 0 \<le> e" "x \<in> set (accrue has credit cap)"
  shows "0 \<le> x"
proof -
  obtain h c e where "x = (if h then r64 (c + e) else 0)" "c \<in> set credit" "e \<in> set cap"
    using assms(3) unfolding accrue_def by (force elim!: in_set_zipE)
  then show ?thesis using assms(1,2) by (simp add: f64.rd_nonneg)
qed

lemma mask_by_space_length [simp]:
  "length to = length xs \<Longrightarrow> length (mask_by_space sp to xs) = length xs"
  by (simp add: mask_by_space_def split: option.split)

lemma links_with_demand_length [simp]: "length (links_with_demand n idx el) = n"
  by (simp add: links_with_demand_def)

lemma add_carry_length [simp]:
  "length en = length toks \<Longrightarrow> length carry = length toks \<Longrightarrow>
   length (add_carry toks en carry) = length toks"
  by (simp add: add_carry_def)

lemma accrue_length [simp]:
  "length credit = length has \<Longrightarrow> length cap = length has \<Longrightarrow>
   length (accrue has credit cap) = length has"
  by (simp add: accrue_def)

text \<open>The assumptions under which a tick's tokens are set up.\<close>

definition authority_ready :: "flow_arrays \<Rightarrow> link_state \<Rightarrow> node_state \<Rightarrow> bool" where
  "authority_ready arrays ls ns \<longleftrightarrow> wf_link ls \<and> wf_node ns \<and> turns_in_range ls ns \<and>
     length (turn_flow_next arrays) = turn_count ns \<and>
     length (turn_supply_next arrays) = turn_count ns"

lemma ready_lengths:
  assumes "authority_ready arrays ls ns"
  shows "length (queue_vehicles ls) = link_count ls"
    "length (effective_capacity_vehicles ls) = link_count ls"
    "length (turn_demand ns) = turn_count ns"
    "length (turn_from_link_index ns) = turn_count ns"
    "length (turn_to_link_index ns) = turn_count ns"
    "length (turn_flow_next arrays) = turn_count ns"
    "length (turn_supply_next arrays) = turn_count ns"
  using assms effective_capacity_wf(1)
  by (simp_all add: authority_ready_def wf_node_def Let_def link_count_def turn_count_def)

lemma token_setup_lengths:
  assumes "authority_ready arrays ls ns" "wf_prior (link_count ls) (turn_count ns) prior"
    "wf_storage (link_count ls) storage"
  defines "su \<equiv> token_setup arrays ls ns prior storage"
  shows "length (su_eligible su) = turn_count ns" "length (su_turn_credit su) = turn_count ns"
    "length (su_sink_credit su) = link_count ls" "length (su_queue su) = link_count ls"
    "length (su_capacity su) = link_count ls"
    "length (turn_demand_tokens (su_budget su)) = turn_count ns"
    "length (sink_demand_tokens (su_budget su)) = link_count ls"
    "length (service_tokens (su_budget su)) = link_count ls"
    "length (receiving_tokens (su_budget su)) = link_count ls"
    "length (vehicles (su_budget su)) = link_count ls"
    "length (turn_source (su_budget su)) = turn_count ns"
    "length (turn_target (su_budget su)) = turn_count ns"
  using assms(2,3) ready_lengths[OF assms(1)]
  by (auto simp: su_def token_setup_def Let_def wf_prior_def wf_storage_def
      internal_credit_budget_def sink_credit_budget_def split: option.splits)

lemma token_setup_budget:
  assumes "authority_ready arrays ls ns" "wf_prior (link_count ls) (turn_count ns) prior"
    "wf_storage (link_count ls) storage"
  shows "wf_budget (su_budget (token_setup arrays ls ns prior storage))"
proof -
  define su where "su = token_setup arrays ls ns prior storage"
  define b where "b = su_budget su"
  let ?cap = "map (\<lambda>x. max x 0) (effective_capacity_vehicles ls)"
  note len = token_setup_lengths[OF assms, folded su_def]
  have capn: "\<forall>e \<in> set ?cap. 0 \<le> e" by simp
  have tok: "\<forall>x \<in> set (map whole_tokens (accrue has credit ?cap)). 0 \<le> x"
    if "\<forall>c \<in> set credit. 0 \<le> c" for has credit
    using accrue_nonneg[OF that capn] whole_tokens_nonneg by auto
  have nn: "\<forall>c \<in> set (prior_service_credit prior). 0 \<le> c"
    "\<forall>c \<in> set (prior_receiving_credit prior). 0 \<le> c"
    "\<forall>c \<in> set (prior_service_carry prior). 0 \<le> c"
    "\<forall>c \<in> set (prior_receiving_carry prior). 0 \<le> c" "\<forall>x \<in> set (sink_demand prior). 0 \<le> x"
    using assms(2) by (auto simp: wf_prior_def)
  have "\<forall>x \<in> set (service_tokens b). 0 \<le> x"
    using add_carry_nonneg[OF tok[OF nn(1)] nn(3)]
    by (auto simp: b_def su_def token_setup_def Let_def)
  moreover have "\<forall>x \<in> set (receiving_tokens b). 0 \<le> x"
  proof -
    have r0: "0 \<le> x" if "x \<in> set (add_carry (map whole_tokens
        (accrue has (prior_receiving_credit prior) ?cap)) en (prior_receiving_carry prior))"
      for x has en using add_carry_nonneg[OF tok[OF nn(2)] nn(4) that] .
    show ?thesis
    proof (cases storage)
      case None
      then show ?thesis by (auto simp: b_def su_def token_setup_def Let_def dest!: r0)
    next
      case (Some cs)
      obtain c space where cs: "cs = (c, space)" by (cases cs)
      have "0 \<le> r32 (s + eps32)" if "s \<in> set space" for s
        using assms(3) that plus_eps32_nonneg by (simp add: Some cs wf_storage_def)
      then show ?thesis
        by (auto simp: b_def su_def token_setup_def Let_def Some cs elim!: in_set_zipE dest!: r0)
    qed
  qed
  moreover have "\<forall>x \<in> set (vehicles b) \<union> set (turn_demand_tokens b) \<union>
      set (sink_demand_tokens b). 0 \<le> x"
    using nn(5) by (auto simp: b_def su_def token_setup_def Let_def plus_eps32_nonneg)
  moreover have "\<forall>i \<in> set (turn_source b) \<union> set (turn_target b). i < link_count ls"
    using assms(1)
    by (auto simp: b_def su_def token_setup_def Let_def authority_ready_def turns_in_range_def
        nat_less_iff)
  ultimately show ?thesis
    using len by (auto simp: wf_budget_def Let_def b_def su_def[symmetric])
qed

lemma su_eligible_length:
  assumes "authority_ready arrays ls ns" "wf_prior (link_count ls) (turn_count ns) prior"
    "wf_storage (link_count ls) storage"
  shows "length (su_eligible (token_setup arrays ls ns prior storage))
    = length (turn_demand_tokens (su_budget (token_setup arrays ls ns prior storage)))"
  using token_setup_lengths[OF assms] by simp

text \<open>The scheduler runs to completion on every tick's budgets.\<close>

lemma authority_schedules:
  assumes "authority_ready arrays ls ns" "read_prior ls ns = Inr prior"
    "storage_views ls arg = Inr storage"
  defines "su \<equiv> token_setup arrays ls ns prior storage"
  shows "\<exists>st. schedule_tokens (su_budget su) (su_eligible su) (su_turn_credit su)
        (su_sink_credit su) = Inr st \<and>
      ledger (su_budget su) st \<and> service_heap st = [] \<and>
      pending (su_budget su) (eligible_turns (su_eligible su)) {..<link_count ls} st"
proof -
  note ok = assms(1) read_prior_wf[OF assms(2)] storage_views_wf[OF assms(3)]
  note len = token_setup_lengths[OF ok, folded su_def]
  show ?thesis
    using schedule_tokens_correct[OF token_setup_budget[OF ok, folded su_def], of "su_eligible su"
        "su_turn_credit su" "su_sink_credit su"] len by simp
qed

end
