(* ===== verification/FlowUpdate.thy ===== *)
theory FlowUpdate
  imports TokenAuthority
begin

text \<open>
  One flow tick: \<^verbatim>\<open>update_link_node_flow\<close> (src/src/metroflow/flow/engine.py), which composes the
  numeric core (theory FlowEngine), the discrete-agent authority (theory TokenAuthority) and
  the validating constructors (theory FlowState).  The theorems are about the continuous tick:
  it never fails on ready states, never oversubscribes a turn or a link, and never lets the
  congestion it measured leak into the free-flow times of the next tick.  The discrete tick
  is the subject of theory DiscreteTick.
\<close>

record flow_update_result =
  result_link :: link_state
  result_node :: node_state

definition update_link_node_flow :: "rust_flow \<Rightarrow> link_state \<Rightarrow> node_state \<Rightarrow> bool \<Rightarrow> string \<Rightarrow> bool \<Rightarrow>
    pyfloat list option \<Rightarrow> flow_update_result result" where
  "update_link_node_flow rust ls ns validate backend discrete storage =
     bindE (validate_turn_index_ranges ns (link_count ls)) (\<lambda>_.
     bindE (raise_if (discrete \<and> backend = ''rust_cpu'')
       (RuntimeError ''Rust CPU flow backend does not implement the per-turn discrete-agent authority contract'')) (\<lambda>_.
     bindE (raise_if (storage \<noteq> None \<and> \<not> discrete)
       (ValueError ''storage_capacity_vehicles requires discrete_agent_authority'')) (\<lambda>_.
     let resolved = (if discrete \<and> backend = ''auto'' then ''baseline'' else backend) in
     bindE (compute_baseline_flow_arrays rust resolved ls ns) (\<lambda>(arrays, base).
     bindE (if discrete then apply_discrete_agent_flow_authority arrays base ls ns storage
            else Inr (arrays, Map.empty, Map.empty)) (\<lambda>(arrays, link_updates, node_updates).
     let link_md = (link_metadata ls)(''free_flow_travel_time_cost'' \<mapsto> fin_vector base) ++ link_updates;
         node_md = node_metadata ns ++ node_updates in
     bindE (make_link_state (queue_vehicles_next arrays) (inflow_vehicles_next arrays)
              (outflow_vehicles_next arrays) (travel_time_cost_next arrays)
              (capacity_veh_per_tick ls) (incident_capacity_multiplier ls)
              (Some (capacity_violation_flags_next arrays)) link_md) (\<lambda>ls'.
     bindE (make_node_state (turn_from_link_index ns) (turn_to_link_index ns)
              (turn_demand_next arrays) (turn_supply_next arrays) (turn_flow_next arrays)
              (signal_phase_index ns) (signal_phase_timer_next arrays) node_md) (\<lambda>ns'.
     if validate \<and> validate_link_state ls' @ validate_node_state ns' micro64 \<noteq> []
     then Inl (ValueError ''invalid flow update result'')
     else Inr \<lparr>result_link = ls', result_node = ns'\<rparr>)))))))"

section \<open>The baseline tick\<close>

text \<open>The arguments \<^verbatim>\<open>update_link_node_flow\<close> is called with: well-formed states, turns in range,
  readable metadata and a signal timer that has not reached the last int32 value.\<close>

definition timers_in_range :: "node_state \<Rightarrow> bool" where
  "timers_in_range ns \<longleftrightarrow> (\<forall>t \<in> set (signal_phase_timer ns). sint t < 2 ^ 31 - 1)"

definition plain_metadata :: "link_state \<Rightarrow> node_state \<Rightarrow> bool" where
  "plain_metadata ls ns \<longleftrightarrow>
     (\<exists>p. read_turn_priority (node_metadata ns) (turn_count ns) = Inr p) \<and>
     (\<exists>f. read_turn_forbidden (node_metadata ns) (turn_count ns) = Inr f) \<and>
     (\<exists>b. read_link_base_travel_time ls = Inr b)"

definition tick_ready :: "link_state \<Rightarrow> node_state \<Rightarrow> bool" where
  "tick_ready ls ns \<longleftrightarrow> wf_link ls \<and> wf_node ns \<and> turns_in_range ls ns \<and>
     timers_in_range ns \<and> plain_metadata ls ns"

lemma read_lengths:
  "read_turn_priority m n = Inr p \<Longrightarrow> length p = n"
  "read_turn_forbidden m n = Inr f \<Longrightarrow> length f = n"
  "wf_link ls \<Longrightarrow> read_link_base_travel_time ls = Inr b \<Longrightarrow> length b = link_count ls"
  by (auto simp: read_turn_priority_def read_turn_forbidden_def read_link_base_travel_time_def
      wf_link_def Let_def split: option.splits sum.splits if_splits)

definition tick_inputs :: "link_state \<Rightarrow> node_state \<Rightarrow> rat list \<Rightarrow> rat list \<Rightarrow> bool list \<Rightarrow> flow_inputs"
  where "tick_inputs ls ns base prio forb = coerce_flow_inputs (flow_inputs_of ls ns base prio forb)"

lemma tick_inputs_fields:
  assumes "wf_link ls" "wf_node ns"
  shows "fi_queue (tick_inputs ls ns b p f) = queue_vehicles ls"
    "fi_capacity (tick_inputs ls ns b p f) = effective_capacity_vehicles ls"
    "fi_from (tick_inputs ls ns b p f) = turn_from_link_index ns"
    "fi_to (tick_inputs ls ns b p f) = turn_to_link_index ns"
    "fi_demand (tick_inputs ls ns b p f) = turn_demand ns"
    "fi_forbidden (tick_inputs ls ns b p f) = f"
proof -
  have m: "map (\<lambda>x. max (r32 x) 0) xs = xs" if "\<forall>x \<in> set xs. is_f32 x \<and> 0 \<le> x" for xs
    using that by (auto intro: map_idI)
  have q: "\<forall>x \<in> set (queue_vehicles ls). is_f32 x \<and> 0 \<le> x" using assms(1) by (simp add: wf_link_def)
  have c: "\<forall>x \<in> set (effective_capacity_vehicles ls). is_f32 x \<and> 0 \<le> x"
    using effective_capacity_wf(2)[OF assms(1)] by blast
  have d: "\<forall>x \<in> set (turn_demand ns). is_f32 x \<and> 0 \<le> x" using assms(2) by (simp add: wf_node_def)
  show "fi_queue (tick_inputs ls ns b p f) = queue_vehicles ls"
    "fi_capacity (tick_inputs ls ns b p f) = effective_capacity_vehicles ls"
    "fi_from (tick_inputs ls ns b p f) = turn_from_link_index ns"
    "fi_to (tick_inputs ls ns b p f) = turn_to_link_index ns"
    "fi_demand (tick_inputs ls ns b p f) = turn_demand ns"
    "fi_forbidden (tick_inputs ls ns b p f) = f"
    unfolding tick_inputs_def coerce_flow_inputs_def flow_inputs_of_def
    using m[OF q] m[OF c] m[OF d] by simp_all
qed

lemma turns_need_links:
  assumes "wf_node ns" "turns_in_range ls ns" "turn_count ns \<noteq> 0"
  shows "link_count ls \<noteq> 0"
proof -
  have "turn_from_link_index ns \<noteq> []"
    using assms(1,3) by (auto simp: wf_node_def Let_def)
  then have "hd (turn_from_link_index ns) \<in> set (turn_from_link_index ns)" by (rule hd_in_set)
  then show ?thesis using assms(2) by (fastforce simp: turns_in_range_def)
qed

lemma tick_inputs_valid:
  assumes "tick_ready ls ns" "length b = link_count ls" "length p = turn_count ns"
    "length f = turn_count ns"
  shows "validate_flow_core (tick_inputs ls ns b p f) = Inr ()" "wf_inputs (tick_inputs ls ns b p f)"
proof -
  note fields = tick_inputs_fields[of ls ns b p f]
  have wf: "wf_link ls" "wf_node ns" "turns_in_range ls ns"
    using assms(1) by (simp_all add: tick_ready_def)
  have l: "length (turn_from_link_index ns) = turn_count ns"
    "length (turn_to_link_index ns) = turn_count ns"
    using wf(2) by (simp_all add: wf_node_def Let_def)
  note ne = turns_need_links[OF wf(2,3)]
  have rng: "\<not> i < 0 \<and> \<not> int (link_count ls) \<le> i"
    if "i \<in> set (turn_from_link_index ns) \<union> set (turn_to_link_index ns)" for i
    using wf(3) that by (simp add: turns_in_range_def linorder_not_less linorder_not_le)
  show v: "validate_flow_core (tick_inputs ls ns b p f) = Inr ()"
    using assms(2-4) fields[OF wf(1,2)] effective_capacity_wf(1)[OF wf(1)] l ne rng
    by (auto simp: validate_flow_core_def check_simps Let_def index_checks_def
        link_count_def[symmetric] turn_count_def[symmetric] tick_inputs_def
        coerce_flow_inputs_def flow_inputs_of_def)
  show "wf_inputs (tick_inputs ls ns b p f)"
    using v unfolding tick_inputs_def by (rule coerce_flow_inputs_wf)
qed

lemma compute_baseline_ok:
  assumes "tick_ready ls ns"
  obtains b p f where "compute_baseline_flow_arrays rust ''baseline'' ls ns
      = Inr (numpy_flow_core (tick_inputs ls ns b p f), b)"
    "wf_inputs (tick_inputs ls ns b p f)"
    "read_turn_forbidden (node_metadata ns) (turn_count ns) = Inr f"
    "read_link_base_travel_time ls = Inr b" "length f = turn_count ns"
proof -
  obtain b p f where r: "read_turn_priority (node_metadata ns) (turn_count ns) = Inr p"
    "read_turn_forbidden (node_metadata ns) (turn_count ns) = Inr f"
    "read_link_base_travel_time ls = Inr b"
    using assms by (auto simp: tick_ready_def plain_metadata_def)
  have wf: "wf_link ls" "wf_node ns" using assms by (simp_all add: tick_ready_def)
  note len = read_lengths(1)[OF r(1)] read_lengths(2)[OF r(2)] read_lengths(3)[OF wf(1) r(3)]
  note v = tick_inputs_valid[OF assms len(3,1,2)]
  have "\<not> (link_count ls = 0 \<and> 0 < turn_count ns)"
    using turns_need_links[OF wf(2)] assms by (auto simp: tick_ready_def)
  then have "compute_baseline_flow_arrays rust ''baseline'' ls ns
      = Inr (numpy_flow_core (tick_inputs ls ns b p f), b)"
    using r v(1) by (simp add: compute_baseline_flow_arrays_def compute_baseline_flow_arrays_core_def
        check_eval validate_flow_backend_def flow_backends_def Let_def tick_inputs_def)
  then show ?thesis using that v(2) r len by blast
qed

section \<open>The arrays of the core\<close>

lemma core_lengths:
  assumes "wf_inputs fi"
  defines "A \<equiv> numpy_flow_core fi" and "n \<equiv> length (fi_queue fi)" and "k \<equiv> length (fi_demand fi)"
  shows "length (turn_demand_next A) = k" "length (turn_supply_next A) = k"
    "length (turn_flow_next A) = k" "length (inflow_vehicles_next A) = n"
    "length (outflow_vehicles_next A) = n" "length (queue_vehicles_next A) = n"
    "length (travel_time_cost_next A) = n" "length (capacity_violation_flags_next A) = n"
    "signal_phase_timer_next A = map (\<lambda>t. t + 1) (fi_timer fi)"
  using assms(1) by (simp_all add: A_def n_def k_def numpy_flow_core_def Let_def input_lengths
      update_travel_time_cost_def)

lemma travel_time_member:
  assumes "x \<in> set (update_travel_time_cost base q cap)" "length q = length base"
    "length cap = length base"
  shows "is_f32 x \<and> 0 < x"
  using assms travel_time_nth(2,3)[OF assms(2,3)] travel_time_length[OF assms(2,3)]
  by (metis in_set_conv_nth)

lemma core_members:
  assumes "wf_inputs fi"
  defines "A \<equiv> numpy_flow_core fi"
  shows "\<forall>x \<in> set (turn_demand_next A). is_f32 x \<and> 0 \<le> x"
    "\<forall>x \<in> set (turn_supply_next A). is_f32 x \<and> 0 \<le> x"
    "\<forall>x \<in> set (turn_flow_next A). is_f32 x \<and> 0 \<le> x"
    "\<forall>x \<in> set (inflow_vehicles_next A). is_f32 x \<and> 0 \<le> x"
    "\<forall>x \<in> set (outflow_vehicles_next A). is_f32 x \<and> 0 \<le> x"
    "\<forall>x \<in> set (queue_vehicles_next A). is_f32 x \<and> 0 \<le> x"
    "\<forall>x \<in> set (travel_time_cost_next A). is_f32 x \<and> 0 < x"
proof -
  note len = input_lengths[OF assms(1)]
  have q: "\<forall>x \<in> set (fi_queue fi). is_f32 x \<and> 0 \<le> x"
    and d: "\<forall>x \<in> set (fi_demand fi). is_f32 x \<and> 0 \<le> x"
    using assms(1) by (simp_all add: wf_inputs_def)
  have s: "is_f32 x \<and> 0 \<le> x" if "x \<in> set (turn_supplies fi)" for x
    using that supply_bounds(1,2)[OF assms(1)] supply_length[OF assms(1)]
    by (metis in_set_conv_nth)
  have seg: "is_f32 x \<and> 0 \<le> x" if "x \<in> set (segment_sum (turn_flows fi) idx m)" for x idx m
    using that segment_sum_member flow_member[OF assms(1)] by blast
  show "\<forall>x \<in> set (turn_demand_next A). is_f32 x \<and> 0 \<le> x"
    using d by (simp add: A_def numpy_flow_core_def Let_def)
  show "\<forall>x \<in> set (turn_supply_next A). is_f32 x \<and> 0 \<le> x"
    using s by (auto simp: A_def numpy_flow_core_def Let_def is_f32_max)
  show "\<forall>x \<in> set (turn_flow_next A). is_f32 x \<and> 0 \<le> x"
    using flow_member[OF assms(1)] by (auto simp: A_def numpy_flow_core_def Let_def is_f32_max)
  show "\<forall>x \<in> set (inflow_vehicles_next A). is_f32 x \<and> 0 \<le> x"
    "\<forall>x \<in> set (outflow_vehicles_next A). is_f32 x \<and> 0 \<le> x"
    using seg by (auto simp: A_def numpy_flow_core_def Let_def)
  show "\<forall>x \<in> set (queue_vehicles_next A). is_f32 x \<and> 0 \<le> x"
    using q queue_update_nonneg by (auto simp: A_def numpy_flow_core_def Let_def)
  show "\<forall>x \<in> set (travel_time_cost_next A). is_f32 x \<and> 0 < x"
    using len by (auto simp: A_def numpy_flow_core_def Let_def dest: travel_time_member)
qed

text \<open>What a baseline tick returns.\<close>

definition committed_link :: "link_state \<Rightarrow> flow_arrays \<Rightarrow> metadata \<Rightarrow> link_state" where
  "committed_link ls A md = ls
     \<lparr>queue_vehicles := queue_vehicles_next A, inflow_vehicles := inflow_vehicles_next A,
      outflow_vehicles := outflow_vehicles_next A, travel_time_cost := travel_time_cost_next A,
      capacity_violation_flags := capacity_violation_flags_next A, link_metadata := md\<rparr>"

definition committed_node :: "node_state \<Rightarrow> flow_arrays \<Rightarrow> metadata \<Rightarrow> node_state" where
  "committed_node ns A md = ns
     \<lparr>turn_demand := turn_demand_next A, turn_supply := turn_supply_next A,
      turn_flow := turn_flow_next A, signal_phase_timer := signal_phase_timer_next A,
      node_metadata := md\<rparr>"

definition arrays_fit :: "link_state \<Rightarrow> node_state \<Rightarrow> flow_arrays \<Rightarrow> bool" where
  "arrays_fit ls ns A \<longleftrightarrow>
     (let n = link_count ls; k = turn_count ns in
       length (inflow_vehicles_next A) = n \<and> length (outflow_vehicles_next A) = n \<and>
       length (queue_vehicles_next A) = n \<and> length (travel_time_cost_next A) = n \<and>
       length (capacity_violation_flags_next A) = n \<and> length (turn_demand_next A) = k \<and>
       length (turn_supply_next A) = k \<and> length (turn_flow_next A) = k) \<and>
     (\<forall>x \<in> set (turn_demand_next A) \<union> set (turn_supply_next A) \<union> set (turn_flow_next A) \<union>
        set (inflow_vehicles_next A) \<union> set (outflow_vehicles_next A) \<union>
        set (queue_vehicles_next A). is_f32 x \<and> 0 \<le> x) \<and>
     (\<forall>x \<in> set (travel_time_cost_next A). is_f32 x \<and> 0 < x) \<and>
     signal_phase_timer_next A = map (\<lambda>t. t + 1) (signal_phase_timer ns)"

lemma timer_step:
  fixes t :: i32
  assumes "0 \<le> sint t" "sint t < 2 ^ 31 - 1"
  shows "sint (t + 1) = sint t + 1"
proof -
  have "sint (t + 1) = signed_take_bit 31 (sint t + sint (1::i32))"
    by (simp add: sint_word_ariths(1))
  then show ?thesis using assms by (simp add: signed_take_bit_int_eq_self)
qed

lemma make_link_committed:
  assumes "wf_link ls" "arrays_fit ls ns A"
  shows "make_link_state (queue_vehicles_next A) (inflow_vehicles_next A)
      (outflow_vehicles_next A) (travel_time_cost_next A) (capacity_veh_per_tick ls)
      (incident_capacity_multiplier ls) (Some (capacity_violation_flags_next A)) md
    = Inr (committed_link ls A md)"
  using assms
  by (subst make_link_state_ok)
    (auto simp: arrays_fit_def wf_link_def Let_def committed_link_def map_r32_id)

lemma make_node_committed:
  assumes "wf_node ns" "arrays_fit ls ns A" "timers_in_range ns"
  shows "make_node_state (turn_from_link_index ns) (turn_to_link_index ns) (turn_demand_next A)
      (turn_supply_next A) (turn_flow_next A) (signal_phase_index ns)
      (signal_phase_timer_next A) md
    = Inr (committed_node ns A md)"
proof -
  have "0 \<le> sint (t + 1)" if "t \<in> set (signal_phase_timer ns)" for t
    using that assms(1,3) timer_step[of t] by (simp add: wf_node_def timers_in_range_def)
  then show ?thesis
    using assms(1,2)
    by (subst make_node_state_ok)
      (auto simp: arrays_fit_def wf_node_def Let_def committed_node_def map_r32_id)
qed

lemma committed_wf:
  assumes "wf_link ls" "wf_node ns" "arrays_fit ls ns A" "timers_in_range ns"
  shows "wf_link (committed_link ls A md)" "wf_node (committed_node ns A md')"
  using make_link_state_wf[OF make_link_committed[OF assms(1,3)]]
    make_node_state_wf[OF make_node_committed[OF assms(2-4)]] .

lemma core_arrays_fit:
  assumes "tick_ready ls ns" "wf_inputs (tick_inputs ls ns b p f)"
  shows "arrays_fit ls ns (numpy_flow_core (tick_inputs ls ns b p f))"
proof -
  have wf: "wf_link ls" "wf_node ns" using assms(1) by (simp_all add: tick_ready_def)
  have "fi_timer (tick_inputs ls ns b p f) = signal_phase_timer ns"
    by (simp add: tick_inputs_def coerce_flow_inputs_def flow_inputs_of_def)
  then show ?thesis
    unfolding arrays_fit_def Let_def link_count_def turn_count_def Un_iff ball_Un
    using core_lengths[OF assms(2)] core_members[OF assms(2)] tick_inputs_fields[OF wf, of b p f]
    by simp
qed

lemma index_check_ok: "tick_ready ls ns \<Longrightarrow> validate_turn_index_ranges ns (link_count ls) = Inr ()"
  by (simp add: tick_ready_def validate_turn_index_ranges_iff)

text \<open>The self-validation of a tick passes on such arrays.\<close>

definition flags_cover :: "link_state \<Rightarrow> flow_arrays \<Rightarrow> bool" where
  "flags_cover ls A \<longleftrightarrow> capacity_violation_flags_next A
     = map2 (\<lambda>ou c. r32 (c + eps32) < ou) (outflow_vehicles_next A) (effective_capacity_vehicles ls)"

definition flow_within :: "flow_arrays \<Rightarrow> bool" where
  "flow_within A \<longleftrightarrow> (\<forall>j < length (turn_flow_next A).
     turn_flow_next A ! j \<le> turn_demand_next A ! j \<and> turn_flow_next A ! j \<le> turn_supply_next A ! j)"

lemma micro64_nonneg: "0 \<le> micro64"
  by (simp add: micro64_def f64.rd_nonneg)

lemma core_flow_within:
  assumes "wf_inputs fi" shows "flow_within (numpy_flow_core fi)"
  unfolding flow_within_def
proof (intro allI impI)
  fix j assume "j < length (turn_flow_next (numpy_flow_core fi))"
  then have j: "j < length (fi_demand fi)" using core_lengths(3)[OF assms] by simp
  show "turn_flow_next (numpy_flow_core fi) ! j \<le> turn_demand_next (numpy_flow_core fi) ! j \<and>
      turn_flow_next (numpy_flow_core fi) ! j \<le> turn_supply_next (numpy_flow_core fi) ! j"
    using j flow_bounds(2,3,4)[OF assms j] input_nth(3)[OF assms j] assms
    by (auto simp: numpy_flow_core_def Let_def)
qed

lemma core_flags_cover:
  assumes "tick_ready ls ns" "wf_inputs (tick_inputs ls ns b p f)"
  shows "flags_cover ls (numpy_flow_core (tick_inputs ls ns b p f))"
proof -
  have wf: "wf_link ls" "wf_node ns" using assms(1) by (simp_all add: tick_ready_def)
  note cap = effective_capacity_wf[OF wf(1)]
  have "\<not> r32 (c + eps32) < 0" if "c \<in> set (effective_capacity_vehicles ls)" for c
    using cap(2)[OF that] plus_eps32_nonneg[of c] by simp
  then have "map2 (\<lambda>ou c. r32 (c + eps32) < ou) (replicate (link_count ls) 0)
      (effective_capacity_vehicles ls) = replicate (link_count ls) False"
    using cap(1) by (auto intro!: nth_equalityI)
  then show ?thesis
    using tick_inputs_fields[OF wf, of b p f] cap(1)
    by (auto simp: flags_cover_def numpy_flow_core_def Let_def link_count_def)
qed

lemma validate_node_committed:
  assumes "wf_node (committed_node ns A md)" "flow_within A"
    "length (turn_demand_next A) = length (turn_flow_next A)"
    "length (turn_supply_next A) = length (turn_flow_next A)"
  shows "validate_node_state (committed_node ns A md) micro64 = []"
proof -
  have le: "\<not> r32 micro64 < r32 (x - y)" if "x \<le> y" for x y
    using f32.rd_mono[of "x - y" micro64] micro64_nonneg that by simp
  have "\<not> r32 micro64 < r32 (fl - d)"
    if "(fl, d) \<in> set (zip (turn_flow_next A) (turn_demand_next A))" for fl d
    using that assms(2,3) le by (force simp: flow_within_def set_zip)
  moreover have "\<not> r32 micro64 < r32 (fl - d)"
    if "(fl, d) \<in> set (zip (turn_flow_next A) (turn_supply_next A))" for fl d
    using that assms(2,4) le by (force simp: flow_within_def set_zip)
  ultimately show ?thesis
    using assms(1) by (force simp: validate_node_state_def wf_node_def committed_node_def
        linorder_not_less check_simps)
qed

lemma validate_link_committed:
  assumes "wf_link (committed_link ls A md)" "flags_cover ls A"
    "\<not> meta_flag md ''runtime_discrete_agent_authority''"
  shows "validate_link_state (committed_link ls A md) = []"
proof -
  have "effective_capacity_vehicles (committed_link ls A md) = effective_capacity_vehicles ls"
    by (simp add: effective_capacity_vehicles_def committed_link_def)
  then show ?thesis
    using assms unfolding validate_link_state_def link_capacity_authority_def flags_cover_def
    by (auto simp: wf_link_def committed_link_def linorder_not_less linorder_not_le
        check_simps capacity_violation_count_def Let_def; fastforce)
qed

lemma baseline_tick:
  assumes "tick_ready ls ns"
    "v \<Longrightarrow> \<not> meta_flag (link_metadata ls) ''runtime_discrete_agent_authority''"
  obtains b p f where "wf_inputs (tick_inputs ls ns b p f)"
    "read_turn_forbidden (node_metadata ns) (turn_count ns) = Inr f" "length f = turn_count ns"
    "update_link_node_flow rust ls ns v ''baseline'' False None = Inr
       \<lparr>result_link = committed_link ls (numpy_flow_core (tick_inputs ls ns b p f))
          ((link_metadata ls)(''free_flow_travel_time_cost'' \<mapsto> fin_vector b)),
        result_node = committed_node ns (numpy_flow_core (tick_inputs ls ns b p f))
          (node_metadata ns)\<rparr>"
proof -
  obtain b p f where c: "compute_baseline_flow_arrays rust ''baseline'' ls ns
      = Inr (numpy_flow_core (tick_inputs ls ns b p f), b)"
    and wfi: "wf_inputs (tick_inputs ls ns b p f)"
    and forb: "read_turn_forbidden (node_metadata ns) (turn_count ns) = Inr f"
      "length f = turn_count ns"
    using compute_baseline_ok[OF assms(1)] by metis
  let ?A = "numpy_flow_core (tick_inputs ls ns b p f)"
  let ?md = "(link_metadata ls)(''free_flow_travel_time_cost'' \<mapsto> fin_vector b)"
  have wf: "wf_link ls" "wf_node ns" "timers_in_range ns"
    using assms(1) by (simp_all add: tick_ready_def)
  note fit = core_arrays_fit[OF assms(1) wfi]
  note wf' = committed_wf[OF wf(1,2) fit wf(3)]
  have "validate_node_state (committed_node ns ?A (node_metadata ns)) micro64 = []"
    by (rule validate_node_committed[OF wf'(2) core_flow_within[OF wfi]])
      (use core_lengths[OF wfi] in simp_all)
  moreover have "v \<Longrightarrow> validate_link_state (committed_link ls ?A ?md) = []"
    by (rule validate_link_committed[OF wf'(1) core_flags_cover[OF assms(1) wfi]])
      (use assms(2) in \<open>simp add: meta_flag_def\<close>)
  ultimately have "update_link_node_flow rust ls ns v ''baseline'' False None = Inr
      \<lparr>result_link = committed_link ls ?A ?md, result_node = committed_node ns ?A (node_metadata ns)\<rparr>"
    using index_check_ok[OF assms(1)] c make_link_committed[OF wf(1) fit]
      make_node_committed[OF wf(2) fit wf(3)]
    by (simp add: update_link_node_flow_def check_eval)
  with wfi forb that show ?thesis by blast
qed

section \<open>Properties of the baseline tick\<close>

lemma bindE_mono:
  "bindE x f = Inr r \<Longrightarrow> (\<And>a. f a = Inr r \<Longrightarrow> g a = Inr r) \<Longrightarrow> bindE x g = Inr r"
  by (cases x) simp_all

lemma validation_only_rejects:
  "update_link_node_flow rust ls ns v bk d st = Inr r \<Longrightarrow>
   update_link_node_flow rust ls ns False bk d st = Inr r"
  unfolding update_link_node_flow_def Let_def case_prod_beta
  by ((erule bindE_mono)+, simp split: if_splits)

text \<open>A baseline tick on ready states never fails (with self-validation on as well,
  unless a discrete-agent authority is recorded), and it returns well-formed states with the
  same links and turns, whose signal timers have advanced by one.\<close>

lemma baseline_tick_total:
  assumes "tick_ready ls ns"
    and "v \<Longrightarrow> \<not> meta_flag (link_metadata ls) ''runtime_discrete_agent_authority''"
  shows "\<exists>r. update_link_node_flow rust ls ns v ''baseline'' False None = Inr r \<and>
    wf_link (result_link r) \<and> wf_node (result_node r) \<and>
    link_count (result_link r) = link_count ls \<and> turn_count (result_node r) = turn_count ns \<and>
    map sint (signal_phase_timer (result_node r))
      = map (\<lambda>t. sint t + 1) (signal_phase_timer ns)"
proof -
  obtain b p f where wfi: "wf_inputs (tick_inputs ls ns b p f)"
    and r: "update_link_node_flow rust ls ns v ''baseline'' False None = Inr
       \<lparr>result_link = committed_link ls (numpy_flow_core (tick_inputs ls ns b p f))
          ((link_metadata ls)(''free_flow_travel_time_cost'' \<mapsto> fin_vector b)),
        result_node = committed_node ns (numpy_flow_core (tick_inputs ls ns b p f))
          (node_metadata ns)\<rparr>"
    using baseline_tick[OF assms] by blast
  have wf: "wf_link ls" "wf_node ns" "timers_in_range ns"
    using assms(1) by (simp_all add: tick_ready_def)
  note fit = core_arrays_fit[OF assms(1) wfi]
  have "sint (t + 1) = sint t + 1" if "t \<in> set (signal_phase_timer ns)" for t
    using that wf(2,3) timer_step[of t] by (simp add: wf_node_def timers_in_range_def)
  then have t: "map (sint \<circ> (\<lambda>t. t + 1)) (signal_phase_timer ns)
      = map (\<lambda>t. sint t + 1) (signal_phase_timer ns)"
    by (simp only: map_eq_conv comp_apply) blast
  let ?A = "numpy_flow_core (tick_inputs ls ns b p f)"
  have sizes: "link_count (committed_link ls ?A md) = link_count ls"
    "turn_count (committed_node ns ?A md') = turn_count ns"
    "signal_phase_timer (committed_node ns ?A md') = map (\<lambda>t. t + 1) (signal_phase_timer ns)"
    for md md' using fit unfolding arrays_fit_def Let_def
    by (simp_all add: committed_link_def committed_node_def link_count_def turn_count_def)
  show ?thesis
    by (intro exI conjI, rule r)
      (simp_all only: flow_update_result.simps sizes committed_wf[OF wf(1,2) fit wf(3)]
        map_map t)
qed


lemma base_reread:
  assumes "wf_link ls" "read_link_base_travel_time ls = Inr b" "length (queue_vehicles ls') = length b"
    "link_metadata ls' ''free_flow_travel_time_cost'' = Some (fin_vector b)"
  shows "read_link_base_travel_time ls' = Inr b"
proof -
  have "\<forall>x \<in> set b. is_f32 x"
    using assms(1,2) by (auto simp: read_link_base_travel_time_def wf_link_def as_array32_f32
        split: option.splits sum.splits if_splits)
  then show ?thesis
    using assms(3,4)
    by (simp add: read_link_base_travel_time_def fin_vector_def link_count_def list_all_iff
        comp_def map_idI)
qed

lemma authority_keeps_base_key:
  "apply_discrete_agent_flow_authority A b ls ns st = Inr (A', lm, nm) \<Longrightarrow>
   lm ''free_flow_travel_time_cost'' = None"
  by (auto simp: apply_discrete_agent_flow_authority_def finish_authority_def check_simps Let_def
      authority_link_metadata_def)

lemma update_keeps_base:
  assumes "update_link_node_flow rust ls ns v bk d st = Inr r"
    "read_link_base_travel_time ls = Inr b"
  shows "link_metadata (result_link r) ''free_flow_travel_time_cost'' = Some (fin_vector b)"
    and "length (queue_vehicles (result_link r)) = length (capacity_veh_per_tick ls)"
proof -
  have md: "link_metadata ls' = md \<and> length (queue_vehicles ls') = length (capacity_veh_per_tick ls)"
    if "make_link_state q i ou t (capacity_veh_per_tick ls) m fl md = Inr ls'" for q i ou t m fl md ls'
    using that by (auto simp: make_link_state_def Let_def check_simps same_shape_def)
  have base: "b' = b" if "compute_baseline_flow_arrays rust bk' ls ns = Inr (A, b')" for bk' A b'
    using that assms(2) by (auto simp: compute_baseline_flow_arrays_def check_simps)
  show "link_metadata (result_link r) ''free_flow_travel_time_cost'' = Some (fin_vector b)"
    and "length (queue_vehicles (result_link r)) = length (capacity_veh_per_tick ls)"
    using assms(1)
    by (auto simp: update_link_node_flow_def check_simps Let_def map_add_def
        split: if_splits dest!: md base dest: authority_keeps_base_key)
qed

text \<open>Congestion does not compound.  Whatever the mode of the tick, the free-flow times the
  next tick starts from are those this tick started from.\<close>

theorem free_flow_times_stable:
  assumes "wf_link ls" "read_link_base_travel_time ls = Inr b"
    and "update_link_node_flow rust ls ns v bk d st = Inr r"
  shows "read_link_base_travel_time (result_link r) = Inr b"
proof -
  have "length b = length (capacity_veh_per_tick ls)"
    using read_lengths(3)[OF assms(1,2)] assms(1) by (simp add: wf_link_def Let_def)
  then show ?thesis
    using base_reread[OF assms(1,2)] update_keeps_base[OF assms(3,2)] by simp
qed

section \<open>A concrete network\<close>

text \<open>Two links joined by one turn, used to instantiate the theorems.\<close>

definition demo_link :: link_state where
  "demo_link = \<lparr>queue_vehicles = [3, 1], inflow_vehicles = [0, 0], outflow_vehicles = [0, 0],
     travel_time_cost = [5, 7], capacity_veh_per_tick = [2, 2],
     incident_capacity_multiplier = [1, 1], capacity_violation_flags = [False, False],
     link_metadata = Map.empty\<rparr>"

definition demo_node :: node_state where
  "demo_node = \<lparr>turn_from_link_index = [0], turn_to_link_index = [1], turn_demand = [2],
     turn_supply = [0], turn_flow = [0], signal_phase_index = [0], signal_phase_timer = [4],
     node_metadata = [''runtime_sink_demand_by_link_index'' \<mapsto> MVector [Fin 0, Fin 1]]\<rparr>"

lemma demo_f32 [simp]: "is_f32 (numeral k)" if "numeral k \<le> (2 ^ 24 :: int)"
  using is_f32_of_int[of "numeral k"] that by simp

lemma demo_wf: "wf_link demo_link" "wf_node demo_node"
  by (simp_all add: wf_link_def wf_node_def demo_link_def demo_node_def link_count_def
      turn_count_def Let_def)

lemma demo_ready: "tick_ready demo_link demo_node"
  using demo_wf
  by (simp add: tick_ready_def turns_in_range_def timers_in_range_def plain_metadata_def
      read_turn_priority_def read_turn_forbidden_def read_link_base_travel_time_def
      demo_link_def demo_node_def link_count_def)

lemma demo_plain: "\<not> meta_flag (link_metadata demo_link) ''runtime_discrete_agent_authority''"
  by (simp add: meta_flag_def demo_link_def)

definition no_rust :: rust_flow where
  "no_rust fi = Inl (RuntimeError ''No module named metroflow_rust'')"

lemma baseline_tick_total_witness:
  "\<exists>r. update_link_node_flow no_rust demo_link demo_node True ''baseline'' False None = Inr r \<and>
     link_count (result_link r) = 2"
  using baseline_tick_total[OF demo_ready, of True no_rust] demo_plain
  by (auto simp: demo_link_def link_count_def)

lemma demo_tick:
  "\<exists>r. update_link_node_flow no_rust demo_link demo_node False ''baseline'' False None = Inr r"
  using baseline_tick[OF demo_ready, of False] by metis


lemma free_flow_times_stable_witness:
  "\<exists>r. update_link_node_flow no_rust demo_link demo_node False ''baseline'' False None = Inr r \<and>
     read_link_base_travel_time (result_link r) = Inr [5, 7]"
proof -
  have "read_link_base_travel_time demo_link = Inr [5, 7]"
    by (simp add: read_link_base_travel_time_def demo_link_def)
  then show ?thesis using demo_tick free_flow_times_stable[OF demo_wf(1)] by blast
qed

section \<open>The automatic backend\<close>

lemma auto_core:
  assumes "\<forall>fi. \<exists>m. rust fi = Inl (RuntimeError m)"
  shows "compute_baseline_flow_arrays_core rust ''auto'' raw
    = compute_baseline_flow_arrays_core rust ''baseline'' raw"
proof -
  obtain m where "rust (coerce_flow_inputs raw) = Inl (RuntimeError m)" using assms by blast
  then show ?thesis
    by (simp add: compute_baseline_flow_arrays_core_def validate_flow_backend_def flow_backends_def
        check_eval Let_def is_runtime_error_def split: sum.split)
qed

text \<open>Where the compiled backend is unavailable (it raises a RuntimeError), the automatic
  backend is the NumPy baseline: a tick returns the same states, or fails with the same error.\<close>

theorem auto_backend_is_baseline:
  assumes "\<forall>fi. \<exists>m. rust fi = Inl (RuntimeError m)"
  shows "update_link_node_flow rust ls ns v ''auto'' d st
    = update_link_node_flow rust ls ns v ''baseline'' d st"
  by (cases d) (simp_all add: update_link_node_flow_def compute_baseline_flow_arrays_def
      auto_core[OF assms] Let_def raise_if_def)

lemma auto_backend_is_baseline_witness:
  "update_link_node_flow no_rust demo_link demo_node True ''auto'' False None
     = update_link_node_flow no_rust demo_link demo_node True ''baseline'' False None"
  using auto_backend_is_baseline[of no_rust] by (auto simp: no_rust_def)

end
