(* ===== verification/DiscreteTick.thy ===== *)
theory DiscreteTick
  imports FlowUpdate
begin

text \<open>
  The discrete tick: \<^verbatim>\<open>update_link_node_flow\<close> with \<^verbatim>\<open>discrete_agent_authority=True\<close>
  (src/src/metroflow/flow/engine.py).  The scheduler spends at most the accrued tokens and
  serves all it can; vehicles of an integral queue are conserved exactly although the queues
  are float32 arrays; finite integral storage is never exceeded; and the metadata a tick
  writes is accepted by the next one.
\<close>

section \<open>What a discrete tick returns\<close>

lemma finish_authority_eq:
  assumes "finish_authority A b su st storage = Inr (A', lm, nm)"
  obtains sr rr where
    "unit_residual_float32 (su_service_credit su) = Inr sr"
    "unit_residual_float32 (su_receiving_credit su) = Inr rr"
    "lm = authority_link_metadata su st sr rr storage" "nm = authority_node_metadata su st"
    "A' = A\<lparr>turn_supply_next := to_f32 (realized_turn st), turn_flow_next := to_f32 (realized_turn st),
         inflow_vehicles_next := committed_inflow su st,
         outflow_vehicles_next := committed_outflow su st,
         queue_vehicles_next := committed_queue su st,
         travel_time_cost_next := update_travel_time_cost b (committed_queue su st) (su_capacity su),
         capacity_violation_flags_next := committed_flags su st\<rparr>"
  using assms that by (auto simp: finish_authority_def check_simps Let_def)

lemma core_authority_ready:
  assumes "tick_ready ls ns" "wf_inputs (tick_inputs ls ns b p f)"
  shows "authority_ready (numpy_flow_core (tick_inputs ls ns b p f)) ls ns"
  using assms core_arrays_fit[OF assms]
  by (simp add: authority_ready_def tick_ready_def arrays_fit_def Let_def)

text \<open>The fields of the setup that are read later.\<close>

lemma setup_simps [simp]:
  "su_queue (token_setup A ls ns p s) = map (\<lambda>x. max x 0) (queue_vehicles ls)"
  "su_capacity (token_setup A ls ns p s) = map (\<lambda>x. max x 0) (effective_capacity_vehicles ls)"
  "su_demand (token_setup A ls ns p s) = map (\<lambda>x. max x 0) (turn_demand ns)"
  "turn_source (su_budget (token_setup A ls ns p s)) = map nat (turn_from_link_index ns)"
  "turn_target (su_budget (token_setup A ls ns p s)) = map nat (turn_to_link_index ns)"
  "vehicles (su_budget (token_setup A ls ns p s))
     = map (\<lambda>x. \<lfloor>r32 (max x 0 + eps32)\<rfloor>) (queue_vehicles ls)"
  "turn_demand_tokens (su_budget (token_setup A ls ns p s))
     = map (\<lambda>x. \<lfloor>r32 (max x 0 + eps32)\<rfloor>) (turn_demand ns)"
  "sink_demand_tokens (su_budget (token_setup A ls ns p s)) = sink_demand p"
  by (simp_all add: token_setup_def Let_def comp_def)

lemma max0_queue: "wf_link ls \<Longrightarrow> map (\<lambda>x. max x 0) (queue_vehicles ls) = queue_vehicles ls"
  by (auto simp: wf_link_def intro!: map_idI)

lemma max0_demand: "wf_node ns \<Longrightarrow> map (\<lambda>x. max x 0) (turn_demand ns) = turn_demand ns"
  by (auto simp: wf_node_def intro!: map_idI)

text \<open>The float32 values of tokens are non-negative floats.\<close>

lemma to_f32_members: "\<forall>x \<in> set ts. 0 \<le> x \<Longrightarrow> \<forall>x \<in> set (to_f32 ts). is_f32 x \<and> 0 \<le> x"
  by (auto simp: to_f32_def f32.rd_nonneg)

lemma to_f32_length [simp]: "length (to_f32 ts) = length ts"
  by (simp add: to_f32_def)

lemma ledger_lengths:
  assumes "ledger b st"
  shows "length (realized_turn st) = length (turn_demand_tokens b)"
    "length (sink_flow st) = length (service_tokens b)"
    "length (next_turn_credit st) = length (turn_demand_tokens b)"
    "length (next_sink_credit st) = length (service_tokens b)"
    "length (remaining_service st) = length (service_tokens b)"
    "length (remaining_receiving st) = length (service_tokens b)"
  using assms by (simp_all add: ledger_def Let_def)

lemma ledger_nonneg:
  assumes "ledger b st"
  shows "\<forall>x \<in> set (realized_turn st). 0 \<le> x" "\<forall>x \<in> set (sink_flow st). 0 \<le> x"
    "\<forall>x \<in> set (remaining_service st). 0 \<le> x" "\<forall>x \<in> set (remaining_receiving st). 0 \<le> x"
  using assms by (auto simp: ledger_def Let_def all_set_conv_all_nth)

definition tick_setup :: "link_state \<Rightarrow> node_state \<Rightarrow> prior_authority \<Rightarrow>
    (rat list \<times> rat list) option \<Rightarrow> token_setup \<Rightarrow> token_state \<Rightarrow> bool" where
  "tick_setup ls ns prior storage su st \<longleftrightarrow>
     (\<exists>A. su = token_setup A ls ns prior storage \<and> authority_ready A ls ns) \<and>
     wf_prior (link_count ls) (turn_count ns) prior \<and> wf_storage (link_count ls) storage \<and>
     schedule_tokens (su_budget su) (su_eligible su) (su_turn_credit su) (su_sink_credit su) = Inr st \<and>
     wf_budget (su_budget su) \<and> ledger (su_budget su) st"

lemma setup_members:
  assumes "tick_setup ls ns prior storage su st"
  shows "\<forall>x \<in> set (committed_inflow su st). is_f32 x \<and> 0 \<le> x"
    "\<forall>x \<in> set (committed_outflow su st). is_f32 x \<and> 0 \<le> x"
    "\<forall>x \<in> set (committed_queue su st). is_f32 x \<and> 0 \<le> x"
proof -
  have led: "ledger (su_budget su) st" using assms by (simp add: tick_setup_def)
  have r: "\<forall>x \<in> set (to_f32 (realized_turn st)). 0 \<le> x" "\<forall>x \<in> set (to_f32 (sink_flow st)). 0 \<le> x"
    using to_f32_members[OF ledger_nonneg(1)[OF led]] to_f32_members[OF ledger_nonneg(2)[OF led]]
    by blast+
  show "\<forall>x \<in> set (committed_inflow su st). is_f32 x \<and> 0 \<le> x"
    using segment_sum_member[OF r(1)] by (auto simp: committed_inflow_def)
  show "\<forall>x \<in> set (committed_outflow su st). is_f32 x \<and> 0 \<le> x"
    using segment_sum_member[OF r(1)] r(2)
    by (auto simp: committed_outflow_def elim!: in_set_zipE intro!: f32.rd_nonneg add_nonneg_nonneg)
  show "\<forall>x \<in> set (committed_queue su st). is_f32 x \<and> 0 \<le> x"
    using queue_update_nonneg by (auto simp: committed_queue_def)
qed

lemma setup_lengths:
  assumes "tick_setup ls ns prior storage su st"
  shows "length (service_tokens (su_budget su)) = link_count ls"
    "length (receiving_tokens (su_budget su)) = link_count ls"
    "length (turn_demand_tokens (su_budget su)) = turn_count ns"
    "length (su_queue su) = link_count ls" "length (su_capacity su) = link_count ls"
    "length (committed_inflow su st) = link_count ls"
    "length (committed_outflow su st) = link_count ls"
    "length (committed_queue su st) = link_count ls"
    "length (committed_flags su st) = link_count ls"
    "length (su_eligible su) = turn_count ns"
proof -
  obtain A where su: "su = token_setup A ls ns prior storage" and ok: "authority_ready A ls ns"
      "wf_prior (link_count ls) (turn_count ns) prior" "wf_storage (link_count ls) storage"
    and led: "ledger (su_budget su) st"
    using assms by (auto simp: tick_setup_def)
  note len = token_setup_lengths[OF ok, folded su] ledger_lengths[OF led]
  show c: "length (service_tokens (su_budget su)) = link_count ls"
    "length (receiving_tokens (su_budget su)) = link_count ls"
    "length (turn_demand_tokens (su_budget su)) = turn_count ns"
    "length (su_queue su) = link_count ls" "length (su_capacity su) = link_count ls"
    "length (su_eligible su) = turn_count ns"
    using len by simp_all
  show i: "length (committed_inflow su st) = link_count ls"
    and o: "length (committed_outflow su st) = link_count ls"
    using c len by (simp_all add: committed_inflow_def committed_outflow_def)
  show "length (committed_queue su st) = link_count ls"
    "length (committed_flags su st) = link_count ls"
    using c i o by (simp_all add: committed_queue_def committed_flags_def)
qed

lemma setup_arrays_fit:
  assumes "tick_setup ls ns prior storage su st" "arrays_fit ls ns A" "length b = link_count ls"
    and "finish_authority A b su st storage = Inr (A', lm, nm)"
  shows "arrays_fit ls ns A'"
proof -
  note len = setup_lengths[OF assms(1)] and mem = setup_members[OF assms(1)]
  have led: "ledger (su_budget su) st" using assms(1) by (simp add: tick_setup_def)
  have "\<forall>x \<in> set (to_f32 (realized_turn st)). is_f32 x \<and> 0 \<le> x"
    by (rule to_f32_members[OF ledger_nonneg(1)[OF led]])
  moreover have "\<forall>x \<in> set (update_travel_time_cost b (committed_queue su st) (su_capacity su)).
      is_f32 x \<and> 0 < x"
    using travel_time_member len assms(3) by simp
  moreover have "length (update_travel_time_cost b (committed_queue su st) (su_capacity su))
      = link_count ls"
    using len assms(3) by (simp add: travel_time_length)
  ultimately show ?thesis
    using assms(2,4) len mem ledger_lengths[OF led]
    by (elim finish_authority_eq) (simp add: arrays_fit_def Let_def ball_Un)
qed

lemma authority_tick_setup:
  assumes "authority_ready A ls ns" "read_prior ls ns = Inr prior" "storage_views ls arg = Inr storage"
    "su = token_setup A ls ns prior storage"
    "schedule_tokens (su_budget su) (su_eligible su) (su_turn_credit su) (su_sink_credit su) = Inr st"
  shows "tick_setup ls ns prior storage su st"
proof -
  note ok = assms(1) read_prior_wf[OF assms(2)] storage_views_wf[OF assms(3)]
  show ?thesis
    using ok token_setup_budget[OF ok] authority_schedules[OF assms(1-3)] assms(4,5)
    by (auto simp: tick_setup_def)
qed

lemma discrete_tick:
  assumes "tick_ready ls ns" "update_link_node_flow rust ls ns v bk True arg = Inr r"
  obtains b p f prior storage su st A lm nm where
    "wf_inputs (tick_inputs ls ns b p f)" "read_link_base_travel_time ls = Inr b"
    "read_turn_forbidden (node_metadata ns) (turn_count ns) = Inr f"
    "read_prior ls ns = Inr prior" "storage_views ls arg = Inr storage"
    "su = token_setup (numpy_flow_core (tick_inputs ls ns b p f)) ls ns prior storage"
    "tick_setup ls ns prior storage su st"
    "finish_authority (numpy_flow_core (tick_inputs ls ns b p f)) b su st storage = Inr (A, lm, nm)"
    "arrays_fit ls ns A"
    "r = \<lparr>result_link = committed_link ls A
           ((link_metadata ls)(''free_flow_travel_time_cost'' \<mapsto> fin_vector b) ++ lm),
          result_node = committed_node ns A (node_metadata ns ++ nm)\<rparr>"
proof -
  have wf: "wf_link ls" "wf_node ns" "timers_in_range ns"
    using assms(1) by (simp_all add: tick_ready_def)
  obtain b p f where c: "compute_baseline_flow_arrays rust ''baseline'' ls ns
      = Inr (numpy_flow_core (tick_inputs ls ns b p f), b)"
    and wfi: "wf_inputs (tick_inputs ls ns b p f)" and base: "read_link_base_travel_time ls = Inr b"
    and forb: "read_turn_forbidden (node_metadata ns) (turn_count ns) = Inr f"
    using compute_baseline_ok[OF assms(1)] by metis
  let ?A = "numpy_flow_core (tick_inputs ls ns b p f)"
  have bk: "bk = ''baseline'' \<or> bk = ''auto''"
    using assms(2)
    by (auto simp: update_link_node_flow_def check_simps compute_baseline_flow_arrays_def
        compute_baseline_flow_arrays_core_def validate_flow_backend_def flow_backends_def
        split: if_splits)
  then have bk': "(if True \<and> bk = ''auto'' then ''baseline'' else bk) = ''baseline''"
    by auto
  obtain A lm nm where fin: "apply_discrete_agent_flow_authority ?A b ls ns arg = Inr (A, lm, nm)"
    and rest: "bindE (make_link_state (queue_vehicles_next A) (inflow_vehicles_next A)
              (outflow_vehicles_next A) (travel_time_cost_next A)
              (capacity_veh_per_tick ls) (incident_capacity_multiplier ls)
              (Some (capacity_violation_flags_next A))
              ((link_metadata ls)(''free_flow_travel_time_cost'' \<mapsto> fin_vector b) ++ lm)) (\<lambda>ls'.
        bindE (make_node_state (turn_from_link_index ns) (turn_to_link_index ns)
              (turn_demand_next A) (turn_supply_next A) (turn_flow_next A)
              (signal_phase_index ns) (signal_phase_timer_next A) (node_metadata ns ++ nm)) (\<lambda>ns'.
        if v \<and> validate_link_state ls' @ validate_node_state ns' micro64 \<noteq> []
        then Inl (ValueError ''invalid flow update result'')
        else Inr \<lparr>result_link = ls', result_node = ns'\<rparr>)) = Inr r"
    using assms(2)[unfolded update_link_node_flow_def bk' Let_def] c
    by (auto simp: check_simps simp del: append_is_Nil_conv)
  obtain prior storage st where ps: "read_prior ls ns = Inr prior" "storage_views ls arg = Inr storage"
    and st: "schedule_tokens (su_budget (token_setup ?A ls ns prior storage))
        (su_eligible (token_setup ?A ls ns prior storage))
        (su_turn_credit (token_setup ?A ls ns prior storage))
        (su_sink_credit (token_setup ?A ls ns prior storage)) = Inr st"
    and fa: "finish_authority ?A b (token_setup ?A ls ns prior storage) st storage = Inr (A, lm, nm)"
    using fin by (auto simp: apply_discrete_agent_flow_authority_def check_simps Let_def)
  let ?su = "token_setup ?A ls ns prior storage"
  have tset: "tick_setup ls ns prior storage ?su st"
    by (rule authority_tick_setup[OF core_authority_ready[OF assms(1) wfi] ps refl st])
  have fit: "arrays_fit ls ns A"
    by (rule setup_arrays_fit[OF tset core_arrays_fit[OF assms(1) wfi] _ fa])
      (rule read_lengths(3)[OF wf(1) base])
  have "r = \<lparr>result_link = committed_link ls A
           ((link_metadata ls)(''free_flow_travel_time_cost'' \<mapsto> fin_vector b) ++ lm),
          result_node = committed_node ns A (node_metadata ns ++ nm)\<rparr>"
    using rest make_link_committed[OF wf(1) fit] make_node_committed[OF wf(2) fit wf(3)]
    by (simp split: if_splits)
  then show ?thesis using that wfi base forb ps tset fa fit by blast
qed

section \<open>Exact conservation on integral queues\<close>

text \<open>A queue of whole vehicles, few enough for float32 to count exactly.\<close>

definition integral_queue :: "link_state \<Rightarrow> int list \<Rightarrow> bool" where
  "integral_queue ls N \<longleftrightarrow> queue_vehicles ls = map of_int N \<and> (\<forall>n \<in> set N. 0 \<le> n) \<and>
     sum_list N < 2 ^ 23"

lemma eps32_small: "eps32 \<le> 1 / 2"
  unfolding eps32_def by (rule f32.rd_le_float) (use r32_half[of 0] in simp_all)

lemma integral_vehicles:
  assumes "tick_setup ls ns prior storage su st" "integral_queue ls N"
  shows "vehicles (su_budget su) = N"
proof -
  have small: "n < 2 ^ 23" if "n \<in> set N" for n
    using assms(2) that member_le_sum_list[of n N] by (force simp: integral_queue_def)
  have "\<lfloor>r32 (max (of_int n) 0 + eps32)\<rfloor> = n" if "n \<in> set N" for n
  proof -
    have "0 \<le> n" using assms(2) that by (simp add: integral_queue_def)
    then show ?thesis
      using floor_tolerance[OF _ small[OF that] eps32_nonneg eps32_small] by simp
  qed
  then show ?thesis
    using assms by (auto simp: tick_setup_def integral_queue_def intro!: map_idI)
qed

text \<open>The vehicles that leave are at most those that were there.\<close>

lemma ledger_total:
  assumes "wf_budget b" "ledger b st"
  shows "sum_list (realized_turn st) + sum_list (sink_flow st) \<le> sum_list (vehicles b)"
proof -
  let ?n = "length (service_tokens b)"
  have len: "length (vehicles b) = ?n" "length (realized_turn st) = length (turn_source b)"
    "\<forall>i \<in> set (turn_source b). i < ?n"
    using assms by (simp_all add: wf_budget_def ledger_def Let_def)
  have "(\<Sum>s<?n. sink_flow st ! s + segment_total (realized_turn st) (turn_source b) s)
      \<le> (\<Sum>s<?n. vehicles b ! s)"
    using assms(2) by (intro sum_mono) (auto simp: ledger_def Let_def)
  then show ?thesis
    using segment_total_sum[OF len(3,2)] ledger_lengths(2)[OF assms(2)] len(1)
    by (simp add: sum.distrib sum_list_sum_nth atLeast0LessThan)
qed

lemma ledger_balance:
  assumes "wf_budget b" "ledger b st" "length (service_tokens b) = n"
  shows "(\<Sum>s<n. vehicles b ! s - (segment_total (realized_turn st) (turn_source b) s + sink_flow st ! s)
      + segment_total (realized_turn st) (turn_target b) s) = sum_list (vehicles b) - sum_list (sink_flow st)"
proof -
  have len: "length (vehicles b) = n" "length (realized_turn st) = length (turn_source b)"
    "length (realized_turn st) = length (turn_target b)" "length (sink_flow st) = n"
    "\<forall>i \<in> set (turn_source b). i < n" "\<forall>i \<in> set (turn_target b). i < n"
    using assms by (simp_all add: wf_budget_def ledger_def Let_def)
  show ?thesis
    using segment_total_sum[OF len(5,2)] segment_total_sum[OF len(6,3)] len(1,4)
    by (simp add: sum.distrib sum_subtractf sum_list_sum_nth atLeast0LessThan)
qed

lemma integral_commit:
  assumes "tick_setup ls ns prior storage su st" "integral_queue ls N" "s < link_count ls"
  defines "b \<equiv> su_budget su"
  defines "inn \<equiv> segment_total (realized_turn st) (turn_target b) s"
    and "out \<equiv> segment_total (realized_turn st) (turn_source b) s + sink_flow st ! s"
  shows "committed_inflow su st ! s = of_int inn" "committed_outflow su st ! s = of_int out"
    "committed_queue su st ! s = of_int (N ! s - out + inn)" "0 \<le> inn" "0 \<le> out" "out \<le> N ! s"
    "inn \<le> receiving_tokens b ! s" "N ! s - out + inn < 2 ^ 23"
proof -
  have led: "ledger b st" and wfb: "wf_budget b" using assms(1) by (simp_all add: tick_setup_def b_def)
  note len = setup_lengths[OF assms(1)] ledger_lengths[OF led]
  have veh: "vehicles b = N" using integral_vehicles[OF assms(1,2)] by (simp add: b_def)
  have nn: "\<forall>t \<in> set (realized_turn st). 0 \<le> t" "\<forall>t \<in> set (sink_flow st). 0 \<le> t"
    using ledger_nonneg[OF led] by simp_all
  have N: "\<forall>n \<in> set N. 0 \<le> n" "sum_list N < 2 ^ 23" "length N = link_count ls"
    using assms(2) by (auto simp: integral_queue_def link_count_def)
  have tot: "sum_list (realized_turn st) + sum_list (sink_flow st) \<le> sum_list N"
    using ledger_total[OF wfb led] by (simp add: veh)
  have srcs: "\<forall>i \<in> set (turn_source b). i < link_count ls" "\<forall>i \<in> set (turn_target b). i < link_count ls"
    "length (realized_turn st) = length (turn_source b)"
    "length (realized_turn st) = length (turn_target b)"
    using wfb len by (simp_all add: wf_budget_def Let_def b_def)
  have seg: "segment_total (realized_turn st) idx j \<le> sum_list (realized_turn st)"
    if "\<forall>i \<in> set idx. i < link_count ls" "length (realized_turn st) = length idx" "j < link_count ls"
    for idx j
    using segment_total_sum[OF that(1,2)] segment_total_nonneg[OF nn(1)] that(3)
      member_le_sum[of j "{..<link_count ls}" "segment_total (realized_turn st) idx"] by simp
  have sn: "0 \<le> sum_list (sink_flow st)" "0 \<le> sum_list (realized_turn st)"
    using nn by (simp_all add: sum_list_nonneg)
  have small: "\<forall>t \<in> set (realized_turn st). t \<le> 2 ^ 24" "\<forall>t \<in> set (sink_flow st). t \<le> 2 ^ 24"
    using sum_list_members_le[OF nn(1)] sum_list_members_le[OF nn(2)] tot N(2) sn by force+
  have f32: "to_f32 (realized_turn st) = map of_int (realized_turn st)"
    "to_f32 (sink_flow st) = map of_int (sink_flow st)"
    using small nn by (simp_all add: to_f32_def r32_of_int)
  have ints: "segment_sum (to_f32 (realized_turn st)) idx (link_count ls) ! s
      = of_int (segment_total (realized_turn st) idx s)"
    if "\<forall>i \<in> set idx. i < link_count ls" "length (realized_turn st) = length idx" for idx
    unfolding f32(1)
    by (rule segment_sum_ints[OF nn(1) that(2) _ assms(3) small(1)])
      (use seg[OF that] tot N(2) sn in force)
  have sl: "s < length (sink_flow st)" using len assms(3) by (simp add: b_def)
  have sk: "sink_flow st ! s \<in> set (sink_flow st)" using sl by simp
  show i: "committed_inflow su st ! s = of_int inn"
    using ints[OF srcs(2,4)] len by (simp add: committed_inflow_def inn_def b_def)
  have bound: "inn + sum_list (sink_flow st) < 2 ^ 23" "out < 2 ^ 23"
    using seg[OF srcs(2,4) assms(3)] seg[OF srcs(1,3) assms(3)] tot N(2) sn
      sum_list_members_le[OF nn(2) sk] unfolding inn_def out_def by linarith+
  show in0: "0 \<le> inn" and out0: "0 \<le> out"
    using segment_total_nonneg[OF nn(1)] nn(2) sk by (simp_all add: inn_def out_def)
  show o: "committed_outflow su st ! s = of_int out"
    using ints[OF srcs(1,3)] len assms(3) bound(2) out0
    by (simp add: committed_outflow_def out_def b_def f32(2)[symmetric]) 
      (simp add: f32(2) f32.rd_add_ints)
  show le: "out \<le> N ! s" "inn \<le> receiving_tokens b ! s"
    using led assms(3) len veh by (auto simp: ledger_def Let_def out_def inn_def b_def)
  let ?left = "\<lambda>j. N ! j - (segment_total (realized_turn st) (turn_source b) j + sink_flow st ! j)
      + segment_total (realized_turn st) (turn_target b) j"
  have left: "0 \<le> ?left j" if "j < link_count ls" for j
  proof -
    have "segment_total (realized_turn st) (turn_source b) j + sink_flow st ! j \<le> N ! j"
      using led that len veh by (auto simp: ledger_def Let_def b_def)
    then show ?thesis using segment_total_nonneg[OF nn(1), of "turn_target b" j] by linarith
  qed
  have "?left s \<le> (\<Sum>j<link_count ls. ?left j)"
    using left assms(3) by (intro member_le_sum) auto
  also have "\<dots> = sum_list N - sum_list (sink_flow st)"
    using ledger_balance[OF wfb led] len veh by (simp add: b_def)
  finally show fits: "N ! s - out + inn < 2 ^ 23"
    using N(2) sn unfolding inn_def out_def by linarith
  have q: "su_queue su ! s = of_int (N ! s)"
  proof -
    have "0 \<le> N ! s" "queue_vehicles ls ! s = of_int (N ! s)"
      using N assms(2,3) by (simp_all add: integral_queue_def)
    then show ?thesis using assms(1,3) by (auto simp: tick_setup_def link_count_def)
  qed
  have "r32 (of_int (N ! s) - of_int out) = of_int (N ! s - out)"
    using r32_of_int[of "N ! s - out"] le(1) out0 in0 fits by simp
  moreover have "r32 (of_int (N ! s - out) + of_int inn) = of_int (N ! s - out + inn)"
    using f32.rd_add_ints[of "N ! s - out" inn] le(1) in0 fits by simp
  ultimately show "committed_queue su st ! s = of_int (N ! s - out + inn)"
    using i o q len assms(3) le(1) in0
    by (simp add: committed_queue_def queue_update_def del: of_int_add of_int_diff)
qed

section \<open>Properties of the discrete tick\<close>

lemma setup_ineligible:
  assumes "tick_setup ls ns prior storage su st"
    "su = token_setup A ls ns prior storage" "length (turn_flow_next A) = turn_count ns"
    "wf_node ns" "j < turn_count ns" "turn_flow_next A ! j = 0"
  shows "realized_turn st ! j = 0"
proof -
  have "\<not> su_eligible su ! j"
    using assms(2-6)
    by (auto simp: token_setup_def Let_def mask_by_space_def turn_count_def wf_node_def
        split: option.splits if_splits)
  moreover have "only_eligible (eligible_turns (su_eligible su)) st"
  proof (rule schedule_only_eligible)
    show "schedule_tokens (su_budget su) (su_eligible su) (su_turn_credit su) (su_sink_credit su) = Inr st"
      using assms(1) by (simp add: tick_setup_def)
  qed (use setup_lengths[OF assms(1)] in simp)
  ultimately show ?thesis
    using assms(1,5) setup_lengths(3)[OF assms(1)] ledger_lengths(1)[of "su_budget su" st]
    by (auto simp: only_eligible_def eligible_turns_def tick_setup_def)
qed

lemma core_forbidden:
  assumes "wf_inputs fi" "j < length (fi_demand fi)" "fi_forbidden fi ! j"
  shows "turn_flow_next (numpy_flow_core fi) ! j = 0"
  using assms flow_nth[OF assms(1,2)] by (auto simp: numpy_flow_core_def Let_def)

text \<open>C16: the deficit scheduler always returns; its ledger balances (each remaining budget is
  the budget less what was granted, and none is negative), it stops only when no eligible turn
  and no sink can still be served, and turns that were not eligible get nothing.\<close>

theorem scheduler_serves_all_it_can:
  assumes "wf_budget b" "length el = length (turn_demand_tokens b)"
    and "length tc = length (turn_demand_tokens b)" "length sc = length (sink_demand_tokens b)"
  shows "\<exists>st. schedule_tokens b el tc sc = Inr st \<and> ledger b st \<and>
    (\<forall>k \<in> eligible_turns el. \<not> turn_servable (turn_source b) (turn_target b) st k) \<and>
    (\<forall>s < length (sink_demand_tokens b). \<not> sink_servable st s) \<and>
    (\<forall>k < length el. \<not> el ! k \<longrightarrow> realized_turn st ! k = 0)"
proof -
  obtain st where st: "schedule_tokens b el tc sc = Inr st" "ledger b st" "service_heap st = []"
    "pending b (eligible_turns el) {..<length (sink_demand_tokens b)} st"
    using schedule_tokens_correct[OF assms] by blast
  then show ?thesis
    using schedule_only_eligible[OF st(1) assms(2)] assms(2) ledger_lengths(1)[OF st(2)]
    by (auto simp: pending_def only_eligible_def eligible_turns_def)
qed


lemma to_f32_small:
  assumes "\<forall>x \<in> set xs. 0 \<le> x" "sum_list xs < 2 ^ 23" shows "to_f32 xs = map of_int xs"
  using assms sum_list_members_le[of xs] by (force simp: to_f32_def intro!: r32_of_int)

text \<open>The queue of whole vehicles a tick leaves behind.\<close>

definition queue_after :: "link_state \<Rightarrow> node_state \<Rightarrow> int list \<Rightarrow> int list \<Rightarrow> int list \<Rightarrow> int list" where
  "queue_after ls ns N moves sinks = map (\<lambda>s. N ! s
     - (segment_total moves (map nat (turn_from_link_index ns)) s + sinks ! s)
     + segment_total moves (map nat (turn_to_link_index ns)) s) [0..<link_count ls]"

lemma queue_after_integral:
  assumes "tick_setup ls ns prior storage su st" "integral_queue ls N"
    "queue_vehicles ls' = map of_int (queue_after ls ns N (realized_turn st) (sink_flow st))"
    "turn_source (su_budget su) = map nat (turn_from_link_index ns)"
    "turn_target (su_budget su) = map nat (turn_to_link_index ns)"
  shows "integral_queue ls' (queue_after ls ns N (realized_turn st) (sink_flow st))"
    "sum_list (queue_after ls ns N (realized_turn st) (sink_flow st)) = sum_list N - sum_list (sink_flow st)"
proof -
  let ?N = "queue_after ls ns N (realized_turn st) (sink_flow st)"
  have bud: "wf_budget (su_budget su)" "ledger (su_budget su) st"
    using assms(1) by (simp_all add: tick_setup_def)
  show tot: "sum_list ?N = sum_list N - sum_list (sink_flow st)"
    using ledger_balance[OF bud setup_lengths(1)[OF assms(1)]]
    by (simp add: integral_vehicles[OF assms(1,2)] assms(4,5) queue_after_def
        interv_sum_list_conv_sum_set_nat atLeast0LessThan)
  have "0 \<le> sum_list (sink_flow st)"
    using ledger_nonneg(2)[OF bud(2)] by (simp add: sum_list_nonneg)
  then have "sum_list ?N < 2 ^ 23" using tot assms(2) by (simp add: integral_queue_def)
  moreover have "\<forall>n \<in> set ?N. 0 \<le> n"
  proof
    fix n assume "n \<in> set ?N"
    then obtain s where s: "s < link_count ls" "n = ?N ! s" by (auto simp: queue_after_def)
    show "0 \<le> n"
      using integral_commit(4,6)[OF assms(1,2) s(1)] s by (simp add: queue_after_def assms(4,5))
  qed
  ultimately show "integral_queue ls' ?N" using assms(3) by (simp add: integral_queue_def)
qed

text \<open>A tick seen in whole vehicles: what its tokens are bounded by and the queue they leave.\<close>

lemma tick_view:
  assumes "tick_ready ls ns" "integral_queue ls N" "update_link_node_flow rust ls ns v bk True arg = Inr r"
  obtains moves sinks prior nm where
    "read_prior ls ns = Inr prior"
    "turn_flow (result_node r) = to_f32 moves" "turn_flow (result_node r) = map of_int moves"
    "link_metadata (result_link r) ''runtime_sink_flow_vehicles'' = Some (fin_vector (to_f32 sinks))"
    "node_metadata (result_node r) = node_metadata ns ++ nm" "''turn_is_forbidden'' \<notin> dom nm"
    "nm ''runtime_sink_flow_by_link_index'' = Some (fin_vector (map of_int sinks))"
    "length moves = turn_count ns" "length sinks = link_count ls"
    "\<forall>x \<in> set moves. 0 \<le> x" "\<forall>x \<in> set sinks. 0 \<le> x" "sum_list moves + sum_list sinks < 2 ^ 23"
    "\<forall>j < turn_count ns. moves ! j \<le> \<lfloor>r32 (turn_demand ns ! j + eps32)\<rfloor>"
    "\<forall>s < link_count ls. sinks ! s \<le> sink_demand prior ! s \<and>
       segment_total moves (map nat (turn_from_link_index ns)) s + sinks ! s \<le> N ! s"
    "integral_queue (result_link r) (queue_after ls ns N moves sinks)"
    "sum_list (queue_after ls ns N moves sinks) = sum_list N - sum_list sinks"
    "turn_from_link_index (result_node r) = turn_from_link_index ns"
    "turn_to_link_index (result_node r) = turn_to_link_index ns"
proof -
  obtain b p f prior storage su st A lm nm where
    pr: "read_prior ls ns = Inr prior"
    and su: "su = token_setup (numpy_flow_core (tick_inputs ls ns b p f)) ls ns prior storage"
    and ts: "tick_setup ls ns prior storage su st"
    and fin: "finish_authority (numpy_flow_core (tick_inputs ls ns b p f)) b su st storage = Inr (A, lm, nm)"
    and r: "r = \<lparr>result_link = committed_link ls A
           ((link_metadata ls)(''free_flow_travel_time_cost'' \<mapsto> fin_vector b) ++ lm),
          result_node = committed_node ns A (node_metadata ns ++ nm)\<rparr>"
    using discrete_tick[OF assms(1,3)] by metis
  have wf: "wf_node ns" using assms(1) by (simp add: tick_ready_def)
  have bud: "wf_budget (su_budget su)" "ledger (su_budget su) st" using ts by (simp_all add: tick_setup_def)
  have src: "turn_source (su_budget su) = map nat (turn_from_link_index ns)"
    "turn_target (su_budget su) = map nat (turn_to_link_index ns)"
    "sink_demand_tokens (su_budget su) = sink_demand prior" by (simp_all add: su)
  note len = setup_lengths[OF ts] and ll = ledger_lengths[OF bud(2)] and nn = ledger_nonneg[OF bud(2)]
  note commit = integral_commit[OF ts assms(2), unfolded src]
  have tot: "sum_list (realized_turn st) + sum_list (sink_flow st) < 2 ^ 23"
    using ledger_total[OF bud] integral_vehicles[OF ts assms(2)] assms(2) by (simp add: integral_queue_def)
  have nonneg: "0 \<le> sum_list (realized_turn st)" "0 \<le> sum_list (sink_flow st)"
    using nn by (simp_all add: sum_list_nonneg)
  have f32: "to_f32 (realized_turn st) = map of_int (realized_turn st)"
    "to_f32 (sink_flow st) = map of_int (sink_flow st)"
    using tot nonneg nn by (auto intro!: to_f32_small)
  have dem: "turn_demand_tokens (su_budget su) ! j = \<lfloor>r32 (turn_demand ns ! j + eps32)\<rfloor>"
    if "j < turn_count ns" for j
    using that max0_demand[OF wf] unfolding su turn_count_def
    by (simp add: comp_def flip: map_map[of "\<lambda>x. \<lfloor>r32 (x + eps32)\<rfloor>" "\<lambda>x. max x 0", unfolded comp_def])
  have le: "\<forall>j < turn_count ns. realized_turn st ! j \<le> \<lfloor>r32 (turn_demand ns ! j + eps32)\<rfloor>"
    "\<forall>s < link_count ls. sink_flow st ! s \<le> sink_demand prior ! s \<and>
       segment_total (realized_turn st) (map nat (turn_from_link_index ns)) s + sink_flow st ! s \<le> N ! s"
    using bud(2) dem len src(3) commit(6) by (auto simp: ledger_def Let_def)
  have md: "turn_flow (result_node r) = to_f32 (realized_turn st)"
    "link_metadata (result_link r) ''runtime_sink_flow_vehicles'' = Some (fin_vector (to_f32 (sink_flow st)))"
    "nm ''runtime_sink_flow_by_link_index'' = Some (fin_vector (map of_int (sink_flow st)))"
    "''turn_is_forbidden'' \<notin> dom nm"
    using fin f32(2)
    by (elim finish_authority_eq; simp add: r committed_link_def committed_node_def authority_link_metadata_def
        authority_node_metadata_def Let_def)+
  have q: "queue_vehicles (result_link r) = map of_int (queue_after ls ns N (realized_turn st) (sink_flow st))"
    using fin len commit(3)
    by (elim finish_authority_eq) (auto simp: r committed_link_def queue_after_def intro!: nth_equalityI)
  note qi = queue_after_integral[OF ts assms(2) q src(1,2)]
  show ?thesis
    by (rule that[OF pr md(1) _ md(2) _ md(4,3) _ _ nn(1,2) tot le qi])
      (use ll len f32(1) md(1) in \<open>simp_all add: r committed_node_def\<close>)
qed

text \<open>C5: a discrete tick on a queue of whole vehicles conserves them exactly, float32 arrays
  notwithstanding: every queue is what it was, less what left, plus what entered; nothing
  leaves that was not there; and the total falls by precisely the vehicles that reached
  their sinks.\<close>

theorem discrete_tick_conserves_vehicles:
  assumes "tick_ready ls ns" "integral_queue ls N"
    and "update_link_node_flow rust ls ns v bk True arg = Inr r"
  shows "\<exists>moves sinks N'. turn_flow (result_node r) = to_f32 moves \<and>
    link_metadata (result_link r) ''runtime_sink_flow_vehicles'' = Some (fin_vector (to_f32 sinks)) \<and>
    integral_queue (result_link r) N' \<and>
    (\<forall>s < link_count ls.
       segment_total moves (map nat (turn_from_link_index ns)) s + sinks ! s \<le> N ! s \<and>
       N' ! s = N ! s - (segment_total moves (map nat (turn_from_link_index ns)) s + sinks ! s)
         + segment_total moves (map nat (turn_to_link_index ns)) s) \<and>
    sum_list N' = sum_list N - sum_list sinks"
  by (rule tick_view[OF assms], intro exI conjI, assumption+) (auto simp: queue_after_def)

section \<open>Finite storage\<close>

lemma storage_gap:
  assumes "storage_views ls (Some (map (\<lambda>m. Fin (of_int m)) M)) = Inr storage"
    "integral_queue ls N" "\<forall>m \<in> set M. m < 2 ^ 23"
  obtains space where "storage = Some (map of_int M, space)" "length M = link_count ls"
    "length space = link_count ls"
    "\<And>s. s < link_count ls \<Longrightarrow> N ! s \<le> M ! s \<and> \<lfloor>r32 (space ! s + eps32)\<rfloor> = M ! s - N ! s"
proof -
  have N: "queue_vehicles ls = map of_int N" "\<forall>n \<in> set N. 0 \<le> n" "length N = link_count ls"
    using assms(2) by (auto simp: integral_queue_def link_count_def)
  have M1: "\<forall>m \<in> set M. 1 \<le> r32 (of_int m)" and lenM: "length M = link_count ls"
    and fits: "\<forall>(x, s) \<in> set (zip (map (\<lambda>n. max (of_int n) 0) N) (map (\<lambda>m. r32 (of_int m)) M)).
      \<not> r32 (s + eps32) < x"
    and st: "storage = Some (map (\<lambda>m. r32 (of_int m)) M, map2 (\<lambda>s x. max (r32 (s - x)) 0)
      (map (\<lambda>m. r32 (of_int m)) M) (map (\<lambda>n. max (of_int n) 0) N))"
    using assms(1) N(1)
    by (auto simp: storage_views_def check_simps Let_def comp_def linorder_not_less)
  have Mpos: "1 \<le> m" if "m \<in> set M" for m
  proof (rule ccontr)
    assume "\<not> 1 \<le> m"
    then have "r32 (of_int m) \<le> 0" by (intro f32.rd_nonpos) simp
    then show False using M1 that by force
  qed
  have Mr: "map (\<lambda>m. r32 (of_int m)) M = map of_int M"
    using Mpos assms(3) by (force intro!: map_cong r32_of_int)
  have gap: "N ! s \<le> M ! s \<and> \<lfloor>r32 (max (r32 (of_int (M ! s) - max (of_int (N ! s)) 0)) 0 + eps32)\<rfloor>
      = M ! s - N ! s" if s: "s < link_count ls" for s
  proof -
    have ms: "M ! s \<in> set M" "N ! s \<in> set N" using s lenM N(3) by simp_all
    then have b: "0 \<le> N ! s" "1 \<le> M ! s" "M ! s < 2 ^ 23" using N(2) Mpos assms(3) by simp_all
    have "(max (of_int (N ! s)) 0, of_int (M ! s))
        \<in> set (zip (map (\<lambda>n. max (of_int n) 0) N) (map of_int M))"
      using s lenM N(3) by (force simp: set_zip)
    then have "of_int (N ! s) \<le> r32 (of_int (M ! s) + eps32)"
      using fits b(1) by (auto simp: Mr)
    then have "N ! s \<le> \<lfloor>r32 (of_int (M ! s) + eps32)\<rfloor>" by (simp add: le_floor_iff)
    then have le: "N ! s \<le> M ! s"
      using floor_tolerance[OF _ b(3) eps32_nonneg eps32_small] b(2) by simp
    have "max (r32 (of_int (M ! s) - max (of_int (N ! s)) 0)) 0 = of_int (M ! s - N ! s)"
      using r32_of_int[of "M ! s - N ! s"] le b max_absorb1[of 0 "of_int (N ! s) :: rat"]
        max_absorb1[of 0 "of_int (M ! s - N ! s) :: rat"] by simp
    then show ?thesis
      using le b floor_tolerance[OF _ _ eps32_nonneg eps32_small, of "M ! s - N ! s"]
      by simp
  qed
  show ?thesis
    by (rule that[OF st[unfolded Mr] lenM]) (use lenM N(3) gap in simp_all)
qed

lemma setup_receiving_le:
  assumes "tick_setup ls ns prior storage su st" "storage = Some (cap, space)" "s < link_count ls"
  shows "receiving_tokens (su_budget su) ! s \<le> \<lfloor>r32 (space ! s + eps32)\<rfloor>"
proof -
  obtain A where su: "su = token_setup A ls ns prior storage"
    using assms(1) by (auto simp: tick_setup_def)
  have "length space = link_count ls" using assms(1,2) by (simp add: tick_setup_def wf_storage_def)
  moreover have "length (receiving_tokens (su_budget su)) = link_count ls" by (rule setup_lengths[OF assms(1)])
  ultimately show ?thesis using assms(2,3) by (auto simp: su token_setup_def Let_def)
qed

lemma bindE_eq_Inl: "bindE x f = Inl e \<longleftrightarrow> x = Inl e \<or> (\<exists>a. x = Inr a \<and> f a = Inl e)"
  by (cases x) auto

lemma checks_value_error: "checks cs = Inl e \<Longrightarrow> \<not> is_runtime_error e"
  by (induction cs) (auto simp: checks.simps is_runtime_error_def split: if_splits)

lemma metadata_vector_error: "metadata_vector m k n neg req ub = Inl e \<Longrightarrow> \<not> is_runtime_error e"
  by (auto simp: metadata_vector_def bindE_eq_Inl Let_def is_runtime_error_def
      dest: checks_value_error split: option.splits sum.splits if_splits)

lemma meta_version_error: "meta_version m = Inl e \<Longrightarrow> \<not> is_runtime_error e"
  by (auto simp: meta_version_def is_runtime_error_def
      split: option.splits meta_value.splits pyfloat.splits)

lemma read_prior_error: "read_prior ls ns = Inl e \<Longrightarrow> \<not> is_runtime_error e"
  by (auto simp: read_prior_def read_carries_def bindE_eq_Inl Let_def
      dest: metadata_vector_error meta_version_error checks_value_error split: if_splits)

lemma storage_views_error: "storage_views ls arg = Inl e \<Longrightarrow> \<not> is_runtime_error e"
  by (auto simp: storage_views_def bindE_eq_Inl Let_def dest: checks_value_error
      split: option.splits)

lemma finish_storage_error:
  "finish_authority A b su st (Some (cap, space))
     = Inl (RuntimeError ''spatial queue update exceeded finite link storage'') \<Longrightarrow>
   \<exists>(x, s) \<in> set (zip (committed_queue su st) cap). r32 (s + eps32) < x"
  by (simp add: finish_authority_def Let_def bindE_eq_Inl raise_if_def unit_residual_float32_def
      split: if_splits)

lemma storage_commit_le:
  assumes "tick_setup ls ns prior storage su st" "storage_views ls (Some (map (\<lambda>m. Fin (of_int m)) M)) = Inr storage"
    "integral_queue ls N" "\<forall>m \<in> set M. m < 2 ^ 23" "s < link_count ls"
  shows "committed_queue su st ! s \<le> of_int (M ! s)"
proof -
  obtain space where sp: "storage = Some (map of_int M, space)"
    and gap: "\<And>s. s < link_count ls \<Longrightarrow> N ! s \<le> M ! s \<and> \<lfloor>r32 (space ! s + eps32)\<rfloor> = M ! s - N ! s"
    using storage_gap[OF assms(2-4)] by metis
  note commit = integral_commit[OF assms(1,3)]
  show ?thesis
    unfolding commit(3)[OF assms(5)] of_int_le_iff
    using commit(5,7)[OF assms(5)] setup_receiving_le[OF assms(1) sp assms(5)] gap[OF assms(5)] by linarith
qed

text \<open>C17: with finite integral storage the authority never overfills a link.  The queue it commits
  is at most the storage everywhere, so its own check \<^verbatim>\<open>spatial queue update exceeded finite link
  storage\<close> cannot fire.\<close>

theorem finite_storage_never_overfilled:
  fixes b :: "rat list"
  assumes "authority_ready A ls ns" "integral_queue ls N" "\<forall>m \<in> set M. m < 2 ^ 23"
  defines "res \<equiv> apply_discrete_agent_flow_authority A b ls ns (Some (map (\<lambda>m. Fin (of_int m)) M))"
  shows "res \<noteq> Inl (RuntimeError ''spatial queue update exceeded finite link storage'') \<and>
    (\<forall>A' lm nm s. res = Inr (A', lm, nm) \<and> s < link_count ls \<longrightarrow>
       queue_vehicles_next A' ! s \<le> of_int (M ! s))"
proof (cases "storage_views ls (Some (map (\<lambda>m. Fin (of_int m)) M))")
  case (Inl e)
  then show ?thesis
    using storage_views_error[OF Inl]
    by (auto simp: res_def apply_discrete_agent_flow_authority_def is_runtime_error_def)
next
  case (Inr storage)
  note sv = Inr
  show ?thesis
  proof (cases "read_prior ls ns")
    case (Inl e)
    then show ?thesis
      using read_prior_error[OF Inl] sv
      by (auto simp: res_def apply_discrete_agent_flow_authority_def is_runtime_error_def)
  next
    case (Inr prior)
    define su where "su = token_setup A ls ns prior storage"
    obtain st where st: "schedule_tokens (su_budget su) (su_eligible su) (su_turn_credit su)
        (su_sink_credit su) = Inr st"
      using authority_schedules[OF assms(1) Inr sv] su_def by blast
    have ts: "tick_setup ls ns prior storage su st"
      by (rule authority_tick_setup[OF assms(1) Inr sv su_def st])
    obtain space where sp: "storage = Some (map of_int M, space)" "length M = link_count ls"
      and gap: "\<And>s. s < link_count ls \<Longrightarrow> N ! s \<le> M ! s \<and> \<lfloor>r32 (space ! s + eps32)\<rfloor> = M ! s - N ! s"
      using storage_gap[OF sv assms(2,3)] by metis
    note len = setup_lengths[OF ts] and le = storage_commit_le[OF ts sv assms(2,3)]
    have "\<not> r32 (of_int (M ! s) + eps32) < committed_queue su st ! s" if "s < link_count ls" for s
    proof -
      have "0 \<le> N ! s" using that assms(2) by (simp add: integral_queue_def link_count_def)
      then have m: "M ! s < 2 ^ 23" "0 \<le> M ! s" using that assms(3) sp(2) gap[OF that] by force+
      have "of_int (M ! s) \<le> r32 (of_int (M ! s) + eps32)"
        by (rule f32.rd_add_ge) (use m eps32_nonneg in \<open>simp_all add: r32_of_int\<close>)
      with le[OF that] show ?thesis by linarith
    qed
    then have "\<not> (\<exists>(x, s) \<in> set (zip (committed_queue su st) (map of_int M)). r32 (s + eps32) < x)"
      using sp(2) len by (auto simp: set_zip)
    moreover have "res = finish_authority A b su st storage"
      unfolding res_def apply_discrete_agent_flow_authority_def sv Inr bindE_simps Let_def
        su_def[symmetric] st by (rule refl)
    ultimately show ?thesis
      using finish_storage_error[of A b su st "map of_int M" space] le sp(1)
      by (auto elim: finish_authority_eq)
  qed
qed

section \<open>The next tick accepts what this one wrote\<close>

lemma if_Inr_iff: "(if P then Inl e else Inr ys) = Inr xs \<longleftrightarrow> \<not> P \<and> ys = xs"
  by simp

lemma unit_residual_bounds:
  assumes "unit_residual_float32 vals = Inr xs" "x \<in> set xs"
  shows "is_f32 x \<and> 0 \<le> x \<and> x < 1"
proof -
  have "is_f32 next_below_one32"
    unfolding is_f32_def r32_def next_below_one32_def
    by (rule round_float_exact[of _ "2 ^ 24 - 1" "- 24"]) (simp_all add: power_int_def power_divide)
  moreover have "0 \<le> next_below_one32" "next_below_one32 < 1"
    by (simp_all add: next_below_one32_def)
  moreover obtain y where "x = min (r32 y) next_below_one32" "0 \<le> y"
  proof -
    let ?res = "map (\<lambda>x. if \<bar>x\<bar> \<le> nano64 then 0 else x) vals"
    note res = assms(1)[unfolded unit_residual_float32_def Let_def if_Inr_iff]
    have "x \<in> (\<lambda>x. min (r32 x) next_below_one32) ` set ?res"
      using assms(2) conjunct2[OF res] by (metis list.set_map)
    then obtain y where "y \<in> set ?res" "x = min (r32 y) next_below_one32" by blast
    moreover have "\<not> y < 0" using conjunct1[OF res] \<open>y \<in> set ?res\<close> by blast
    ultimately show ?thesis using that by (simp only: linorder_not_less)
  qed
  ultimately show ?thesis by (simp add: is_f32_min min_less_iff_disj f32.rd_nonneg)
qed

lemma unit_residual_length: "unit_residual_float32 vals = Inr xs \<Longrightarrow> length xs = length vals"
  by (auto simp: unit_residual_float32_def Let_def split: if_splits)

text \<open>A stored vector of floats is read back as it is.\<close>

lemma metadata_vector_reread:
  assumes "m key = Some (fin_vector xs)" "length xs = n" "\<forall>x \<in> set xs. is_f32 x"
    "neg \<or> (\<forall>x \<in> set xs. 0 \<le> x)" "\<forall>x \<in> set xs. \<not> above_bound ub x"
  shows "metadata_vector m key n neg req ub = Inr xs"
proof -
  have "map (finite_part \<circ> (pf_r32 \<circ> Fin)) xs = xs" using assms(3) by (simp add: map_idI)
  then show ?thesis
    using assms by (auto simp: metadata_vector_def fin_vector_def check_eval check_simps Let_def
        list_all_iff linorder_not_less)
qed

lemma to_f32_integral: "integral_tokens (to_f32 ts)"
  unfolding integral_tokens_def to_f32_def
proof
  fix x assume "x \<in> set (map (\<lambda>x. r32 (of_int x)) ts)"
  then obtain t where t: "x = r32 (of_int t)" by auto
  obtain m where "x = of_int m" using r32_int[of t] t by auto
  then show "\<bar>r32 (x - rint x)\<bar> \<le> eps32" using eps32_nonneg by (simp add: rint_def)
qed

lemma one_below_bound: "x \<le> 1 \<Longrightarrow> \<not> above_bound (AtMost 1) x"
proof -
  have "1 \<le> r32 (r64 (1 + micro64))"
    by (rule f32.rd_ge_float) (use f64.rd_add_ge[of 1 micro64] micro64_nonneg in simp_all)
  then show "x \<le> 1 \<Longrightarrow> \<not> above_bound (AtMost 1) x" by simp
qed

text \<open>The lengths of the parts of the setup that become metadata.\<close>

lemma setup_more_lengths:
  assumes "tick_setup ls ns prior storage su st"
  shows "length (su_service_credit su) = link_count ls" "length (su_receiving_credit su) = link_count ls"
    "length (su_service_carry_enabled su) = link_count ls"
    "length (su_receiving_carry_enabled su) = link_count ls"
proof -
  obtain A where su: "su = token_setup A ls ns prior storage" and ok: "authority_ready A ls ns"
      "wf_prior (link_count ls) (turn_count ns) prior"
    using assms by (auto simp: tick_setup_def)
  show "length (su_service_credit su) = link_count ls" "length (su_receiving_credit su) = link_count ls"
    "length (su_service_carry_enabled su) = link_count ls"
    "length (su_receiving_carry_enabled su) = link_count ls"
    using ok(2) ready_lengths[OF ok(1)]
    by (simp_all add: su token_setup_def Let_def wf_prior_def)
qed

text \<open>What a tick leaves in the metadata: an authority \<open>p\<close> with its tokens and sink flows.\<close>

definition authority_stored :: "link_state \<Rightarrow> node_state \<Rightarrow> prior_authority \<Rightarrow> int list \<Rightarrow> int list \<Rightarrow>
    int list \<Rightarrow> bool" where
  "authority_stored ls ns p S R F \<longleftrightarrow>
     (let lm = link_metadata ls; nm = node_metadata ns in
       meta_flag lm ''runtime_discrete_agent_authority'' \<and> meta_version lm = Inr 2 \<and>
       lm ''runtime_link_service_residual'' = Some (fin_vector (prior_service_credit p)) \<and>
       lm ''runtime_link_receiving_residual'' = Some (fin_vector (prior_receiving_credit p)) \<and>
       lm ''runtime_link_service_token_carry'' = Some (fin_vector (prior_service_carry p)) \<and>
       lm ''runtime_link_receiving_token_carry'' = Some (fin_vector (prior_receiving_carry p)) \<and>
       lm ''runtime_link_service_tokens'' = Some (fin_vector (to_f32 S)) \<and>
       lm ''runtime_link_receiving_tokens'' = Some (fin_vector (to_f32 R)) \<and>
       lm ''runtime_sink_flow_vehicles'' = Some (fin_vector (to_f32 F)) \<and>
       nm ''runtime_sink_flow_by_link_index'' = Some (fin_vector (to_f32 F)) \<and>
       nm ''runtime_turn_flow_residual'' = Some (fin_vector (prior_turn_credit p)) \<and>
       nm ''runtime_sink_flow_residual'' = Some (fin_vector (prior_sink_credit p)))"

definition authority_valid :: "nat \<Rightarrow> nat \<Rightarrow> prior_authority \<Rightarrow> int list \<Rightarrow> int list \<Rightarrow> int list \<Rightarrow> bool"
  where
  "authority_valid n k p S R F \<longleftrightarrow>
     length (prior_service_credit p) = n \<and> length (prior_receiving_credit p) = n \<and>
     length (prior_service_carry p) = n \<and> length (prior_receiving_carry p) = n \<and>
     length S = n \<and> length R = n \<and> length F = n \<and>
     length (prior_turn_credit p) = k \<and> length (prior_sink_credit p) = n \<and>
     (\<forall>x \<in> set (prior_service_credit p) \<union> set (prior_receiving_credit p). is_f32 x \<and> 0 \<le> x \<and> x < 1) \<and>
     (\<exists>c. prior_service_carry p = to_f32 c \<and> (\<forall>x \<in> set c. 0 \<le> x \<and> x \<le> 1)) \<and>
     (\<exists>c. prior_receiving_carry p = to_f32 c \<and> (\<forall>x \<in> set c. 0 \<le> x \<and> x \<le> 1)) \<and>
     (\<forall>x \<in> set S \<union> set R \<union> set F. 0 \<le> x) \<and>
     (\<forall>x \<in> set (prior_turn_credit p) \<union> set (prior_sink_credit p). is_f32 x)"

lemma reread_tokens:
  assumes "m key = Some (fin_vector (to_f32 ts))" "length ts = n" "\<forall>x \<in> set ts. 0 \<le> x"
  shows "metadata_vector m key n False req NoBound = Inr (to_f32 ts)"
  by (rule metadata_vector_reread) (use assms(1,2) to_f32_members[OF assms(3)] in simp_all)

lemma reread_carry:
  assumes "m key = Some (fin_vector (to_f32 ts))" "length ts = n" "\<forall>x \<in> set ts. 0 \<le> x \<and> x \<le> 1"
  shows "metadata_vector m key n False req (AtMost 1) = Inr (to_f32 ts)"
proof (rule metadata_vector_reread)
  show "m key = Some (fin_vector (to_f32 ts))" by (rule assms(1))
  have nn: "\<forall>x \<in> set ts. 0 \<le> x" using assms(3) by blast
  show "length (to_f32 ts) = n" "\<forall>x \<in> set (to_f32 ts). is_f32 x"
    "False \<or> (\<forall>x \<in> set (to_f32 ts). 0 \<le> x)"
    using assms(2) to_f32_members[OF nn] by auto
  have "x \<le> 1" if x: "x \<in> set (to_f32 ts)" for x
  proof -
    obtain t where "x = r32 (of_int t)" "t \<le> 1" using x assms(3) by (auto simp: to_f32_def)
    then show ?thesis using f32.rd_mono[of "of_int t" 1] by simp
  qed
  then show "\<forall>x \<in> set (to_f32 ts). \<not> above_bound (AtMost 1) x" using one_below_bound by blast
qed

lemma stored_read_carries:
  assumes "authority_stored ls ns p S R F" "authority_valid (link_count ls) k p S R F"
  shows "read_carries ls ns = Inr (prior_service_carry p, prior_receiving_carry p)"
proof -
  obtain c d where cd: "prior_service_carry p = to_f32 c" "prior_receiving_carry p = to_f32 d"
    "\<forall>x \<in> set c. 0 \<le> x \<and> x \<le> 1" "\<forall>x \<in> set d. 0 \<le> x \<and> x \<le> 1"
    using assms(2) by (auto simp: authority_valid_def)
  have "length c = link_count ls" "length d = link_count ls"
    using assms(2) cd(1,2) by (simp_all add: authority_valid_def)
  then show ?thesis
    using assms cd unfolding read_carries_def authority_stored_def authority_valid_def Let_def
    by (simp add: reread_tokens reread_carry to_f32_integral check_eval)
qed

lemma stored_read_prior:
  assumes "authority_stored ls ns p S R F" "authority_valid (link_count ls) (turn_count ns) p S R F"
    "metadata_vector (node_metadata ns) ''runtime_sink_demand_by_link_index'' (link_count ls)
       False False NoBound = Inr sd"
  shows "read_prior ls ns = Inr (p\<lparr>sink_demand := map (\<lambda>x. \<lfloor>r32 (max x 0 + eps32)\<rfloor>) sd\<rparr>)"
proof -
  have res: "metadata_vector (link_metadata ls) key (link_count ls) False True (Below 1) = Inr xs"
    if "link_metadata ls key = Some (fin_vector xs)" "length xs = link_count ls"
      "\<forall>x \<in> set xs. is_f32 x \<and> 0 \<le> x \<and> x < 1" for key xs
    by (rule metadata_vector_reread) (use that in force)+
  have signed: "metadata_vector (node_metadata ns) key m True True NoBound = Inr xs"
    if "node_metadata ns key = Some (fin_vector xs)" "length xs = m" "\<forall>x \<in> set xs. is_f32 x"
    for key m xs
    by (rule metadata_vector_reread) (use that in simp_all)
  show ?thesis
    using assms(1,2) assms(3) stored_read_carries[OF assms(1,2)]
    unfolding read_prior_def authority_stored_def authority_valid_def Let_def
    by (simp add: res signed ball_Un)
qed

text \<open>The authority a tick leaves.\<close>

definition left_authority :: "token_setup \<Rightarrow> token_state \<Rightarrow> rat list \<Rightarrow> rat list \<Rightarrow> prior_authority" where
  "left_authority su st sr rr = \<lparr>prior_turn_credit = map r32 (next_turn_credit st),
     prior_service_credit = sr, prior_receiving_credit = rr,
     prior_sink_credit = map r32 (next_sink_credit st),
     prior_service_carry =
       to_f32 (next_carry (su_service_carry_enabled su) (remaining_service st)),
     prior_receiving_carry =
       to_f32 (next_carry (su_receiving_carry_enabled su) (remaining_receiving st)),
     sink_demand = []\<rparr>"

lemma carry_bounds: "\<forall>r \<in> set rs. 0 \<le> r \<Longrightarrow> \<forall>x \<in> set (next_carry en rs). 0 \<le> x \<and> x \<le> 1"
  by (auto simp: next_carry_def elim!: in_set_zipE)

lemma left_authority_valid:
  assumes "tick_setup ls ns prior storage su st"
    "unit_residual_float32 (su_service_credit su) = Inr sr"
    "unit_residual_float32 (su_receiving_credit su) = Inr rr"
  shows "authority_valid (link_count ls) (turn_count ns) (left_authority su st sr rr)
    (service_tokens (su_budget su)) (receiving_tokens (su_budget su)) (sink_flow st)"
proof -
  have led: "ledger (su_budget su) st" and wfb: "wf_budget (su_budget su)"
    using assms(1) by (simp_all add: tick_setup_def)
  note len = setup_lengths[OF assms(1)] setup_more_lengths[OF assms(1)] ledger_lengths[OF led]
    unit_residual_length[OF assms(2)] unit_residual_length[OF assms(3)]
  have "\<forall>x \<in> set (service_tokens (su_budget su)) \<union> set (receiving_tokens (su_budget su)) \<union>
      set (sink_flow st). 0 \<le> x"
    using wfb ledger_nonneg(2)[OF led] by (auto simp: wf_budget_def)
  moreover have "\<forall>x \<in> set sr \<union> set rr. is_f32 x \<and> 0 \<le> x \<and> x < 1"
    using unit_residual_bounds[OF assms(2)] unit_residual_bounds[OF assms(3)] by blast
  moreover note carry_bounds[OF ledger_nonneg(3)[OF led], of "su_service_carry_enabled su"]
    carry_bounds[OF ledger_nonneg(4)[OF led], of "su_receiving_carry_enabled su"]
  ultimately show ?thesis
    using len unfolding authority_valid_def left_authority_def prior_authority.simps
    by (intro conjI; (blast | simp add: next_carry_def ball_Un))
qed

lemma left_authority_stored:
  "authority_stored
     (committed_link ls A (md ++ authority_link_metadata su st sr rr storage))
     (committed_node ns A (md' ++ authority_node_metadata su st))
     (left_authority su st sr rr) (service_tokens (su_budget su)) (receiving_tokens (su_budget su))
     (sink_flow st)"
  by (simp add: authority_stored_def committed_link_def committed_node_def left_authority_def
      authority_link_metadata_def authority_node_metadata_def Let_def meta_flag_def
      meta_version_def map_add_def)

text \<open>Everything a tick on whole vehicles reports: the authority it stores, the movements, and the
  arrays they explain.\<close>

definition explained :: "link_state \<Rightarrow> node_state \<Rightarrow> int list \<Rightarrow> int list \<Rightarrow> int list \<Rightarrow> bool" where
  "explained ls ns N moves F \<longleftrightarrow>
     (let n = link_count ls; from = segment_total moves (map nat (turn_from_link_index ns));
          to = segment_total moves (map nat (turn_to_link_index ns)) in
      turn_flow ns = map of_int moves \<and> length moves = turn_count ns \<and> (\<forall>x \<in> set moves. 0 \<le> x) \<and>
      length F = n \<and> (\<forall>x \<in> set F. 0 \<le> x) \<and> sum_list moves + sum_list F < 2 ^ 23 \<and> length N = n \<and>
      inflow_vehicles ls = map (\<lambda>s. of_int (to s)) [0..<n] \<and>
      outflow_vehicles ls = map (\<lambda>s. of_int (from s + F ! s)) [0..<n] \<and>
      queue_vehicles ls = map (\<lambda>s. of_int (N ! s - (from s + F ! s) + to s)) [0..<n] \<and>
      (\<forall>s < n. from s + F ! s \<le> N ! s))"

lemma tick_accounts:
  assumes "tick_ready ls ns" "integral_queue ls N" "update_link_node_flow rust ls ns v bk True arg = Inr r"
  obtains p S R F moves where
    "authority_stored (result_link r) (result_node r) p S R F"
    "authority_valid (link_count (result_link r)) (turn_count (result_node r)) p S R F"
    "explained (result_link r) (result_node r) N moves F"
    "\<forall>s < link_count ls. outflow_vehicles (result_link r) ! s \<le> of_int (S ! s) \<and> inflow_vehicles (result_link r) ! s \<le> of_int (R ! s)"
    "capacity_violation_flags (result_link r) = replicate (link_count ls) False"
proof -
  obtain b p f prior storage su st A lm nm where
    ts: "tick_setup ls ns prior storage su st" and fit: "arrays_fit ls ns A"
    and su: "su = token_setup (numpy_flow_core (tick_inputs ls ns b p f)) ls ns prior storage"
    and fin: "finish_authority (numpy_flow_core (tick_inputs ls ns b p f)) b su st storage = Inr (A, lm, nm)"
    and r: "r = \<lparr>result_link = committed_link ls A
           ((link_metadata ls)(''free_flow_travel_time_cost'' \<mapsto> fin_vector b) ++ lm),
          result_node = committed_node ns A (node_metadata ns ++ nm)\<rparr>"
    using discrete_tick[OF assms(1,3)] by metis
  obtain sr rr where res: "unit_residual_float32 (su_service_credit su) = Inr sr"
      "unit_residual_float32 (su_receiving_credit su) = Inr rr"
    and md: "lm = authority_link_metadata su st sr rr storage" "nm = authority_node_metadata su st"
    and A: "turn_flow_next A = to_f32 (realized_turn st)" "inflow_vehicles_next A = committed_inflow su st"
      "outflow_vehicles_next A = committed_outflow su st" "queue_vehicles_next A = committed_queue su st"
      "capacity_violation_flags_next A = committed_flags su st"
    using fin by (rule finish_authority_eq) simp
  have bud: "wf_budget (su_budget su)" "ledger (su_budget su) st" using ts by (simp_all add: tick_setup_def)
  note len = setup_lengths[OF ts] and ll = ledger_lengths[OF bud(2)] and nn = ledger_nonneg[OF bud(2)]
  have src: "turn_source (su_budget su) = map nat (turn_from_link_index ns)"
    "turn_target (su_budget su) = map nat (turn_to_link_index ns)" by (simp_all add: su)
  note commit = integral_commit[OF ts assms(2), unfolded src]
  have n: "link_count (result_link r) = link_count ls" "turn_count (result_node r) = turn_count ns"
    using fit unfolding arrays_fit_def Let_def
    by (simp_all add: r committed_link_def committed_node_def link_count_def turn_count_def)
  have tot: "sum_list (realized_turn st) + sum_list (sink_flow st) < 2 ^ 23"
    using ledger_total[OF bud] integral_vehicles[OF ts assms(2)] assms(2) by (simp add: integral_queue_def)
  have "0 \<le> sum_list (realized_turn st)" "0 \<le> sum_list (sink_flow st)" using nn by (simp_all add: sum_list_nonneg)
  then have f32: "to_f32 (realized_turn st) = map of_int (realized_turn st)"
    using tot nn by (auto intro!: to_f32_small)
  have fields: "turn_from_link_index (result_node r) = turn_from_link_index ns"
    "turn_to_link_index (result_node r) = turn_to_link_index ns" "turn_flow (result_node r) = map of_int (realized_turn st)"
    "inflow_vehicles (result_link r) = committed_inflow su st" "outflow_vehicles (result_link r) = committed_outflow su st"
    "queue_vehicles (result_link r) = committed_queue su st" "capacity_violation_flags (result_link r) = committed_flags su st"
    using A f32 by (simp_all add: r committed_link_def committed_node_def)
  have "length N = link_count ls" using assms(2) by (auto simp: integral_queue_def link_count_def)
  moreover have "committed_inflow su st = map (\<lambda>s. of_int (segment_total (realized_turn st) (map nat (turn_to_link_index ns)) s)) [0..<link_count ls]"
    by (rule nth_equalityI) (simp_all add: len(6) commit(1))
  moreover have "committed_outflow su st = map (\<lambda>s. of_int (segment_total (realized_turn st) (map nat (turn_from_link_index ns)) s
      + sink_flow st ! s)) [0..<link_count ls]"
    by (rule nth_equalityI) (simp_all add: len(7) commit(2))
  moreover have "committed_queue su st = map (\<lambda>s. of_int (N ! s - (segment_total (realized_turn st) (map nat (turn_from_link_index ns)) s
      + sink_flow st ! s) + segment_total (realized_turn st) (map nat (turn_to_link_index ns)) s)) [0..<link_count ls]"
    by (rule nth_equalityI) (simp_all add: len(8) commit(3))
  ultimately have ex: "explained (result_link r) (result_node r) N (realized_turn st) (sink_flow st)"
    unfolding explained_def Let_def n fields using commit(6) len(1,3) ll(1,2) nn(1,2) tot by simp
  have cap: "committed_outflow su st ! s \<le> of_int (service_tokens (su_budget su) ! s)"
    "committed_inflow su st ! s \<le> of_int (receiving_tokens (su_budget su) ! s)" if "s < link_count ls" for s
    using bud(2) commit(1,2,7)[OF that] that len by (auto simp: ledger_def Let_def src)
  have "committed_flags su st = replicate (link_count ls) False"
  proof (rule nth_equalityI)
    fix s assume "s < length (committed_flags su st)"
    then have s: "s < link_count ls" using len by simp
    have "x \<le> r32 (r32 y + eps32)" if "r32 x = x" "x \<le> y" for x y
      using f32.rd_ge_float[OF that(2,1)] f32.rd_add_ge[of "r32 y" eps32] eps32_nonneg by simp
    moreover have "committed_outflow su st ! s \<in> set (committed_outflow su st)" "committed_inflow su st ! s \<in> set (committed_inflow su st)"
      using s len by simp_all
    then have "is_f32 (committed_outflow su st ! s)" "is_f32 (committed_inflow su st ! s)"
      using setup_members(1,2)[OF ts] by blast+
    ultimately have "committed_outflow su st ! s \<le> r32 (r32 (of_int (service_tokens (su_budget su) ! s)) + eps32)"
      "committed_inflow su st ! s \<le> r32 (r32 (of_int (receiving_tokens (su_budget su) ! s)) + eps32)"
      using cap[OF s] by simp_all
    then show "committed_flags su st ! s = replicate (link_count ls) False ! s"
      using s len by (simp add: committed_flags_def to_f32_def)
  qed (use len in simp)
  moreover have "authority_stored (result_link r) (result_node r) (left_authority su st sr rr)
      (service_tokens (su_budget su)) (receiving_tokens (su_budget su)) (sink_flow st)"
    unfolding r md flow_update_result.simps by (rule left_authority_stored)
  ultimately show ?thesis
    using that left_authority_valid[OF ts res] ex cap unfolding n fields by blast
qed


section \<open>Whole capacities never fail\<close>

lemma nano64_small: "nano64 \<le> 1 / 2"
  unfolding nano64_def by (rule f64.rd_le_float) (use r64_half[of 0] in simp_all)

lemma whole_residual:
  assumes "\<forall>c \<in> set credit. c = 0" "\<forall>e \<in> set cap. \<exists>t. e = of_int t \<and> 0 \<le> t \<and> t < 2 ^ 23"
    "a \<in> set (accrue has credit cap)"
  shows "r64 (a - of_int (whole_tokens a)) = 0"
proof -
  obtain t where t: "a = of_int t" "0 \<le> t" "t < 2 ^ 23"
  proof -
    obtain h c e where a: "a = (if h then r64 (c + e) else 0)" and mem: "c \<in> set credit" "e \<in> set cap"
      using assms(3) unfolding accrue_def by (force elim!: in_set_zipE)
    obtain t where "c = 0" "e = of_int t" "0 \<le> t" "t < 2 ^ 23" using assms(1,2) mem by blast
    then show ?thesis using that[of t] that[of 0] a f64.rd_int[of t] by (auto split: if_splits)
  qed
  then show ?thesis
    using floor_tolerance64[OF t(2,3) nano64_nonneg nano64_small] by (simp add: whole_tokens_def)
qed

lemma unit_residual_zeros: "\<forall>x \<in> set vals. x = 0 \<Longrightarrow> \<exists>xs. unit_residual_float32 vals = Inr xs"
  using nano64_nonneg by (auto simp: unit_residual_float32_def)

lemma whole_tick_returns:
  assumes "tick_ready ls ns" "read_prior ls ns = Inr prior"
    and "\<forall>x \<in> set (prior_service_credit prior) \<union> set (prior_receiving_credit prior). x = 0"
    and "\<forall>e \<in> set (effective_capacity_vehicles ls). \<exists>t. e = of_int t \<and> 0 \<le> t \<and> t < 2 ^ 23"
    and "bk = ''baseline'' \<or> bk = ''auto''"
  shows "\<exists>r. update_link_node_flow rust ls ns False bk True None = Inr r"
proof -
  have wf: "wf_link ls" "wf_node ns" "timers_in_range ns"
    using assms(1) by (simp_all add: tick_ready_def)
  obtain b p f where c: "compute_baseline_flow_arrays rust ''baseline'' ls ns
      = Inr (numpy_flow_core (tick_inputs ls ns b p f), b)"
    and wfi: "wf_inputs (tick_inputs ls ns b p f)" and base: "read_link_base_travel_time ls = Inr b"
    using compute_baseline_ok[OF assms(1)] by metis
  let ?A = "numpy_flow_core (tick_inputs ls ns b p f)"
  define su where "su = token_setup ?A ls ns prior None"
  have sv: "storage_views ls None = Inr None" by (simp add: storage_views_def)
  note ready = core_authority_ready[OF assms(1) wfi]
  obtain st where st: "schedule_tokens (su_budget su) (su_eligible su) (su_turn_credit su)
      (su_sink_credit su) = Inr st"
    using authority_schedules[OF ready assms(2) sv] su_def by blast
  have cap: "\<forall>e \<in> set (map (\<lambda>x. max x 0) (effective_capacity_vehicles ls)).
      \<exists>t. e = of_int t \<and> 0 \<le> t \<and> t < 2 ^ 23"
    using assms(4) by (fastforce simp: max_def)
  have "\<forall>x \<in> set (su_service_credit su). x = 0" "\<forall>x \<in> set (su_receiving_credit su). x = 0"
    using whole_residual[OF _ cap] assms(3) by (auto simp: su_def token_setup_def Let_def)
  then obtain sr rr where "unit_residual_float32 (su_service_credit su) = Inr sr"
      "unit_residual_float32 (su_receiving_credit su) = Inr rr"
    using unit_residual_zeros by metis
  then obtain A lm nm where fin: "finish_authority ?A b su st None = Inr (A, lm, nm)"
    by (auto simp: finish_authority_def check_eval Let_def)
  have tset: "tick_setup ls ns prior None su st"
    by (rule authority_tick_setup[OF ready assms(2) sv su_def st])
  have fit: "arrays_fit ls ns A"
    by (rule setup_arrays_fit[OF tset core_arrays_fit[OF assms(1) wfi] _ fin])
      (rule read_lengths(3)[OF wf(1) base])
  have "apply_discrete_agent_flow_authority ?A b ls ns None = Inr (A, lm, nm)"
    using st fin unfolding apply_discrete_agent_flow_authority_def sv assms(2) bindE_simps Let_def
      su_def by simp
  then have "update_link_node_flow rust ls ns False bk True None
      = Inr \<lparr>result_link = committed_link ls A
           ((link_metadata ls)(''free_flow_travel_time_cost'' \<mapsto> fin_vector b) ++ lm),
          result_node = committed_node ns A (node_metadata ns ++ nm)\<rparr>"
    using assms(5) index_check_ok[OF assms(1)] c make_link_committed[OF wf(1) fit]
      make_node_committed[OF wf(2) fit wf(3)]
    by (auto simp: update_link_node_flow_def check_eval Let_def)
  then show ?thesis ..
qed

lemma discrete_tick_wf:
  assumes "tick_ready ls ns" "update_link_node_flow rust ls ns v bk True arg = Inr r"
  shows "wf_link (result_link r)" "wf_node (result_node r)"
proof -
  have wf: "wf_link ls" "wf_node ns" "timers_in_range ns"
    using assms(1) by (simp_all add: tick_ready_def)
  obtain A md md' where "arrays_fit ls ns A"
    "r = \<lparr>result_link = committed_link ls A md, result_node = committed_node ns A md'\<rparr>"
    using discrete_tick[OF assms] by metis
  then show "wf_link (result_link r)" "wf_node (result_node r)"
    using committed_wf[OF wf(1,2) _ wf(3)] by simp_all
qed

text \<open>C31: with whole capacities and no fractional credit left over, a discrete tick without a
  storage bound always returns, and leaves well-formed states.\<close>

theorem discrete_tick_total:
  assumes "tick_ready ls ns" "read_prior ls ns = Inr prior"
    and "\<forall>x \<in> set (prior_service_credit prior) \<union> set (prior_receiving_credit prior). x = 0"
    and "\<forall>e \<in> set (effective_capacity_vehicles ls). \<exists>t. e = of_int t \<and> 0 \<le> t \<and> t < 2 ^ 23"
    and "bk = ''baseline'' \<or> bk = ''auto''"
  shows "\<exists>r. update_link_node_flow rust ls ns False bk True None = Inr r \<and>
    wf_link (result_link r) \<and> wf_node (result_node r)"
  using whole_tick_returns[OF assms] discrete_tick_wf[OF assms(1)] by blast

section \<open>The properties on the concrete network\<close>

lemma demo_prior: "\<exists>p. read_prior demo_link demo_node = Inr p \<and>
  (\<forall>x \<in> set (prior_service_credit p) \<union> set (prior_receiving_credit p). x = 0)"
  by (simp add: read_prior_def demo_link_def demo_node_def Let_def link_count_def turn_count_def
      meta_flag_def metadata_vector_def check_eval)

lemma demo_capacity: "effective_capacity_vehicles demo_link = [2, 2]"
  by (simp add: effective_capacity_vehicles_def demo_link_def)

lemma demo_capacity_whole:
  "\<forall>e \<in> set (effective_capacity_vehicles demo_link). \<exists>t. e = of_int t \<and> 0 \<le> t \<and> t < 2 ^ 23"
  by (auto simp: demo_capacity intro!: exI[of _ 2])

lemma discrete_tick_total_witness:
  "\<exists>r. update_link_node_flow no_rust demo_link demo_node False ''auto'' True None = Inr r \<and>
     wf_link (result_link r)"
proof -
  obtain p where "read_prior demo_link demo_node = Inr p"
    "\<forall>x \<in> set (prior_service_credit p) \<union> set (prior_receiving_credit p). x = 0"
    using demo_prior by blast
  then show ?thesis
    using discrete_tick_total[OF demo_ready _ _ demo_capacity_whole, of p "''auto''" no_rust] by blast
qed

lemma demo_discrete:
  "\<exists>r. update_link_node_flow no_rust demo_link demo_node False ''baseline'' True None = Inr r"
  using demo_prior whole_tick_returns[OF demo_ready _ _ demo_capacity_whole] by blast

lemma scheduler_serves_all_it_can_witness:
  "\<exists>st. schedule_tokens \<lparr>turn_source = [0], turn_target = [1], service_tokens = [2, 2],
       receiving_tokens = [0, 2], vehicles = [3, 1], turn_demand_tokens = [2],
       sink_demand_tokens = [0, 1]\<rparr> [True] [1] [0, 1] = Inr st \<and>
     \<not> turn_servable [0] [1] st 0"
  using scheduler_serves_all_it_can[of "\<lparr>turn_source = [0], turn_target = [1], service_tokens = [2, 2],
       receiving_tokens = [0, 2], vehicles = [3, 1], turn_demand_tokens = [2],
       sink_demand_tokens = [0, 1]\<rparr>" "[True]" "[1]" "[0, 1]"]
  by (auto simp: wf_budget_def eligible_turns_def)


lemma demo_integral: "integral_queue demo_link [3, 1]"
  by (simp add: integral_queue_def demo_link_def)

lemma discrete_tick_conserves_vehicles_witness:
  "\<exists>r N' sinks. update_link_node_flow no_rust demo_link demo_node False ''baseline'' True None = Inr r \<and>
     integral_queue (result_link r) N' \<and> sum_list N' = 4 - sum_list sinks"
proof -
  obtain r where r: "update_link_node_flow no_rust demo_link demo_node False ''baseline'' True None = Inr r"
    using demo_discrete by blast
  obtain N' sinks where "integral_queue (result_link r) N'" "sum_list N' = sum_list [3, 1] - sum_list sinks"
    using discrete_tick_conserves_vehicles[OF demo_ready demo_integral r] by blast
  then show ?thesis using r by auto
qed

definition demo_arrays :: flow_arrays where
  "demo_arrays = \<lparr>turn_demand_next = [2], turn_supply_next = [2], turn_flow_next = [2],
     inflow_vehicles_next = [0, 2], outflow_vehicles_next = [2, 0], queue_vehicles_next = [1, 3],
     travel_time_cost_next = [6, 8], capacity_violation_flags_next = [False, False],
     signal_phase_timer_next = [5]\<rparr>"

lemma finite_storage_never_overfilled_witness:
  "apply_discrete_agent_flow_authority demo_arrays [5, 7] demo_link demo_node (Some [Fin 4, Fin 2])
     \<noteq> Inl (RuntimeError ''spatial queue update exceeded finite link storage'')"
proof -
  have "authority_ready demo_arrays demo_link demo_node"
    using demo_ready by (simp add: authority_ready_def tick_ready_def demo_arrays_def demo_node_def
        turn_count_def)
  then show ?thesis
    using finite_storage_never_overfilled[OF _ demo_integral, of demo_arrays demo_node "[4, 2]" "[5, 7]"]
    by simp
qed


end
