(* ===== verification/AgentRuntime.thy ===== *)
theory AgentRuntime
  imports SpatialQueue DiscreteTick
begin

text \<open>
  The part of the runtime that couples the active agents with the traffic flow
  (src/src/metroflow/sim/routing_runtime.py): before the flow tick the demand of every turn and of
  every final link is rebuilt from the routes of the agents
  (\<open>rebuild_runtime_turn_demand\<close>); after it the agents consume the realized integer tokens
  (\<open>advance_pool_along_realized_turns\<close>, \<open>commit_runtime_active_agent_flows\<close>), and newly admitted
  agents enter the queue of their first link (\<open>admit_trip\<close>, \<open>apply_source_queue_increments\<close>).
  The route of an agent is kept in its plugin memory, whose entries are the two kinds of values the
  runtime stores and reads here.
\<close>

section \<open>The memory of an agent\<close>

datatype memo = MemInt int | MemPath "int list" | MemText string | MemFloat rat

type_synonym memory_dict = "string \<rightharpoonup> memo"
type_synonym runtime_pool = "memo agent_pool"

text \<open>\<^verbatim>\<open>plugin_memory.get(slot, {})\<close>, read as a mapping.\<close>

definition slot_memory_of :: "runtime_pool \<Rightarrow> nat \<Rightarrow> memory_dict result" where
  "slot_memory_of p k = (case plugin_memory p (int k) of
       None \<Rightarrow> Inr Map.empty
     | Some (DictEntry d) \<Rightarrow> Inr d
     | Some (OtherEntry _) \<Rightarrow> Inl (TypeError ''plugin memory entry is not a mapping''))"

definition route_path_of :: "memory_dict \<Rightarrow> int list result" where
  "route_path_of mem = (case mem ''route_path'' of
       None \<Rightarrow> Inr []
     | Some (MemPath path) \<Rightarrow> Inr path
     | Some (MemText _) \<Rightarrow> Inl (OutOfModel ''route_path is a text'')
     | Some _ \<Rightarrow> Inl (TypeError ''object is not iterable''))"

definition validate_slot_trip_identity :: "runtime_pool \<Rightarrow> nat \<Rightarrow> memory_dict \<Rightarrow> unit result" where
  "validate_slot_trip_identity p k mem = (case mem ''trip_request_id'' of
       Some (MemInt t) \<Rightarrow> raise_if (t \<noteq> trip_id p ! k)
         (RuntimeError ''active-agent route memory trip identity mismatch'')
     | Some (MemFloat x) \<Rightarrow> raise_if ((if 0 \<le> x then \<lfloor>x\<rfloor> else \<lceil>x\<rceil>) \<noteq> trip_id p ! k)
         (RuntimeError ''active-agent route memory trip identity mismatch'')
     | Some (MemText _) \<Rightarrow> Inl (OutOfModel ''trip_request_id is a text'')
     | _ \<Rightarrow> Inl (RuntimeError ''active-agent route memory is missing a valid trip_request_id''))"

text \<open>The common opening of both loops: the route of a slot, with its identity checked.\<close>

definition read_slot_route :: "runtime_pool \<Rightarrow> nat \<Rightarrow> int list result" where
  "read_slot_route p k =
     bindE (slot_memory_of p k) (\<lambda>mem.
     bindE (route_path_of mem) (\<lambda>path.
     bindE (validate_slot_trip_identity p k mem) (\<lambda>_. Inr path)))"

definition on_route :: "int list \<Rightarrow> int \<Rightarrow> int \<Rightarrow> bool" where
  "on_route path ptr cur \<longleftrightarrow> path \<noteq> [] \<and> 0 \<le> ptr \<and> ptr < int (length path) \<and> path ! nat ptr = cur"

section \<open>Turn lookup and route authority\<close>

type_synonym turn_lookup = "int \<times> int \<rightharpoonup> nat"

text \<open>The dynamic lookup, for a turn table that is not the static one of the network.\<close>

fun collect_runtime_turns :: "int list \<Rightarrow> (nat \<times> int \<times> int \<times> bool) list \<Rightarrow> turn_lookup \<Rightarrow> turn_lookup result" where
  "collect_runtime_turns ids [] m = Inr m"
| "collect_runtime_turns ids ((j, f, t, forb) # rest) m =
     (if forb then collect_runtime_turns ids rest m
      else if \<not> (0 \<le> f \<and> f < int (length ids) \<and> 0 \<le> t \<and> t < int (length ids))
      then Inl (ValueError ''runtime turn table references an out-of-range link index'')
      else let key = (ids ! nat f, ids ! nat t) in
        if m key \<noteq> None then Inl (RuntimeError ''compiled runtime turn table contains duplicate legal movement'')
        else collect_runtime_turns ids rest (m(key \<mapsto> j)))"

definition runtime_turn_index_lookup :: "road_network \<Rightarrow> node_state \<Rightarrow> turn_lookup result" where
  "runtime_turn_index_lookup net ns =
     bindE (read_turn_forbidden (node_metadata ns) (turn_count ns)) (\<lambda>forb.
     if turn_from_link_index ns = map int (turn_from net) \<and> turn_to_link_index ns = map int (turn_to net) \<and>
        forb = turn_forbidden net
     then Inr (turn_pair_index net)
     else collect_runtime_turns (map link_id (net_links net))
       (zip [0..<turn_count ns] (zip (turn_from_link_index ns) (zip (turn_to_link_index ns) forb))) Map.empty)"

definition validate_route_path_authority :: "road_network \<Rightarrow> turn_lookup \<Rightarrow> int list \<Rightarrow> int \<Rightarrow> unit result" where
  "validate_route_path_authority net lookup path dest =
     bindE (raise_if (path = []) (RuntimeError ''active route path is empty or has no road authority'')) (\<lambda>_.
     bindE (raise_if (\<exists>l \<in> set path. link_index net l = None)
       (RuntimeError ''active route path references unknown link'')) (\<lambda>_.
     bindE (raise_if (dst_node (net_links net ! the (link_index net (last path))) \<noteq> dest)
       (RuntimeError ''final route link does not terminate at active-agent destination'')) (\<lambda>_.
     raise_if (\<exists>ab \<in> set (zip path (tl path)). lookup ab = None)
       (RuntimeError ''active route path contains no unique legal compiled turn''))))"

section \<open>Rebuilding the demand\<close>

text \<open>The accumulators of the loop: turn demand, sink demand, missing and misdirected intents.\<close>

record demand_acc =
  acc_turn :: "rat list"
  acc_sink :: "rat list"
  acc_missing :: "(int \<times> int \<times> int) list"
  acc_invalid :: "(int \<times> int \<times> int \<times> int) list"

definition exit_threshold :: rat where
  "exit_threshold = r64 (1 - r64 (1 / 10 ^ 6))"

definition add_one :: "rat list \<Rightarrow> nat \<Rightarrow> rat list" where
  "add_one xs i = xs[i := r32 (xs ! i + 1)]"

definition rebuild_slot :: "road_network \<Rightarrow> turn_lookup \<Rightarrow> bool \<Rightarrow> int set \<Rightarrow> runtime_pool \<Rightarrow> nat \<Rightarrow>
    demand_acc \<Rightarrow> demand_acc result" where
  "rebuild_slot net lookup spatial skip p k acc =
     (if \<not> alive_mask p ! k \<or> int k \<in> skip then Inr acc
      else bindE (read_slot_route p k) (\<lambda>path.
        let ptr = remaining_route_ptr p ! k; cur = current_link_id p ! k; dest = dest_node_id p ! k in
        if \<not> on_route path ptr cur then Inr (acc\<lparr>acc_missing := acc_missing acc @ [(int k, cur, - 1)]\<rparr>)
        else if spatial \<and> progress_01 p ! k < exit_threshold then Inr acc
        else bindE (validate_route_path_authority net lookup path dest) (\<lambda>_.
          if ptr = int (length path) - 1 then
            (case link_index net cur of
               None \<Rightarrow> Inr (acc\<lparr>acc_missing := acc_missing acc @ [(int k, cur, - 1)]\<rparr>)
             | Some i \<Rightarrow>
                 let actual = dst_node (net_links net ! i) in
                 if actual \<noteq> dest then Inr (acc\<lparr>acc_invalid := acc_invalid acc @ [(int k, cur, actual, dest)]\<rparr>)
                 else Inr (acc\<lparr>acc_sink := add_one (acc_sink acc) i\<rparr>))
          else let nxt = path ! nat (ptr + 1) in
            (case lookup (cur, nxt) of
               None \<Rightarrow> Inr (acc\<lparr>acc_missing := acc_missing acc @ [(int k, cur, nxt)]\<rparr>)
             | Some j \<Rightarrow> Inr (acc\<lparr>acc_turn := add_one (acc_turn acc) j\<rparr>)))))"

definition rebuild_runtime_turn_demand :: "road_network \<Rightarrow> bool \<Rightarrow> int set \<Rightarrow> runtime_pool \<Rightarrow> link_state \<Rightarrow>
    node_state \<Rightarrow> node_state result" where
  "rebuild_runtime_turn_demand net spatial skip p ls ns =
     bindE (runtime_turn_index_lookup net ns) (\<lambda>lookup.
     bindE (foldE (rebuild_slot net lookup spatial skip p) [0..<length (alive_mask p)]
        \<lparr>acc_turn = replicate (turn_count ns) 0, acc_sink = replicate (link_count ls) 0,
         acc_missing = [], acc_invalid = []\<rparr>) (\<lambda>acc.
     bindE (raise_if (acc_missing acc \<noteq> [])
        (RuntimeError ''active route intent has no unique legal compiled turn'')) (\<lambda>_.
     bindE (raise_if (acc_invalid acc \<noteq> [])
        (RuntimeError ''final route link does not terminate at active-agent destination'')) (\<lambda>_.
     let zeros = replicate (turn_count ns) 0 in
     node_from_internal_arrays (turn_from_link_index ns) (turn_to_link_index ns) (acc_turn acc) zeros zeros
       (signal_phase_index ns) (signal_phase_timer ns)
       ((node_metadata ns)(''runtime_sink_demand_by_link_index'' \<mapsto> fin_vector (acc_sink acc),
         ''runtime_missing_route_turn_intents'' \<mapsto> MVector [],
         ''runtime_missing_route_turn_intent_count'' \<mapsto> MInt 0))))))"

section \<open>Committing the realized flow\<close>

record commit_state =
  cs_pool :: runtime_pool
  cs_turn_tokens :: "int list"
  cs_sink_tokens :: "int list"
  cs_completed :: "int list"
  cs_moved :: nat
  cs_sink_wait :: nat

text \<open>\<^verbatim>\<open>release_slot\<close> of the loop: the slot is cleared, pushed on the free stack and forgotten.\<close>

definition runtime_release_slot :: "runtime_pool \<Rightarrow> nat \<Rightarrow> runtime_pool" where
  "runtime_release_slot p k = p\<lparr>plugin_memory := (plugin_memory p)(int k := None),
     alive_mask := (alive_mask p)[k := False], citizen_id := (citizen_id p)[k := - 1],
     trip_id := (trip_id p)[k := - 1], current_link_id := (current_link_id p)[k := - 1],
     progress_01 := (progress_01 p)[k := 0], remaining_route_ptr := (remaining_route_ptr p)[k := 0],
     dest_node_id := (dest_node_id p)[k := - 1], behavior_profile_id := (behavior_profile_id p)[k := - 1],
     reroute_cooldown_ticks := (reroute_cooldown_ticks p)[k := 0],
     free_slot_stack := (free_slot_stack p)[nat (free_slot_count p) := int k],
     free_slot_count := free_slot_count p + 1, alive_count := alive_count p - 1\<rparr>"

definition runtime_move_slot :: "runtime_pool \<Rightarrow> nat \<Rightarrow> int \<Rightarrow> int \<Rightarrow> runtime_pool" where
  "runtime_move_slot p k ptr nxt = p\<lparr>remaining_route_ptr := (remaining_route_ptr p)[k := ptr],
     current_link_id := (current_link_id p)[k := nxt], progress_01 := (progress_01 p)[k := 0],
     reroute_cooldown_ticks := (reroute_cooldown_ticks p)[k := max 0 (reroute_cooldown_ticks p ! k - 1)]\<rparr>"

definition commit_slot :: "road_network \<Rightarrow> turn_lookup \<Rightarrow> int set \<Rightarrow> runtime_pool \<Rightarrow> nat \<Rightarrow> commit_state \<Rightarrow>
    commit_state result" where
  "commit_slot net lookup skip p0 k st =
     (let p = cs_pool st in
      if \<not> alive_mask p0 ! k \<or> int k \<in> skip then Inr st
      else bindE (read_slot_route (p\<lparr>trip_id := trip_id p0\<rparr>) k) (\<lambda>path.
        let ptr = remaining_route_ptr p ! k; cur = current_link_id p ! k; dest = dest_node_id p ! k in
        if \<not> on_route path ptr cur then Inr st
        else bindE (validate_route_path_authority net lookup path dest) (\<lambda>_.
          if ptr = int (length path) - 1 then
            (case link_index net cur of
               None \<Rightarrow> Inl (RuntimeError ''final active-agent route link is absent from the runtime network'')
             | Some i \<Rightarrow>
                 if dst_node (net_links net ! i) \<noteq> dest
                 then Inl (RuntimeError ''final route link does not terminate at active-agent destination'')
                 else if cs_sink_tokens st ! i \<le> 0 then Inr (st\<lparr>cs_sink_wait := cs_sink_wait st + 1\<rparr>)
                 else Inr (st\<lparr>cs_sink_tokens := bump (cs_sink_tokens st) i (- 1),
                        cs_completed := cs_completed st @ [trip_id p ! k],
                        cs_pool := runtime_release_slot p k\<rparr>))
          else let nxt = path ! nat (ptr + 1) in
            (case lookup (cur, nxt) of
               None \<Rightarrow> Inr st
             | Some j \<Rightarrow>
                 if cs_turn_tokens st ! j \<le> 0 then Inr st
                 else Inr (st\<lparr>cs_turn_tokens := bump (cs_turn_tokens st) j (- 1),
                        cs_moved := cs_moved st + 1,
                        cs_pool := runtime_move_slot p k (ptr + 1) nxt\<rparr>)))))"

definition advance_pool_along_realized_turns :: "road_network \<Rightarrow> node_state \<Rightarrow> runtime_pool \<Rightarrow> int list \<Rightarrow>
    int list \<Rightarrow> int set \<Rightarrow> commit_state result" where
  "advance_pool_along_realized_turns net ns p turn_tokens sink_tokens skip =
     bindE (runtime_turn_index_lookup net ns) (\<lambda>lookup.
     bindE (foldE (commit_slot net lookup skip p) [0..<length (alive_mask p)]
        \<lparr>cs_pool = p, cs_turn_tokens = turn_tokens, cs_sink_tokens = sink_tokens, cs_completed = [],
         cs_moved = 0, cs_sink_wait = 0\<rparr>) (\<lambda>st.
     bindE (raise_if ((\<exists>x \<in> set (cs_turn_tokens st). x \<noteq> 0) \<or> (\<exists>x \<in> set (cs_sink_tokens st). x \<noteq> 0))
        (RuntimeError ''realized flow tokens did not reconcile with eligible active-agent intents'')) (\<lambda>_.
     bindE (pool_from_internal_arrays (cs_pool st)) (\<lambda>q.
     Inr (st\<lparr>cs_pool := q\<rparr>)))))"

text \<open>The trips a commit has to account for: the sets of ids kept in the demand state.\<close>

record demand_ids =
  allocated_trips :: "int set"
  completed_trips :: "int set"
  failed_trips :: "int set"

definition whole_flow :: "rat list \<Rightarrow> int list" where
  "whole_flow xs = map (\<lambda>x. \<lfloor>r32 (max x 0 + eps32)\<rfloor>) xs"

definition read_sink_flow :: "metadata \<Rightarrow> nat \<Rightarrow> rat list result" where
  "read_sink_flow md n = (case md ''runtime_sink_flow_by_link_index'' of
       None \<Rightarrow> Inr (replicate n 0)
     | Some raw \<Rightarrow> (case as_array32 raw of
          Inl x \<Rightarrow> Inl (ValueError ''runtime_sink_flow_by_link_index shape mismatch'')
        | Inr xs \<Rightarrow> if length xs \<noteq> n then Inl (ValueError ''runtime_sink_flow_by_link_index shape mismatch'')
            else if list_all isfinite xs then Inr (map finite_part xs)
            else Inl (OutOfModel ''runtime_sink_flow_by_link_index'')))"

definition commit_runtime_active_agent_flows :: "road_network \<Rightarrow> string \<Rightarrow> runtime_pool \<Rightarrow> node_state \<Rightarrow>
    int set \<Rightarrow> demand_ids \<Rightarrow> (runtime_pool \<times> commit_state \<times> demand_ids) result" where
  "commit_runtime_active_agent_flows net agent_backend p ns skip ids =
     bindE (raise_if (agent_backend = ''rust_cpu'')
        (RuntimeError ''Rust CPU active-agent backend does not implement the per-turn token contract'')) (\<lambda>_.
     bindE (read_sink_flow (node_metadata ns) (net_link_count net)) (\<lambda>sinks.
     bindE (advance_pool_along_realized_turns net ns p (whole_flow (turn_flow ns)) (whole_flow sinks) skip) (\<lambda>st.
     Inr (cs_pool st, st, ids\<lparr>completed_trips := completed_trips ids \<union> set (cs_completed st)\<rparr>))))"

end
