(* ===== verification/AgentLockstep.thy ===== *)
theory AgentLockstep
  imports AgentRuntime
begin

text \<open>
  Agents and queues move in lockstep.  The rebuilt demand counts the agents that want each turn and
  each sink; the tokens of a discrete tick never exceed it, so the commit reconciles; and after it
  the queue of every link is again the number of agents on the link.
\<close>

section \<open>The turn lookup is sound\<close>

definition lookup_sound :: "road_network \<Rightarrow> node_state \<Rightarrow> turn_lookup \<Rightarrow> bool" where
  "lookup_sound net ns lookup \<longleftrightarrow> (\<forall>a b j. lookup (a, b) = Some j \<longrightarrow> j < turn_count ns \<and>
     0 \<le> turn_from_link_index ns ! j \<and> 0 \<le> turn_to_link_index ns ! j \<and>
     link_index net a = Some (nat (turn_from_link_index ns ! j)) \<and>
     link_index net b = Some (nat (turn_to_link_index ns ! j)))"

lemma lookup_soundD:
  assumes "lookup_sound net ns lookup" "lookup (a, b) = Some j"
  shows "j < turn_count ns" "link_index net a = Some (nat (turn_from_link_index ns ! j))"
    "link_index net b = Some (nat (turn_to_link_index ns ! j))"
  using assms by (simp_all add: lookup_sound_def)

definition turns_indexed :: "road_network \<Rightarrow> bool" where
  "turns_indexed net \<longleftrightarrow> (\<forall>a b j. turn_pair_index net (a, b) = Some j \<longrightarrow> j < net_turn_count net \<and>
     from_link (net_turns net ! j) = a \<and> to_link (net_turns net ! j) = b)"

lemma collect_turn_pairs_sound:
  assumes "collect_turn_pairs ts m = Inr m'" "m' (a, b) = Some j"
  shows "m (a, b) = Some j \<or> (\<exists>t forb. (j, t, forb) \<in> set ts \<and> from_link t = a \<and> to_link t = b)"
  using assms
proof (induction ts m rule: collect_turn_pairs.induct)
  case (2 i t forb ts m)
  show ?case
  proof (cases forb)
    case True
    then show ?thesis using 2 by auto
  next
    case False
    then have "m (from_link t, to_link t) = None" and c: "collect_turn_pairs ts (m((from_link t, to_link t) \<mapsto> i)) = Inr m'"
      using "2.prems"(1) by (auto split: if_splits)
    from "2.IH"(2)[OF False _ c "2.prems"(2)] this(1) show ?thesis by (auto split: if_splits)
  qed
qed simp

lemma make_road_network_indexed:
  assumes "make_road_network nodes links turns crossings = Inr net" shows "turns_indexed net"
  unfolding turns_indexed_def
proof (intro allI impI)
  fix a b j assume j: "turn_pair_index net (a, b) = Some j"
  have "collect_turn_pairs (zip [0..<length turns] (zip turns (map (\<lambda>t. movement_type t = UTurnForbidden) turns)))
      Map.empty = Inr (turn_pair_index net)"
    using assms by (auto simp: make_road_network_def Let_def check_simps)
  from collect_turn_pairs_sound[OF this j] obtain t forb where
    "(j, t, forb) \<in> set (zip [0..<length turns] (zip turns (map (\<lambda>t. movement_type t = UTurnForbidden) turns)))"
    "from_link t = a" "to_link t = b" by auto
  then have "j < length turns" "from_link (turns ! j) = a" "to_link (turns ! j) = b"
    by (auto simp: in_set_zip)
  then show "j < net_turn_count net \<and> from_link (net_turns net ! j) = a \<and> to_link (net_turns net ! j) = b"
    using make_road_network_fields(3)[OF assms] by (simp add: net_turn_count_def)
qed

lemma collect_runtime_turns_sound:
  assumes "collect_runtime_turns ids ts m = Inr m'" "m' (a, b) = Some j"
  shows "m (a, b) = Some j \<or> (\<exists>f t. (j, f, t, False) \<in> set ts \<and> 0 \<le> f \<and> f < int (length ids) \<and>
    0 \<le> t \<and> t < int (length ids) \<and> ids ! nat f = a \<and> ids ! nat t = b)"
  using assms
proof (induction ids ts m rule: collect_runtime_turns.induct)
  case (2 ids i f t forb rest m)
  show ?case
  proof (cases forb)
    case True
    then show ?thesis using 2 by auto
  next
    case False
    then have r: "0 \<le> f \<and> f < int (length ids) \<and> 0 \<le> t \<and> t < int (length ids)"
      and n: "m (ids ! nat f, ids ! nat t) = None"
      and c: "collect_runtime_turns ids rest (m((ids ! nat f, ids ! nat t) \<mapsto> i)) = Inr m'"
      using "2.prems"(1) by (auto simp: Let_def split: if_splits)
    have "(m((ids ! nat f, ids ! nat t) \<mapsto> i)) (a, b) = Some j \<or> (\<exists>f t. (j, f, t, False) \<in> set rest \<and>
        0 \<le> f \<and> f < int (length ids) \<and> 0 \<le> t \<and> t < int (length ids) \<and> ids ! nat f = a \<and> ids ! nat t = b)"
      by (rule "2.IH"(2)[OF _ _ refl _ c "2.prems"(2)]) (use False r n in auto)
    then show ?thesis using False r by (auto split: if_splits)
  qed
qed simp

lemma runtime_lookup_sound:
  assumes "wf_network net" "turns_indexed net" "wf_node ns" "runtime_turn_index_lookup net ns = Inr lookup"
  shows "lookup_sound net ns lookup"
  unfolding lookup_sound_def
proof (intro allI impI)
  fix a b j assume j: "lookup (a, b) = Some j"
  have len: "length (turn_from_link_index ns) = turn_count ns" "length (turn_to_link_index ns) = turn_count ns"
    using assms(3) by (simp_all add: wf_node_def Let_def)
  let ?ids = "map link_id (net_links net)"
  have idx: "link_index net (?ids ! i) = Some i" if "i < net_link_count net" for i
    using assms(1) that index_of_distinct[of ?ids] by (auto simp: wf_network_def Let_def net_link_count_def)
  obtain forb where forb: "read_turn_forbidden (node_metadata ns) (turn_count ns) = Inr forb"
    using assms(4) by (auto simp: runtime_turn_index_lookup_def check_simps)
  show "j < turn_count ns \<and> 0 \<le> turn_from_link_index ns ! j \<and> 0 \<le> turn_to_link_index ns ! j \<and>
     link_index net a = Some (nat (turn_from_link_index ns ! j)) \<and>
     link_index net b = Some (nat (turn_to_link_index ns ! j))"
  proof (cases "turn_from_link_index ns = map int (turn_from net) \<and> turn_to_link_index ns = map int (turn_to net) \<and>
        forb = turn_forbidden net")
    case True
    then have l: "lookup = turn_pair_index net" using assms(4) forb by (simp add: runtime_turn_index_lookup_def)
    have k: "j < net_turn_count net" "from_link (net_turns net ! j) = a" "to_link (net_turns net ! j) = b"
      using assms(2) j unfolding l turns_indexed_def by blast+
    have t: "turn_from net ! j < net_link_count net" "turn_to net ! j < net_link_count net"
      "link_id (net_links net ! (turn_from net ! j)) = a" "link_id (net_links net ! (turn_to net ! j)) = b"
      "length (turn_from net) = net_turn_count net" "length (turn_to net) = net_turn_count net"
      using assms(1) k by (auto simp: wf_network_def Let_def)
    then have "link_index net a = Some (turn_from net ! j)" "link_index net b = Some (turn_to net ! j)"
      using idx[OF t(1)] idx[OF t(2)] by (simp_all add: net_link_count_def)
    then show ?thesis using True k t len by simp
  next
    case False
    then have c: "collect_runtime_turns ?ids (zip [0..<turn_count ns] (zip (turn_from_link_index ns)
        (zip (turn_to_link_index ns) forb))) Map.empty = Inr lookup"
      using assms(4) forb by (auto simp: runtime_turn_index_lookup_def)
    from collect_runtime_turns_sound[OF c j] obtain f t where ft:
      "(j, f, t, False) \<in> set (zip [0..<turn_count ns] (zip (turn_from_link_index ns) (zip (turn_to_link_index ns) forb)))"
      "0 \<le> f" "f < int (length ?ids)" "0 \<le> t" "t < int (length ?ids)" "?ids ! nat f = a" "?ids ! nat t = b"
      by auto
    then have "j < turn_count ns" "turn_from_link_index ns ! j = f" "turn_to_link_index ns ! j = t"
      by (auto simp: in_set_zip)
    then show ?thesis using ft idx[of "nat f"] idx[of "nat t"] by (auto simp: net_link_count_def)
  qed
qed

section \<open>What an agent wants\<close>

datatype intent = TurnIntent nat | SinkIntent nat | Waiting

definition slot_intent :: "road_network \<Rightarrow> turn_lookup \<Rightarrow> runtime_pool \<Rightarrow> nat \<Rightarrow> intent" where
  "slot_intent net lookup p k = (case read_slot_route p k of
       Inl _ \<Rightarrow> Waiting
     | Inr path \<Rightarrow>
        if remaining_route_ptr p ! k = int (length path) - 1
        then (case link_index net (current_link_id p ! k) of None \<Rightarrow> Waiting | Some i \<Rightarrow> SinkIntent i)
        else (case lookup (current_link_id p ! k, path ! nat (remaining_route_ptr p ! k + 1)) of
                None \<Rightarrow> Waiting | Some j \<Rightarrow> TurnIntent j))"

text \<open>A slot whose route is intact: its memory is its own, it stands on its route, and the route is a
  legal one to its destination.\<close>

definition slot_routed :: "road_network \<Rightarrow> turn_lookup \<Rightarrow> runtime_pool \<Rightarrow> nat \<Rightarrow> bool" where
  "slot_routed net lookup p k \<longleftrightarrow> (\<exists>path. read_slot_route p k = Inr path \<and>
     on_route path (remaining_route_ptr p ! k) (current_link_id p ! k) \<and>
     validate_route_path_authority net lookup path (dest_node_id p ! k) = Inr ())"

lemma route_authority_iff:
  "validate_route_path_authority net lookup path dest = Inr u \<longleftrightarrow> path \<noteq> [] \<and>
     (\<forall>l \<in> set path. link_index net l \<noteq> None) \<and>
     dst_node (net_links net ! the (link_index net (last path))) = dest \<and>
     (\<forall>i < length path - 1. lookup (path ! i, path ! Suc i) \<noteq> None)"
proof -
  have "(\<forall>ab \<in> set (zip path (tl path)). lookup ab \<noteq> None) \<longleftrightarrow>
      (\<forall>i < length path - 1. lookup (path ! i, path ! Suc i) \<noteq> None)"
    by (force simp: set_zip nth_tl)
  then show ?thesis by (auto simp: validate_route_path_authority_def check_simps)
qed

lemma routed_cases:
  assumes "slot_routed net lookup p k"
  obtains path where "read_slot_route p k = Inr path"
    "on_route path (remaining_route_ptr p ! k) (current_link_id p ! k)"
    "validate_route_path_authority net lookup path (dest_node_id p ! k) = Inr ()"
    "remaining_route_ptr p ! k = int (length path) - 1 \<Longrightarrow> \<exists>i. link_index net (current_link_id p ! k) = Some i \<and>
       dst_node (net_links net ! i) = dest_node_id p ! k \<and> slot_intent net lookup p k = SinkIntent i"
    "remaining_route_ptr p ! k \<noteq> int (length path) - 1 \<Longrightarrow>
       \<exists>j. lookup (current_link_id p ! k, path ! nat (remaining_route_ptr p ! k + 1)) = Some j \<and>
       slot_intent net lookup p k = TurnIntent j"
proof -
  obtain path where p: "read_slot_route p k = Inr path"
    "on_route path (remaining_route_ptr p ! k) (current_link_id p ! k)"
    "validate_route_path_authority net lookup path (dest_node_id p ! k) = Inr ()"
    using assms by (auto simp: slot_routed_def)
  let ?ptr = "remaining_route_ptr p ! k" and ?cur = "current_link_id p ! k"
  have b: "path \<noteq> []" "0 \<le> ?ptr" "?ptr < int (length path)" "path ! nat ?ptr = ?cur"
    using p(2) by (auto simp: on_route_def)
  have "?cur \<in> set path" using b nth_mem[of "nat ?ptr" path] by auto
  then obtain i where i: "link_index net ?cur = Some i" using p(3) by (auto simp: route_authority_iff)
  have sink: "\<exists>i. link_index net ?cur = Some i \<and> dst_node (net_links net ! i) = dest_node_id p ! k \<and>
      slot_intent net lookup p k = SinkIntent i" if "?ptr = int (length path) - 1"
  proof -
    have "nat ?ptr = length path - 1" using that by linarith
    then have "last path = ?cur" using b by (simp add: last_conv_nth)
    then show ?thesis using p i that by (simp add: slot_intent_def route_authority_iff)
  qed
  have turn: "\<exists>j. lookup (?cur, path ! nat (?ptr + 1)) = Some j \<and> slot_intent net lookup p k = TurnIntent j"
    if "?ptr \<noteq> int (length path) - 1"
  proof -
    have "nat ?ptr < length path - 1" "nat (?ptr + 1) = Suc (nat ?ptr)" using b that by auto
    then have "lookup (?cur, path ! nat (?ptr + 1)) \<noteq> None" using p(3) b by (auto simp: route_authority_iff)
    then show ?thesis using p that by (auto simp: slot_intent_def)
  qed
  show ?thesis using that p sink turn by blast
qed

section \<open>The rebuilt demand counts the agents\<close>

definition active :: "runtime_pool \<Rightarrow> int set \<Rightarrow> nat \<Rightarrow> bool" where
  "active p skip k \<longleftrightarrow> alive_mask p ! k \<and> int k \<notin> skip"

definition wanting :: "bool \<Rightarrow> runtime_pool \<Rightarrow> int set \<Rightarrow> nat \<Rightarrow> bool" where
  "wanting spatial p skip k \<longleftrightarrow> active p skip k \<and> (spatial \<longrightarrow> exit_threshold \<le> progress_01 p ! k)"

definition agents_routed :: "road_network \<Rightarrow> turn_lookup \<Rightarrow> runtime_pool \<Rightarrow> int set \<Rightarrow> bool" where
  "agents_routed net lookup p skip \<longleftrightarrow> (\<forall>k < length (alive_mask p). active p skip k \<longrightarrow> slot_routed net lookup p k)"

text \<open>How many of the first slots satisfy a predicate and want a given movement.\<close>

definition wish_count :: "road_network \<Rightarrow> turn_lookup \<Rightarrow> runtime_pool \<Rightarrow> (nat \<Rightarrow> bool) \<Rightarrow> intent \<Rightarrow> nat \<Rightarrow> int" where
  "wish_count net lookup p P m n = (\<Sum>k<n. if P k \<and> slot_intent net lookup p k = m then 1 else 0)"

lemma wish_count_0 [simp]: "wish_count net lookup p P m 0 = 0"
  by (simp add: wish_count_def)

lemma wish_count_Suc: "wish_count net lookup p P m (Suc n) = wish_count net lookup p P m n +
    (if P n \<and> slot_intent net lookup p n = m then 1 else 0)"
  by (simp add: wish_count_def)

lemma wish_count_nonneg: "0 \<le> wish_count net lookup p P m n"
  by (simp add: wish_count_def sum_nonneg)

lemma wish_count_mono: "n \<le> n' \<Longrightarrow> wish_count net lookup p P m n \<le> wish_count net lookup p P m n'"
  unfolding wish_count_def by (rule sum_mono2) auto

lemma wish_count_subset: "(\<And>k. k < n \<Longrightarrow> P k \<Longrightarrow> Q k) \<Longrightarrow> wish_count net lookup p P m n \<le> wish_count net lookup p Q m n"
  unfolding wish_count_def by (rule sum_mono) auto

lemma wish_count_alive:
  assumes "\<And>k. k < length (alive_mask p) \<Longrightarrow> P k \<Longrightarrow> alive_mask p ! k"
  shows "wish_count net lookup p P m (length (alive_mask p)) \<le> int (count_list (alive_mask p) True)"
proof -
  have "wish_count net lookup p P m (length (alive_mask p)) \<le> (\<Sum>k<length (alive_mask p). if alive_mask p ! k then 1 else 0)"
    unfolding wish_count_def by (rule sum_mono) (use assms in auto)
  also have "\<dots> = int (card {k \<in> {..<length (alive_mask p)}. alive_mask p ! k})"
    by (simp flip: sum.inter_filter)
  also have "card {k \<in> {..<length (alive_mask p)}. alive_mask p ! k} = count_list (alive_mask p) True"
    by (simp add: count_list_eq_length_filter length_filter_conv_card lessThan_def Collect_conj_eq)
  finally show ?thesis .
qed

lemma add_one_count:
  assumes "xs = map of_int ns" "0 \<le> ns ! i" "ns ! i < 2 ^ 24"
  shows "add_one xs i = map of_int (ns[i := ns ! i + 1])"
proof (cases "i < length ns")
  case True
  have "r32 (of_int (ns ! i) + of_int 1) = of_int (ns ! i + 1)"
    by (rule f32.rd_add_ints) (use assms(2,3) in simp_all)
  then show ?thesis using True assms(1) by (simp add: add_one_def map_update)
next
  case False
  then show ?thesis using assms(1) by (simp add: add_one_def list_update_beyond)
qed

definition wishes :: "road_network \<Rightarrow> turn_lookup \<Rightarrow> runtime_pool \<Rightarrow> (nat \<Rightarrow> bool) \<Rightarrow> (nat \<Rightarrow> intent) \<Rightarrow> nat \<Rightarrow> nat \<Rightarrow> int list" where
  "wishes net lookup p P mk n sz = map (\<lambda>j. wish_count net lookup p P (mk j) n) [0..<sz]"

lemma wishes_step:
  assumes "P n" "slot_intent net lookup p n = mk j" "j < sz" "inj mk"
  shows "wishes net lookup p P mk (Suc n) sz =
    (wishes net lookup p P mk n sz)[j := wishes net lookup p P mk n sz ! j + 1]"
  using assms by (intro nth_equalityI) (auto simp: wishes_def wish_count_Suc nth_update_if dest: injD)

lemma wishes_other:
  assumes "\<not> P n \<or> (\<forall>j. slot_intent net lookup p n \<noteq> mk j)"
  shows "wishes net lookup p P mk (Suc n) sz = wishes net lookup p P mk n sz"
  using assms by (auto simp: wishes_def wish_count_Suc)

lemma inj_intents [simp]: "inj TurnIntent" "inj SinkIntent"
  by (auto simp: inj_def)

lemma rebuild_loop:
  assumes "agents_routed net lookup p skip" "lookup_sound net ns lookup" "n \<le> length (alive_mask p)"
    and "\<And>j. wish_count net lookup p (wanting spatial p skip) j (length (alive_mask p)) < 2 ^ 24"
    and "\<forall>l i. link_index net l = Some i \<longrightarrow> i < links"
  shows "foldE (rebuild_slot net lookup spatial skip p) [0..<n]
      \<lparr>acc_turn = replicate (turn_count ns) 0, acc_sink = replicate links 0, acc_missing = [], acc_invalid = []\<rparr>
    = Inr \<lparr>acc_turn = map of_int (wishes net lookup p (wanting spatial p skip) TurnIntent n (turn_count ns)),
        acc_sink = map of_int (wishes net lookup p (wanting spatial p skip) SinkIntent n links),
        acc_missing = [], acc_invalid = []\<rparr>"
  using assms(3)
proof (induction n)
  case 0
  show ?case by (simp add: wishes_def map_replicate_const)
next
  case (Suc n)
  let ?P = "wanting spatial p skip"
  let ?T = "wishes net lookup p ?P TurnIntent" and ?S = "wishes net lookup p ?P SinkIntent"
  let ?acc = "\<lambda>n. \<lparr>acc_turn = map of_int (?T n (turn_count ns)), acc_sink = map of_int (?S n links),
        acc_missing = [], acc_invalid = []\<rparr>"
  have small: "wish_count net lookup p ?P m n < 2 ^ 24" for m
    using wish_count_mono[of n "length (alive_mask p)" net lookup p ?P m] assms(4)[of m] Suc.prems by simp
  have "rebuild_slot net lookup spatial skip p n (?acc n) = Inr (?acc (Suc n))"
  proof (cases "active p skip n")
    case False
    then show ?thesis
      using wishes_other[of ?P n net lookup p]
      by (auto simp: rebuild_slot_def active_def wanting_def)
  next
    case act: True
    have "slot_routed net lookup p n" using assms(1) act Suc.prems by (simp add: agents_routed_def)
    then obtain path where r: "read_slot_route p n = Inr path"
      "on_route path (remaining_route_ptr p ! n) (current_link_id p ! n)"
      "validate_route_path_authority net lookup path (dest_node_id p ! n) = Inr ()"
      "remaining_route_ptr p ! n = int (length path) - 1 \<Longrightarrow> \<exists>i. link_index net (current_link_id p ! n) = Some i \<and>
         dst_node (net_links net ! i) = dest_node_id p ! n \<and> slot_intent net lookup p n = SinkIntent i"
      "remaining_route_ptr p ! n \<noteq> int (length path) - 1 \<Longrightarrow>
         \<exists>j. lookup (current_link_id p ! n, path ! nat (remaining_route_ptr p ! n + 1)) = Some j \<and>
         slot_intent net lookup p n = TurnIntent j"
      using routed_cases by blast
    show ?thesis
    proof (cases "?P n")
      case False
      then have "spatial" "progress_01 p ! n < exit_threshold" using act by (auto simp: wanting_def)
      then show ?thesis using False act r(1,2) wishes_other[of ?P n net lookup p]
        by (simp add: rebuild_slot_def active_def Let_def)
    next
      case want: True
      then have near: "(spatial \<and> progress_01 p ! n < exit_threshold) = False" by (auto simp: wanting_def)
      show ?thesis
      proof (cases "remaining_route_ptr p ! n = int (length path) - 1")
        case True
        then obtain i where i: "link_index net (current_link_id p ! n) = Some i"
          "dst_node (net_links net ! i) = dest_node_id p ! n" "slot_intent net lookup p n = SinkIntent i"
          using r(4) by blast
        have il: "i < links" using assms(5) i(1) by blast
        have "?S n links ! i = wish_count net lookup p ?P (SinkIntent i) n" using il by (simp add: wishes_def)
        then have "add_one (map of_int (?S n links)) i = map of_int ((?S n links)[i := ?S n links ! i + 1])"
          using wish_count_nonneg[of net lookup p ?P "SinkIntent i" n] small[of "SinkIntent i"]
          by (intro add_one_count) simp_all
        then have "rebuild_slot net lookup spatial skip p n (?acc n) =
            Inr ((?acc n)\<lparr>acc_sink := map of_int ((?S n links)[i := ?S n links ! i + 1])\<rparr>)"
          using act True r(1-3) i(1,2) by (simp add: rebuild_slot_def active_def Let_def near)
        then show ?thesis
          using wishes_step[of ?P n net lookup p SinkIntent i links] want i(3) il wishes_other[of ?P n net lookup p TurnIntent] by simp
      next
        case False
        then obtain j where j: "lookup (current_link_id p ! n, path ! nat (remaining_route_ptr p ! n + 1)) = Some j"
          "slot_intent net lookup p n = TurnIntent j" using r(5) by blast
        have jl: "j < turn_count ns" by (rule lookup_soundD(1)[OF assms(2) j(1)])
        have "?T n (turn_count ns) ! j = wish_count net lookup p ?P (TurnIntent j) n" using jl by (simp add: wishes_def)
        then have "add_one (map of_int (?T n (turn_count ns))) j =
            map of_int ((?T n (turn_count ns))[j := ?T n (turn_count ns) ! j + 1])"
          using wish_count_nonneg[of net lookup p ?P "TurnIntent j" n] small[of "TurnIntent j"]
          by (intro add_one_count) simp_all
        then have "rebuild_slot net lookup spatial skip p n (?acc n) =
            Inr ((?acc n)\<lparr>acc_turn := map of_int ((?T n (turn_count ns))[j := ?T n (turn_count ns) ! j + 1])\<rparr>)"
          using act False r(1-3) j(1) by (simp add: rebuild_slot_def active_def Let_def near)
        then show ?thesis
          using wishes_step[of ?P n net lookup p TurnIntent j "turn_count ns"] want j(2) jl wishes_other[of ?P n net lookup p SinkIntent] by simp
      qed
    qed
  qed
  then show ?case using Suc by (simp add: foldE_append)
qed

section \<open>Occupancy\<close>

text \<open>The number of agents on a link.\<close>

definition occupancy :: "road_network \<Rightarrow> runtime_pool \<Rightarrow> nat \<Rightarrow> int" where
  "occupancy net p s = (\<Sum>k<length (alive_mask p).
     if alive_mask p ! k \<and> link_index net (current_link_id p ! k) = Some s then 1 else 0)"

lemma sum_change_one:
  fixes f g :: "nat \<Rightarrow> int"
  assumes "k < n" "\<And>j. j < n \<Longrightarrow> j \<noteq> k \<Longrightarrow> g j = f j"
  shows "(\<Sum>j<n. g j) = (\<Sum>j<n. f j) - f k + g k"
proof -
  have "(\<Sum>j\<in>{..<n} - {k}. g j) = (\<Sum>j\<in>{..<n} - {k}. f j)" using assms(2) by (intro sum.cong) auto
  then show ?thesis using assms(1) by (simp add: sum.remove[of "{..<n}" k])
qed

lemma occupancy_move:
  assumes "k < length (alive_mask p)" "length (current_link_id p) = length (alive_mask p)" "alive_mask p ! k"
    "link_index net (current_link_id p ! k) = Some a" "link_index net nxt = Some b"
  shows "occupancy net (runtime_move_slot p k ptr nxt) s =
    occupancy net p s - (if a = s then 1 else 0) + (if b = s then 1 else 0)"
proof -
  let ?f = "\<lambda>j. if alive_mask p ! j \<and> link_index net (current_link_id p ! j) = Some s then 1 else (0::int)"
  let ?g = "\<lambda>j. if alive_mask p ! j \<and> link_index net ((current_link_id p)[k := nxt] ! j) = Some s then 1 else (0::int)"
  have "(\<Sum>j<length (alive_mask p). ?g j) = (\<Sum>j<length (alive_mask p). ?f j) - ?f k + ?g k"
    by (rule sum_change_one[OF assms(1)]) (simp add: nth_update_if)
  then show ?thesis using assms by (simp add: occupancy_def runtime_move_slot_def)
qed

lemma occupancy_release:
  assumes "k < length (alive_mask p)" "length (current_link_id p) = length (alive_mask p)" "alive_mask p ! k"
    "link_index net (current_link_id p ! k) = Some a"
  shows "occupancy net (runtime_release_slot p k) s = occupancy net p s - (if a = s then 1 else 0)"
proof -
  let ?f = "\<lambda>j. if alive_mask p ! j \<and> link_index net (current_link_id p ! j) = Some s then 1 else (0::int)"
  let ?g = "\<lambda>j. if (alive_mask p)[k := False] ! j \<and> link_index net ((current_link_id p)[k := - 1] ! j) = Some s
      then 1 else (0::int)"
  have "(\<Sum>j<length (alive_mask p). ?g j) = (\<Sum>j<length (alive_mask p). ?f j) - ?f k + ?g k"
    by (rule sum_change_one[OF assms(1)]) (simp add: nth_update_if)
  then show ?thesis using assms by (simp add: occupancy_def runtime_release_slot_def)
qed

lemma occupancy_total:
  assumes "\<forall>k < length (alive_mask p). alive_mask p ! k \<longrightarrow> (\<exists>s < links. link_index net (current_link_id p ! k) = Some s)"
  shows "(\<Sum>s<links. occupancy net p s) = int (count_list (alive_mask p) True)"
proof -
  have "(\<Sum>s<links. occupancy net p s) = (\<Sum>k<length (alive_mask p). \<Sum>s<links.
      if alive_mask p ! k \<and> link_index net (current_link_id p ! k) = Some s then 1 else (0::int))"
    unfolding occupancy_def by (rule sum.swap)
  also have "\<dots> = (\<Sum>k<length (alive_mask p). if alive_mask p ! k then 1 else 0)"
  proof (rule sum.cong[OF refl])
    fix k assume k: "k \<in> {..<length (alive_mask p)}"
    show "(\<Sum>s<links. if alive_mask p ! k \<and> link_index net (current_link_id p ! k) = Some s then 1 else (0::int))
        = (if alive_mask p ! k then 1 else 0)"
    proof (cases "alive_mask p ! k")
      case True
      then obtain s where "s < links" "link_index net (current_link_id p ! k) = Some s" using assms k by auto
      then show ?thesis using True by (simp add: sum.delta)
    qed simp
  qed
  also have "\<dots> = int (card {k \<in> {..<length (alive_mask p)}. alive_mask p ! k})"
    by (simp flip: sum.inter_filter)
  also have "card {k \<in> {..<length (alive_mask p)}. alive_mask p ! k} = count_list (alive_mask p) True"
    by (simp add: count_list_eq_length_filter length_filter_conv_card lessThan_def Collect_conj_eq)
  finally show ?thesis .
qed

section \<open>The steps of the commit keep the pool\<close>

lemma release_vacates: "runtime_release_slot p k = (vacated p k)\<lparr>plugin_memory := (plugin_memory p)(int k := None)\<rparr>"
  by (simp add: runtime_release_slot_def vacated_def fill_slot_def blank_slot_def)

lemma release_ok: "pool_ok p \<Longrightarrow> k < nat (capacity p) \<Longrightarrow> alive_mask p ! k \<Longrightarrow> pool_ok (runtime_release_slot p k)"
  unfolding release_vacates by (intro pool_ok_memory vacated_ok)

lemma move_ok:
  assumes "pool_ok p" "k < nat (capacity p)" "alive_mask p ! k"
  shows "pool_ok (runtime_move_slot p k ptr nxt)"
proof -
  let ?q = "runtime_move_slot p k ptr nxt"
  have vals: "pool_values_ok p" "pool_shaped p" using assms(1) by (simp_all add: pool_ok_def)
  have "\<forall>x \<in> set ((progress_01 p)[k := 0]). is_f32 x \<and> 0 \<le> x \<and> x \<le> 1"
    by (rule ball_update) (use vals in \<open>simp_all add: pool_values_ok_def\<close>)
  moreover have "\<forall>x \<in> set ((reroute_cooldown_ticks p)[k := max 0 (reroute_cooldown_ticks p ! k - 1)]). 0 \<le> x"
    by (rule ball_update) (use vals in \<open>simp_all add: pool_values_ok_def\<close>)
  ultimately have v: "pool_values_ok ?q" by (simp add: pool_values_ok_def runtime_move_slot_def)
  have c: "\<forall>j < nat (capacity p). \<not> alive_mask p ! j \<longrightarrow> slot_clean ?q j"
    using assms by (auto simp: pool_ok_def slot_clean_def runtime_move_slot_def nth_update_if)
  have s: "pool_shaped ?q" using vals(2) by (simp add: pool_shaped_def runtime_move_slot_def)
  show ?thesis
    using assms(1) v c s unfolding pool_ok_def
    by (simp add: free_ids_def runtime_move_slot_def)
qed

section \<open>The commit loop\<close>

definition same_slot :: "runtime_pool \<Rightarrow> runtime_pool \<Rightarrow> nat \<Rightarrow> bool" where
  "same_slot p q k \<longleftrightarrow> alive_mask q ! k = alive_mask p ! k \<and> current_link_id q ! k = current_link_id p ! k \<and>
     remaining_route_ptr q ! k = remaining_route_ptr p ! k \<and> trip_id q ! k = trip_id p ! k \<and>
     dest_node_id q ! k = dest_node_id p ! k \<and> plugin_memory q (int k) = plugin_memory p (int k)"

lemma same_slot_refl [simp]: "same_slot p p k"
  by (simp add: same_slot_def)



lemma same_slot_trans: "same_slot p q k \<Longrightarrow> same_slot q r k \<Longrightarrow> same_slot p r k"
  by (simp add: same_slot_def)

lemma read_slot_route_cong:
  assumes "plugin_memory q (int k) = plugin_memory p (int k)" "trip_id q ! k = trip_id p ! k"
  shows "read_slot_route q k = read_slot_route p k"
proof -
  have "validate_slot_trip_identity q k = validate_slot_trip_identity p k"
    using assms(2) by (simp add: fun_eq_iff validate_slot_trip_identity_def split: option.split memo.split)
  then show ?thesis using assms(1) by (simp add: read_slot_route_def slot_memory_of_def)
qed

lemma same_slot_read: "same_slot p q k \<Longrightarrow> read_slot_route q k = read_slot_route p k"
  by (rule read_slot_route_cong) (simp_all add: same_slot_def)

lemma same_slot_routed: "same_slot p q k \<Longrightarrow> slot_routed net lookup q k = slot_routed net lookup p k"
  using same_slot_read[of p q k] by (simp add: slot_routed_def same_slot_def)

lemma move_same: "j \<noteq> k \<Longrightarrow> same_slot q (runtime_move_slot q k ptr nxt) j"
  by (simp add: same_slot_def runtime_move_slot_def)

lemma release_same: "j \<noteq> k \<Longrightarrow> same_slot q (runtime_release_slot q k) j"
  by (simp add: same_slot_def runtime_release_slot_def)

lemma move_routed:
  assumes "k < length (remaining_route_ptr q)" "k < length (current_link_id q)"
    "read_slot_route q k = Inr path" "on_route path (remaining_route_ptr q ! k) (current_link_id q ! k)"
    "validate_route_path_authority net lookup path (dest_node_id q ! k) = Inr ()"
    "remaining_route_ptr q ! k \<noteq> int (length path) - 1"
  shows "slot_routed net lookup (runtime_move_slot q k (remaining_route_ptr q ! k + 1)
    (path ! nat (remaining_route_ptr q ! k + 1))) k"
proof -
  have "read_slot_route (runtime_move_slot q k ptr nxt) k = Inr path" for ptr nxt
    unfolding assms(3)[symmetric] by (rule read_slot_route_cong) (simp_all add: runtime_move_slot_def)
  then show ?thesis using assms by (auto simp: slot_routed_def runtime_move_slot_def on_route_def)
qed

text \<open>The tokens spent after the first slots: the wishes, capped by the tokens.\<close>

definition spent :: "(intent \<Rightarrow> nat \<Rightarrow> int) \<Rightarrow> int list \<Rightarrow> (nat \<Rightarrow> intent) \<Rightarrow> nat \<Rightarrow> int list" where
  "spent wish M mk n = map (\<lambda>j. min (M ! j) (wish (mk j) n)) [0..<length M]"

lemma spent_nth: "j < length M \<Longrightarrow> spent wish M mk n ! j = min (M ! j) (wish (mk j) n)"
  by (simp add: spent_def)

lemma length_spent [simp]: "length (spent wish M mk n) = length M"
  by (simp add: spent_def)

definition tokens_left :: "(intent \<Rightarrow> nat \<Rightarrow> int) \<Rightarrow> int list \<Rightarrow> (nat \<Rightarrow> intent) \<Rightarrow> nat \<Rightarrow> int list" where
  "tokens_left wish M mk n = map2 (-) M (spent wish M mk n)"

lemma tokens_left_nth: "j < length M \<Longrightarrow> tokens_left wish M mk n ! j = M ! j - min (M ! j) (wish (mk j) n)"
  by (simp add: tokens_left_def spent_nth)

lemma length_tokens_left [simp]: "length (tokens_left wish M mk n) = length M"
  by (simp add: tokens_left_def)

lemma spent_same:
  assumes "\<And>j. j < length M \<Longrightarrow> \<not> active p skip n \<or> slot_intent net lookup p n \<noteq> mk j \<or>
    M ! j \<le> wish_count net lookup p (active p skip) (mk j) n"
  shows "spent (wish_count net lookup p (active p skip)) M mk (Suc n) =
    spent (wish_count net lookup p (active p skip)) M mk n"
  using assms by (intro nth_equalityI) (auto simp: spent_nth wish_count_Suc)

lemma spent_step:
  assumes "active p skip n" "slot_intent net lookup p n = mk j" "j < length M" "inj mk"
    "wish_count net lookup p (active p skip) (mk j) n < M ! j"
  shows "spent (wish_count net lookup p (active p skip)) M mk (Suc n) =
    (spent (wish_count net lookup p (active p skip)) M mk n)
      [j := spent (wish_count net lookup p (active p skip)) M mk n ! j + 1]"
  using assms by (intro nth_equalityI) (auto simp: spent_nth wish_count_Suc nth_update_if dest: injD)

text \<open>What the commit keeps after the first slots.\<close>

definition commit_inv :: "road_network \<Rightarrow> turn_lookup \<Rightarrow> int set \<Rightarrow> node_state \<Rightarrow> runtime_pool \<Rightarrow> int list \<Rightarrow>
    int list \<Rightarrow> nat \<Rightarrow> commit_state \<Rightarrow> bool" where
  "commit_inv net lookup skip ns p M S n st \<longleftrightarrow>
     (let wish = wish_count net lookup p (active p skip); T = spent wish M TurnIntent n;
          K = spent wish S SinkIntent n; q = cs_pool st in
       pool_ok q \<and> capacity q = capacity p \<and> agents_routed net lookup q {} \<and>
       (\<forall>k. n \<le> k \<longrightarrow> same_slot p q k) \<and>
       cs_turn_tokens st = tokens_left wish M TurnIntent n \<and> cs_sink_tokens st = tokens_left wish S SinkIntent n \<and>
       int (cs_moved st) = sum_list T \<and> int (length (cs_completed st)) = sum_list K \<and>
       (\<forall>s < length S. occupancy net q s = occupancy net p s
          - (segment_total T (map nat (turn_from_link_index ns)) s + K ! s)
          + segment_total T (map nat (turn_to_link_index ns)) s))"

lemma tokens_left_step:
  assumes "spent wish M mk (Suc n) = (spent wish M mk n)[j := spent wish M mk n ! j + 1]"
  shows "tokens_left wish M mk (Suc n) = bump (tokens_left wish M mk n) j (- 1)"
  unfolding tokens_left_def assms
  by (intro nth_equalityI) (auto simp: bump_def nth_update_if)

lemma tokens_left_same:
  "spent wish M mk (Suc n) = spent wish M mk n \<Longrightarrow> tokens_left wish M mk (Suc n) = tokens_left wish M mk n"
  by (simp add: tokens_left_def)

lemma tokens_left_pos: "j < length M \<Longrightarrow> tokens_left wish M mk n ! j \<le> 0 \<longleftrightarrow> M ! j \<le> wish (mk j) n"
  by (auto simp: tokens_left_nth)

lemma agents_routed_update:
  assumes "agents_routed net lookup q {}" "length (alive_mask q') = length (alive_mask q)"
    "\<And>j. j \<noteq> k \<Longrightarrow> same_slot q q' j" "alive_mask q' ! k \<Longrightarrow> slot_routed net lookup q' k"
  shows "agents_routed net lookup q' {}"
  unfolding agents_routed_def
proof (intro allI impI)
  fix j assume j: "j < length (alive_mask q')" "active q' {} j"
  show "slot_routed net lookup q' j"
  proof (cases "j = k")
    case True
    then show ?thesis using assms(4) j(2) by (simp add: active_def)
  next
    case False
    then have "same_slot q q' j" by (rule assms(3))
    then show ?thesis
      using assms(1,2) j same_slot_routed[of q q' j] by (auto simp: agents_routed_def active_def same_slot_def)
  qed
qed

lemma commit_other:
  assumes "commit_inv net lookup skip ns p M S n st" "st' = st\<lparr>cs_sink_wait := w\<rparr>"
    "\<And>j. j < length M \<Longrightarrow> \<not> active p skip n \<or> slot_intent net lookup p n \<noteq> TurnIntent j \<or>
       M ! j \<le> wish_count net lookup p (active p skip) (TurnIntent j) n"
    "\<And>j. j < length S \<Longrightarrow> \<not> active p skip n \<or> slot_intent net lookup p n \<noteq> SinkIntent j \<or>
       S ! j \<le> wish_count net lookup p (active p skip) (SinkIntent j) n"
  shows "commit_inv net lookup skip ns p M S (Suc n) st'"
proof -
  note T = spent_same[of M p skip n net lookup TurnIntent, OF assms(3)]
    and K = spent_same[of S p skip n net lookup SinkIntent, OF assms(4)]
  show ?thesis
    using assms(1) T K tokens_left_same[OF T] tokens_left_same[OF K]
    by (simp add: commit_inv_def Let_def assms(2))
qed

lemma commit_move:
  assumes inv: "commit_inv net lookup skip ns p M S n st" and sound: "lookup_sound net ns lookup"
    and wf: "wf_node ns" and M: "length M = turn_count ns" and n: "n < nat (capacity p)"
    and act: "active p skip n" and intent: "slot_intent net lookup p n = TurnIntent j"
    and r: "read_slot_route p n = Inr path" "on_route path (remaining_route_ptr p ! n) (current_link_id p ! n)"
      "validate_route_path_authority net lookup path (dest_node_id p ! n) = Inr ()"
      "remaining_route_ptr p ! n \<noteq> int (length path) - 1"
      "lookup (current_link_id p ! n, path ! nat (remaining_route_ptr p ! n + 1)) = Some j"
    and tok: "0 < cs_turn_tokens st ! j"
  shows "commit_inv net lookup skip ns p M S (Suc n) (st\<lparr>cs_turn_tokens := bump (cs_turn_tokens st) j (- 1),
    cs_moved := cs_moved st + 1, cs_pool := runtime_move_slot (cs_pool st) n (remaining_route_ptr p ! n + 1)
      (path ! nat (remaining_route_ptr p ! n + 1))\<rparr>)"
proof -
  let ?w = "wish_count net lookup p (active p skip)" and ?q = "cs_pool st" and ?ptr = "remaining_route_ptr p ! n"
  let ?nxt = "path ! nat (?ptr + 1)" and ?f = "map nat (turn_from_link_index ns)" and ?t = "map nat (turn_to_link_index ns)"
  let ?q' = "runtime_move_slot ?q n (?ptr + 1) ?nxt"
  have same: "same_slot p ?q n" and pq: "pool_ok ?q" "capacity ?q = capacity p"
    and rt: "agents_routed net lookup ?q {}"
    using inv by (simp_all add: commit_inv_def Let_def)
  have j: "j < length M" using lookup_soundD(1)[OF sound r(5)] M by simp
  have less: "?w (TurnIntent j) n < M ! j"
    using tok inv tokens_left_pos[OF j, of ?w TurnIntent n] by (simp add: commit_inv_def Let_def)
  note T = spent_step[of p skip n net lookup TurnIntent j M, OF act intent j inj_intents(1) less]
  have K: "spent ?w S SinkIntent (Suc n) = spent ?w S SinkIntent n"
    by (rule spent_same) (simp add: intent)
  have len: "length (alive_mask ?q) = nat (capacity p)" "length (current_link_id ?q) = nat (capacity p)"
    "length (remaining_route_ptr ?q) = nat (capacity p)"
    using pq by (simp_all add: pool_ok_def pool_shaped_def)
  have slot: "alive_mask ?q ! n" "current_link_id ?q ! n = current_link_id p ! n" "remaining_route_ptr ?q ! n = ?ptr"
    "dest_node_id ?q ! n = dest_node_id p ! n" "read_slot_route ?q n = Inr path"
    using same act same_slot_read[OF same] r(1) by (auto simp: same_slot_def active_def)
  have idx: "link_index net (current_link_id ?q ! n) = Some (?f ! j)" "link_index net ?nxt = Some (?t ! j)"
    using lookup_soundD[OF sound r(5)] M wf by (simp_all add: slot(2) wf_node_def Let_def)
  have ok: "pool_ok ?q'" by (rule move_ok) (use pq n slot(1) in simp_all)
  have routed: "agents_routed net lookup ?q' {}"
  proof (rule agents_routed_update[OF rt, of _ n])
    show "slot_routed net lookup ?q' n"
      using move_routed[of n ?q path net lookup] slot r n len by simp
  qed (simp_all add: move_same, simp add: runtime_move_slot_def)
  have fl: "length ?f = length M" "length ?t = length M" using M wf by (simp_all add: wf_node_def Let_def)
  have occ: "occupancy net ?q' s = occupancy net ?q s - (if ?f ! j = s then 1 else 0) + (if ?t ! j = s then 1 else 0)" for s
    by (rule occupancy_move[OF _ _ slot(1) idx]) (use n len in simp_all)
  have seg: "segment_total (spent ?w M TurnIntent (Suc n)) idx s =
      segment_total (spent ?w M TurnIntent n) idx s + (if idx ! j = s then 1 else 0)" if "length idx = length M" for idx s
    unfolding T by (rule segment_total_update) (use j that in simp_all)
  have same': "same_slot p ?q' k" if "Suc n \<le> k" for k
  proof -
    have "same_slot p ?q k" using inv that by (simp add: commit_inv_def Let_def)
    then show ?thesis by (rule same_slot_trans) (use move_same[of k n ?q] that in simp)
  qed
  have moved: "int (cs_moved st + 1) = sum_list (spent ?w M TurnIntent (Suc n))"
    unfolding T using j inv by (simp add: sum_list_update commit_inv_def Let_def)
  have old: "cs_turn_tokens st = tokens_left ?w M TurnIntent n" "cs_sink_tokens st = tokens_left ?w S SinkIntent n"
    "int (length (cs_completed st)) = sum_list (spent ?w S SinkIntent n)"
    "\<forall>s < length S. occupancy net ?q s = occupancy net p s
          - (segment_total (spent ?w M TurnIntent n) ?f s + spent ?w S SinkIntent n ! s)
          + segment_total (spent ?w M TurnIntent n) ?t s"
    using inv by (simp_all add: commit_inv_def Let_def)
  have cap: "capacity ?q' = capacity p" using pq(2) by (simp add: runtime_move_slot_def)
  show ?thesis
    unfolding commit_inv_def Let_def
    by (intro conjI allI impI, simp_all only: commit_state.simps K)
      (use ok routed cap same' moved old tokens_left_step[OF T] tokens_left_same[OF K] occ seg[OF fl(1)] seg[OF fl(2)]
        in \<open>simp_all add: K\<close>)
qed

lemma commit_release:
  assumes inv: "commit_inv net lookup skip ns p M S n st"
    and n: "n < nat (capacity p)" and act: "active p skip n" and intent: "slot_intent net lookup p n = SinkIntent i"
    and i: "link_index net (current_link_id p ! n) = Some i" "i < length S" and tok: "0 < cs_sink_tokens st ! i"
  shows "commit_inv net lookup skip ns p M S (Suc n) (st\<lparr>cs_sink_tokens := bump (cs_sink_tokens st) i (- 1),
    cs_completed := cs_completed st @ [c], cs_pool := runtime_release_slot (cs_pool st) n\<rparr>)"
proof -
  let ?w = "wish_count net lookup p (active p skip)" and ?q = "cs_pool st"
  let ?f = "map nat (turn_from_link_index ns)" and ?t = "map nat (turn_to_link_index ns)"
  let ?q' = "runtime_release_slot ?q n"
  have same: "same_slot p ?q n" and pq: "pool_ok ?q" "capacity ?q = capacity p"
    and rt: "agents_routed net lookup ?q {}"
    using inv by (simp_all add: commit_inv_def Let_def)
  have less: "?w (SinkIntent i) n < S ! i"
    using tok inv tokens_left_pos[OF i(2), of ?w SinkIntent n] by (simp add: commit_inv_def Let_def)
  note K = spent_step[of p skip n net lookup SinkIntent i S, OF act intent i(2) inj_intents(2) less]
  have T: "spent ?w M TurnIntent (Suc n) = spent ?w M TurnIntent n"
    by (rule spent_same) (simp add: intent)
  have len: "length (alive_mask ?q) = nat (capacity p)" "length (current_link_id ?q) = nat (capacity p)"
    using pq by (simp_all add: pool_ok_def pool_shaped_def)
  have slot: "alive_mask ?q ! n" "link_index net (current_link_id ?q ! n) = Some i"
    using same act i(1) by (auto simp: same_slot_def active_def)
  have ok: "pool_ok ?q'" by (rule release_ok) (use pq n slot(1) in simp_all)
  have dead: "\<not> alive_mask ?q' ! n" using n len by (simp add: runtime_release_slot_def)
  have routed: "agents_routed net lookup ?q' {}"
    by (rule agents_routed_update[OF rt, of _ n]) (use dead in \<open>simp_all add: release_same\<close>, simp add: runtime_release_slot_def)
  have occ: "occupancy net ?q' s = occupancy net ?q s - (if i = s then 1 else 0)" for s
    by (rule occupancy_release[OF _ _ slot]) (use n len in simp_all)
  have same': "same_slot p ?q' k" if "Suc n \<le> k" for k
  proof -
    have "same_slot p ?q k" using inv that by (simp add: commit_inv_def Let_def)
    then show ?thesis by (rule same_slot_trans) (use release_same[of k n ?q] that in simp)
  qed
  have left: "int (length (cs_completed st @ [c])) = sum_list (spent ?w S SinkIntent (Suc n))"
    unfolding K using i(2) inv by (simp add: sum_list_update commit_inv_def Let_def)
  have old: "cs_turn_tokens st = tokens_left ?w M TurnIntent n" "cs_sink_tokens st = tokens_left ?w S SinkIntent n"
    "int (cs_moved st) = sum_list (spent ?w M TurnIntent n)"
    "\<forall>s < length S. occupancy net ?q s = occupancy net p s
          - (segment_total (spent ?w M TurnIntent n) ?f s + spent ?w S SinkIntent n ! s)
          + segment_total (spent ?w M TurnIntent n) ?t s"
    using inv by (simp_all add: commit_inv_def Let_def)
  have cap: "capacity ?q' = capacity p" using pq(2) by (simp add: runtime_release_slot_def)
  have occ': "occupancy net ?q' s = occupancy net p s
          - (segment_total (spent ?w M TurnIntent n) ?f s + spent ?w S SinkIntent (Suc n) ! s)
          + segment_total (spent ?w M TurnIntent n) ?t s" if "s < length S" for s
    unfolding occ K using old(4) that by (simp add: nth_update_if)
  show ?thesis
    unfolding commit_inv_def Let_def
    by (intro conjI allI impI, simp_all only: commit_state.simps T)
      (use ok routed cap same' left old occ' tokens_left_step[OF K] tokens_left_same[OF T] in simp_all)
qed

lemma commit_step:
  assumes inv: "commit_inv net lookup skip ns p M S n st" and sound: "lookup_sound net ns lookup"
    and wf: "wf_node ns" and M: "length M = turn_count ns" and n: "n < nat (capacity p)"
    and routed: "agents_routed net lookup p skip" "length (alive_mask p) = nat (capacity p)"
    and range: "\<forall>l i. link_index net l = Some i \<longrightarrow> i < length S"
  shows "\<exists>st'. commit_slot net lookup skip p n st = Inr st' \<and> commit_inv net lookup skip ns p M S (Suc n) st'"
proof (cases "active p skip n")
  case False
  have "commit_inv net lookup skip ns p M S (Suc n) (st\<lparr>cs_sink_wait := cs_sink_wait st\<rparr>)"
    by (rule commit_other[OF inv refl]) (use False in simp_all)
  then show ?thesis using False by (intro exI[of _ st]) (auto simp: commit_slot_def active_def)
next
  case act: True
  have "slot_routed net lookup p n" using routed act n by (simp add: agents_routed_def)
  then obtain path where r: "read_slot_route p n = Inr path"
    "on_route path (remaining_route_ptr p ! n) (current_link_id p ! n)"
    "validate_route_path_authority net lookup path (dest_node_id p ! n) = Inr ()"
    "remaining_route_ptr p ! n = int (length path) - 1 \<Longrightarrow> \<exists>i. link_index net (current_link_id p ! n) = Some i \<and>
       dst_node (net_links net ! i) = dest_node_id p ! n \<and> slot_intent net lookup p n = SinkIntent i"
    "remaining_route_ptr p ! n \<noteq> int (length path) - 1 \<Longrightarrow>
       \<exists>j. lookup (current_link_id p ! n, path ! nat (remaining_route_ptr p ! n + 1)) = Some j \<and>
       slot_intent net lookup p n = TurnIntent j"
    using routed_cases by blast
  let ?q = "cs_pool st" and ?w = "wish_count net lookup p (active p skip)"
  have same: "same_slot p ?q n" using inv by (simp add: commit_inv_def Let_def)
  have rd: "read_slot_route (?q\<lparr>trip_id := trip_id p\<rparr>) n = Inr path"
    unfolding r(1)[symmetric] by (rule read_slot_route_cong) (use same in \<open>simp_all add: same_slot_def\<close>)
  have fld: "remaining_route_ptr ?q ! n = remaining_route_ptr p ! n" "current_link_id ?q ! n = current_link_id p ! n"
    "dest_node_id ?q ! n = dest_node_id p ! n" "alive_mask p ! n" "int n \<notin> skip"
    using same act by (simp_all add: same_slot_def active_def)
  show ?thesis
  proof (cases "remaining_route_ptr p ! n = int (length path) - 1")
    case True
    then obtain i where i: "link_index net (current_link_id p ! n) = Some i"
      "dst_node (net_links net ! i) = dest_node_id p ! n" "slot_intent net lookup p n = SinkIntent i"
      using r(4) by blast
    have il: "i < length S" using range i(1) by blast
    show ?thesis
    proof (cases "cs_sink_tokens st ! i \<le> 0")
      case empty: True
      have "S ! i \<le> ?w (SinkIntent i) n"
        using empty inv tokens_left_pos[OF il, of ?w SinkIntent n] by (simp add: commit_inv_def Let_def)
      then have "commit_inv net lookup skip ns p M S (Suc n) (st\<lparr>cs_sink_wait := cs_sink_wait st + 1\<rparr>)"
        by (intro commit_other[OF inv refl]) (use i(3) in auto)
      then show ?thesis using True r(2,3) i empty rd fld by (simp add: commit_slot_def Let_def)
    next
      case False
      then have tok: "0 < cs_sink_tokens st ! i" by simp
      show ?thesis using commit_release[OF inv n act i(3,1) il tok] True r(2,3) i False rd fld
        by (simp add: commit_slot_def Let_def)
    qed
  next
    case False
    then obtain j where j: "lookup (current_link_id p ! n, path ! nat (remaining_route_ptr p ! n + 1)) = Some j"
      "slot_intent net lookup p n = TurnIntent j" using r(5) by blast
    have jl: "j < length M" using lookup_soundD(1)[OF sound j(1)] M by simp
    show ?thesis
    proof (cases "cs_turn_tokens st ! j \<le> 0")
      case empty: True
      have "M ! j \<le> ?w (TurnIntent j) n"
        using empty inv tokens_left_pos[OF jl, of ?w TurnIntent n] by (simp add: commit_inv_def Let_def)
      then have "commit_inv net lookup skip ns p M S (Suc n) (st\<lparr>cs_sink_wait := cs_sink_wait st\<rparr>)"
        by (intro commit_other[OF inv refl]) (use j(2) in auto)
      then show ?thesis using False r(2,3) j(1) empty rd fld by (simp add: commit_slot_def Let_def)
    next
      case pos: False
      then have tok: "0 < cs_turn_tokens st ! j" by simp
      show ?thesis using commit_move[OF inv sound wf M n act j(2) r(1-3) False j(1) tok] False r(2,3) j(1) pos rd fld
        by (simp add: commit_slot_def Let_def)
    qed
  qed
qed

lemma commit_loop:
  assumes "pool_ok p" "agents_routed net lookup p {}" "lookup_sound net ns lookup" "wf_node ns"
    "length M = turn_count ns" "\<forall>l i. link_index net l = Some i \<longrightarrow> i < length S"
    "\<forall>x \<in> set M. 0 \<le> x" "\<forall>x \<in> set S. 0 \<le> x" "n \<le> nat (capacity p)"
  shows "\<exists>st. foldE (commit_slot net lookup skip p) [0..<n] \<lparr>cs_pool = p, cs_turn_tokens = M, cs_sink_tokens = S,
      cs_completed = [], cs_moved = 0, cs_sink_wait = 0\<rparr> = Inr st \<and> commit_inv net lookup skip ns p M S n st"
  using assms(9)
proof (induction n)
  case 0
  let ?w = "wish_count net lookup p (active p skip)"
  have z: "spent ?w M TurnIntent 0 = replicate (length M) 0" "spent ?w S SinkIntent 0 = replicate (length S) 0"
    using assms(7,8) by (auto simp: spent_def min_absorb2 intro!: nth_equalityI)
  have "tokens_left ?w M TurnIntent 0 = M" "tokens_left ?w S SinkIntent 0 = S"
    unfolding tokens_left_def z by (auto intro!: nth_equalityI)
  then show ?case using assms(1,2) z by (auto simp: commit_inv_def Let_def sum_list_replicate)
next
  case (Suc n)
  then obtain st where st: "foldE (commit_slot net lookup skip p) [0..<n] \<lparr>cs_pool = p, cs_turn_tokens = M,
      cs_sink_tokens = S, cs_completed = [], cs_moved = 0, cs_sink_wait = 0\<rparr> = Inr st"
    "commit_inv net lookup skip ns p M S n st" by auto
  have "length (alive_mask p) = nat (capacity p)" using assms(1) by (simp add: pool_ok_def pool_shaped_def)
  moreover have "agents_routed net lookup p skip" using assms(2) by (simp add: agents_routed_def active_def)
  ultimately obtain st' where "commit_slot net lookup skip p n st = Inr st'"
    "commit_inv net lookup skip ns p M S (Suc n) st'"
    using commit_step[OF st(2) assms(3,4,5)] Suc.prems assms(6) by auto
  then show ?case using st(1) by (auto simp: foldE_append)
qed

end
