(* ===== verification/LockstepTick.thy ===== *)
theory LockstepTick
  imports AgentLockstep DynamicPotential
begin

text \<open>
  One whole tick of agents and traffic: the demand is rebuilt from the routes, the flow engine
  realizes integer tokens, and the commit moves the agents along them.  The queues of the engine and
  the agents of the pool stay in lockstep, and the runtime's reconciliation check never fires.
\<close>

section \<open>What the rebuild returns\<close>

text \<open>The specification of a rebuilt demand: the number of agents with a wish.\<close>

definition wish_total :: "road_network \<Rightarrow> turn_lookup \<Rightarrow> runtime_pool \<Rightarrow> (nat \<Rightarrow> bool) \<Rightarrow> intent \<Rightarrow> nat" where
  "wish_total net lookup p P m = card {k. k < length (alive_mask p) \<and> P k \<and> slot_intent net lookup p k = m}"

lemma wish_total_count:
  "wish_count net lookup p P m (length (alive_mask p)) = int (wish_total net lookup p P m)"
proof -
  have "wish_count net lookup p P m (length (alive_mask p))
      = int (card {k \<in> {..<length (alive_mask p)}. P k \<and> slot_intent net lookup p k = m})"
    unfolding wish_count_def by (simp flip: sum.inter_filter)
  then show ?thesis by (simp add: wish_total_def lessThan_def Collect_conj_eq)
qed

lemma link_index_range:
  assumes "wf_network net" shows "\<forall>l i. link_index net l = Some i \<longrightarrow> i < net_link_count net"
  using assms index_of_range[of "map link_id (net_links net)"]
  by (auto simp: wf_network_def Let_def net_link_count_def)

lemma pool_alive_le: "pool_ok p \<Longrightarrow> int (count_list (alive_mask p) True) = alive_count p"
  by (simp add: pool_ok_def)

lemma wish_small:
  assumes "pool_ok p" "alive_count p < 2 ^ 24"
  shows "wish_count net lookup p (wanting spatial p skip) m (length (alive_mask p)) < 2 ^ 24"
proof -
  have "wish_count net lookup p (wanting spatial p skip) m (length (alive_mask p)) \<le> alive_count p"
    using wish_count_alive[of p "wanting spatial p skip" net lookup m] assms(1)
    by (simp add: pool_alive_le wanting_def active_def)
  then show ?thesis using assms(2) by simp
qed

definition rebuilt_node :: "node_state \<Rightarrow> int list \<Rightarrow> int list \<Rightarrow> node_state" where
  "rebuilt_node ns T S = ns\<lparr>turn_demand := map of_int T, turn_supply := replicate (turn_count ns) 0,
     turn_flow := replicate (turn_count ns) 0,
     node_metadata := (node_metadata ns)(''runtime_sink_demand_by_link_index'' \<mapsto> fin_vector (map of_int S),
         ''runtime_missing_route_turn_intents'' \<mapsto> MVector [],
         ''runtime_missing_route_turn_intent_count'' \<mapsto> MInt 0)\<rparr>"

lemma rebuild_exact:
  fixes spatial :: bool and skip :: "int set"
  assumes "wf_network net" "turns_indexed net" "wf_node ns" "runtime_turn_index_lookup net ns = Inr lookup"
    and "agents_routed net lookup p skip" "pool_ok p" "alive_count p < 2 ^ 24" "link_count ls = net_link_count net"
  defines "w \<equiv> \<lambda>mk. wishes net lookup p (wanting spatial p skip) mk (length (alive_mask p))"
  shows "rebuild_runtime_turn_demand net spatial skip p ls ns
    = Inr (rebuilt_node ns (w TurnIntent (turn_count ns)) (w SinkIntent (link_count ls)))"
proof -
  have r: "\<forall>l i. link_index net l = Some i \<longrightarrow> i < link_count ls"
    using link_index_range[OF assms(1)] assms(8) by simp
  note loop = rebuild_loop[OF assms(5) runtime_lookup_sound[OF assms(1-4)] le_refl wish_small[OF assms(6,7)] r]
  have len: "length (turn_from_link_index ns) = turn_count ns" "length (turn_to_link_index ns) = turn_count ns"
    using assms(3) by (simp_all add: wf_node_def Let_def)
  have bnd: "0 \<le> x \<and> x \<le> 2 ^ 24" if x: "x \<in> set (w TurnIntent (turn_count ns))" for x
  proof -
    obtain j where "x = wish_count net lookup p (wanting spatial p skip) (TurnIntent j) (length (alive_mask p))"
      using x by (auto simp: w_def wishes_def)
    then show ?thesis
      using wish_small[OF assms(6,7), of net lookup spatial skip "TurnIntent j"] wish_count_nonneg[of net lookup p]
      by (simp add: order_less_imp_le)
  qed
  have r32: "map (r32 \<circ> of_int) (w TurnIntent (turn_count ns)) = map of_int (w TurnIntent (turn_count ns))"
    using bnd by (auto intro!: map_cong r32_of_int)
  have "length (w TurnIntent (turn_count ns)) = turn_count ns" by (simp add: w_def wishes_def)
  then show ?thesis
    using loop assms(4) len r32[unfolded w_def]
    by (simp add: rebuild_runtime_turn_demand_def node_from_internal_arrays_def same_shape_def check_simps Let_def
        rebuilt_node_def w_def)
qed

lemma rebuilt_node_simps [simp]:
  "turn_from_link_index (rebuilt_node ns T S) = turn_from_link_index ns"
  "turn_to_link_index (rebuilt_node ns T S) = turn_to_link_index ns"
  "turn_demand (rebuilt_node ns T S) = map of_int T"
  "turn_count (rebuilt_node ns T S) = length T"
  "node_metadata (rebuilt_node ns T S) ''runtime_sink_demand_by_link_index'' = Some (fin_vector (map of_int S))"
  "node_metadata (rebuilt_node ns T S) ''turn_is_forbidden'' = node_metadata ns ''turn_is_forbidden''"
  by (simp_all add: rebuilt_node_def turn_count_def)

text \<open>Whole wishes: non-negative and counted exactly by float32.\<close>

definition whole_counts :: "int list \<Rightarrow> bool" where
  "whole_counts xs \<longleftrightarrow> (\<forall>x \<in> set xs. 0 \<le> x \<and> x < 2 ^ 23)"

lemma rebuilt_ready:
  assumes "tick_ready ls ns" "length T = turn_count ns" "whole_counts T"
  shows "tick_ready ls (rebuilt_node ns T S)"
proof -
  have "\<forall>x \<in> set (map rat_of_int T). is_f32 x \<and> 0 \<le> x"
    using assms(3) by (auto simp: whole_counts_def intro!: is_f32_of_int)
  then have "wf_node (rebuilt_node ns T S)"
    using assms(1,2) by (auto simp: tick_ready_def wf_node_def rebuilt_node_def turn_count_def Let_def)
  moreover have "plain_metadata ls (rebuilt_node ns T S)"
    using assms(1,2) by (simp add: tick_ready_def plain_metadata_def read_turn_priority_def
        read_turn_forbidden_def rebuilt_node_def turn_count_def Let_def)
  ultimately show ?thesis
    using assms(1) by (simp add: tick_ready_def turns_in_range_def timers_in_range_def rebuilt_node_def)
qed

lemma whole_parts: "\<forall>x \<in> set xs. 0 \<le> x \<Longrightarrow> sum_list xs < 2 ^ 23 \<Longrightarrow> whole_counts xs"
  using sum_list_members_le[of xs] by (force simp: whole_counts_def)

lemma whole_tolerance: "whole_counts xs \<Longrightarrow> map (\<lambda>x. \<lfloor>r32 (max (of_int x) 0 + eps32)\<rfloor>) xs = xs"
  using floor_tolerance[OF _ _ eps32_nonneg eps32_small] by (intro map_idI) (auto simp: whole_counts_def)

lemma whole_flow_ints: "whole_counts xs \<Longrightarrow> whole_flow (map of_int xs) = xs"
  using whole_tolerance[of xs] by (simp add: whole_flow_def comp_def)

lemma rebuilt_sink_demand:
  assumes "whole_counts S" "length S = n"
  shows "metadata_vector (node_metadata (rebuilt_node ns T S)) ''runtime_sink_demand_by_link_index'' n
      False False NoBound = Inr (map of_int S)"
  by (rule metadata_vector_reread) (use assms in \<open>auto simp: whole_counts_def intro!: is_f32_of_int\<close>)

lemma rebuilt_prior:
  assumes "read_prior ls (rebuilt_node ns T S) = Inr prior" "whole_counts S" "length S = link_count ls"
  shows "sink_demand prior = S"
proof -
  note rebuilt_sink_demand[OF assms(2,3), of ns T]
  then have "sink_demand prior = map (\<lambda>x. \<lfloor>r32 (max x 0 + eps32)\<rfloor>) (map of_int S)"
    using assms(1) by (auto simp: read_prior_def Let_def check_simps)
  then show ?thesis using whole_tolerance[OF assms(2)] by (simp add: comp_def)
qed

lemma runtime_lookup_cong:
  assumes "turn_from_link_index ns' = turn_from_link_index ns" "turn_to_link_index ns' = turn_to_link_index ns"
    "turn_count ns' = turn_count ns" "node_metadata ns' ''turn_is_forbidden'' = node_metadata ns ''turn_is_forbidden''"
  shows "runtime_turn_index_lookup net ns' = runtime_turn_index_lookup net ns"
  unfolding runtime_turn_index_lookup_def read_turn_forbidden_def assms by (rule refl)

lemma pool_internal_ok:
  assumes "pool_ok q" shows "pool_from_internal_arrays q = Inr q"
proof -
  have "map r32 (progress_01 q) = progress_01 q"
    using assms by (intro progress_rounded) (simp add: pool_ok_def)
  moreover have "make_agent_pool q = Inr (q\<lparr>progress_01 := map r32 (progress_01 q)\<rparr>)"
    using assms by (auto simp: make_agent_pool_iff pool_ok_def)
  ultimately show ?thesis
    by (auto simp: make_agent_pool_def pool_from_internal_arrays_def check_simps)
qed

section \<open>The commit reconciles\<close>

lemma commit_reconciles:
  assumes "wf_network net" "wf_node ns" "pool_ok p" "agents_routed net lookup p {}" "lookup_sound net ns lookup"
    "runtime_turn_index_lookup net ns = Inr lookup" "length M = turn_count ns" "length S = net_link_count net"
    "\<forall>x \<in> set M. 0 \<le> x" "\<forall>x \<in> set S. 0 \<le> x"
    "\<forall>j < length M. M ! j \<le> wish_count net lookup p (active p skip) (TurnIntent j) (length (alive_mask p))"
    "\<forall>s < length S. S ! s \<le> wish_count net lookup p (active p skip) (SinkIntent s) (length (alive_mask p))"
  obtains st where "advance_pool_along_realized_turns net ns p M S skip = Inr st" "pool_ok (cs_pool st)"
    "agents_routed net lookup (cs_pool st) {}" "int (cs_moved st) = sum_list M"
    "int (length (cs_completed st)) = sum_list S"
    "\<forall>s < length S. occupancy net (cs_pool st) s = occupancy net p s
       - (segment_total M (map nat (turn_from_link_index ns)) s + S ! s)
       + segment_total M (map nat (turn_to_link_index ns)) s"
proof -
  let ?n = "length (alive_mask p)" and ?w = "wish_count net lookup p (active p skip)"
  have n: "?n = nat (capacity p)" using assms(3) by (simp add: pool_ok_def pool_shaped_def)
  have r: "\<forall>l i. link_index net l = Some i \<longrightarrow> i < length S"
    using link_index_range[OF assms(1)] assms(8) by simp
  obtain st where st: "foldE (commit_slot net lookup skip p) [0..<?n] \<lparr>cs_pool = p, cs_turn_tokens = M,
      cs_sink_tokens = S, cs_completed = [], cs_moved = 0, cs_sink_wait = 0\<rparr> = Inr st"
    "commit_inv net lookup skip ns p M S ?n st"
    using commit_loop[OF assms(3,4,5,2,7) r assms(9,10), of ?n] n by auto
  have sp: "spent ?w M TurnIntent ?n = M" "spent ?w S SinkIntent ?n = S"
    using assms(11,12) by (auto simp: spent_nth min_absorb1 intro!: nth_equalityI)
  have zero: "\<forall>x \<in> set (cs_turn_tokens st). x = 0" "\<forall>x \<in> set (cs_sink_tokens st). x = 0"
    using st(2) assms(11,12)
    by (auto simp: commit_inv_def Let_def all_set_conv_all_nth tokens_left_nth min_absorb1)
  have ok: "pool_ok (cs_pool st)" using st(2) by (simp add: commit_inv_def Let_def)
  have "advance_pool_along_realized_turns net ns p M S skip = Inr st"
    using st(1) zero pool_internal_ok[OF ok] assms(6)
    by (simp add: advance_pool_along_realized_turns_def check_simps)
  then show ?thesis using that st(2) ok unfolding commit_inv_def Let_def sp by blast
qed

lemma routed_on_link:
  assumes "wf_network net" "slot_routed net lookup p k"
  shows "\<exists>s < net_link_count net. link_index net (current_link_id p ! k) = Some s"
proof -
  obtain path where p: "on_route path (remaining_route_ptr p ! k) (current_link_id p ! k)"
    "validate_route_path_authority net lookup path (dest_node_id p ! k) = Inr ()"
    using assms(2) by (auto simp: slot_routed_def)
  then have "current_link_id p ! k \<in> set path"
    using nth_mem[of "nat (remaining_route_ptr p ! k)" path] by (auto simp: on_route_def)
  then show ?thesis using p(2) link_index_range[OF assms(1)] by (force simp: route_authority_iff)
qed

lemma occupancy_alive:
  assumes "wf_network net" "agents_routed net lookup p {}" "pool_ok p"
  shows "(\<Sum>s<net_link_count net. occupancy net p s) = alive_count p"
proof -
  have "\<forall>k < length (alive_mask p). alive_mask p ! k \<longrightarrow>
      (\<exists>s < net_link_count net. link_index net (current_link_id p ! k) = Some s)"
    using routed_on_link[OF assms(1)] assms(2) unfolding agents_routed_def active_def by blast
  from occupancy_total[OF this] show ?thesis by (simp only: pool_alive_le[OF assms(3)])
qed

section \<open>Lockstep\<close>

text \<open>The queue of every link is the number of agents on it.\<close>

definition lockstep :: "road_network \<Rightarrow> runtime_pool \<Rightarrow> link_state \<Rightarrow> bool" where
  "lockstep net p ls \<longleftrightarrow> link_count ls = net_link_count net \<and>
     integral_queue ls (map (occupancy net p) [0..<net_link_count net])"

lemma lockstep_alive:
  assumes "wf_network net" "agents_routed net lookup p {}" "pool_ok p" "lockstep net p ls"
  shows "alive_count p < 2 ^ 23"
  using occupancy_alive[OF assms(1-3)] assms(4)
  by (simp add: lockstep_def integral_queue_def interv_sum_list_conv_sum_set_nat atLeast0LessThan)

definition runtime_ready :: "road_network \<Rightarrow> turn_lookup \<Rightarrow> runtime_pool \<Rightarrow> link_state \<Rightarrow> node_state \<Rightarrow> bool" where
  "runtime_ready net lookup p ls ns \<longleftrightarrow> tick_ready ls ns \<and> runtime_turn_index_lookup net ns = Inr lookup \<and>
     pool_ok p \<and> agents_routed net lookup p {} \<and> lockstep net p ls"

lemma whole_wishes:
  assumes "pool_ok p" "alive_count p < 2 ^ 23"
  shows "whole_counts (wishes net lookup p (wanting spatial p skip) mk (length (alive_mask p)) n)"
proof -
  have "wish_count net lookup p (wanting spatial p skip) m (length (alive_mask p)) < 2 ^ 23" for m
    using wish_count_alive[of p "wanting spatial p skip" net lookup m] assms
    by (simp add: pool_alive_le wanting_def active_def)
  then show ?thesis by (auto simp: whole_counts_def wishes_def wish_count_nonneg)
qed

lemma wanting_le_active:
  "wish_count net lookup p (wanting spatial p skip) m n \<le> wish_count net lookup p (active p skip) m n"
  by (rule wish_count_subset) (simp add: wanting_def)

lemma runtime_tick:
  assumes net: "wf_network net" "turns_indexed net" and ready: "runtime_ready net lookup p ls ns"
    and demand: "rebuild_runtime_turn_demand net spatial skip p ls ns = Inr ns'"
    and tick: "update_link_node_flow rust ls ns' v bk True arg = Inr r"
    and backend: "agent_backend \<noteq> ''rust_cpu''"
  obtains q st moves sinks where
    "commit_runtime_active_agent_flows net agent_backend p (result_node r) skip ids
       = Inr (q, st, ids\<lparr>completed_trips := completed_trips ids \<union> set (cs_completed st)\<rparr>)"
    "pool_ok q" "agents_routed net lookup q {}" "lockstep net q (result_link r)"
    "runtime_turn_index_lookup net (result_node r) = Inr lookup"
    "alive_count q = alive_count p - int (length (cs_completed st))"
    "turn_flow (result_node r) = map of_int moves" "int (cs_moved st) = sum_list moves"
    "link_metadata (result_link r) ''runtime_sink_flow_vehicles'' = Some (fin_vector (to_f32 sinks))"
    "int (length (cs_completed st)) = sum_list sinks" "whole_counts sinks"
proof -
  have rt: "tick_ready ls ns" "runtime_turn_index_lookup net ns = Inr lookup" "pool_ok p"
    "agents_routed net lookup p {}" "lockstep net p ls" and wfn: "wf_node ns" and routed: "agents_routed net lookup p skip"
    using ready by (simp_all add: runtime_ready_def tick_ready_def agents_routed_def active_def)
  have links: "link_count ls = net_link_count net" using rt(5) by (simp add: lockstep_def)
  note alive = lockstep_alive[OF net(1) rt(4,3,5)]
  let ?n = "length (alive_mask p)" and ?N = "map (occupancy net p) [0..<net_link_count net]"
  define T where "T = wishes net lookup p (wanting spatial p skip) TurnIntent ?n (turn_count ns)"
  define S where "S = wishes net lookup p (wanting spatial p skip) SinkIntent ?n (link_count ls)"
  have lenTS: "length T = turn_count ns" "length S = link_count ls" by (simp_all add: T_def S_def wishes_def)
  have whole: "whole_counts T" "whole_counts S" using whole_wishes[OF rt(3) alive] by (simp_all add: T_def S_def)
  have ns': "ns' = rebuilt_node ns T S"
    using rebuild_exact[OF net wfn rt(2) routed rt(3) _ links] alive demand by (simp add: T_def S_def)
  have ready': "tick_ready ls ns'" unfolding ns' by (rule rebuilt_ready[OF rt(1) lenTS(1) whole(1)])
  have wf': "wf_node ns'" using ready' by (simp add: tick_ready_def)
  have lk': "runtime_turn_index_lookup net ns' = Inr lookup"
    unfolding rt(2)[symmetric] by (rule runtime_lookup_cong) (simp_all add: ns' lenTS)
  have iq: "integral_queue ls ?N" using rt(5) by (simp add: lockstep_def)
  obtain moves sinks prior nm where view: "read_prior ls ns' = Inr prior"
    "turn_flow (result_node r) = map of_int moves"
    "link_metadata (result_link r) ''runtime_sink_flow_vehicles'' = Some (fin_vector (to_f32 sinks))"
    "node_metadata (result_node r) = node_metadata ns' ++ nm" "''turn_is_forbidden'' \<notin> dom nm"
    "nm ''runtime_sink_flow_by_link_index'' = Some (fin_vector (map of_int sinks))"
    "length moves = turn_count ns'" "length sinks = link_count ls"
    "\<forall>x \<in> set moves. 0 \<le> x" "\<forall>x \<in> set sinks. 0 \<le> x" "sum_list moves + sum_list sinks < 2 ^ 23"
    "\<forall>j < turn_count ns'. moves ! j \<le> \<lfloor>r32 (turn_demand ns' ! j + eps32)\<rfloor>"
    "\<forall>s < link_count ls. sinks ! s \<le> sink_demand prior ! s \<and>
       segment_total moves (map nat (turn_from_link_index ns')) s + sinks ! s \<le> ?N ! s"
    "integral_queue (result_link r) (queue_after ls ns' ?N moves sinks)"
    "turn_from_link_index (result_node r) = turn_from_link_index ns'"
    "turn_to_link_index (result_node r) = turn_to_link_index ns'"
    "sum_list (queue_after ls ns' ?N moves sinks) = sum_list ?N - sum_list sinks"
    using tick_view[OF ready' iq tick] by metis
  have wfr: "wf_node (result_node r)" using discrete_tick_wf[OF ready' tick] by simp
  have tc: "turn_count (result_node r) = turn_count ns'"
    using wfr wf' view(15) by (simp add: wf_node_def Let_def)
  have lkr: "runtime_turn_index_lookup net (result_node r) = Inr lookup"
    unfolding lk'[symmetric] by (rule runtime_lookup_cong) (use view tc in \<open>auto simp: map_add_def split: option.split\<close>)
  have sums: "0 \<le> sum_list moves" "0 \<le> sum_list sinks" using view(9,10) by (simp_all add: sum_list_nonneg)
  have small: "whole_counts moves" "whole_counts sinks"
    using whole_parts[OF view(9)] whole_parts[OF view(10)] view(11) sums by simp_all
  have le: "\<forall>j < length moves. moves ! j \<le> wish_count net lookup p (active p skip) (TurnIntent j) ?n"
    "\<forall>s < length sinks. sinks ! s \<le> wish_count net lookup p (active p skip) (SinkIntent s) ?n"
  proof safe
    fix j assume j: "j < length moves"
    then have jt: "j < length T" using view(7) by (simp add: ns')
    have "moves ! j \<le> \<lfloor>r32 (of_int (T ! j) + eps32)\<rfloor>" using view(12) jt by (simp add: ns')
    also have "\<dots> = T ! j"
      using whole(1) jt by (intro floor_tolerance eps32_nonneg eps32_small) (simp_all add: whole_counts_def)
    also have "\<dots> \<le> wish_count net lookup p (active p skip) (TurnIntent j) ?n"
      using jt wanting_le_active by (simp add: T_def wishes_def)
    finally show "moves ! j \<le> wish_count net lookup p (active p skip) (TurnIntent j) ?n" .
  next
    fix s assume s: "s < length sinks"
    then have "sinks ! s \<le> S ! s"
      using view(8,13) rebuilt_prior[OF view(1)[unfolded ns'] whole(2) lenTS(2)] by simp
    also have "\<dots> \<le> wish_count net lookup p (active p skip) (SinkIntent s) ?n"
      using s view(8) wanting_le_active by (simp add: S_def wishes_def)
    finally show "sinks ! s \<le> wish_count net lookup p (active p skip) (SinkIntent s) ?n" .
  qed
  have sound: "lookup_sound net (result_node r) lookup" by (rule runtime_lookup_sound[OF net wfr lkr])
  have lens: "length moves = turn_count (result_node r)" "length sinks = net_link_count net"
    using view(7,8) tc links by simp_all
  obtain st where st: "advance_pool_along_realized_turns net (result_node r) p moves sinks skip = Inr st"
    "pool_ok (cs_pool st)" "agents_routed net lookup (cs_pool st) {}" "int (cs_moved st) = sum_list moves"
    "int (length (cs_completed st)) = sum_list sinks"
    "\<forall>s < length sinks. occupancy net (cs_pool st) s = occupancy net p s
       - (segment_total moves (map nat (turn_from_link_index (result_node r))) s + sinks ! s)
       + segment_total moves (map nat (turn_to_link_index (result_node r))) s"
    using commit_reconciles[OF net(1) wfr rt(3,4) sound lkr lens view(9,10) le] by blast
  have sinksr: "read_sink_flow (node_metadata (result_node r)) (net_link_count net) = Inr (map of_int sinks)"
    using view(4,6) lens(2) small(2)
    by (auto simp: read_sink_flow_def fin_vector_def list_all_iff whole_counts_def intro!: r32_of_int)
  have commit: "commit_runtime_active_agent_flows net agent_backend p (result_node r) skip ids
       = Inr (cs_pool st, st, ids\<lparr>completed_trips := completed_trips ids \<union> set (cs_completed st)\<rparr>)"
    using backend sinksr st(1) view(2) whole_flow_ints[OF small(1)] whole_flow_ints[OF small(2)]
    by (simp add: commit_runtime_active_agent_flows_def check_simps)
  have "queue_after ls ns' ?N moves sinks = map (occupancy net (cs_pool st)) [0..<net_link_count net]"
    using st(6) view(15,16) lens(2) links by (simp add: queue_after_def)
  note q = this
  then have step: "lockstep net (cs_pool st) (result_link r)"
    using view(14) by (simp add: lockstep_def integral_queue_def link_count_def)
  have total: "sum_list (map (occupancy net q) [0..<net_link_count net]) = alive_count q"
    if "agents_routed net lookup q {}" "pool_ok q" for q
    using occupancy_alive[OF net(1) that] by (simp add: interv_sum_list_conv_sum_set_nat atLeast0LessThan)
  have "alive_count (cs_pool st) = alive_count p - int (length (cs_completed st))"
    using total[OF rt(4,3)] total[OF st(3,2)] view(17) st(5) unfolding q by simp
  then show ?thesis using that commit st(2-5) step lkr view(2,3) small(2) by blast
qed

section \<open>The properties\<close>

text \<open>C21: the demand rebuilt from the agents is exact.  With routes intact, the demand of every turn
  and of every sink is the number of eligible agents whose next movement it is (those at the exit of
  their link in the spatial mode), counted exactly although the array is float32.\<close>

theorem demand_rebuild_exact:
  assumes "wf_network net" "turns_indexed net" "wf_node ns" "runtime_turn_index_lookup net ns = Inr lookup"
    and "agents_routed net lookup p skip" "pool_ok p" "alive_count p < 2 ^ 24" "link_count ls = net_link_count net"
  shows "\<exists>ns'. rebuild_runtime_turn_demand net spatial skip p ls ns = Inr ns' \<and>
    turn_demand ns' = map (\<lambda>j. of_nat (wish_total net lookup p (wanting spatial p skip) (TurnIntent j)))
      [0..<turn_count ns] \<and>
    node_metadata ns' ''runtime_sink_demand_by_link_index'' =
      Some (fin_vector (map (\<lambda>i. of_nat (wish_total net lookup p (wanting spatial p skip) (SinkIntent i)))
        [0..<link_count ls]))"
  using rebuild_exact[OF assms, of spatial] by (simp add: wishes_def wish_total_count comp_def)

text \<open>C6: agents and queues stay in lockstep.  When every agent has a legal route and every queue
  is the number of agents on the link, then after rebuilding the demand, a discrete flow tick and the
  commit of its tokens the same holds again; the runtime's check that every token met an agent never
  fires, whatever slots were skipped and whichever flow backend ran; and the pool lost exactly the
  agents that reached their sinks.\<close>

theorem flow_commit_lockstep:
  assumes "wf_network net" "turns_indexed net" "runtime_ready net lookup p ls ns"
    and "rebuild_runtime_turn_demand net spatial skip p ls ns = Inr ns'"
    and "update_link_node_flow rust ls ns' v bk True arg = Inr r" "agent_backend \<noteq> ''rust_cpu''"
  shows "\<exists>q st ids' sinks. commit_runtime_active_agent_flows net agent_backend p (result_node r) skip ids = Inr (q, st, ids') \<and>
    pool_ok q \<and> agents_routed net lookup q {} \<and> lockstep net q (result_link r) \<and>
    link_metadata (result_link r) ''runtime_sink_flow_vehicles'' = Some (fin_vector (to_f32 sinks)) \<and>
    int (length (cs_completed st)) = sum_list sinks \<and> alive_count q = alive_count p - sum_list sinks"
  by (rule runtime_tick[OF assms, where ids = ids]) auto

section \<open>Two agents on the concrete network\<close>

definition fleet_memory :: "int \<Rightarrow> memo plugin_entry" where
  "fleet_memory t = DictEntry [''route_path'' \<mapsto> MemPath [10, 11], ''trip_request_id'' \<mapsto> MemInt t]"

definition demo_fleet :: runtime_pool where
  "demo_fleet = \<lparr>capacity = 2, free_slot_stack = [1, 0], free_slot_count = 0,
     alive_mask = [True, True], alive_count = 2, citizen_id = [5, 6], trip_id = [8, 9],
     current_link_id = [10, 11], progress_01 = [0, 0], remaining_route_ptr = [0, 1],
     dest_node_id = [3, 3], behavior_profile_id = [0, 0], reroute_cooldown_ticks = [0, 0],
     plugin_memory = [0 \<mapsto> fleet_memory 8, 1 \<mapsto> fleet_memory 9]\<rparr>"

definition fleet_links :: link_state where
  "fleet_links = \<lparr>queue_vehicles = [1, 1, 0, 0], inflow_vehicles = [0, 0, 0, 0], outflow_vehicles = [0, 0, 0, 0],
     travel_time_cost = [10, 20, 10, 20], capacity_veh_per_tick = [2, 2, 2, 2],
     incident_capacity_multiplier = [1, 1, 1, 1], capacity_violation_flags = [False, False, False, False],
     link_metadata = Map.empty\<rparr>"

definition fleet_nodes :: node_state where
  "fleet_nodes = \<lparr>turn_from_link_index = [0, 0], turn_to_link_index = [1, 2], turn_demand = [0, 0],
     turn_supply = [0, 0], turn_flow = [0, 0], signal_phase_index = [0], signal_phase_timer = [4],
     node_metadata = [''turn_is_forbidden'' \<mapsto> MVector [Fin 0, Fin 1]]\<rparr>"

definition fleet_lookup :: turn_lookup where
  "fleet_lookup = [(10, 11) \<mapsto> 0]"

lemma fleet_ok: "pool_ok demo_fleet"
proof -
  have "{i. 0 \<le> i \<and> i < (2::int) \<and> \<not> [True, True] ! nat i} = {}" by (auto simp: nth_Cons' nat_eq_iff)
  then show ?thesis
    by (auto simp: pool_ok_def demo_fleet_def pool_shaped_def free_ids_def pool_values_ok_def numeral_2_eq_2
        less_Suc_cases)
qed

lemma fleet_turns_indexed: "turns_indexed demo_net"
  by (auto simp: turns_indexed_def demo_net_def demo_turns_def net_turn_count_def split: if_splits)

lemma fleet_lookup: "runtime_turn_index_lookup demo_net fleet_nodes = Inr fleet_lookup"
  by (simp add: runtime_turn_index_lookup_def read_turn_forbidden_def fleet_nodes_def turn_count_def demo_net_def
      fleet_lookup_def truthy_def)

lemma demo_route_legal: "validate_route_path_authority demo_net fleet_lookup [10, 11] 3 = Inr ()"
  by (simp add: validate_route_path_authority_def check_eval demo_net_def fleet_lookup_def index_of_def upt_rec
      demo_roads_def demo_road_def)

lemma fleet_routed: "agents_routed demo_net fleet_lookup demo_fleet {}"
proof -
  have "read_slot_route demo_fleet 0 = Inr [10, 11]" "read_slot_route demo_fleet 1 = Inr [10, 11]"
    by (simp_all add: read_slot_route_def slot_memory_of_def demo_fleet_def fleet_memory_def route_path_of_def
        validate_slot_trip_identity_def check_eval)
  then show ?thesis
    using demo_route_legal by (auto simp: agents_routed_def active_def slot_routed_def on_route_def demo_fleet_def less_Suc_cases numeral_2_eq_2)
qed

lemma fleet_lockstep: "lockstep demo_net demo_fleet fleet_links"
proof -
  have "map (occupancy demo_net demo_fleet) [0..<4] = [1, 1, 0, 0]"
    by (simp add: occupancy_def demo_fleet_def demo_net_def index_of_def upt_rec lessThan_Suc numeral_2_eq_2)
  moreover have "net_link_count demo_net = 4" by (simp add: demo_net_def net_link_count_def demo_roads_def)
  ultimately show ?thesis
    by (simp add: lockstep_def integral_queue_def fleet_links_def link_count_def)
qed

lemma fleet_tick_ready: "tick_ready fleet_links fleet_nodes"
  by (simp add: tick_ready_def wf_link_def wf_node_def turns_in_range_def timers_in_range_def plain_metadata_def
      fleet_links_def fleet_nodes_def link_count_def turn_count_def Let_def read_turn_priority_def
      read_turn_forbidden_def read_link_base_travel_time_def)

lemma fleet_ready: "runtime_ready demo_net fleet_lookup demo_fleet fleet_links fleet_nodes"
  by (simp add: runtime_ready_def fleet_tick_ready fleet_lookup fleet_ok fleet_routed fleet_lockstep)

lemma fleet_rebuild:
  obtains T S where "rebuild_runtime_turn_demand demo_net spatial skip demo_fleet fleet_links fleet_nodes
      = Inr (rebuilt_node fleet_nodes T S)" "length T = 2" "length S = 4" "whole_counts T" "whole_counts S"
proof -
  have small: "alive_count demo_fleet < 2 ^ 23" by (simp add: demo_fleet_def)
  let ?w = "\<lambda>mk. wishes demo_net fleet_lookup demo_fleet (wanting spatial demo_fleet skip) mk
    (length (alive_mask demo_fleet))"
  have "rebuild_runtime_turn_demand demo_net spatial skip demo_fleet fleet_links fleet_nodes
      = Inr (rebuilt_node fleet_nodes (?w TurnIntent (turn_count fleet_nodes)) (?w SinkIntent (link_count fleet_links)))"
    by (rule rebuild_exact[OF demo_net_wf fleet_turns_indexed _ fleet_lookup _ fleet_ok])
      (use fleet_tick_ready fleet_routed fleet_lockstep small in
        \<open>simp_all add: tick_ready_def agents_routed_def active_def lockstep_def\<close>)
  moreover have "length (?w mk n) = n" for mk n by (simp add: wishes_def)
  moreover have "turn_count fleet_nodes = 2" "link_count fleet_links = 4"
    by (simp_all add: fleet_nodes_def turn_count_def fleet_links_def link_count_def)
  ultimately show ?thesis using that whole_wishes[OF fleet_ok small] by metis
qed

lemma fleet_tick:
  obtains ns' r where
    "rebuild_runtime_turn_demand demo_net spatial skip demo_fleet fleet_links fleet_nodes = Inr ns'"
    "update_link_node_flow no_rust fleet_links ns' False ''baseline'' True None = Inr r"
proof -
  obtain T S where r: "rebuild_runtime_turn_demand demo_net spatial skip demo_fleet fleet_links fleet_nodes
      = Inr (rebuilt_node fleet_nodes T S)" "length T = 2" "length S = 4" "whole_counts T" "whole_counts S"
    by (rule fleet_rebuild)
  let ?ns = "rebuilt_node fleet_nodes T S"
  have n: "turn_count fleet_nodes = 2" "link_count fleet_links = 4"
    by (simp_all add: fleet_nodes_def turn_count_def fleet_links_def link_count_def)
  have ready: "tick_ready fleet_links ?ns" by (rule rebuilt_ready[OF fleet_tick_ready]) (use r n in simp_all)
  have cap: "\<forall>e \<in> set (effective_capacity_vehicles fleet_links). \<exists>t. e = of_int t \<and> 0 \<le> t \<and> t < 2 ^ 23"
    by (auto simp: effective_capacity_vehicles_def fleet_links_def intro!: exI[of _ 2])
  have "\<exists>prior. read_prior fleet_links ?ns = Inr prior \<and>
      (\<forall>x \<in> set (prior_service_credit prior) \<union> set (prior_receiving_credit prior). x = 0)"
    using rebuilt_sink_demand[OF r(5,3), of fleet_nodes T] r(2) n
    by (simp add: read_prior_def Let_def meta_flag_def) (simp add: metadata_vector_def fleet_links_def
        rebuilt_node_def fleet_nodes_def turn_count_def check_eval)
  then obtain prior where "read_prior fleet_links ?ns = Inr prior"
    "\<forall>x \<in> set (prior_service_credit prior) \<union> set (prior_receiving_credit prior). x = 0" by blast
  from whole_tick_returns[OF ready this cap, of "''baseline''" no_rust] show ?thesis using that r(1) by blast
qed

lemma demand_rebuild_exact_witness:
  "\<exists>ns'. rebuild_runtime_turn_demand demo_net False {} demo_fleet fleet_links fleet_nodes = Inr ns' \<and>
     turn_demand ns' = [of_nat (wish_total demo_net fleet_lookup demo_fleet (wanting False demo_fleet {}) (TurnIntent 0)),
       of_nat (wish_total demo_net fleet_lookup demo_fleet (wanting False demo_fleet {}) (TurnIntent 1))]"
proof -
  have "wf_node fleet_nodes" "alive_count demo_fleet < 2 ^ 24" "link_count fleet_links = net_link_count demo_net"
    "[0..<turn_count fleet_nodes] = [0, 1]"
    using fleet_tick_ready fleet_lockstep
    by (simp_all add: tick_ready_def lockstep_def demo_fleet_def fleet_nodes_def turn_count_def upt_rec)
  then show ?thesis
    using demand_rebuild_exact[OF demo_net_wf fleet_turns_indexed _ fleet_lookup fleet_routed fleet_ok,
        of fleet_links False] by auto
qed

lemma flow_commit_lockstep_witness:
  "\<exists>ns' r q st ids'. rebuild_runtime_turn_demand demo_net False {} demo_fleet fleet_links fleet_nodes = Inr ns' \<and>
     update_link_node_flow no_rust fleet_links ns' False ''baseline'' True None = Inr r \<and>
     commit_runtime_active_agent_flows demo_net ''auto'' demo_fleet (result_node r) {}
       \<lparr>allocated_trips = {8, 9}, completed_trips = {}, failed_trips = {}\<rparr> = Inr (q, st, ids') \<and>
     lockstep demo_net q (result_link r)"
proof -
  obtain ns' r where t: "rebuild_runtime_turn_demand demo_net False {} demo_fleet fleet_links fleet_nodes = Inr ns'"
    "update_link_node_flow no_rust fleet_links ns' False ''baseline'' True None = Inr r"
    by (rule fleet_tick)
  then show ?thesis
    using flow_commit_lockstep[OF demo_net_wf fleet_turns_indexed fleet_ready t, of "''auto''"
        "\<lparr>allocated_trips = {8, 9}, completed_trips = {}, failed_trips = {}\<rparr>"] by auto
qed

section \<open>The spatial mode lets an agent in transit take the token of one at the exit\<close>

text \<open>Two agents on link 10 with the same route: slot 0 has just entered it, slot 1 is at its exit.\<close>

definition demo_pair :: runtime_pool where
  "demo_pair = demo_fleet\<lparr>current_link_id := [10, 10], remaining_route_ptr := [0, 0], progress_01 := [0, 1]\<rparr>"

lemma pair_route:
  assumes "plugin_memory p = plugin_memory demo_pair" "trip_id p = trip_id demo_pair" "k < 2"
  shows "read_slot_route p k = Inr [10, 11]"
proof -
  have "read_slot_route demo_pair k = Inr [10, 11]"
    using assms(3) by (auto simp: read_slot_route_def slot_memory_of_def demo_pair_def demo_fleet_def fleet_memory_def
        route_path_of_def validate_slot_trip_identity_def check_eval less_2_cases_iff)
  then show ?thesis using read_slot_route_cong[of p k demo_pair] assms(1,2) by simp
qed

lemma exit_threshold_bounds: "0 < exit_threshold" "exit_threshold \<le> 1"
proof -
  have "r64 (1 / 10 ^ 6) \<le> 1 / 2" by (rule f64.rd_le_float) (use r64_half[of 0] in simp_all)
  then have "1 / 2 \<le> exit_threshold"
    unfolding exit_threshold_def by (intro f64.rd_ge_float) (use r64_half[of 0] in simp_all)
  then show "0 < exit_threshold" by simp
  show "exit_threshold \<le> 1"
    unfolding exit_threshold_def by (rule f64.rd_le_float) (simp_all add: f64.rd_nonneg)
qed

lemma pair_ok: "pool_ok demo_pair"
proof -
  have "{i. 0 \<le> i \<and> i < (2::int) \<and> \<not> [True, True] ! nat i} = {}" by (auto simp: nth_Cons' nat_eq_iff)
  then show ?thesis
    by (auto simp: pool_ok_def demo_pair_def demo_fleet_def pool_shaped_def free_ids_def pool_values_ok_def
        numeral_2_eq_2 less_Suc_cases)
qed

lemma pair_commit:
  obtains st where "commit_runtime_active_agent_flows demo_net ''auto'' demo_pair (fleet_nodes\<lparr>turn_flow := [1, 0]\<rparr>) {} ids
      = Inr (runtime_move_slot demo_pair 0 1 11, st, ids)"
proof -
  let ?st = "\<lparr>cs_pool = demo_pair, cs_turn_tokens = [1, 0], cs_sink_tokens = [0, 0, 0, 0], cs_completed = [],
      cs_moved = 0, cs_sink_wait = 0\<rparr>"
  let ?st1 = "?st\<lparr>cs_pool := runtime_move_slot demo_pair 0 1 11, cs_turn_tokens := [0, 0], cs_moved := 1\<rparr>"
  have lookup: "runtime_turn_index_lookup demo_net (fleet_nodes\<lparr>turn_flow := [1, 0]\<rparr>) = Inr fleet_lookup"
    unfolding fleet_lookup[symmetric] by (rule runtime_lookup_cong) (simp_all add: turn_count_def)
  have fields: "alive_mask demo_pair = [True, True]" "current_link_id demo_pair = [10, 10]"
    "remaining_route_ptr demo_pair = [0, 0]" "dest_node_id demo_pair = [3, 3]"
    by (simp_all add: demo_pair_def demo_fleet_def)
  have "commit_slot demo_net fleet_lookup {} demo_pair 0 ?st = Inr ?st1"
    using demo_route_legal by (simp add: commit_slot_def Let_def fields pair_route on_route_def fleet_lookup_def bump_def)
  moreover have "commit_slot demo_net fleet_lookup {} demo_pair 1 ?st1 = Inr ?st1"
    using demo_route_legal
    by (simp add: commit_slot_def Let_def fields pair_route on_route_def fleet_lookup_def runtime_move_slot_def)
  ultimately have loop: "foldE (commit_slot demo_net fleet_lookup {} demo_pair) [0..<2] ?st = Inr ?st1"
    by (simp add: upt_rec)
  have "pool_from_internal_arrays (runtime_move_slot demo_pair 0 1 11) = Inr (runtime_move_slot demo_pair 0 1 11)"
    by (rule pool_internal_ok[OF move_ok[OF pair_ok]]) (simp_all add: demo_pair_def demo_fleet_def)
  then have adv: "advance_pool_along_realized_turns demo_net (fleet_nodes\<lparr>turn_flow := [1, 0]\<rparr>) demo_pair [1, 0]
      [0, 0, 0, 0] {} = Inr ?st1"
    using lookup loop by (simp add: advance_pool_along_realized_turns_def check_eval fields numeral_2_eq_2)
  have links: "net_link_count demo_net = 4" by (simp add: demo_net_def net_link_count_def demo_roads_def)
  have "whole_flow [1, 0] = [1, 0]" "whole_flow [0, 0, 0, 0] = [0, 0, 0, 0]"
    using whole_flow_ints[of "[1, 0]"] whole_flow_ints[of "[0, 0, 0, 0]"] by (simp_all add: whole_counts_def)
  moreover have "read_sink_flow (node_metadata fleet_nodes) 4 = Inr [0, 0, 0, 0]"
    by (simp add: read_sink_flow_def fleet_nodes_def numeral_eq_Suc)
  ultimately show ?thesis using that adv links
    by (simp add: commit_runtime_active_agent_flows_def check_eval)
qed

text \<open>C22: the commit ignores where the agents are.  In the spatial mode only the agent at the exit
  submits the demand, but the single token it earns is handed to the first slot with that next turn:
  the agent that has just entered the link (progress 0) moves on, and the one at the exit stays.\<close>

theorem in_transit_agent_overtakes:
  "(\<exists>ns'. rebuild_runtime_turn_demand demo_net True {} demo_pair fleet_links fleet_nodes = Inr ns' \<and>
      turn_demand ns' = [1, 0]) \<and>
   (\<exists>q st ids'. commit_runtime_active_agent_flows demo_net ''auto'' demo_pair (fleet_nodes\<lparr>turn_flow := [1, 0]\<rparr>) {} ids
        = Inr (q, st, ids') \<and>
      current_link_id demo_pair = [10, 10] \<and> progress_01 demo_pair = [0, 1] \<and> current_link_id q = [11, 10])"
proof
  show "\<exists>ns'. rebuild_runtime_turn_demand demo_net True {} demo_pair fleet_links fleet_nodes = Inr ns' \<and>
      turn_demand ns' = [1, 0]"
    using fleet_lookup demo_route_legal exit_threshold_bounds
    by (simp add: rebuild_runtime_turn_demand_def demo_pair_def demo_fleet_def upt_rec rebuild_slot_def
        pair_route on_route_def fleet_nodes_def fleet_links_def turn_count_def link_count_def fleet_lookup_def
        add_one_def check_eval node_from_internal_arrays_def same_shape_def Let_def numeral_2_eq_2)
  show "\<exists>q st ids'. commit_runtime_active_agent_flows demo_net ''auto'' demo_pair (fleet_nodes\<lparr>turn_flow := [1, 0]\<rparr>) {} ids
        = Inr (q, st, ids') \<and>
      current_link_id demo_pair = [10, 10] \<and> progress_01 demo_pair = [0, 1] \<and> current_link_id q = [11, 10]"
    by (rule pair_commit[of ids]) (auto simp: runtime_move_slot_def demo_pair_def demo_fleet_def)
qed

end
