(* ===== verification/Trips.thy ===== *)
theory Trips
  imports PyFloat
begin

text \<open>
  Trip requests (src/src/metroflow/demand/trips.py): planning one request per citizen from the
  schedule templates (\<open>plan_trip_request_layout\<close>), numbering them (\<open>generate_trip_requests\<close>) and
  switching the due ones from queued to activated (\<open>activate_trip_requests\<close>).  The seeded NumPy
  generator is a parameter: the three arrays of rolls it yields.  Weights, propensities and rolls are
  finite floats.  Enumerations are datatypes; the parsing of their strings is not modelled.
\<close>

section \<open>Trip requests\<close>

datatype day_type = Weekday | Weekend
datatype time_band = Morning | Lunch | Evening | Night
datatype poi_type = Home | Workplace | Leisure
datatype trip_state = Queued | Activated | Canceled

record trip_request =
  trip_request_id :: int
  trip_citizen :: int
  trip_origin :: int
  trip_dest :: int
  planned_depart_tick :: int
  trip_day :: day_type
  trip_band :: time_band
  trip_status :: trip_state

text \<open>The checks of \<^verbatim>\<open>TripRequest.__post_init__\<close> and of \<^verbatim>\<open>from_internal_values\<close>.\<close>

definition make_trip_request :: "trip_request \<Rightarrow> trip_request result" where
  "make_trip_request t = bindE (checks [
     (trip_origin t = trip_dest t, ''TripRequest origin_poi_id and dest_poi_id must differ''),
     (planned_depart_tick t < 0, ''TripRequest planned_depart_tick must be >= 0'')]) (\<lambda>_. Inr t)"

definition trip_request_with_status :: "trip_request \<Rightarrow> trip_state \<Rightarrow> trip_request result" where
  "trip_request_with_status t st = make_trip_request (t\<lparr>trip_status := st\<rparr>)"

section \<open>Activation\<close>

text \<open>The loop of \<^verbatim>\<open>activate_trip_requests\<close>: \<open>ordered\<close> is \<^verbatim>\<open>maybe_sorted_by_depart\<close> and \<open>prev\<close> is
  \<^verbatim>\<open>last_depart_tick\<close>; the result is the rest of \<^verbatim>\<open>out\<close>.\<close>

fun activate_loop :: "int \<Rightarrow> bool \<Rightarrow> int \<Rightarrow> trip_request list \<Rightarrow> trip_request list result" where
  "activate_loop now ordered prev [] = Inr []"
| "activate_loop now ordered prev (t # ts) =
     (let depart = planned_depart_tick t; ordered = (ordered \<and> \<not> depart < prev) in
      if trip_status t = Queued \<and> depart \<le> now then
        bindE (trip_request_with_status t Activated) (\<lambda>t'.
        bindE (activate_loop now ordered depart ts) (\<lambda>out. Inr (t' # out)))
      else if ordered \<and> trip_status t = Queued \<and> now < depart then Inr (t # ts)
      else bindE (activate_loop now ordered depart ts) (\<lambda>out. Inr (t # out)))"

definition activate_trip_requests :: "trip_request list \<Rightarrow> int \<Rightarrow> trip_request list result" where
  "activate_trip_requests ts now =
     bindE (checks [(now < 0, ''current_tick must be >= 0'')]) (\<lambda>_. activate_loop now True (- 1) ts)"

section \<open>Citizens, schedules and points of interest\<close>

record time_band_rule =
  trip_propensity :: rat
  destination_type_weights :: "(poi_type \<times> rat) list"

text \<open>\<^verbatim>\<open>applicable_day_type\<close> is \<open>None\<close> for \<^verbatim>\<open>"both"\<close>.\<close>

record schedule_template =
  schedule_template_id :: int
  applicable_day_type :: "day_type option"
  time_band_rules :: "time_band \<rightharpoonup> time_band_rule"
  departure_jitter_profile :: string

record citizen =
  cit_id :: int
  home_poi_id :: int
  work_poi_id :: "int option"
  leisure_poi_preferences :: "(int \<times> rat) list"
  cit_schedule :: int

record poi =
  poi_id :: int
  poi_kind :: poi_type
  poi_node :: int
  capacity_hint :: int

definition applies_on :: "day_type \<Rightarrow> schedule_template \<Rightarrow> bool" where
  "applies_on d s \<longleftrightarrow> applicable_day_type s = None \<or> applicable_day_type s = Some d"

text \<open>The templates of a day, in order; an absent key of the dict is the empty list.\<close>

definition fallback_schedules_by_day :: "schedule_template list \<Rightarrow> day_type \<Rightarrow> schedule_template list" where
  "fallback_schedules_by_day schedules d = filter (applies_on d) schedules"

definition pick_cyclic :: "int \<Rightarrow> 'a list \<Rightarrow> 'a" where
  "pick_cyclic c xs = xs ! nat ((c - 1) mod int (length xs))"

definition resolve_schedule_template_for_citizen :: "citizen \<Rightarrow> (int \<rightharpoonup> schedule_template) \<Rightarrow> day_type \<Rightarrow>
    schedule_template list \<Rightarrow> schedule_template option" where
  "resolve_schedule_template_for_citizen c by_id d fallback =
     (let last_resort = (if fallback = [] then None else Some (pick_cyclic (cit_id c) fallback)) in
      case by_id (cit_schedule c) of
        None \<Rightarrow> last_resort
      | Some t \<Rightarrow>
          if applies_on d t then Some t
          else let same = filter (\<lambda>s. departure_jitter_profile s = departure_jitter_profile t) fallback in
            if same = [] then last_resort else Some (pick_cyclic (cit_id c) same))"

section \<open>The type of the destination\<close>

fun weight_total :: "rat \<Rightarrow> (poi_type \<times> rat) list \<Rightarrow> rat" where
  "weight_total acc [] = acc"
| "weight_total acc ((k, w) # ws) = weight_total (r64 (acc + w)) ws"

fun first_reached :: "rat \<Rightarrow> rat \<Rightarrow> (poi_type \<times> rat) list \<Rightarrow> poi_type option" where
  "first_reached threshold acc [] = None"
| "first_reached threshold acc ((k, w) # ws) =
     (let acc = r64 (acc + w) in if threshold \<le> acc then Some k else first_reached threshold acc ws)"

definition select_weighted_poi_type :: "(poi_type \<times> rat) list \<Rightarrow> rat \<Rightarrow> poi_type" where
  "select_weighted_poi_type ws roll =
     (let total = weight_total 0 ws in
      if total \<le> 0 then Leisure
      else case first_reached (r64 (roll * total)) 0 ws of
          Some k \<Rightarrow> k
        | None \<Rightarrow> (case ws of [] \<Rightarrow> Leisure | (k, w) # _ \<Rightarrow> k))"

text \<open>The cached variant keeps the types, the running sums and the total of a rule.  The cache is keyed
  by the identity of a dict that outlives it, so it is transparent.\<close>

fun cumulative_weights :: "rat \<Rightarrow> (poi_type \<times> rat) list \<Rightarrow> rat list" where
  "cumulative_weights acc [] = []"
| "cumulative_weights acc ((k, w) # ws) = r64 (acc + w) # cumulative_weights (r64 (acc + w)) ws"

fun scan_bounds :: "rat \<Rightarrow> poi_type list \<Rightarrow> rat list \<Rightarrow> poi_type option" where
  "scan_bounds threshold (k # ks) (b # bs) = (if threshold \<le> b then Some k else scan_bounds threshold ks bs)"
| "scan_bounds threshold _ _ = None"

definition select_weighted_poi_type_cached :: "(poi_type \<times> rat) list \<Rightarrow> rat \<Rightarrow> poi_type" where
  "select_weighted_poi_type_cached ws roll =
     (let kinds = map fst ws; bounds = cumulative_weights 0 ws;
          total = (if bounds = [] then 0 else last bounds) in
      if total \<le> 0 \<or> kinds = [] then Leisure
      else case scan_bounds (r64 (roll * total)) kinds bounds of Some k \<Rightarrow> k | None \<Rightarrow> hd kinds)"

section \<open>The destination\<close>

text \<open>The keys of \<^verbatim>\<open>{poi.poi_id: poi for poi in pois}\<close>, in insertion order.\<close>

fun dict_keys :: "'k list \<Rightarrow> 'k list \<Rightarrow> 'k list" where
  "dict_keys seen [] = []"
| "dict_keys seen (k # ks) = (if k \<in> set seen then dict_keys seen ks else k # dict_keys (k # seen) ks)"

definition choose_destination_poi_id :: "citizen \<Rightarrow> int \<Rightarrow> int list \<Rightarrow> poi list \<Rightarrow> poi_type \<Rightarrow> int option" where
  "choose_destination_poi_id c origin keys leisure kind =
     (let usable = (\<lambda>i. i \<in> set keys \<and> i \<noteq> origin);
          work = (case work_poi_id c of Some w \<Rightarrow> (if usable w then Some w else None) | None \<Rightarrow> None);
          preferred = find usable (map fst (leisure_poi_preferences c)) in
      if kind = Workplace \<and> work \<noteq> None then work
      else if kind = Leisure \<and> preferred \<noteq> None then preferred
      else if work \<noteq> None then work
      else if preferred \<noteq> None then preferred
      else case find (\<lambda>p. poi_id p \<noteq> origin) leisure of
          Some p \<Rightarrow> Some (poi_id p)
        | None \<Rightarrow> find (\<lambda>i. i \<noteq> origin) keys)"

section \<open>Planning and generation\<close>

record plan_state =
  plan_rows :: "(int \<times> int \<times> int \<times> int) list"
  skipped_propensity :: nat
  skipped_missing :: nat

text \<open>The template used by the loop; the grouped dict of \<^verbatim>\<open>fallback_by_jitter\<close> is a filter.\<close>

definition layout_template :: "citizen \<Rightarrow> (int \<rightharpoonup> schedule_template) \<Rightarrow> day_type \<Rightarrow> schedule_template list \<Rightarrow>
    schedule_template option" where
  "layout_template c by_id d fallback = (case by_id (cit_schedule c) of
       Some t \<Rightarrow>
         if \<not> applies_on d t then
           (let same = filter (\<lambda>s. departure_jitter_profile s = departure_jitter_profile t) fallback in
            if same \<noteq> [] then Some (pick_cyclic (cit_id c) same)
            else if fallback \<noteq> [] then Some (pick_cyclic (cit_id c) fallback) else None)
         else Some t
     | None \<Rightarrow> if fallback \<noteq> [] then Some (pick_cyclic (cit_id c) fallback) else None)"

record rolls =
  include_rolls :: "rat list"
  type_rolls :: "rat list"
  jitter_offsets :: "int list"

definition plan_citizen :: "(int \<rightharpoonup> schedule_template) \<Rightarrow> schedule_template list \<Rightarrow> int list \<Rightarrow> poi list \<Rightarrow>
    day_type \<Rightarrow> time_band \<Rightarrow> int \<Rightarrow> rolls \<Rightarrow> nat \<times> citizen \<Rightarrow> plan_state \<Rightarrow> plan_state result" where
  "plan_citizen by_id fallback keys leisure d band start rl ic st =
     (let (i, c) = ic; missing = Inr (st\<lparr>skipped_missing := skipped_missing st + 1\<rparr>) in
      case layout_template c by_id d fallback of
        None \<Rightarrow> missing
      | Some t \<Rightarrow> (case time_band_rules t band of
          None \<Rightarrow> missing
        | Some rule \<Rightarrow>
            if trip_propensity rule < include_rolls rl ! i
            then Inr (st\<lparr>skipped_propensity := skipped_propensity st + 1\<rparr>)
            else if home_poi_id c \<notin> set keys then Inl (ValueError ''home_poi_id not present in zoning POIs'')
            else (case choose_destination_poi_id c (home_poi_id c) keys leisure
                (select_weighted_poi_type_cached (destination_type_weights rule) (type_rolls rl ! i)) of
                None \<Rightarrow> missing
              | Some dest \<Rightarrow>
                  if dest = home_poi_id c then missing
                  else Inr (st\<lparr>plan_rows := plan_rows st @
                    [(cit_id c, home_poi_id c, dest, start + jitter_offsets rl ! i)]\<rparr>))))"

definition plan_trip_request_layout :: "citizen list \<Rightarrow> (int \<rightharpoonup> schedule_template) \<Rightarrow> schedule_template list \<Rightarrow>
    int list \<Rightarrow> poi list \<Rightarrow> day_type \<Rightarrow> time_band \<Rightarrow> int \<Rightarrow> rolls \<Rightarrow> plan_state result" where
  "plan_trip_request_layout cs by_id fallback keys leisure d band start rl =
     foldE (plan_citizen by_id fallback keys leisure d band start rl) (zip [0..<length cs] cs)
       \<lparr>plan_rows = [], skipped_propensity = 0, skipped_missing = 0\<rparr>"

fun materialize_rows :: "day_type \<Rightarrow> time_band \<Rightarrow> int \<Rightarrow> (int \<times> int \<times> int \<times> int) list \<Rightarrow> trip_request list result" where
  "materialize_rows d band n [] = Inr []"
| "materialize_rows d band n ((c, og, ds, tick) # rows) =
     bindE (make_trip_request \<lparr>trip_request_id = n, trip_citizen = c, trip_origin = og, trip_dest = ds,
       planned_depart_tick = tick, trip_day = d, trip_band = band, trip_status = Queued\<rparr>) (\<lambda>t.
     bindE (materialize_rows d band (n + 1) rows) (\<lambda>ts. Inr (t # ts)))"

text \<open>The rolls drawn for a seed, a day, a time band, a number of citizens and a jitter bound.\<close>

type_synonym trip_rng = "int \<Rightarrow> day_type \<Rightarrow> time_band \<Rightarrow> nat \<Rightarrow> int \<Rightarrow> rolls"

record trip_args =
  ta_seed :: int
  ta_day :: day_type
  ta_band :: time_band
  ta_start_tick :: int
  ta_jitter_max :: int
  ta_first_id :: int

definition generate_trip_requests :: "trip_rng \<Rightarrow> day_type list \<Rightarrow> time_band list \<Rightarrow> citizen list \<Rightarrow>
    schedule_template list \<Rightarrow> poi list \<Rightarrow> trip_args \<Rightarrow> (trip_request list \<times> plan_state) result" where
  "generate_trip_requests rng days bands citizens schedules pois a =
     bindE (checks [
       (ta_start_tick a < 0, ''start_tick must be >= 0''),
       (ta_jitter_max a < 0, ''jitter_max_ticks must be >= 0''),
       (ta_first_id a < 1, ''start_trip_request_id must be >= 1''),
       (ta_day a \<notin> set days, ''day_type is not enabled in config.day_type_set''),
       (ta_band a \<notin> set bands, ''time_band is not enabled in config.time_bands''),
       (schedules = [], ''population.schedule_templates must not be empty'')]) (\<lambda>_.
     if citizens = [] then Inr ([], \<lparr>plan_rows = [], skipped_propensity = 0, skipped_missing = 0\<rparr>)
     else let fallback = fallback_schedules_by_day schedules (ta_day a) in
     bindE (checks [
       (fallback = [], ''no schedule templates available for day_type''),
       (pois = [], ''zoning.pois must not be empty'')]) (\<lambda>_.
     let by_id = map_of (rev (map (\<lambda>s. (schedule_template_id s, s)) schedules));
         keys = dict_keys [] (map poi_id pois);
         leisure = filter (\<lambda>p. poi_kind p = Leisure) pois;
         upper = (if 0 < ta_jitter_max a then ta_jitter_max a + 1 else 1);
         rl = rng (ta_seed a) (ta_day a) (ta_band a) (length citizens) upper in
     bindE (plan_trip_request_layout citizens by_id fallback keys leisure (ta_day a) (ta_band a) (ta_start_tick a) rl)
       (\<lambda>plan. bindE (materialize_rows (ta_day a) (ta_band a) (ta_first_id a) (plan_rows plan))
       (\<lambda>ts. Inr (ts, plan)))))"

section \<open>Activation on a list ordered by departure\<close>

definition trip_ok :: "trip_request \<Rightarrow> bool" where
  "trip_ok t \<longleftrightarrow> trip_origin t \<noteq> trip_dest t \<and> 0 \<le> planned_depart_tick t"

lemma make_trip_request_iff [check_simps]: "make_trip_request t = Inr t' \<longleftrightarrow> trip_ok t \<and> t' = t"
  by (auto simp: make_trip_request_def check_simps trip_ok_def)

text \<open>What activation is meant to do with one trip.\<close>

definition activated :: "int \<Rightarrow> trip_request \<Rightarrow> trip_request" where
  "activated now t = (if trip_status t = Queued \<and> planned_depart_tick t \<le> now then t\<lparr>trip_status := Activated\<rparr> else t)"

lemma activated_fields [simp]:
  "planned_depart_tick (activated now t) = planned_depart_tick t" "trip_ok (activated now t) = trip_ok t"
  by (simp_all add: activated_def trip_ok_def)

lemma activate_with_status: "trip_ok t \<Longrightarrow> trip_request_with_status t st = Inr (t\<lparr>trip_status := st\<rparr>)"
  by (simp add: trip_request_with_status_def make_trip_request_iff) (simp add: trip_ok_def)

lemma activate_loop_ordered:
  assumes "\<forall>t \<in> set ts. trip_ok t \<and> prev \<le> planned_depart_tick t" "sorted (map planned_depart_tick ts)"
  shows "activate_loop now ordered prev ts = Inr (map (activated now) ts)"
  using assms
proof (induction ts arbitrary: ordered prev)
  case (Cons t ts)
  have ok: "trip_ok t" "prev \<le> planned_depart_tick t" using Cons.prems(1) by simp_all
  have ih: "activate_loop now od (planned_depart_tick t) ts = Inr (map (activated now) ts)" for od
    by (rule Cons.IH) (use Cons.prems in auto)
  have rest: "map (activated now) ts = ts" if "now < planned_depart_tick t"
    by (rule map_idI) (use that Cons.prems in \<open>force simp: activated_def\<close>)
  show ?case
    using ok ih rest activate_with_status[OF ok(1), of Activated] by (auto simp: Let_def activated_def[of now t])
qed simp

text \<open>Whatever the order, activation changes nothing but the status of due trips.\<close>

lemma activate_loop_sound:
  assumes "activate_loop now ordered prev ts = Inr out"
  shows "list_all2 (\<lambda>t t'. t' = t \<or> t' = activated now t) ts out"
  using assms
proof (induction now ordered prev ts arbitrary: out rule: activate_loop.induct)
  case (2 now ordered prev t ts)
  show ?case
    using "2.prems" "2.IH"
    by (auto simp: Let_def check_simps trip_request_with_status_def activated_def list.rel_refl
        split: if_splits)
qed simp

section \<open>The two ways to choose a destination type and a template\<close>

lemma cumulative_length [simp]: "length (cumulative_weights acc ws) = length ws"
  by (induction acc ws rule: cumulative_weights.induct) simp_all

lemma weight_total_last: "weight_total acc ws = (if ws = [] then acc else last (cumulative_weights acc ws))"
proof (induction acc ws rule: weight_total.induct)
  case (2 acc k w ws)
  then show ?case by (cases ws) auto
qed simp

lemma scan_bounds_first: "scan_bounds t (map fst ws) (cumulative_weights acc ws) = first_reached t acc ws"
  by (induction t acc ws rule: first_reached.induct) (simp_all add: Let_def)

lemma select_cached_eq: "select_weighted_poi_type_cached ws roll = select_weighted_poi_type ws roll"
proof (cases ws)
  case (Cons kw rest)
  have t: "weight_total 0 ws = last (cumulative_weights 0 ws)" "cumulative_weights 0 ws \<noteq> []"
    using Cons weight_total_last[of 0 ws] by (auto simp flip: length_0_conv)
  show ?thesis
    unfolding select_weighted_poi_type_cached_def select_weighted_poi_type_def Let_def scan_bounds_first
    using t by (simp add: Cons split: option.split prod.split)
qed (simp add: select_weighted_poi_type_cached_def select_weighted_poi_type_def)

lemma layout_template_eq: "layout_template c by_id d fallback = resolve_schedule_template_for_citizen c by_id d fallback"
  by (simp add: layout_template_def resolve_schedule_template_for_citizen_def Let_def split: option.split)

section \<open>The destination differs from the origin\<close>

lemma dict_keys_set: "set (dict_keys seen ks) = set ks - set seen"
  by (induction seen ks rule: dict_keys.induct) auto

lemma find_Some_props: "find P xs = Some x \<Longrightarrow> P x \<and> x \<in> set xs"
  by (auto simp: find_Some_iff)

lemma find_None_all: "find P xs = None \<longleftrightarrow> (\<forall>x \<in> set xs. \<not> P x)"
  by (auto simp: find_None_iff)

lemma destination_usable:
  assumes "choose_destination_poi_id c origin keys leisure kind = Some d" "\<forall>p \<in> set leisure. poi_id p \<in> set keys"
  shows "d \<noteq> origin \<and> d \<in> set keys"
  using assms
  by (auto simp: choose_destination_poi_id_def Let_def dest!: find_Some_props
      split: option.splits if_splits)

lemma destination_exists:
  "choose_destination_poi_id c origin keys leisure kind = None \<Longrightarrow> \<forall>i \<in> set keys. i = origin"
  by (auto simp: choose_destination_poi_id_def Let_def find_None_all split: option.splits if_splits)

section \<open>What planning returns\<close>

definition row_ok :: "int set \<Rightarrow> citizen set \<Rightarrow> int \<Rightarrow> int \<Rightarrow> int \<times> int \<times> int \<times> int \<Rightarrow> bool" where
  "row_ok ids cs start upper row \<longleftrightarrow> (case row of (c, og, ds, tick) \<Rightarrow>
     og \<noteq> ds \<and> og \<in> ids \<and> ds \<in> ids \<and> start \<le> tick \<and> tick < start + upper \<and>
     (\<exists>ct \<in> cs. cit_id ct = c \<and> home_poi_id ct = og))"

definition planned :: "plan_state \<Rightarrow> nat" where
  "planned st = length (plan_rows st) + skipped_propensity st + skipped_missing st"

lemma plan_citizen_step:
  assumes "home_poi_id c \<in> set keys" "\<forall>p \<in> set leisure. poi_id p \<in> set keys"
    "0 \<le> jitter_offsets rl ! i" "jitter_offsets rl ! i < upper" "c \<in> cs"
    "\<forall>row \<in> set (plan_rows st). row_ok (set keys) cs start upper row"
  shows "\<exists>st'. plan_citizen by_id fallback keys leisure d band start rl (i, c) st = Inr st' \<and>
    planned st' = Suc (planned st) \<and> (\<forall>row \<in> set (plan_rows st'). row_ok (set keys) cs start upper row)"
proof -
  have "row_ok (set keys) cs start upper (cit_id c, home_poi_id c, dest, start + jitter_offsets rl ! i)"
    if "choose_destination_poi_id c (home_poi_id c) keys leisure kind = Some dest" for dest kind
    using destination_usable[OF that assms(2)] assms(1,3-5) by (auto simp: row_ok_def)
  then show ?thesis
    using assms(1,6) by (auto simp: plan_citizen_def Let_def planned_def split: option.split)
qed

lemma plan_loop:
  assumes "\<forall>c \<in> set cs. home_poi_id c \<in> set keys" "\<forall>p \<in> set leisure. poi_id p \<in> set keys"
    "\<forall>ic \<in> set ics. snd ic \<in> set cs \<and> 0 \<le> jitter_offsets rl ! fst ic \<and> jitter_offsets rl ! fst ic < upper"
    "\<forall>row \<in> set (plan_rows st). row_ok (set keys) (set cs) start upper row"
  shows "\<exists>st'. foldE (plan_citizen by_id fallback keys leisure d band start rl) ics st = Inr st' \<and>
    planned st' = planned st + length ics \<and> (\<forall>row \<in> set (plan_rows st'). row_ok (set keys) (set cs) start upper row)"
  using assms(3,4)
proof (induction ics arbitrary: st)
  case (Cons ic ics)
  obtain i c where ic: "ic = (i, c)" by force
  have c: "c \<in> set cs" "0 \<le> jitter_offsets rl ! i" "jitter_offsets rl ! i < upper" "home_poi_id c \<in> set keys"
    using Cons.prems(1) assms(1) by (auto simp: ic)
  obtain st1 where st1: "plan_citizen by_id fallback keys leisure d band start rl ic st = Inr st1"
    "planned st1 = Suc (planned st)" "\<forall>row \<in> set (plan_rows st1). row_ok (set keys) (set cs) start upper row"
    using plan_citizen_step[OF c(4) assms(2) c(2,3,1) Cons.prems(2)] unfolding ic by metis
  from Cons.IH[OF _ st1(3)] Cons.prems(1) st1(1,2) show ?case by auto
qed auto

lemma materialize_ok:
  assumes "\<forall>row \<in> set rows. row_ok ids cs start upper row" "0 \<le> start"
  shows "\<exists>ts. materialize_rows d band n rows = Inr ts \<and> length ts = length rows \<and>
    map trip_request_id ts = map (\<lambda>i. n + int i) [0..<length rows] \<and>
    (\<forall>t \<in> set ts. trip_ok t \<and> trip_status t = Queued \<and> trip_day t = d \<and> trip_band t = band \<and>
       row_ok ids cs start upper (trip_citizen t, trip_origin t, trip_dest t, planned_depart_tick t))"
  using assms(1)
proof (induction rows arbitrary: n)
  case (Cons row rows)
  obtain c og ds tick where row: "row = (c, og, ds, tick)" by (metis prod_cases4)
  obtain ts where ts: "materialize_rows d band (n + 1) rows = Inr ts" "length ts = length rows"
    "map trip_request_id ts = map (\<lambda>i. n + 1 + int i) [0..<length rows]"
    "\<forall>t \<in> set ts. trip_ok t \<and> trip_status t = Queued \<and> trip_day t = d \<and> trip_band t = band \<and>
       row_ok ids cs start upper (trip_citizen t, trip_origin t, trip_dest t, planned_depart_tick t)"
    using Cons.IH[of "n + 1"] Cons.prems by auto
  let ?t = "\<lparr>trip_request_id = n, trip_citizen = c, trip_origin = og, trip_dest = ds,
       planned_depart_tick = tick, trip_day = d, trip_band = band, trip_status = Queued\<rparr>"
  have ok: "row_ok ids cs start upper row" using Cons.prems by simp
  have "trip_ok ?t" using ok assms(2) by (auto simp: row_ok_def row trip_ok_def)
  then have "materialize_rows d band n (row # rows) = Inr (?t # ts)"
    using ts(1) make_trip_request_iff[of ?t ?t] by (simp add: row)
  moreover have "map (\<lambda>i. n + int i) [0..<Suc (length rows)] = n # map (\<lambda>i. n + 1 + int i) [0..<length rows]"
    by (simp only: upt_conv_Cons zero_less_Suc list.map map_Suc_upt[symmetric] map_map) (simp add: comp_def)
  ultimately show ?case using ts(2-4) ok \<open>trip_ok ?t\<close> by (auto simp: row)
qed simp

section \<open>The properties of trip requests\<close>

text \<open>What the NumPy generator documents: one roll per citizen, and jitter below its bound.\<close>

definition rolls_ok :: "rolls \<Rightarrow> nat \<Rightarrow> int \<Rightarrow> bool" where
  "rolls_ok rl n upper \<longleftrightarrow> length (include_rolls rl) = n \<and> length (type_rolls rl) = n \<and>
     length (jitter_offsets rl) = n \<and> (\<forall>x \<in> set (include_rolls rl) \<union> set (type_rolls rl). 0 \<le> x \<and> x < 1) \<and>
     (\<forall>j \<in> set (jitter_offsets rl). 0 \<le> j \<and> j < upper)"

definition numpy_rng :: "trip_rng \<Rightarrow> bool" where
  "numpy_rng rng \<longleftrightarrow> (\<forall>seed d band n upper. 0 < upper \<longrightarrow> rolls_ok (rng seed d band n upper) n upper)"

definition trip_args_ok :: "day_type list \<Rightarrow> time_band list \<Rightarrow> citizen list \<Rightarrow> schedule_template list \<Rightarrow> poi list \<Rightarrow>
    trip_args \<Rightarrow> bool" where
  "trip_args_ok days bands cs schedules pois a \<longleftrightarrow> 0 \<le> ta_start_tick a \<and> 0 \<le> ta_jitter_max a \<and> 1 \<le> ta_first_id a \<and>
     ta_day a \<in> set days \<and> ta_band a \<in> set bands \<and> (\<exists>s \<in> set schedules. applies_on (ta_day a) s) \<and> pois \<noteq> [] \<and>
     (\<forall>c \<in> set cs. home_poi_id c \<in> set (map poi_id pois))"


text \<open>The rule for destination types and the choice of a template have two implementations each
  in the module; they agree on every input.\<close>

theorem trip_choices_agree:
  "select_weighted_poi_type_cached ws roll = select_weighted_poi_type ws roll \<and>
   layout_template c by_id d fallback = resolve_schedule_template_for_citizen c by_id d fallback"
  by (simp add: select_cached_eq layout_template_eq)

text \<open>C36: on a list ordered by departure, activation switches exactly the queued trips that are due.\<close>

theorem activation_exact_when_ordered:
  assumes "0 \<le> now" "\<forall>t \<in> set ts. trip_ok t" "sorted (map planned_depart_tick ts)"
  shows "activate_trip_requests ts now = Inr (map (activated now) ts)"
  using assms activate_loop_ordered[of ts "- 1" now True]
  by (force simp: activate_trip_requests_def check_eval trip_ok_def)

text \<open>Two citizens whose trips are generated with the jitter rolls 100 and 5.\<close>

definition demo_schedule :: schedule_template where
  "demo_schedule = \<lparr>schedule_template_id = 4, applicable_day_type = None,
     time_band_rules = [Morning \<mapsto> \<lparr>trip_propensity = 1 / 2, destination_type_weights = [(Workplace, 1)]\<rparr>],
     departure_jitter_profile = ''balanced_default''\<rparr>"

definition demo_citizens :: "citizen list" where
  "demo_citizens = [
     \<lparr>cit_id = 1, home_poi_id = 7, work_poi_id = Some 8, leisure_poi_preferences = [], cit_schedule = 4\<rparr>,
     \<lparr>cit_id = 2, home_poi_id = 7, work_poi_id = None, leisure_poi_preferences = [(8, 1)], cit_schedule = 4\<rparr>]"

definition demo_pois :: "poi list" where
  "demo_pois = [\<lparr>poi_id = 7, poi_kind = Home, poi_node = 1, capacity_hint = 10\<rparr>,
     \<lparr>poi_id = 8, poi_kind = Workplace, poi_node = 3, capacity_hint = 10\<rparr>]"

definition demo_rng :: trip_rng where
  "demo_rng seed d band n upper = \<lparr>include_rolls = replicate n 0, type_rolls = replicate n 0,
     jitter_offsets = take n (map (\<lambda>j. min j (upper - 1)) ([100, 5] @ replicate n 0))\<rparr>"

definition demo_trip_args :: trip_args where
  "demo_trip_args = \<lparr>ta_seed = 42, ta_day = Weekday, ta_band = Morning, ta_start_tick = 0, ta_jitter_max = 900,
     ta_first_id = 1\<rparr>"

lemma demo_rng_ok: "numpy_rng demo_rng"
  by (auto simp: numpy_rng_def rolls_ok_def demo_rng_def dest!: in_set_takeD)

text \<open>C37: on an unordered list activation is not exact.  A first trip that departs later hides every
  trip behind it, due or not; and generation, which keeps the order of the citizens, does produce such
  a list: with the jitter rolls 100 and 5 both trips are still queued at tick 10.\<close>

theorem activation_misses_due_trips:
  "(0 \<le> now \<and> 0 \<le> planned_depart_tick t \<and> trip_status t = Queued \<and> now < planned_depart_tick t \<longrightarrow>
      activate_trip_requests (t # ts) now = Inr (t # ts)) \<and>
   numpy_rng demo_rng \<and>
   (\<exists>t1 t2 plan. generate_trip_requests demo_rng [Weekday] [Morning] demo_citizens [demo_schedule] demo_pois demo_trip_args
        = Inr ([t1, t2], plan) \<and>
      trip_status t2 = Queued \<and> planned_depart_tick t2 = 5 \<and> activate_trip_requests [t1, t2] 10 = Inr [t1, t2])"
proof (intro conjI impI demo_rng_ok)
  assume "0 \<le> now \<and> 0 \<le> planned_depart_tick t \<and> trip_status t = Queued \<and> now < planned_depart_tick t"
  then show "activate_trip_requests (t # ts) now = Inr (t # ts)"
    by (simp add: activate_trip_requests_def check_eval)
next
  show "\<exists>t1 t2 plan. generate_trip_requests demo_rng [Weekday] [Morning] demo_citizens [demo_schedule] demo_pois
        demo_trip_args = Inr ([t1, t2], plan) \<and>
      trip_status t2 = Queued \<and> planned_depart_tick t2 = 5 \<and> activate_trip_requests [t1, t2] 10 = Inr [t1, t2]"
    by (simp add: generate_trip_requests_def check_eval Let_def demo_citizens_def demo_pois_def demo_schedule_def
        demo_trip_args_def demo_rng_def fallback_schedules_by_day_def applies_on_def plan_trip_request_layout_def
        plan_citizen_def layout_template_def select_weighted_poi_type_cached_def choose_destination_poi_id_def
        make_trip_request_def activate_trip_requests_def numeral_2_eq_2)
qed


lemma activation_exact_when_ordered_witness:
  "\<exists>t. trip_status t = Queued \<and> activate_trip_requests [t] 10 = Inr [t\<lparr>trip_status := Activated\<rparr>]"
proof -
  let ?t = "\<lparr>trip_request_id = 1, trip_citizen = 1, trip_origin = 7, trip_dest = 8, planned_depart_tick = 5,
    trip_day = Weekday, trip_band = Morning, trip_status = Queued\<rparr>"
  have "\<forall>t \<in> set [?t]. trip_ok t" by (simp add: trip_ok_def)
  from activation_exact_when_ordered[OF _ this, of 10] have "activate_trip_requests [?t] 10 = Inr [activated 10 ?t]" by simp
  then show ?thesis by (intro exI[of _ ?t]) (simp add: activated_def)
qed

lemma activation_misses_due_trips_witness:
  "\<exists>t. trip_status t = Queued \<and> planned_depart_tick t = 100 \<and> activate_trip_requests [t, t\<lparr>planned_depart_tick := 5\<rparr>] 10 =
     Inr [t, t\<lparr>planned_depart_tick := 5\<rparr>]"
proof -
  let ?t = "\<lparr>trip_request_id = 1, trip_citizen = 1, trip_origin = 7, trip_dest = 8, planned_depart_tick = 100,
    trip_day = Weekday, trip_band = Morning, trip_status = Queued\<rparr>"
  from activation_misses_due_trips[of 10 ?t "[?t\<lparr>planned_depart_tick := 5\<rparr>]"]
  show ?thesis by (intro exI[of _ ?t]) simp
qed

end
