(* ===== verification/Admission.thy ===== *)
theory Admission
  imports LockstepTick Trips
begin

text \<open>
  Admission of activated trips (\<^verbatim>\<open>prepare_runtime_active_agents\<close> and its helpers,
  src/src/metroflow/sim/routing_runtime.py): every activated trip that is not accounted for is given
  the route selected for its origin and destination, a slot of the pool and one vehicle in the queue
  of its first link.  The selection of a route candidate is a parameter (\<open>route_choice\<close>): the theory
  uses it only through the path, which is validated here, and through the entries it adds to the
  agent's memory.
\<close>

section \<open>Storage and queues\<close>

definition storage_of :: "link_state \<Rightarrow> string \<Rightarrow> rat list result" where
  "storage_of ls msg = (case link_metadata ls ''storage_capacity_vehicles'' of
       None \<Rightarrow> if link_count ls = 0 then Inr [] else Inl (RuntimeError msg)
     | Some raw \<Rightarrow> (case as_array32 raw of
          Inl _ \<Rightarrow> Inl (RuntimeError msg)
        | Inr xs \<Rightarrow> if length xs \<noteq> link_count ls then Inl (RuntimeError msg)
            else if list_all isfinite xs then Inr (map finite_part xs) else Inl (OutOfModel msg)))"

definition micro64_slack :: rat where
  "micro64_slack = r64 (1 / 10 ^ 6)"

definition source_link_admission_available :: "bool \<Rightarrow> road_network \<Rightarrow> link_state \<Rightarrow> int \<Rightarrow> (int \<rightharpoonup> int) \<Rightarrow>
    bool result" where
  "source_link_admission_available spatial net ls l incs =
     (if \<not> spatial then Inr True
      else bindE (storage_of ls ''spatial source admission lacks storage capacity'') (\<lambda>storage.
        case link_index net l of
          None \<Rightarrow> Inl (RuntimeError ''spatial source admission references unknown link'')
        | Some i \<Rightarrow>
            let waiting = (case incs l of None \<Rightarrow> 0 | Some k \<Rightarrow> k);
                projected = r64 (r64 (queue_vehicles ls ! i + of_int waiting) + 1) in
            Inr (projected \<le> r64 (storage ! i + micro64_slack))))"

text \<open>\<^verbatim>\<open>_travel_time_cost_for_queue\<close>: the base times, broadcast, plus the waiting time.\<close>

definition queue_base_times :: "link_state \<Rightarrow> rat list result" where
  "queue_base_times ls = (case link_metadata ls ''free_flow_travel_time_cost'' of
       None \<Rightarrow> Inr (travel_time_cost ls)
     | Some raw \<Rightarrow> (case as_array32 raw of
          Inl x \<Rightarrow> if isfinite x then Inr (replicate (link_count ls) (finite_part x))
                   else Inl (OutOfModel ''free_flow_travel_time_cost'')
        | Inr xs \<Rightarrow>
            if \<not> list_all isfinite xs then Inl (OutOfModel ''free_flow_travel_time_cost'')
            else if length xs = link_count ls then Inr (map finite_part xs)
            else if length xs = 1 then Inr (replicate (link_count ls) (finite_part (hd xs)))
            else Inl (ValueError ''operands could not be broadcast together'')))"

definition travel_time_cost_for_queue :: "link_state \<Rightarrow> rat list \<Rightarrow> rat list result" where
  "travel_time_cost_for_queue ls q =
     bindE (queue_base_times ls) (\<lambda>base.
     Inr (map2 (\<lambda>b (x, c). r32 (max b milli32 + r32 (max x 0 / max c milli32)))
       base (zip q (effective_capacity_vehicles ls))))"

text \<open>The increments of the queues, in the order of the link ids.\<close>

definition increment_queue :: "road_network \<Rightarrow> int \<times> int \<Rightarrow> rat list \<Rightarrow> rat list result" where
  "increment_queue net lc q = (case link_index net (fst lc) of
       None \<Rightarrow> Inl (ValueError ''allocated route source link is missing from road_csr'')
     | Some i \<Rightarrow> Inr (q[i := r32 (q ! i + r32 (of_int (max 0 (snd lc))))]))"

definition apply_source_queue_increments :: "road_network \<Rightarrow> link_state \<Rightarrow> (int \<rightharpoonup> int) \<Rightarrow> link_state result" where
  "apply_source_queue_increments net ls incs =
     (if incs = Map.empty then Inr ls
      else bindE (foldE (increment_queue net) (map (\<lambda>l. (l, the (incs l))) (sorted_list_of_set (dom incs)))
          (queue_vehicles ls)) (\<lambda>q.
        bindE (travel_time_cost_for_queue ls q) (\<lambda>times.
        link_from_internal_arrays q (inflow_vehicles ls) (outflow_vehicles ls) times
          (capacity_veh_per_tick ls) (incident_capacity_multiplier ls) (capacity_violation_flags ls)
          (link_metadata ls))))"

section \<open>Admission\<close>

record route_selection =
  selected_path :: "int list"
  selected_memory :: memory_dict

type_synonym route_choice = "int \<times> int \<Rightarrow> route_selection option"

record admission_state =
  ad_pool :: runtime_pool
  ad_memory :: "int \<rightharpoonup> memo plugin_entry"
  ad_allocated :: "int set"
  ad_failed :: "int set"
  ad_reasons :: "int \<rightharpoonup> string"
  ad_slots :: "int set"
  ad_increments :: "int \<rightharpoonup> int"
  ad_failed_count :: nat
  ad_spillback_count :: nat
  ad_allocated_count :: nat

definition activated_trip_requests :: "trip_request list \<Rightarrow> trip_request list" where
  "activated_trip_requests ts = sort_key trip_request_id (filter (\<lambda>t. trip_status t = Activated) ts)"

definition trip_od_nodes :: "(int \<rightharpoonup> poi) \<Rightarrow> trip_request \<Rightarrow> ((int \<times> int) \<times> int \<times> int) option" where
  "trip_od_nodes pois t = (case (pois (trip_origin t), pois (trip_dest t)) of
       (Some a, Some b) \<Rightarrow> Some ((trip_origin t, trip_dest t), poi_node a, poi_node b)
     | _ \<Rightarrow> None)"

definition agent_memory :: "trip_request \<Rightarrow> int \<Rightarrow> route_selection \<Rightarrow> memory_dict" where
  "agent_memory t tick sel = [''route_path'' \<mapsto> MemPath (selected_path sel), ''origin_poi_id'' \<mapsto> MemInt (trip_origin t),
     ''dest_poi_id'' \<mapsto> MemInt (trip_dest t), ''trip_request_id'' \<mapsto> MemInt (trip_request_id t),
     ''runtime_admitted_tick'' \<mapsto> MemInt tick] ++ selected_memory sel"

text \<open>The body of the loop after a route was selected.\<close>

definition admit_selected :: "bool \<Rightarrow> road_network \<Rightarrow> turn_lookup \<Rightarrow> link_state \<Rightarrow> int \<Rightarrow> trip_request \<Rightarrow> int \<Rightarrow>
    route_selection \<Rightarrow> admission_state \<Rightarrow> admission_state result" where
  "admit_selected spatial net lookup ls tick t dest sel st =
     (let path = selected_path sel in
      bindE (validate_route_path_authority net lookup path dest) (\<lambda>_.
      bindE (source_link_admission_available spatial net ls (hd path) (ad_increments st)) (\<lambda>room.
      if \<not> room then Inr (st\<lparr>ad_spillback_count := ad_spillback_count st + 1\<rparr>)
      else bindE (spawn_agent_slot (trip_citizen t) (trip_request_id t) (hd path) dest 0 (Fin 0) 0 0) (\<lambda>payload.
      bindE (allocate_active_agent_slot (ad_pool st) payload) (\<lambda>(p, i).
      Inr (st\<lparr>ad_pool := p, ad_memory := (ad_memory st)(i \<mapsto> DictEntry (agent_memory t tick sel)),
        ad_allocated := insert (trip_request_id t) (ad_allocated st), ad_slots := insert i (ad_slots st),
        ad_increments := (ad_increments st)(hd path \<mapsto>
          (case ad_increments st (hd path) of None \<Rightarrow> 0 | Some k \<Rightarrow> k) + 1),
        ad_allocated_count := ad_allocated_count st + 1\<rparr>))))))"

fun admit_trips :: "bool \<Rightarrow> road_network \<Rightarrow> turn_lookup \<Rightarrow> link_state \<Rightarrow> int \<Rightarrow> (int \<rightharpoonup> poi) \<Rightarrow> route_choice \<Rightarrow>
    int set \<Rightarrow> trip_request list \<Rightarrow> admission_state \<Rightarrow> admission_state result" where
  "admit_trips spatial net lookup ls tick pois pick completed [] st = Inr st"
| "admit_trips spatial net lookup ls tick pois pick completed (t # ts) st =
     (let k = trip_request_id t; continue = (\<lambda>st. admit_trips spatial net lookup ls tick pois pick completed ts st) in
      if k \<in> ad_allocated st \<or> k \<in> completed \<or> k \<in> ad_failed st then continue st
      else if free_slot_count (ad_pool st) \<le> 0 then Inr st
      else case trip_od_nodes pois t of
          None \<Rightarrow> continue (st\<lparr>ad_failed := insert k (ad_failed st),
              ad_reasons := (ad_reasons st)(k \<mapsto> ''no_route_candidate''), ad_failed_count := ad_failed_count st + 1\<rparr>)
        | Some (od, _, dest) \<Rightarrow> (case pick od of
            None \<Rightarrow> continue (st\<lparr>ad_failed := insert k (ad_failed st),
              ad_reasons := (ad_reasons st)(k \<mapsto> ''no_route_candidate''), ad_failed_count := ad_failed_count st + 1\<rparr>)
          | Some sel \<Rightarrow> bindE (admit_selected spatial net lookup ls tick t dest sel st) continue))"

text \<open>The allocation phase: the loop, the replaced memory and the queue increments.\<close>

definition start_admission :: "runtime_pool \<Rightarrow> demand_ids \<Rightarrow> (int \<rightharpoonup> string) \<Rightarrow> admission_state" where
  "start_admission p ids reasons = \<lparr>ad_pool = p, ad_memory = plugin_memory p, ad_allocated = allocated_trips ids,
     ad_failed = failed_trips ids, ad_reasons = reasons, ad_slots = {}, ad_increments = Map.empty,
     ad_failed_count = 0, ad_spillback_count = 0, ad_allocated_count = 0\<rparr>"

definition replace_pool_plugin_memory :: "runtime_pool \<Rightarrow> (int \<rightharpoonup> memo plugin_entry) \<Rightarrow> runtime_pool result" where
  "replace_pool_plugin_memory p mem = pool_from_internal_arrays (p\<lparr>plugin_memory := mem\<rparr>)"

definition allocate_activated_trips :: "bool \<Rightarrow> road_network \<Rightarrow> link_state \<Rightarrow> node_state \<Rightarrow> int \<Rightarrow> (int \<rightharpoonup> poi) \<Rightarrow>
    route_choice \<Rightarrow> trip_request list \<Rightarrow> demand_ids \<Rightarrow> (int \<rightharpoonup> string) \<Rightarrow> runtime_pool \<Rightarrow>
    (runtime_pool \<times> admission_state) result" where
  "allocate_activated_trips spatial net ls ns tick pois pick trips ids reasons p =
     bindE (runtime_turn_index_lookup net ns) (\<lambda>lookup.
     bindE (admit_trips spatial net lookup ls tick pois pick (completed_trips ids) (activated_trip_requests trips)
        (start_admission p ids reasons)) (\<lambda>st.
     bindE (if ad_slots st = {} then Inr (ad_pool st) else replace_pool_plugin_memory (ad_pool st) (ad_memory st)) (\<lambda>q.
     Inr (q, st))))"

text \<open>\<^verbatim>\<open>_demand_lifecycle_counts\<close>: queued, activated and pending requests.\<close>

definition demand_lifecycle_counts :: "trip_request list \<Rightarrow> demand_ids \<Rightarrow> nat \<times> nat \<times> nat" where
  "demand_lifecycle_counts trips ids =
     (let open_trips = filter (\<lambda>t. trip_request_id t \<notin> allocated_trips ids \<and> trip_request_id t \<notin> completed_trips ids \<and>
            trip_request_id t \<notin> failed_trips ids) trips;
          queued = length (filter (\<lambda>t. trip_status t = Queued) open_trips);
          active = length (filter (\<lambda>t. trip_status t = Activated) open_trips)
      in (queued, active, queued + active))"

section \<open>Admitting one agent\<close>

text \<open>A selection that does not overwrite the keys the runtime reads.\<close>

definition selection_ok :: "route_selection \<Rightarrow> bool" where
  "selection_ok sel \<longleftrightarrow> selected_memory sel ''route_path'' = None \<and> selected_memory sel ''trip_request_id'' = None"

lemma agent_memory_keys:
  assumes "selection_ok sel"
  shows "agent_memory t tick sel ''route_path'' = Some (MemPath (selected_path sel))"
    "agent_memory t tick sel ''trip_request_id'' = Some (MemInt (trip_request_id t))"
  using assms by (simp_all add: agent_memory_def selection_ok_def map_add_def)

lemma occupancy_occupied:
  assumes "pool_ok p" "0 < free_slot_count p"
  shows "occupancy net (occupied p (top_slot p) s) j =
    occupancy net p j + (if link_index net (slot_link s) = Some j then 1 else 0)"
proof -
  let ?k = "top_slot p"
  note top = free_split[OF assms]
  have len: "length (alive_mask p) = nat (capacity p)" "length (current_link_id p) = nat (capacity p)"
    using assms(1) by (simp_all add: pool_ok_def pool_shaped_def)
  let ?f = "\<lambda>i. if alive_mask p ! i \<and> link_index net (current_link_id p ! i) = Some j then 1 else (0::int)"
  let ?g = "\<lambda>i. if (alive_mask p)[?k := True] ! i \<and>
      link_index net ((current_link_id p)[?k := slot_link s] ! i) = Some j then 1 else (0::int)"
  have "(\<Sum>i<length (alive_mask p). ?g i) = (\<Sum>i<length (alive_mask p). ?f i) - ?f ?k + ?g ?k"
    by (rule sum_change_one) (use top(2) len in \<open>simp_all add: nth_update_if\<close>)
  then show ?thesis using top(2,3) len
    by (simp add: occupancy_def occupied_def fill_slot_def)
qed

lemma occupied_same: "j \<noteq> k \<Longrightarrow> same_slot p ((occupied p k s)\<lparr>plugin_memory := (plugin_memory p)(int k := e)\<rparr>) j"
  by (simp add: same_slot_def occupied_def fill_slot_def)

text \<open>The vehicles the increments add to a link.\<close>

definition increment_at :: "road_network \<Rightarrow> (int \<rightharpoonup> int) \<Rightarrow> nat \<Rightarrow> int" where
  "increment_at net incs s = (case incs (link_id (net_links net ! s)) of None \<Rightarrow> 0 | Some k \<Rightarrow> k)"

lemma link_index_iff:
  assumes "wf_network net"
  shows "link_index net l = Some s \<longleftrightarrow> s < net_link_count net \<and> link_id (net_links net ! s) = l"
proof -
  have d: "link_index net = index_of (map link_id (net_links net))" "distinct (map link_id (net_links net))"
    using assms by (simp_all add: wf_network_def Let_def)
  show ?thesis
    using index_of_distinct[OF d(2), of l s] by (auto simp: d(1) net_link_count_def)
qed

lemma increment_at_bump:
  assumes "wf_network net" "link_index net l = Some i" "s < net_link_count net"
  shows "increment_at net (incs(l \<mapsto> (case incs l of None \<Rightarrow> 0 | Some k \<Rightarrow> k) + 1)) s =
    increment_at net incs s + (if i = s then 1 else 0)"
proof (cases "i = s")
  case True
  then show ?thesis using assms link_index_iff[OF assms(1), of l i] by (simp add: increment_at_def)
next
  case False
  then have "link_id (net_links net ! s) \<noteq> l"
    using assms link_index_iff[OF assms(1), of l s] by auto
  then show ?thesis using False by (simp add: increment_at_def)
qed

text \<open>What the loop keeps, seen on the pool with the memory it will be given.\<close>

definition admission_pool :: "admission_state \<Rightarrow> runtime_pool" where
  "admission_pool st = (ad_pool st)\<lparr>plugin_memory := ad_memory st\<rparr>"

definition admission_inv :: "road_network \<Rightarrow> turn_lookup \<Rightarrow> runtime_pool \<Rightarrow> admission_state \<Rightarrow> bool" where
  "admission_inv net lookup p0 st \<longleftrightarrow> (let q = admission_pool st in
     pool_ok q \<and> capacity q = capacity p0 \<and> agents_routed net lookup q {} \<and>
     (\<forall>s < net_link_count net. occupancy net q s = occupancy net p0 s + increment_at net (ad_increments st) s) \<and>
     (\<forall>l k. ad_increments st l = Some k \<longrightarrow> 0 < k \<and> link_index net l \<noteq> None) \<and> finite (dom (ad_increments st)) \<and>
     (\<forall>i \<in> ad_slots st. 0 \<le> i \<and> i < capacity p0 \<and> alive_mask q ! nat i \<and> \<not> alive_mask p0 ! nat i) \<and>
     (\<forall>k < nat (capacity p0). alive_mask p0 ! k \<longrightarrow> same_slot p0 q k) \<and>
     alive_count q = alive_count p0 + int (ad_allocated_count st) \<and> (ad_slots st = {} \<longrightarrow> ad_pool st = p0 \<and> q = p0))"

lemma occupied_memory:
  "(occupied p k s)\<lparr>plugin_memory := m\<rparr> = (occupied (p\<lparr>plugin_memory := m0\<rparr>) k s)\<lparr>plugin_memory := m\<rparr>"
  by (simp add: occupied_def fill_slot_def)

lemma admission_pool_simps [simp]:
  "free_slot_count (admission_pool st) = free_slot_count (ad_pool st)"
  "plugin_memory (admission_pool st) = ad_memory st" "top_slot (admission_pool st) = top_slot (ad_pool st)"
  by (simp_all add: admission_pool_def top_slot_def)

lemma admitted_slot_routed:
  assumes "pool_ok p" "0 < free_slot_count p" "selection_ok sel"
    "validate_route_path_authority net lookup (selected_path sel) dest = Inr ()"
    "slot_link s = hd (selected_path sel)" "slot_route_ptr s = 0" "slot_dest s = dest" "slot_trip s = trip_request_id t"
    "e = DictEntry (agent_memory t tick sel)"
  shows "slot_routed net lookup ((occupied p (top_slot p) s)\<lparr>plugin_memory := (plugin_memory p)(int (top_slot p) := Some e)\<rparr>)
    (top_slot p)"
proof -
  let ?k = "top_slot p"
  let ?q = "(occupied p ?k s)\<lparr>plugin_memory := (plugin_memory p)(int ?k := Some e)\<rparr>"
  have k: "?k < nat (capacity p)" using free_split[OF assms(1,2)] by simp
  have len: "length (trip_id p) = nat (capacity p)" "length (current_link_id p) = nat (capacity p)"
    "length (remaining_route_ptr p) = nat (capacity p)" "length (dest_node_id p) = nat (capacity p)"
    using assms(1) by (simp_all add: pool_ok_def pool_shaped_def)
  have f: "trip_id ?q ! ?k = trip_request_id t" "current_link_id ?q ! ?k = hd (selected_path sel)"
    "remaining_route_ptr ?q ! ?k = 0" "dest_node_id ?q ! ?k = dest"
    using k len assms(5-8) by (simp_all add: occupied_def fill_slot_def)
  have "read_slot_route ?q ?k = Inr (selected_path sel)"
    using f(1) agent_memory_keys[OF assms(3), of t tick] assms(9)
    by (simp add: read_slot_route_def slot_memory_of_def route_path_of_def validate_slot_trip_identity_def check_eval)
  moreover have "selected_path sel \<noteq> []" using assms(4) by (simp add: route_authority_iff)
  ultimately show ?thesis using assms(4) f by (simp add: slot_routed_def on_route_def hd_conv_nth)
qed

lemma admission_pool_ok: "pool_ok (admission_pool st) \<longleftrightarrow> pool_ok (ad_pool st)"
proof -
  have "ad_pool st = (admission_pool st)\<lparr>plugin_memory := plugin_memory (ad_pool st)\<rparr>"
    by (simp add: admission_pool_def)
  then show ?thesis using pool_ok_memory[of "admission_pool st"] pool_ok_memory[of "ad_pool st"]
    by (metis admission_pool_def)
qed

lemma admission_step:
  assumes net: "wf_network net" and inv: "admission_inv net lookup p0 st" and sel: "selection_ok sel"
    and free: "0 < free_slot_count (ad_pool st)"
    and legal: "validate_route_path_authority net lookup (selected_path sel) dest = Inr ()"
    and payload: "payload_ok s" "slot_link s = hd (selected_path sel)" "slot_route_ptr s = 0" "slot_dest s = dest"
      "slot_trip s = trip_request_id t"
    and k: "k = top_slot (ad_pool st)" and l: "l = hd (selected_path sel)"
  shows "admission_inv net lookup p0 (st\<lparr>ad_pool := occupied (ad_pool st) k s,
    ad_memory := (ad_memory st)(int k \<mapsto> DictEntry (agent_memory t tick sel)), ad_allocated := al,
    ad_slots := insert (int k) (ad_slots st),
    ad_increments := (ad_increments st)(l \<mapsto> (case ad_increments st l of None \<Rightarrow> 0 | Some j \<Rightarrow> j) + 1),
    ad_allocated_count := ad_allocated_count st + 1\<rparr>)" (is "admission_inv net lookup p0 ?st")
proof -
  define st' where "st' = ?st"
  have fields: "ad_increments st' = (ad_increments st)(l \<mapsto> (case ad_increments st l of None \<Rightarrow> 0 | Some j \<Rightarrow> j) + 1)"
    "ad_slots st' = insert (int k) (ad_slots st)" "ad_allocated_count st' = ad_allocated_count st + 1"
    by (simp_all add: st'_def)
  let ?q = "admission_pool st" and ?q' = "admission_pool st'"
  have q: "pool_ok ?q" "capacity ?q = capacity p0" "agents_routed net lookup ?q {}" "0 < free_slot_count ?q"
    using inv free by (simp_all add: admission_inv_def Let_def)
  have old: "\<forall>s < net_link_count net. occupancy net ?q s = occupancy net p0 s + increment_at net (ad_increments st) s"
    "\<forall>l k. ad_increments st l = Some k \<longrightarrow> 0 < k \<and> link_index net l \<noteq> None" "finite (dom (ad_increments st))"
    "\<forall>i \<in> ad_slots st. 0 \<le> i \<and> i < capacity p0 \<and> alive_mask ?q ! nat i \<and> \<not> alive_mask p0 ! nat i"
    "\<forall>k < nat (capacity p0). alive_mask p0 ! k \<longrightarrow> same_slot p0 ?q k"
    "alive_count ?q = alive_count p0 + int (ad_allocated_count st)"
    using inv unfolding admission_inv_def Let_def by blast+
  have k': "k = top_slot ?q" by (simp add: k)
  have eq: "?q' = (occupied ?q k s)\<lparr>plugin_memory := (plugin_memory ?q)(int k := Some (DictEntry (agent_memory t tick sel)))\<rparr>"
    by (simp add: admission_pool_def st'_def occupied_def fill_slot_def)
  note top = free_split[OF q(1,4), folded k']
  have len: "length (alive_mask ?q) = nat (capacity p0)" using q(1,2) by (simp add: pool_ok_def pool_shaped_def)
  have ok: "pool_ok ?q'"
    unfolding eq by (rule pool_ok_memory) (use occupied_ok[OF q(1) payload(1) q(4)] in \<open>simp only: k'\<close>)
  have alive: "alive_mask ?q' = (alive_mask ?q)[k := True]" unfolding eq by (simp add: occupied_def)
  have same: "same_slot ?q ?q' j" if "j \<noteq> k" for j unfolding eq by (rule occupied_same[OF that])
  have routed: "agents_routed net lookup ?q' {}"
  proof (rule agents_routed_update[OF q(3), of _ k])
    show "slot_routed net lookup ?q' k"
      unfolding eq using admitted_slot_routed[OF q(1,4) sel legal payload(2-5) refl, of tick] by (simp only: k')
  qed (simp_all add: same alive)
  obtain i where i: "link_index net l = Some i"
    using legal hd_in_set[of "selected_path sel"] unfolding l by (fastforce simp: route_authority_iff)
  have occ: "occupancy net ?q' j = occupancy net ?q j + (if i = j then 1 else 0)" for j
  proof -
    have "occupancy net ?q' j = occupancy net (occupied ?q k s) j" unfolding eq by (simp add: occupancy_def)
    then show ?thesis using occupancy_occupied[OF q(1,4), of net s j] payload(2) i l by (simp add: k')
  qed
  have p0: "\<not> alive_mask p0 ! k" if "k < nat (capacity p0)"
    using old(5) that top(3) by (auto simp: same_slot_def)
  have kb: "k < nat (capacity p0)" using top(2) q(2) by simp
  have slots: "\<forall>i \<in> insert (int k) (ad_slots st). 0 \<le> i \<and> i < capacity p0 \<and> alive_mask ?q' ! nat i \<and> \<not> alive_mask p0 ! nat i"
    using old(4) kb p0 len by (auto simp: alive nth_update_if)
  have keep: "\<forall>j < nat (capacity p0). alive_mask p0 ! j \<longrightarrow> same_slot p0 ?q' j"
  proof (intro allI impI)
    fix j assume j: "j < nat (capacity p0)" "alive_mask p0 ! j"
    then have "j \<noteq> k" using p0 by auto
    then show "same_slot p0 ?q' j" using same_slot_trans[OF _ same] old(5) j by blast
  qed
  have incs: "\<forall>s < net_link_count net. occupancy net ?q' s = occupancy net p0 s + increment_at net (ad_increments st') s"
    using old(1) occ increment_at_bump[OF net i] by (simp add: fields)
  have pos: "\<forall>l k. ad_increments st' l = Some k \<longrightarrow> 0 < k \<and> link_index net l \<noteq> None"
    using old(2) i by (auto simp: fields split: option.split) (blast intro: less_imp_le)
  have cnt: "alive_count ?q' = alive_count p0 + int (ad_allocated_count st')" "capacity ?q' = capacity p0"
    using old(6) q(2) unfolding eq by (simp_all add: occupied_def fields)
  show ?thesis
    unfolding st'_def[symmetric] admission_inv_def Let_def
    by (intro conjI ok routed incs pos keep cnt) (use slots old(3) in \<open>simp_all add: fields\<close>)
qed

section \<open>The admission loop\<close>

text \<open>The sets of trip ids: what is newly allocated or failed was neither completed nor the other.\<close>

definition admission_books :: "int set \<Rightarrow> int set \<Rightarrow> int set \<Rightarrow> admission_state \<Rightarrow> bool" where
  "admission_books al done fl st \<longleftrightarrow> al \<subseteq> ad_allocated st \<and> fl \<subseteq> ad_failed st \<and>
     finite (ad_allocated st - al) \<and> card (ad_allocated st - al) = ad_allocated_count st \<and>
     (ad_allocated st - al) \<inter> (done \<union> ad_failed st) = {} \<and> (ad_failed st - fl) \<inter> (done \<union> ad_allocated st) = {}"

lemma books_allocate:
  assumes "admission_books al done fl st" "k \<notin> ad_allocated st" "k \<notin> done" "k \<notin> ad_failed st"
    "ad_allocated st' = insert k (ad_allocated st)" "ad_failed st' = ad_failed st"
    "ad_allocated_count st' = ad_allocated_count st + 1"
  shows "admission_books al done fl st'"
proof -
  have "insert k (ad_allocated st) - al = insert k (ad_allocated st - al)" "k \<notin> ad_allocated st - al"
    using assms(1,2) by (auto simp: admission_books_def)
  then show ?thesis using assms by (auto simp: admission_books_def)
qed

lemma books_fail:
  assumes "admission_books al done fl st" "k \<notin> ad_allocated st" "k \<notin> done" "k \<notin> ad_failed st"
    "ad_allocated st' = ad_allocated st" "ad_failed st' = insert k (ad_failed st)"
    "ad_allocated_count st' = ad_allocated_count st"
  shows "admission_books al done fl st'"
  using assms by (auto simp: admission_books_def)

lemma admit_selected_ok:
  assumes "wf_network net" "admission_inv net lookup p0 st" "selection_ok sel" "0 < free_slot_count (ad_pool st)"
    "admit_selected spatial net lookup ls tick t dest sel st = Inr st'"
    "admission_books al done fl st" "trip_request_id t \<notin> ad_allocated st \<union> done \<union> ad_failed st"
  shows "admission_inv net lookup p0 st' \<and> admission_books al done fl st'"
proof -
  obtain room where legal: "validate_route_path_authority net lookup (selected_path sel) dest = Inr ()"
    and room: "source_link_admission_available spatial net ls (hd (selected_path sel)) (ad_increments st) = Inr room"
    using assms(5) by (auto simp: admit_selected_def check_simps Let_def)
  show ?thesis
  proof (cases room)
    case False
    then have "st' = st\<lparr>ad_spillback_count := ad_spillback_count st + 1\<rparr>"
      using assms(5) legal room by (simp add: admit_selected_def Let_def)
    then show ?thesis using assms(2,6)
      by (simp add: admission_inv_def admission_pool_def admission_books_def)
  next
    case True
    let ?s = "\<lparr>slot_id = - 1, slot_alive = True, slot_citizen = trip_citizen t, slot_trip = trip_request_id t,
      slot_link = hd (selected_path sel), slot_progress = 0, slot_route_ptr = 0, slot_dest = dest, slot_profile = 0,
      slot_cooldown = 0, slot_memory = (Map.empty :: memory_dict)\<rparr>"
    have payload: "payload_ok ?s" by (simp add: payload_ok_def)
    have spawn: "spawn_agent_slot (trip_citizen t) (trip_request_id t) (hd (selected_path sel)) dest 0 (Fin 0) 0 0 = Inr ?s"
      by (simp add: spawn_agent_slot_def make_agent_slot_def check_eval)
    have ok: "pool_ok (ad_pool st)" using assms(2) by (simp add: admission_inv_def Let_def admission_pool_ok)
    obtain p i where alloc: "allocate_active_agent_slot (ad_pool st) ?s = Inr (p, i)"
      using assms(5) legal room True spawn by (auto simp: admit_selected_def Let_def check_simps)
    have pi: "i = int (top_slot (ad_pool st))" "p = occupied (ad_pool st) (top_slot (ad_pool st)) ?s"
      using alloc allocate_iff[OF ok payload] by simp_all
    have st': "st' = st\<lparr>ad_pool := p, ad_memory := (ad_memory st)(i \<mapsto> DictEntry (agent_memory t tick sel)),
        ad_allocated := insert (trip_request_id t) (ad_allocated st), ad_slots := insert i (ad_slots st),
        ad_increments := (ad_increments st)(hd (selected_path sel) \<mapsto>
          (case ad_increments st (hd (selected_path sel)) of None \<Rightarrow> 0 | Some k \<Rightarrow> k) + 1),
        ad_allocated_count := ad_allocated_count st + 1\<rparr>"
      using assms(5) legal room True spawn alloc by (simp add: admit_selected_def Let_def)
    have "admission_inv net lookup p0 st'"
      unfolding st' pi by (rule admission_step[OF assms(1-4) legal payload _ _ _ _ refl refl]) simp_all
    moreover have "admission_books al done fl st'"
      by (rule books_allocate[OF assms(6), of "trip_request_id t"]) (use assms(7) in \<open>simp_all add: st'\<close>)
    ultimately show ?thesis ..
  qed
qed

lemma admit_trips_ok:
  assumes "wf_network net" "\<forall>od sel. pick od = Some sel \<longrightarrow> selection_ok sel"
    "admit_trips spatial net lookup ls tick pois pick done ts st = Inr st'"
    "admission_inv net lookup p0 st" "admission_books al done fl st"
  shows "admission_inv net lookup p0 st' \<and> admission_books al done fl st'"
  using assms(3-5)
proof (induction ts arbitrary: st)
  case (Cons t ts)
  let ?k = "trip_request_id t"
  let ?failed = "st\<lparr>ad_failed := insert ?k (ad_failed st), ad_reasons := (ad_reasons st)(?k \<mapsto> ''no_route_candidate''),
      ad_failed_count := ad_failed_count st + 1\<rparr>"
  show ?case
  proof (cases "?k \<in> ad_allocated st \<or> ?k \<in> done \<or> ?k \<in> ad_failed st")
    case True
    then show ?thesis using Cons.IH[of st] Cons.prems by (simp add: Let_def)
  next
    case fresh: False
    have fail: "admission_inv net lookup p0 ?failed" "admission_books al done fl ?failed"
      using Cons.prems(2,3) fresh books_fail[OF Cons.prems(3), of ?k ?failed]
      by (simp_all add: admission_inv_def admission_pool_def)
    show ?thesis
    proof (cases "free_slot_count (ad_pool st) \<le> 0")
      case True
      then show ?thesis using Cons.prems fresh by (simp add: Let_def)
    next
      case free: False
      show ?thesis
      proof (cases "trip_od_nodes pois t")
        case None
        then show ?thesis using Cons.IH[of ?failed, OF _ fail] Cons.prems fresh free by (simp add: Let_def)
      next
        case (Some odn)
        obtain od og dest where odn: "odn = (od, og, dest)" by (cases odn) auto
        show ?thesis
        proof (cases "pick od")
          case None
          then show ?thesis using Cons.IH[of ?failed, OF _ fail] Cons.prems fresh free Some odn by (simp add: Let_def)
        next
          case sel: (Some sel)
          then obtain st1 where st1: "admit_selected spatial net lookup ls tick t dest sel st = Inr st1"
            "admit_trips spatial net lookup ls tick pois pick done ts st1 = Inr st'"
            using Cons.prems(1) fresh free Some odn by (auto simp: Let_def check_simps)
          have "admission_inv net lookup p0 st1 \<and> admission_books al done fl st1"
          proof (rule admit_selected_ok[OF assms(1) Cons.prems(2) _ _ st1(1) Cons.prems(3)])
            show "selection_ok sel" using assms(2) sel by blast
          qed (use free fresh in auto)
          then show ?thesis using Cons.IH[OF st1(2)] by blast
        qed
      qed
    qed
  qed
qed simp

section \<open>The queue increments are exact\<close>

lemma increment_loop:
  assumes "wf_network net" "distinct ls" "\<forall>l \<in> set ls. link_index net l \<noteq> None \<and> 0 \<le> f l"
    "length N = net_link_count net"
    "\<forall>s < net_link_count net. 0 \<le> N ! s \<and>
       N ! s + (if link_id (net_links net ! s) \<in> set ls then f (link_id (net_links net ! s)) else 0) \<le> 2 ^ 24"
  shows "foldE (increment_queue net) (map (\<lambda>l. (l, f l)) ls) (map of_int N) =
    Inr (map of_int (map (\<lambda>s. N ! s + (if link_id (net_links net ! s) \<in> set ls then f (link_id (net_links net ! s)) else 0))
      [0..<net_link_count net]))"
  using assms(2-5)
proof (induction ls arbitrary: N)
  case Nil
  then have "map (\<lambda>s. N ! s) [0..<net_link_count net] = N" by (metis map_nth)
  then show ?case by simp
next
  case (Cons l ls)
  obtain i where i: "link_index net l = Some i" using Cons.prems(2) by auto
  have il: "i < length N" "link_id (net_links net ! i) = l"
    using i link_index_iff[OF assms(1)] Cons.prems(3) by auto
  have fl: "0 \<le> f l" "0 \<le> N ! i" "N ! i + f l \<le> 2 ^ 24"
    using Cons.prems(2,4) il Cons.prems(3) by auto
  have other: "link_id (net_links net ! s) = l \<longleftrightarrow> s = i" if "s < net_link_count net" for s
    using that i link_index_iff[OF assms(1), of l s] by auto
  let ?N = "N[i := N ! i + f l]"
  have "r32 (of_int (f l)) = of_int (f l)" using fl by (intro r32_of_int) simp
  moreover have "r32 (of_int (N ! i) + of_int (f l)) = of_int (N ! i + f l)"
    by (rule f32.rd_add_ints) (use fl in simp_all)
  ultimately have step: "increment_queue net (l, f l) (map of_int N) = Inr (map of_int ?N)"
    using i il(1) fl(1) by (simp add: increment_queue_def max_def map_update)
  have nl: "l \<notin> set ls" using Cons.prems(1) by simp
  have ih: "foldE (increment_queue net) (map (\<lambda>l. (l, f l)) ls) (map of_int ?N) =
    Inr (map of_int (map (\<lambda>s. ?N ! s + (if link_id (net_links net ! s) \<in> set ls then f (link_id (net_links net ! s)) else 0))
      [0..<net_link_count net]))"
    by (rule Cons.IH) (use Cons.prems other nl fl in \<open>auto simp: nth_update_if\<close>)
  have "map (\<lambda>s. ?N ! s + (if link_id (net_links net ! s) \<in> set ls then f (link_id (net_links net ! s)) else 0))
      [0..<net_link_count net] =
    map (\<lambda>s. N ! s + (if link_id (net_links net ! s) \<in> set (l # ls) then f (link_id (net_links net ! s)) else 0))
      [0..<net_link_count net]"
    using other nl il(1) by (auto simp: nth_update_if)
  then show ?case using step ih by (simp only: list.map foldE.simps bindE_simps)
qed

lemma queue_base_of_read: "read_link_base_travel_time ls = Inr b \<Longrightarrow> queue_base_times ls = Inr b"
  by (auto simp: read_link_base_travel_time_def queue_base_times_def split: option.splits sum.splits if_splits)

lemma queue_times_ok:
  assumes "read_link_base_travel_time ls = Inr b" "wf_link ls" "length q = link_count ls"
  obtains times where "travel_time_cost_for_queue ls q = Inr times" "length times = link_count ls"
    "\<forall>x \<in> set times. is_f32 x \<and> 0 < x"
proof -
  let ?t = "map2 (\<lambda>b (x, c). r32 (max b milli32 + r32 (max x 0 / max c milli32))) b (zip q (effective_capacity_vehicles ls))"
  have len: "length b = link_count ls" "length (effective_capacity_vehicles ls) = link_count ls"
    using read_lengths(3)[OF assms(2,1)] assms(2) by (simp_all add: wf_link_def Let_def effective_capacity_vehicles_def)
  have pos: "0 < r32 (max x milli32 + r32 (max y 0 / max c milli32))" for x y c
  proof -
    have "0 < max c milli32" using milli32_pos by (simp add: less_max_iff_disj)
    then have "0 \<le> r32 (max y 0 / max c milli32)" by (intro f32.rd_nonneg divide_nonneg_pos) simp_all
    then have "milli32 \<le> max x milli32 + r32 (max y 0 / max c milli32)" by linarith
    then have "milli32 \<le> r32 (max x milli32 + r32 (max y 0 / max c milli32))"
      by (rule f32.rd_ge_float) (use milli32_f32 in simp)
    then show ?thesis using milli32_pos by linarith
  qed
  show ?thesis
  proof (rule that)
    show "travel_time_cost_for_queue ls q = Inr ?t"
      by (simp add: travel_time_cost_for_queue_def queue_base_of_read[OF assms(1)])
  qed (use len assms(3) pos in \<open>auto elim!: in_set_zipE\<close>)
qed

lemma wf_link_rounded:
  assumes "wf_link ls"
  shows "map r32 (inflow_vehicles ls) = inflow_vehicles ls" "map r32 (outflow_vehicles ls) = outflow_vehicles ls"
    "map r32 (capacity_veh_per_tick ls) = capacity_veh_per_tick ls"
    "map r32 (incident_capacity_multiplier ls) = incident_capacity_multiplier ls"
    "map r32 (queue_vehicles ls) = queue_vehicles ls" "map r32 (travel_time_cost ls) = travel_time_cost ls"
  using assms by (auto simp: wf_link_def intro!: map_r32_id)

lemma increments_exact:
  assumes "wf_network net" "tick_ready ls ns" "integral_queue ls N" "link_count ls = net_link_count net"
    "\<forall>l k. incs l = Some k \<longrightarrow> 0 < k \<and> link_index net l \<noteq> None" "finite (dom incs)"
  defines "N' \<equiv> map (\<lambda>s. N ! s + increment_at net incs s) [0..<net_link_count net]"
  assumes "sum_list N' < 2 ^ 23"
  obtains ls' where "apply_source_queue_increments net ls incs = Inr ls'" "integral_queue ls' N'"
    "tick_ready ls' ns" "link_count ls' = net_link_count net" "link_metadata ls' = link_metadata ls"
proof -
  have N: "queue_vehicles ls = map of_int N" "\<forall>n \<in> set N. 0 \<le> n" "length N = net_link_count net"
    using assms(3,4) by (auto simp: integral_queue_def link_count_def)
  have inc_nn: "0 \<le> increment_at net incs s" for s
    using assms(5) by (auto simp: increment_at_def split: option.split intro: less_imp_le)
  have N'nn: "\<forall>n \<in> set N'. 0 \<le> n" using N(2,3) inc_nn by (auto simp: N'_def)
  have small: "N' ! s \<le> 2 ^ 24" if "s < net_link_count net" for s
    using sum_list_members_le[OF N'nn, of "N' ! s"] that assms(8) by (simp add: N'_def)
  show ?thesis
  proof (cases "incs = Map.empty")
    case True
    then have "N' = N" using N(3) by (auto simp: N'_def increment_at_def intro!: nth_equalityI)
    then show ?thesis using that True assms(2-4) by (simp add: apply_source_queue_increments_def)
  next
    case False
    let ?ls = "sorted_list_of_set (dom incs)" and ?f = "\<lambda>l. the (incs l)"
    have at: "increment_at net incs s = (if link_id (net_links net ! s) \<in> set ?ls then ?f (link_id (net_links net ! s)) else 0)" for s
      using assms(6) by (auto simp: increment_at_def dom_def split: option.split)
    have "\<forall>l \<in> set ?ls. link_index net l \<noteq> None \<and> 0 \<le> ?f l"
      using assms(5,6) by (fastforce intro: less_imp_le)
    moreover have "\<forall>s < net_link_count net. 0 \<le> N ! s \<and>
        N ! s + (if link_id (net_links net ! s) \<in> set ?ls then ?f (link_id (net_links net ! s)) else 0) \<le> 2 ^ 24"
      using N(2,3) small unfolding at[symmetric] by (auto simp: N'_def)
    ultimately have q: "foldE (increment_queue net) (map (\<lambda>l. (l, ?f l)) ?ls) (queue_vehicles ls) = Inr (map of_int N')"
      unfolding N(1) N'_def at by (intro increment_loop[OF assms(1) distinct_sorted_list_of_set _ N(3)])
    obtain b where "read_link_base_travel_time ls = Inr b" using assms(2) by (auto simp: tick_ready_def plain_metadata_def)
    moreover have wf: "wf_link ls" using assms(2) by (simp add: tick_ready_def)
    moreover have lenN': "length N' = link_count ls" by (simp add: N'_def assms(4))
    ultimately obtain times where times: "travel_time_cost_for_queue ls (map of_int N') = Inr times"
      "length times = link_count ls" "\<forall>x \<in> set times. is_f32 x \<and> 0 < x"
      using queue_times_ok[of ls b "map of_int N'"] by auto
    let ?ls' = "ls\<lparr>queue_vehicles := map of_int N', travel_time_cost := times\<rparr>"
    have f32: "\<forall>x \<in> set (map rat_of_int N'). is_f32 x \<and> 0 \<le> x"
      using N'nn small lenN' assms(4) by (auto simp: in_set_conv_nth intro!: is_f32_of_int)
    have rounded: "map r32 (map rat_of_int N') = map of_int N'" "map r32 times = times"
      using f32 times(3) by (intro map_r32_id; simp)+
    have res: "apply_source_queue_increments net ls incs = Inr ?ls'"
      using False q times(1,2) wf lenN' rounded wf_link_rounded[OF wf]
      by (simp add: apply_source_queue_increments_def link_from_internal_arrays_def same_shape_def check_eval
          wf_link_def Let_def del: map_map)
    have n: "link_count ?ls' = link_count ls" by (simp add: link_count_def lenN'[unfolded link_count_def])
    have "wf_link ?ls'" using wf f32 times(2,3) n by (auto simp: wf_link_def Let_def)
    moreover have "plain_metadata ?ls' ns"
    proof -
      obtain b where "read_link_base_travel_time ls = Inr b" using assms(2) by (auto simp: tick_ready_def plain_metadata_def)
      then have "\<exists>b. read_link_base_travel_time ?ls' = Inr b"
        using n by (auto simp: read_link_base_travel_time_def split: option.splits sum.splits if_splits)
      then show ?thesis using assms(2) by (simp add: tick_ready_def plain_metadata_def)
    qed
    ultimately have "tick_ready ?ls' ns" using assms(2) n by (simp add: tick_ready_def turns_in_range_def)
    moreover have "integral_queue ?ls' N'" using N'nn assms(8) by (simp add: integral_queue_def)
    ultimately show ?thesis using that[OF res] n assms(4) by simp
  qed
qed

section \<open>The properties of admission\<close>

lemma start_admission_inv:
  assumes "pool_ok p" "agents_routed net lookup p {}"
  shows "admission_inv net lookup p (start_admission p ids reasons)"
    "admission_books (allocated_trips ids) done (failed_trips ids) (start_admission p ids reasons)"
proof -
  have "admission_pool (start_admission p ids reasons) = p"
    by (simp add: admission_pool_def start_admission_def)
  then show "admission_inv net lookup p (start_admission p ids reasons)"
    using assms by (simp add: admission_inv_def) (simp add: start_admission_def increment_at_def)
  show "admission_books (allocated_trips ids) done (failed_trips ids) (start_admission p ids reasons)"
    by (simp add: admission_books_def start_admission_def)
qed

lemma allocate_activated_ok:
  assumes "wf_network net" "\<forall>od sel. pick od = Some sel \<longrightarrow> selection_ok sel"
    "runtime_turn_index_lookup net ns = Inr lookup" "pool_ok p" "agents_routed net lookup p {}"
    "allocate_activated_trips spatial net ls ns tick pois pick trips ids reasons p = Inr (q, st)"
  shows "q = admission_pool st" "admission_inv net lookup p st"
    "admission_books (allocated_trips ids) (completed_trips ids) (failed_trips ids) st"
proof -
  obtain st' where st': "admit_trips spatial net lookup ls tick pois pick (completed_trips ids)
      (activated_trip_requests trips) (start_admission p ids reasons) = Inr st'"
    and q: "(if ad_slots st' = {} then Inr (ad_pool st') else replace_pool_plugin_memory (ad_pool st') (ad_memory st')) = Inr q"
    and st: "st = st'"
    using assms(3,6) by (auto simp: allocate_activated_trips_def check_simps)
  note ok = admit_trips_ok[OF assms(1,2) st' start_admission_inv[OF assms(4,5)]]
  then show inv: "admission_inv net lookup p st"
    "admission_books (allocated_trips ids) (completed_trips ids) (failed_trips ids) st"
    by (simp_all add: st)
  have pool: "pool_ok (admission_pool st)" using inv(1) by (simp add: admission_inv_def Let_def)
  show "q = admission_pool st"
  proof (cases "ad_slots st = {}")
    case True
    then have "ad_pool st = p" "admission_pool st = p" using inv(1) by (simp_all add: admission_inv_def Let_def)
    then show ?thesis using q st True by simp
  next
    case False
    then show ?thesis using q pool_internal_ok[OF pool] by (simp add: st replace_pool_plugin_memory_def admission_pool_def)
  qed
qed

lemma admission_total:
  assumes "wf_network net" "admission_inv net lookup p st" "lockstep net p ls"
    "agents_routed net lookup p {}" "pool_ok p" "capacity p < 2 ^ 23"
  defines "N' \<equiv> map (\<lambda>s. map (occupancy net p) [0..<net_link_count net] ! s + increment_at net (ad_increments st) s)
    [0..<net_link_count net]"
  shows "N' = map (occupancy net (admission_pool st)) [0..<net_link_count net]" "sum_list N' < 2 ^ 23"
proof -
  let ?q = "admission_pool st"
  have inv: "pool_ok ?q" "capacity ?q = capacity p" "agents_routed net lookup ?q {}"
    "\<forall>s < net_link_count net. occupancy net ?q s = occupancy net p s + increment_at net (ad_increments st) s"
    using assms(2) unfolding admission_inv_def Let_def by blast+
  show eq: "N' = map (occupancy net ?q) [0..<net_link_count net]" using inv(4) by (simp add: N'_def)
  have "alive_count ?q \<le> capacity p" using inv(1,2) by (auto simp: pool_ok_def)
  then show "sum_list N' < 2 ^ 23"
    using occupancy_alive[OF assms(1) inv(3,1)] assms(6)
    by (simp add: eq interv_sum_list_conv_sum_set_nat atLeast0LessThan)
qed

lemma admission_ready:
  assumes "wf_network net" "runtime_ready net lookup p ls ns" "capacity p < 2 ^ 23"
    and "\<forall>od sel. pick od = Some sel \<longrightarrow> selection_ok sel"
    and "allocate_activated_trips spatial net ls ns tick pois pick trips ids reasons p = Inr (q, st)"
  shows "\<exists>ls'. apply_source_queue_increments net ls (ad_increments st) = Inr ls' \<and>
    runtime_ready net lookup q ls' ns \<and> capacity q = capacity p \<and>
    alive_count q = alive_count p + int (card (ad_allocated st - allocated_trips ids)) \<and>
    (ad_allocated st - allocated_trips ids) \<inter> (completed_trips ids \<union> ad_failed st) = {} \<and>
    (\<forall>k < nat (capacity p). alive_mask p ! k \<longrightarrow> same_slot p q k \<and> int k \<notin> ad_slots st)"
proof -
  have rt: "tick_ready ls ns" "runtime_turn_index_lookup net ns = Inr lookup" "pool_ok p"
    "agents_routed net lookup p {}" "lockstep net p ls"
    using assms(2) by (simp_all add: runtime_ready_def)
  note ok = allocate_activated_ok[OF assms(1,4) rt(2,3,4) assms(5)]
  have inv: "pool_ok q" "capacity q = capacity p" "agents_routed net lookup q {}"
    "\<forall>l k. ad_increments st l = Some k \<longrightarrow> 0 < k \<and> link_index net l \<noteq> None" "finite (dom (ad_increments st))"
    "\<forall>i \<in> ad_slots st. 0 \<le> i \<and> i < capacity p \<and> alive_mask q ! nat i \<and> \<not> alive_mask p ! nat i"
    "\<forall>k < nat (capacity p). alive_mask p ! k \<longrightarrow> same_slot p q k"
    "alive_count q = alive_count p + int (ad_allocated_count st)"
    using ok(2) unfolding admission_inv_def Let_def ok(1)[symmetric] by blast+
  have iq: "integral_queue ls (map (occupancy net p) [0..<net_link_count net])" "link_count ls = net_link_count net"
    using rt(5) by (simp_all add: lockstep_def)
  note total = admission_total[OF assms(1) ok(2) rt(5,4,3) assms(3)]
  obtain ls' where ls': "apply_source_queue_increments net ls (ad_increments st) = Inr ls'"
    "integral_queue ls' (map (occupancy net q) [0..<net_link_count net])" "tick_ready ls' ns"
    "link_count ls' = net_link_count net"
    using increments_exact[OF assms(1) rt(1) iq inv(4,5) total(2)] unfolding total(1) ok(1)[symmetric] by metis
  have "runtime_ready net lookup q ls' ns"
    using ls' inv(1,3) rt(2) by (simp add: runtime_ready_def lockstep_def)
  moreover have "ad_allocated_count st = card (ad_allocated st - allocated_trips ids)"
    "(ad_allocated st - allocated_trips ids) \<inter> (completed_trips ids \<union> ad_failed st) = {}"
    using ok(3) by (simp_all add: admission_books_def)
  moreover have "int k \<notin> ad_slots st" if "alive_mask p ! k" for k using inv(6) that by force
  ultimately show ?thesis using ls'(1) inv(2,7,8) by auto
qed

text \<open>C12: admission keeps agents and queues in lockstep.  On a ready runtime, whatever routes are
  selected, every admitted trip adds one live agent and one vehicle to the queue of its first link:
  the increments always apply, the runtime is ready again, no running agent is touched, the pool grows
  by exactly the newly allocated trips, and none of these was completed or failed.\<close>

theorem admission_keeps_lockstep:
  assumes "wf_network net" "runtime_ready net lookup p ls ns" "capacity p < 2 ^ 23"
    and "\<forall>od sel. pick od = Some sel \<longrightarrow> selection_ok sel"
    and "allocate_activated_trips spatial net ls ns tick pois pick trips ids reasons p = Inr (q, st)"
  shows "\<exists>ls'. apply_source_queue_increments net ls (ad_increments st) = Inr ls' \<and>
    runtime_ready net lookup q ls' ns \<and> capacity q = capacity p \<and>
    alive_count q = alive_count p + int (card (ad_allocated st - allocated_trips ids)) \<and>
    (ad_allocated st - allocated_trips ids) \<inter> (completed_trips ids \<union> ad_failed st) = {} \<and>
    (\<forall>k < nat (capacity p). alive_mask p ! k \<longrightarrow> same_slot p q k \<and> int k \<notin> ad_slots st)"
  using admission_ready[OF assms] .

section \<open>Storage\<close>

text \<open>In the spatial mode a link is given at most the vehicles it can store.\<close>

definition increments_fit :: "road_network \<Rightarrow> int list \<Rightarrow> int list \<Rightarrow> (int \<rightharpoonup> int) \<Rightarrow> bool" where
  "increments_fit net N M incs \<longleftrightarrow>
     (\<forall>l i k. incs l = Some k \<and> link_index net l = Some i \<longrightarrow> 0 < k \<and> N ! i + k \<le> M ! i)"

lemma admission_room:
  assumes "source_link_admission_available True net ls l incs = Inr True" "link_index net l = Some i"
    "queue_vehicles ls = map of_int N" "storage_of ls ''spatial source admission lacks storage capacity'' = Inr (map of_int M)"
    "i < length N" "i < length M" "0 \<le> N ! i" "0 \<le> M ! i" "M ! i < 2 ^ 23" "N ! i \<le> M ! i"
    "\<forall>k. incs l = Some k \<longrightarrow> 0 < k \<and> N ! i + k \<le> M ! i"
  shows "N ! i + (case incs l of None \<Rightarrow> 0 | Some k \<Rightarrow> k) + 1 \<le> M ! i"
proof -
  define w where "w = (case incs l of None \<Rightarrow> 0 | Some k \<Rightarrow> k)"
  have w: "0 \<le> w" "N ! i + w \<le> M ! i" using assms(10,11) by (auto simp: w_def split: option.split)
  have "r64 (of_int (N ! i) + of_int w) = of_int (N ! i + w)"
    by (rule f64.rd_add_ints) (use assms(7,9) w in simp_all)
  moreover have "r64 (of_int (N ! i + w) + of_int 1) = of_int (N ! i + w + 1)"
    by (rule f64.rd_add_ints) (use assms(7,9) w in simp_all)
  ultimately have "of_int (N ! i + w + 1) \<le> r64 (of_int (M ! i) + micro64_slack)"
    using assms(1-6) by (simp add: source_link_admission_available_def w_def Let_def)
  moreover have "0 \<le> micro64_slack" by (simp add: micro64_slack_def f64.rd_nonneg)
  moreover have "micro64_slack \<le> 1 / 2"
    unfolding micro64_slack_def by (rule f64.rd_le_float) (use r64_half[of 0] in simp_all)
  ultimately have "N ! i + w + 1 \<le> \<lfloor>r64 (of_int (M ! i) + micro64_slack)\<rfloor>" by (simp add: le_floor_iff)
  then show ?thesis using floor_tolerance64[OF assms(8,9)] \<open>0 \<le> micro64_slack\<close> \<open>micro64_slack \<le> 1 / 2\<close>
    by (simp add: w_def)
qed

lemma admit_trips_fit:
  assumes "wf_network net" "queue_vehicles ls = map of_int N"
    "storage_of ls ''spatial source admission lacks storage capacity'' = Inr (map of_int M)"
    "length N = net_link_count net" "length M = net_link_count net"
    "\<forall>i < net_link_count net. 0 \<le> N ! i \<and> N ! i \<le> M ! i \<and> M ! i < 2 ^ 23"
    "admit_trips True net lookup ls tick pois pick done ts st = Inr st'" "increments_fit net N M (ad_increments st)"
  shows "increments_fit net N M (ad_increments st')"
  using assms(7,8)
proof (induction ts arbitrary: st)
  case (Cons t ts)
  have step: "increments_fit net N M (ad_increments st1)"
    if sel: "admit_selected True net lookup ls tick t dest sel st = Inr st1" for dest sel st1
  proof -
    let ?l = "hd (selected_path sel)" and ?incs = "ad_increments st"
    obtain room where legal: "validate_route_path_authority net lookup (selected_path sel) dest = Inr ()"
      and room: "source_link_admission_available True net ls ?l ?incs = Inr room"
      using sel by (auto simp: admit_selected_def check_simps Let_def)
    show ?thesis
    proof (cases room)
      case False
      then show ?thesis using sel legal room Cons.prems(2) by (auto simp: admit_selected_def)
    next
      case True
      have room': "source_link_admission_available True net ls ?l ?incs = Inr True" using room True by simp
      have incs: "ad_increments st1 = ?incs(?l \<mapsto> (case ?incs ?l of None \<Rightarrow> 0 | Some k \<Rightarrow> k) + 1)"
        using sel legal room True by (auto simp: admit_selected_def check_simps Let_def)
      have old: "\<forall>l i k. ?incs l = Some k \<and> link_index net l = Some i \<longrightarrow> 0 < k \<and> N ! i + k \<le> M ! i"
        using Cons.prems(2) by (simp add: increments_fit_def)
      have "0 < (case ?incs ?l of None \<Rightarrow> 0 | Some k \<Rightarrow> k) + 1 \<and> N ! i + ((case ?incs ?l of None \<Rightarrow> 0 | Some k \<Rightarrow> k) + 1) \<le> M ! i"
        if i: "link_index net ?l = Some i" for i
      proof -
        have "i < net_link_count net" using i link_index_range[OF assms(1)] by blast
        then have "N ! i + (case ?incs ?l of None \<Rightarrow> 0 | Some k \<Rightarrow> k) + 1 \<le> M ! i"
          using admission_room[OF room' i assms(2,3)] assms(4-6) old i by auto
        moreover have "0 \<le> (case ?incs ?l of None \<Rightarrow> 0 | Some k \<Rightarrow> k)"
          using old i by (auto split: option.split intro: less_imp_le)
        ultimately show ?thesis by simp
      qed
      then show ?thesis using old unfolding increments_fit_def incs by (auto split: if_splits)
    qed
  qed
  show ?case
    using Cons.prems Cons.IH step
    by (auto simp: Let_def check_simps split: if_splits option.splits prod.splits)
qed simp

lemma admission_fits:
  assumes "wf_network net" "integral_queue ls N" "length N = net_link_count net"
    and "storage_of ls ''spatial source admission lacks storage capacity'' = Inr (map of_int M)"
      "length M = net_link_count net" "\<forall>i < net_link_count net. N ! i \<le> M ! i \<and> M ! i < 2 ^ 23"
    and "allocate_activated_trips True net ls ns tick pois pick trips ids reasons p = Inr (q, st)"
  shows "\<forall>s < net_link_count net. N ! s + increment_at net (ad_increments st) s \<le> M ! s"
proof -
  have N: "queue_vehicles ls = map of_int N" "\<forall>n \<in> set N. 0 \<le> n" using assms(2) by (simp_all add: integral_queue_def)
  then have fit: "\<forall>i < net_link_count net. 0 \<le> N ! i \<and> N ! i \<le> M ! i \<and> M ! i < 2 ^ 23" using assms(3,6) by simp
  obtain lookup where "admit_trips True net lookup ls tick pois pick (completed_trips ids) (activated_trip_requests trips)
      (start_admission p ids reasons) = Inr st"
    using assms(7) by (auto simp: allocate_activated_trips_def check_simps)
  from admit_trips_fit[OF assms(1) N(1) assms(4,3,5) fit this]
  have "increments_fit net N M (ad_increments st)" by (simp add: increments_fit_def start_admission_def)
  then show ?thesis
    using fit link_index_iff[OF assms(1)] by (auto simp: increment_at_def increments_fit_def split: option.split)
qed

text \<open>C13: spillback holds agents back at the source.  In the spatial mode with whole storage, queues
  within it stay within it when the admitted vehicles are added.\<close>

theorem admission_respects_storage:
  assumes "wf_network net" "integral_queue ls N" "length N = net_link_count net"
    and "storage_of ls ''spatial source admission lacks storage capacity'' = Inr (map of_int M)"
      "length M = net_link_count net" "\<forall>i < net_link_count net. N ! i \<le> M ! i \<and> M ! i < 2 ^ 23"
    and "allocate_activated_trips True net ls ns tick pois pick trips ids reasons p = Inr (q, st)"
  shows "\<forall>s < net_link_count net. N ! s + increment_at net (ad_increments st) s \<le> M ! s"
  by (rule admission_fits[OF assms])

section \<open>A trip admitted on the concrete network\<close>

definition idle_pool :: runtime_pool where
  "idle_pool = \<lparr>capacity = 2, free_slot_stack = [1, 0], free_slot_count = 2,
     alive_mask = [False, False], alive_count = 0, citizen_id = [- 1, - 1], trip_id = [- 1, - 1],
     current_link_id = [- 1, - 1], progress_01 = [0, 0], remaining_route_ptr = [0, 0],
     dest_node_id = [- 1, - 1], behavior_profile_id = [- 1, - 1], reroute_cooldown_ticks = [0, 0],
     plugin_memory = Map.empty\<rparr>"

definition idle_links :: link_state where
  "idle_links = fleet_links\<lparr>queue_vehicles := [0, 0, 0, 0],
     link_metadata := [''storage_capacity_vehicles'' \<mapsto> MVector [Fin 1, Fin 1, Fin 1, Fin 1]]\<rparr>"

definition demo_trip :: trip_request where
  "demo_trip = \<lparr>trip_request_id = 1, trip_citizen = 5, trip_origin = 7, trip_dest = 8, planned_depart_tick = 0,
     trip_day = Weekday, trip_band = Morning, trip_status = Activated\<rparr>"

definition demo_poi_map :: "int \<rightharpoonup> poi" where
  "demo_poi_map = map_of (map (\<lambda>p. (poi_id p, p)) demo_pois)"

definition demo_pick :: route_choice where
  "demo_pick od = (if od = (7, 8) then Some \<lparr>selected_path = [10, 11], selected_memory = Map.empty\<rparr> else None)"

definition demo_ids :: demand_ids where
  "demo_ids = \<lparr>allocated_trips = {}, completed_trips = {}, failed_trips = {}\<rparr>"

lemma idle_ok: "pool_ok idle_pool"
  using create_ok(1)[of 2 idle_pool]
  by (simp add: create_active_agent_pool_def pool_from_internal_arrays_def pool_count_checks_def check_eval
      validate_pool_array_shapes_def pool_shapes_def idle_pool_def Let_def numeral_2_eq_2)

lemma demo_pick_ok: "\<forall>od sel. demo_pick od = Some sel \<longrightarrow> selection_ok sel"
  by (auto simp: demo_pick_def selection_ok_def)

lemma idle_ready: "runtime_ready demo_net fleet_lookup idle_pool idle_links fleet_nodes"
proof -
  have none: "occupancy demo_net idle_pool s = 0" for s
    by (simp add: occupancy_def idle_pool_def less_Suc_cases numeral_2_eq_2)
  have "map (occupancy demo_net idle_pool) [0..<4] = [0, 0, 0, 0]" by (simp add: upt_rec none)
  moreover have "net_link_count demo_net = 4" by (simp add: demo_net_def net_link_count_def demo_roads_def)
  ultimately have "lockstep demo_net idle_pool idle_links"
    by (simp add: lockstep_def integral_queue_def idle_links_def link_count_def)
  moreover have "agents_routed demo_net fleet_lookup idle_pool {}"
    by (simp add: agents_routed_def active_def idle_pool_def less_Suc_cases numeral_2_eq_2)
  moreover have "tick_ready idle_links fleet_nodes"
    using fleet_tick_ready
    by (auto simp: tick_ready_def wf_link_def turns_in_range_def plain_metadata_def idle_links_def fleet_links_def
        link_count_def Let_def read_link_base_travel_time_def)
  ultimately show ?thesis by (simp add: runtime_ready_def fleet_lookup idle_ok)
qed

lemma demo_admission:
  assumes "source_link_admission_available spatial demo_net ls 10 Map.empty = Inr True"
  shows "\<exists>q st. allocate_activated_trips spatial demo_net ls fleet_nodes 1 demo_poi_map demo_pick [demo_trip] demo_ids
    Map.empty idle_pool = Inr (q, st)"
proof -
  let ?s = "\<lparr>slot_id = - 1, slot_alive = True, slot_citizen = 5, slot_trip = 1, slot_link = 10, slot_progress = 0,
    slot_route_ptr = 0, slot_dest = 3, slot_profile = 0, slot_cooldown = 0, slot_memory = (Map.empty :: memory_dict)\<rparr>"
  have payload: "payload_ok ?s" by (simp add: payload_ok_def)
  have alloc: "allocate_active_agent_slot idle_pool ?s = Inr (occupied idle_pool (top_slot idle_pool) ?s, int (top_slot idle_pool))"
    using allocate_iff[OF idle_ok payload] by (simp add: idle_pool_def payload_fits_def fits32_def)
  have ok: "pool_ok ((occupied idle_pool (top_slot idle_pool) ?s)\<lparr>plugin_memory := m\<rparr>)" for m
    by (intro pool_ok_memory occupied_ok idle_ok payload) (simp add: idle_pool_def)
  have spawn: "spawn_agent_slot 5 1 10 3 0 (Fin 0) 0 0 = Inr ?s"
    by (simp add: spawn_agent_slot_def make_agent_slot_def check_eval)
  have trips: "activated_trip_requests [demo_trip] = [demo_trip]" by (simp add: activated_trip_requests_def demo_trip_def)
  have od: "trip_od_nodes demo_poi_map demo_trip = Some ((7, 8), 1, 3)"
    by (simp add: trip_od_nodes_def demo_poi_map_def demo_pois_def demo_trip_def)
  have free: "free_slot_count idle_pool = 2" by (simp add: idle_pool_def)
  have trip: "trip_citizen demo_trip = 5" "trip_request_id demo_trip = 1" by (simp_all add: demo_trip_def)
  let ?sel = "\<lparr>selected_path = [10, 11], selected_memory = (Map.empty :: memory_dict)\<rparr>"
  have pick: "demo_pick (7, 8) = Some ?sel" by (simp add: demo_pick_def)
  let ?st = "start_admission idle_pool demo_ids Map.empty"
  have start: "ad_increments ?st = Map.empty" "ad_pool ?st = idle_pool" "allocated_trips demo_ids = {}"
    "ad_allocated ?st = {}" "ad_failed ?st = {}" "completed_trips demo_ids = {}"
    by (simp_all add: start_admission_def demo_ids_def)
  obtain st1 where st1: "admit_selected spatial demo_net fleet_lookup ls 1 demo_trip 3 ?sel ?st = Inr st1"
    "ad_pool st1 = occupied idle_pool (top_slot idle_pool) ?s"
    using assms demo_route_legal spawn alloc by (simp add: admit_selected_def Let_def start trip)
  have "admit_trips spatial demo_net fleet_lookup ls 1 demo_poi_map demo_pick {} [demo_trip] ?st = Inr st1"
    using st1(1) by (simp add: Let_def start trip free od pick)
  moreover have "replace_pool_plugin_memory (ad_pool st1) m =
      Inr ((occupied idle_pool (top_slot idle_pool) ?s)\<lparr>plugin_memory := m\<rparr>)" for m
    using pool_internal_ok[OF ok] by (simp add: replace_pool_plugin_memory_def st1(2))
  ultimately show ?thesis
    using fleet_lookup by (cases "ad_slots st1 = {}") (simp_all add: allocate_activated_trips_def trips start del: admit_trips.simps)
qed


lemma admission_keeps_lockstep_witness:
  "\<exists>q st ls'. allocate_activated_trips False demo_net idle_links fleet_nodes 1 demo_poi_map demo_pick [demo_trip] demo_ids
      Map.empty idle_pool = Inr (q, st) \<and>
    apply_source_queue_increments demo_net idle_links (ad_increments st) = Inr ls' \<and>
    runtime_ready demo_net fleet_lookup q ls' fleet_nodes"
proof -
  obtain q st where run: "allocate_activated_trips False demo_net idle_links fleet_nodes 1 demo_poi_map demo_pick [demo_trip]
      demo_ids Map.empty idle_pool = Inr (q, st)"
    using demo_admission[of False idle_links] by (auto simp: source_link_admission_available_def)
  have "capacity idle_pool < 2 ^ 23" by (simp add: idle_pool_def)
  from admission_keeps_lockstep[OF demo_net_wf idle_ready this demo_pick_ok run] run show ?thesis by blast
qed

lemma admission_respects_storage_witness:
  "\<exists>q st. allocate_activated_trips True demo_net idle_links fleet_nodes 1 demo_poi_map demo_pick [demo_trip] demo_ids
      Map.empty idle_pool = Inr (q, st) \<and>
    (\<forall>s < net_link_count demo_net. [0, 0, 0, 0] ! s + increment_at demo_net (ad_increments st) s \<le> [1, 1, 1, (1 :: int)] ! s)"
proof -
  have storage: "storage_of idle_links msg = Inr (map of_int [1, 1, 1, (1 :: int)])" for msg
    by (simp add: storage_of_def idle_links_def fleet_links_def link_count_def)
  have "0 \<le> micro64_slack" by (simp add: micro64_slack_def f64.rd_nonneg)
  then have "1 \<le> r64 (1 + micro64_slack)" using f64.rd_add_ge[of 1 micro64_slack] by simp
  then have "source_link_admission_available True demo_net idle_links 10 Map.empty = Inr True"
    using storage by (simp add: source_link_admission_available_def idle_links_def demo_net_def index_of_def
        demo_roads_def demo_road_def Let_def)
  then obtain q st where run: "allocate_activated_trips True demo_net idle_links fleet_nodes 1 demo_poi_map demo_pick [demo_trip]
      demo_ids Map.empty idle_pool = Inr (q, st)"
    using demo_admission[of True idle_links] by auto
  have count: "net_link_count demo_net = 4" by (simp add: demo_net_def net_link_count_def demo_roads_def)
  have "integral_queue idle_links [0, 0, 0, 0]" by (simp add: integral_queue_def idle_links_def)
  from admission_respects_storage[OF demo_net_wf this _ storage _ _ run] run show ?thesis
    by (simp add: count less_Suc_cases numeral_eq_Suc)
qed

end
