(* ===== verification/Reroute.thy ===== *)
theory Reroute
  imports PyFloat
begin

text \<open>
  The reroute-or-persist decision of a traveller (src/src/metroflow/routing/reroute_policy.py) over a
  behaviour profile (src/src/metroflow/routing/behavior_profiles.py).  Costs are Python floats, so an
  unreachable tail has infinite cost; the score is computed in float32 and the comparison with the
  resistance of the profile in float64.  The native kernel is the parameter \<open>native\<close>.
\<close>

section \<open>Behaviour profiles\<close>

record route_profile =
  behavior_profile :: int
  delay_sensitivity :: rat
  reroute_willingness :: rat
  persistence_bias :: rat
  exploration_bias :: rat

definition make_route_profile :: "int \<Rightarrow> pyfloat \<Rightarrow> pyfloat \<Rightarrow> pyfloat \<Rightarrow> pyfloat \<Rightarrow> route_profile result" where
  "make_route_profile i delay willing persist explore = bindE (checks [
     (\<not> isfinite delay, ''delay_sensitivity must be finite''),
     (\<not> isfinite willing, ''reroute_willingness must be finite''),
     (\<not> isfinite persist, ''persistence_bias must be finite''),
     (\<not> isfinite explore, ''exploration_bias must be finite''),
     (\<not> (0 \<le> finite_part willing \<and> finite_part willing \<le> 1), ''reroute_willingness must be in [0, 1]'')])
     (\<lambda>_. Inr \<lparr>behavior_profile = i, delay_sensitivity = finite_part delay,
        reroute_willingness = finite_part willing, persistence_bias = finite_part persist,
        exploration_bias = finite_part explore\<rparr>)"

section \<open>The score\<close>

definition clip01 :: "rat \<Rightarrow> rat" where
  "clip01 x = min 1 (max 0 x)"

definition score_constant :: "int \<Rightarrow> rat" where
  "score_constant percent = r32 (r64 (of_int percent / 100))"

definition trigger_score_core :: "rat \<Rightarrow> rat \<Rightarrow> rat \<Rightarrow> rat \<Rightarrow> rat" where
  "trigger_score_core willing delay explore improvement =
     (let reroute = clip01 (r32 willing); d = r32 delay; ex = clip01 (r32 explore); imp = max 0 (r32 improvement);
          norm = (if 0 < d then r32 (d / r32 (1 + d)) else 0);
          gain = min 1 (r32 (imp * r32 (score_constant 75 + r32 (score_constant 75 * norm)))) in
      r32 (r32 (r32 (score_constant 45 * reroute) + r32 (score_constant 35 * gain)) + r32 (score_constant 20 * ex)))"

definition resistance32 :: "rat \<Rightarrow> rat" where
  "resistance32 bias = (let b = \<bar>r32 bias\<bar> in
     r32 (score_constant 40 + r32 (score_constant 15 * (if 0 < b then r32 (b / r32 (1 + b)) else 0))))"

definition reroute_decision_baseline :: "route_profile \<Rightarrow> rat \<Rightarrow> bool \<times> rat" where
  "reroute_decision_baseline p improvement =
     (let score = trigger_score_core (reroute_willingness p) (delay_sensitivity p) (exploration_bias p) improvement in
      (resistance32 (persistence_bias p) \<le> score \<and> 0 < r32 (reroute_willingness p), score))"

text \<open>The dispatch: \<^verbatim>\<open>auto\<close> falls back to the baseline when the kernel is absent or fails.\<close>

record reroute_kernel =
  kernel_available :: bool
  kernel_decision :: "route_profile \<Rightarrow> rat \<Rightarrow> (bool \<times> rat) result"

definition reroute_decision_core :: "reroute_kernel \<Rightarrow> string \<Rightarrow> route_profile \<Rightarrow> rat \<Rightarrow> (bool \<times> rat) result" where
  "reroute_decision_core native backend p improvement =
     bindE (checks [(backend \<notin> {''baseline'', ''rust_cpu'', ''auto''},
       ''routing_backend must be one of: baseline, rust_cpu, auto'')]) (\<lambda>_.
     let baseline = Inr (reroute_decision_baseline p improvement) in
     if backend = ''auto'' \<and> \<not> kernel_available native then baseline
     else if backend = ''rust_cpu'' \<or> backend = ''auto'' then
       (case kernel_decision native p improvement of
          Inr d \<Rightarrow> Inr d
        | Inl (RuntimeError m) \<Rightarrow> if backend = ''rust_cpu'' then Inl (RuntimeError m) else baseline
        | Inl e \<Rightarrow> Inl e)
     else baseline)"

section \<open>The decision\<close>

datatype reroute_reason = Rerouted | NoIncident | Cooldown | InvalidCosts | InsufficientImprovement | Persistence

definition reason_value :: "reroute_reason \<Rightarrow> string" where
  "reason_value r = (case r of Rerouted \<Rightarrow> ''reroute'' | NoIncident \<Rightarrow> ''no_incident'' | Cooldown \<Rightarrow> ''cooldown''
     | InvalidCosts \<Rightarrow> ''invalid_costs'' | InsufficientImprovement \<Rightarrow> ''insufficient_improvement''
     | Persistence \<Rightarrow> ''persistence'')"

record reroute_decision =
  should_reroute :: bool
  decision_reason :: reroute_reason
  improvement_ratio :: rat
  trigger_score :: rat
  next_cooldown :: int

definition make_reroute_decision :: "bool \<Rightarrow> reroute_reason \<Rightarrow> rat \<Rightarrow> rat \<Rightarrow> int \<Rightarrow> reroute_decision result" where
  "make_reroute_decision sh reason imp score cool =
     bindE (checks [(cool < 0, ''next_reroute_cooldown_ticks must be >= 0'')]) (\<lambda>_.
     Inr \<lparr>should_reroute = sh, decision_reason = reason, improvement_ratio = imp, trigger_score = score,
       next_cooldown = cool\<rparr>)"

definition squash_positive :: "rat \<Rightarrow> rat" where
  "squash_positive v = (if v \<le> 0 then 0 else r64 (v / r64 (1 + v)))"

definition persistence_resistance :: "route_profile \<Rightarrow> rat" where
  "persistence_resistance p =
     r64 (r64 (40 / 100) + r64 (r64 (15 / 100) * squash_positive \<bar>persistence_bias p\<bar>))"

record reroute_args =
  incident_active :: bool
  reroute_cooldown :: int
  min_improvement_ratio :: rat
  cooldown_after_reroute :: int
  decay_cooldown :: bool

definition default_reroute_args :: reroute_args where
  "default_reroute_args = \<lparr>incident_active = True, reroute_cooldown = 0, min_improvement_ratio = r64 (5 / 100),
     cooldown_after_reroute = 3, decay_cooldown = False\<rparr>"

definition improvement_of :: "rat \<Rightarrow> rat \<Rightarrow> rat" where
  "improvement_of current candidate = max 0 (r64 (r64 (current - candidate) / max current (r64 (1 / 10 ^ 6))))"

definition decide_reroute_vs_persist :: "reroute_kernel \<Rightarrow> string \<Rightarrow> route_profile \<Rightarrow> pyfloat \<Rightarrow> pyfloat \<Rightarrow>
    reroute_args \<Rightarrow> reroute_decision result" where
  "decide_reroute_vs_persist native backend p current_cost candidate_cost a =
     bindE (checks [(reroute_cooldown a < 0, ''reroute_cooldown_ticks must be >= 0'')]) (\<lambda>_.
     let cooldown = reroute_cooldown a; current = finite_part current_cost; candidate = finite_part candidate_cost in
     if \<not> incident_active a then
       make_reroute_decision False NoIncident 0 0 (if decay_cooldown a then max 0 (cooldown - 1) else cooldown)
     else if 0 < cooldown then make_reroute_decision False Cooldown 0 0 (cooldown - 1)
     else if \<not> isfinite current_cost \<or> \<not> isfinite candidate_cost \<or> current \<le> 0 \<or> candidate \<le> 0 then
       make_reroute_decision False InvalidCosts 0 0 0
     else let improvement = improvement_of current candidate in
     if improvement < max 0 (min_improvement_ratio a) then
       make_reroute_decision False InsufficientImprovement improvement 0 0
     else bindE (reroute_decision_core native backend p improvement) (\<lambda>(willing, score).
       let go = (willing \<and> persistence_resistance p \<le> score \<and> 0 < reroute_willingness p) in
       make_reroute_decision go (if go then Rerouted else Persistence) improvement score
         (if go then max 0 (cooldown_after_reroute a) else 0)))"

section \<open>Monotonicity of the score\<close>

lemma score_constant_nonneg: "0 \<le> c \<Longrightarrow> 0 \<le> score_constant c"
  by (simp add: score_constant_def f32.rd_nonneg f64.rd_nonneg)

lemma squash_nonneg: "0 < d \<Longrightarrow> 0 \<le> r32 (d / r32 (1 + d))"
  by (simp add: f32.rd_nonneg)

lemma score_mono:
  assumes "imp \<le> imp'"
  shows "trigger_score_core w d ex imp \<le> trigger_score_core w d ex imp'"
proof -
  define factor where "factor = r32 (score_constant 75 + r32 (score_constant 75 *
    (if 0 < r32 d then r32 (r32 d / r32 (1 + r32 d)) else 0)))"
  have "0 \<le> factor"
    by (simp add: factor_def f32.rd_nonneg score_constant_nonneg squash_nonneg)
  moreover have "max 0 (r32 imp) \<le> max 0 (r32 imp')" using f32.rd_mono[OF assms] by auto
  ultimately have "min 1 (r32 (max 0 (r32 imp) * factor)) \<le> min 1 (r32 (max 0 (r32 imp') * factor))"
    by (intro min.mono order_refl f32.rd_mono mult_right_mono)
  then show ?thesis
    unfolding trigger_score_core_def Let_def factor_def
    by (intro f32.rd_mono add_mono mult_left_mono score_constant_nonneg order_refl) simp_all
qed

lemma improvement_mono:
  assumes "candidate' \<le> candidate" "0 < current"
  shows "improvement_of current candidate \<le> improvement_of current candidate'"
  unfolding improvement_of_def
  by (intro max.mono f64.rd_mono divide_right_mono order_refl) (use assms in auto)

lemma improvement_positive:
  assumes "0 < improvement_of current candidate" "0 < current" "0 < candidate"
  shows "candidate < current"
proof (rule ccontr)
  assume "\<not> candidate < current"
  then have "r64 (current - candidate) \<le> 0" by (intro f64.rd_nonpos) simp
  moreover have "0 < max current (r64 (1 / 10 ^ 6))" using assms(2) by simp
  ultimately have "r64 (r64 (current - candidate) / max current (r64 (1 / 10 ^ 6))) \<le> 0"
    by (intro f64.rd_nonpos) (rule divide_nonpos_pos)
  then show False using assms(1) by (simp add: improvement_of_def max_def split: if_splits)
qed

section \<open>What the decision guarantees\<close>

lemma make_reroute_decision_iff [check_simps]:
  "make_reroute_decision sh reason imp score cool = Inr d \<longleftrightarrow> 0 \<le> cool \<and>
     d = \<lparr>should_reroute = sh, decision_reason = reason, improvement_ratio = imp, trigger_score = score, next_cooldown = cool\<rparr>"
  by (auto simp: make_reroute_decision_def check_simps)

lemma decide_reroutes:
  assumes "0 < x" "0 < y" "r64 (1 / 20) \<le> improvement_of x y"
    and "reroute_decision_core native backend p (improvement_of x y) = Inr (True, score)"
    and "persistence_resistance p \<le> score" "0 < reroute_willingness p"
  shows "decide_reroute_vs_persist native backend p (Fin x) (Fin y) default_reroute_args =
    Inr \<lparr>should_reroute = True, decision_reason = Rerouted, improvement_ratio = improvement_of x y,
      trigger_score = score, next_cooldown = 3\<rparr>"
proof -
  have "\<not> improvement_of x y < max 0 (r64 (5 / 100))"
  proof -
    have "0 \<le> improvement_of x y" by (simp add: improvement_of_def)
    then show ?thesis using assms(3) by (simp add: less_max_iff_disj not_less)
  qed
  then show ?thesis
    using assms(1,2,4-6)
    by (simp add: decide_reroute_vs_persist_def default_reroute_args_def check_eval make_reroute_decision_def Let_def
        del: less_max_iff_disj)
qed

text \<open>A traveller is only rerouted for a good reason.  Whatever the native kernel answers, a
  decision to reroute means that an incident is active, that no cooldown runs, that both costs are finite
  and positive, that the candidate is strictly cheaper and its improvement reaches the threshold, that
  the score reaches the resistance of a willing profile, and that the cooldown is started.\<close>

theorem reroute_only_for_improvement:
  assumes "decide_reroute_vs_persist native backend p current_cost candidate_cost a = Inr d" "should_reroute d"
    and "0 < min_improvement_ratio a"
  shows "incident_active a \<and> reroute_cooldown a = 0 \<and> decision_reason d = Rerouted \<and>
    (\<exists>current candidate. current_cost = Fin current \<and> candidate_cost = Fin candidate \<and> 0 < candidate \<and>
       candidate < current \<and> improvement_ratio d = improvement_of current candidate) \<and>
    min_improvement_ratio a \<le> improvement_ratio d \<and> persistence_resistance p \<le> trigger_score d \<and>
    0 < reroute_willingness p \<and> next_cooldown d = max 0 (cooldown_after_reroute a)"
proof -
  let ?x = "finite_part current_cost" and ?y = "finite_part candidate_cost"
  have d: "incident_active a" "reroute_cooldown a = 0" "isfinite current_cost" "isfinite candidate_cost"
    "0 < ?x" "0 < ?y" "min_improvement_ratio a \<le> improvement_of ?x ?y" "improvement_ratio d = improvement_of ?x ?y"
    "decision_reason d = Rerouted" "persistence_resistance p \<le> trigger_score d" "0 < reroute_willingness p"
    "next_cooldown d = max 0 (cooldown_after_reroute a)"
    using assms(1,2) by (auto simp: decide_reroute_vs_persist_def check_simps Let_def not_le split: if_splits prod.splits)
  have "?y < ?x" by (rule improvement_positive) (use d(5-7) assms(3) in simp_all)
  moreover obtain x y where "current_cost = Fin x" "candidate_cost = Fin y" using d(3,4) by (auto simp: isfinite_iff)
  ultimately show ?thesis using d by auto
qed

text \<open>C34: the baseline decision is monotone.  If a traveller is rerouted to a candidate, it would be
  rerouted to every cheaper one, all else equal; the rounding of the float32 score does not break this.\<close>

theorem cheaper_candidate_rerouted:
  assumes "decide_reroute_vs_persist native ''baseline'' p current_cost (Fin candidate) a = Inr d" "should_reroute d"
    and "0 < candidate'" "candidate' \<le> candidate"
  shows "\<exists>d'. decide_reroute_vs_persist native ''baseline'' p current_cost (Fin candidate') a = Inr d' \<and>
    should_reroute d' \<and> improvement_ratio d \<le> improvement_ratio d' \<and> trigger_score d \<le> trigger_score d'"
proof -
  let ?x = "finite_part current_cost" and ?score = "\<lambda>i. trigger_score_core (reroute_willingness p) (delay_sensitivity p) (exploration_bias p) i"
  let ?i = "improvement_of ?x candidate" and ?j = "improvement_of ?x candidate'"
  have d: "\<not> reroute_cooldown a < 0" "incident_active a" "\<not> 0 < reroute_cooldown a" "isfinite current_cost"
    "0 < ?x" "max 0 (min_improvement_ratio a) \<le> ?i" "improvement_ratio d = ?i" "trigger_score d = ?score ?i"
    "resistance32 (persistence_bias p) \<le> ?score ?i" "0 < r32 (reroute_willingness p)"
    "persistence_resistance p \<le> ?score ?i" "0 < reroute_willingness p"
    using assms(1,2)
    by (auto simp: decide_reroute_vs_persist_def check_simps check_eval Let_def not_le not_less
        reroute_decision_core_def reroute_decision_baseline_def split: if_splits)
  have le: "?i \<le> ?j" by (rule improvement_mono[OF assms(4) d(5)])
  then have "?score ?i \<le> ?score ?j" by (rule score_mono)
  then have "resistance32 (persistence_bias p) \<le> ?score ?j" "persistence_resistance p \<le> ?score ?j" using d(9,11) by auto
  moreover have "\<not> ?j < 0" "\<not> ?j < min_improvement_ratio a" using order_trans[OF d(6) le] by (simp_all add: not_less)
  ultimately show ?thesis
    using d le \<open>?score ?i \<le> ?score ?j\<close> assms(3)
    by (simp add: decide_reroute_vs_persist_def check_eval Let_def reroute_decision_core_def
        reroute_decision_baseline_def make_reroute_decision_def less_max_iff_disj)
qed

lemma cheaper_candidate_rerouted_witness:
  "\<exists>p d d'. decide_reroute_vs_persist \<lparr>kernel_available = False, kernel_decision = \<lambda>p x. Inr (True, 1)\<rparr> ''baseline'' p (Fin 4)
     (Fin 2) default_reroute_args = Inr d \<and> should_reroute d \<and>
   decide_reroute_vs_persist \<lparr>kernel_available = False, kernel_decision = \<lambda>p x. Inr (True, 1)\<rparr> ''baseline'' p (Fin 4)
     (Fin 1) default_reroute_args = Inr d' \<and> should_reroute d'"
proof -
  let ?p = "\<lparr>behavior_profile = 0, delay_sensitivity = 0, reroute_willingness = 1, persistence_bias = 0, exploration_bias = 1\<rparr>"
  let ?k = "\<lparr>kernel_available = False, kernel_decision = \<lambda>p x. Inr (True, 1)\<rparr>"
  have half: "r64 (1 / 2) = 1 / 2" "r32 (1 / 2) = 1 / 2" using r64_half[of 0] r32_half[of 0] by simp_all
  have small: "r64 (1 / 10 ^ 6) \<le> 1" "r64 (1 / 20) \<le> 1 / 2" "r64 (2 / 5) \<le> 1 / 2"
    by (rule f64.rd_le_float; use half in simp)+
  have two: "r64 2 = 2" using r64_of_int[of 2] by simp
  have imp: "improvement_of 4 2 = 1 / 2" using small(1) half two by (simp add: improvement_of_def max_def)
  have score: "1 / 2 \<le> trigger_score_core 1 0 1 (1 / 2)"
  proof -
    have e: "r64 (3 / 8) = 3 / 8" "r32 (3 / 8) = 3 / 8" "r64 (1 / 8) = 1 / 8" "r32 (1 / 8) = 1 / 8"
      by (simp_all add: float_eval)
    have c: "3 / 8 \<le> score_constant 45" "1 / 8 \<le> score_constant 20"
      unfolding score_constant_def
      by (intro f32.rd_ge_float f64.rd_ge_float; use e in simp)+
    define g where "g = r32 (score_constant 35 * min 1 (r32 (max 0 (r32 (1 / 2)) * r32 (score_constant 75))))"
    have "0 \<le> g" using half by (simp add: g_def f32.rd_nonneg score_constant_nonneg)
    then have "3 / 8 \<le> r32 (score_constant 45 + g)" using c(1) e(2) by (intro f32.rd_ge_float) auto
    then have "1 / 2 \<le> r32 (r32 (score_constant 45 + g) + score_constant 20)"
      using c(2) half by (intro f32.rd_ge_float) auto
    moreover have "r32 (score_constant c) = score_constant c" for c by (simp add: score_constant_def f32.rd_idem)
    ultimately show ?thesis by (simp add: trigger_score_core_def clip01_def Let_def g_def)
  qed
  have res: "persistence_resistance ?p \<le> 1 / 2" "resistance32 0 \<le> 1 / 2"
    using small(3) half f32.rd_le_float[of "r64 (2 / 5)" "1 / 2"]
    by (simp_all add: persistence_resistance_def squash_positive_def resistance32_def score_constant_def f64.rd_idem
        f32.rd_idem)
  have core: "reroute_decision_core ?k ''baseline'' ?p (improvement_of 4 2) = Inr (True, trigger_score_core 1 0 1 (1 / 2))"
    using order_trans[OF res(2) score]
    by (simp add: imp reroute_decision_core_def check_eval reroute_decision_baseline_def Let_def)
  have "persistence_resistance ?p \<le> trigger_score_core 1 0 1 (1 / 2)" using res(1) score by (rule order_trans)
  from decide_reroutes[OF _ _ _ core this] obtain d where
    d: "decide_reroute_vs_persist ?k ''baseline'' ?p (Fin 4) (Fin 2) default_reroute_args = Inr d" "should_reroute d"
    using small(2) imp by auto
  have "(0 :: rat) < 1" "(1 :: rat) \<le> 2" by simp_all
  from cheaper_candidate_rerouted[OF d this] obtain d' where
    "decide_reroute_vs_persist ?k ''baseline'' ?p (Fin 4) (Fin 1) default_reroute_args = Inr d'" "should_reroute d'"
    by (elim exE conjE)
  with d show ?thesis by (intro exI conjI)
qed

end
