(* ===== verification/Rerouting.thy ===== *)
theory Rerouting
  imports Admission Reroute
begin

text \<open>
  The reroute phase of the runtime (\<^verbatim>\<open>_apply_runtime_reroute_policy\<close> and its helpers,
  src/src/metroflow/sim/routing_runtime.py): on a trigger, every running agent whose cooldown is over
  compares what is left of its route with the tail chosen for its link and destination, and keeps or
  replaces it.  The choice of a tail is the parameter \<open>tail_choice\<close>; the caches the loop keeps for it
  are transparent because the state they depend on does not change in the loop.
\<close>

section \<open>Triggers, tails and costs\<close>

definition runtime_reroute_trigger :: "int \<Rightarrow> string \<Rightarrow> bool \<Rightarrow> int \<Rightarrow> int \<Rightarrow> string option" where
  "runtime_reroute_trigger transition_tick transition events_active tick interval =
     (if transition_tick = tick then Some (''incident_'' @ transition)
      else if events_active then Some ''incident''
      else if tick mod max 1 interval = 0 then Some ''refresh_interval''
      else None)"

fun first_index :: "int \<Rightarrow> int list \<Rightarrow> nat option" where
  "first_index x [] = None"
| "first_index x (y # ys) = (if x = y then Some 0 else map_option Suc (first_index x ys))"

definition remaining_route_tail :: "int list \<Rightarrow> int \<Rightarrow> int \<Rightarrow> int list" where
  "remaining_route_tail path ptr cur =
     (if 0 \<le> ptr \<and> ptr < int (length path) \<and> path ! nat ptr = cur then drop (nat ptr + 1) path
      else case first_index cur path of None \<Rightarrow> [] | Some i \<Rightarrow> drop (i + 1) path)"

definition route_prefix :: "int list \<Rightarrow> int \<Rightarrow> int \<Rightarrow> int list" where
  "route_prefix path ptr cur =
     (if 0 \<le> ptr \<and> ptr < int (length path) \<and> path ! nat ptr = cur then take (nat ptr + 1) path
      else case first_index cur path of None \<Rightarrow> [cur] | Some i \<Rightarrow> take (i + 1) path)"

text \<open>\<^verbatim>\<open>_path_link_cost\<close>: a float64 sum of float32 costs; an unusable link makes it infinite.\<close>

fun path_link_cost :: "road_network \<Rightarrow> link_state \<Rightarrow> rat \<Rightarrow> int list \<Rightarrow> pyfloat" where
  "path_link_cost net ls acc [] = Fin acc"
| "path_link_cost net ls acc (l # path) = (case link_index net l of
      None \<Rightarrow> PosInf
    | Some i \<Rightarrow>
        if length (travel_time_cost ls) \<le> i \<or> r32 (travel_time_cost ls ! i) \<le> 0 then PosInf
        else path_link_cost net ls (r64 (acc + r32 (travel_time_cost ls ! i))) path)"

definition default_route_profile :: "int \<Rightarrow> route_profile" where
  "default_route_profile i = \<lparr>behavior_profile = i, delay_sensitivity = 5 / 4, reroute_willingness = r64 (65 / 100),
     persistence_bias = 1 / 2, exploration_bias = r64 (1 / 10)\<rparr>"

definition route_choice_profile_for_slot :: "(int \<rightharpoonup> route_profile) \<Rightarrow> int \<Rightarrow> route_profile" where
  "route_choice_profile_for_slot profiles i = (case profiles i of Some p \<Rightarrow> p | None \<Rightarrow> default_route_profile i)"

section \<open>The phase\<close>

text \<open>\<open>re_tails\<close> gives, for a current link and a destination, the route from the end of that link.\<close>

record reroute_env =
  re_net :: road_network
  re_links :: link_state
  re_kernel :: reroute_kernel
  re_backend :: string
  re_profiles :: "int \<rightharpoonup> route_profile"
  re_tails :: "int \<Rightarrow> int \<Rightarrow> route_selection option"
  re_tick :: int
  re_skip :: "int set"

record reroute_state =
  rr_cooldown :: "int list"
  rr_memory :: "int \<rightharpoonup> memo plugin_entry"
  rr_rerouted :: nat
  rr_cooled :: nat
  rr_changed :: bool

definition slot_plugin_memory :: "(int \<rightharpoonup> memo plugin_entry) \<Rightarrow> nat \<Rightarrow> memory_dict" where
  "slot_plugin_memory mem k = (case mem (int k) of Some (DictEntry d) \<Rightarrow> d | _ \<Rightarrow> Map.empty)"

definition decision_memory :: "int \<Rightarrow> string \<Rightarrow> reroute_decision \<Rightarrow> memory_dict" where
  "decision_memory tick trigger d = [''last_reroute_tick'' \<mapsto> MemInt tick, ''last_reroute_trigger'' \<mapsto> MemText trigger,
     ''last_reroute_reason'' \<mapsto> MemText (reason_value (decision_reason d)),
     ''last_reroute_improvement_ratio'' \<mapsto> MemFloat (improvement_ratio d)]"

text \<open>The last part of the loop body, for a slot with another tail to offer.\<close>

definition reroute_agent :: "reroute_env \<Rightarrow> turn_lookup \<Rightarrow> string \<Rightarrow> runtime_pool \<Rightarrow> nat \<Rightarrow> int list \<Rightarrow> route_selection \<Rightarrow>
    reroute_state \<Rightarrow> reroute_state result" where
  "reroute_agent e lookup trigger p k path sel st =
     (let cur = current_link_id p ! k; ptr = remaining_route_ptr p ! k; dest = dest_node_id p ! k in
      bindE (decide_reroute_vs_persist (re_kernel e) (re_backend e)
          (route_choice_profile_for_slot (re_profiles e) (behavior_profile_id p ! k))
          (path_link_cost (re_net e) (re_links e) 0 (remaining_route_tail path ptr cur))
          (path_link_cost (re_net e) (re_links e) 0 (selected_path sel)) default_reroute_args) (\<lambda>d.
      let mem = slot_plugin_memory (rr_memory st) k ++ decision_memory (re_tick e) trigger d;
          st' = st\<lparr>rr_cooldown := (rr_cooldown st)[k := next_cooldown d], rr_changed := True\<rparr> in
      if \<not> should_reroute d then Inr (st'\<lparr>rr_memory := (rr_memory st)(int k \<mapsto> DictEntry mem)\<rparr>)
      else let nxt = route_prefix path ptr cur @ selected_path sel in
        bindE (validate_route_path_authority (re_net e) lookup nxt dest) (\<lambda>_.
        Inr (st'\<lparr>rr_memory := (rr_memory st)(int k \<mapsto> DictEntry (mem(''route_path'' \<mapsto> MemPath nxt) ++ selected_memory sel)),
          rr_rerouted := rr_rerouted st + 1\<rparr>))))"

definition reroute_slot :: "reroute_env \<Rightarrow> turn_lookup \<Rightarrow> string \<Rightarrow> runtime_pool \<Rightarrow> nat \<Rightarrow> reroute_state \<Rightarrow>
    reroute_state result" where
  "reroute_slot e lookup trigger p k st =
     (if \<not> alive_mask p ! k \<or> int k \<in> re_skip e then Inr st
      else if 0 < rr_cooldown st ! k then
        Inr (st\<lparr>rr_cooldown := (rr_cooldown st)[k := max 0 (rr_cooldown st ! k - 1)], rr_cooled := rr_cooled st + 1,
          rr_changed := True\<rparr>)
      else bindE (route_path_of (slot_plugin_memory (rr_memory st) k)) (\<lambda>path.
        let cur = current_link_id p ! k; tail = remaining_route_tail path (remaining_route_ptr p ! k) cur in
        if tail = [] then Inr st
        else (case re_tails e cur (dest_node_id p ! k) of
            None \<Rightarrow> Inr st
          | Some sel \<Rightarrow> if selected_path sel = [] \<or> selected_path sel = tail then Inr st
              else reroute_agent e lookup trigger p k path sel st)))"

definition replace_pool_reroute_state :: "runtime_pool \<Rightarrow> int list \<Rightarrow> (int \<rightharpoonup> memo plugin_entry) \<Rightarrow> runtime_pool result" where
  "replace_pool_reroute_state p cooldown mem =
     pool_from_internal_arrays (p\<lparr>reroute_cooldown_ticks := cooldown, plugin_memory := mem\<rparr>)"

definition start_reroute :: "runtime_pool \<Rightarrow> reroute_state" where
  "start_reroute p = \<lparr>rr_cooldown = reroute_cooldown_ticks p, rr_memory = plugin_memory p, rr_rerouted = 0, rr_cooled = 0,
     rr_changed = False\<rparr>"

definition apply_runtime_reroute_policy :: "reroute_env \<Rightarrow> node_state \<Rightarrow> string option \<Rightarrow> runtime_pool \<Rightarrow>
    (runtime_pool \<times> nat \<times> nat) result" where
  "apply_runtime_reroute_policy e ns trigger p = (case trigger of
       None \<Rightarrow> Inr (p, 0, 0)
     | Some tr \<Rightarrow>
        if alive_count p \<le> 0 then Inr (p, 0, 0)
        else bindE (runtime_turn_index_lookup (re_net e) ns) (\<lambda>lookup.
          bindE (foldE (reroute_slot e lookup tr p) [0..<length (alive_mask p)] (start_reroute p)) (\<lambda>st.
          bindE (if rr_changed st then replace_pool_reroute_state p (rr_cooldown st) (rr_memory st) else Inr p) (\<lambda>q.
          Inr (q, rr_rerouted st, rr_cooled st)))))"

section \<open>What the phase keeps\<close>

definition reroute_pool :: "runtime_pool \<Rightarrow> reroute_state \<Rightarrow> runtime_pool" where
  "reroute_pool p st = p\<lparr>reroute_cooldown_ticks := rr_cooldown st, plugin_memory := rr_memory st\<rparr>"

lemma reroute_pool_simps [simp]:
  "alive_mask (reroute_pool p st) = alive_mask p" "trip_id (reroute_pool p st) = trip_id p"
  "current_link_id (reroute_pool p st) = current_link_id p" "dest_node_id (reroute_pool p st) = dest_node_id p"
  "remaining_route_ptr (reroute_pool p st) = remaining_route_ptr p" "capacity (reroute_pool p st) = capacity p"
  "alive_count (reroute_pool p st) = alive_count p" "progress_01 (reroute_pool p st) = progress_01 p"
  "plugin_memory (reroute_pool p st) = rr_memory st" "reroute_cooldown_ticks (reroute_pool p st) = rr_cooldown st"
  by (simp_all add: reroute_pool_def)

text \<open>Tails chosen by the caller do not overwrite the keys the runtime reads.\<close>

definition tails_ok :: "reroute_env \<Rightarrow> bool" where
  "tails_ok e \<longleftrightarrow> (\<forall>cur dest sel. re_tails e cur dest = Some sel \<longrightarrow> selection_ok sel)"

text \<open>What an agent keeps: its link, its destination, its identity, and the route up to its link.\<close>

definition same_progress :: "runtime_pool \<Rightarrow> runtime_pool \<Rightarrow> nat \<Rightarrow> bool" where
  "same_progress p q k \<longleftrightarrow> (\<forall>path. read_slot_route p k = Inr path \<longrightarrow>
     (\<exists>path'. read_slot_route q k = Inr path' \<and>
        take (nat (remaining_route_ptr p ! k) + 1) path' = take (nat (remaining_route_ptr p ! k) + 1) path))"

lemma same_progress_refl [simp]: "same_progress p p k"
  by (simp add: same_progress_def)

lemma same_progress_trans:
  assumes "same_progress p q k" "same_progress q r k" "remaining_route_ptr q = remaining_route_ptr p"
  shows "same_progress p r k"
  using assms by (fastforce simp: same_progress_def)

definition reroute_inv :: "reroute_env \<Rightarrow> turn_lookup \<Rightarrow> runtime_pool \<Rightarrow> reroute_state \<Rightarrow> bool" where
  "reroute_inv e lookup p st \<longleftrightarrow> pool_ok (reroute_pool p st) \<and> agents_routed (re_net e) lookup (reroute_pool p st) {} \<and>
     (\<forall>k < length (alive_mask p). alive_mask p ! k \<longrightarrow> same_progress p (reroute_pool p st) k) \<and>
     (\<forall>k < length (alive_mask p). alive_mask p ! k \<and> int k \<in> re_skip e \<longrightarrow> rr_memory st (int k) = plugin_memory p (int k))"

lemma pool_ok_cooldown:
  assumes "pool_ok p" "0 \<le> c" "alive_mask p ! k" "k < length (alive_mask p)"
  shows "pool_ok (p\<lparr>reroute_cooldown_ticks := (reroute_cooldown_ticks p)[k := c], plugin_memory := m\<rparr>)"
proof -
  have "\<forall>x \<in> set ((reroute_cooldown_ticks p)[k := c]). 0 \<le> x"
    using assms(1,2) by (intro ball_update) (auto simp: pool_ok_def pool_values_ok_def)
  then show ?thesis
    using assms by (auto simp: pool_ok_def pool_shaped_def free_ids_def pool_values_ok_def slot_clean_def nth_list_update)
qed

lemma identity_cong:
  assumes "m ''trip_request_id'' = d ''trip_request_id''" "trip_id q ! k = trip_id p ! k"
  shows "validate_slot_trip_identity q k m = validate_slot_trip_identity p k d"
  unfolding validate_slot_trip_identity_def assms by (rule refl)

text \<open>The memory of a slot whose route reads is a dictionary with that path; a dictionary with another
  path and the same trip reads as the other path.\<close>

lemma slot_route_memory:
  assumes "read_slot_route p k = Inr path" "path \<noteq> []"
  obtains d where "plugin_memory p (int k) = Some (DictEntry d)" "d ''route_path'' = Some (MemPath path)"
    "validate_slot_trip_identity p k d = Inr ()"
proof -
  obtain d where d: "slot_memory_of p k = Inr d" "route_path_of d = Inr path" "validate_slot_trip_identity p k d = Inr ()"
    using assms(1) by (auto simp: read_slot_route_def check_simps)
  have path: "d ''route_path'' = Some (MemPath path)"
    using d(2) assms(2) by (auto simp: route_path_of_def split: option.splits memo.splits)
  then have "plugin_memory p (int k) = Some (DictEntry d)"
    using d(1) by (auto simp: slot_memory_of_def split: option.splits plugin_entry.splits)
  then show ?thesis using that path d(3) by blast
qed

lemma slot_route_replaced:
  assumes "plugin_memory q (int k) = Some (DictEntry m)" "m ''route_path'' = Some (MemPath path')"
    "m ''trip_request_id'' = d ''trip_request_id''" "trip_id q ! k = trip_id p ! k"
    "validate_slot_trip_identity p k d = Inr ()"
  shows "read_slot_route q k = Inr path'"
proof -
  have "validate_slot_trip_identity q k m = Inr ()"
    using identity_cong[of m d q k p] assms(3-5) by simp
  then show ?thesis using assms(1,2) by (simp add: read_slot_route_def slot_memory_of_def route_path_of_def)
qed

lemma decision_memory_keys [simp]:
  "decision_memory tick tr d ''route_path'' = None" "decision_memory tick tr d ''trip_request_id'' = None"
  by (simp_all add: decision_memory_def)

lemma decide_cooldown: "decide_reroute_vs_persist kn b p x y a = Inr d \<Longrightarrow> 0 \<le> next_cooldown d"
  by (auto simp: decide_reroute_vs_persist_def check_simps Let_def split: if_splits prod.splits)

section \<open>One agent\<close>

lemma route_on_prefix:
  assumes "on_route path ptr cur"
  shows "on_route (route_prefix path ptr cur @ tail) ptr cur"
    "take (nat ptr + 1) (route_prefix path ptr cur @ tail) = take (nat ptr + 1) path"
proof -
  have r: "path \<noteq> []" "0 \<le> ptr" "ptr < int (length path)" "nat ptr < length path" "path ! nat ptr = cur" using assms by (auto simp: on_route_def)
  then have eq: "route_prefix path ptr cur = take (nat ptr + 1) path" by (simp add: route_prefix_def)
  have len: "length (take (nat ptr + 1) path) = nat ptr + 1" using r(4) by simp
  show "on_route (route_prefix path ptr cur @ tail) ptr cur"
    unfolding eq on_route_def using r len by (auto simp: nth_append)
  show "take (nat ptr + 1) (route_prefix path ptr cur @ tail) = take (nat ptr + 1) path"
    unfolding eq using len by simp
qed

text \<open>Writing the memory and the cooldown of one running slot.\<close>

lemma reroute_written:
  assumes inv: "reroute_inv e lookup p st" and k: "k < length (alive_mask p)" "alive_mask p ! k" "int k \<notin> re_skip e"
    and c: "0 \<le> c"
    and st': "rr_cooldown st' = (rr_cooldown st)[k := c]"
      "rr_memory st' = (rr_memory st)(int k := entry)"
    and routed: "slot_routed (re_net e) lookup (reroute_pool p st') k"
    and kept: "same_progress (reroute_pool p st) (reroute_pool p st') k"
  shows "reroute_inv e lookup p st'"
proof -
  let ?q = "reroute_pool p st" and ?q' = "reroute_pool p st'"
  have i: "pool_ok ?q" "agents_routed (re_net e) lookup ?q {}"
    "\<forall>k < length (alive_mask p). alive_mask p ! k \<longrightarrow> same_progress p ?q k"
    "\<forall>k < length (alive_mask p). alive_mask p ! k \<and> int k \<in> re_skip e \<longrightarrow> rr_memory st (int k) = plugin_memory p (int k)"
    using inv unfolding reroute_inv_def by blast+
  have "?q' = ?q\<lparr>reroute_cooldown_ticks := (reroute_cooldown_ticks ?q)[k := c], plugin_memory := rr_memory st'\<rparr>"
    by (simp add: reroute_pool_def st'(1))
  moreover have "pool_ok \<dots>" by (rule pool_ok_cooldown[OF i(1) c]) (use k in simp_all)
  ultimately have ok: "pool_ok ?q'" by simp
  have same: "same_slot ?q ?q' j" if "j \<noteq> k" for j using that by (simp add: same_slot_def st'(2))
  have "agents_routed (re_net e) lookup ?q' {}"
    by (rule agents_routed_update[OF i(2) _ same routed]) simp_all
  moreover have "same_progress p ?q' j" if j: "j < length (alive_mask p)" "alive_mask p ! j" for j
  proof (cases "j = k")
    case True
    then show ?thesis using same_progress_trans[OF _ kept] i(3) j by simp
  next
    case False
    have "read_slot_route ?q' j = read_slot_route ?q j" by (rule read_slot_route_cong) (use False in \<open>simp_all add: st'(2)\<close>)
    then show ?thesis using i(3) j by (simp add: same_progress_def)
  qed
  moreover have "rr_memory st' (int j) = plugin_memory p (int j)"
    if "j < length (alive_mask p)" "alive_mask p ! j \<and> int j \<in> re_skip e" for j
    using i(4) that k(3) by (auto simp: st'(2))
  ultimately show ?thesis using ok unfolding reroute_inv_def by blast
qed

lemma reroute_agent_inv:
  assumes inv: "reroute_inv e lookup p st" and k: "k < length (alive_mask p)" "alive_mask p ! k" "int k \<notin> re_skip e"
    and sel: "selection_ok sel"
    and path: "route_path_of (slot_plugin_memory (rr_memory st) k) = Inr path"
    and run: "reroute_agent e lookup tr p k path sel st = Inr st'"
  shows "reroute_inv e lookup p st'"
proof -
  let ?q = "reroute_pool p st" and ?q' = "reroute_pool p st'"
  have "slot_routed (re_net e) lookup ?q k"
    using inv k by (simp add: reroute_inv_def agents_routed_def active_def)
  then obtain path' where route: "read_slot_route ?q k = Inr path'"
    "on_route path' (remaining_route_ptr p ! k) (current_link_id p ! k)"
    "validate_route_path_authority (re_net e) lookup path' (dest_node_id p ! k) = Inr ()"
    by (auto simp: slot_routed_def)
  then have "path' \<noteq> []" by (simp add: on_route_def)
  from slot_route_memory[OF route(1) this] obtain m where m: "rr_memory st (int k) = Some (DictEntry m)"
    "m ''route_path'' = Some (MemPath path')" "validate_slot_trip_identity ?q k m = Inr ()"
    by auto
  then have mem: "slot_plugin_memory (rr_memory st) k = m" and eq: "path' = path"
    using path by (simp_all add: slot_plugin_memory_def route_path_of_def)
  obtain d where d: "0 \<le> next_cooldown d"
    and cases: "\<not> should_reroute d \<and> st' = st\<lparr>rr_cooldown := (rr_cooldown st)[k := next_cooldown d], rr_changed := True,
         rr_memory := (rr_memory st)(int k \<mapsto> DictEntry (m ++ decision_memory (re_tick e) tr d))\<rparr> \<or>
       (\<exists>nxt. nxt = route_prefix path (remaining_route_ptr p ! k) (current_link_id p ! k) @ selected_path sel \<and>
          validate_route_path_authority (re_net e) lookup nxt (dest_node_id p ! k) = Inr () \<and>
          st' = st\<lparr>rr_cooldown := (rr_cooldown st)[k := next_cooldown d], rr_changed := True,
            rr_memory := (rr_memory st)(int k \<mapsto> DictEntry
              ((m ++ decision_memory (re_tick e) tr d)(''route_path'' \<mapsto> MemPath nxt) ++ selected_memory sel)),
            rr_rerouted := rr_rerouted st + 1\<rparr>)"
    using run by (auto simp: reroute_agent_def check_simps Let_def mem dest: decide_cooldown split: if_splits)
  from cases show ?thesis
  proof (elim disjE conjE exE)
    assume st': "st' = st\<lparr>rr_cooldown := (rr_cooldown st)[k := next_cooldown d], rr_changed := True,
         rr_memory := (rr_memory st)(int k \<mapsto> DictEntry (m ++ decision_memory (re_tick e) tr d))\<rparr>"
    have "read_slot_route ?q' k = Inr path'"
      by (rule slot_route_replaced[where d = m and p = ?q and m = "m ++ decision_memory (re_tick e) tr d"])
        (use m(2,3) in \<open>simp_all add: st' map_add_def\<close>)
    then show ?thesis
      by (intro reroute_written[OF inv k d]) (use route in \<open>auto simp: st' slot_routed_def same_progress_def\<close>)
  next
    fix nxt
    assume nxt: "nxt = route_prefix path (remaining_route_ptr p ! k) (current_link_id p ! k) @ selected_path sel"
      "validate_route_path_authority (re_net e) lookup nxt (dest_node_id p ! k) = Inr ()"
      and st': "st' = st\<lparr>rr_cooldown := (rr_cooldown st)[k := next_cooldown d], rr_changed := True,
            rr_memory := (rr_memory st)(int k \<mapsto> DictEntry
              ((m ++ decision_memory (re_tick e) tr d)(''route_path'' \<mapsto> MemPath nxt) ++ selected_memory sel)),
            rr_rerouted := rr_rerouted st + 1\<rparr>"
    have read: "read_slot_route ?q' k = Inr nxt"
      by (rule slot_route_replaced[where d = m and p = ?q and m = "(m ++ decision_memory (re_tick e) tr d)
          (''route_path'' \<mapsto> MemPath nxt) ++ selected_memory sel"])
        (use m(2,3) sel in \<open>simp_all add: st' map_add_def selection_ok_def\<close>)
    note on = route_on_prefix[OF route(2)[unfolded eq], of "selected_path sel", folded nxt(1)]
    show ?thesis
      by (intro reroute_written[OF inv k d])
        (use route read on nxt(2) in \<open>auto simp: st' slot_routed_def same_progress_def eq\<close>)
  qed
qed

section \<open>The whole phase\<close>

lemma reroute_slot_inv:
  assumes "reroute_inv e lookup p st" "k < length (alive_mask p)" "tails_ok e"
    and "reroute_slot e lookup tr p k st = Inr st'"
  shows "reroute_inv e lookup p st'"
proof (cases "alive_mask p ! k \<and> int k \<notin> re_skip e")
  case False
  then show ?thesis using assms(1,4) by (auto simp: reroute_slot_def)
next
  case live: True
  show ?thesis
  proof (cases "0 < rr_cooldown st ! k")
    case True
    let ?c = "max 0 (rr_cooldown st ! k - 1)"
    have st': "st' = st\<lparr>rr_cooldown := (rr_cooldown st)[k := ?c], rr_cooled := rr_cooled st + 1, rr_changed := True\<rparr>"
      using assms(4) live True by (simp add: reroute_slot_def)
    have mem: "rr_memory st' = rr_memory st" by (simp add: st')
    have read: "read_slot_route (reroute_pool p st') k = read_slot_route (reroute_pool p st) k"
      by (rule read_slot_route_cong) (simp_all add: mem)
    have "slot_routed (re_net e) lookup (reroute_pool p st) k"
      using assms(1,2) live by (simp add: reroute_inv_def agents_routed_def active_def)
    then show ?thesis
      by (intro reroute_written[OF assms(1,2), where c = ?c and entry = "rr_memory st (int k)"])
        (use live read in \<open>auto simp: st' slot_routed_def same_progress_def\<close>)
  next
    case False
    then obtain path where path: "route_path_of (slot_plugin_memory (rr_memory st) k) = Inr path"
      "st' = st \<or> (\<exists>sel. re_tails e (current_link_id p ! k) (dest_node_id p ! k) = Some sel \<and>
         reroute_agent e lookup tr p k path sel st = Inr st')"
      using assms(4) live by (auto simp: reroute_slot_def check_simps Let_def split: if_splits option.splits)
    then show ?thesis
      using reroute_agent_inv[OF assms(1,2) _ _ _ path(1)] assms(1,3) live unfolding tails_ok_def by blast
  qed
qed

lemma reroute_policy_ok:
  assumes "apply_runtime_reroute_policy e ns trigger p = Inr (q, n, m)" "tails_ok e"
    and "runtime_turn_index_lookup (re_net e) ns = Inr lookup" "pool_ok p" "agents_routed (re_net e) lookup p {}"
  shows "pool_ok q" "agents_routed (re_net e) lookup q {}"
    "\<exists>cool mem. q = p\<lparr>reroute_cooldown_ticks := cool, plugin_memory := mem\<rparr>"
    "\<forall>k < length (alive_mask p). alive_mask p ! k \<longrightarrow> same_progress p q k"
    "\<forall>k < length (alive_mask p). alive_mask p ! k \<and> int k \<in> re_skip e \<longrightarrow> plugin_memory q (int k) = plugin_memory p (int k)"
proof -
  have refl: "p = p\<lparr>reroute_cooldown_ticks := reroute_cooldown_ticks p, plugin_memory := plugin_memory p\<rparr>" by simp
  have "pool_ok q \<and> agents_routed (re_net e) lookup q {} \<and>
    (\<exists>cool mem. q = p\<lparr>reroute_cooldown_ticks := cool, plugin_memory := mem\<rparr>) \<and>
    (\<forall>k < length (alive_mask p). alive_mask p ! k \<longrightarrow> same_progress p q k) \<and>
    (\<forall>k < length (alive_mask p). alive_mask p ! k \<and> int k \<in> re_skip e \<longrightarrow> plugin_memory q (int k) = plugin_memory p (int k))"
  proof (cases "q = p")
    case True
    then show ?thesis using assms(4,5) refl by (metis same_progress_refl)
  next
    case False
    then obtain tr st where st: "foldE (reroute_slot e lookup tr p) [0..<length (alive_mask p)] (start_reroute p) = Inr st"
      "replace_pool_reroute_state p (rr_cooldown st) (rr_memory st) = Inr q"
      using assms(1,3) by (auto simp: apply_runtime_reroute_policy_def check_simps split: option.splits if_splits)
    have "reroute_inv e lookup p st"
    proof (rule foldE_invariant[OF st(1)])
      have "reroute_pool p (start_reroute p) = p" by (simp add: reroute_pool_def start_reroute_def)
      then show "reroute_inv e lookup p (start_reroute p)"
        using assms(4,5) by (simp add: reroute_inv_def start_reroute_def)
    qed (use reroute_slot_inv[OF _ _ assms(2)] in auto)
    moreover have "q = reroute_pool p st"
      using st(2) pool_internal_ok[of "reroute_pool p st"] \<open>reroute_inv e lookup p st\<close>
      by (simp add: replace_pool_reroute_state_def reroute_inv_def flip: reroute_pool_def)
    ultimately show ?thesis
      unfolding reroute_inv_def by (auto simp: reroute_pool_def intro!: exI)
  qed
  then show "pool_ok q" "agents_routed (re_net e) lookup q {}"
    "\<exists>cool mem. q = p\<lparr>reroute_cooldown_ticks := cool, plugin_memory := mem\<rparr>"
    "\<forall>k < length (alive_mask p). alive_mask p ! k \<longrightarrow> same_progress p q k"
    "\<forall>k < length (alive_mask p). alive_mask p ! k \<and> int k \<in> re_skip e \<longrightarrow> plugin_memory q (int k) = plugin_memory p (int k)"
    by blast+
qed

end
