(* ===== verification/TripLedger.thy ===== *)
theory TripLedger
  imports Rerouting
begin

text \<open>
  The books of the trips across the runtime phases of src/src/metroflow/sim/routing_runtime.py: every
  trip that was allocated and not completed is carried by exactly one live agent.  Admission enters
  trips, the commit of sink tokens completes them, and the other phases leave the books alone.  This is
  the relation the conservation hook of src/src/metroflow/sim/invariants.py counts.
\<close>

section \<open>The trips on the road\<close>

definition trip_slots :: "runtime_pool \<Rightarrow> nat set" where
  "trip_slots p = {k. k < length (alive_mask p) \<and> alive_mask p ! k}"

definition running_trips :: "runtime_pool \<Rightarrow> int set" where
  "running_trips p = (\<lambda>k. trip_id p ! k) ` trip_slots p"

definition one_agent_per_trip :: "runtime_pool \<Rightarrow> bool" where
  "one_agent_per_trip p \<longleftrightarrow> inj_on (\<lambda>k. trip_id p ! k) (trip_slots p)"

definition trip_ledger :: "runtime_pool \<Rightarrow> demand_ids \<Rightarrow> bool" where
  "trip_ledger p ids \<longleftrightarrow> one_agent_per_trip p \<and> running_trips p = allocated_trips ids - completed_trips ids \<and>
     completed_trips ids \<subseteq> allocated_trips ids \<and> failed_trips ids \<inter> allocated_trips ids = {}"

lemma ledger_cong:
  assumes "alive_mask q = alive_mask p" "trip_id q = trip_id p"
  shows "trip_slots q = trip_slots p" "running_trips q = running_trips p" "one_agent_per_trip q = one_agent_per_trip p"
  using assms by (simp_all add: trip_slots_def running_trips_def one_agent_per_trip_def)

lemma trip_slots_finite [simp]: "finite (trip_slots p)"
  by (simp add: trip_slots_def)

lemma alive_running:
  assumes "pool_ok p" "one_agent_per_trip p" shows "alive_count p = int (card (running_trips p))"
proof -
  have "alive_count p = int (count_list (alive_mask p) True)" using assms(1) by (simp add: pool_ok_def)
  also have "count_list (alive_mask p) True = card (trip_slots p)"
  proof -
    have "count_list xs True = card {k. k < length xs \<and> xs ! k}" for xs
      by (simp add: count_list_eq_length_filter length_filter_conv_card)
    then show ?thesis by (simp add: trip_slots_def)
  qed
  finally show ?thesis using assms(2) by (simp add: running_trips_def one_agent_per_trip_def card_image)
qed

lemma trips_released:
  assumes "k < length (alive_mask p)" "alive_mask p ! k" "one_agent_per_trip p" "length (trip_id p) = length (alive_mask p)"
  shows "running_trips (runtime_release_slot p k) = running_trips p - {trip_id p ! k}"
    "one_agent_per_trip (runtime_release_slot p k)" "trip_id p ! k \<in> running_trips p"
proof -
  have slots: "trip_slots (runtime_release_slot p k) = trip_slots p - {k}"
    using assms(1) by (auto simp: trip_slots_def runtime_release_slot_def nth_list_update)
  have k: "k \<in> trip_slots p" using assms(1,2) by (simp add: trip_slots_def)
  have same: "trip_id (runtime_release_slot p k) ! j = trip_id p ! j" if "j \<in> trip_slots p - {k}" for j
    using that by (simp add: runtime_release_slot_def)
  have inj: "inj_on (\<lambda>k. trip_id p ! k) (trip_slots p)" using assms(3) by (simp add: one_agent_per_trip_def)
  show "running_trips (runtime_release_slot p k) = running_trips p - {trip_id p ! k}"
    unfolding running_trips_def slots using same inj k
    by (auto simp: image_def inj_on_def)
  show "one_agent_per_trip (runtime_release_slot p k)"
    unfolding one_agent_per_trip_def slots using same inj by (auto simp: inj_on_def)
  show "trip_id p ! k \<in> running_trips p" using k by (simp add: running_trips_def)
qed

lemma trips_occupied:
  assumes "pool_ok p" "0 < free_slot_count p" "one_agent_per_trip p" "slot_trip s \<notin> running_trips p"
  shows "running_trips (occupied p (top_slot p) s) = insert (slot_trip s) (running_trips p)"
    "one_agent_per_trip (occupied p (top_slot p) s)"
proof -
  let ?k = "top_slot p" and ?q = "occupied p (top_slot p) s"
  have k: "?k < length (alive_mask p)" "\<not> alive_mask p ! ?k" "?k < length (trip_id p)"
    using free_split[OF assms(1,2)] assms(1) by (simp_all add: pool_ok_def pool_shaped_def)
  have slots: "trip_slots ?q = insert ?k (trip_slots p)" "?k \<notin> trip_slots p"
    using k by (auto simp: trip_slots_def occupied_def nth_list_update)
  have t: "trip_id ?q ! j = trip_id p ! j" if "j \<in> trip_slots p" for j
    using that k slots(2) by (cases "j = ?k") (auto simp: occupied_def fill_slot_def)
  have k1: "trip_id ?q ! ?k = slot_trip s" using k by (simp add: occupied_def fill_slot_def)
  show "running_trips ?q = insert (slot_trip s) (running_trips p)"
    unfolding running_trips_def slots(1) using t k1 by (auto simp: image_def)
  show "one_agent_per_trip ?q"
    using assms(3,4) t k1 slots(2) unfolding one_agent_per_trip_def slots(1)
    by (auto simp: inj_on_def running_trips_def image_def)
qed

section \<open>The commit completes what it releases\<close>

lemma commit_slot_cases:
  assumes "commit_slot net lookup skip p0 k st = Inr st'"
  shows "(alive_mask (cs_pool st') = alive_mask (cs_pool st) \<and> trip_id (cs_pool st') = trip_id (cs_pool st) \<and>
      cs_completed st' = cs_completed st) \<or>
    (alive_mask p0 ! k \<and> cs_pool st' = runtime_release_slot (cs_pool st) k \<and>
      cs_completed st' = cs_completed st @ [trip_id (cs_pool st) ! k])"
  using assms
  by (auto simp: commit_slot_def Let_def check_simps runtime_move_slot_def split: if_splits option.splits)

definition commit_books :: "runtime_pool \<Rightarrow> commit_state \<Rightarrow> bool" where
  "commit_books p0 st \<longleftrightarrow> one_agent_per_trip (cs_pool st) \<and> distinct (cs_completed st) \<and>
     running_trips (cs_pool st) = running_trips p0 - set (cs_completed st) \<and> set (cs_completed st) \<subseteq> running_trips p0 \<and>
     length (alive_mask (cs_pool st)) = length (alive_mask p0) \<and>
     length (trip_id (cs_pool st)) = length (alive_mask p0)"

lemma commit_loop_books:
  assumes "foldE (commit_slot net lookup skip p0) ks st = Inr st'" "commit_books p0 st" "distinct ks"
    "\<forall>k \<in> set ks. k < length (alive_mask p0) \<and> alive_mask (cs_pool st) ! k = alive_mask p0 ! k"
  shows "commit_books p0 st'"
  using assms
proof (induction ks arbitrary: st)
  case (Cons k ks)
  obtain st1 where st1: "commit_slot net lookup skip p0 k st = Inr st1" "foldE (commit_slot net lookup skip p0) ks st1 = Inr st'"
    using Cons.prems(1) by (auto simp: check_simps)
  note cases = commit_slot_cases[OF st1(1)]
  have books: "commit_books p0 st1"
    using cases
  proof (elim disjE conjE)
    assume "alive_mask (cs_pool st1) = alive_mask (cs_pool st)" "trip_id (cs_pool st1) = trip_id (cs_pool st)"
      "cs_completed st1 = cs_completed st"
    then show ?thesis using Cons.prems(2) ledger_cong[of "cs_pool st1" "cs_pool st"] by (simp add: commit_books_def)
  next
    assume rel: "alive_mask p0 ! k" "cs_pool st1 = runtime_release_slot (cs_pool st) k"
      "cs_completed st1 = cs_completed st @ [trip_id (cs_pool st) ! k]"
    have k: "k < length (alive_mask (cs_pool st))" "alive_mask (cs_pool st) ! k"
      using rel(1) Cons.prems(2,4) by (simp_all add: commit_books_def)
    have b: "one_agent_per_trip (cs_pool st)" "distinct (cs_completed st)"
      "running_trips (cs_pool st) = running_trips p0 - set (cs_completed st)" "set (cs_completed st) \<subseteq> running_trips p0"
      "length (trip_id (cs_pool st)) = length (alive_mask (cs_pool st))"
      "length (alive_mask (cs_pool st)) = length (alive_mask p0)"
      using Cons.prems(2) by (simp_all add: commit_books_def)
    note gone = trips_released[OF k b(1,5)]
    have len: "length (alive_mask (cs_pool st1)) = length (alive_mask p0)" "length (trip_id (cs_pool st1)) = length (alive_mask p0)"
      using b(5,6) by (simp_all add: rel(2) runtime_release_slot_def)
    have "trip_id (cs_pool st) ! k \<notin> set (cs_completed st)" "trip_id (cs_pool st) ! k \<in> running_trips p0"
      using gone(3) unfolding b(3) by simp_all
    then have "distinct (cs_completed st1)" "set (cs_completed st1) \<subseteq> running_trips p0"
      "running_trips (cs_pool st1) = running_trips p0 - set (cs_completed st1)"
      using b(2,4) gone(1)[unfolded b(3)] by (auto simp: rel(2,3))
    then show ?thesis unfolding commit_books_def rel(2) using gone(2) len by (simp add: rel(2))
  qed
  have kept: "alive_mask (cs_pool st1) ! j = alive_mask p0 ! j" if "j \<in> set ks" for j
  proof -
    have "alive_mask (cs_pool st) ! j = alive_mask p0 ! j" "j \<noteq> k" using Cons.prems(3,4) that by auto
    then show ?thesis using cases by (elim disjE conjE) (simp_all add: runtime_release_slot_def)
  qed
  show ?case
    by (rule Cons.IH[OF st1(2) books]) (use Cons.prems(3,4) kept in simp_all)
qed simp

lemma commit_ledger:
  assumes "commit_runtime_active_agent_flows net ab p ns skip ids = Inr (q, st, ids')" "pool_ok p" "trip_ledger p ids"
  shows "trip_ledger q ids'" "allocated_trips ids' = allocated_trips ids" "failed_trips ids' = failed_trips ids"
    "completed_trips ids' = completed_trips ids \<union> set (cs_completed st)"
    "set (cs_completed st) \<subseteq> allocated_trips ids - completed_trips ids" "distinct (cs_completed st)"
proof -
  obtain lookup tt ss st0 where run: "foldE (commit_slot net lookup skip p) [0..<length (alive_mask p)]
      \<lparr>cs_pool = p, cs_turn_tokens = tt, cs_sink_tokens = ss, cs_completed = [], cs_moved = 0, cs_sink_wait = 0\<rparr> = Inr st0"
    and q: "pool_from_internal_arrays (cs_pool st0) = Inr q" "cs_completed st = cs_completed st0"
    and ids': "ids' = ids\<lparr>completed_trips := completed_trips ids \<union> set (cs_completed st)\<rparr>"
    using assms(1)
    by (auto simp: commit_runtime_active_agent_flows_def advance_pool_along_realized_turns_def check_simps)
  have ledger: "one_agent_per_trip p" "running_trips p = allocated_trips ids - completed_trips ids"
    "completed_trips ids \<subseteq> allocated_trips ids" "failed_trips ids \<inter> allocated_trips ids = {}"
    using assms(3) by (simp_all add: trip_ledger_def)
  have "length (trip_id p) = length (alive_mask p)" using assms(2) by (simp add: pool_ok_def pool_shaped_def)
  then have "commit_books p st0"
    by (intro commit_loop_books[OF run]) (use ledger(1) in \<open>auto simp: commit_books_def\<close>)
  then have books: "one_agent_per_trip (cs_pool st0)" "distinct (cs_completed st)"
    "running_trips (cs_pool st0) = running_trips p - set (cs_completed st)" "set (cs_completed st) \<subseteq> running_trips p"
    by (simp_all add: commit_books_def q(2))
  have same: "alive_mask q = alive_mask (cs_pool st0)" "trip_id q = trip_id (cs_pool st0)"
    using q(1) by (auto simp: pool_from_internal_arrays_def check_simps)
  show "trip_ledger q ids'"
    using books ledger ledger_cong[OF same] by (auto simp: trip_ledger_def ids')
  show "allocated_trips ids' = allocated_trips ids" "failed_trips ids' = failed_trips ids"
    "completed_trips ids' = completed_trips ids \<union> set (cs_completed st)" by (simp_all add: ids')
  show "set (cs_completed st) \<subseteq> allocated_trips ids - completed_trips ids" "distinct (cs_completed st)"
    using books(2,4) ledger(2) by simp_all
qed

section \<open>Admission enters what it allocates\<close>

text \<open>A rule for invariants of the admission loop: the two ways in which it changes its state.\<close>

lemma admit_trips_rule:
  assumes "admit_trips spatial net lookup ls tick pois pick done ts st = Inr st'" "P st"
    and fail: "\<And>t st. P st \<Longrightarrow> t \<in> set ts \<Longrightarrow> trip_request_id t \<notin> ad_allocated st \<union> done \<union> ad_failed st \<Longrightarrow>
      P (st\<lparr>ad_failed := insert (trip_request_id t) (ad_failed st),
        ad_reasons := (ad_reasons st)(trip_request_id t \<mapsto> ''no_route_candidate''), ad_failed_count := ad_failed_count st + 1\<rparr>)"
    and admit: "\<And>t st od dest sel st1. P st \<Longrightarrow> t \<in> set ts \<Longrightarrow> trip_request_id t \<notin> ad_allocated st \<union> done \<union> ad_failed st \<Longrightarrow>
      0 < free_slot_count (ad_pool st) \<Longrightarrow> pick od = Some sel \<Longrightarrow>
      admit_selected spatial net lookup ls tick t dest sel st = Inr st1 \<Longrightarrow> P st1"
  shows "P st'"
  using assms
proof (induction ts arbitrary: st)
  case (Cons t ts)
  have rest: "P st'" if "admit_trips spatial net lookup ls tick pois pick done ts st1 = Inr st'" "P st1" for st1
    by (rule Cons.IH[OF that Cons.prems(3) Cons.prems(4)]) simp_all
  show ?case
  proof (cases "trip_request_id t \<in> ad_allocated st \<union> done \<union> ad_failed st \<or> free_slot_count (ad_pool st) \<le> 0")
    case True
    then show ?thesis using Cons.prems(1,2) rest by (auto simp: Let_def split: if_splits)
  next
    case False
    then have fresh: "trip_request_id t \<notin> ad_allocated st \<union> done \<union> ad_failed st" "0 < free_slot_count (ad_pool st)" by auto
    let ?failed = "st\<lparr>ad_failed := insert (trip_request_id t) (ad_failed st),
        ad_reasons := (ad_reasons st)(trip_request_id t \<mapsto> ''no_route_candidate''), ad_failed_count := ad_failed_count st + 1\<rparr>"
    have failed: "P ?failed" by (rule Cons.prems(3)[OF Cons.prems(2) list.set_intros(1) fresh(1)])
    show ?thesis
    proof (cases "trip_od_nodes pois t")
      case None
      then have "admit_trips spatial net lookup ls tick pois pick done ts ?failed = Inr st'"
        using Cons.prems(1) False by (simp add: Let_def)
      then show ?thesis using failed by (rule rest)
    next
      case (Some odn)
      obtain od og dest where odn: "odn = (od, og, dest)" by (cases odn) auto
      show ?thesis
      proof (cases "pick od")
        case None
        then have "admit_trips spatial net lookup ls tick pois pick done ts ?failed = Inr st'"
          using Cons.prems(1) False Some odn by (simp add: Let_def)
        then show ?thesis using failed by (rule rest)
      next
        case sel: (Some sel)
        then obtain st1 where "admit_selected spatial net lookup ls tick t dest sel st = Inr st1"
          "admit_trips spatial net lookup ls tick pois pick done ts st1 = Inr st'"
          using Cons.prems(1) False Some odn by (auto simp: Let_def check_simps)
        then show ?thesis using rest Cons.prems(4)[OF Cons.prems(2) list.set_intros(1) fresh sel] by blast
      qed
    qed
  qed
qed simp

definition admission_ledger :: "int set \<Rightarrow> int set \<Rightarrow> admission_state \<Rightarrow> bool" where
  "admission_ledger done ids st \<longleftrightarrow> pool_ok (ad_pool st) \<and> one_agent_per_trip (ad_pool st) \<and>
     running_trips (ad_pool st) = ad_allocated st - done \<and> done \<subseteq> ad_allocated st \<and>
     ad_failed st \<inter> ad_allocated st = {} \<and> ad_allocated st \<union> ad_failed st \<subseteq> ids"

lemma admit_selected_ledger:
  assumes "admission_ledger done ids st" "trip_request_id t \<notin> ad_allocated st \<union> done \<union> ad_failed st"
    "trip_request_id t \<in> ids" "0 < free_slot_count (ad_pool st)"
    "admit_selected spatial net lookup ls tick t dest sel st = Inr st1"
  shows "admission_ledger done ids st1"
proof -
  let ?t = "trip_request_id t"
  have l: "pool_ok (ad_pool st)" "one_agent_per_trip (ad_pool st)" "running_trips (ad_pool st) = ad_allocated st - done"
    "done \<subseteq> ad_allocated st" "ad_failed st \<inter> ad_allocated st = {}" "ad_allocated st \<union> ad_failed st \<subseteq> ids"
    using assms(1) unfolding admission_ledger_def by blast+
  consider "ad_pool st1 = ad_pool st" "ad_allocated st1 = ad_allocated st" "ad_failed st1 = ad_failed st"
    | s p i where "payload_ok s" "slot_trip s = ?t" "allocate_active_agent_slot (ad_pool st) s = Inr (p, i)"
      "ad_pool st1 = p" "ad_allocated st1 = insert ?t (ad_allocated st)" "ad_failed st1 = ad_failed st"
  proof -
    let ?s = "\<lparr>slot_id = - 1, slot_alive = True, slot_citizen = trip_citizen t, slot_trip = ?t,
      slot_link = hd (selected_path sel), slot_progress = 0, slot_route_ptr = 0, slot_dest = dest, slot_profile = 0,
      slot_cooldown = 0, slot_memory = (Map.empty :: memory_dict)\<rparr>"
    have spawn: "spawn_agent_slot (trip_citizen t) ?t (hd (selected_path sel)) dest 0 (Fin 0) 0 0 = Inr ?s"
      by (simp add: spawn_agent_slot_def make_agent_slot_def check_eval)
    obtain room where room: "validate_route_path_authority net lookup (selected_path sel) dest = Inr ()"
      "source_link_admission_available spatial net ls (hd (selected_path sel)) (ad_increments st) = Inr room"
      using assms(5) by (auto simp: admit_selected_def check_simps Let_def)
    show thesis
    proof (cases room)
      case False
      then have "st1 = st\<lparr>ad_spillback_count := ad_spillback_count st + 1\<rparr>"
        using assms(5) room by (simp add: admit_selected_def Let_def)
      then show thesis by (intro that(1)) simp_all
    next
      case True
      obtain p i where alloc: "allocate_active_agent_slot (ad_pool st) ?s = Inr (p, i)"
        using assms(5) room True spawn by (auto simp: admit_selected_def Let_def check_simps)
      then have "ad_pool st1 = p" "ad_allocated st1 = insert ?t (ad_allocated st)" "ad_failed st1 = ad_failed st"
        using assms(5) room True spawn by (auto simp: admit_selected_def Let_def)
      then show thesis by (intro that(2)[OF _ _ alloc]) (simp_all add: payload_ok_def)
    qed
  qed
  then show ?thesis
  proof cases
    case 1
    then show ?thesis using assms(1) by (simp add: admission_ledger_def)
  next
    case 2
    have p: "p = occupied (ad_pool st) (top_slot (ad_pool st)) s" using allocate_iff[OF l(1) 2(1), of p i] 2(3) by blast
    have "slot_trip s \<notin> running_trips (ad_pool st)" using assms(2) l(3) 2(2) by simp
    note new = trips_occupied[OF l(1) assms(4) l(2) this]
    have "pool_ok p" unfolding p by (rule occupied_ok[OF l(1) 2(1) assms(4)])
    then show ?thesis
      using new l(3-6) assms(2,3) unfolding admission_ledger_def 2(4-6) p 2(2) by auto
  qed
qed

lemma admission_keeps_ledger:
  assumes "allocate_activated_trips spatial net ls ns tick pois pick trips ids reasons p = Inr (q, st)"
    "pool_ok p" "trip_ledger p ids" "allocated_trips ids \<union> failed_trips ids \<subseteq> trip_request_id ` set trips"
  defines "ids' \<equiv> ids\<lparr>allocated_trips := ad_allocated st, failed_trips := ad_failed st\<rparr>"
  shows "trip_ledger q ids'" "allocated_trips ids' \<union> failed_trips ids' \<subseteq> trip_request_id ` set trips"
proof -
  obtain lookup where run: "admit_trips spatial net lookup ls tick pois pick (completed_trips ids) (activated_trip_requests trips)
      (start_admission p ids reasons) = Inr st"
    and q: "q = ad_pool st \<or> replace_pool_plugin_memory (ad_pool st) (ad_memory st) = Inr q"
    using assms(1) by (auto simp: allocate_activated_trips_def check_simps split: if_splits)
  let ?ids = "trip_request_id ` set trips"
  have "admission_ledger (completed_trips ids) ?ids st"
  proof (rule admit_trips_rule[OF run])
    show "admission_ledger (completed_trips ids) ?ids (start_admission p ids reasons)"
      using assms(2-4) by (simp add: admission_ledger_def start_admission_def trip_ledger_def)
  next
    fix t st assume "admission_ledger (completed_trips ids) ?ids st" "t \<in> set (activated_trip_requests trips)"
      "trip_request_id t \<notin> ad_allocated st \<union> completed_trips ids \<union> ad_failed st"
    then show "admission_ledger (completed_trips ids) ?ids (st\<lparr>ad_failed := insert (trip_request_id t) (ad_failed st),
        ad_reasons := (ad_reasons st)(trip_request_id t \<mapsto> ''no_route_candidate''), ad_failed_count := ad_failed_count st + 1\<rparr>)"
      by (auto simp: admission_ledger_def activated_trip_requests_def)
  next
    fix t st od dest sel st1
    assume a: "admission_ledger (completed_trips ids) ?ids st" "t \<in> set (activated_trip_requests trips)"
      "trip_request_id t \<notin> ad_allocated st \<union> completed_trips ids \<union> ad_failed st" "0 < free_slot_count (ad_pool st)"
      "admit_selected spatial net lookup ls tick t dest sel st = Inr st1"
    then show "admission_ledger (completed_trips ids) ?ids st1"
      by (intro admit_selected_ledger[OF a(1,3) _ a(4,5)]) (auto simp: activated_trip_requests_def)
  qed
  moreover have "alive_mask q = alive_mask (ad_pool st)" "trip_id q = trip_id (ad_pool st)"
    using q by (auto simp: replace_pool_plugin_memory_def pool_from_internal_arrays_def check_simps)
  ultimately show "trip_ledger q ids'" "allocated_trips ids' \<union> failed_trips ids' \<subseteq> trip_request_id ` set trips"
    using ledger_cong[of q "ad_pool st"] by (simp_all add: trip_ledger_def admission_ledger_def ids'_def)
qed

end
