(* ===== verification/Events.thy ===== *)
theory Events
  imports PyFloat "HOL-Library.Multiset"
begin

text \<open>
  Traffic events and their scheduler (src/src/metroflow/flow/events.py).
  \<open>make_traffic_event\<close> and \<open>make_scheduler_state\<close> are the validating constructors of the two
  dataclasses, \<open>advance_traffic_event_scheduler\<close> the transition.  The lemmas give the transition
  in closed form and show that it keeps the buckets well-formed, loses no event, is
  idempotent, and can skip ticks.
\<close>

section \<open>Events\<close>

datatype event_status = Scheduled | Active | Cleared

fun parse_status :: "string \<Rightarrow> event_status result" where
  "parse_status s =
     (if s = ''scheduled'' then Inr Scheduled
      else if s = ''active'' then Inr Active
      else if s = ''cleared'' then Inr Cleared
      else Inl (ValueError ''is not a valid TrafficEventStatus''))"

text \<open>Values of a target scope: a number, a list of numbers, or something that converts to
  neither.\<close>

datatype scope_value = ScopeInt int | ScopeInts "int list" | ScopeOther

record traffic_event =
  event_id :: int
  event_type :: string
  start_tick :: int
  end_tick :: int
  target_scope :: "(string \<times> scope_value) list"
  severity :: rat
  effect_model :: string
  status :: event_status

definition make_traffic_event :: "int \<Rightarrow> string \<Rightarrow> int \<Rightarrow> int \<Rightarrow> (string \<times> scope_value) list \<Rightarrow>
    pyfloat \<Rightarrow> string \<Rightarrow> string \<Rightarrow> traffic_event result" where
  "make_traffic_event eid ty st en scope sev model stat =
     bindE (parse_status stat) (\<lambda>status.
     bindE (checks [
        (eid < 0, ''event_id must be >= 0''),
        (ty = [], ''event_type must not be empty''),
        (model = [], ''effect_model must not be empty''),
        (scope = [], ''target_scope must not be empty''),
        (st < 0 \<or> en < 0, ''start_tick/end_tick must be >= 0''),
        (en \<le> st, ''start_tick must be < end_tick''),
        (\<not> isfinite sev, ''severity must be finite''),
        (\<not> (0 \<le> finite_part sev \<and> finite_part sev \<le> 1), ''severity must be in [0, 1]'')])
     (\<lambda>_. Inr \<lparr>event_id = eid, event_type = ty, start_tick = st, end_tick = en,
        target_scope = scope, severity = finite_part sev, effect_model = model,
        status = status\<rparr>))"

definition wf_event :: "traffic_event \<Rightarrow> bool" where
  "wf_event e \<longleftrightarrow> 0 \<le> event_id e \<and> event_type e \<noteq> [] \<and> effect_model e \<noteq> [] \<and>
     target_scope e \<noteq> [] \<and> 0 \<le> start_tick e \<and> start_tick e < end_tick e \<and>
     0 \<le> severity e \<and> severity e \<le> 1"

lemma make_traffic_event_wf:
  "make_traffic_event eid ty st en scope sev model stat = Inr e \<Longrightarrow> wf_event e"
  by (auto simp: make_traffic_event_def check_simps wf_event_def)

section \<open>Scheduler state\<close>

record scheduler_state =
  scheduled_events :: "traffic_event list"
  active_events :: "traffic_event list"
  cleared_events :: "traffic_event list"

definition coerce_event_bucket :: "traffic_event list \<Rightarrow> event_status \<Rightarrow> unit result" where
  "coerce_event_bucket evs expected =
     checks [(\<exists>e \<in> set evs. status e \<noteq> expected, ''bucket contains an event of another status'')]"

definition validate_unique_event_ids_across_buckets :: "traffic_event list list \<Rightarrow> unit result" where
  "validate_unique_event_ids_across_buckets buckets =
     checks [(\<not> distinct (map event_id (concat buckets)),
              ''duplicate event_id across scheduler buckets'')]"

definition make_scheduler_state :: "traffic_event list \<Rightarrow> traffic_event list \<Rightarrow>
    traffic_event list \<Rightarrow> scheduler_state result" where
  "make_scheduler_state sched act clr =
     bindE (coerce_event_bucket sched Scheduled) (\<lambda>_.
     bindE (coerce_event_bucket act Active) (\<lambda>_.
     bindE (coerce_event_bucket clr Cleared) (\<lambda>_.
     bindE (validate_unique_event_ids_across_buckets [sched, act, clr]) (\<lambda>_.
     Inr \<lparr>scheduled_events = sched, active_events = act, cleared_events = clr\<rparr>))))"

definition all_events :: "scheduler_state \<Rightarrow> traffic_event list" where
  "all_events s = scheduled_events s @ active_events s @ cleared_events s"

definition wf_scheduler :: "scheduler_state \<Rightarrow> bool" where
  "wf_scheduler s \<longleftrightarrow>
     (\<forall>e \<in> set (scheduled_events s). status e = Scheduled) \<and>
     (\<forall>e \<in> set (active_events s). status e = Active) \<and>
     (\<forall>e \<in> set (cleared_events s). status e = Cleared) \<and>
     distinct (map event_id (all_events s))"

lemma make_scheduler_state_iff:
  "make_scheduler_state sched act clr = Inr s \<longleftrightarrow>
     s = \<lparr>scheduled_events = sched, active_events = act, cleared_events = clr\<rparr> \<and> wf_scheduler s"
  by (auto simp: make_scheduler_state_def check_simps coerce_event_bucket_def
      validate_unique_event_ids_across_buckets_def wf_scheduler_def all_events_def
      simp del: distinct_append map_append)

section \<open>Advancing\<close>

definition with_status :: "traffic_event \<Rightarrow> event_status \<Rightarrow> traffic_event" where
  "with_status e s = (if status e = s then e else e\<lparr>status := s\<rparr>)"

text \<open>The cleared history with its index by event id.\<close>

type_synonym cleared_log = "traffic_event list \<times> (int \<rightharpoonup> nat)"

definition index_by_id :: "traffic_event list \<Rightarrow> int \<rightharpoonup> nat" where
  "index_by_id evs = map_of (rev (zip (map event_id evs) [0..<length evs]))"

definition add_cleared :: "traffic_event \<Rightarrow> cleared_log \<Rightarrow> cleared_log" where
  "add_cleared event clog =
     (let (history, index) = clog; cleared = with_status event Cleared in
      case index (event_id cleared) of
        Some i \<Rightarrow> (history[i := cleared], index)
      | None \<Rightarrow> (history @ [cleared], index(event_id cleared \<mapsto> length history)))"

record advance_plan =
  plan_scheduled :: "traffic_event list"
  plan_active :: "traffic_event list"
  plan_log :: cleared_log

fun plan_scheduled_event :: "int \<Rightarrow> int list \<Rightarrow> traffic_event \<Rightarrow> advance_plan \<Rightarrow> advance_plan" where
  "plan_scheduled_event tick clear_ids e p =
     (if event_id e \<in> set clear_ids then p\<lparr>plan_log := add_cleared e (plan_log p)\<rparr>
      else if end_tick e < tick then p\<lparr>plan_log := add_cleared e (plan_log p)\<rparr>
      else if start_tick e \<le> tick then p\<lparr>plan_active := plan_active p @ [with_status e Active]\<rparr>
      else p\<lparr>plan_scheduled := plan_scheduled p @ [with_status e Scheduled]\<rparr>)"

fun plan_active_event :: "int \<Rightarrow> int list \<Rightarrow> traffic_event \<Rightarrow> advance_plan \<Rightarrow> advance_plan" where
  "plan_active_event tick clear_ids e p =
     (if event_id e \<in> set clear_ids \<or> end_tick e < tick
      then p\<lparr>plan_log := add_cleared e (plan_log p)\<rparr>
      else p\<lparr>plan_active := plan_active p @ [with_status e Active]\<rparr>)"

definition plan_traffic_event_scheduler_advance :: "scheduler_state \<Rightarrow> int \<Rightarrow> int list \<Rightarrow> advance_plan"
  where
  "plan_traffic_event_scheduler_advance s tick clear_ids =
     fold (plan_active_event tick clear_ids) (active_events s)
       (fold (plan_scheduled_event tick clear_ids) (scheduled_events s)
         \<lparr>plan_scheduled = [], plan_active = [],
          plan_log = (cleared_events s, index_by_id (cleared_events s))\<rparr>)"

definition advance_traffic_event_scheduler :: "scheduler_state \<Rightarrow> int \<Rightarrow> int list \<Rightarrow>
    scheduler_state result" where
  "advance_traffic_event_scheduler s tick clear_ids =
     bindE (checks [
       (tick < 0, ''current_tick must be >= 0''),
       (\<exists>i \<in> set clear_ids. i < 0, ''clear_event_ids must contain non-negative ids'')])
     (\<lambda>_. let p = plan_traffic_event_scheduler_advance s tick clear_ids in
       make_scheduler_state (plan_scheduled p) (plan_active p) (fst (plan_log p)))"

section \<open>The transition in closed form\<close>

definition done_with :: "int \<Rightarrow> int list \<Rightarrow> traffic_event \<Rightarrow> bool" where
  "done_with tick clear_ids e \<longleftrightarrow> event_id e \<in> set clear_ids \<or> end_tick e < tick"

definition clear_event :: "traffic_event \<Rightarrow> traffic_event" where
  "clear_event e = with_status e Cleared"

text \<open>The lifecycle of one event.\<close>

definition next_event :: "int \<Rightarrow> int list \<Rightarrow> traffic_event \<Rightarrow> traffic_event" where
  "next_event tick clear_ids e = (case status e of
       Cleared \<Rightarrow> e
     | Active \<Rightarrow> with_status e (if done_with tick clear_ids e then Cleared else Active)
     | Scheduled \<Rightarrow> with_status e (if done_with tick clear_ids e then Cleared
                     else if start_tick e \<le> tick then Active else Scheduled))"

lemma with_status_simps [simp]:
  "status (with_status e s) = s" "event_id (with_status e s) = event_id e"
  "start_tick (with_status e s) = start_tick e" "end_tick (with_status e s) = end_tick e"
  "with_status (with_status e s) s' = with_status e s'"
  by (simp_all add: with_status_def)

lemma with_status_id [simp]: "status e = s \<Longrightarrow> with_status e s = e"
  by (simp add: with_status_def)

lemma clear_event_simps [simp]:
  "status (clear_event e) = Cleared" "event_id (clear_event e) = event_id e"
  by (simp_all add: clear_event_def)

definition log_ok :: "cleared_log \<Rightarrow> bool" where
  "log_ok l \<longleftrightarrow> dom (snd l) = event_id ` set (fst l)"

lemma log_ok_initial: "log_ok (evs, index_by_id evs)"
proof -
  have "dom (index_by_id evs) = set (map fst (rev (zip (map event_id evs) [0..<length evs])))"
    by (simp add: index_by_id_def dom_map_of_conv_image_fst)
  then show ?thesis by (simp add: log_ok_def flip: rev_map)
qed

lemma add_cleared_fresh:
  assumes "log_ok l" "event_id e \<notin> event_id ` set (fst l)"
  shows "fst (add_cleared e l) = fst l @ [clear_event e]" "log_ok (add_cleared e l)"
proof -
  have "snd l (event_id e) = None" using assms by (auto simp: log_ok_def)
  then show "fst (add_cleared e l) = fst l @ [clear_event e]" "log_ok (add_cleared e l)"
    using assms by (auto simp: add_cleared_def Let_def split_def log_ok_def clear_event_def)
qed

lemma fold_plan_scheduled:
  fixes tick :: int and ids :: "int list"
  assumes "distinct (map event_id (fst (plan_log p) @ es))" "log_ok (plan_log p)"
    "\<forall>e \<in> set es. status e = Scheduled"
  defines "q \<equiv> fold (plan_scheduled_event tick ids) es p"
  shows "plan_scheduled q = plan_scheduled p @ filter (\<lambda>e. \<not> done_with tick ids e \<and> tick < start_tick e) es
    \<and> plan_active q = plan_active p
        @ map (\<lambda>e. with_status e Active) (filter (\<lambda>e. \<not> done_with tick ids e \<and> start_tick e \<le> tick) es)
    \<and> fst (plan_log q) = fst (plan_log p) @ map clear_event (filter (done_with tick ids) es)
    \<and> log_ok (plan_log q)"
  using assms(1-3) unfolding q_def
proof (induction es arbitrary: p)
  case (Cons e es)
  have fresh: "event_id e \<notin> event_id ` set (fst (plan_log p))"
    using Cons.prems(1) by auto
  note add = add_cleared_fresh[OF Cons.prems(2) fresh]
  show ?case
    using Cons.IH[of "plan_scheduled_event tick ids e p"] Cons.prems add
    by (auto simp: done_with_def clear_event_def)
qed simp

lemma fold_plan_active:
  fixes tick :: int and ids :: "int list"
  assumes "distinct (map event_id (fst (plan_log p) @ es))" "log_ok (plan_log p)"
    "\<forall>e \<in> set es. status e = Active"
  defines "q \<equiv> fold (plan_active_event tick ids) es p"
  shows "plan_scheduled q = plan_scheduled p
    \<and> plan_active q = plan_active p @ filter (\<lambda>e. \<not> done_with tick ids e) es
    \<and> fst (plan_log q) = fst (plan_log p) @ map clear_event (filter (done_with tick ids) es)
    \<and> log_ok (plan_log q)"
  using assms(1-3) unfolding q_def
proof (induction es arbitrary: p)
  case (Cons e es)
  have fresh: "event_id e \<notin> event_id ` set (fst (plan_log p))"
    using Cons.prems(1) by auto
  note add = add_cleared_fresh[OF Cons.prems(2) fresh]
  show ?case
    using Cons.IH[of "plan_active_event tick ids e p"] Cons.prems add
    by (auto simp: done_with_def clear_event_def)
qed simp

definition advanced :: "int \<Rightarrow> int list \<Rightarrow> scheduler_state \<Rightarrow> scheduler_state" where
  "advanced tick ids s =
     \<lparr>scheduled_events =
        filter (\<lambda>e. \<not> done_with tick ids e \<and> tick < start_tick e) (scheduled_events s),
      active_events =
        map (\<lambda>e. with_status e Active)
          (filter (\<lambda>e. \<not> done_with tick ids e \<and> start_tick e \<le> tick) (scheduled_events s))
        @ filter (\<lambda>e. \<not> done_with tick ids e) (active_events s),
      cleared_events = cleared_events s
        @ map clear_event (filter (done_with tick ids) (scheduled_events s))
        @ map clear_event (filter (done_with tick ids) (active_events s))\<rparr>"

lemma plan_closed_form:
  fixes tick :: int and ids :: "int list"
  assumes "wf_scheduler s"
  defines "p \<equiv> plan_traffic_event_scheduler_advance s tick ids"
  shows "\<lparr>scheduled_events = plan_scheduled p, active_events = plan_active p,
    cleared_events = fst (plan_log p)\<rparr> = advanced tick ids s"
proof -
  let ?p0 = "\<lparr>plan_scheduled = [], plan_active = [],
          plan_log = (cleared_events s, index_by_id (cleared_events s))\<rparr>"
  let ?p1 = "fold (plan_scheduled_event tick ids) (scheduled_events s) ?p0"
  have d0: "distinct (map event_id (fst (plan_log ?p0) @ scheduled_events s))"
    using assms(1) by (auto simp: wf_scheduler_def all_events_def)
  have s0: "\<forall>e \<in> set (scheduled_events s). status e = Scheduled"
    "\<forall>e \<in> set (active_events s). status e = Active"
    using assms(1) by (simp_all add: wf_scheduler_def)
  note one = fold_plan_scheduled[OF d0 _ s0(1), of tick ids]
  have one: "plan_scheduled ?p1 = filter (\<lambda>e. \<not> done_with tick ids e \<and> tick < start_tick e) (scheduled_events s)"
    "plan_active ?p1 = map (\<lambda>e. with_status e Active)
        (filter (\<lambda>e. \<not> done_with tick ids e \<and> start_tick e \<le> tick) (scheduled_events s))"
    "fst (plan_log ?p1) = cleared_events s @ map clear_event (filter (done_with tick ids) (scheduled_events s))"
    "log_ok (plan_log ?p1)"
    using one log_ok_initial by simp_all
  have d1: "distinct (map event_id (fst (plan_log ?p1) @ active_events s))"
    using assms(1) by (auto simp: one(3) wf_scheduler_def all_events_def comp_def
        intro!: distinct_map_filter)
  show ?thesis
    using fold_plan_active[OF d1 one(4) s0(2), of tick ids] one
    by (simp add: p_def plan_traffic_event_scheduler_advance_def advanced_def)
qed

section \<open>No event is lost or doubled\<close>

text \<open>An event apart from its status.\<close>

definition forget_status :: "traffic_event \<Rightarrow> traffic_event" where
  "forget_status e = with_status e Scheduled"

lemma forget_with_status [simp]: "forget_status (with_status e s) = forget_status e"
  by (simp add: forget_status_def)

lemma forget_clear [simp]: "forget_status (clear_event e) = forget_status e"
  by (simp add: clear_event_def)

lemma event_id_forget [simp]: "event_id (forget_status e) = event_id e"
  by (simp add: forget_status_def)

lemma advanced_mset:
  "image_mset forget_status (mset (all_events (advanced tick ids s)))
     = image_mset forget_status (mset (all_events s))"
proof -
  have part: "image_mset f (filter_mset P M) + image_mset f (filter_mset (\<lambda>x. \<not> P x) M) = image_mset f M"
    for f :: "traffic_event \<Rightarrow> traffic_event" and P M by (simp flip: image_mset_union)
  have three: "image_mset f (filter_mset (\<lambda>e. \<not> D e \<and> tick < start_tick e) M)
      + image_mset f (filter_mset (\<lambda>e. \<not> D e \<and> start_tick e \<le> tick) M)
      + image_mset f (filter_mset D M) = image_mset f M"
    for f :: "traffic_event \<Rightarrow> traffic_event" and D M
    using part[of f D M] part[of f "\<lambda>e. tick < start_tick e" "filter_mset (\<lambda>e. \<not> D e) M"]
    by (simp add: filter_filter_mset linorder_not_less ac_simps conj_commute)
  show ?thesis
    unfolding all_events_def mset_append image_mset_union
      part[of forget_status "done_with tick ids" "mset (active_events s)", symmetric]
      three[of forget_status "done_with tick ids" "mset (scheduled_events s)", symmetric]
    by (simp add: advanced_def multiset.map_comp comp_def ac_simps(1-3))
qed

lemma mset_ids:
  "image_mset forget_status (mset xs) = image_mset forget_status (mset ys) \<Longrightarrow>
   distinct (map event_id xs) = distinct (map event_id ys)"
proof -
  assume "image_mset forget_status (mset xs) = image_mset forget_status (mset ys)"
  then have "image_mset event_id (image_mset forget_status (mset xs))
      = image_mset event_id (image_mset forget_status (mset ys))" by simp
  then have "mset (map event_id xs) = mset (map event_id ys)"
    by (simp add: multiset.map_comp comp_def)
  then show ?thesis by (rule mset_eq_imp_distinct_iff)
qed

lemma advanced_wf: "wf_scheduler s \<Longrightarrow> wf_scheduler (advanced tick ids s)"
  using mset_ids[OF advanced_mset, of tick ids s]
  by (auto simp: wf_scheduler_def) (auto simp: advanced_def clear_event_def)

lemma advance_eq:
  assumes "wf_scheduler s" "0 \<le> tick" "\<forall>i \<in> set ids. 0 \<le> i"
  shows "advance_traffic_event_scheduler s tick ids = Inr (advanced tick ids s)"
  using assms plan_closed_form[OF assms(1), of tick ids] advanced_wf[OF assms(1), of tick ids]
  by (force simp: advance_traffic_event_scheduler_def Let_def check_simps make_scheduler_state_iff
      linorder_not_less)

text \<open>C32: advancing a well-formed scheduler never fails, keeps it well-formed, and loses or
  doubles no event: apart from their statuses the events are the same, with multiplicity.\<close>

theorem advance_preserves_events:
  assumes "wf_scheduler s" "0 \<le> tick" "\<forall>i \<in> set ids. 0 \<le> i"
  shows "\<exists>s'. advance_traffic_event_scheduler s tick ids = Inr s' \<and> wf_scheduler s' \<and>
    image_mset forget_status (mset (all_events s')) = image_mset forget_status (mset (all_events s))"
  using advance_eq[OF assms] advanced_wf[OF assms(1)] advanced_mset by blast

lemma advanced_lifecycle:
  assumes "wf_scheduler s"
  shows "set (all_events (advanced tick ids s)) = next_event tick ids ` set (all_events s)"
proof -
  have sched: "next_event tick ids e = (if done_with tick ids e then clear_event e
      else if start_tick e \<le> tick then with_status e Active else e)"
    if "e \<in> set (scheduled_events s)" for e
    using that assms by (simp add: next_event_def wf_scheduler_def clear_event_def)
  have act: "next_event tick ids e = (if done_with tick ids e then clear_event e else e)"
    if "e \<in> set (active_events s)" for e
    using that assms by (simp add: next_event_def wf_scheduler_def clear_event_def)
  have clr: "next_event tick ids e = e" if "e \<in> set (cleared_events s)" for e
    using that assms by (simp add: next_event_def wf_scheduler_def)
  have "next_event tick ids ` set (scheduled_events s)
      = {e \<in> set (scheduled_events s). \<not> done_with tick ids e \<and> tick < start_tick e}
      \<union> (\<lambda>e. with_status e Active) ` {e \<in> set (scheduled_events s). \<not> done_with tick ids e \<and> start_tick e \<le> tick}
      \<union> clear_event ` {e \<in> set (scheduled_events s). done_with tick ids e}"
    using sched by (auto simp: image_iff linorder_not_le; metis linorder_not_le)
  moreover have "next_event tick ids ` set (active_events s)
      = {e \<in> set (active_events s). \<not> done_with tick ids e}
      \<union> clear_event ` {e \<in> set (active_events s). done_with tick ids e}"
    using act by (auto simp: image_iff; metis)
  moreover have "next_event tick ids ` set (cleared_events s) = set (cleared_events s)"
    using clr by (simp add: image_def)
  ultimately show ?thesis
    by (auto simp: all_events_def advanced_def image_Un)
qed

lemma advance_inv:
  assumes "wf_scheduler s" "advance_traffic_event_scheduler s tick ids = Inr s'"
  shows "s' = advanced tick ids s" "0 \<le> tick" "\<forall>i \<in> set ids. 0 \<le> i" "wf_scheduler s'"
proof -
  show t: "0 \<le> tick" "\<forall>i \<in> set ids. 0 \<le> i"
    using assms(2) by (auto simp: advance_traffic_event_scheduler_def check_simps linorder_not_less)
  then show "s' = advanced tick ids s" using advance_eq[OF assms(1)] assms(2) by simp
  then show "wf_scheduler s'" using advanced_wf[OF assms(1)] by simp
qed

lemma filter_done [simp]:
  "filter (done_with tick ids) (filter (\<lambda>e. \<not> done_with tick ids e) es) = []"
  "filter (done_with tick ids) (filter (\<lambda>e. \<not> done_with tick ids e \<and> P e) es) = []"
  by (induction es) simp_all

lemma done_with_status [simp]: "done_with tick ids (with_status e s) = done_with tick ids e"
  by (simp add: done_with_def)

text \<open>Advancing again at the same tick changes nothing.\<close>

theorem advance_idempotent:
  assumes "wf_scheduler s" "advance_traffic_event_scheduler s tick ids = Inr s'"
  shows "advance_traffic_event_scheduler s' tick ids = Inr s'"
proof -
  note inv = advance_inv[OF assms]
  have none: "filter (\<lambda>e. \<not> done_with tick ids e \<and> start_tick e \<le> tick)
      (filter (\<lambda>e. \<not> done_with tick ids e \<and> tick < start_tick e) es) = []" for es
    by (induction es) simp_all
  have "advanced tick ids s' = s'"
    unfolding inv(1) using none
    by (simp add: advanced_def filter_map comp_def conj_ac cong: conj_cong)
  then show ?thesis using advance_eq[OF inv(4,2,3)] by simp
qed

lemma next_event_skip:
  "t1 \<le> t2 \<Longrightarrow> next_event t2 ids (next_event t1 [] e) = next_event t2 ids e"
  by (cases "status e") (auto simp: next_event_def done_with_def)

lemma bucket_sets:
  assumes "wf_scheduler s"
  shows "set (scheduled_events s) = {e \<in> set (all_events s). status e = Scheduled}"
    "set (active_events s) = {e \<in> set (all_events s). status e = Active}"
    "set (cleared_events s) = {e \<in> set (all_events s). status e = Cleared}"
  using assms by (auto simp: wf_scheduler_def all_events_def)

text \<open>C11: the buckets follow the lifecycle of each event: an event is scheduled before its start,
  active from its start to its end, and cleared once it has ended or is cleared by id; a
  cleared event stays cleared and an active one never goes back to scheduled.\<close>

theorem advance_follows_lifecycle:
  assumes "wf_scheduler s" "advance_traffic_event_scheduler s tick ids = Inr s'"
  shows "set (all_events s') = next_event tick ids ` set (all_events s)"
  using advanced_lifecycle[OF assms(1)] advance_inv(1)[OF assms] by simp

text \<open>C33: ticks can be skipped.  Advancing through an earlier tick and then to a later one leaves
  the same events scheduled, active and cleared as advancing to the later one at once.\<close>

theorem advance_skips_ticks:
  assumes "wf_scheduler s" "t1 \<le> t2"
    and "advance_traffic_event_scheduler s t1 [] = Inr s1"
    and "advance_traffic_event_scheduler s1 t2 ids = Inr s12"
    and "advance_traffic_event_scheduler s t2 ids = Inr s2"
  shows "set (scheduled_events s12) = set (scheduled_events s2)
    \<and> set (active_events s12) = set (active_events s2)
    \<and> set (cleared_events s12) = set (cleared_events s2)"
proof -
  note inv1 = advance_inv[OF assms(1,3)]
  note inv12 = advance_inv[OF inv1(4) assms(4)] and inv2 = advance_inv[OF assms(1,5)]
  have "set (all_events s12) = set (all_events s2)"
    using advanced_lifecycle[OF inv1(4)] advanced_lifecycle[OF assms(1)] inv12(1) inv2(1) inv1(1)
      next_event_skip[OF assms(2)] by (simp add: image_image)
  then show ?thesis using bucket_sets[OF inv12(4)] bucket_sets[OF inv2(4)] by simp
qed

section \<open>Runs of the scheduler\<close>

inductive scheduler_step :: "scheduler_state \<Rightarrow> scheduler_state \<Rightarrow> bool" where
  advance: "advance_traffic_event_scheduler s tick ids = Inr s' \<Longrightarrow> scheduler_step s s'"

inductive_cases scheduler_stepE: "scheduler_step s s'"

text \<open>In every run of the scheduler the cleared history only grows at its end, and every
  state of the run is well-formed.\<close>

theorem cleared_history_append_only:
  assumes "scheduler_step\<^sup>*\<^sup>* s s'" "wf_scheduler s"
  shows "wf_scheduler s' \<and> (\<exists>new. cleared_events s' = cleared_events s @ new)"
  using assms
proof (induction rule: rtranclp_induct)
  case (step t u)
  then obtain tick ids where "advance_traffic_event_scheduler t tick ids = Inr u"
    by (auto elim: scheduler_stepE)
  with step advance_inv[of t tick ids u] show ?case by (auto simp: advanced_def)
qed simp

section \<open>A concrete scheduler\<close>

definition demo_event :: "int \<Rightarrow> int \<Rightarrow> int \<Rightarrow> event_status \<Rightarrow> traffic_event" where
  "demo_event i st en stat = \<lparr>event_id = i, event_type = ''incident'', start_tick = st, end_tick = en,
     target_scope = [(''link_ids'', ScopeInts [7])], severity = 1 / 2,
     effect_model = ''capacity_reduction'', status = stat\<rparr>"

definition demo_scheduler :: scheduler_state where
  "demo_scheduler = \<lparr>scheduled_events = [demo_event 1 5 9 Scheduled, demo_event 2 20 30 Scheduled],
     active_events = [demo_event 3 1 4 Active], cleared_events = []\<rparr>"

lemma demo_scheduler_wf: "wf_scheduler demo_scheduler"
  by (simp add: wf_scheduler_def demo_scheduler_def demo_event_def all_events_def)

lemma demo_advance:
  "advance_traffic_event_scheduler demo_scheduler 6 [] = Inr
     \<lparr>scheduled_events = [demo_event 2 20 30 Scheduled], active_events = [demo_event 1 5 9 Active],
      cleared_events = [demo_event 3 1 4 Cleared]\<rparr>"
  using advance_eq[OF demo_scheduler_wf, of 6 "[]"]
  by (simp add: advanced_def demo_scheduler_def demo_event_def done_with_def clear_event_def
      with_status_def)

lemma advance_preserves_events_witness:
  "\<exists>s'. advance_traffic_event_scheduler demo_scheduler 6 [] = Inr s' \<and> wf_scheduler s'"
  using advance_preserves_events[OF demo_scheduler_wf, of 6 "[]"] by auto

lemma advance_follows_lifecycle_witness:
  "next_event 6 [] ` set (all_events demo_scheduler)
     = {demo_event 2 20 30 Scheduled, demo_event 1 5 9 Active, demo_event 3 1 4 Cleared}"
  using advance_follows_lifecycle[OF demo_scheduler_wf demo_advance] by (simp add: all_events_def)

lemma advance_idempotent_witness:
  "\<exists>s'. advance_traffic_event_scheduler demo_scheduler 6 [] = Inr s' \<and>
     advance_traffic_event_scheduler s' 6 [] = Inr s'"
  using advance_idempotent[OF demo_scheduler_wf demo_advance] demo_advance by blast

lemma advance_skips_ticks_witness:
  "\<exists>s1 s12 s2. advance_traffic_event_scheduler demo_scheduler 6 [] = Inr s1 \<and>
     advance_traffic_event_scheduler s1 12 [] = Inr s12 \<and>
     advance_traffic_event_scheduler demo_scheduler 12 [] = Inr s2 \<and>
     set (cleared_events s12) = set (cleared_events s2)"
proof -
  obtain s1 where s1: "advance_traffic_event_scheduler demo_scheduler 6 [] = Inr s1" "wf_scheduler s1"
    using advance_eq[OF demo_scheduler_wf, of 6 "[]"] advanced_wf[OF demo_scheduler_wf] by auto
  obtain s12 where s12: "advance_traffic_event_scheduler s1 12 [] = Inr s12"
    using advance_eq[OF s1(2), of 12 "[]"] by auto
  obtain s2 where s2: "advance_traffic_event_scheduler demo_scheduler 12 [] = Inr s2"
    using advance_eq[OF demo_scheduler_wf, of 12 "[]"] by auto
  show ?thesis
    using s1(1) s12 s2 advance_skips_ticks[OF demo_scheduler_wf _ s1(1) s12 s2] by auto
qed

end
