(* ===== verification/EventEffects.thy ===== *)
theory EventEffects
  imports Events RoadNetwork FlowState
begin

text \<open>
  The effect of active events on link capacities (src/src/metroflow/flow/event_effects.py).
  \<open>plan_event_effects\<close> is the host-side planning, \<open>apply_multiplier_updates\<close> the array core and
  \<open>apply_active_event_effects\<close> the whole operation.  The lemmas give the multiplier of each link
  in closed form: the least of one and the multipliers of the events that apply to it.  The
  module's cache of bridge groups is threaded explicitly, keyed as the source keys it.
\<close>

section \<open>The road axis an event is resolved against\<close>

text \<open>The attributes the source reads from \<^verbatim>\<open>road_csr\<close>: the dictionary \<^verbatim>\<open>link_id_to_index\<close> keeps its
  items, the object its identity.\<close>

record road_axis =
  axis_object :: nat
  axis_links :: "road_link list"
  axis_index :: "(int \<times> int) list"
  axis_link_count :: int
  axis_crossings :: "bridge_crossing list"

definition validate_link_axis_compatibility :: "road_axis \<Rightarrow> int \<Rightarrow> unit result" where
  "validate_link_axis_compatibility ax expected = checks [
     (expected < 0, ''expected_link_count must be >= 0''),
     (axis_link_count ax < 0, ''road_csr.link_count must be >= 0''),
     (axis_link_count ax \<noteq> int (length (axis_links ax)),
        ''road_csr.link_count does not match len(road_csr.links)''),
     (expected \<noteq> axis_link_count ax, ''LinkState link axis does not match road_csr link axis''),
     (length (axis_index ax) \<noteq> length (axis_links ax),
        ''road_csr.link_id_to_index size does not match road_csr.links''),
     (\<exists>(k, i) \<in> set (axis_index ax). i < 0 \<or> expected \<le> i,
        ''road_csr.link_id_to_index contains out-of-range index'')]"

type_synonym bridge_groups = "int \<rightharpoonup> int list"

definition bridge_group_link_ids :: "road_axis \<Rightarrow> bridge_groups" where
  "bridge_group_link_ids ax =
     (let cs = filter (\<lambda>c. crossing_links c \<noteq> []) (axis_crossings ax) in
      if cs \<noteq> [] then map_of (rev (map (\<lambda>c. (crossing_group c, crossing_links c)) cs))
      else (\<lambda>g. let ids = map link_id (filter (\<lambda>l. bridge_group l = Some g) (axis_links ax)) in
             if ids = [] then None else Some ids))"

type_synonym group_key = "nat \<times> int \<times> nat"
type_synonym group_cache = "(group_key \<times> bridge_groups) list"

definition group_key_of :: "road_axis \<Rightarrow> group_key" where
  "group_key_of ax = (axis_object ax, axis_link_count ax, length (axis_crossings ax))"

definition bridge_group_link_ids_cached :: "road_axis \<Rightarrow> group_cache \<Rightarrow> bridge_groups \<times> group_cache" where
  "bridge_group_link_ids_cached ax cache = (case map_of cache (group_key_of ax) of
       Some v \<Rightarrow> (v, cache)
     | None \<Rightarrow> let v = bridge_group_link_ids ax;
                  cache' = (if 32 \<le> length cache then tl cache else cache)
              in (v, cache' @ [(group_key_of ax, v)]))"

section \<open>Planning\<close>

definition resolve_target_link_ids :: "traffic_event \<Rightarrow> bridge_groups \<Rightarrow> int list" where
  "resolve_target_link_ids e groups =
     (case map_of (target_scope e) ''link_ids'' of
        Some (ScopeInts ids) \<Rightarrow> ids
      | Some _ \<Rightarrow> []
      | None \<Rightarrow> (case map_of (target_scope e) ''bridge_group_id'' of
          Some (ScopeInt g) \<Rightarrow> (case groups g of None \<Rightarrow> [] | Some ids \<Rightarrow> ids)
        | _ \<Rightarrow> []))"

definition event_capacity_multiplier :: "traffic_event \<Rightarrow> rat option" where
  "event_capacity_multiplier e =
     (if effect_model e = ''closure'' then Some 0
      else if effect_model e = ''capacity_reduction'' then Some (max 0 (min 1 (r64 (1 - severity e))))
      else None)"

record effect_plan =
  applied_ids :: "int list"
  ignored_ids :: "int list"
  affected_ids :: "int list"
  min_multiplier :: "(int \<times> rat) list"

text \<open>Whether a target link of an event is updated, and at which index.\<close>

definition target_index :: "road_axis \<Rightarrow> int \<Rightarrow> traffic_event \<Rightarrow> int \<Rightarrow> int option" where
  "target_index ax n e l = (case map_of (axis_index ax) l of
       None \<Rightarrow> None
     | Some i \<Rightarrow>
        if i < 0 \<or> n \<le> i then None
        else if effect_model e = ''closure'' \<and>
                \<not> (case dict_by link_id (axis_links ax) l of None \<Rightarrow> True | Some r \<Rightarrow> is_blockable r)
        then None else Some i)"

definition plan_target :: "road_axis \<Rightarrow> int \<Rightarrow> traffic_event \<Rightarrow> rat \<Rightarrow> int \<Rightarrow> effect_plan \<times> bool \<Rightarrow>
    effect_plan \<times> bool" where
  "plan_target ax n e m l st = (case target_index ax n e l of
       None \<Rightarrow> st
     | Some i \<Rightarrow>
        let p = fst st; old = (case map_of (min_multiplier p) i of None \<Rightarrow> 1 | Some x \<Rightarrow> x) in
        (p\<lparr>min_multiplier := dict_set i (min old m) (min_multiplier p),
           affected_ids := insort_insert l (affected_ids p)\<rparr>, True))"

definition plan_event :: "road_axis \<Rightarrow> int \<Rightarrow> bridge_groups \<Rightarrow> traffic_event \<Rightarrow> effect_plan \<Rightarrow> effect_plan" where
  "plan_event ax n groups e p =
     (let ignore = p\<lparr>ignored_ids := ignored_ids p @ [event_id e]\<rparr>;
          targets = resolve_target_link_ids e groups in
      if status e \<noteq> Active \<or> targets = [] then ignore
      else case event_capacity_multiplier e of
          None \<Rightarrow> ignore
        | Some m \<Rightarrow>
           let (p', hit) = fold (plan_target ax n e m) targets (p, False) in
           if hit then p'\<lparr>applied_ids := applied_ids p' @ [event_id e]\<rparr>
           else p'\<lparr>ignored_ids := ignored_ids p' @ [event_id e]\<rparr>)"

definition plan_event_effects :: "road_axis \<Rightarrow> int \<Rightarrow> bridge_groups \<Rightarrow> traffic_event list \<Rightarrow> effect_plan" where
  "plan_event_effects ax n groups events = fold (plan_event ax n groups) events
     \<lparr>applied_ids = [], ignored_ids = [], affected_ids = [], min_multiplier = []\<rparr>"

section \<open>Applying\<close>

definition apply_multiplier_updates :: "rat list \<Rightarrow> (int \<times> rat) list \<Rightarrow> rat list" where
  "apply_multiplier_updates base updates =
     fold (\<lambda>(i, v) out. out[nat i := min (base ! nat i) (r32 v)]) updates base"

definition compute_incident_capacity_multiplier :: "road_axis \<Rightarrow> traffic_event list \<Rightarrow> int \<Rightarrow>
    group_cache \<Rightarrow> (rat list \<times> effect_plan \<times> group_cache) result" where
  "compute_incident_capacity_multiplier ax events n cache =
     bindE (checks [(n < 0, ''link_count must be >= 0'')]) (\<lambda>_.
     bindE (validate_link_axis_compatibility ax n) (\<lambda>_.
     let base = replicate (nat n) 1 in
     if n = 0 then Inr (base, \<lparr>applied_ids = [], ignored_ids = [], affected_ids = [],
                               min_multiplier = []\<rparr>, cache)
     else let (groups, cache') = bridge_group_link_ids_cached ax cache;
              p = plan_event_effects ax n groups events in
       Inr (apply_multiplier_updates base (min_multiplier p), p, cache')))"

record effects_result =
  effects_link :: link_state
  effects_applied :: "int list"
  effects_ignored :: "int list"
  effects_affected :: "int list"

definition apply_active_event_effects :: "road_axis \<Rightarrow> link_state \<Rightarrow> traffic_event list \<Rightarrow> bool \<Rightarrow>
    group_cache \<Rightarrow> (effects_result \<times> group_cache) result" where
  "apply_active_event_effects ax ls events validate cache =
     bindE (compute_incident_capacity_multiplier ax events (int (link_count ls)) cache) (\<lambda>(mult, p, cache').
     let effective = map2 (\<lambda>c m. r32 (c * m)) (capacity_veh_per_tick ls) mult;
         flags = map2 (\<lambda>ou e. r32 (e + eps32) < ou) (outflow_vehicles ls) effective in
     bindE (link_from_internal_arrays (queue_vehicles ls) (inflow_vehicles ls) (outflow_vehicles ls)
              (travel_time_cost ls) (capacity_veh_per_tick ls) mult flags (link_metadata ls)) (\<lambda>ls'.
     bindE (checks [(validate \<and> validate_link_state ls' \<noteq> [], ''Invalid LinkState after event effects'')]) (\<lambda>_.
     Inr (\<lparr>effects_link = ls', effects_applied = applied_ids p, effects_ignored = ignored_ids p,
           effects_affected = affected_ids p\<rparr>, cache'))))"

section \<open>The multiplier in closed form\<close>

definition event_hits :: "road_axis \<Rightarrow> int \<Rightarrow> bridge_groups \<Rightarrow> traffic_event \<Rightarrow> int \<Rightarrow> bool" where
  "event_hits ax n groups e i \<longleftrightarrow> status e = Active \<and>
     (\<exists>l \<in> set (resolve_target_link_ids e groups). target_index ax n e l = Some i)"

definition effects_on :: "road_axis \<Rightarrow> int \<Rightarrow> bridge_groups \<Rightarrow> traffic_event list \<Rightarrow> int \<Rightarrow> rat set" where
  "effects_on ax n groups events i =
     {m. \<exists>e \<in> set events. event_hits ax n groups e i \<and> event_capacity_multiplier e = Some m}"

definition planned :: "effect_plan \<Rightarrow> int \<Rightarrow> rat" where
  "planned p i = (case map_of (min_multiplier p) i of None \<Rightarrow> 1 | Some x \<Rightarrow> x)"

lemma event_multiplier_range:
  "event_capacity_multiplier e = Some m \<Longrightarrow> 0 \<le> m \<and> m \<le> 1"
  by (auto simp: event_capacity_multiplier_def split: if_splits)

lemma effects_on_range: "m \<in> effects_on ax n groups events i \<Longrightarrow> 0 \<le> m \<and> m \<le> 1"
  using event_multiplier_range by (auto simp: effects_on_def)

lemma effects_on_simps [simp]:
  "effects_on ax n groups [] i = {}"
  "effects_on ax n groups (e # es) i =
     (if event_hits ax n groups e i then set_option (event_capacity_multiplier e) else {})
     \<union> effects_on ax n groups es i"
  by (auto simp: effects_on_def)

lemma effects_on_finite [simp]: "finite (effects_on ax n groups events i)"
  by (induction events) auto

lemma plan_targets_planned:
  assumes "m \<le> 1"
  shows "planned (fst (fold (plan_target ax n e m) ls st)) i =
    (if \<exists>l \<in> set ls. target_index ax n e l = Some i then min (planned (fst st) i) m else planned (fst st) i)"
proof (induction ls arbitrary: st)
  case (Cons l ls)
  have "planned (fst (plan_target ax n e m l st)) i =
      (if target_index ax n e l = Some i then min (planned (fst st) i) m else planned (fst st) i)"
    using assms by (auto simp: plan_target_def planned_def Let_def split: option.splits)
  then show ?case by (simp add: Cons.IH)
qed simp

lemma planned_status_update [simp]:
  "planned (p\<lparr>applied_ids := a\<rparr>) i = planned p i" "planned (p\<lparr>ignored_ids := a\<rparr>) i = planned p i"
  by (simp_all add: planned_def)

lemma plan_event_planned:
  "planned (plan_event ax n groups e p) i = Min (insert (planned p i)
     (if event_hits ax n groups e i then set_option (event_capacity_multiplier e) else {}))"
proof (cases "status e \<noteq> Active \<or> resolve_target_link_ids e groups = [] \<or> event_capacity_multiplier e = None")
  case True
  then show ?thesis by (auto simp: plan_event_def event_hits_def Let_def)
next
  case False
  then obtain m where m: "event_capacity_multiplier e = Some m" by auto
  have "planned (plan_event ax n groups e p) i
      = planned (fst (fold (plan_target ax n e m) (resolve_target_link_ids e groups) (p, False))) i"
    using False m by (simp add: plan_event_def Let_def split_def)
  then show ?thesis
    using False m event_multiplier_range[OF m] by (simp add: plan_targets_planned event_hits_def)
qed

lemma Min_nested:
  assumes "finite A" "finite B"
  shows "Min (insert (Min (insert a A)) B) = Min (insert a (A \<union> B))"
proof (cases "B = {}")
  case False
  then have "Min (insert (Min (insert a A)) B) = min (Min (insert a A)) (Min B)"
    using assms(2) by simp
  also have "\<dots> = Min (insert a A \<union> B)"
    using assms False by (subst Min_Un) auto
  finally show ?thesis by simp
qed simp

lemma plan_events_planned:
  "planned (fold (plan_event ax n groups) events p) i = Min (insert (planned p i) (effects_on ax n groups events i))"
proof (induction events arbitrary: p)
  case (Cons e es)
  let ?X = "if event_hits ax n groups e i then set_option (event_capacity_multiplier e) else {}"
  have "Min (insert (Min (insert (planned p i) ?X)) (effects_on ax n groups es i))
      = Min (insert (planned p i) (?X \<union> effects_on ax n groups es i))"
    by (rule Min_nested) simp_all
  then show ?case by (simp add: Cons.IH plan_event_planned)
qed simp

text \<open>The planned indices are distinct and in range.\<close>

definition plan_ok :: "int \<Rightarrow> effect_plan \<Rightarrow> bool" where
  "plan_ok n p \<longleftrightarrow> distinct (map fst (min_multiplier p)) \<and> fst ` set (min_multiplier p) \<subseteq> {0..<n}"

lemma plan_target_ok: "plan_ok n (fst st) \<Longrightarrow> plan_ok n (fst (plan_target ax n e m l st))"
  by (auto simp: plan_ok_def plan_target_def Let_def target_index_def distinct_dict_set
      simp del: insert_subset split: option.splits if_splits)

lemma plan_event_ok: "plan_ok n p \<Longrightarrow> plan_ok n (plan_event ax n groups e p)"
proof -
  have "plan_ok n (fst st) \<Longrightarrow> plan_ok n (fst (fold (plan_target ax n e m) ls st))" for m ls st
    by (induction ls arbitrary: st) (simp_all add: plan_target_ok)
  then show "plan_ok n p \<Longrightarrow> plan_ok n (plan_event ax n groups e p)"
    by (auto simp: plan_event_def Let_def split_def plan_ok_def split: option.splits)
qed

lemma plan_events_ok: "plan_ok n (plan_event_effects ax n groups events)"
proof -
  have "plan_ok n p \<Longrightarrow> plan_ok n (fold (plan_event ax n groups) events p)" for p
    by (induction events arbitrary: p) (simp_all add: plan_event_ok)
  from this[of "\<lparr>applied_ids = [], ignored_ids = [], affected_ids = [], min_multiplier = []\<rparr>"]
  show ?thesis by (simp add: plan_event_effects_def) (simp add: plan_ok_def)
qed

lemma fold_updates_nth:
  assumes "distinct (map fst ups)" "\<forall>i \<in> fst ` set ups. 0 \<le> i" "k < length out"
  shows "fold (\<lambda>(i, v) out. out[nat i := min (base ! nat i) (r32 v)]) ups out ! k =
    (case map_of ups (int k) of None \<Rightarrow> out ! k | Some v \<Rightarrow> min (base ! k) (r32 v))"
  using assms
proof (induction ups arbitrary: out)
  case (Cons u ups)
  obtain i v where u: "u = (i, v)" by (cases u)
  have none: "map_of ups i = None" using Cons.prems(1) u by (auto simp: map_of_eq_None_iff image_iff)
  show ?case
    using Cons.IH[of "out[nat i := min (base ! nat i) (r32 v)]"] Cons.prems none u
    by (auto simp: nth_list_update split: option.splits)
qed simp

lemma fold_updates_length [simp]:
  "length (fold (\<lambda>(i, v) out. out[nat i := f i v]) ups out) = length out"
  by (induction ups arbitrary: out) (auto split: prod.splits)

lemma length_apply_updates [simp]: "length (apply_multiplier_updates base ups) = length base"
  by (simp add: apply_multiplier_updates_def)

lemma no_links_plan: "min_multiplier (plan_event_effects ax 0 groups events) = []"
  using plan_events_ok[of 0 ax groups events] by (simp add: plan_ok_def)

lemma multiplier_nth:
  assumes "k < nat n"
  shows "apply_multiplier_updates (replicate (nat n) 1)
      (min_multiplier (plan_event_effects ax n groups events)) ! k
    = r32 (Min (insert 1 (effects_on ax n groups events (int k))))"
proof -
  let ?p = "plan_event_effects ax n groups events"
  have ok: "distinct (map fst (min_multiplier ?p))" "\<forall>i \<in> fst ` set (min_multiplier ?p). 0 \<le> i"
    using plan_events_ok[of n ax groups events] by (force simp: plan_ok_def)+
  have p: "planned ?p (int k) = Min (insert 1 (effects_on ax n groups events (int k)))"
    by (simp add: plan_event_effects_def plan_events_planned) (simp add: planned_def)
  have le: "planned ?p (int k) \<le> 1" by (simp add: p)
  then have "r32 (planned ?p (int k)) \<le> 1" using f32.rd_mono[OF le] by simp
  then have "apply_multiplier_updates (replicate (nat n) 1) (min_multiplier ?p) ! k = r32 (planned ?p (int k))"
    using fold_updates_nth[OF ok, of k "replicate (nat n) 1" "replicate (nat n) 1"] assms
    by (auto simp: apply_multiplier_updates_def planned_def split: option.splits)
  then show ?thesis by (simp add: p)
qed

section \<open>Properties\<close>

lemma multiplier_range:
  fixes ax :: road_axis and groups :: bridge_groups and events :: "traffic_event list"
  assumes "k < nat n"
  defines "m \<equiv> apply_multiplier_updates (replicate (nat n) 1)
      (min_multiplier (plan_event_effects ax n groups events)) ! k"
  shows "is_f32 m" "0 \<le> m" "m \<le> 1"
proof -
  let ?M = "Min (insert 1 (effects_on ax n groups events (int k)))"
  have m: "m = r32 ?M" using multiplier_nth[OF assms(1)] by (simp add: m_def)
  have "0 \<le> ?M" using effects_on_range by auto
  moreover have "?M \<le> 1" by simp
  ultimately show "is_f32 m" "0 \<le> m" "m \<le> 1"
    using f32.rd_nonneg[of ?M] f32.rd_mono[of ?M 1] by (simp_all add: m)
qed

text \<open>What a successful application returns.\<close>

lemma apply_effects_result:
  assumes "wf_link ls" "apply_active_event_effects ax ls events v cache = Inr (res, cache')"
    "fst (bridge_group_link_ids_cached ax cache) = groups"
  defines "fac \<equiv> apply_multiplier_updates (replicate (link_count ls) 1)
      (min_multiplier (plan_event_effects ax (int (link_count ls)) groups events))"
  shows "effects_link res = ls\<lparr>incident_capacity_multiplier := fac,
      capacity_violation_flags := map2 (\<lambda>ou e. r32 (e + eps32) < ou) (outflow_vehicles ls)
        (map2 (\<lambda>c m. r32 (c * m)) (capacity_veh_per_tick ls) fac)\<rparr>"
    "length fac = link_count ls"
proof -
  have mem: "\<forall>x \<in> set (queue_vehicles ls). is_f32 x" "\<forall>x \<in> set (inflow_vehicles ls). is_f32 x"
    "\<forall>x \<in> set (outflow_vehicles ls). is_f32 x" "\<forall>x \<in> set (travel_time_cost ls). is_f32 x"
    "\<forall>x \<in> set (capacity_veh_per_tick ls). is_f32 x"
    using assms(1) by (simp_all add: wf_link_def)
  show len: "length fac = link_count ls"
    by (simp add: fac_def)
  have "\<forall>x \<in> set fac. is_f32 x"
    using multiplier_range(1)[of _ "int (link_count ls)" ax groups events] len
    by (auto simp: fac_def in_set_conv_nth)
  then have "map r32 fac = fac" by (rule map_r32_id)
  moreover have "compute_incident_capacity_multiplier ax events (int (link_count ls)) cache = Inr (m, p, c)
      \<Longrightarrow> m = fac" for m p c
    using assms(3) by (cases "link_count ls = 0")
      (auto simp: compute_incident_capacity_multiplier_def check_simps Let_def split_def
        fac_def no_links_plan apply_multiplier_updates_def)
  ultimately show "effects_link res = ls\<lparr>incident_capacity_multiplier := fac,
      capacity_violation_flags := map2 (\<lambda>ou e. r32 (e + eps32) < ou) (outflow_vehicles ls)
        (map2 (\<lambda>c m. r32 (c * m)) (capacity_veh_per_tick ls) fac)\<rparr>"
    using assms(2) mem
    by (auto simp: apply_active_event_effects_def check_simps Let_def link_from_internal_arrays_def
        map_r32_id)
qed

text \<open>C18: the incident multiplier of every link is the float32 value of the least of one and the
  multipliers of the active events that apply to it: closures of blockable links give zero,
  capacity reductions give one less their severity.  It lies between zero and one, and every
  other array of the link state is kept.\<close>

theorem event_effects_exact:
  assumes "wf_link ls" "apply_active_event_effects ax ls events v cache = Inr (res, cache')"
    "fst (bridge_group_link_ids_cached ax cache) = groups"
  shows "wf_link (effects_link res) \<and>
    effects_link res = ls\<lparr>incident_capacity_multiplier := incident_capacity_multiplier (effects_link res),
      capacity_violation_flags := capacity_violation_flags (effects_link res)\<rparr> \<and>
    (\<forall>k < link_count ls. incident_capacity_multiplier (effects_link res) ! k
       = r32 (Min (insert 1 (effects_on ax (int (link_count ls)) groups events (int k)))))"
proof -
  let ?n = "int (link_count ls)"
  note r = apply_effects_result[OF assms]
  have nth: "apply_multiplier_updates (replicate (link_count ls) 1)
      (min_multiplier (plan_event_effects ax ?n groups events)) ! k
    = r32 (Min (insert 1 (effects_on ax ?n groups events (int k))))" if "k < link_count ls" for k
    using multiplier_nth[of k ?n ax groups events] that by simp
  have mem: "\<forall>x \<in> set (apply_multiplier_updates (replicate (link_count ls) 1)
      (min_multiplier (plan_event_effects ax ?n groups events))). is_f32 x \<and> 0 \<le> x \<and> x \<le> 1"
    using multiplier_range[of _ ?n ax groups events] r(2) by (auto simp: in_set_conv_nth)
  have "wf_link (effects_link res)"
    using assms(1) mem r(2) unfolding r(1)
    by (simp add: wf_link_def link_count_def Let_def)
  then show ?thesis using nth by (simp add: r(1))
qed

text \<open>An unblockable link is never closed.  If every event that names it is a closure, its
  multiplier stays one.\<close>

lemma unblockable_never_closed:
  assumes "wf_link ls" "apply_active_event_effects ax ls events v cache = Inr (res, cache')"
    and "k < link_count ls"
    and "\<forall>e \<in> set events. effect_model e = ''closure''"
    and "\<forall>l. map_of (axis_index ax) l = Some (int k) \<longrightarrow>
      (\<exists>r. dict_by link_id (axis_links ax) l = Some r \<and> \<not> is_blockable r)"
  shows "incident_capacity_multiplier (effects_link res) ! k = 1"
proof -
  let ?n = "int (link_count ls)" and ?g = "fst (bridge_group_link_ids_cached ax cache)"
  note r = apply_effects_result[OF assms(1,2) refl]
  have "target_index ax ?n e l \<noteq> Some (int k)" if "e \<in> set events" for e l
    using assms(4,5) that by (auto simp: target_index_def split: option.splits)
  then have "effects_on ax ?n ?g events (int k) = {}"
    by (auto simp: effects_on_def event_hits_def)
  then show ?thesis
    using multiplier_nth[of k ?n ax ?g events] assms(3) by (simp add: r(1))
qed

section \<open>A concrete axis\<close>

definition demo_axis_road :: "int \<Rightarrow> bool \<Rightarrow> int option \<Rightarrow> road_link" where
  "demo_axis_road i blockable grp = \<lparr>link_id = i, src_node = 1, dst_node = 2, link_class = Collector,
     length_m = Fin 100, free_flow_speed = Fin 10, link_capacity = Fin 8, lanes = 1,
     bridge_group = grp, is_blockable = blockable, physical_road = None, ramp_purpose = None\<rparr>"

definition demo_axis :: road_axis where
  "demo_axis = \<lparr>axis_object = 1, axis_links = [demo_axis_road 7 True None, demo_axis_road 8 False (Some 4)],
     axis_index = [(7, 0), (8, 1)], axis_link_count = 2, axis_crossings = []\<rparr>"

definition demo_axis_state :: link_state where
  "demo_axis_state = \<lparr>queue_vehicles = [0, 0], inflow_vehicles = [0, 0], outflow_vehicles = [0, 0],
     travel_time_cost = [1, 1], capacity_veh_per_tick = [1, 1],
     incident_capacity_multiplier = [1, 1], capacity_violation_flags = [False, False],
     link_metadata = Map.empty\<rparr>"

definition demo_closure :: traffic_event where
  "demo_closure = \<lparr>event_id = 3, event_type = ''incident'', start_tick = 0, end_tick = 5,
     target_scope = [(''link_ids'', ScopeInts [7, 8])], severity = 1, effect_model = ''closure'',
     status = Active\<rparr>"

lemma demo_axis_state_wf: "wf_link demo_axis_state"
  by (simp add: wf_link_def demo_axis_state_def link_count_def Let_def)

lemma demo_applies:
  "\<exists>res cache'. apply_active_event_effects demo_axis demo_axis_state [demo_closure] False [] = Inr (res, cache')"
  by (simp add: apply_active_event_effects_def compute_incident_capacity_multiplier_def check_eval Let_def
      validate_link_axis_compatibility_def demo_axis_def demo_axis_state_def link_count_def split_def
      link_from_internal_arrays_def same_shape_def)

lemma event_effects_exact_witness:
  "\<exists>res cache'. apply_active_event_effects demo_axis demo_axis_state [demo_closure] False [] = Inr (res, cache') \<and>
     wf_link (effects_link res)"
  using demo_applies event_effects_exact[OF demo_axis_state_wf _ refl] by blast

lemma unblockable_never_closed_witness:
  "\<exists>res cache'. apply_active_event_effects demo_axis demo_axis_state [demo_closure] False [] = Inr (res, cache') \<and>
     incident_capacity_multiplier (effects_link res) ! 1 = 1"
proof -
  obtain res cache' where r: "apply_active_event_effects demo_axis demo_axis_state [demo_closure] False []
      = Inr (res, cache')" using demo_applies by blast
  have "\<forall>e \<in> set [demo_closure]. effect_model e = ''closure''" by (simp add: demo_closure_def)
  moreover have "\<forall>l. map_of (axis_index demo_axis) l = Some (int 1) \<longrightarrow>
      (\<exists>r. dict_by link_id (axis_links demo_axis) l = Some r \<and> \<not> is_blockable r)"
    by (simp add: demo_axis_def demo_axis_road_def dict_by_def)
  moreover have "1 < link_count demo_axis_state" by (simp add: demo_axis_state_def link_count_def)
  ultimately show ?thesis using r unblockable_never_closed[OF demo_axis_state_wf r] by blast
qed

section \<open>The cache of bridge groups\<close>


end
