(* ===== verification/RuntimeStep.thy ===== *)
theory RuntimeStep
  imports TripLedger EventEffects
begin

text \<open>
  One tick of the simulation (src/src/metroflow/sim/step.py): the phases of \<^verbatim>\<open>simulation_step\<close> in their
  order over one state record, from the control and the event scheduler to the commit of the flow.
  The routes offered in a tick (the candidate sets and the reroute tails) and the compiled kernels are
  inputs.  Wall-clock counters, metrics, telemetry and user-interface snapshots are not state of the
  simulation and are left out.
\<close>

section \<open>The state\<close>

record sim_env =
  se_net :: road_network
  se_object :: nat
  se_pois :: "int \<rightharpoonup> poi"
  se_profiles :: "int \<rightharpoonup> route_profile"
  se_spatial :: bool
  se_flow_backend :: string
  se_routing_backend :: string
  se_agent_backend :: string
  se_tick_seconds :: pyfloat
  se_refresh_interval :: int
  se_rust :: rust_flow
  se_kernel :: reroute_kernel

record sim_state =
  w_tick :: int
  w_day :: day_type
  w_band :: time_band
  w_links :: link_state
  w_nodes :: node_state
  w_pool :: runtime_pool
  w_trips :: "trip_request list"
  w_ids :: demand_ids
  w_reasons :: "int \<rightharpoonup> string"
  w_counts :: "nat \<times> nat \<times> nat"
  w_events :: "scheduler_state option"
  w_incident_tick :: int
  w_incident :: string
  w_cache :: group_cache
  w_authority :: bool
  w_counter_tick :: int
  w_completed_count :: nat

text \<open>The control of a tick, and the routes the candidate refresh offers in it.\<close>

record tick_input =
  ti_pause :: bool
  ti_day :: "day_type option"
  ti_band :: "time_band option"
  ti_inject :: "traffic_event list"
  ti_clear :: "int list"
  ti_pick :: route_choice
  ti_tails :: "int \<Rightarrow> int \<Rightarrow> route_selection option"

text \<open>The network as the event effects read it.\<close>

definition axis_of :: "sim_env \<Rightarrow> road_axis" where
  "axis_of e = \<lparr>axis_object = se_object e, axis_links = net_links (se_net e),
     axis_index = zip (map link_id (net_links (se_net e))) (map int [0..<length (net_links (se_net e))]),
     axis_link_count = int (net_link_count (se_net e)), axis_crossings = net_crossings (se_net e)\<rparr>"

section \<open>Control, events and activation\<close>

definition apply_control_to_state :: "tick_input \<Rightarrow> sim_state \<Rightarrow> sim_state" where
  "apply_control_to_state c w =
     (let w' = w\<lparr>w_day := (case ti_day c of Some d \<Rightarrow> d | None \<Rightarrow> w_day w),
        w_band := (case ti_band c of Some b \<Rightarrow> b | None \<Rightarrow> w_band w)\<rparr> in
      if ti_pause c then w' else w'\<lparr>w_tick := w_tick w' + 1\<rparr>)"

definition advance_event_state :: "tick_input \<Rightarrow> sim_state \<Rightarrow> sim_state result" where
  "advance_event_state c w =
     (if ti_inject c = [] \<and> ti_clear c = [] \<and> w_events w = None then Inr w
      else let s = (case w_events w of Some s \<Rightarrow> s
          | None \<Rightarrow> \<lparr>scheduled_events = [], active_events = [], cleared_events = []\<rparr>) in
        bindE (if ti_inject c = [] then Inr s
          else make_scheduler_state (scheduled_events s @ ti_inject c) (active_events s) (cleared_events s)) (\<lambda>s.
        bindE (advance_traffic_event_scheduler s (w_tick w) (ti_clear c)) (\<lambda>s. Inr (w\<lparr>w_events := Some s\<rparr>))))"

definition active_events_of :: "sim_state \<Rightarrow> traffic_event list" where
  "active_events_of w = (case w_events w of None \<Rightarrow> [] | Some s \<Rightarrow> active_events s)"

text \<open>\<^verbatim>\<open>int(metadata.get(key, 0))\<close>.\<close>

definition metadata_int :: "metadata \<Rightarrow> string \<Rightarrow> int result" where
  "metadata_int md key = (case md key of
       None \<Rightarrow> Inr 0
     | Some (MInt i) \<Rightarrow> Inr i
     | Some (MFlag b) \<Rightarrow> Inr (if b then 1 else 0)
     | Some (MScalar (Fin x)) \<Rightarrow> Inr (if 0 \<le> x then \<lfloor>x\<rfloor> else \<lceil>x\<rceil>)
     | Some (MScalar NaN) \<Rightarrow> Inl (ValueError ''cannot convert float NaN to integer'')
     | Some (MScalar _) \<Rightarrow> Inl (OverflowError ''cannot convert float infinity to integer'')
     | Some (MVector _) \<Rightarrow> Inl (OutOfModel key))"

definition with_link_metadata :: "link_state \<Rightarrow> metadata \<Rightarrow> link_state result" where
  "with_link_metadata ls md = link_from_internal_arrays (queue_vehicles ls) (inflow_vehicles ls) (outflow_vehicles ls)
     (travel_time_cost ls) (capacity_veh_per_tick ls) (incident_capacity_multiplier ls) (capacity_violation_flags ls) md"

definition with_link_metadata_increment :: "link_state \<Rightarrow> string \<Rightarrow> link_state result" where
  "with_link_metadata_increment ls key =
     bindE (metadata_int (link_metadata ls) key) (\<lambda>n. with_link_metadata ls ((link_metadata ls)(key \<mapsto> MInt (n + 1))))"

definition incident_transition :: "rat list \<Rightarrow> rat list \<Rightarrow> string" where
  "incident_transition old new =
     (let had = (\<exists>m \<in> set old. m < 1); has = (\<exists>m \<in> set new. m < 1) in
      if \<not> had \<and> has then ''activated'' else if had \<and> \<not> has then ''cleared'' else ''changed'')"

definition apply_event_effects_to_flow_state :: "sim_env \<Rightarrow> sim_state \<Rightarrow> sim_state result" where
  "apply_event_effects_to_flow_state e w =
     (let ls = w_links w; active = active_events_of w in
      if active = [] \<and> \<not> (\<exists>m \<in> set (incident_capacity_multiplier ls). m < 1) then Inr w
      else bindE (apply_active_event_effects (axis_of e) ls active False (w_cache w)) (\<lambda>(res, cache).
        let old = incident_capacity_multiplier ls; new = incident_capacity_multiplier (effects_link res) in
        if old = new then Inr (w\<lparr>w_links := effects_link res, w_cache := cache\<rparr>)
        else bindE (with_link_metadata_increment (effects_link res) ''runtime_incident_generation'') (\<lambda>ls'.
          Inr (w\<lparr>w_links := ls', w_cache := cache, w_incident := incident_transition old new,
            w_incident_tick := w_tick w\<rparr>))))"

definition activate_due_trip_requests :: "sim_state \<Rightarrow> sim_state result" where
  "activate_due_trip_requests w =
     (if w_trips w = [] then Inr w
      else bindE (activate_trip_requests (w_trips w) (w_tick w)) (\<lambda>ts.
        let queued = length (filter (\<lambda>t. trip_status t = Queued) ts);
            active = length (filter (\<lambda>t. trip_status t = Activated) ts) in
        Inr (w\<lparr>w_trips := ts, w_counts := (queued, active, queued + active)\<rparr>)))"

section \<open>Preparing the agents\<close>

definition reroute_env_of :: "sim_env \<Rightarrow> tick_input \<Rightarrow> sim_state \<Rightarrow> int set \<Rightarrow> reroute_env" where
  "reroute_env_of e c w skip = \<lparr>re_net = se_net e, re_links = w_links w, re_kernel = se_kernel e,
     re_backend = se_routing_backend e, re_profiles = se_profiles e, re_tails = ti_tails c, re_tick = w_tick w, re_skip = skip\<rparr>"

definition prepare_runtime_active_agents :: "sim_env \<Rightarrow> tick_input \<Rightarrow> sim_state \<Rightarrow> (sim_state \<times> int set) result" where
  "prepare_runtime_active_agents e c w =
     bindE (allocate_activated_trips (se_spatial e) (se_net e) (w_links w) (w_nodes w) (w_tick w) (se_pois e) (ti_pick c)
       (w_trips w) (w_ids w) (w_reasons w) (w_pool w)) (\<lambda>(p, ad).
     bindE (apply_runtime_reroute_policy (reroute_env_of e c w (ad_slots ad)) (w_nodes w)
       (runtime_reroute_trigger (w_incident_tick w) (w_incident w) (active_events_of w \<noteq> []) (w_tick w)
         (se_refresh_interval e)) p) (\<lambda>(q, _, _).
     bindE (apply_source_queue_increments (se_net e) (w_links w) (ad_increments ad)) (\<lambda>ls.
     let ids = (w_ids w)\<lparr>allocated_trips := ad_allocated ad, failed_trips := ad_failed ad\<rparr> in
     Inr (w\<lparr>w_pool := q, w_ids := ids, w_reasons := ad_reasons ad, w_links := ls,
       w_counts := demand_lifecycle_counts (w_trips w) ids\<rparr>, ad_slots ad))))"

definition advance_runtime_agent_progress :: "sim_env \<Rightarrow> int set \<Rightarrow> sim_state \<Rightarrow> sim_state result" where
  "advance_runtime_agent_progress e skip w =
     (if \<not> se_spatial e then Inr w
      else bindE (advance_agent_link_progress (w_pool w) (se_net e) (se_tick_seconds e) skip) (\<lambda>(p, _).
        Inr (w\<lparr>w_pool := p\<rparr>)))"

definition prepare_runtime_routing_state :: "sim_env \<Rightarrow> tick_input \<Rightarrow> sim_state \<Rightarrow> (sim_state \<times> int set) result" where
  "prepare_runtime_routing_state e c w =
     bindE (prepare_runtime_active_agents e c w) (\<lambda>(w, skip).
     bindE (advance_runtime_agent_progress e skip w) (\<lambda>w.
     bindE (rebuild_runtime_turn_demand (se_net e) (se_spatial e) skip (w_pool w) (w_links w) (w_nodes w)) (\<lambda>ns.
     Inr (w\<lparr>w_nodes := ns\<rparr>, skip))))"

section \<open>Flow and commit\<close>

definition step_storage :: "sim_env \<Rightarrow> link_state \<Rightarrow> pyfloat list option result" where
  "step_storage e ls =
     (if \<not> se_spatial e then Inr None
      else case as_array32 (case link_metadata ls ''storage_capacity_vehicles'' of Some v \<Rightarrow> v | None \<Rightarrow> MVector []) of
          Inl _ \<Rightarrow> Inl (RuntimeError ''spatial flow update lacks storage capacity'')
        | Inr xs \<Rightarrow> if length xs \<noteq> link_count ls then Inl (RuntimeError ''spatial flow update lacks storage capacity'')
            else Inr (Some xs))"

definition advance_flow_state :: "sim_env \<Rightarrow> sim_state \<Rightarrow> sim_state result" where
  "advance_flow_state e w =
     bindE (step_storage e (w_links w)) (\<lambda>storage.
     bindE (update_link_node_flow (se_rust e) (w_links w) (w_nodes w) False (se_flow_backend e) True storage) (\<lambda>r.
     bindE (with_link_metadata (result_link r) ((link_metadata (result_link r))(
         ''runtime_transition_authority_version'' \<mapsto> MInt 1, ''runtime_transition_tick'' \<mapsto> MInt (w_tick w),
         ''runtime_flow_input_queue_vehicles'' \<mapsto> fin_vector (queue_vehicles (w_links w))))) (\<lambda>ls.
     bindE (with_link_metadata_increment ls ''runtime_flow_generation'') (\<lambda>ls.
     Inr (w\<lparr>w_links := ls, w_nodes := result_node r\<rparr>)))))"

definition commit_runtime_routing_state :: "sim_env \<Rightarrow> int set \<Rightarrow> sim_state \<Rightarrow> sim_state result" where
  "commit_runtime_routing_state e skip w =
     bindE (commit_runtime_active_agent_flows (se_net e) (se_agent_backend e) (w_pool w) (w_nodes w) skip (w_ids w))
       (\<lambda>(p, st, ids). Inr (w\<lparr>w_pool := p, w_ids := ids, w_counts := demand_lifecycle_counts (w_trips w) ids,
          w_completed_count := length (cs_completed st)\<rparr>))"

definition run_tick :: "sim_env \<Rightarrow> tick_input \<Rightarrow> sim_state \<Rightarrow> sim_state result" where
  "run_tick e c w =
     bindE (apply_event_effects_to_flow_state e w) (\<lambda>w.
     bindE (activate_due_trip_requests w) (\<lambda>w.
     bindE (prepare_runtime_routing_state e c w) (\<lambda>(w, skip).
     bindE (advance_flow_state e w) (\<lambda>w. commit_runtime_routing_state e skip w))))"

definition simulation_step :: "sim_env \<Rightarrow> tick_input \<Rightarrow> sim_state \<Rightarrow> sim_state result" where
  "simulation_step e c w =
     bindE (advance_event_state c (apply_control_to_state c w)) (\<lambda>w.
     if ti_pause c then Inr (w\<lparr>w_authority := False, w_counter_tick := w_tick w, w_completed_count := 0\<rparr>)
     else bindE (run_tick e c w) (\<lambda>w. Inr (w\<lparr>w_authority := True, w_counter_tick := w_tick w\<rparr>)))"

fun run_rollout :: "sim_env \<Rightarrow> tick_input list \<Rightarrow> sim_state \<Rightarrow> sim_state result" where
  "run_rollout e [] w = Inr w"
| "run_rollout e (c # cs) w = bindE (simulation_step e c w) (run_rollout e cs)"

end
