(* ===== verification/RouteChoice.thy ===== *)
theory RouteChoice
  imports Candidates RuntimeStep
begin

text \<open>
  The choice of a route at run time (src/src/metroflow/sim/routing_runtime.py): the utility of a
  candidate and the selection of the best one, the signature that keys the potential cache and the
  pruning of that cache, the refresh of the candidate sets for the trips of a tick, and the tail
  selection of the reroute phase.  The logarithm of the C library, whose last bit differs between
  platforms, is a parameter of the utility.
\<close>

section \<open>Selecting a candidate\<close>

definition candidate_path_utility :: "(rat \<Rightarrow> rat) \<Rightarrow> rat \<Rightarrow> rat \<Rightarrow> rat \<Rightarrow> rat" where
  "candidate_path_utility lg cost overlap gamma =
     r64 (- cost + r64 (max 0 gamma * lg (if 0 < overlap then overlap else tiny_factor)))"

text \<open>\<^verbatim>\<open>max(items, key=...)\<close>: the first item with the largest key.\<close>

fun first_max :: "('a \<Rightarrow> 'k :: linorder) \<Rightarrow> 'a \<Rightarrow> 'a list \<Rightarrow> 'a" where
  "first_max key best [] = best"
| "first_max key best (x # xs) = first_max key (if key best < key x then x else best) xs"

definition route_utilities :: "(rat \<Rightarrow> rat) \<Rightarrow> int list list \<Rightarrow> rat list \<Rightarrow> rat list \<Rightarrow> rat \<Rightarrow> rat list" where
  "route_utilities lg paths costs sizes gamma =
     map (\<lambda>i. candidate_path_utility lg (costs ! i) (if i < length sizes then sizes ! i else 1) gamma) [0..<length paths]"

definition route_key :: "int list \<Rightarrow> int list list \<Rightarrow> rat list \<Rightarrow> nat \<Rightarrow> rat \<times> int \<times> int list" where
  "route_key ids paths utils i = (utils ! i, - (if i < length ids then ids ! i else int i), map uminus (paths ! i))"

definition select_route_index_host :: "(rat \<Rightarrow> rat) \<Rightarrow> int list \<Rightarrow> int list list \<Rightarrow> nat list \<Rightarrow> rat list \<Rightarrow> rat list \<Rightarrow> rat \<Rightarrow>
    nat \<times> rat" where
  "select_route_index_host lg ids paths viable costs sizes gamma =
     (if length paths \<le> length costs then
        let utils = route_utilities lg paths costs sizes gamma;
            best = first_max (route_key ids paths utils) (hd viable) (tl viable)
        in (best, utils ! best)
      else (hd viable, 0))"

text \<open>The dispatch; a compiled kernel that answers with a negative index selects nothing.\<close>

definition select_route_index :: "(rat \<Rightarrow> rat) \<Rightarrow> rust_candidates \<Rightarrow> int list \<Rightarrow> int list list \<Rightarrow> nat list \<Rightarrow> rat list \<Rightarrow>
    rat list \<Rightarrow> rat \<Rightarrow> string \<Rightarrow> (int \<times> rat \<times> string) result" where
  "select_route_index lg rust ids paths viable costs sizes gamma backend =
     (let host = (case select_route_index_host lg ids paths viable costs sizes gamma of
          (i, u) \<Rightarrow> Inr (int i, u, ''python_host_candidate_selection'')) in
      if backend = ''auto'' \<and> \<not> rust_available (rust_search rust) then host
      else if backend = ''rust_cpu'' \<or> backend = ''auto'' then
        (case bindE (rust_selected_index rust ids paths costs sizes gamma) (\<lambda>(i, u).
            if i < 0 then Inr (- 1, 0, ''rust_cpu_candidate_selection'')
            else if i \<notin> set (map int viable)
              then Inl (RuntimeError ''Rust CPU routing backend failed: selected candidate index is not viable'')
            else Inr (i, u, ''rust_cpu_candidate_selection'')) of
           Inr x \<Rightarrow> Inr x
         | Inl e \<Rightarrow> if \<not> is_runtime e \<or> backend = ''rust_cpu'' then Inl e else host)
      else host)"

record selected_candidate =
  chosen_index :: int
  chosen_id :: int
  chosen_count :: nat
  chosen_path :: "int list"
  chosen_cost :: rat
  chosen_size :: rat
  chosen_utility :: rat
  chosen_backend :: string

definition select_candidate_route :: "(rat \<Rightarrow> rat) \<Rightarrow> rust_candidates \<Rightarrow> candidate_set option \<Rightarrow> rat \<Rightarrow> string \<Rightarrow>
    selected_candidate option result" where
  "select_candidate_route lg rust cs gamma backend = (case cs of
       None \<Rightarrow> Inr None
     | Some s \<Rightarrow>
        let paths = candidate_paths s; viable = filter (\<lambda>i. paths ! i \<noteq> []) [0..<length paths];
            costs = (case candidate_meta s of None \<Rightarrow> [] | Some m \<Rightarrow> path_costs m);
            sizes = (case candidate_meta s of None \<Rightarrow> [] | Some m \<Rightarrow> path_size_factors m);
            ids = candidate_ids s in
        if viable = [] then Inr None
        else bindE (select_route_index lg rust ids paths viable costs sizes gamma backend) (\<lambda>(i, u, used).
          if i < 0 then Inr None
          else let k = nat i in
            Inr (Some \<lparr>chosen_index = i, chosen_id = (if k < length ids then ids ! k else i), chosen_count = length paths,
              chosen_path = paths ! k, chosen_cost = (if k < length costs then costs ! k else 0),
              chosen_size = (if k < length sizes then sizes ! k else 1), chosen_utility = u, chosen_backend = used\<rparr>)))"

definition selected_candidate_memory :: "selected_candidate \<Rightarrow> memory_dict" where
  "selected_candidate_memory s = [''selected_candidate_index'' \<mapsto> MemInt (chosen_index s),
     ''selected_candidate_id'' \<mapsto> MemInt (chosen_id s), ''selected_candidate_count'' \<mapsto> MemInt (int (chosen_count s)),
     ''selected_candidate_path_cost'' \<mapsto> MemFloat (chosen_cost s),
     ''selected_candidate_path_size_factor'' \<mapsto> MemFloat (chosen_size s),
     ''selected_candidate_utility'' \<mapsto> MemFloat (chosen_utility s),
     ''selected_candidate_selection_backend'' \<mapsto> MemText (chosen_backend s)]"

text \<open>What the admission and the reroute phase take from a selection.\<close>

definition selection_of :: "selected_candidate \<Rightarrow> route_selection" where
  "selection_of s = \<lparr>selected_path = chosen_path s, selected_memory = selected_candidate_memory s\<rparr>"

section \<open>The configuration of routing and its caches\<close>

record route_setup =
  rs_max_candidates :: int
  rs_max_hops :: int
  rs_gamma :: rat
  rs_geometry :: string
  rs_log :: "rat \<Rightarrow> rat"
  rs_rust :: rust_candidates

text \<open>The signature of a state: geometry version, node and link count, and the two generations of the link metadata.\<close>

type_synonym state_signature = "string \<times> nat \<times> nat \<times> int \<times> int"
type_synonym potential_key = "state_signature \<times> int \<times> int \<times> int"

definition state_cache_signature :: "sim_env \<Rightarrow> route_setup \<Rightarrow> sim_state \<Rightarrow> state_signature result" where
  "state_cache_signature e rs w =
     bindE (metadata_int (link_metadata (w_links w)) ''runtime_flow_generation'') (\<lambda>flow.
     bindE (metadata_int (link_metadata (w_links w)) ''runtime_incident_generation'') (\<lambda>incident.
     Inr (rs_geometry rs, net_node_count (se_net e), net_link_count (se_net e), flow, incident)))"

definition route_potential_cache_key :: "route_setup \<Rightarrow> state_signature \<Rightarrow> int \<Rightarrow> potential_key" where
  "route_potential_cache_key rs sig dest = (sig, dest, rs_max_hops rs, rs_max_candidates rs)"

text \<open>A key is current when its backend, signature and the two limits are those of the state.\<close>

definition current_key :: "sim_env \<Rightarrow> route_setup \<Rightarrow> state_signature \<Rightarrow> string \<times> potential_key \<Rightarrow> bool" where
  "current_key e rs sig key = (case key of (backend, sig', _, hops, k) \<Rightarrow>
     backend = se_routing_backend e \<and> sig' = sig \<and> hops = rs_max_hops rs \<and> k = rs_max_candidates rs)"

definition prune_potential_cache :: "sim_env \<Rightarrow> route_setup \<Rightarrow> state_signature \<Rightarrow> potential_key potential_cache \<Rightarrow>
    potential_key potential_cache" where
  "prune_potential_cache e rs sig cache =
     cache\<lparr>cached_states := (\<lambda>key. if current_key e rs sig key then cached_states cache key else None)\<rparr>"

record route_cache =
  rc_sets :: "int \<times> int \<rightharpoonup> candidate_set"
  rc_potentials :: "potential_key potential_cache"
  rc_generation :: int

definition create_route_cache :: route_cache where
  "create_route_cache = \<lparr>rc_sets = Map.empty, rc_potentials = \<lparr>cached_states = Map.empty, cache_hits = 0, cache_recomputes = 0\<rparr>,
     rc_generation = 0\<rparr>"

section \<open>Refreshing the candidates of a tick\<close>

text \<open>A computation that may raise or not return.\<close>

definition bindO :: "'a result option \<Rightarrow> ('a \<Rightarrow> 'b result option) \<Rightarrow> 'b result option" where
  "bindO m f = (case m of None \<Rightarrow> None | Some (Inl e) \<Rightarrow> Some (Inl e) | Some (Inr x) \<Rightarrow> f x)"

lemma bindO_simps [simp]: "bindO None f = None" "bindO (Some (Inl e)) f = Some (Inl e)" "bindO (Some (Inr x)) f = f x"
  by (simp_all add: bindO_def)

lemma bindO_eq [check_simps]: "bindO m f = Some (Inr y) \<longleftrightarrow> (\<exists>x. m = Some (Inr x) \<and> f x = Some (Inr y))"
  by (auto simp: bindO_def split: option.split sum.split)

definition route_relevant_trips :: "demand_ids \<Rightarrow> trip_request list \<Rightarrow> trip_request list" where
  "route_relevant_trips ids trips = sort_key trip_request_id (filter (\<lambda>t. trip_status t = Activated \<and>
     trip_request_id t \<notin> allocated_trips ids \<and> trip_request_id t \<notin> completed_trips ids \<and>
     trip_request_id t \<notin> failed_trips ids) trips)"

fun refresh_trips :: "sim_env \<Rightarrow> route_setup \<Rightarrow> sim_state \<Rightarrow> bool \<Rightarrow> refresh_policy \<Rightarrow> state_signature \<Rightarrow> trip_request list \<Rightarrow>
    (int \<times> int) set \<Rightarrow> (int \<times> int \<rightharpoonup> candidate_set) \<times> potential_key potential_cache \<Rightarrow>
    ((int \<times> int \<rightharpoonup> candidate_set) \<times> potential_key potential_cache) result option" where
  "refresh_trips e rs w force policy sig [] done st = Some (Inr st)"
| "refresh_trips e rs w force policy sig (t # ts) done st = (case trip_od_nodes (se_pois e) t of
       None \<Rightarrow> refresh_trips e rs w force policy sig ts done st
     | Some (od, origin, dest) \<Rightarrow>
        if od \<in> done then refresh_trips e rs w force policy sig ts done st
        else bindO (refresh_od_route_candidate_set (rs_rust rs) (se_net e) (w_links w) (fst st od) od origin dest (w_tick w) None
            (active_events_of w \<noteq> []) force (Some policy) (se_routing_backend e)
            (Some (route_potential_cache_key rs sig dest)) (snd st)) (\<lambda>(s, cache).
          refresh_trips e rs w force policy sig ts (insert od done) ((fst st)(od \<mapsto> s), cache)))"

definition refresh_runtime_route_candidates :: "sim_env \<Rightarrow> route_setup \<Rightarrow> sim_state \<Rightarrow> route_cache \<Rightarrow> route_cache result option" where
  "refresh_runtime_route_candidates e rs w rc =
     bindO (Some (validate_routing_backend (se_routing_backend e))) (\<lambda>_.
     bindO (Some (state_cache_signature e rs w)) (\<lambda>sig.
     let cache = prune_potential_cache e rs sig (rc_potentials rc); trips = route_relevant_trips (w_ids w) (w_trips w) in
     if trips = [] then Some (Inr (rc\<lparr>rc_potentials := cache, rc_generation := rc_generation rc + 1\<rparr>))
     else bindO (Some (make_refresh_policy \<lparr>refresh_interval_ticks = se_refresh_interval e, force_refresh_on_incident = True,
          max_candidates = rs_max_candidates rs, max_hops = rs_max_hops rs\<rparr>)) (\<lambda>policy.
       bindO (refresh_trips e rs w (w_incident_tick w = w_tick w) policy sig trips {} (rc_sets rc, cache)) (\<lambda>(sets, cache).
       Some (Inr \<lparr>rc_sets = sets, rc_potentials = cache, rc_generation = rc_generation rc + 1\<rparr>)))))"

section \<open>The tail of a reroute\<close>

text \<open>The loop of the reroute phase starts with an empty cache of potentials; one selection does not depend on what
  the others stored there, because the state they are computed from is the same.\<close>

definition build_reroute_tail_selection :: "sim_env \<Rightarrow> route_setup \<Rightarrow> sim_state \<Rightarrow> potential_key potential_cache \<Rightarrow> int \<Rightarrow> int \<Rightarrow>
    (selected_candidate option \<times> potential_key potential_cache) result option" where
  "build_reroute_tail_selection e rs w cache cur dest = (case link_index (se_net e) cur of
       None \<Rightarrow> Some (Inr (None, cache))
     | Some i \<Rightarrow>
        let origin = dst_node (net_links (se_net e) ! i) in
        if node_index (se_net e) dest = None \<or> origin = dest then Some (Inr (None, cache))
        else bindO (Some (state_cache_signature e rs w)) (\<lambda>sig.
          bindO (build_route_candidate_set (rs_rust rs) (se_net e) (w_links w) (origin, dest) origin dest (w_tick w) (Some cur)
            (max 1 (rs_max_candidates rs)) (max 1 (rs_max_hops rs)) (se_routing_backend e)
            (Some (route_potential_cache_key rs sig dest)) cache) (\<lambda>(s, cache).
          bindO (Some (select_candidate_route (rs_log rs) (rs_rust rs) (Some s) (rs_gamma rs) (se_routing_backend e))) (\<lambda>sel.
          Some (Inr (sel, cache))))))"

section \<open>What the selection chooses\<close>

lemma first_max_in: "first_max key best xs \<in> insert best (set xs)"
proof (induction xs arbitrary: best)
  case (Cons x xs)
  show ?case using Cons.IH[of "if key best < key x then x else best"] by (auto split: if_splits)
qed simp

lemma first_max_ge: "x \<in> insert best (set xs) \<Longrightarrow> key x \<le> key (first_max key best xs)"
proof (induction xs arbitrary: x best)
  case (Cons y xs)
  let ?b = "if key best < key y then y else best"
  have b: "key best \<le> key ?b" "key y \<le> key ?b" by auto
  have ge: "key z \<le> key (first_max key ?b xs)" if "z \<in> insert ?b (set xs)" for z by (rule Cons.IH[OF that])
  then have "key ?b \<le> key (first_max key ?b xs)" by blast
  then show ?case using Cons.prems b ge by fastforce
qed simp

text \<open>With the baseline backend a selection never raises: it is None exactly when no candidate has a link.\<close>

definition viable_routes :: "candidate_set \<Rightarrow> nat list" where
  "viable_routes s = filter (\<lambda>i. candidate_paths s ! i \<noteq> []) [0..<length (candidate_paths s)]"

lemma select_none: "\<forall>p \<in> set (candidate_paths s). p = [] \<Longrightarrow> select_candidate_route lg rust (Some s) gamma backend = Inr None"
  by (simp add: select_candidate_route_def Let_def filter_empty_conv)

lemma select_baseline:
  assumes "viable_routes s \<noteq> []" "candidate_meta s = Some m" "length (path_costs m) = length (candidate_paths s)"
    "length (candidate_ids s) = length (candidate_paths s)"
  obtains i c where "select_candidate_route lg rust (Some s) gamma ''baseline'' = Inr (Some c)"
    "i \<in> set (viable_routes s)" "chosen_path c = candidate_paths s ! i" "chosen_cost c = path_costs m ! i"
    "\<forall>j \<in> set (viable_routes s).
       route_key (candidate_ids s) (candidate_paths s) (route_utilities lg (candidate_paths s) (path_costs m) (path_size_factors m) gamma) j
       \<le> route_key (candidate_ids s) (candidate_paths s) (route_utilities lg (candidate_paths s) (path_costs m) (path_size_factors m) gamma) i"
proof -
  let ?u = "route_utilities lg (candidate_paths s) (path_costs m) (path_size_factors m) gamma"
  let ?key = "route_key (candidate_ids s) (candidate_paths s) ?u"
  let ?v = "viable_routes s"
  define i where "i = first_max ?key (hd ?v) (tl ?v)"
  have v: "set ?v = insert (hd ?v) (set (tl ?v))" using assms(1) by (cases ?v) simp_all
  have i: "i \<in> set ?v" "\<forall>j \<in> set ?v. ?key j \<le> ?key i"
    unfolding i_def v by (rule first_max_in) (use first_max_ge[of _ "hd ?v" "tl ?v" ?key] in blast)
  then have n: "i < length (candidate_paths s)" by (simp add: viable_routes_def)
  have "\<exists>c. select_candidate_route lg rust (Some s) gamma ''baseline'' = Inr (Some c) \<and> chosen_path c = candidate_paths s ! i \<and>
      chosen_cost c = path_costs m ! i"
    using assms n by (simp add: select_candidate_route_def select_route_index_def select_route_index_host_def Let_def
        viable_routes_def[symmetric] i_def[symmetric])
  then show thesis using that i by blast
qed

lemma select_baseline_path:
  assumes "candidate_meta s = Some m" "length (path_costs m) = length (candidate_paths s)"
    "length (candidate_ids s) = length (candidate_paths s)"
  obtains sel where "select_candidate_route lg rust (Some s) gamma ''baseline'' = Inr sel"
    "\<forall>c. sel = Some c \<longrightarrow> chosen_path c \<in> set (candidate_paths s) \<and> chosen_path c \<noteq> []"
proof (cases "viable_routes s = []")
  case True
  then have "\<forall>p \<in> set (candidate_paths s). p = []" by (simp add: viable_routes_def filter_empty_conv all_set_conv_all_nth)
  then show ?thesis by (intro that[OF select_none]) simp_all
next
  case False
  obtain i c where "select_candidate_route lg rust (Some s) gamma ''baseline'' = Inr (Some c)" "i \<in> set (viable_routes s)"
    "chosen_path c = candidate_paths s ! i"
    by (rule select_baseline[OF False assms])
  then show ?thesis by (intro that) (auto simp: viable_routes_def)
qed

text \<open>Without a weight on the overlap the utility is the negated cost.\<close>

lemma utility_plain: "gamma \<le> 0 \<Longrightarrow> is_f64 cost \<Longrightarrow> candidate_path_utility lg cost overlap gamma = - cost"
  by (simp add: candidate_path_utility_def max_absorb1 is_f64_def f64.rd_minus)

lemma select_cheapest:
  assumes "viable_routes s \<noteq> []" "candidate_meta s = Some m" "length (path_costs m) = length (candidate_paths s)"
    "length (candidate_ids s) = length (candidate_paths s)" "\<forall>c \<in> set (path_costs m). is_f64 c" "gamma \<le> 0"
  obtains i c where "select_candidate_route lg rust (Some s) gamma ''baseline'' = Inr (Some c)"
    "i \<in> set (viable_routes s)" "chosen_path c = candidate_paths s ! i" "chosen_cost c = path_costs m ! i"
    "\<forall>j \<in> set (viable_routes s). path_costs m ! i \<le> path_costs m ! j"
proof -
  let ?u = "route_utilities lg (candidate_paths s) (path_costs m) (path_size_factors m) gamma"
  have u: "?u ! j = - (path_costs m ! j)" if "j \<in> set (viable_routes s)" for j
    using that assms(3,5,6) by (simp add: route_utilities_def viable_routes_def utility_plain)
  obtain i c where c: "select_candidate_route lg rust (Some s) gamma ''baseline'' = Inr (Some c)"
    "i \<in> set (viable_routes s)" "chosen_path c = candidate_paths s ! i" "chosen_cost c = path_costs m ! i"
    "\<forall>j \<in> set (viable_routes s). route_key (candidate_ids s) (candidate_paths s) ?u j \<le> route_key (candidate_ids s) (candidate_paths s) ?u i"
    by (rule select_baseline[OF assms(1-4)])
  have "path_costs m ! i \<le> path_costs m ! j" if j: "j \<in> set (viable_routes s)" for j
  proof -
    have "?u ! j \<le> ?u ! i" using c(5) j by (auto simp: route_key_def less_eq_prod_def)
    then show ?thesis using u[OF j] u[OF c(2)] by simp
  qed
  then show thesis using that c by blast
qed

end
