(* ===== verification/SimulationRun.thy ===== *)
theory SimulationRun
  imports RuntimeStep
begin

text \<open>
  What a whole run keeps.  A state is ready for n ticks when the flow engine can read its arrays, every
  agent carries a legal route, the queues equal the agents on the links, the books of the trips
  balance, and no signal timer can reach the largest int32 within n ticks.  Every phase of
  src/src/metroflow/sim/step.py keeps that, so every completed rollout does.
\<close>

section \<open>Changes the readiness of the runtime does not see\<close>

lemma with_link_metadata_ok:
  assumes "wf_link ls" shows "with_link_metadata ls md = Inr (ls\<lparr>link_metadata := md\<rparr>)"
proof -
  have "map r32 xs = xs" if "\<forall>x \<in> set xs. is_f32 x" for xs using that by (rule map_r32_id)
  then show ?thesis
    using assms by (simp add: with_link_metadata_def link_from_internal_arrays_def same_shape_def wf_link_def Let_def
        link_count_def check_eval)
qed

lemma increment_metadata:
  assumes "with_link_metadata_increment ls key = Inr ls'" "wf_link ls"
  obtains n where "ls' = ls\<lparr>link_metadata := (link_metadata ls)(key \<mapsto> MInt n)\<rparr>"
  using assms by (auto simp: with_link_metadata_increment_def with_link_metadata_ok check_simps)

lemma wf_link_metadata [simp]: "wf_link (ls\<lparr>link_metadata := md\<rparr>) = wf_link ls"
  by (simp add: wf_link_def link_count_def)

lemma runtime_ready_links:
  assumes "runtime_ready net lookup p ls ns" "wf_link ls'" "queue_vehicles ls' = queue_vehicles ls"
    "travel_time_cost ls' = travel_time_cost ls"
    "link_metadata ls' ''free_flow_travel_time_cost'' = link_metadata ls ''free_flow_travel_time_cost''"
  shows "runtime_ready net lookup p ls' ns"
proof -
  have "link_count ls' = link_count ls" using assms(3) by (simp add: link_count_def)
  moreover from this have "read_link_base_travel_time ls' = read_link_base_travel_time ls"
    unfolding read_link_base_travel_time_def assms(4,5) by (simp only:)
  ultimately show ?thesis
    using assms(1-3) by (auto simp: runtime_ready_def tick_ready_def turns_in_range_def plain_metadata_def
        lockstep_def integral_queue_def)
qed

lemma runtime_ready_pool:
  assumes "runtime_ready net lookup p ls ns" "pool_ok q" "agents_routed net lookup q {}"
    "alive_mask q = alive_mask p" "current_link_id q = current_link_id p"
  shows "runtime_ready net lookup q ls ns"
proof -
  have "occupancy net q = occupancy net p" using assms(4,5) by (simp add: occupancy_def fun_eq_iff)
  then show ?thesis using assms by (simp add: runtime_ready_def lockstep_def)
qed

lemma commit_capacity:
  assumes "commit_runtime_active_agent_flows net ab p ns skip ids = Inr (q, st, ids')"
  shows "capacity q = capacity p"
proof -
  have step: "capacity (cs_pool st2) = capacity (cs_pool st1)" if "commit_slot net lookup skip p k st1 = Inr st2" for lookup k st1 st2
    using that by (auto simp: commit_slot_def Let_def check_simps runtime_move_slot_def runtime_release_slot_def
        split: if_splits option.splits)
  have "capacity (cs_pool st2) = capacity (cs_pool st1)" if "foldE (commit_slot net lookup skip p) ks st1 = Inr st2" for lookup ks st1 st2
    using that by (induction ks arbitrary: st1) (auto simp: check_simps dest!: step)
  then show ?thesis
    using assms by (auto simp: commit_runtime_active_agent_flows_def advance_pool_along_realized_turns_def
        pool_from_internal_arrays_def check_simps)
qed

section \<open>Signal timers\<close>

definition timer_room :: "nat \<Rightarrow> node_state \<Rightarrow> bool" where
  "timer_room n ns \<longleftrightarrow> (\<forall>t \<in> set (signal_phase_timer ns). sint t + int n < 2 ^ 31 - 1)"

lemma timer_room_weaken: "timer_room n ns \<Longrightarrow> m \<le> n \<Longrightarrow> timer_room m ns"
  by (fastforce simp: timer_room_def)

lemma authority_node_keys:
  assumes "finish_authority A b su st storage = Inr (A', lm, nm)" "k \<notin> dom (authority_node_metadata su st)"
  shows "nm k = None"
  using assms by (auto simp: finish_authority_def Let_def check_simps)

lemma authority_link_keys:
  assumes "finish_authority A b su st storage = Inr (A', lm, nm)"
    "\<And>sr rr. k \<notin> dom (authority_link_metadata su st sr rr storage)"
  shows "lm k = None"
  using assms by (auto simp: finish_authority_def Let_def check_simps)

lemma committed_link_metadata [simp]: "link_metadata (committed_link ls A md) = md"
  by (simp add: committed_link_def)

lemma tick_ready_next:
  assumes "tick_ready ls ns" "update_link_node_flow rust ls ns v bk True arg = Inr r" "timer_room (Suc n) ns"
  shows "tick_ready (result_link r) (result_node r)" "timer_room n (result_node r)"
proof -
  have wf: "wf_link ls" "wf_node ns" "timers_in_range ns" using assms(1) by (simp_all add: tick_ready_def)
  obtain b f A A0 su st storage lm nm where t: "read_link_base_travel_time ls = Inr b"
    "finish_authority A0 b su st storage = Inr (A, lm, nm)" "arrays_fit ls ns A"
    "r = \<lparr>result_link = committed_link ls A ((link_metadata ls)(''free_flow_travel_time_cost'' \<mapsto> fin_vector b) ++ lm),
          result_node = committed_node ns A (node_metadata ns ++ nm)\<rparr>"
    using discrete_tick[OF assms(1,2)] by metis
  have timers: "signal_phase_timer (result_node r) = map (\<lambda>t. t + 1) (signal_phase_timer ns)"
    using t(3) by (simp add: t(4) committed_node_def arrays_fit_def Let_def)
  have up: "sint (t + 1) = sint t + 1" if "t \<in> set (signal_phase_timer ns)" for t
    using that wf(2,3) by (intro timer_step) (simp_all add: wf_node_def timers_in_range_def)
  then show room: "timer_room n (result_node r)"
    using assms(3) by (simp add: timer_room_def timers algebra_simps)
  then have "timers_in_range (result_node r)" by (auto simp: timers_in_range_def timer_room_def)
  moreover have "read_link_base_travel_time (result_link r) = Inr b"
    by (rule free_flow_times_stable[OF wf(1) t(1) assms(2)])
  moreover have count: "link_count (result_link r) = link_count ls" "turn_count (result_node r) = turn_count ns"
    using t(3) by (simp_all add: t(4) committed_link_def committed_node_def link_count_def turn_count_def
        arrays_fit_def Let_def)
  moreover have "nm ''turn_base_priority'' = None" "nm ''turn_is_forbidden'' = None"
    by (rule authority_node_keys[OF t(2)]; simp add: authority_node_metadata_def)+
  then have "read_turn_priority (node_metadata (result_node r)) k = read_turn_priority (node_metadata ns) k"
    "read_turn_forbidden (node_metadata (result_node r)) k = read_turn_forbidden (node_metadata ns) k" for k
    by (simp_all add: t(4) committed_node_def read_turn_priority_def read_turn_forbidden_def map_add_def)
  ultimately show "tick_ready (result_link r) (result_node r)"
    using assms(1) discrete_tick_wf[OF assms(1,2)]
    by (simp add: tick_ready_def turns_in_range_def plain_metadata_def) (simp add: t(4) committed_node_def)
qed

section \<open>Ready for n ticks\<close>

definition env_ok :: "sim_env \<Rightarrow> bool" where
  "env_ok e \<longleftrightarrow> wf_network (se_net e) \<and> turns_indexed (se_net e) \<and> (se_spatial e \<longrightarrow> sane_links (se_net e)) \<and>
     se_agent_backend e \<noteq> ''rust_cpu''"

definition input_ok :: "tick_input \<Rightarrow> bool" where
  "input_ok c \<longleftrightarrow> (\<forall>od sel. ti_pick c od = Some sel \<longrightarrow> selection_ok sel) \<and>
     (\<forall>cur dest sel. ti_tails c cur dest = Some sel \<longrightarrow> selection_ok sel)"

definition trip_ids :: "trip_request list \<Rightarrow> int set" where
  "trip_ids ts = trip_request_id ` set ts"

definition trips_sound :: "trip_request list \<Rightarrow> bool" where
  "trips_sound ts \<longleftrightarrow> distinct (map trip_request_id ts) \<and> (\<forall>t \<in> set ts. trip_status t \<noteq> Canceled)"

definition books_ok :: "sim_state \<Rightarrow> bool" where
  "books_ok w \<longleftrightarrow> trip_ledger (w_pool w) (w_ids w) \<and> trips_sound (w_trips w) \<and>
     allocated_trips (w_ids w) \<union> failed_trips (w_ids w) \<subseteq> trip_ids (w_trips w)"

definition sim_ready :: "sim_env \<Rightarrow> nat \<Rightarrow> sim_state \<Rightarrow> bool" where
  "sim_ready e n w \<longleftrightarrow> (\<exists>lookup. runtime_ready (se_net e) lookup (w_pool w) (w_links w) (w_nodes w)) \<and>
     timer_room n (w_nodes w) \<and> capacity (w_pool w) < 2 ^ 23 \<and> books_ok w"

lemma effects_wf:
  assumes "wf_link ls" "apply_active_event_effects ax ls events v cache = Inr (res, cache')"
  shows "wf_link (effects_link res)" "queue_vehicles (effects_link res) = queue_vehicles ls"
    "travel_time_cost (effects_link res) = travel_time_cost ls" "link_metadata (effects_link res) = link_metadata ls"
proof -
  note res = apply_effects_result[OF assms refl]
  show "wf_link (effects_link res)"
    using assms(1) multiplier_range[of _ "int (link_count ls)"] res(2) unfolding res(1)
    by (simp add: wf_link_def Let_def link_count_def all_set_conv_all_nth)
  show "queue_vehicles (effects_link res) = queue_vehicles ls"
    "travel_time_cost (effects_link res) = travel_time_cost ls" "link_metadata (effects_link res) = link_metadata ls"
    by (simp_all add: res(1))
qed

lemma event_effects_ready:
  assumes "apply_event_effects_to_flow_state e w = Inr w'" "sim_ready e n w"
  shows "sim_ready e n w'" "w_trips w' = w_trips w"
proof -
  obtain lookup where rt: "runtime_ready (se_net e) lookup (w_pool w) (w_links w) (w_nodes w)"
    using assms(2) by (auto simp: sim_ready_def)
  then have wf: "wf_link (w_links w)" by (simp add: runtime_ready_def tick_ready_def)
  have "w' = w \<or> (\<exists>res v cache ev. apply_active_event_effects (axis_of e) (w_links w) ev v (w_cache w) = Inr (res, cache) \<and>
      (w' = w\<lparr>w_links := effects_link res, w_cache := cache\<rparr> \<or>
       (\<exists>ls' s t. with_link_metadata_increment (effects_link res) ''runtime_incident_generation'' = Inr ls' \<and>
          w' = w\<lparr>w_links := ls', w_cache := cache, w_incident := s, w_incident_tick := t\<rparr>)))"
    using assms(1) by (auto simp: apply_event_effects_to_flow_state_def check_simps Let_def split: if_splits) blast+
  then have "w_trips w' = w_trips w \<and> sim_ready e n w'"
  proof (elim disjE exE conjE)
    fix res v cache ev
    assume run: "apply_active_event_effects (axis_of e) (w_links w) ev v (w_cache w) = Inr (res, cache)"
    note wfr = effects_wf(1)[OF wf run] and same = effects_wf(2-4)[OF wf run]
    have ready: "runtime_ready (se_net e) lookup (w_pool w) (effects_link res) (w_nodes w)"
      by (rule runtime_ready_links[OF rt wfr]) (simp_all add: same)
    {
      assume "w' = w\<lparr>w_links := effects_link res, w_cache := cache\<rparr>"
      then show ?thesis using assms(2) ready by (auto simp: sim_ready_def books_ok_def)
    next
      fix ls' s t
      assume inc: "with_link_metadata_increment (effects_link res) ''runtime_incident_generation'' = Inr ls'"
        "w' = w\<lparr>w_links := ls', w_cache := cache, w_incident := s, w_incident_tick := t\<rparr>"
      obtain k where ls': "ls' = (effects_link res)\<lparr>link_metadata := (link_metadata (effects_link res))
          (''runtime_incident_generation'' \<mapsto> MInt k)\<rparr>"
        by (rule increment_metadata[OF inc(1) wfr])
      have "runtime_ready (se_net e) lookup (w_pool w) ls' (w_nodes w)"
        by (rule runtime_ready_links[OF ready]) (use wfr in \<open>simp_all add: ls'\<close>)
      then show ?thesis using assms(2) by (auto simp: inc(2) sim_ready_def books_ok_def)
    }
  qed (use assms(2) in simp)
  then show "sim_ready e n w'" "w_trips w' = w_trips w" by simp_all
qed

lemma activation_ids:
  assumes "activate_trip_requests ts now = Inr ts'"
  shows "map trip_request_id ts' = map trip_request_id ts"
    "list_all2 (\<lambda>t t'. t' = t \<or> t' = activated now t) ts ts'"
proof -
  show all: "list_all2 (\<lambda>t t'. t' = t \<or> t' = activated now t) ts ts'"
    using assms activate_loop_sound by (auto simp: activate_trip_requests_def check_simps)
  then show "map trip_request_id ts' = map trip_request_id ts"
    by induction (auto simp: activated_def)
qed

lemma activation_sound:
  assumes "activate_trip_requests ts now = Inr ts'" "trips_sound ts"
  shows "trips_sound ts'"
proof -
  have "\<forall>t' \<in> set ts'. \<exists>t \<in> set ts. t' = t \<or> t' = activated now t"
    using activation_ids(2)[OF assms(1)] by (auto simp: list_all2_conv_all_nth in_set_conv_nth) (metis nth_mem)
  moreover have "trip_status t = Canceled" if "trip_status (activated now t) = Canceled" for t
    using that by (simp add: activated_def split: if_splits)
  ultimately have "\<forall>t' \<in> set ts'. trip_status t' \<noteq> Canceled"
    using assms(2) by (metis trips_sound_def)
  then show ?thesis using assms(2) activation_ids(1)[OF assms(1)] by (simp add: trips_sound_def)
qed

lemma activation_ready:
  assumes "activate_due_trip_requests w = Inr w'" "sim_ready e n w"
  shows "sim_ready e n w'" "map trip_request_id (w_trips w') = map trip_request_id (w_trips w)"
proof -
  have sound: "trips_sound (w_trips w)" using assms(2) by (simp add: sim_ready_def books_ok_def)
  obtain ts c where w': "w' = w\<lparr>w_trips := ts, w_counts := c\<rparr>" "map trip_request_id ts = map trip_request_id (w_trips w)"
    "trips_sound ts"
  proof (cases "w_trips w = []")
    case True
    then show thesis using assms(1) sound
      by (intro that[of "w_counts w" "w_trips w"]) (simp_all add: activate_due_trip_requests_def)
  next
    case False
    then obtain ts where "activate_trip_requests (w_trips w) (w_tick w) = Inr ts" "\<exists>c. w' = w\<lparr>w_trips := ts, w_counts := c\<rparr>"
      using assms(1) by (auto simp: activate_due_trip_requests_def check_simps Let_def)
    then show thesis using that activation_ids(1) activation_sound sound by blast
  qed
  then have "trip_ids ts = trip_ids (w_trips w)" unfolding trip_ids_def by (metis set_map)
  then show "sim_ready e n w'" "map trip_request_id (w_trips w') = map trip_request_id (w_trips w)"
    using assms(2) w' by (simp_all add: sim_ready_def books_ok_def)
qed


section \<open>The agents of a tick\<close>

lemma progress_routed:
  assumes "agents_routed net lookup p {}" "q = p\<lparr>progress_01 := xs\<rparr>"
  shows "agents_routed net lookup q {}"
proof -
  have "read_slot_route q k = read_slot_route p k" for k
    by (rule read_slot_route_cong) (simp_all add: assms(2))
  then show ?thesis using assms by (simp add: agents_routed_def active_def slot_routed_def)
qed

lemma prepare_agents_ready:
  assumes "prepare_runtime_active_agents e c w = Inr (w', skip)" "sim_ready e n w" "env_ok e" "input_ok c"
  shows "sim_ready e n w'" "w_trips w' = w_trips w" "w_nodes w' = w_nodes w"
proof -
  let ?net = "se_net e"
  have net: "wf_network ?net" using assms(3) by (simp add: env_ok_def)
  obtain lookup where rt: "runtime_ready ?net lookup (w_pool w) (w_links w) (w_nodes w)"
    and cap: "capacity (w_pool w) < 2 ^ 23" and books: "trip_ledger (w_pool w) (w_ids w)"
      "allocated_trips (w_ids w) \<union> failed_trips (w_ids w) \<subseteq> trip_request_id ` set (w_trips w)"
    and room: "timer_room n (w_nodes w)" and sound: "trips_sound (w_trips w)"
    using assms(2) by (auto simp: sim_ready_def books_ok_def trip_ids_def)
  obtain p ad q m1 m2 ls where run:
    "allocate_activated_trips (se_spatial e) ?net (w_links w) (w_nodes w) (w_tick w) (se_pois e) (ti_pick c)
       (w_trips w) (w_ids w) (w_reasons w) (w_pool w) = Inr (p, ad)"
    "apply_runtime_reroute_policy (reroute_env_of e c w (ad_slots ad)) (w_nodes w)
       (runtime_reroute_trigger (w_incident_tick w) (w_incident w) (active_events_of w \<noteq> []) (w_tick w)
         (se_refresh_interval e)) p = Inr (q, m1, m2)"
    "apply_source_queue_increments ?net (w_links w) (ad_increments ad) = Inr ls"
    and w': "w_pool w' = q" "w_links w' = ls" "w_nodes w' = w_nodes w" "w_trips w' = w_trips w"
      "w_ids w' = (w_ids w)\<lparr>allocated_trips := ad_allocated ad, failed_trips := ad_failed ad\<rparr>"
    using assms(1) by (auto simp: prepare_runtime_active_agents_def check_simps Let_def split: prod.splits)
  have picks: "\<forall>od sel. ti_pick c od = Some sel \<longrightarrow> selection_ok sel" using assms(4) by (simp add: input_ok_def)
  have ready: "runtime_ready ?net lookup p ls (w_nodes w)" "capacity p = capacity (w_pool w)"
    using admission_ready[OF net rt cap picks run(1)] run(3) by auto
  then have p: "pool_ok p" "agents_routed ?net lookup p {}" "runtime_turn_index_lookup ?net (w_nodes w) = Inr lookup"
    by (simp_all add: runtime_ready_def)
  have env: "re_net (reroute_env_of e c w s) = ?net" "tails_ok (reroute_env_of e c w s)" for s
    using assms(4) by (simp_all add: reroute_env_of_def tails_ok_def input_ok_def)
  note rer = reroute_policy_ok[OF run(2) env(2), unfolded env(1), OF p(3,1,2)]
  obtain cool mem where q: "q = p\<lparr>reroute_cooldown_ticks := cool, plugin_memory := mem\<rparr>" using rer(3) by blast
  have "runtime_ready ?net lookup q ls (w_nodes w)"
    by (rule runtime_ready_pool[OF ready(1) rer(1,2)]) (simp_all add: q)
  moreover have "trip_ledger q (w_ids w')" "allocated_trips (w_ids w') \<union> failed_trips (w_ids w') \<subseteq> trip_ids (w_trips w)"
  proof -
    note led = admission_keeps_ledger[OF run(1) _ books]
    have "alive_mask q = alive_mask p" "trip_id q = trip_id p" by (simp_all add: q)
    note same = ledger_cong[OF this]
    show "trip_ledger q (w_ids w')" "allocated_trips (w_ids w') \<union> failed_trips (w_ids w') \<subseteq> trip_ids (w_trips w)"
      using led rt unfolding w'(5) by (simp_all add: trip_ledger_def same runtime_ready_def trip_ids_def)
  qed
  ultimately show "sim_ready e n w'" using ready(2) cap room w' sound by (auto simp: sim_ready_def books_ok_def q)
  show "w_trips w' = w_trips w" "w_nodes w' = w_nodes w" by (simp_all add: w')
qed

lemma progress_ready:
  assumes "advance_runtime_agent_progress e skip w = Inr w'" "sim_ready e n w" "env_ok e"
  shows "sim_ready e n w'" "w_trips w' = w_trips w"
proof -
  have "sim_ready e n w' \<and> w_trips w' = w_trips w"
  proof (cases "se_spatial e")
    case False
    then show ?thesis using assms(1,2) by (simp add: advance_runtime_agent_progress_def)
  next
    case True
    obtain p k where run: "advance_agent_link_progress (w_pool w) (se_net e) (se_tick_seconds e) skip = Inr (p, k)"
      and w': "w' = w\<lparr>w_pool := p\<rparr>"
      using assms(1) True by (auto simp: advance_runtime_agent_progress_def check_simps split: prod.splits)
    obtain lookup where rt: "runtime_ready (se_net e) lookup (w_pool w) (w_links w) (w_nodes w)"
      and cap: "capacity (w_pool w) < 2 ^ 23" and books: "books_ok w" and room: "timer_room n (w_nodes w)"
      using assms(2) by (auto simp: sim_ready_def)
    have p0: "pool_ok (w_pool w)" "agents_routed (se_net e) lookup (w_pool w) {}"
      using rt by (simp_all add: runtime_ready_def)
    have net: "wf_network (se_net e)" "sane_links (se_net e)" using assms(3) True by (simp_all add: env_ok_def)
    have len: "length (alive_mask (w_pool w)) = nat (capacity (w_pool w))"
      using p0(1) by (simp add: pool_ok_def pool_shaped_def)
    have "\<forall>k < nat (capacity (w_pool w)). alive_mask (w_pool w) ! k \<longrightarrow>
        link_index (se_net e) (current_link_id (w_pool w) ! k) \<noteq> None"
      using routed_on_link[OF net(1)] p0(2) len unfolding agents_routed_def active_def by fastforce
    note adv = advance_progress_ok[OF p0(1) net(2) this run]
    have q: "p = (w_pool w)\<lparr>progress_01 := progress_01 p\<rparr>" by (rule adv(2))
    then obtain xs where xs: "p = (w_pool w)\<lparr>progress_01 := xs\<rparr>" by blast
    have "runtime_ready (se_net e) lookup p (w_links w) (w_nodes w)"
      by (rule runtime_ready_pool[OF rt adv(1) progress_routed[OF p0(2) xs]]) (simp_all add: xs)
    moreover have "alive_mask p = alive_mask (w_pool w)" "trip_id p = trip_id (w_pool w)" by (simp_all add: xs)
    note same = ledger_cong[OF this]
    ultimately show ?thesis
      using cap books room by (auto simp: w' sim_ready_def books_ok_def trip_ledger_def same) (simp add: xs)
  qed
  then show "sim_ready e n w'" "w_trips w' = w_trips w" by simp_all
qed


section \<open>The flow and its commit\<close>

lemma rebuilt_tick_ready:
  assumes "wf_network net" "turns_indexed net" "runtime_ready net lookup p ls ns"
    "rebuild_runtime_turn_demand net spatial skip p ls ns = Inr ns'"
  shows "tick_ready ls ns'" "signal_phase_timer ns' = signal_phase_timer ns"
proof -
  have rt: "tick_ready ls ns" "runtime_turn_index_lookup net ns = Inr lookup" "pool_ok p"
    "agents_routed net lookup p {}" "lockstep net p ls" "wf_node ns" "agents_routed net lookup p skip"
    "link_count ls = net_link_count net"
    using assms(3) by (simp_all add: runtime_ready_def tick_ready_def agents_routed_def active_def lockstep_def)
  note alive = lockstep_alive[OF assms(1) rt(4,3,5)]
  let ?w = "\<lambda>mk. wishes net lookup p (wanting spatial p skip) mk (length (alive_mask p))"
  have ns': "ns' = rebuilt_node ns (?w TurnIntent (turn_count ns)) (?w SinkIntent (link_count ls))"
    using rebuild_exact[OF assms(1,2) rt(6,2,7,3) _ rt(8)] alive assms(4) by simp
  show "tick_ready ls ns'"
    unfolding ns' by (rule rebuilt_ready[OF rt(1) _ whole_wishes[OF rt(3) alive]]) (simp add: wishes_def)
  show "signal_phase_timer ns' = signal_phase_timer ns" by (simp add: ns' rebuilt_node_def)
qed

text \<open>The metadata of the links after the flow.\<close>

definition transition_metadata :: "flow_update_result \<Rightarrow> link_state \<Rightarrow> int \<Rightarrow> int \<Rightarrow> metadata" where
  "transition_metadata r ls tick k = (link_metadata (result_link r))(
     ''runtime_transition_authority_version'' \<mapsto> MInt 1, ''runtime_transition_tick'' \<mapsto> MInt tick,
     ''runtime_flow_input_queue_vehicles'' \<mapsto> fin_vector (queue_vehicles ls), ''runtime_flow_generation'' \<mapsto> MInt k)"

lemma transition_metadata_other:
  "key \<notin> {''runtime_transition_authority_version'', ''runtime_transition_tick'', ''runtime_flow_input_queue_vehicles'',
     ''runtime_flow_generation''} \<Longrightarrow> transition_metadata r ls tick k key = link_metadata (result_link r) key"
  by (simp add: transition_metadata_def)

lemma advance_flow_view:
  assumes "advance_flow_state e w = Inr w'" "tick_ready (w_links w) (w_nodes w)"
  obtains r arg k where "update_link_node_flow (se_rust e) (w_links w) (w_nodes w) False (se_flow_backend e) True arg = Inr r"
    "w' = w\<lparr>w_links := (result_link r)\<lparr>link_metadata := transition_metadata r (w_links w) (w_tick w) k\<rparr>, w_nodes := result_node r\<rparr>"
    "step_storage e (w_links w) = Inr arg"
proof -
  obtain arg r ls1 ls2 where run: "step_storage e (w_links w) = Inr arg"
    "update_link_node_flow (se_rust e) (w_links w) (w_nodes w) False (se_flow_backend e) True arg = Inr r"
    "with_link_metadata (result_link r) ((link_metadata (result_link r))(
         ''runtime_transition_authority_version'' \<mapsto> MInt 1, ''runtime_transition_tick'' \<mapsto> MInt (w_tick w),
         ''runtime_flow_input_queue_vehicles'' \<mapsto> fin_vector (queue_vehicles (w_links w)))) = Inr ls1"
    "with_link_metadata_increment ls1 ''runtime_flow_generation'' = Inr ls2"
    "w' = w\<lparr>w_links := ls2, w_nodes := result_node r\<rparr>"
    using assms(1) by (auto simp: advance_flow_state_def check_simps)
  have wfr: "wf_link (result_link r)" by (rule discrete_tick_wf(1)[OF assms(2) run(2)])
  note ls1 = run(3)[unfolded with_link_metadata_ok[OF wfr] sum.inject, symmetric]
  obtain k where "ls2 = ls1\<lparr>link_metadata := (link_metadata ls1)(''runtime_flow_generation'' \<mapsto> MInt k)\<rparr>"
    using increment_metadata[OF run(4)] wfr by (auto simp: ls1)
  then have "ls2 = (result_link r)\<lparr>link_metadata := transition_metadata r (w_links w) (w_tick w) k\<rparr>"
    by (simp add: ls1 transition_metadata_def)
  then show ?thesis by (intro that[OF run(2) _ run(1)]) (simp add: run(5))
qed

lemma flow_commit_view:
  assumes "sim_ready e (Suc n) w" "env_ok e"
    "rebuild_runtime_turn_demand (se_net e) (se_spatial e) skip (w_pool w) (w_links w) (w_nodes w) = Inr ns"
    "advance_flow_state e (w\<lparr>w_nodes := ns\<rparr>) = Inr w1"
  obtains r arg k q ids sinks w2 where
    "update_link_node_flow (se_rust e) (w_links w) ns False (se_flow_backend e) True arg = Inr r"
    "step_storage e (w_links w) = Inr arg" "tick_ready (w_links w) ns"
    "commit_runtime_routing_state e skip w1 = Inr w2" "sim_ready e n w2"
    "w2 = w\<lparr>w_links := (result_link r)\<lparr>link_metadata := transition_metadata r (w_links w) (w_tick w) k\<rparr>,
       w_nodes := result_node r, w_pool := q, w_ids := ids, w_counts := demand_lifecycle_counts (w_trips w) ids,
       w_completed_count := nat (sum_list sinks)\<rparr>"
    "link_metadata (result_link r) ''runtime_sink_flow_vehicles'' = Some (fin_vector (to_f32 sinks))" "whole_counts sinks"
proof -
  let ?net = "se_net e"
  have env: "wf_network ?net" "turns_indexed ?net" "se_agent_backend e \<noteq> ''rust_cpu''" using assms(2) by (simp_all add: env_ok_def)
  obtain lookup where rt: "runtime_ready ?net lookup (w_pool w) (w_links w) (w_nodes w)"
    and room: "timer_room (Suc n) (w_nodes w)" and cap: "capacity (w_pool w) < 2 ^ 23" and books: "books_ok w"
    using assms(1) by (auto simp: sim_ready_def)
  note reb = rebuilt_tick_ready[OF env(1,2) rt assms(3)]
  obtain r arg k where run: "update_link_node_flow (se_rust e) (w_links w) ns False (se_flow_backend e) True arg = Inr r"
    and w1: "w1 = w\<lparr>w_nodes := ns, w_links := (result_link r)\<lparr>link_metadata := transition_metadata r (w_links w) (w_tick w) k\<rparr>,
      w_nodes := result_node r\<rparr>"
    and storage: "step_storage e (w_links w) = Inr arg"
    by (rule advance_flow_view[OF assms(4)]) (use reb(1) in auto)
  let ?md = "transition_metadata r (w_links w) (w_tick w) k"
  have "timer_room (Suc n) ns" using room reb(2) by (simp add: timer_room_def)
  note nxt = tick_ready_next[OF reb(1) run this]
  obtain q st sinks where commit: "commit_runtime_active_agent_flows ?net (se_agent_backend e) (w_pool w) (result_node r) skip (w_ids w)
       = Inr (q, st, (w_ids w)\<lparr>completed_trips := completed_trips (w_ids w) \<union> set (cs_completed st)\<rparr>)"
    and q: "pool_ok q" "agents_routed ?net lookup q {}" "lockstep ?net q (result_link r)"
      "runtime_turn_index_lookup ?net (result_node r) = Inr lookup"
    and sinks: "link_metadata (result_link r) ''runtime_sink_flow_vehicles'' = Some (fin_vector (to_f32 sinks))"
      "int (length (cs_completed st)) = sum_list sinks" "whole_counts sinks"
    using runtime_tick[OF env(1,2) rt assms(3) run env(3), of "w_ids w"] by metis
  let ?ids = "(w_ids w)\<lparr>completed_trips := completed_trips (w_ids w) \<union> set (cs_completed st)\<rparr>"
  let ?w2 = "w1\<lparr>w_pool := q, w_ids := ?ids, w_counts := demand_lifecycle_counts (w_trips w) ?ids,
          w_completed_count := nat (sum_list sinks)\<rparr>"
  have "length (cs_completed st) = nat (sum_list sinks)" using sinks(2) by simp
  then have run2: "commit_runtime_routing_state e skip w1 = Inr ?w2"
    using commit by (simp add: commit_runtime_routing_state_def w1)
  have rt0: "pool_ok (w_pool w)" "trip_ledger (w_pool w) (w_ids w)"
    using rt books by (simp_all add: runtime_ready_def books_ok_def)
  note led = commit_ledger[OF commit rt0]
  have "runtime_ready ?net lookup q (result_link r) (result_node r)" using nxt(1) q by (simp add: runtime_ready_def)
  then have "runtime_ready ?net lookup q ((result_link r)\<lparr>link_metadata := ?md\<rparr>) (result_node r)"
    by (rule runtime_ready_links) (use nxt(1) in \<open>simp_all add: tick_ready_def transition_metadata_other\<close>)
  moreover have "capacity q = capacity (w_pool w)" by (rule commit_capacity[OF commit])
  ultimately have "sim_ready e n ?w2"
    using nxt(2) cap books led(1-3) by (auto simp: sim_ready_def books_ok_def w1)
  then show ?thesis by (intro that[OF run storage reb(1) run2 _ _ sinks(1,3)]) (simp_all add: w1)
qed

lemma flow_commit_ready:
  assumes "sim_ready e (Suc n) w" "env_ok e"
    "rebuild_runtime_turn_demand (se_net e) (se_spatial e) skip (w_pool w) (w_links w) (w_nodes w) = Inr ns"
    "advance_flow_state e (w\<lparr>w_nodes := ns\<rparr>) = Inr w1"
  shows "\<exists>w2. commit_runtime_routing_state e skip w1 = Inr w2 \<and> sim_ready e n w2 \<and> w_trips w2 = w_trips w"
  by (rule flow_commit_view[OF assms]) auto


section \<open>A step and a rollout\<close>

lemma sim_ready_cong:
  assumes "w_pool w' = w_pool w" "w_links w' = w_links w" "w_nodes w' = w_nodes w" "w_trips w' = w_trips w"
    "w_ids w' = w_ids w"
  shows "sim_ready e n w' = sim_ready e n w"
  using assms by (simp add: sim_ready_def books_ok_def)

lemma sim_ready_weaken: "sim_ready e n w \<Longrightarrow> m \<le> n \<Longrightarrow> sim_ready e m w"
  by (auto simp: sim_ready_def intro: timer_room_weaken)

lemma control_events_frame:
  assumes "advance_event_state c (apply_control_to_state c w) = Inr w'"
  shows "w_pool w' = w_pool w" "w_links w' = w_links w" "w_nodes w' = w_nodes w" "w_trips w' = w_trips w"
    "w_ids w' = w_ids w" "w_counts w' = w_counts w"
  using assms
  by (auto simp: advance_event_state_def apply_control_to_state_def check_simps Let_def split: if_splits)

lemma run_tick_phases:
  assumes "run_tick e c w = Inr w'"
  obtains w1 w2 w3 skip w4 ns w5 where "apply_event_effects_to_flow_state e w = Inr w1"
    "activate_due_trip_requests w1 = Inr w2" "prepare_runtime_active_agents e c w2 = Inr (w3, skip)"
    "advance_runtime_agent_progress e skip w3 = Inr w4"
    "rebuild_runtime_turn_demand (se_net e) (se_spatial e) skip (w_pool w4) (w_links w4) (w_nodes w4) = Inr ns"
    "advance_flow_state e (w4\<lparr>w_nodes := ns\<rparr>) = Inr w5" "commit_runtime_routing_state e skip w5 = Inr w'"
  using assms by (auto simp: run_tick_def prepare_runtime_routing_state_def check_simps split: prod.splits)

lemma run_tick_ready:
  assumes "run_tick e c w = Inr w'" "sim_ready e (Suc n) w" "env_ok e" "input_ok c"
  shows "sim_ready e n w'" "map trip_request_id (w_trips w') = map trip_request_id (w_trips w)"
proof -
  obtain w1 w2 w3 skip w4 ns w5 where run: "apply_event_effects_to_flow_state e w = Inr w1"
    "activate_due_trip_requests w1 = Inr w2" "prepare_runtime_active_agents e c w2 = Inr (w3, skip)"
    "advance_runtime_agent_progress e skip w3 = Inr w4"
    "rebuild_runtime_turn_demand (se_net e) (se_spatial e) skip (w_pool w4) (w_links w4) (w_nodes w4) = Inr ns"
    "advance_flow_state e (w4\<lparr>w_nodes := ns\<rparr>) = Inr w5" "commit_runtime_routing_state e skip w5 = Inr w'"
    by (rule run_tick_phases[OF assms(1)])
  note s1 = event_effects_ready[OF run(1) assms(2)]
  note s2 = activation_ready[OF run(2) s1(1)]
  note s3 = prepare_agents_ready[OF run(3) s2(1) assms(3,4)]
  note s4 = progress_ready[OF run(4) s3(1) assms(3)]
  obtain w6 where s6: "commit_runtime_routing_state e skip w5 = Inr w6" "sim_ready e n w6" "w_trips w6 = w_trips w4"
    using flow_commit_ready[OF s4(1) assms(3) run(5,6)] by blast
  then have "w6 = w'" using run(7) by simp
  then show "sim_ready e n w'" "map trip_request_id (w_trips w') = map trip_request_id (w_trips w)"
    using s6(2,3) s1(2) s2(2) s3(2) s4(2) by simp_all
qed

lemma step_ready:
  assumes "simulation_step e c w = Inr w'" "sim_ready e (Suc n) w" "env_ok e" "input_ok c"
  shows "sim_ready e n w'" "map trip_request_id (w_trips w') = map trip_request_id (w_trips w)"
proof -
  obtain w1 where w1: "advance_event_state c (apply_control_to_state c w) = Inr w1"
    "(if ti_pause c then Inr (w1\<lparr>w_authority := False, w_counter_tick := w_tick w1, w_completed_count := 0\<rparr>)
      else bindE (run_tick e c w1) (\<lambda>w. Inr (w\<lparr>w_authority := True, w_counter_tick := w_tick w\<rparr>))) = Inr w'"
    using assms(1) by (auto simp: simulation_step_def check_simps)
  note frame = control_events_frame[OF w1(1)]
  have ready: "sim_ready e (Suc n) w1" using assms(2) sim_ready_cong[OF frame(1-5)] by simp
  have "sim_ready e n w' \<and> map trip_request_id (w_trips w') = map trip_request_id (w_trips w)"
  proof (cases "ti_pause c")
    case True
    then have w': "w' = w1\<lparr>w_authority := False, w_counter_tick := w_tick w1, w_completed_count := 0\<rparr>" using w1(2) by simp
    then show ?thesis using sim_ready_cong[of w' w1 e n] sim_ready_weaken[OF ready, of n] frame(4) by simp
  next
    case False
    then obtain w2 where w2: "run_tick e c w1 = Inr w2" "w' = w2\<lparr>w_authority := True, w_counter_tick := w_tick w2\<rparr>"
      using w1(2) by (auto simp: check_simps)
    then show ?thesis
      using run_tick_ready[OF w2(1) ready assms(3,4)] sim_ready_cong[of w' w2 e n] frame(4) by simp
  qed
  then show "sim_ready e n w'" "map trip_request_id (w_trips w') = map trip_request_id (w_trips w)" by simp_all
qed

lemma rollout_ready:
  assumes "run_rollout e cs w = Inr w'" "sim_ready e (length cs + n) w" "env_ok e" "\<forall>c \<in> set cs. input_ok c"
  shows "sim_ready e n w' \<and> map trip_request_id (w_trips w') = map trip_request_id (w_trips w)"
  using assms
proof (induction cs arbitrary: w)
  case (Cons c cs)
  obtain w1 where w1: "simulation_step e c w = Inr w1" "run_rollout e cs w1 = Inr w'"
    using Cons.prems(1) by (auto simp: check_simps)
  have "input_ok c" "sim_ready e (Suc (length cs + n)) w" using Cons.prems(2,4) by simp_all
  note step = step_ready[OF w1(1) this(2) Cons.prems(3) this(1)]
  show ?case using Cons.IH[OF w1(2) step(1) Cons.prems(3)] Cons.prems(4) step(2) by simp
qed simp

section \<open>Every trip is somewhere\<close>

lemma pending_count:
  assumes "trips_sound ts"
  shows "snd (snd (demand_lifecycle_counts ts ids)) =
    card (trip_ids ts - (allocated_trips ids \<union> completed_trips ids \<union> failed_trips ids))"
proof -
  let ?open = "\<lambda>t. trip_request_id t \<notin> allocated_trips ids \<and> trip_request_id t \<notin> completed_trips ids \<and>
      trip_request_id t \<notin> failed_trips ids"
  have split: "length (filter (\<lambda>t. trip_status t = Queued) xs) + length (filter (\<lambda>t. trip_status t = Activated) xs)
      = length xs" if "\<forall>t \<in> set xs. trip_status t \<noteq> Canceled" for xs
    using that
  proof (induction xs)
    case (Cons x xs)
    then show ?case by (cases "trip_status x") auto
  qed simp
  have "snd (snd (demand_lifecycle_counts ts ids)) = length (filter ?open ts)"
    using split[of "filter ?open ts"] assms by (simp add: demand_lifecycle_counts_def Let_def trips_sound_def)
  also have "\<dots> = card (set (map trip_request_id (filter ?open ts)))"
    using assms by (subst distinct_card) (simp_all add: trips_sound_def distinct_map_filter)
  also have "set (map trip_request_id (filter ?open ts))
      = trip_ids ts - (allocated_trips ids \<union> completed_trips ids \<union> failed_trips ids)"
    by (auto simp: trip_ids_def)
  finally show ?thesis .
qed

lemma ledger_partition:
  assumes "trip_ledger p ids" "allocated_trips ids \<union> failed_trips ids \<subseteq> I"
  shows "I = (I - (allocated_trips ids \<union> completed_trips ids \<union> failed_trips ids)) \<union>
      (running_trips p \<union> (completed_trips ids \<union> failed_trips ids))"
    "running_trips p \<inter> (completed_trips ids \<union> failed_trips ids) = {}"
    "completed_trips ids \<inter> failed_trips ids = {}" "completed_trips ids \<union> failed_trips ids \<union> running_trips p \<subseteq> I"
    "(I - (allocated_trips ids \<union> completed_trips ids \<union> failed_trips ids)) \<inter>
      (running_trips p \<union> (completed_trips ids \<union> failed_trips ids)) = {}"
  using assms by (auto simp: trip_ledger_def)

lemma trips_conserved:
  assumes "trip_ledger p ids" "pool_ok p" "trips_sound ts" "allocated_trips ids \<union> failed_trips ids \<subseteq> trip_ids ts"
  shows "int (length ts) = int (snd (snd (demand_lifecycle_counts ts ids))) + alive_count p +
    int (card (completed_trips ids)) + int (card (failed_trips ids))"
proof -
  let ?I = "trip_ids ts"
  note parts = ledger_partition[OF assms(1,4)]
  have fin: "finite ?I" by (simp add: trip_ids_def)
  have fins: "finite (running_trips p)" "finite (completed_trips ids)" "finite (failed_trips ids)"
    using finite_subset[OF parts(4) fin] by simp_all
  have "length ts = card ?I" using assms(3) distinct_card by (fastforce simp: trips_sound_def trip_ids_def)
  also have "card ?I = card (?I - (allocated_trips ids \<union> completed_trips ids \<union> failed_trips ids)) +
      card (running_trips p \<union> (completed_trips ids \<union> failed_trips ids))"
    using card_Un_disjoint[OF _ _ parts(5)] fin fins parts(1) by simp
  also have "card (running_trips p \<union> (completed_trips ids \<union> failed_trips ids)) =
      card (running_trips p) + (card (completed_trips ids) + card (failed_trips ids))"
    using fins parts(2,3) by (simp add: card_Un_disjoint)
  finally show ?thesis
    using alive_running[OF assms(2)] assms(1) pending_count[OF assms(3)] by (simp add: trip_ledger_def)
qed


text \<open>A whole run keeps agents, queues and trips together.  Let the state be ready for as many
  ticks as the run has controls.  Whatever the controls pause, inject and clear, whatever routes are
  offered and whatever the agents decide, if the run returns then in its last state the queue of every
  link is exactly the number of live agents on it, every agent carries a legal route, and every trip
  that was generated is pending, on the road with exactly one agent, completed or failed.\<close>

lemma rollout_keeps_lockstep:
  assumes "env_ok e" "\<forall>c \<in> set cs. input_ok c" "sim_ready e (length cs) w" "run_rollout e cs w = Inr w'"
  shows "\<exists>lookup. agents_routed (se_net e) lookup (w_pool w') {} \<and> pool_ok (w_pool w') \<and>
    queue_vehicles (w_links w') = map (\<lambda>s. of_int (occupancy (se_net e) (w_pool w') s)) [0..<net_link_count (se_net e)] \<and>
    one_agent_per_trip (w_pool w') \<and>
    int (length (w_trips w)) = int (snd (snd (demand_lifecycle_counts (w_trips w') (w_ids w')))) + alive_count (w_pool w') +
      int (card (completed_trips (w_ids w'))) + int (card (failed_trips (w_ids w')))"
proof -
  have ready: "sim_ready e 0 w'" "map trip_request_id (w_trips w') = map trip_request_id (w_trips w)"
    using rollout_ready[OF assms(4) _ assms(1,2), of 0] assms(3) by simp_all
  then obtain lookup where rt: "runtime_ready (se_net e) lookup (w_pool w') (w_links w') (w_nodes w')" and books: "books_ok w'"
    by (auto simp: sim_ready_def)
  have len: "length (w_trips w') = length (w_trips w)" using ready(2) by (metis length_map)
  have p: "pool_ok (w_pool w')" "agents_routed (se_net e) lookup (w_pool w') {}" "lockstep (se_net e) (w_pool w') (w_links w')"
    using rt by (simp_all add: runtime_ready_def)
  have "queue_vehicles (w_links w') = map (\<lambda>s. of_int (occupancy (se_net e) (w_pool w') s)) [0..<net_link_count (se_net e)]"
    using p(3) by (simp add: lockstep_def integral_queue_def)
  moreover have "one_agent_per_trip (w_pool w')" using books by (simp add: books_ok_def trip_ledger_def)
  moreover have "int (length (w_trips w')) = int (snd (snd (demand_lifecycle_counts (w_trips w') (w_ids w')))) +
      alive_count (w_pool w') + int (card (completed_trips (w_ids w'))) + int (card (failed_trips (w_ids w')))"
    using books p(1) by (intro trips_conserved) (simp_all add: books_ok_def)
  ultimately show ?thesis using p(1,2) unfolding len by blast
qed

section \<open>Two ticks on the concrete network\<close>

definition fleet_env :: sim_env where
  "fleet_env = \<lparr>se_net = demo_net, se_object = 0, se_pois = Map.empty, se_profiles = Map.empty, se_spatial = False,
     se_flow_backend = ''baseline'', se_routing_backend = ''baseline'', se_agent_backend = ''auto'', se_tick_seconds = Fin 1,
     se_refresh_interval = 10, se_rust = no_rust, se_kernel = \<lparr>kernel_available = False,
       kernel_decision = (\<lambda>_ _. Inl (RuntimeError ''no native kernel''))\<rparr>\<rparr>"

definition fleet_trips :: "trip_request list" where
  "fleet_trips = [demo_trip\<lparr>trip_request_id := 8\<rparr>, demo_trip\<lparr>trip_request_id := 9\<rparr>]"

definition fleet_ids :: demand_ids where
  "fleet_ids = \<lparr>allocated_trips = {8, 9}, completed_trips = {}, failed_trips = {}\<rparr>"

definition fleet_world :: sim_state where
  "fleet_world = \<lparr>w_tick = 0, w_day = Weekday, w_band = Morning, w_links = fleet_links, w_nodes = fleet_nodes, w_pool = demo_fleet,
     w_trips = fleet_trips, w_ids = fleet_ids,
     w_reasons = Map.empty, w_counts = (0, 0, 0), w_events = None, w_incident_tick = - 1, w_incident = [],
     w_cache = [], w_authority = False, w_counter_tick = - 1, w_completed_count = 0\<rparr>"

definition quiet_input :: "bool \<Rightarrow> tick_input" where
  "quiet_input pause = \<lparr>ti_pause = pause, ti_day = None, ti_band = None, ti_inject = [], ti_clear = [],
     ti_pick = Map.empty, ti_tails = (\<lambda>_. Map.empty)\<rparr>"

lemma fleet_env_ok: "env_ok fleet_env" "input_ok (quiet_input b)"
  by (simp_all add: env_ok_def fleet_env_def demo_net_wf fleet_turns_indexed input_ok_def quiet_input_def)

lemma fleet_running: "running_trips demo_fleet = {8, 9}" "one_agent_per_trip demo_fleet"
proof -
  have "trip_slots demo_fleet = {0, 1}" by (auto simp: trip_slots_def demo_fleet_def less_Suc_cases numeral_2_eq_2)
  then show "running_trips demo_fleet = {8, 9}" "one_agent_per_trip demo_fleet"
    by (simp_all add: running_trips_def one_agent_per_trip_def demo_fleet_def)
qed

lemma fleet_sim_ready: "sim_ready fleet_env 5 fleet_world"
proof -
  have "books_ok fleet_world"
    using fleet_running
    by (simp add: books_ok_def fleet_world_def trip_ledger_def trips_sound_def fleet_trips_def trip_ids_def demo_trip_def fleet_ids_def)
  moreover have "runtime_ready (se_net fleet_env) fleet_lookup (w_pool fleet_world) (w_links fleet_world) (w_nodes fleet_world)"
    using fleet_ready by (simp add: fleet_world_def fleet_env_def)
  moreover have "timer_room 5 (w_nodes fleet_world)" by (simp add: timer_room_def fleet_world_def fleet_nodes_def)
  moreover have "capacity (w_pool fleet_world) < 2 ^ 23" by (simp add: fleet_world_def demo_fleet_def)
  ultimately show ?thesis by (auto simp: sim_ready_def)
qed

text \<open>Up to the flow, a tick of the concrete state does nothing but count the trips.\<close>

definition fleet_tick_one :: "nat \<times> nat \<times> nat \<Rightarrow> sim_state" where
  "fleet_tick_one c = fleet_world\<lparr>w_tick := 1, w_counts := c\<rparr>"

lemma fleet_agents_prepared:
  "prepare_runtime_active_agents fleet_env ((quiet_input False)\<lparr>ti_pick := p, ti_tails := t\<rparr>) (fleet_tick_one c) =
     Inr (fleet_tick_one (0, 0, 0), {})"
proof -
  have "activated_trip_requests fleet_trips = fleet_trips"
    by (simp add: activated_trip_requests_def fleet_trips_def demo_trip_def)
  then have "allocate_activated_trips False demo_net fleet_links fleet_nodes 1 Map.empty p fleet_trips fleet_ids
      Map.empty demo_fleet = Inr (demo_fleet, start_admission demo_fleet fleet_ids Map.empty)"
    using fleet_lookup by (simp add: allocate_activated_trips_def fleet_trips_def start_admission_def Let_def fleet_ids_def)
  moreover have "runtime_reroute_trigger (- 1) [] False 1 10 = None" by (simp add: runtime_reroute_trigger_def)
  ultimately show ?thesis
    by (simp add: prepare_runtime_active_agents_def fleet_env_def quiet_input_def fleet_world_def fleet_tick_one_def
        active_events_of_def apply_runtime_reroute_policy_def apply_source_queue_increments_def start_admission_def
        demand_lifecycle_counts_def fleet_trips_def demo_trip_def fleet_ids_def)
qed

lemma fleet_flow:
  obtains ns w1 where
    "rebuild_runtime_turn_demand demo_net False {} demo_fleet fleet_links fleet_nodes = Inr ns"
    "advance_flow_state fleet_env ((fleet_tick_one c)\<lparr>w_nodes := ns\<rparr>) = Inr w1"
proof -
  obtain ns r where flow: "rebuild_runtime_turn_demand demo_net False {} demo_fleet fleet_links fleet_nodes = Inr ns"
    "update_link_node_flow no_rust fleet_links ns False ''baseline'' True None = Inr r"
    by (rule fleet_tick)
  have ready: "tick_ready fleet_links ns"
    by (rule rebuilt_tick_ready(1)[OF demo_net_wf fleet_turns_indexed fleet_ready flow(1)])
  have wfr: "wf_link (result_link r)" by (rule discrete_tick_wf(1)[OF ready flow(2)])
  obtain A0 b su st storage A lm nm where t: "finish_authority A0 b su st storage = Inr (A, lm, nm)"
    "link_metadata (result_link r) = (link_metadata fleet_links)(''free_flow_travel_time_cost'' \<mapsto> fin_vector b) ++ lm"
    using discrete_tick[OF ready flow(2)] by (metis committed_link_metadata flow_update_result.select_convs(1))
  have "lm ''runtime_flow_generation'' = None"
    by (rule authority_link_keys[OF t(1)]) (auto simp: authority_link_metadata_def Let_def split: option.splits)
  then have "link_metadata (result_link r) ''runtime_flow_generation'' = None" by (simp add: t(2) fleet_links_def map_add_def)
  then have "\<exists>w1. advance_flow_state fleet_env ((fleet_tick_one c)\<lparr>w_nodes := ns\<rparr>) = Inr w1"
    using flow(2) wfr
    by (simp add: advance_flow_state_def step_storage_def fleet_env_def fleet_tick_one_def fleet_world_def
        with_link_metadata_increment_def metadata_int_def with_link_metadata_ok)
  then show thesis using that flow(1) by blast
qed

lemma fleet_opening:
  "advance_event_state (quiet_input False) (apply_control_to_state (quiet_input False) fleet_world) = Inr (fleet_world\<lparr>w_tick := 1\<rparr>)"
  "apply_event_effects_to_flow_state fleet_env (fleet_world\<lparr>w_tick := 1\<rparr>) = Inr (fleet_world\<lparr>w_tick := 1\<rparr>)"
  "activate_due_trip_requests (fleet_world\<lparr>w_tick := 1\<rparr>) = Inr (fleet_tick_one (0, 2, 2))"
proof -
  show "advance_event_state (quiet_input False) (apply_control_to_state (quiet_input False) fleet_world) = Inr (fleet_world\<lparr>w_tick := 1\<rparr>)"
    by (simp add: advance_event_state_def apply_control_to_state_def quiet_input_def fleet_world_def)
  show "apply_event_effects_to_flow_state fleet_env (fleet_world\<lparr>w_tick := 1\<rparr>) = Inr (fleet_world\<lparr>w_tick := 1\<rparr>)"
    by (simp add: apply_event_effects_to_flow_state_def active_events_of_def fleet_world_def fleet_links_def)
  have "activate_trip_requests fleet_trips 1 = Inr fleet_trips"
    by (simp add: activate_trip_requests_def fleet_trips_def demo_trip_def check_eval)
  then show "activate_due_trip_requests (fleet_world\<lparr>w_tick := 1\<rparr>) = Inr (fleet_tick_one (0, 2, 2))"
    by (simp add: activate_due_trip_requests_def fleet_world_def fleet_trips_def demo_trip_def Let_def fleet_tick_one_def)
qed

lemma fleet_closing:
  obtains w1 w2 w3 where
    "\<forall>p t. prepare_runtime_routing_state fleet_env ((quiet_input False)\<lparr>ti_pick := p, ti_tails := t\<rparr>) (fleet_tick_one (0, 2, 2)) = Inr (w1, {})"
    "advance_flow_state fleet_env w1 = Inr w2" "commit_runtime_routing_state fleet_env {} w2 = Inr w3" "w_events w3 = None"
proof -
  let ?start = "fleet_tick_one (0, 0, 0)"
  obtain ns w2 where flow: "rebuild_runtime_turn_demand demo_net False {} demo_fleet fleet_links fleet_nodes = Inr ns"
    "advance_flow_state fleet_env (?start\<lparr>w_nodes := ns\<rparr>) = Inr w2"
    by (rule fleet_flow)
  have rebuilt: "rebuild_runtime_turn_demand (se_net fleet_env) (se_spatial fleet_env) {} (w_pool ?start) (w_links ?start) (w_nodes ?start) = Inr ns"
    using flow(1) by (simp add: fleet_env_def fleet_tick_one_def fleet_world_def)
  have "advance_runtime_agent_progress fleet_env {} ?start = Inr ?start"
    by (simp add: advance_runtime_agent_progress_def fleet_env_def)
  then have prepare: "\<forall>p t. prepare_runtime_routing_state fleet_env ((quiet_input False)\<lparr>ti_pick := p, ti_tails := t\<rparr>) (fleet_tick_one (0, 2, 2)) =
      Inr (?start\<lparr>w_nodes := ns\<rparr>, {})"
    using rebuilt by (simp add: prepare_runtime_routing_state_def fleet_agents_prepared)
  have ready: "sim_ready fleet_env (Suc 0) ?start"
    using sim_ready_weaken[OF fleet_sim_ready, of "Suc 0"] sim_ready_cong[of ?start fleet_world]
    by (simp add: fleet_tick_one_def)
  obtain w3 where w3: "commit_runtime_routing_state fleet_env {} w2 = Inr w3"
    using flow_commit_ready[OF ready fleet_env_ok(1) rebuilt flow(2)] by blast
  have "w_events w2 = w_events ?start" using flow(2) by (auto simp: advance_flow_state_def check_simps)
  then have "w_events w3 = None"
    using w3 by (auto simp: commit_runtime_routing_state_def check_simps fleet_tick_one_def fleet_world_def)
  then show thesis using that prepare flow(2) w3 by blast
qed

end
