(* ===== verification/InvariantChecks.thy ===== *)
theory InvariantChecks
  imports RuntimeStep
begin

text \<open>
  The invariant report of a tick (src/src/metroflow/sim/invariants.py): the structured violations, the
  public checks on queues, storage, capacities and trip counts, the checks of the runtime's own
  authority, and \<^verbatim>\<open>validate_invariants\<close> which runs them in order.  Arrays arrive as NumPy reads them
  with dtype float32; values computed from finite arrays are rationals.  Messages that name a slot
  print its decimal number.
\<close>

section \<open>Violations and reports\<close>

datatype severity = SeverityError | SeverityWarning

datatype detail = CountD int | FloatD pyfloat | TextD string | ShapeD "nat list" | IdsD "int list" | PairsD "(string \<times> int) list"

record violation =
  vi_code :: string
  vi_message :: string
  vi_severity :: severity
  vi_check :: "string option"
  vi_details :: "(string \<times> detail) list"

definition violated :: "string \<Rightarrow> string \<Rightarrow> string \<Rightarrow> (string \<times> detail) list \<Rightarrow> violation" where
  "violated code check msg details = \<lparr>vi_code = code, vi_message = msg, vi_severity = SeverityError,
     vi_check = Some check, vi_details = details\<rparr>"

record invariant_counters =
  total_checks_run :: int
  total_violations :: int
  conservation_violations :: int
  negative_queue_violations :: int
  capacity_flag_violations :: int
  active_agent_pool_violations :: int
  other_violations :: int

definition make_invariant_counters :: "invariant_counters \<Rightarrow> invariant_counters result" where
  "make_invariant_counters c = bindE (checks [
     (total_checks_run c < 0, ''total_checks_run must be >= 0''),
     (total_violations c < 0, ''total_violations must be >= 0''),
     (conservation_violations c < 0, ''conservation_violations must be >= 0''),
     (negative_queue_violations c < 0, ''negative_queue_violations must be >= 0''),
     (capacity_flag_violations c < 0, ''capacity_flag_violations must be >= 0''),
     (active_agent_pool_violations c < 0, ''active_agent_pool_violations must be >= 0''),
     (other_violations c < 0, ''other_violations must be >= 0'')]) (\<lambda>_. Inr c)"

record invariant_report =
  report_tick :: int
  checks_run :: "string list"
  checks_skipped :: "string list"
  violations :: "violation list"
  counters :: invariant_counters

definition make_invariant_report :: "invariant_report \<Rightarrow> invariant_report result" where
  "make_invariant_report r = bindE (checks [(report_tick r < 0, ''tick_index must be >= 0'')]) (\<lambda>_. Inr r)"

definition report_ok :: "invariant_report \<Rightarrow> bool" where
  "report_ok r \<longleftrightarrow> violations r = []"

fun count_violation :: "violation \<Rightarrow> invariant_counters \<Rightarrow> invariant_counters" where
  "count_violation v c =
     (if vi_check v = Some ''conservation'' then c\<lparr>conservation_violations := conservation_violations c + 1\<rparr>
      else if vi_check v = Some ''non_negative_queue'' then c\<lparr>negative_queue_violations := negative_queue_violations c + 1\<rparr>
      else if vi_check v = Some ''capacity_flags'' then c\<lparr>capacity_flag_violations := capacity_flag_violations c + 1\<rparr>
      else if vi_check v = Some ''active_agent_pool_consistency''
        then c\<lparr>active_agent_pool_violations := active_agent_pool_violations c + 1\<rparr>
      else c\<lparr>other_violations := other_violations c + 1\<rparr>)"

definition build_counters :: "string list \<Rightarrow> violation list \<Rightarrow> invariant_counters" where
  "build_counters run vs = fold count_violation vs \<lparr>total_checks_run = int (length run), total_violations = int (length vs),
     conservation_violations = 0, negative_queue_violations = 0, capacity_flag_violations = 0,
     active_agent_pool_violations = 0, other_violations = 0\<rparr>"

section \<open>Conservation\<close>

record conservation_snapshot =
  generated_total :: int
  pending_trip_requests :: int
  active_agents :: int
  completed_trips_total :: int
  failed_trips_total :: int

definition make_conservation_snapshot :: "conservation_snapshot \<Rightarrow> conservation_snapshot result" where
  "make_conservation_snapshot s = bindE (checks [
     (generated_total s < 0, ''generated_total must be >= 0''),
     (pending_trip_requests s < 0, ''pending_trip_requests must be >= 0''),
     (active_agents s < 0, ''active_agents must be >= 0''),
     (completed_trips_total s < 0, ''completed_trips_total must be >= 0''),
     (failed_trips_total s < 0, ''failed_trips_total must be >= 0'')]) (\<lambda>_. Inr s)"

definition reconciled_total :: "conservation_snapshot \<Rightarrow> int" where
  "reconciled_total s = pending_trip_requests s + active_agents s + completed_trips_total s + failed_trips_total s"

definition check_conservation_hook :: "conservation_snapshot \<Rightarrow> int \<Rightarrow> violation list result" where
  "check_conservation_hook s tolerance =
     bindE (checks [(tolerance < 0, ''tolerance must be >= 0'')]) (\<lambda>_.
     let delta = generated_total s - reconciled_total s in
     Inr (if \<bar>delta\<bar> \<le> tolerance then []
       else [violated ''conservation_mismatch'' ''conservation''
         ''Generated trip total does not reconcile with staged counts''
         [(''generated_total'', CountD (generated_total s)), (''reconciled_total'', CountD (reconciled_total s)),
          (''delta'', CountD delta), (''tolerance'', CountD tolerance)]]))"

section \<open>Queues and storage\<close>

text \<open>Positions of the true entries of a mask, as \<^verbatim>\<open>np.nonzero(mask)[0]\<close> lists them.\<close>

definition positions :: "bool list \<Rightarrow> nat list" where
  "positions ms = filter (\<lambda>i. ms ! i) [0..<length ms]"

definition count_true :: "bool list \<Rightarrow> detail" where
  "count_true ms = CountD (int (length (positions ms)))"

definition first_true :: "bool list \<Rightarrow> detail" where
  "first_true ms = CountD (int (hd (positions ms)))"

definition check_non_negative_queue :: "pyfloat + pyfloat list \<Rightarrow> string \<Rightarrow> violation list" where
  "check_non_negative_queue raw field =
     (let arr = (case raw of Inl x \<Rightarrow> [x] | Inr xs \<Rightarrow> xs); infinite_mask = map (\<lambda>x. \<not> isfinite x) arr;
        negative_mask = map (\<lambda>x. pf_lt x (Fin 0)) arr in
      if True \<in> set infinite_mask then [violated ''non_finite_queue_detected'' ''non_negative_queue''
        ''Queue values must be finite''
        [(''field_name'', TextD field), (''non_finite_count'', count_true infinite_mask),
         (''first_non_finite_index'', first_true infinite_mask)]]
      else if True \<notin> set negative_mask then []
      else [violated ''negative_queue_detected'' ''non_negative_queue'' ''Queue values must remain non-negative''
        [(''field_name'', TextD field), (''negative_count'', count_true negative_mask),
         (''first_negative_index'', first_true negative_mask),
         (''min_value'', FloatD (Fin (Min (set (map finite_part arr)))))]])"

definition shape_of :: "pyfloat + pyfloat list \<Rightarrow> nat list" where
  "shape_of raw = (case raw of Inl _ \<Rightarrow> [] | Inr xs \<Rightarrow> [length xs])"

definition check_finite_link_storage :: "pyfloat + pyfloat list \<Rightarrow> pyfloat + pyfloat list \<Rightarrow> rat \<Rightarrow> violation list" where
  "check_finite_link_storage queue storage tolerance = (case (queue, storage) of
       (Inr q, Inr s) \<Rightarrow>
         if length s \<noteq> length q then [violated ''finite_link_storage_shape_mismatch'' ''finite_link_storage''
           ''Spatial link storage must match the one-dimensional link queue''
           [(''queue_shape'', ShapeD (shape_of queue)), (''storage_shape'', ShapeD (shape_of storage))]]
         else let invalid = map (\<lambda>x. \<not> isfinite x \<or> pf_lt x (Fin 1)) s;
           exceeded = map2 (\<lambda>a b. pf_lt (Fin (r32 (finite_part b + r32 tolerance))) a) q s in
         if True \<in> set invalid then [violated ''finite_link_storage_invalid'' ''finite_link_storage''
           ''Spatial link storage must be finite and at least one vehicle''
           [(''invalid_count'', count_true invalid), (''first_link_index'', first_true invalid),
            (''first_storage_capacity'', FloatD (s ! hd (positions invalid)))]]
         else if True \<notin> set exceeded then []
         else [violated ''finite_link_storage_exceeded'' ''finite_link_storage''
           ''Spatial link occupancy must not exceed finite vehicle storage''
           [(''exceeded_count'', count_true exceeded), (''first_link_index'', first_true exceeded),
            (''queue_vehicles'', FloatD (q ! hd (positions exceeded))),
            (''storage_capacity_vehicles'', FloatD (s ! hd (positions exceeded))), (''tolerance'', FloatD (Fin tolerance))]]
     | _ \<Rightarrow> [violated ''finite_link_storage_shape_mismatch'' ''finite_link_storage''
         ''Spatial link storage must match the one-dimensional link queue''
         [(''queue_shape'', ShapeD (shape_of queue)), (''storage_shape'', ShapeD (shape_of storage))]])"

section \<open>Capacities and their flags\<close>

text \<open>The arrays are one-dimensional; the optional ones come together or not at all.\<close>

definition exceeds :: "rat \<Rightarrow> pyfloat list \<Rightarrow> pyfloat list \<Rightarrow> bool list" where
  "exceeds tolerance xs bound = map2 (\<lambda>x b. r32 (finite_part b + r32 tolerance) < finite_part x) xs bound"

definition flag_violations :: "bool list \<Rightarrow> bool list \<Rightarrow> bool list \<Rightarrow> bool list option \<Rightarrow> int option \<Rightarrow> rat \<Rightarrow> violation list" where
  "flag_violations outbound inbound exceed flags flagged tolerance =
     (let n = int (length (positions exceed)) in
      (case flagged of None \<Rightarrow> [] | Some k \<Rightarrow> if k \<noteq> n then [violated ''capacity_flag_count_mismatch'' ''capacity_flags''
           ''Capacity violation counter does not match observed exceedances''
           [(''observed_exceed_count'', CountD n), (''flagged_count'', CountD k), (''tolerance'', FloatD (Fin tolerance))]] else []) @
      (case flags of None \<Rightarrow> [] | Some fl \<Rightarrow> let bad = map2 (\<noteq>) fl exceed in
         if positions bad \<noteq> [] then [violated ''capacity_flag_mask_mismatch'' ''capacity_flags''
           ''Per-link capacity flags must match source or receiving token exceedances''
           [(''mismatch_count'', count_true bad), (''first_mismatch_index'', first_true bad), (''tolerance'', FloatD (Fin tolerance))]]
         else []) @
      (if n \<noteq> 0 then [violated ''capacity_exceeded'' ''capacity_flags''
         ''Flow must not exceed source-service or receiving capacity''
         [(''exceed_count'', CountD n), (''outbound_exceed_count'', count_true outbound),
          (''inbound_exceed_count'', count_true inbound), (''first_exceed_index'', first_true exceed),
          (''tolerance'', FloatD (Fin tolerance))]] else []))"

definition check_capacity_violation_flags :: "pyfloat list \<Rightarrow> pyfloat list \<Rightarrow> pyfloat list option \<Rightarrow> pyfloat list option \<Rightarrow>
    bool list option \<Rightarrow> int option \<Rightarrow> rat \<Rightarrow> violation list result" where
  "check_capacity_violation_flags outflow cap inflow receiving flags flagged tolerance =
     bindE (checks [
       (length outflow \<noteq> length cap, ''outflow_values and effective_capacity_values must have same shape''),
       ((inflow = None) \<noteq> (receiving = None), ''inflow_values and receiving_capacity_values must be provided together''),
       ((case (inflow, receiving) of (Some i, Some r) \<Rightarrow> length i \<noteq> length cap \<or> length r \<noteq> length cap | _ \<Rightarrow> False),
        ''inflow_values and receiving_capacity_values must match capacity shape'')]) (\<lambda>_.
     let pairs = (case (inflow, receiving) of (Some i, Some r) \<Rightarrow> [(''inflow_values'', i), (''receiving_capacity_values'', r)] | _ \<Rightarrow> []);
       bad = filter (\<lambda>(name, n). n \<noteq> 0) (map (\<lambda>(name, xs). (name, int (length (filter (\<lambda>x. \<not> isfinite x) xs))))
         ([(''outflow_values'', outflow), (''effective_capacity_values'', cap)] @ pairs));
       outbound = exceeds tolerance outflow cap;
       inbound = (case (inflow, receiving) of (Some i, Some r) \<Rightarrow> exceeds tolerance i r | _ \<Rightarrow> replicate (length outbound) False);
       exceed = map2 (\<or>) outbound inbound in
     if bad \<noteq> [] then Inr [violated ''non_finite_capacity_authority'' ''capacity_flags''
       ''Capacity authority and realized flow must be finite'' [(''non_finite_counts'', PairsD bad)]]
     else bindE (checks [
       ((case flagged of None \<Rightarrow> False | Some k \<Rightarrow> k < 0), ''flagged_count must be >= 0''),
       ((case flags of None \<Rightarrow> False | Some fl \<Rightarrow> length fl \<noteq> length exceed), ''flag_values must match capacity shape'')]) (\<lambda>_.
     Inr (flag_violations outbound inbound exceed flags flagged tolerance)))"

text \<open>The tokens recorded by the runtime take the place of the capacity.\<close>

definition resolve_tokens :: "string \<Rightarrow> link_state \<Rightarrow> pyfloat list result" where
  "resolve_tokens key ls = (case link_metadata ls key of
       None \<Rightarrow> Inr (map Fin (map2 (\<lambda>c m. r32 (c * m)) (capacity_veh_per_tick ls) (incident_capacity_multiplier ls)))
     | Some raw \<Rightarrow> (case as_array32 raw of
          Inl _ \<Rightarrow> Inl (ValueError (key @ '' shape mismatch''))
        | Inr xs \<Rightarrow> if length xs \<noteq> link_count ls then Inl (ValueError (key @ '' shape mismatch'')) else Inr xs))"

definition resolve_effective_capacity_values :: "link_state \<Rightarrow> pyfloat list result" where
  "resolve_effective_capacity_values ls = resolve_tokens ''runtime_link_service_tokens'' ls"

definition resolve_receiving_capacity_values :: "link_state \<Rightarrow> pyfloat list result" where
  "resolve_receiving_capacity_values ls = resolve_tokens ''runtime_link_receiving_tokens'' ls"

section \<open>Agents\<close>

fun decimal :: "nat \<Rightarrow> string" where
  "decimal n = (if n < 10 then [char_of (48 + n)] else decimal (n div 10) @ [char_of (48 + n mod 10)])"

declare decimal.simps [simp del]

definition memory_issue :: "runtime_pool \<Rightarrow> nat \<Rightarrow> string list result" where
  "memory_issue p k = (case plugin_memory p (int k) of
       Some (DictEntry mem) \<Rightarrow>
         let invalid = Inr [''alive slot '' @ decimal k @ '' has invalid route-memory trip id''];
           compare = (\<lambda>t. if t \<noteq> trip_id p ! k
             then [''alive slot '' @ decimal k @ '' route-memory trip id != packed trip id''] else []) in
         (case mem ''trip_request_id'' of
            Some (MemInt t) \<Rightarrow> Inr (compare t)
          | Some (MemFloat x) \<Rightarrow> Inr (compare (if 0 \<le> x then \<lfloor>x\<rfloor> else \<lceil>x\<rceil>))
          | Some (MemText _) \<Rightarrow> Inl (OutOfModel ''trip_request_id is a text'')
          | _ \<Rightarrow> invalid)
     | _ \<Rightarrow> Inr [''alive slot '' @ decimal k @ '' has no route plugin memory''])"

definition validate_active_agent_pool_fast :: "runtime_pool \<Rightarrow> string list result" where
  "validate_active_agent_pool_fast p =
     bindE (mapE (memory_issue p) (positions (alive_mask p))) (\<lambda>mem.
     Inr (issues [
       (alive_count p \<noteq> int (count_list (alive_mask p) True), ''alive_count != sum(alive_mask)''),
       (free_slot_count p + alive_count p \<noteq> capacity p, ''free_slot_count + alive_count != capacity''),
       (card (set (free_ids p)) \<noteq> length (free_ids p), ''duplicate slot ids in free_slot_stack''),
       (\<exists>i \<in> set (free_ids p). i < 0 \<or> capacity p \<le> i, ''free_slot_stack contains out-of-range slot ids''),
       (alive_ids p \<inter> set (free_ids p) \<noteq> {}, ''slot ids appear in both alive set and free_slot_stack'')] @
     concat mem @
     issues [
       ((\<exists>x \<in> set (progress_01 p). x < 0) \<or> (\<exists>x \<in> set (progress_01 p). 1 < x),
          ''progress_01 contains values outside [0, 1]''),
       (\<exists>x \<in> set (reroute_cooldown_ticks p). x < 0, ''reroute_cooldown_ticks contains negative values'')]))"

text \<open>The agents on every link, or the first agent that is on none.\<close>

fun resident_agents :: "road_network \<Rightarrow> runtime_pool \<Rightarrow> nat list \<Rightarrow> rat list \<Rightarrow> (violation + rat list) result" where
  "resident_agents net p [] acc = Inr (Inr acc)"
| "resident_agents net p (k # ks) acc =
     (if \<not> alive_mask p ! k then resident_agents net p ks acc
      else case link_index net (current_link_id p ! k) of
          None \<Rightarrow> Inr (Inl (violated ''active_agent_unknown_link'' ''runtime_vehicle_queue_authority''
            ''Active agent references a link absent from the runtime network''
            [(''slot_id'', CountD (int k)), (''link_id'', CountD (current_link_id p ! k))]))
        | Some i \<Rightarrow> if length acc \<le> i then Inl (IndexError ''index is out of bounds'')
            else resident_agents net p ks (acc[i := r32 (acc ! i + 1)]))"

text \<open>\<^verbatim>\<open>np.sum\<close> of a float32 array, from left to right.  NumPy adds in blocks; on the whole numbers
  below 2^24 this code sums, every order gives the same total.\<close>

definition sum32 :: "rat list \<Rightarrow> rat" where
  "sum32 xs = foldl (\<lambda>a x. r32 (a + x)) 0 xs"

definition check_runtime_vehicle_queue_authority :: "road_network \<Rightarrow> link_state \<Rightarrow> runtime_pool \<Rightarrow> violation list option result" where
  "check_runtime_vehicle_queue_authority net ls p =
     (if \<not> meta_flag (link_metadata ls) ''runtime_discrete_agent_authority'' then Inr None
      else bindE (resident_agents net p [0..<length (alive_mask p)] (replicate (link_count ls) 0)) (\<lambda>found. case found of
          Inl v \<Rightarrow> Inr (Some [v])
        | Inr expected \<Rightarrow> let bad = map2 (\<lambda>x y. eps32 < \<bar>r32 (x - y)\<bar>) (queue_vehicles ls) expected in
            if positions bad = [] then Inr (Some [])
            else let i = hd (positions bad) in Inr (Some [violated ''runtime_vehicle_queue_mismatch'' ''runtime_vehicle_queue_authority''
              ''Per-link queue vehicles must equal resident active agents''
              [(''mismatch_count'', count_true bad), (''first_link_index'', first_true bad),
               (''observed_queue'', FloatD (Fin (queue_vehicles ls ! i))), (''expected_active_agents'', FloatD (Fin (expected ! i))),
               (''queue_total'', FloatD (Fin (sum32 (queue_vehicles ls)))), (''active_agent_total'', CountD (alive_count p))]])))"

definition check_runtime_finite_link_storage :: "bool \<Rightarrow> link_state \<Rightarrow> violation list option" where
  "check_runtime_finite_link_storage spatial ls =
     (if \<not> spatial then None
      else case link_metadata ls ''storage_capacity_vehicles'' of
          None \<Rightarrow> Some [violated ''finite_link_storage_authority_missing'' ''finite_link_storage''
            ''Spatial traffic mode requires per-link storage capacity'' []]
        | Some raw \<Rightarrow> Some (check_finite_link_storage (Inr (map Fin (queue_vehicles ls))) (as_array32 raw) micro64))"

section \<open>The lifecycle of the trips\<close>

record lifecycle =
  generated_ids :: "int set"
  pending_ids :: "int set"
  active_ids :: "int set"
  completed_ids :: "int set"
  failed_ids :: "int set"

definition trip_lifecycle_sets :: "trip_request list \<Rightarrow> demand_ids \<Rightarrow> runtime_pool \<Rightarrow> lifecycle" where
  "trip_lifecycle_sets ts ids p = \<lparr>generated_ids = trip_request_id ` set ts,
     pending_ids = trip_request_id ` set (filter (\<lambda>t. trip_status t \<in> {Queued, Activated} \<and>
       trip_request_id t \<notin> allocated_trips ids \<and> trip_request_id t \<notin> completed_trips ids \<and>
       trip_request_id t \<notin> failed_trips ids) ts),
     active_ids = running_trips p, completed_ids = completed_trips ids, failed_ids = failed_trips ids\<rparr>"

definition stages :: "lifecycle \<Rightarrow> (string \<times> int set) list" where
  "stages l = [(''pending'', pending_ids l), (''active'', active_ids l), (''completed'', completed_ids l), (''failed'', failed_ids l)]"

fun stage_overlaps :: "(string \<times> int set) list \<Rightarrow> violation list" where
  "stage_overlaps [] = []"
| "stage_overlaps ((left, xs) # rest) = concat (map (\<lambda>(right, ys). if xs \<inter> ys = {} then []
     else [violated ''trip_lifecycle_overlap'' ''trip_lifecycle_disjoint'' ''Trip lifecycle stages must be pairwise disjoint''
       [(''left_stage'', TextD left), (''right_stage'', TextD right), (''trip_request_ids'', IdsD (sorted_list_of_set (xs \<inter> ys)))]]) rest)
     @ stage_overlaps rest"

definition check_trip_lifecycle_disjoint :: "lifecycle \<Rightarrow> nat \<Rightarrow> violation list" where
  "check_trip_lifecycle_disjoint l declared =
     (let staged = pending_ids l \<union> active_ids l \<union> completed_ids l \<union> failed_ids l in
      stage_overlaps (stages l) @
      (if staged \<noteq> generated_ids l then [violated ''trip_lifecycle_partition_mismatch'' ''trip_lifecycle_disjoint''
         ''Trip lifecycle stages must partition generated request ids''
         [(''missing_ids'', IdsD (sorted_list_of_set (generated_ids l - staged))),
          (''unknown_ids'', IdsD (sorted_list_of_set (staged - generated_ids l)))]] else []) @
      (if declared \<noteq> card (pending_ids l) then [violated ''pending_trip_count_mismatch'' ''trip_lifecycle_disjoint''
         ''pending_trip_requests does not match the unadmitted pending id set''
         [(''declared_pending'', CountD (int declared)), (''derived_pending'', CountD (int (card (pending_ids l))))]] else []))"

definition extract_conservation_snapshot :: "lifecycle \<Rightarrow> conservation_snapshot result" where
  "extract_conservation_snapshot l = make_conservation_snapshot \<lparr>generated_total = int (card (generated_ids l)),
     pending_trip_requests = int (card (pending_ids l)), active_agents = int (card (active_ids l)),
     completed_trips_total = int (card (completed_ids l)), failed_trips_total = int (card (failed_ids l))\<rparr>"

section \<open>The token authority\<close>

definition invalid_token :: "string \<Rightarrow> string \<Rightarrow> (string \<times> detail) list \<Rightarrow> violation" where
  "invalid_token key reason details = violated ''runtime_token_metadata_invalid'' ''runtime_token_authority''
     ''Discrete runtime token/residual metadata must fail closed'' ([(''key'', TextD key), (''reason'', TextD reason)] @ details)"

record vector_rules =
  require_integral :: bool
  require_non_negative :: bool
  unit_residual :: bool
  vector_bound :: "rat option"

definition no_rules :: vector_rules where
  "no_rules = \<lparr>require_integral = False, require_non_negative = False, unit_residual = False, vector_bound = None\<rparr>"

definition whole_rules :: vector_rules where
  "whole_rules = no_rules\<lparr>require_integral := True, require_non_negative := True\<rparr>"

definition check_vector :: "metadata \<Rightarrow> string \<Rightarrow> nat \<Rightarrow> vector_rules \<Rightarrow> violation list \<times> rat list option" where
  "check_vector md key n rules = (case md key of
       None \<Rightarrow> ([invalid_token key ''missing'' []], None)
     | Some raw \<Rightarrow> (case as_array32 raw of
         Inl _ \<Rightarrow> ([invalid_token key ''shape_mismatch'' [(''expected_shape'', ShapeD [n]), (''actual_shape'', ShapeD [])]], None)
       | Inr vs \<Rightarrow>
         if length vs \<noteq> n then ([invalid_token key ''shape_mismatch''
           [(''expected_shape'', ShapeD [n]), (''actual_shape'', ShapeD [length vs])]], None)
         else if \<not> list_all isfinite vs then ([invalid_token key ''non_finite''
           [(''non_finite_count'', count_true (map (\<lambda>x. \<not> isfinite x) vs))]], None)
         else let xs = map finite_part vs in
           ((if require_non_negative rules \<and> (\<exists>x \<in> set xs. x < 0) then [invalid_token key ''negative'' []] else []) @
            (if require_integral rules \<and> (\<exists>x \<in> set xs. eps32 < \<bar>r32 (x - rint x)\<bar>) then [invalid_token key ''non_integral'' []] else []) @
            (if unit_residual rules \<and> ((\<exists>x \<in> set xs. x < 0) \<or> (\<exists>x \<in> set xs. 1 \<le> x))
             then [invalid_token key ''outside_unit_residual_range'' []] else []) @
            (case vector_bound rules of None \<Rightarrow> []
             | Some b \<Rightarrow> if \<exists>x \<in> set xs. b < x then [invalid_token key ''above_upper_bound'' [(''upper_bound'', FloatD (Fin b))]] else []),
            Some xs)))"

text \<open>The checks on the metadata of the links; version 2 added the carries.\<close>

definition link_token_violations :: "metadata \<Rightarrow> nat \<Rightarrow> int \<Rightarrow> violation list" where
  "link_token_violations md n version =
     (let unit = no_rules\<lparr>unit_residual := True\<rparr>; carry = whole_rules\<lparr>vector_bound := Some 1\<rparr> in
      fst (check_vector md ''runtime_link_service_tokens'' n whole_rules) @
      fst (check_vector md ''runtime_link_receiving_tokens'' n whole_rules) @
      fst (check_vector md ''runtime_link_service_residual'' n unit) @
      (if 2 \<le> version then fst (check_vector md ''runtime_link_service_token_carry'' n carry) else []) @
      fst (check_vector md ''runtime_link_receiving_residual'' n unit) @
      (if 2 \<le> version then fst (check_vector md ''runtime_link_receiving_token_carry'' n carry) else []))"

text \<open>Indexing as \<^verbatim>\<open>np.add.at\<close> does it: negative indices count from the end.\<close>

definition scatter_flow :: "nat \<Rightarrow> int list \<Rightarrow> rat list \<Rightarrow> rat list result" where
  "scatter_flow n idx vals =
     bindE (raise_if (\<exists>i \<in> set idx. i < - int n \<or> int n \<le> i) (IndexError ''index is out of bounds'')) (\<lambda>_.
     Inr (scatter_add (zip vals (map (\<lambda>i. nat (if i < 0 then i + int n else i)) idx)) (replicate n 0)))"

definition flow_violations :: "link_state \<Rightarrow> node_state \<Rightarrow> rat list option \<Rightarrow> violation list result" where
  "flow_violations ls ns sinks =
     (if length (turn_flow ns) \<noteq> turn_count ns then Inr [] else bindE (scatter_flow (link_count ls) (turn_from_link_index ns) (turn_flow ns)) (\<lambda>outs.
     bindE (scatter_flow (link_count ls) (turn_to_link_index ns) (turn_flow ns)) (\<lambda>ins.
     Inr ((case sinks of None \<Rightarrow> [] | Some sk \<Rightarrow> if outflow_vehicles ls \<noteq> map2 (\<lambda>a b. r32 (a + b)) outs sk
             then [invalid_token ''outflow_vehicles'' ''turn_and_sink_flow_mismatch'' []] else []) @
          (if inflow_vehicles ls \<noteq> ins then [invalid_token ''inflow_vehicles'' ''turn_flow_mismatch'' []] else [])))))"

text \<open>The witness of the last flow update, checked only in the tick it was made.\<close>

definition transition_violations :: "sim_state \<Rightarrow> rat list option \<Rightarrow> violation list result" where
  "transition_violations w sinks =
     (let ls = w_links w; md = link_metadata ls in
      if \<not> (w_authority w \<and> w_counter_tick w = w_tick w) then Inr []
      else bindE (if md ''runtime_transition_tick'' = None then Inr (- 1) else metadata_int md ''runtime_transition_tick'') (\<lambda>seen.
        let (vs, input) = check_vector md ''runtime_flow_input_queue_vehicles'' (link_count ls) (no_rules\<lparr>require_non_negative := True\<rparr>);
          total = (case sinks of None \<Rightarrow> 0 | Some sk \<Rightarrow> rne (sum32 sk)) in
        Inr (vs @
          (if seen \<noteq> w_tick w then [invalid_token ''runtime_transition_tick'' ''tick_mismatch''
             [(''expected_tick'', CountD (w_tick w)), (''actual_tick'', CountD seen)]] else []) @
          (case input of None \<Rightarrow> [] | Some q \<Rightarrow>
             let expected = map2 (\<lambda>a b. r32 (a + b)) (map2 (\<lambda>a b. r32 (a - b)) q (outflow_vehicles ls)) (inflow_vehicles ls);
               bad = map2 (\<lambda>x y. eps32 < \<bar>r32 (x - y)\<bar>) (queue_vehicles ls) expected in
             if positions bad \<noteq> [] then [invalid_token ''queue_vehicles'' ''transition_mass_mismatch''
               [(''mismatch_count'', count_true bad), (''first_link_index'', first_true bad)]] else []) @
          (if int (w_completed_count w) \<noteq> total then [invalid_token ''runtime_transition_completed_trip_count'' ''sink_completion_mismatch''
             [(''completed_trip_count'', CountD (int (w_completed_count w))), (''sink_flow_total'', CountD total)]] else []))))"

definition check_runtime_token_authority :: "sim_state \<Rightarrow> violation list option result" where
  "check_runtime_token_authority w =
     (let ls = w_links w; ns = w_nodes w; md = link_metadata ls; nmd = node_metadata ns; n = link_count ls in
      if \<not> meta_flag md ''runtime_discrete_agent_authority'' then Inr None
      else bindE (meta_version md) (\<lambda>version.
        let (sink_vs, sinks) = check_vector md ''runtime_sink_flow_vehicles'' n whole_rules;
          (node_vs, node_sinks) = check_vector nmd ''runtime_sink_flow_by_link_index'' n whole_rules in
        bindE (flow_violations ls ns sinks) (\<lambda>flow_vs.
        bindE (transition_violations w sinks) (\<lambda>transition_vs.
        Inr (Some (link_token_violations md n version @ sink_vs @
          fst (check_vector nmd ''runtime_turn_flow_residual'' (turn_count ns) no_rules) @
          fst (check_vector nmd ''runtime_sink_flow_residual'' n no_rules) @ node_vs @
          (if sinks \<noteq> None \<and> node_sinks \<noteq> None \<and> sinks \<noteq> node_sinks
           then [invalid_token ''runtime_sink_flow_by_link_index'' ''link_node_sink_flow_mismatch'' []] else []) @
          (if \<exists>x \<in> set (turn_flow ns). eps32 < \<bar>r32 (x - rint x)\<bar> then [invalid_token ''turn_flow'' ''non_integral'' []] else []) @
          flow_vs @ transition_vs))))))"

section \<open>The report\<close>

definition check_state_capacity_flags :: "link_state \<Rightarrow> violation list result" where
  "check_state_capacity_flags ls =
     bindE (resolve_effective_capacity_values ls) (\<lambda>cap.
     bindE (resolve_receiving_capacity_values ls) (\<lambda>rcap.
     check_capacity_violation_flags (map Fin (outflow_vehicles ls)) cap (Some (map Fin (inflow_vehicles ls))) (Some rcap)
       (Some (capacity_violation_flags ls)) None micro64))"

definition report_of :: "int \<Rightarrow> (string \<times> violation list option) list \<Rightarrow> invariant_report" where
  "report_of tick results =
     (let run = map fst (filter (\<lambda>(_, r). r \<noteq> None) results);
        vs = concat (map (\<lambda>(_, r). case r of None \<Rightarrow> [] | Some vs \<Rightarrow> vs) results) in
      \<lparr>report_tick = tick, checks_run = run, checks_skipped = map fst (filter (\<lambda>(_, r). r = None) results),
       violations = vs, counters = build_counters run vs\<rparr>)"

definition validate_invariants :: "sim_env \<Rightarrow> sim_state \<Rightarrow> invariant_report result" where
  "validate_invariants e w =
     (let ls = w_links w; p = w_pool w; l = trip_lifecycle_sets (w_trips w) (w_ids w) p in
      bindE (validate_active_agent_pool_fast p) (\<lambda>pool.
      bindE (check_runtime_vehicle_queue_authority (se_net e) ls p) (\<lambda>authority.
      bindE (check_runtime_token_authority w) (\<lambda>tokens.
      bindE (check_state_capacity_flags ls) (\<lambda>flags.
      bindE (extract_conservation_snapshot l) (\<lambda>snap.
      bindE (check_conservation_hook snap 0) (\<lambda>conservation.
      make_invariant_report (report_of (w_tick w) [
        (''active_agent_pool_consistency'', Some (map (\<lambda>issue. violated ''active_agent_pool_inconsistent''
           ''active_agent_pool_consistency'' issue []) pool)),
        (''non_negative_queue'', Some (check_non_negative_queue (Inr (map Fin (queue_vehicles ls))) ''queue_vehicles'')),
        (''finite_link_storage'', check_runtime_finite_link_storage (se_spatial e) ls),
        (''runtime_vehicle_queue_authority'', authority),
        (''runtime_token_authority'', tokens),
        (''capacity_flags'', Some flags),
        (''trip_lifecycle_disjoint'', Some (check_trip_lifecycle_disjoint l (snd (snd (w_counts w))))),
        (''conservation'', Some conservation)]))))))))"

end
