(* ===== verification/CleanReport.thy ===== *)
theory CleanReport
  imports SimulationRun InvariantChecks
begin

text \<open>
  The invariant report of an executed tick is empty: none of the checks of
  src/src/metroflow/sim/invariants.py can fire on a state that a run of ready ticks reaches.  The
  sections take the checks one by one and trace each back to what the tick guarantees; the storage
  check needs the storage of the spatial mode as one more invariant of the run.
\<close>

section \<open>Storage as an invariant of the run\<close>

definition storage_ready :: "sim_env \<Rightarrow> sim_state \<Rightarrow> bool" where
  "storage_ready e w \<longleftrightarrow> (se_spatial e \<longrightarrow> (\<exists>M. link_metadata (w_links w) ''storage_capacity_vehicles'' = Some (fin_vector (map of_int M)) \<and>
     length M = link_count (w_links w) \<and> (\<forall>m \<in> set M. 1 \<le> m \<and> m < 2 ^ 23) \<and>
     (\<forall>s < link_count (w_links w). queue_vehicles (w_links w) ! s \<le> of_int (M ! s))))"

lemma storage_ready_cong:
  assumes "queue_vehicles (w_links w') = queue_vehicles (w_links w)"
    "link_metadata (w_links w') ''storage_capacity_vehicles'' = link_metadata (w_links w) ''storage_capacity_vehicles''"
  shows "storage_ready e w' = storage_ready e w"
  using assms by (simp add: storage_ready_def link_count_def)

text \<open>Storage as the readers of the metadata see it.\<close>

lemma whole_storage_read:
  assumes "\<forall>m \<in> set M. 1 \<le> m \<and> m < 2 ^ 23"
  shows "as_array32 (fin_vector (map of_int M)) = Inr (map (\<lambda>m. Fin (of_int m)) M)"
proof -
  have "r32 (of_int m) = of_int m" if "m \<in> set M" for m using that assms by (intro r32_of_int) force
  then show ?thesis by (simp add: fin_vector_def)
qed

lemma event_effects_links:
  assumes "apply_event_effects_to_flow_state e w = Inr w'" "wf_link (w_links w)"
  shows "queue_vehicles (w_links w') = queue_vehicles (w_links w)"
    "link_metadata (w_links w') ''storage_capacity_vehicles'' = link_metadata (w_links w) ''storage_capacity_vehicles''"
proof -
  have "queue_vehicles (w_links w') = queue_vehicles (w_links w) \<and>
    link_metadata (w_links w') ''storage_capacity_vehicles'' = link_metadata (w_links w) ''storage_capacity_vehicles''"
  proof (cases "active_events_of w = [] \<and> \<not> (\<exists>m \<in> set (incident_capacity_multiplier (w_links w)). m < 1)")
    case True
    then show ?thesis using assms(1) by (auto simp: apply_event_effects_to_flow_state_def Let_def)
  next
    case False
    then obtain res cache where run: "apply_active_event_effects (axis_of e) (w_links w) (active_events_of w) False (w_cache w) = Inr (res, cache)"
      and cases: "w_links w' = effects_link res \<or>
        with_link_metadata_increment (effects_link res) ''runtime_incident_generation'' = Inr (w_links w')"
      using assms(1) by (auto simp: apply_event_effects_to_flow_state_def Let_def check_simps split: if_splits)
    note res = effects_wf[OF assms(2) run]
    have "queue_vehicles ls' = queue_vehicles (effects_link res) \<and> link_metadata ls' ''storage_capacity_vehicles''
        = link_metadata (effects_link res) ''storage_capacity_vehicles''"
      if inc: "with_link_metadata_increment (effects_link res) ''runtime_incident_generation'' = Inr ls'" for ls'
      by (rule increment_metadata[OF inc res(1)]) simp
    then show ?thesis using cases res by auto
  qed
  then show "queue_vehicles (w_links w') = queue_vehicles (w_links w)"
    "link_metadata (w_links w') ''storage_capacity_vehicles'' = link_metadata (w_links w) ''storage_capacity_vehicles''" by simp_all
qed

lemma admission_queue:
  assumes "wf_network net" "runtime_ready net lookup p ls ns" "capacity p < 2 ^ 23"
    and "\<forall>od sel. pick od = Some sel \<longrightarrow> selection_ok sel"
    and "allocate_activated_trips spatial net ls ns tick pois pick trips ids reasons p = Inr (q, st)"
    and "apply_source_queue_increments net ls (ad_increments st) = Inr ls'"
  shows "queue_vehicles ls' = map (\<lambda>s. of_int (occupancy net p s + increment_at net (ad_increments st) s)) [0..<net_link_count net]"
    "link_metadata ls' = link_metadata ls"
proof -
  have rt: "tick_ready ls ns" "runtime_turn_index_lookup net ns = Inr lookup" "pool_ok p"
    "agents_routed net lookup p {}" "lockstep net p ls"
    using assms(2) by (simp_all add: runtime_ready_def)
  note ok = allocate_activated_ok[OF assms(1,4) rt(2,3,4) assms(5)]
  have inv: "\<forall>l k. ad_increments st l = Some k \<longrightarrow> 0 < k \<and> link_index net l \<noteq> None" "finite (dom (ad_increments st))"
    using ok(2) unfolding admission_inv_def Let_def by blast+
  have iq: "integral_queue ls (map (occupancy net p) [0..<net_link_count net])" "link_count ls = net_link_count net"
    using rt(5) by (simp_all add: lockstep_def)
  let ?N = "map (\<lambda>s. map (occupancy net p) [0..<net_link_count net] ! s + increment_at net (ad_increments st) s) [0..<net_link_count net]"
  obtain ls2 where "apply_source_queue_increments net ls (ad_increments st) = Inr ls2" "integral_queue ls2 ?N"
    "link_metadata ls2 = link_metadata ls"
    using increments_exact[OF assms(1) rt(1) iq inv admission_total(2)[OF assms(1) ok(2) rt(5,4,3) assms(3)]] by metis
  then have "integral_queue ls' ?N" "link_metadata ls' = link_metadata ls" using assms(6) by simp_all
  then show "queue_vehicles ls' = map (\<lambda>s. of_int (occupancy net p s + increment_at net (ad_increments st) s)) [0..<net_link_count net]"
    "link_metadata ls' = link_metadata ls" by (simp_all add: integral_queue_def)
qed

lemma prepare_agents_storage:
  assumes "prepare_runtime_active_agents e c w = Inr (w', skip)" "sim_ready e n w" "env_ok e" "input_ok c" "storage_ready e w"
  shows "storage_ready e w'"
proof (cases "se_spatial e")
  case False
  then show ?thesis by (simp add: storage_ready_def)
next
  case True
  let ?net = "se_net e"
  have net: "wf_network ?net" using assms(3) by (simp add: env_ok_def)
  obtain lookup where rt: "runtime_ready ?net lookup (w_pool w) (w_links w) (w_nodes w)" and cap: "capacity (w_pool w) < 2 ^ 23"
    using assms(2) by (auto simp: sim_ready_def)
  obtain p ad ls where run:
    "allocate_activated_trips True ?net (w_links w) (w_nodes w) (w_tick w) (se_pois e) (ti_pick c)
       (w_trips w) (w_ids w) (w_reasons w) (w_pool w) = Inr (p, ad)"
    "apply_source_queue_increments ?net (w_links w) (ad_increments ad) = Inr ls" "w_links w' = ls"
    using assms(1) True by (auto simp: prepare_runtime_active_agents_def check_simps Let_def split: prod.splits)
  have picks: "\<forall>od sel. ti_pick c od = Some sel \<longrightarrow> selection_ok sel" using assms(4) by (simp add: input_ok_def)
  note queue = admission_queue[OF net rt cap picks run(1,2)]
  let ?N = "map (occupancy ?net (w_pool w)) [0..<net_link_count ?net]"
  have iq: "integral_queue (w_links w) ?N" "link_count (w_links w) = net_link_count ?net"
    using rt by (simp_all add: runtime_ready_def lockstep_def)
  obtain M where M: "link_metadata (w_links w) ''storage_capacity_vehicles'' = Some (fin_vector (map of_int M))"
     "length M = link_count (w_links w)" "\<forall>m \<in> set M. 1 \<le> m \<and> m < 2 ^ 23"
     "\<forall>s < link_count (w_links w). queue_vehicles (w_links w) ! s \<le> of_int (M ! s)"
    using assms(5) True by (auto simp: storage_ready_def)
  have read: "storage_of (w_links w) msg = Inr (map of_int M)" for msg
    using M(2) by (simp add: storage_of_def M(1) whole_storage_read[OF M(3)] comp_def list_all_iff)
  have "\<forall>i < net_link_count ?net. ?N ! i \<le> M ! i \<and> M ! i < 2 ^ 23"
    using M(2-4) iq by (auto simp: integral_queue_def)
  from admission_fits[OF net iq(1) _ read _ this run(1)] M(2) iq(2)
  have "\<forall>s < net_link_count ?net. ?N ! s + increment_at ?net (ad_increments ad) s \<le> M ! s" by simp
  then have "\<forall>s < link_count ls. queue_vehicles ls ! s \<le> of_int (M ! s)" "link_count ls = net_link_count ?net"
    by (simp_all add: link_count_def queue(1) del: of_int_add)
  then show ?thesis using M(1-3) iq(2) queue(2) run(3) by (auto simp: storage_ready_def)
qed

text \<open>What the last executed tick leaves: the result of a flow update on a ready state, with its metadata.\<close>

definition tick_outcome :: "sim_env \<Rightarrow> sim_state \<Rightarrow> int list \<Rightarrow> link_state \<Rightarrow> node_state \<Rightarrow> flow_update_result \<Rightarrow> pyfloat list option \<Rightarrow> int list \<Rightarrow> bool" where
  "tick_outcome e w N ls ns r arg sinks \<longleftrightarrow> integral_queue ls N \<and> tick_ready ls ns \<and>
     update_link_node_flow (se_rust e) ls ns False (se_flow_backend e) True arg = Inr r \<and> step_storage e ls = Inr arg \<and>
     (\<exists>k. w_links w = (result_link r)\<lparr>link_metadata := transition_metadata r ls (w_tick w) k\<rparr>) \<and> w_nodes w = result_node r \<and>
     w_counts w = demand_lifecycle_counts (w_trips w) (w_ids w) \<and> w_completed_count w = nat (sum_list sinks) \<and>
     link_metadata (result_link r) ''runtime_sink_flow_vehicles'' = Some (fin_vector (to_f32 sinks)) \<and> whole_counts sinks"

lemma executed_tick:
  assumes "run_tick e c w = Inr w'" "sim_ready e (Suc n) w" "env_ok e" "input_ok c" "storage_ready e w"
  obtains w4 N ns r arg sinks where "tick_outcome e w' N (w_links w4) ns r arg sinks" "storage_ready e w4" "sim_ready e n w'"
proof -
  obtain w1 w2 w3 skip w4 ns w5 where run: "apply_event_effects_to_flow_state e w = Inr w1"
    "activate_due_trip_requests w1 = Inr w2" "prepare_runtime_active_agents e c w2 = Inr (w3, skip)"
    "advance_runtime_agent_progress e skip w3 = Inr w4"
    "rebuild_runtime_turn_demand (se_net e) (se_spatial e) skip (w_pool w4) (w_links w4) (w_nodes w4) = Inr ns"
    "advance_flow_state e (w4\<lparr>w_nodes := ns\<rparr>) = Inr w5" "commit_runtime_routing_state e skip w5 = Inr w'"
    by (rule run_tick_phases[OF assms(1)])
  note s1 = event_effects_ready[OF run(1) assms(2)]
  note s2 = activation_ready[OF run(2) s1(1)]
  note s3 = prepare_agents_ready[OF run(3) s2(1) assms(3,4)]
  note s4 = progress_ready[OF run(4) s3(1) assms(3)]
  have "wf_link (w_links w)" using assms(2) by (auto simp: sim_ready_def runtime_ready_def tick_ready_def)
  from event_effects_links[OF run(1) this] have t1: "storage_ready e w1" using assms(5) storage_ready_cong by blast
  have "w_links w2 = w_links w1"
    using run(2) by (auto simp: activate_due_trip_requests_def check_simps Let_def split: if_splits)
  then have "storage_ready e w2" using t1 by (simp add: storage_ready_def)
  from prepare_agents_storage[OF run(3) s2(1) assms(3,4) this] have t3: "storage_ready e w3" .
  have "w_links w4 = w_links w3"
    using run(4) by (auto simp: advance_runtime_agent_progress_def check_simps split: if_splits)
  then have t4: "storage_ready e w4" using t3 by (simp add: storage_ready_def)
  obtain N where N: "integral_queue (w_links w4) N"
    using s4(1) by (auto simp: sim_ready_def runtime_ready_def lockstep_def)
  obtain r arg k q ids sinks w6 where view:
    "update_link_node_flow (se_rust e) (w_links w4) ns False (se_flow_backend e) True arg = Inr r"
    "step_storage e (w_links w4) = Inr arg" "tick_ready (w_links w4) ns"
    "commit_runtime_routing_state e skip w5 = Inr w6" "sim_ready e n w6"
    "w6 = w4\<lparr>w_links := (result_link r)\<lparr>link_metadata := transition_metadata r (w_links w4) (w_tick w4) k\<rparr>,
       w_nodes := result_node r, w_pool := q, w_ids := ids, w_counts := demand_lifecycle_counts (w_trips w4) ids,
       w_completed_count := nat (sum_list sinks)\<rparr>"
    "link_metadata (result_link r) ''runtime_sink_flow_vehicles'' = Some (fin_vector (to_f32 sinks))" "whole_counts sinks"
    by (rule flow_commit_view[OF s4(1) assms(3) run(5,6)])
  have "w6 = w'" using view(4) run(7) by simp
  then have "tick_outcome e w' N (w_links w4) ns r arg sinks" "sim_ready e n w'"
    using N view unfolding tick_outcome_def by auto
  then show thesis using that t4 by blast
qed

lemma outcome_storage:
  assumes "tick_outcome e w' N (w_links w4) ns r arg sinks" "storage_ready e w4"
  shows "storage_ready e w'"
proof (cases "se_spatial e")
  case False
  then show ?thesis by (simp add: storage_ready_def)
next
  case True
  let ?ls = "w_links w4"
  have out: "integral_queue ?ls N" "tick_ready ?ls ns" "update_link_node_flow (se_rust e) ?ls ns False (se_flow_backend e) True arg = Inr r"
    "step_storage e ?ls = Inr arg" using assms(1) by (simp_all add: tick_outcome_def)
  obtain k where links: "w_links w' = (result_link r)\<lparr>link_metadata := transition_metadata r ?ls (w_tick w') k\<rparr>"
    using assms(1) by (auto simp: tick_outcome_def)
  obtain M where M: "link_metadata ?ls ''storage_capacity_vehicles'' = Some (fin_vector (map of_int M))"
     "length M = link_count ?ls" "\<forall>m \<in> set M. 1 \<le> m \<and> m < 2 ^ 23"
    using assms(2) True by (auto simp: storage_ready_def)
  have arg: "arg = Some (map (\<lambda>m. Fin (of_int m)) M)"
    using out(4) M(2) True by (simp add: step_storage_def M(1) whole_storage_read[OF M(3)])
  obtain b A A0 prior storage su st lm nm where t: "storage_views ?ls arg = Inr storage" "tick_setup ?ls ns prior storage su st"
    "finish_authority A0 b su st storage = Inr (A, lm, nm)" "arrays_fit ?ls ns A"
    "r = \<lparr>result_link = committed_link ?ls A ((link_metadata ?ls)(''free_flow_travel_time_cost'' \<mapsto> fin_vector b) ++ lm),
          result_node = committed_node ns A (node_metadata ns ++ nm)\<rparr>"
    using discrete_tick[OF out(2,3)] by metis
  have q: "queue_vehicles (result_link r) = committed_queue su st"
    using t(3) by (rule finish_authority_eq) (simp add: t(5) committed_link_def)
  have n: "link_count (result_link r) = link_count ?ls"
    using t(4) by (simp add: t(5) committed_link_def link_count_def arrays_fit_def Let_def)
  have "lm ''storage_capacity_vehicles'' = None"
    by (rule authority_link_keys[OF t(3)]) (auto simp: authority_link_metadata_def Let_def split: option.splits)
  then have "link_metadata (w_links w') ''storage_capacity_vehicles'' = link_metadata ?ls ''storage_capacity_vehicles''"
    by (simp add: links transition_metadata_other) (simp add: t(5) map_add_def)
  moreover have "link_count (w_links w') = link_count ?ls" using n by (simp add: links link_count_def)
  moreover have "\<forall>m \<in> set M. m < 2 ^ 23" using M(3) by simp
  from storage_commit_le[OF t(2) t(1)[unfolded arg] out(1) this]
  have "\<forall>s < link_count ?ls. queue_vehicles (w_links w') ! s \<le> of_int (M ! s)" by (simp add: links q)
  ultimately show ?thesis using M by (auto simp: storage_ready_def)
qed

lemma step_storage_ready:
  assumes "simulation_step e c w = Inr w'" "sim_ready e (Suc n) w" "env_ok e" "input_ok c" "storage_ready e w"
  shows "storage_ready e w'"
proof -
  obtain w1 where w1: "advance_event_state c (apply_control_to_state c w) = Inr w1"
    "(if ti_pause c then Inr (w1\<lparr>w_authority := False, w_counter_tick := w_tick w1, w_completed_count := 0\<rparr>)
      else bindE (run_tick e c w1) (\<lambda>w. Inr (w\<lparr>w_authority := True, w_counter_tick := w_tick w\<rparr>))) = Inr w'"
    using assms(1) by (auto simp: simulation_step_def check_simps)
  note frame = control_events_frame[OF w1(1)]
  have ready: "sim_ready e (Suc n) w1" using assms(2) sim_ready_cong[OF frame(1-5)] by simp
  have s1: "storage_ready e w1" using assms(5) frame(2) by (simp add: storage_ready_def)
  show ?thesis
  proof (cases "ti_pause c")
    case True
    then show ?thesis using w1(2) s1 by (auto simp: storage_ready_def)
  next
    case False
    then obtain w2 where w2: "run_tick e c w1 = Inr w2" "w_links w' = w_links w2" using w1(2) by (auto simp: check_simps)
    have "storage_ready e w2"
      using executed_tick[OF w2(1) ready assms(3,4) s1] outcome_storage by metis
    then show ?thesis using w2(2) by (simp add: storage_ready_def)
  qed
qed

lemma rollout_storage:
  assumes "run_rollout e cs w = Inr w'" "sim_ready e (length cs + n) w" "env_ok e" "\<forall>c \<in> set cs. input_ok c" "storage_ready e w"
  shows "storage_ready e w'"
  using assms
proof (induction cs arbitrary: w)
  case (Cons c cs)
  obtain w1 where w1: "simulation_step e c w = Inr w1" "run_rollout e cs w1 = Inr w'"
    using Cons.prems(1) by (auto simp: check_simps)
  have c: "input_ok c" "sim_ready e (Suc (length cs + n)) w" using Cons.prems(2,4) by simp_all
  show ?case
    using Cons.IH[OF w1(2) step_ready(1)[OF w1(1) c(2) Cons.prems(3) c(1)] Cons.prems(3)] Cons.prems(4)
      step_storage_ready[OF w1(1) c(2) Cons.prems(3) c(1) Cons.prems(5)] by simp
qed simp

section \<open>Agents, queues and storage\<close>

lemma positions_empty [simp]: "positions ms = [] \<longleftrightarrow> True \<notin> set ms"
  by (auto simp: positions_def filter_empty_conv in_set_conv_nth)

lemma mapE_silent: "\<forall>x \<in> set xs. f x = Inr [] \<Longrightarrow> mapE f xs = Inr (map (\<lambda>_. []) xs)"
  by (induction xs) simp_all

lemma routed_memory_silent:
  assumes "slot_routed net lookup p k" shows "memory_issue p k = Inr []"
proof -
  obtain path where path: "read_slot_route p k = Inr path" "path \<noteq> []"
    using assms by (auto simp: slot_routed_def on_route_def)
  then obtain mem where mem: "slot_memory_of p k = Inr mem" "route_path_of mem = Inr path" "validate_slot_trip_identity p k mem = Inr ()"
    by (auto simp: read_slot_route_def check_simps)
  then have "plugin_memory p (int k) = Some (DictEntry mem)"
    using path(2) by (auto simp: slot_memory_of_def route_path_of_def split: option.splits plugin_entry.splits)
  then show ?thesis
    using mem(3) by (auto simp: memory_issue_def validate_slot_trip_identity_def check_simps split: option.splits memo.splits)
qed

lemma pool_report_silent:
  assumes "pool_ok p" "agents_routed net lookup p {}"
  shows "validate_active_agent_pool_fast p = Inr []"
proof -
  have "\<forall>k \<in> set (positions (alive_mask p)). memory_issue p k = Inr []"
    using assms(2) routed_memory_silent by (fastforce simp: positions_def agents_routed_def active_def)
  note mapE_silent[OF this]
  moreover have "validate_active_agent_pool p = []" by (rule pool_ok_validates[OF assms(1)])
  ultimately show ?thesis
    by (simp add: validate_active_agent_pool_fast_def validate_active_agent_pool_def issues_empty_iff map_replicate_const)
qed

lemma queue_report_silent:
  assumes "\<forall>x \<in> set q. 0 \<le> x" shows "check_non_negative_queue (Inr (map Fin q)) field = []"
proof -
  have "True \<notin> set (map (\<lambda>x. pf_lt x (Fin 0)) (map Fin q))" using assms by (auto simp: not_less[symmetric])
  then show ?thesis by (auto simp: check_non_negative_queue_def Let_def)
qed

lemma storage_report_silent:
  assumes "storage_ready e w"
  shows "check_runtime_finite_link_storage (se_spatial e) (w_links w) \<in> {None, Some []}"
proof (cases "se_spatial e")
  case True
  let ?ls = "w_links w"
  obtain M where M: "link_metadata ?ls ''storage_capacity_vehicles'' = Some (fin_vector (map of_int M))"
     "length M = link_count ?ls" "\<forall>m \<in> set M. 1 \<le> m \<and> m < 2 ^ 23"
     "\<forall>s < link_count ?ls. queue_vehicles ?ls ! s \<le> of_int (M ! s)"
    using assms True by (auto simp: storage_ready_def)
  have tol: "0 \<le> r32 micro64" by (simp add: f32.rd_nonneg micro64_nonneg)
  have "\<not> r32 (of_int (M ! s) + r32 micro64) < queue_vehicles ?ls ! s" if "s < link_count ?ls" for s
  proof -
    have "M ! s \<in> set M" using M(2) that by simp
    then have "r32 (of_int (M ! s)) = of_int (M ! s)" using M(3) by (intro r32_of_int) force
    from f32.rd_add_ge[OF this tol] show ?thesis using M(4) that by (simp add: not_less) (metis order_trans)
  qed
  then have "True \<notin> set (map2 (\<lambda>a b. pf_lt (Fin (r32 (finite_part b + r32 micro64))) a) (map Fin (queue_vehicles ?ls))
      (map (\<lambda>m. Fin (of_int m)) M))"
    using M(2) by (auto simp: set_zip link_count_def)
  moreover have "True \<notin> set (map (\<lambda>x. \<not> isfinite x \<or> pf_lt x (Fin 1)) (map (\<lambda>m. Fin (rat_of_int m)) M))"
    using M(3) by (auto simp: not_less[symmetric])
  ultimately show ?thesis
    using M(2) by (simp add: check_runtime_finite_link_storage_def M(1) whole_storage_read[OF M(3)] check_finite_link_storage_def
        Let_def link_count_def)
qed (simp add: check_runtime_finite_link_storage_def)

lemma resident_agents_count:
  assumes "\<forall>k \<in> set ks. alive_mask p ! k \<longrightarrow> (\<exists>s < length xs. link_index net (current_link_id p ! k) = Some s)"
    "\<forall>x \<in> set xs. 0 \<le> x \<and> x + int (length ks) \<le> 2 ^ 24"
  shows "resident_agents net p ks (map of_int xs) = Inr (Inr (map (\<lambda>s. of_int (xs ! s +
    (\<Sum>k\<leftarrow>ks. if alive_mask p ! k \<and> link_index net (current_link_id p ! k) = Some s then 1 else 0))) [0..<length xs]))"
  using assms
proof (induction ks arbitrary: xs)
  case Nil
  have "map rat_of_int xs = map (\<lambda>s. of_int (xs ! s)) [0..<length xs]" by (rule nth_equalityI) simp_all
  then show ?case by simp
next
  case (Cons k ks)
  show ?case
  proof (cases "alive_mask p ! k")
    case False
    have "\<forall>x \<in> set xs. 0 \<le> x \<and> x + int (length ks) \<le> 2 ^ 24" using Cons.prems(2) by fastforce
    then show ?thesis using Cons.IH[of xs] Cons.prems(1) False by simp
  next
    case True
    then obtain i where i: "i < length xs" "link_index net (current_link_id p ! k) = Some i" using Cons.prems(1) by auto
    let ?xs = "xs[i := xs ! i + 1]"
    have "0 \<le> xs ! i \<and> xs ! i + int (length (k # ks)) \<le> 2 ^ 24" using Cons.prems(2) nth_mem[OF i(1)] by blast
    then have b: "0 \<le> xs ! i" "xs ! i + 1 \<le> 2 ^ 24" "xs ! i + 1 + int (length ks) \<le> 2 ^ 24" by simp_all
    have "(map rat_of_int xs)[i := r32 (of_int (xs ! i) + 1)] = map of_int ?xs"
      using r32_of_int[of "xs ! i + 1"] b by (simp add: map_update)
    moreover have "\<forall>x \<in> set ?xs. 0 \<le> x \<and> x + int (length ks) \<le> 2 ^ 24"
      using Cons.prems(2) b by (fastforce dest!: set_update_subset_insert[THEN subsetD])
    ultimately show ?thesis
      using Cons.IH[of ?xs] Cons.prems(1) i True by (auto simp: nth_list_update)
  qed
qed

lemma vehicle_report_silent:
  assumes "wf_network net" "pool_ok p" "agents_routed net lookup p {}" "lockstep net p ls" "capacity p < 2 ^ 23"
  shows "check_runtime_vehicle_queue_authority net ls p \<in> {Inr None, Inr (Some [])}"
proof -
  let ?n = "net_link_count net"
  have ls: "link_count ls = ?n" "queue_vehicles ls = map (\<lambda>s. of_int (occupancy net p s)) [0..<?n]"
    using assms(4) by (simp_all add: lockstep_def integral_queue_def)
  have len: "int (length (alive_mask p)) < 2 ^ 23" using assms(2,5) by (simp add: pool_ok_def pool_shaped_def)
  have "\<forall>k \<in> set [0..<length (alive_mask p)]. alive_mask p ! k \<longrightarrow>
      (\<exists>s < length (replicate ?n (0::int)). link_index net (current_link_id p ! k) = Some s)"
    using routed_on_link[OF assms(1)] assms(3) by (auto simp: agents_routed_def active_def)
  from resident_agents_count[OF this] len
  have "resident_agents net p [0..<length (alive_mask p)] (replicate (link_count ls) 0)
      = Inr (Inr (queue_vehicles ls))"
    by (simp add: ls occupancy_def interv_sum_list_conv_sum_set_nat atLeast0LessThan map_replicate_const)
  moreover have "True \<notin> set (map2 (\<lambda>x y. eps32 < \<bar>r32 (x - y)\<bar>) xs xs)" for xs
    using eps32_nonneg by (auto simp: zip_same_conv_map)
  ultimately show ?thesis by (simp add: check_runtime_vehicle_queue_authority_def)
qed

section \<open>The books of the trips\<close>

lemma lifecycle_sets_eq:
  assumes "trips_sound ts"
  shows "trip_lifecycle_sets ts ids p = \<lparr>generated_ids = trip_ids ts,
    pending_ids = trip_ids ts - (allocated_trips ids \<union> completed_trips ids \<union> failed_trips ids),
    active_ids = running_trips p, completed_ids = completed_trips ids, failed_ids = failed_trips ids\<rparr>"
proof -
  have "trip_status t = Queued \<or> trip_status t = Activated" if "t \<in> set ts" for t
    using assms that by (cases "trip_status t") (auto simp: trips_sound_def)
  then have "trip_request_id ` set (filter (\<lambda>t. trip_status t \<in> {Queued, Activated} \<and> trip_request_id t \<notin> allocated_trips ids \<and>
      trip_request_id t \<notin> completed_trips ids \<and> trip_request_id t \<notin> failed_trips ids) ts)
    = trip_ids ts - (allocated_trips ids \<union> completed_trips ids \<union> failed_trips ids)"
    by (auto simp: trip_ids_def)
  then show ?thesis by (simp add: trip_lifecycle_sets_def trip_ids_def)
qed

lemma lifecycle_report_silent:
  assumes "trip_ledger p ids" "trips_sound ts" "allocated_trips ids \<union> failed_trips ids \<subseteq> trip_ids ts"
  shows "check_trip_lifecycle_disjoint (trip_lifecycle_sets ts ids p) (snd (snd (demand_lifecycle_counts ts ids))) = []"
proof -
  let ?pending = "trip_ids ts - (allocated_trips ids \<union> completed_trips ids \<union> failed_trips ids)"
  note parts = ledger_partition[OF assms(1,3)]
  have "?pending \<inter> running_trips p = {}" "?pending \<inter> completed_trips ids = {}" "?pending \<inter> failed_trips ids = {}"
    "running_trips p \<inter> completed_trips ids = {}" "running_trips p \<inter> failed_trips ids = {}"
    "completed_trips ids \<inter> failed_trips ids = {}"
    using parts(2,3,5) by blast+
  moreover have "?pending \<union> running_trips p \<union> completed_trips ids \<union> failed_trips ids = trip_ids ts"
    using parts(1) by blast
  ultimately show ?thesis
    by (simp add: check_trip_lifecycle_disjoint_def lifecycle_sets_eq[OF assms(2)] stages_def pending_count[OF assms(2)])
qed

lemma conservation_report_silent:
  assumes "trip_ledger p ids" "pool_ok p" "trips_sound ts" "allocated_trips ids \<union> failed_trips ids \<subseteq> trip_ids ts"
  shows "\<exists>s. extract_conservation_snapshot (trip_lifecycle_sets ts ids p) = Inr s \<and> check_conservation_hook s 0 = Inr []"
proof -
  have "card (trip_ids ts) = length ts" using assms(3) distinct_card by (fastforce simp: trips_sound_def trip_ids_def)
  then have "int (card (trip_ids ts)) = int (card (trip_ids ts - (allocated_trips ids \<union> completed_trips ids \<union> failed_trips ids))) +
      int (card (running_trips p)) + int (card (completed_trips ids)) + int (card (failed_trips ids))"
    using trips_conserved[OF assms] alive_running[OF assms(2)] assms(1) pending_count[OF assms(3)] by (simp add: trip_ledger_def)
  then show ?thesis
    by (simp add: extract_conservation_snapshot_def make_conservation_snapshot_def lifecycle_sets_eq[OF assms(3)] check_eval
        check_conservation_hook_def reconciled_total_def Let_def)
qed

section \<open>The tokens\<close>

lemma check_vector_silent:
  assumes "md key = Some (fin_vector xs)" "length xs = n" "\<forall>x \<in> set xs. is_f32 x"
    "require_non_negative rules \<Longrightarrow> \<forall>x \<in> set xs. 0 \<le> x" "require_integral rules \<Longrightarrow> integral_tokens xs"
    "unit_residual rules \<Longrightarrow> \<forall>x \<in> set xs. 0 \<le> x \<and> x < 1" "\<And>b. vector_bound rules = Some b \<Longrightarrow> \<forall>x \<in> set xs. x \<le> b"
  shows "check_vector md key n rules = ([], Some xs)"
proof -
  have "map (finite_part \<circ> (pf_r32 \<circ> Fin)) xs = xs" using assms(3) by (simp add: map_idI)
  moreover have "list_all isfinite (map pf_r32 (map Fin xs))" by (simp add: list_all_iff)
  moreover have "\<not> (require_non_negative rules \<and> (\<exists>x \<in> set xs. x < 0))" using assms(4) by (force simp: not_less)
  moreover have "\<not> (require_integral rules \<and> (\<exists>x \<in> set xs. eps32 < \<bar>r32 (x - rint x)\<bar>))"
    using assms(5) by (force simp: not_less integral_tokens_def)
  moreover have "\<not> (unit_residual rules \<and> ((\<exists>x \<in> set xs. x < 0) \<or> (\<exists>x \<in> set xs. 1 \<le> x)))"
    using assms(6) by (force simp: not_less)
  moreover have "\<not> (\<exists>x \<in> set xs. b < x)" if "vector_bound rules = Some b" for b
    using assms(7)[OF that] by (force simp: not_less)
  ultimately show ?thesis
    using assms(1,2) by (simp add: check_vector_def fin_vector_def Let_def split: option.split)
qed

lemma to_f32_f32: "\<forall>x \<in> set (to_f32 ts). is_f32 x"
  by (simp add: to_f32_def)

lemma to_f32_nonneg: "\<forall>x \<in> set ts. 0 \<le> x \<Longrightarrow> \<forall>x \<in> set (to_f32 ts). 0 \<le> x"
  by (simp add: to_f32_def f32.rd_nonneg)

lemma tokens_silent:
  assumes "md key = Some (fin_vector (to_f32 ts))" "length ts = n" "\<forall>x \<in> set ts. 0 \<le> x"
  shows "check_vector md key n whole_rules = ([], Some (to_f32 ts))"
  by (rule check_vector_silent)
    (use assms to_f32_f32 to_f32_nonneg to_f32_integral in \<open>simp_all add: whole_rules_def no_rules_def\<close>)

lemma carry_silent:
  assumes "md key = Some (fin_vector xs)" "length xs = n" "xs = to_f32 c" "\<forall>x \<in> set c. 0 \<le> x \<and> x \<le> 1"
  shows "check_vector md key n (whole_rules\<lparr>vector_bound := Some 1\<rparr>) = ([], Some xs)"
proof -
  have "\<forall>x \<in> set xs. x \<le> 1" using assms(3,4) f32.rd_le_float[of _ 1] by (auto simp: to_f32_def)
  then show ?thesis
    by (intro check_vector_silent)
      (use assms to_f32_f32 to_f32_nonneg[of c] to_f32_integral in \<open>simp_all add: whole_rules_def no_rules_def\<close>)
qed

lemma residual_silent:
  assumes "md key = Some (fin_vector xs)" "length xs = n" "\<forall>x \<in> set xs. is_f32 x \<and> 0 \<le> x \<and> x < 1"
  shows "check_vector md key n (no_rules\<lparr>unit_residual := True\<rparr>) = ([], Some xs)"
  by (rule check_vector_silent) (use assms in \<open>simp_all add: no_rules_def\<close>)

lemma signed_silent:
  assumes "md key = Some (fin_vector xs)" "length xs = n" "\<forall>x \<in> set xs. is_f32 x"
  shows "check_vector md key n no_rules = ([], Some xs)"
  by (rule check_vector_silent) (use assms in \<open>simp_all add: no_rules_def\<close>)

lemma link_tokens_silent:
  assumes "authority_stored ls ns p S R F" "authority_valid (link_count ls) (turn_count ns) p S R F"
  shows "link_token_violations (link_metadata ls) (link_count ls) 2 = []"
proof -
  obtain c d where c: "prior_service_carry p = to_f32 c" "\<forall>x \<in> set c. 0 \<le> x \<and> x \<le> 1"
    "prior_receiving_carry p = to_f32 d" "\<forall>x \<in> set d. 0 \<le> x \<and> x \<le> 1"
    using assms(2) by (auto simp: authority_valid_def)
  note st = assms(1)[unfolded authority_stored_def Let_def]
  note va = assms(2)[unfolded authority_valid_def]
  have "check_vector (link_metadata ls) ''runtime_link_service_tokens'' (link_count ls) whole_rules = ([], Some (to_f32 S))"
    "check_vector (link_metadata ls) ''runtime_link_receiving_tokens'' (link_count ls) whole_rules = ([], Some (to_f32 R))"
    by (rule tokens_silent; use st va in simp)+
  moreover have "check_vector (link_metadata ls) ''runtime_link_service_residual'' (link_count ls) (no_rules\<lparr>unit_residual := True\<rparr>)
      = ([], Some (prior_service_credit p))"
    "check_vector (link_metadata ls) ''runtime_link_receiving_residual'' (link_count ls) (no_rules\<lparr>unit_residual := True\<rparr>)
      = ([], Some (prior_receiving_credit p))"
    by (rule residual_silent; use st va in simp)+
  moreover have "check_vector (link_metadata ls) ''runtime_link_service_token_carry'' (link_count ls) (whole_rules\<lparr>vector_bound := Some 1\<rparr>)
      = ([], Some (prior_service_carry p))"
    by (rule carry_silent[OF _ _ c(1,2)]) (use st va in simp_all)
  moreover have "check_vector (link_metadata ls) ''runtime_link_receiving_token_carry'' (link_count ls) (whole_rules\<lparr>vector_bound := Some 1\<rparr>)
      = ([], Some (prior_receiving_carry p))"
    by (rule carry_silent[OF _ _ c(3,4)]) (use st va in simp_all)
  ultimately show ?thesis by (simp add: link_token_violations_def Let_def)
qed

section \<open>The flow and its witness\<close>

lemma explained_f32:
  assumes "explained ls ns N moves F"
  shows "to_f32 F = map of_int F" "to_f32 moves = map of_int moves"
proof -
  have e: "\<forall>x \<in> set moves. 0 \<le> x" "\<forall>x \<in> set F. 0 \<le> x" "sum_list moves + sum_list F < 2 ^ 23"
    using assms by (simp_all add: explained_def Let_def)
  then have "0 \<le> sum_list moves" "0 \<le> sum_list F" by (simp_all add: sum_list_nonneg)
  then show "to_f32 F = map of_int F" "to_f32 moves = map of_int moves" using e by (auto intro!: to_f32_small)
qed

lemma explained_segments:
  assumes "explained ls ns N moves F" "\<forall>i \<in> set idx. 0 \<le> i \<and> i < int (link_count ls)" "length idx = turn_count ns"
  shows "scatter_flow (link_count ls) idx (turn_flow ns)
      = Inr (map (\<lambda>s. of_int (segment_total moves (map nat idx) s)) [0..<link_count ls])"
    "\<forall>s < link_count ls. 0 \<le> segment_total moves (map nat idx) s \<and> segment_total moves (map nat idx) s < 2 ^ 23"
proof -
  let ?n = "link_count ls"
  have e: "turn_flow ns = map of_int moves" "length moves = turn_count ns" "\<forall>x \<in> set moves. 0 \<le> x" "\<forall>x \<in> set F. 0 \<le> x"
    "sum_list moves + sum_list F < 2 ^ 23"
    using assms(1) by (simp_all add: explained_def Let_def)
  then have tot: "sum_list moves < 2 ^ 23" using sum_list_nonneg[of F] by simp
  have idx: "\<forall>i \<in> set (map nat idx). i < ?n" using assms(2) by auto
  have len: "length moves = length (map nat idx)" using e(2) assms(3) by simp
  have "segment_total moves (map nat idx) s \<le> sum_list moves" if "s < ?n" for s
    using segment_total_sum[OF idx len] segment_total_nonneg[OF e(3)] that
      member_le_sum[of s "{..<?n}" "segment_total moves (map nat idx)"] by simp
  then show seg: "\<forall>s < ?n. 0 \<le> segment_total moves (map nat idx) s \<and> segment_total moves (map nat idx) s < 2 ^ 23"
    using segment_total_nonneg[OF e(3)] tot by (meson order_le_less_trans)
  have small: "\<forall>t \<in> set moves. t \<le> 2 ^ 24" using sum_list_members_le[OF e(3)] tot by force
  then have f32: "map r32 (map rat_of_int moves) = map of_int moves" using e(3) by (simp add: r32_of_int)
  have wrap: "map (\<lambda>i. nat (if i < 0 then i + int ?n else i)) idx = map nat idx" using assms(2) by (intro map_cong) auto
  have "segment_sum (map of_int moves) (map nat idx) ?n = map (\<lambda>s. of_int (segment_total moves (map nat idx) s)) [0..<?n]"
  proof (rule nth_equalityI)
    fix s assume "s < length (segment_sum (map rat_of_int moves) (map nat idx) ?n)"
    then have s: "s < ?n" by simp
    have "segment_sum (map of_int moves) (map nat idx) ?n ! s = of_int (segment_total moves (map nat idx) s)"
      by (rule segment_sum_ints[OF e(3) len _ s small]) (use seg in force)
    then show "segment_sum (map rat_of_int moves) (map nat idx) ?n ! s
        = map (\<lambda>s. of_int (segment_total moves (map nat idx) s)) [0..<?n] ! s" using s by simp
  qed simp
  then show "scatter_flow ?n idx (turn_flow ns) = Inr (map (\<lambda>s. of_int (segment_total moves (map nat idx) s)) [0..<?n])"
    unfolding scatter_flow_def wrap e(1) segment_sum_def f32 using assms(2) by (auto simp: check_eval)
qed

lemma flow_report_silent:
  assumes "explained ls ns N moves F" "turns_in_range ls ns" "wf_node ns"
  shows "flow_violations ls ns (Some (to_f32 F)) = Inr []"
proof -
  have idx: "\<forall>i \<in> set (turn_from_link_index ns). 0 \<le> i \<and> i < int (link_count ls)"
    "\<forall>i \<in> set (turn_to_link_index ns). 0 \<le> i \<and> i < int (link_count ls)"
    "length (turn_from_link_index ns) = turn_count ns" "length (turn_to_link_index ns) = turn_count ns"
    "length (turn_flow ns) = turn_count ns"
    using assms(2,3) by (auto simp: turns_in_range_def wf_node_def Let_def)
  note outs = explained_segments[OF assms(1) idx(1,3)] and ins = explained_segments[OF assms(1) idx(2,4)]
  let ?from = "segment_total moves (map nat (turn_from_link_index ns))"
  have e: "\<forall>x \<in> set F. 0 \<le> x" "length F = link_count ls" "sum_list moves + sum_list F < 2 ^ 23" "\<forall>x \<in> set moves. 0 \<le> x"
    "outflow_vehicles ls = map (\<lambda>s. of_int (?from s + F ! s)) [0..<link_count ls]"
    "inflow_vehicles ls = map (\<lambda>s. of_int (segment_total moves (map nat (turn_to_link_index ns)) s)) [0..<link_count ls]"
    using assms(1) by (simp_all add: explained_def Let_def)
  have "F ! s < 2 ^ 23" if "s < link_count ls" for s
    using sum_list_members_le[OF e(1), of "F ! s"] sum_list_nonneg[of moves] e that by force
  then have "r32 (of_int (?from s) + of_int (F ! s)) = of_int (?from s + F ! s)" if "s < link_count ls" for s
    using outs(2) that e(1,2) by (intro f32.rd_add_ints) force
  then have "map2 (\<lambda>a b. r32 (a + b)) (map (\<lambda>s. of_int (?from s)) [0..<link_count ls]) (map of_int F)
      = map (\<lambda>s. of_int (?from s + F ! s)) [0..<link_count ls]"
    using e(2) by (intro nth_equalityI) (simp_all del: of_int_add)
  then show ?thesis
    using outs(1) ins(1) idx(5) by (simp add: flow_violations_def explained_f32(1)[OF assms(1)] e(5,6) del: of_int_add)
qed

lemma sum32_whole:
  assumes "\<forall>x \<in> set xs. 0 \<le> x" "0 \<le> a" "a + sum_list xs \<le> 2 ^ 24"
  shows "foldl (\<lambda>a x. r32 (a + x)) (of_int a) (map of_int xs) = of_int (a + sum_list xs)"
  using assms
proof (induction xs arbitrary: a)
  case (Cons x xs)
  have "0 \<le> x" "0 \<le> sum_list xs" using Cons.prems(1) by (simp_all add: sum_list_nonneg)
  then have "r32 (of_int a + of_int x) = of_int (a + x)" using Cons.prems(2,3) by (intro f32.rd_add_ints) simp
  then show ?case using Cons.IH[of "a + x"] Cons.prems \<open>0 \<le> x\<close> by (simp add: add.assoc)
qed simp

lemma no_mismatch: "True \<notin> set (map2 (\<lambda>x y. eps32 < \<bar>r32 (x - y)\<bar>) xs xs)"
  using eps32_nonneg by (auto simp: zip_same_conv_map)

lemma explained_expected:
  assumes "explained ls ns N moves F" "turns_in_range ls ns" "wf_node ns" "\<forall>x \<in> set N. 0 \<le> x" "sum_list N < 2 ^ 23"
  shows "map2 (\<lambda>a b. r32 (a + b)) (map2 (\<lambda>a b. r32 (a - b)) (map of_int N) (outflow_vehicles ls)) (inflow_vehicles ls)
    = queue_vehicles ls"
proof -
  have idx: "\<forall>i \<in> set (turn_from_link_index ns). 0 \<le> i \<and> i < int (link_count ls)"
    "\<forall>i \<in> set (turn_to_link_index ns). 0 \<le> i \<and> i < int (link_count ls)"
    "length (turn_from_link_index ns) = turn_count ns" "length (turn_to_link_index ns) = turn_count ns"
    using assms(2,3) by (auto simp: turns_in_range_def wf_node_def Let_def)
  let ?from = "segment_total moves (map nat (turn_from_link_index ns))" and ?to = "segment_total moves (map nat (turn_to_link_index ns))"
  note outs = explained_segments(2)[OF assms(1) idx(1,3)] and ins = explained_segments(2)[OF assms(1) idx(2,4)]
  have e: "\<forall>x \<in> set F. 0 \<le> x" "length F = link_count ls" "length N = link_count ls"
    "outflow_vehicles ls = map (\<lambda>s. of_int (?from s + F ! s)) [0..<link_count ls]"
    "inflow_vehicles ls = map (\<lambda>s. of_int (?to s)) [0..<link_count ls]"
    "queue_vehicles ls = map (\<lambda>s. of_int (N ! s - (?from s + F ! s) + ?to s)) [0..<link_count ls]"
    "\<forall>s < link_count ls. ?from s + F ! s \<le> N ! s"
    using assms(1) by (simp_all add: explained_def Let_def)
  have step: "r32 (r32 (of_int (N ! s) - of_int (?from s + F ! s)) + of_int (?to s)) = of_int (N ! s - (?from s + F ! s) + ?to s)"
    if s: "s < link_count ls" for s
  proof -
    have b: "N ! s < 2 ^ 23" "0 \<le> F ! s" using sum_list_members_le[OF assms(4), of "N ! s"] assms(5) s e(1-3) by simp_all
    then have "r32 (of_int (N ! s) - of_int (?from s + F ! s)) = of_int (N ! s - (?from s + F ! s))"
    proof -
      have "0 \<le> N ! s - (?from s + F ! s)" "N ! s - (?from s + F ! s) \<le> 2 ^ 24" using outs e(7) s b by fastforce+
      then show ?thesis using r32_of_int[of "N ! s - (?from s + F ! s)"] by simp
    qed
    moreover have "r32 (of_int (N ! s - (?from s + F ! s)) + of_int (?to s)) = of_int (N ! s - (?from s + F ! s) + ?to s)"
      using outs ins e(7) s b by (intro f32.rd_add_ints) force
    ultimately show ?thesis by simp
  qed
  show ?thesis
    unfolding e(4-6) using e(3) step by (intro nth_equalityI) (simp_all del: of_int_add of_int_diff)
qed

section \<open>The report of an executed tick\<close>

text \<open>The state after an executed tick, with everything the checks look at.\<close>

definition accounted :: "link_state \<Rightarrow> node_state \<Rightarrow> prior_authority \<Rightarrow> int list \<Rightarrow> int list \<Rightarrow> int list \<Rightarrow> int list \<Rightarrow> int list \<Rightarrow> bool" where
  "accounted ls ns p S R F moves N \<longleftrightarrow> authority_stored ls ns p S R F \<and> authority_valid (link_count ls) (turn_count ns) p S R F \<and>
     explained ls ns N moves F \<and>
     (\<forall>s < link_count ls. outflow_vehicles ls ! s \<le> of_int (S ! s) \<and> inflow_vehicles ls ! s \<le> of_int (R ! s)) \<and>
     capacity_violation_flags ls = replicate (link_count ls) False"

lemma stored_keys:
  assumes "\<And>key. key \<notin> {''runtime_transition_authority_version'', ''runtime_transition_tick'', ''runtime_flow_input_queue_vehicles'',
     ''runtime_flow_generation''} \<Longrightarrow> md key = link_metadata ls key"
  shows "authority_stored (ls\<lparr>link_metadata := md\<rparr>) ns p S R F = authority_stored ls ns p S R F"
  by (simp add: authority_stored_def Let_def meta_flag_def meta_version_def assms)

lemma outcome_accounted:
  assumes "tick_outcome e w N ls ns r arg sinks"
  obtains p S R F moves where "accounted (w_links w) (w_nodes w) p S R F moves N"
proof -
  have out: "integral_queue ls N" "tick_ready ls ns" "update_link_node_flow (se_rust e) ls ns False (se_flow_backend e) True arg = Inr r"
    "w_nodes w = result_node r" using assms by (simp_all add: tick_outcome_def)
  obtain k where links: "w_links w = (result_link r)\<lparr>link_metadata := transition_metadata r ls (w_tick w) k\<rparr>"
    using assms by (auto simp: tick_outcome_def)
  obtain p S R F moves where t: "authority_stored (result_link r) (result_node r) p S R F"
    "authority_valid (link_count (result_link r)) (turn_count (result_node r)) p S R F"
    "explained (result_link r) (result_node r) N moves F"
    "\<forall>s < link_count ls. outflow_vehicles (result_link r) ! s \<le> of_int (S ! s) \<and> inflow_vehicles (result_link r) ! s \<le> of_int (R ! s)"
    "capacity_violation_flags (result_link r) = replicate (link_count ls) False"
    by (rule tick_accounts[OF out(2,1,3)])
  have n: "link_count (result_link r) = link_count ls" "link_count (w_links w) = link_count ls"
    using t(3) out(1) by (simp_all add: links explained_def Let_def integral_queue_def link_count_def)
  have "authority_stored (w_links w) (w_nodes w) p S R F"
    unfolding links out(4) by (subst stored_keys) (use transition_metadata_other t(1) in simp_all)
  then have "accounted (w_links w) (w_nodes w) p S R F moves N"
    using t(2-5) n unfolding accounted_def out(4) by (simp add: links explained_def)
  then show thesis by (rule that)
qed

lemma capacity_report_silent:
  assumes "accounted ls ns p S R F moves N" "wf_link ls"
  shows "check_state_capacity_flags ls = Inr []"
proof -
  let ?n = "link_count ls"
  have st: "link_metadata ls ''runtime_link_service_tokens'' = Some (fin_vector (to_f32 S))"
    "link_metadata ls ''runtime_link_receiving_tokens'' = Some (fin_vector (to_f32 R))"
    using assms(1) by (simp_all add: accounted_def authority_stored_def Let_def)
  have len: "length S = ?n" "length R = ?n" "length (outflow_vehicles ls) = ?n" "length (inflow_vehicles ls) = ?n"
    using assms by (simp_all add: accounted_def authority_valid_def wf_link_def Let_def)
  have read: "as_array32 (fin_vector (to_f32 T)) = Inr (map Fin (to_f32 T))" for T
    by (simp add: fin_vector_def to_f32_def)
  have quiet: "exceeds micro64 (map Fin xs) (map Fin (to_f32 T)) = replicate ?n False"
    if "length xs = ?n" "length T = ?n" "\<forall>s < ?n. xs ! s \<le> of_int (T ! s)" "\<forall>x \<in> set xs. is_f32 x" for xs T
  proof (rule nth_equalityI)
    fix s assume "s < length (exceeds micro64 (map Fin xs) (map Fin (to_f32 T)))"
    then have s: "s < ?n" using that(1,2) by (simp add: exceeds_def)
    have "xs ! s \<le> r32 (of_int (T ! s))" using that s by (intro f32.rd_ge_float) simp_all
    also have "\<dots> \<le> r32 (r32 (of_int (T ! s)) + r32 micro64)"
      by (rule f32.rd_add_ge) (simp_all add: f32.rd_nonneg micro64_nonneg)
    finally show "exceeds micro64 (map Fin xs) (map Fin (to_f32 T)) ! s = replicate ?n False ! s"
      using s that(1,2) by (simp add: exceeds_def to_f32_def)
  qed (use that in \<open>simp add: exceeds_def\<close>)
  have quiets: "exceeds micro64 (map Fin (outflow_vehicles ls)) (map Fin (to_f32 S)) = replicate ?n False"
    "exceeds micro64 (map Fin (inflow_vehicles ls)) (map Fin (to_f32 R)) = replicate ?n False"
    using assms len by (auto intro!: quiet simp: accounted_def wf_link_def)
  have flags: "capacity_violation_flags ls = replicate ?n False" using assms(1) by (simp add: accounted_def)
  have "positions (replicate ?n False) = []" by simp
  then show ?thesis
    using st len
    by (simp add: check_state_capacity_flags_def resolve_effective_capacity_values_def resolve_receiving_capacity_values_def
        resolve_tokens_def read check_capacity_violation_flags_def check_eval Let_def quiets flags flag_violations_def zip_replicate
        comp_def)
qed

lemma token_report_silent:
  assumes "tick_outcome e w N ls0 ns0 r arg sinks" "accounted (w_links w) (w_nodes w) p S R F moves N"
    "turns_in_range (w_links w) (w_nodes w)" "wf_node (w_nodes w)"
  shows "check_runtime_token_authority w = Inr (Some [])"
proof -
  let ?ls = "w_links w" and ?ns = "w_nodes w"
  obtain k where links: "?ls = (result_link r)\<lparr>link_metadata := transition_metadata r ls0 (w_tick w) k\<rparr>"
    using assms(1) by (auto simp: tick_outcome_def)
  have out: "integral_queue ls0 N" "w_completed_count w = nat (sum_list sinks)" "whole_counts sinks"
    "link_metadata (result_link r) ''runtime_sink_flow_vehicles'' = Some (fin_vector (to_f32 sinks))"
    using assms(1) by (simp_all add: tick_outcome_def)
  have N: "queue_vehicles ls0 = map of_int N" "\<forall>x \<in> set N. 0 \<le> x" "sum_list N < 2 ^ 23"
    using out(1) by (simp_all add: integral_queue_def)
  note acc = assms(2)[unfolded accounted_def]
  have ex: "explained ?ls ?ns N moves F" and auth: "authority_stored ?ls ?ns p S R F"
    and valid: "authority_valid (link_count ?ls) (turn_count ?ns) p S R F" using acc by blast+
  note st = auth[unfolded authority_stored_def Let_def] and va = valid[unfolded authority_valid_def]
  have F: "\<forall>x \<in> set F. 0 \<le> x" "length F = link_count ?ls" "length N = link_count ?ls" "sum_list F < 2 ^ 23"
    using ex sum_list_nonneg[of moves] by (simp_all add: explained_def Let_def)
  note f32 = explained_f32[OF ex]
  have "map Fin (to_f32 sinks) = map Fin (to_f32 F)"
    using out(4) st by (simp add: links transition_metadata_other fin_vector_def)
  then have "to_f32 sinks = to_f32 F" by (subst (asm) inj_map_eq_map) (simp_all add: inj_on_def)
  moreover have "to_f32 sinks = map of_int sinks"
    using out(3) by (auto simp: to_f32_def whole_counts_def intro!: r32_of_int)
  ultimately have sinks: "sinks = F" using f32(1) by (simp add: inj_map_eq_map inj_on_def)
  have flag: "meta_flag (link_metadata ?ls) ''runtime_discrete_agent_authority''" "meta_version (link_metadata ?ls) = Inr 2"
    using st by blast+
  have v1: "check_vector (link_metadata ?ls) ''runtime_sink_flow_vehicles'' (link_count ?ls) whole_rules = ([], Some (to_f32 F))"
    "check_vector (node_metadata ?ns) ''runtime_sink_flow_by_link_index'' (link_count ?ls) whole_rules = ([], Some (to_f32 F))"
    using st F by (auto intro!: tokens_silent)
  have v2: "check_vector (node_metadata ?ns) ''runtime_turn_flow_residual'' (turn_count ?ns) no_rules = ([], Some (prior_turn_credit p))"
    "check_vector (node_metadata ?ns) ''runtime_sink_flow_residual'' (link_count ?ls) no_rules = ([], Some (prior_sink_credit p))"
    using st va by (auto intro!: signed_silent)
  have whole: "\<not> (\<exists>x \<in> set (turn_flow ?ns). eps32 < \<bar>r32 (x - rint x)\<bar>)"
    using to_f32_integral[of moves] ex f32(2) by (force simp: explained_def Let_def integral_tokens_def not_less)
  have n: "link_count ?ls = length N" using F by simp
  have input: "check_vector (link_metadata ?ls) ''runtime_flow_input_queue_vehicles'' (link_count ?ls) (no_rules\<lparr>require_non_negative := True\<rparr>)
      = ([], Some (map of_int N))"
  proof (rule check_vector_silent)
    show "link_metadata ?ls ''runtime_flow_input_queue_vehicles'' = Some (fin_vector (map of_int N))"
      by (simp add: links transition_metadata_def N(1))
    show "\<forall>x \<in> set (map rat_of_int N). is_f32 x"
      using sum_list_members_le[OF N(2)] N(2,3) by (force intro!: is_f32_of_int)
  qed (use N(2) n in \<open>simp_all add: no_rules_def\<close>)
  have "rne (sum32 (to_f32 F)) = sum_list F"
    using sum32_whole[OF F(1), of 0] F(4) f32(1) by (simp add: sum32_def)
  then have total: "int (w_completed_count w) = rne (sum32 (to_f32 F))"
    using out(2) sum_list_nonneg[of F] F(1) by (simp add: sinks)
  have tick: "metadata_int (link_metadata ?ls) ''runtime_transition_tick'' = Inr (w_tick w)"
    "link_metadata ?ls ''runtime_transition_tick'' \<noteq> None"
    by (simp_all add: links transition_metadata_def metadata_int_def)
  have "transition_violations w (Some (to_f32 F)) = Inr []"
    using no_mismatch[of "queue_vehicles ?ls"] total
    by (simp add: transition_violations_def Let_def input tick explained_expected[OF ex assms(3,4) N(2,3)])
  then show ?thesis
    using whole flow_report_silent[OF ex assms(3,4)] link_tokens_silent[OF auth valid]
    by (simp add: check_runtime_token_authority_def Let_def flag v1 v2)
qed

section \<open>The clock\<close>

lemma event_effects_tick: "apply_event_effects_to_flow_state e w = Inr w' \<Longrightarrow> w_tick w' = w_tick w"
  by (auto simp: apply_event_effects_to_flow_state_def check_simps Let_def split: if_splits)

lemma run_tick_clock:
  assumes "run_tick e c w = Inr w'" shows "w_tick w' = w_tick w"
proof -
  obtain w1 w2 w3 skip w4 ns w5 where run: "apply_event_effects_to_flow_state e w = Inr w1"
    "activate_due_trip_requests w1 = Inr w2" "prepare_runtime_active_agents e c w2 = Inr (w3, skip)"
    "advance_runtime_agent_progress e skip w3 = Inr w4"
    "rebuild_runtime_turn_demand (se_net e) (se_spatial e) skip (w_pool w4) (w_links w4) (w_nodes w4) = Inr ns"
    "advance_flow_state e (w4\<lparr>w_nodes := ns\<rparr>) = Inr w5" "commit_runtime_routing_state e skip w5 = Inr w'"
    by (rule run_tick_phases[OF assms])
  have "w_tick w2 = w_tick w1" using run(2)
    by (auto simp: activate_due_trip_requests_def check_simps Let_def split: if_splits)
  moreover have "w_tick w3 = w_tick w2" using run(3) by (auto simp: prepare_runtime_active_agents_def check_simps Let_def)
  moreover have "w_tick w4 = w_tick w3" using run(4)
    by (auto simp: advance_runtime_agent_progress_def check_simps split: if_splits)
  moreover have "w_tick w5 = w_tick w4" using run(6) by (auto simp: advance_flow_state_def check_simps)
  moreover have "w_tick w' = w_tick w5" using run(7) by (auto simp: commit_runtime_routing_state_def check_simps)
  ultimately show ?thesis using event_effects_tick[OF run(1)] by simp
qed

lemma step_clock:
  assumes "simulation_step e c w = Inr w'" shows "w_tick w' = w_tick w + (if ti_pause c then 0 else 1)"
proof -
  obtain w1 where w1: "advance_event_state c (apply_control_to_state c w) = Inr w1"
    "(if ti_pause c then Inr (w1\<lparr>w_authority := False, w_counter_tick := w_tick w1, w_completed_count := 0\<rparr>)
      else bindE (run_tick e c w1) (\<lambda>w. Inr (w\<lparr>w_authority := True, w_counter_tick := w_tick w\<rparr>))) = Inr w'"
    using assms by (auto simp: simulation_step_def check_simps)
  have "w_tick w1 = w_tick w + (if ti_pause c then 0 else 1)"
    using w1(1) by (auto simp: advance_event_state_def apply_control_to_state_def check_simps Let_def split: if_splits)
  then show ?thesis using w1(2) run_tick_clock by (auto simp: check_simps split: if_splits)
qed

lemma rollout_clock:
  "run_rollout e cs w = Inr w' \<Longrightarrow> w_tick w' = w_tick w + int (length (filter (\<lambda>c. \<not> ti_pause c) cs))"
  by (induction cs arbitrary: w) (force simp: check_simps dest!: step_clock)+

lemma rollout_append:
  "run_rollout e (cs @ ds) w = bindE (run_rollout e cs w) (run_rollout e ds)"
proof (induction cs arbitrary: w)
  case (Cons c cs)
  then show ?case by (cases "simulation_step e c w") simp_all
qed simp

section \<open>The whole report\<close>

lemma make_report_silent:
  assumes "0 \<le> t" "\<forall>(_, r) \<in> set results. r \<in> {None, Some []}"
  shows "\<exists>rep. make_invariant_report (report_of t results) = Inr rep \<and> violations rep = [] \<and> report_tick rep = t"
proof -
  have "violations (report_of t results) = []" using assms(2) by (fastforce simp: report_of_def Let_def)
  then show ?thesis using assms(1) by (simp add: make_invariant_report_def check_eval report_of_def Let_def)
qed

lemma outcome_report_clean:
  assumes "tick_outcome e w N ls0 ns0 r arg sinks" "storage_ready e w" "sim_ready e n w" "env_ok e" "0 \<le> w_tick w"
  shows "\<exists>rep. validate_invariants e w = Inr rep \<and> violations rep = [] \<and> report_tick rep = w_tick w"
proof -
  obtain lookup where ready: "runtime_ready (se_net e) lookup (w_pool w) (w_links w) (w_nodes w)"
    "capacity (w_pool w) < 2 ^ 23" "books_ok w" using assms(3) by (auto simp: sim_ready_def)
  have parts: "tick_ready (w_links w) (w_nodes w)" "pool_ok (w_pool w)" "agents_routed (se_net e) lookup (w_pool w) {}"
    "lockstep (se_net e) (w_pool w) (w_links w)" using ready(1) by (simp_all add: runtime_ready_def)
  have wf: "wf_link (w_links w)" "wf_node (w_nodes w)" "turns_in_range (w_links w) (w_nodes w)"
    using parts(1) by (simp_all add: tick_ready_def)
  have net: "wf_network (se_net e)" using assms(4) by (simp add: env_ok_def)
  have books: "trip_ledger (w_pool w) (w_ids w)" "trips_sound (w_trips w)"
    "allocated_trips (w_ids w) \<union> failed_trips (w_ids w) \<subseteq> trip_ids (w_trips w)"
    using ready(3) by (simp_all add: books_ok_def)
  obtain p S R F moves where acc: "accounted (w_links w) (w_nodes w) p S R F moves N"
    by (rule outcome_accounted[OF assms(1)])
  obtain authority where authority: "check_runtime_vehicle_queue_authority (se_net e) (w_links w) (w_pool w) = Inr authority"
    "authority \<in> {None, Some []}"
    using vehicle_report_silent[OF net parts(2-4) ready(2)] by auto
  obtain snap where snap: "extract_conservation_snapshot (trip_lifecycle_sets (w_trips w) (w_ids w) (w_pool w)) = Inr snap"
    "check_conservation_hook snap 0 = Inr []"
    using conservation_report_silent[OF books(1) parts(2) books(2,3)] by blast
  have life: "check_trip_lifecycle_disjoint (trip_lifecycle_sets (w_trips w) (w_ids w) (w_pool w)) (snd (snd (w_counts w))) = []"
    using lifecycle_report_silent[OF books] assms(1) by (simp add: tick_outcome_def)
  have queue: "check_non_negative_queue (Inr (map Fin (queue_vehicles (w_links w)))) ''queue_vehicles'' = []"
    using wf(1) by (intro queue_report_silent) (simp add: wf_link_def Let_def)
  show ?thesis
    unfolding validate_invariants_def Let_def
    using pool_report_silent[OF parts(2,3)] authority token_report_silent[OF assms(1) acc wf(3,2)]
      capacity_report_silent[OF acc wf(1)] snap storage_report_silent[OF assms(2)] assms(5)
    by (simp add: life queue) (rule make_report_silent, auto)
qed

text \<open>after any run of ticks from a ready state that ends with an executed (not paused) tick, the
  invariant report of the state is produced and is empty: the checks of the vehicle and queue
  authority, of the token authority with its eleven metadata vectors, of the capacity flags, the storage,
  the pool, the trip lifecycle and the conservation of trips all pass, whatever the events, the route choices
  and the tail choices of the run.\<close>

lemma executed_tick_report_clean:
  assumes "env_ok e" "\<forall>c \<in> set (cs @ [c]). input_ok c" "sim_ready e (length cs + 1) w" "storage_ready e w"
    "run_rollout e (cs @ [c]) w = Inr w'" "\<not> ti_pause c" "0 \<le> w_tick w"
  shows "\<exists>rep. validate_invariants e w' = Inr rep \<and> report_ok rep \<and> report_tick rep = w_tick w'"
proof -
  obtain w0 where w0: "run_rollout e cs w = Inr w0" "simulation_step e c w0 = Inr w'"
    using assms(5) by (auto simp: rollout_append check_simps split: sum.splits)
  have ready: "sim_ready e (Suc 0) w0" using rollout_ready[OF w0(1) _ assms(1)] assms(2,3) by simp
  have storage: "storage_ready e w0" using rollout_storage[OF w0(1) assms(3,1) _ assms(4)] assms(2) by simp
  obtain w1 w2 where w1: "advance_event_state c (apply_control_to_state c w0) = Inr w1" "run_tick e c w1 = Inr w2"
    "w' = w2\<lparr>w_authority := True, w_counter_tick := w_tick w2\<rparr>"
    using w0(2) assms(6) by (auto simp: simulation_step_def check_simps)
  note frame = control_events_frame[OF w1(1)]
  have ready1: "sim_ready e (Suc 0) w1" "storage_ready e w1"
    using ready storage sim_ready_cong[OF frame(1-5)] frame(2) by (simp_all add: storage_ready_def)
  have c: "input_ok c" using assms(2) by simp
  obtain N ls ns r arg sinks where out: "tick_outcome e w2 N ls ns r arg sinks"
    by (rule executed_tick[OF w1(2) ready1(1) assms(1) c ready1(2)])
  have out': "tick_outcome e w' N ls ns r arg sinks" using out by (simp add: w1(3) tick_outcome_def)
  have ready': "sim_ready e 0 w'" by (rule step_ready(1)[OF w0(2) ready assms(1)]) (use assms(2) in simp)
  have storage': "storage_ready e w'" by (rule step_storage_ready[OF w0(2) ready assms(1) _ storage]) (use assms(2) in simp)
  have "0 \<le> w_tick w'" using rollout_clock[OF assms(5)] assms(7) by simp
  from outcome_report_clean[OF out' storage' ready' assms(1) this] show ?thesis by (simp add: report_ok_def)
qed

end
