(* ===== verification/RoutedRun.thy ===== *)
theory RoutedRun
  imports RouteChoice CleanReport
begin

text \<open>
  The tick with its own routes (src/src/metroflow/sim/step.py over sim/routing_runtime.py): the refresh of the
  route candidates runs between the activation of the trips and the admission of agents, admission
  takes the best candidate of a trip's origin and destination, and the reroute phase takes the best
  tail.  A routed run is therefore a run of RuntimeStep whose route inputs are the ones computed here,
  and what holds of every run holds of it.
\<close>

section \<open>The routes of a tick\<close>

definition chosen_for :: "sim_env \<Rightarrow> route_setup \<Rightarrow> candidate_set option \<Rightarrow> selected_candidate option result" where
  "chosen_for e rs s = select_candidate_route (rs_log rs) (rs_rust rs) s (rs_gamma rs) (se_routing_backend e)"

definition route_pick :: "sim_env \<Rightarrow> route_setup \<Rightarrow> route_cache \<Rightarrow> route_choice" where
  "route_pick e rs rc od = (case chosen_for e rs (rc_sets rc od) of Inr sel \<Rightarrow> map_option selection_of sel | Inl _ \<Rightarrow> None)"

definition fresh_potentials :: "potential_key potential_cache" where
  "fresh_potentials = \<lparr>cached_states = Map.empty, cache_hits = 0, cache_recomputes = 0\<rparr>"

definition route_tails :: "sim_env \<Rightarrow> route_setup \<Rightarrow> sim_state \<Rightarrow> int \<Rightarrow> int \<Rightarrow> route_selection option" where
  "route_tails e rs w cur dest = (case build_reroute_tail_selection e rs w fresh_potentials cur dest of
       Some (Inr (sel, _)) \<Rightarrow> map_option selection_of sel | _ \<Rightarrow> None)"

text \<open>The two functions are partial where a selection raises.  The tick is outside the model when a trip or an agent
  could meet such a selection; with the baseline backend none can.\<close>

definition choices_computed :: "sim_env \<Rightarrow> route_setup \<Rightarrow> sim_state \<Rightarrow> route_cache \<Rightarrow> bool" where
  "choices_computed e rs w rc \<longleftrightarrow>
     (\<forall>t \<in> set (route_relevant_trips (w_ids w) (w_trips w)). \<forall>od a b. trip_od_nodes (se_pois e) t = Some (od, a, b) \<longrightarrow>
        (case chosen_for e rs (rc_sets rc od) of Inr _ \<Rightarrow> True | Inl _ \<Rightarrow> False)) \<and>
     (\<forall>k < length (alive_mask (w_pool w)). alive_mask (w_pool w) ! k \<longrightarrow>
        (case build_reroute_tail_selection e rs w fresh_potentials (current_link_id (w_pool w) ! k) (dest_node_id (w_pool w) ! k) of
           Some (Inr _) \<Rightarrow> True | _ \<Rightarrow> False))"

definition routed_input :: "sim_env \<Rightarrow> route_setup \<Rightarrow> sim_state \<Rightarrow> route_cache \<Rightarrow> tick_input \<Rightarrow> tick_input" where
  "routed_input e rs w rc c = c\<lparr>ti_pick := route_pick e rs rc, ti_tails := route_tails e rs w\<rparr>"

definition routed_run_tick :: "sim_env \<Rightarrow> route_setup \<Rightarrow> tick_input \<Rightarrow> sim_state \<times> route_cache \<Rightarrow>
    (sim_state \<times> route_cache) result option" where
  "routed_run_tick e rs c st =
     bindO (Some (apply_event_effects_to_flow_state e (fst st))) (\<lambda>w.
     bindO (Some (activate_due_trip_requests w)) (\<lambda>w.
     bindO (refresh_runtime_route_candidates e rs w (snd st)) (\<lambda>rc.
     if \<not> choices_computed e rs w rc then Some (Inl (OutOfModel ''route choice''))
     else bindO (Some (prepare_runtime_routing_state e (routed_input e rs w rc c) w)) (\<lambda>(w, skip).
       bindO (Some (advance_flow_state e w)) (\<lambda>w.
       bindO (Some (commit_runtime_routing_state e skip w)) (\<lambda>w. Some (Inr (w, rc))))))))"

definition routed_step :: "sim_env \<Rightarrow> route_setup \<Rightarrow> tick_input \<Rightarrow> sim_state \<times> route_cache \<Rightarrow>
    (sim_state \<times> route_cache) result option" where
  "routed_step e rs c st =
     bindO (Some (advance_event_state c (apply_control_to_state c (fst st)))) (\<lambda>w.
     if ti_pause c then Some (Inr (w\<lparr>w_authority := False, w_counter_tick := w_tick w, w_completed_count := 0\<rparr>, snd st))
     else bindO (routed_run_tick e rs c (w, snd st)) (\<lambda>(w, rc). Some (Inr (w\<lparr>w_authority := True, w_counter_tick := w_tick w\<rparr>, rc))))"

fun routed_rollout :: "sim_env \<Rightarrow> route_setup \<Rightarrow> tick_input list \<Rightarrow> sim_state \<times> route_cache \<Rightarrow>
    (sim_state \<times> route_cache) result option" where
  "routed_rollout e rs [] st = Some (Inr st)"
| "routed_rollout e rs (c # cs) st = bindO (routed_step e rs c st) (routed_rollout e rs cs)"

section \<open>A routed run is a run\<close>

definition same_control :: "tick_input \<Rightarrow> tick_input \<Rightarrow> bool" where
  "same_control c c' \<longleftrightarrow> c' = c\<lparr>ti_pick := ti_pick c', ti_tails := ti_tails c'\<rparr>"

lemma selection_of_ok: "selection_ok (selection_of s)"
  by (simp add: selection_ok_def selection_of_def selected_candidate_memory_def)

lemma routed_input_ok: "input_ok (routed_input e rs w rc c)" "same_control c (routed_input e rs w rc c)"
  by (auto simp: input_ok_def routed_input_def same_control_def route_pick_def route_tails_def selection_of_ok
      split: sum.splits option.splits)

lemma same_control_fields:
  assumes "same_control c c'"
  shows "ti_pause c' = ti_pause c" "apply_control_to_state c' w = apply_control_to_state c w"
    "advance_event_state c' w = advance_event_state c w"
proof -
  obtain p t where c': "c' = c\<lparr>ti_pick := p, ti_tails := t\<rparr>" using assms by (auto simp: same_control_def)
  show "ti_pause c' = ti_pause c" "apply_control_to_state c' w = apply_control_to_state c w"
    "advance_event_state c' w = advance_event_state c w"
    by (simp_all add: c' apply_control_to_state_def advance_event_state_def Let_def)
qed

lemma routed_tick_runs:
  assumes "routed_run_tick e rs c (w, rc) = Some (Inr (w', rc'))"
  obtains c' where "same_control c c'" "input_ok c'" "run_tick e c' w = Inr w'"
proof -
  obtain w1 w2 w3 skip w4 where t: "apply_event_effects_to_flow_state e w = Inr w1" "activate_due_trip_requests w1 = Inr w2"
    "prepare_runtime_routing_state e (routed_input e rs w2 rc' c) w2 = Inr (w3, skip)" "advance_flow_state e w3 = Inr w4"
    "commit_runtime_routing_state e skip w4 = Inr w'"
    using assms by (auto simp: routed_run_tick_def check_simps split: if_splits)
  show thesis
    by (rule that[OF routed_input_ok(2,1)[where c = c and e = e and rs = rs and w = w2 and rc = rc']]) (simp add: run_tick_def t)
qed

lemma routed_step_steps:
  assumes "routed_step e rs c (w, rc) = Some (Inr (w', rc'))"
  obtains c' where "same_control c c'" "input_ok c'" "simulation_step e c' w = Inr w'"
proof -
  obtain w1 where w1: "advance_event_state c (apply_control_to_state c w) = Inr w1"
    using assms by (auto simp: routed_step_def check_simps)
  show thesis
  proof (cases "ti_pause c")
    case True
    let ?c = "c\<lparr>ti_pick := Map.empty, ti_tails := \<lambda>_. Map.empty\<rparr>"
    have "same_control c ?c" by (simp add: same_control_def)
    moreover from this have "simulation_step e ?c w = Inr w'"
      using assms True w1 by (simp add: routed_step_def simulation_step_def same_control_fields)
    ultimately show ?thesis using that by (simp add: input_ok_def)
  next
    case False
    then obtain w2 where w2: "routed_run_tick e rs c (w1, rc) = Some (Inr (w2, rc'))"
      "w' = w2\<lparr>w_authority := True, w_counter_tick := w_tick w2\<rparr>"
      using assms w1 by (auto simp: routed_step_def check_simps)
    obtain c' where c': "same_control c c'" "input_ok c'" "run_tick e c' w1 = Inr w2" by (rule routed_tick_runs[OF w2(1)])
    have "simulation_step e c' w = Inr w'"
      using False w1 c'(3) w2(2) by (simp add: simulation_step_def same_control_fields[OF c'(1)])
    then show ?thesis using that c' by blast
  qed
qed

lemma routed_rollout_runs:
  assumes "routed_rollout e rs cs (w, rc) = Some (Inr (w', rc'))"
  obtains cs' where "list_all2 same_control cs cs'" "\<forall>c \<in> set cs'. input_ok c" "run_rollout e cs' w = Inr w'"
  using assms
proof (induction cs arbitrary: w rc thesis)
  case (Cons c cs)
  obtain w1 rc1 where s: "routed_step e rs c (w, rc) = Some (Inr (w1, rc1))"
    "routed_rollout e rs cs (w1, rc1) = Some (Inr (w', rc'))" using Cons.prems(2) by (auto simp: check_simps)
  obtain c' where c': "same_control c c'" "input_ok c'" "simulation_step e c' w = Inr w1" by (rule routed_step_steps[OF s(1)])
  obtain cs' where cs': "list_all2 same_control cs cs'" "\<forall>c \<in> set cs'. input_ok c" "run_rollout e cs' w1 = Inr w'"
    by (rule Cons.IH[OF _ s(2)])
  show ?case by (rule Cons.prems(1)[of "c' # cs'"]) (use c' cs' in simp_all)
qed auto

lemma same_control_pause: "list_all2 same_control cs cs' \<Longrightarrow> map ti_pause cs' = map ti_pause cs"
  by (induction rule: list_all2_induct) (simp_all add: same_control_fields(1))

text \<open>C1: a whole run keeps agents, queues and trips together.  Let the state be ready for as many
  ticks as the run has controls.  Whatever the controls pause, inject and clear, and whatever is in the route cache,
  if the run returns, with the routes that its own refresh offered and selected, then in its last state the queue of every
  link is exactly the number of live agents on it, every agent carries a legal route, and every trip
  that was generated is pending, on the road with exactly one agent, completed or failed.\<close>

theorem routed_run_keeps_lockstep:
  assumes "env_ok e" "sim_ready e (length cs) w" "routed_rollout e rs cs (w, rc) = Some (Inr (w', rc'))"
  shows "\<exists>lookup. agents_routed (se_net e) lookup (w_pool w') {} \<and> pool_ok (w_pool w') \<and>
    queue_vehicles (w_links w') = map (\<lambda>s. of_int (occupancy (se_net e) (w_pool w') s)) [0..<net_link_count (se_net e)] \<and>
    one_agent_per_trip (w_pool w') \<and>
    int (length (w_trips w)) = int (snd (snd (demand_lifecycle_counts (w_trips w') (w_ids w')))) + alive_count (w_pool w') +
      int (card (completed_trips (w_ids w'))) + int (card (failed_trips (w_ids w')))"
proof -
  obtain cs' where run: "list_all2 same_control cs cs'" "\<forall>c \<in> set cs'. input_ok c" "run_rollout e cs' w = Inr w'"
    by (rule routed_rollout_runs[OF assms(3)])
  have "sim_ready e (length cs') w" using assms(2) list_all2_lengthD[OF run(1)] by simp
  then show ?thesis by (rule rollout_keeps_lockstep[OF assms(1) run(2) _ run(3)])
qed

text \<open>C2: the invariant report of the program is clean.  After a routed run from a ready state whose last
  tick is executed, the report of sim/invariants.py is produced and lists no violation: queue accounting, storage,
  capacity flags, tokens, the agent pool, agents against queues, the trip lifecycle and the conservation of trips all pass.\<close>

theorem routed_report_clean:
  assumes "env_ok e" "sim_ready e (length cs) w" "storage_ready e w" "routed_rollout e rs cs (w, rc) = Some (Inr (w', rc'))"
    "cs \<noteq> []" "\<not> ti_pause (last cs)" "0 \<le> w_tick w"
  shows "\<exists>rep. validate_invariants e w' = Inr rep \<and> report_ok rep \<and> report_tick rep = w_tick w'"
proof -
  obtain cs' where run: "list_all2 same_control cs cs'" "\<forall>c \<in> set cs'. input_ok c" "run_rollout e cs' w = Inr w'"
    by (rule routed_rollout_runs[OF assms(4)])
  have len: "length cs' = length cs" using run(1) by (simp add: list_all2_lengthD)
  then obtain ds d where cs': "cs' = ds @ [d]" using assms(5) by (metis length_0_conv rev_exhaust)
  have "ti_pause d = ti_pause (last cs)"
    using same_control_pause[OF run(1)] assms(5) unfolding cs' by (metis last_map last_snoc map_append list.simps(8,9) map_is_Nil_conv)
  then show ?thesis
    using executed_tick_report_clean[of e ds d w w'] assms(1-3,6,7) run(2,3) len unfolding cs' by simp
qed

end
