(* ===== verification/RouteService.thy ===== *)
theory RouteService
  imports RoutedRun
begin

text \<open>
  What the runtime may expect of its own routing (src/src/metroflow/sim/routing_runtime.py over
  routing/candidates.py): every route that the refresh offers and every tail that the reroute phase
  is offered passes the authority check of the runtime, a refresh always returns, and the selected
  candidate is a cheapest route.  The last section exhibits the reuse of a candidate set that a
  closure has emptied.
\<close>

section \<open>Legal routes pass the authority check\<close>

text \<open>Every legal turn has an entry in the table of pairs, and there are turns at all: without any, routing takes every
  pair of adjacent links for legal and the runtime takes none.\<close>

definition turns_complete :: "road_network \<Rightarrow> bool" where
  "turns_complete net \<longleftrightarrow> 0 < net_turn_count net \<and> (\<forall>t < net_turn_count net. \<not> turn_forbidden net ! t \<longrightarrow>
     turn_pair_index net (lid net (turn_from net ! t), lid net (turn_to net ! t)) \<noteq> None)"

lemma collect_turn_pairs_mono: "collect_turn_pairs ts m = Inr m' \<Longrightarrow> m k \<noteq> None \<Longrightarrow> m' k \<noteq> None"
  by (induction ts m rule: collect_turn_pairs.induct) (auto split: if_splits)

lemma collect_turn_pairs_complete:
  "collect_turn_pairs ts m = Inr m' \<Longrightarrow> (i, t, False) \<in> set ts \<Longrightarrow> m' (from_link t, to_link t) \<noteq> None"
proof (induction ts m rule: collect_turn_pairs.induct)
  case (2 j u forb ts m)
  show ?case
  proof (cases "(i, t, False) = (j, u, forb)")
    case True
    then have "collect_turn_pairs ts (m((from_link t, to_link t) \<mapsto> i)) = Inr m'"
      using "2.prems"(1) by (auto split: if_splits)
    from collect_turn_pairs_mono[OF this, of "(from_link t, to_link t)"] show ?thesis by simp
  next
    case False
    then show ?thesis using 2 by (auto split: if_splits simp del: fun_upd_apply)
  qed
qed simp

lemma built_turns_complete:
  assumes "make_road_network nodes links turns crossings = Inr net" "turns \<noteq> []" "wf_network net"
  shows "turns_complete net"
proof -
  let ?ts = "zip [0..<length turns] (zip turns (map (\<lambda>t. movement_type t = UTurnForbidden) turns))"
  have c: "collect_turn_pairs ?ts Map.empty = Inr (turn_pair_index net)"
    and f: "turn_forbidden net = map (\<lambda>t. movement_type t = UTurnForbidden) turns" "net_turns net = turns"
    using assms(1) by (auto simp: make_road_network_def Let_def check_simps)
  note wf = assms(3)
  have "turn_pair_index net (lid net (turn_from net ! t), lid net (turn_to net ! t)) \<noteq> None"
    if t: "t < net_turn_count net" "\<not> turn_forbidden net ! t" for t
  proof -
    have n: "t < length turns" using t(1) f(2) by (simp add: net_turn_count_def)
    have "(t, turns ! t, False) \<in> set ?ts" using n t(2) by (auto simp: f(1) in_set_zip intro!: exI[of _ t])
    from collect_turn_pairs_complete[OF c this]
    show ?thesis using wf t(1) by (simp add: wf_network_def Let_def f(2))
  qed
  then show ?thesis using assms(2) f(2) by (simp add: turns_complete_def net_turn_count_def)
qed

definition pairs_legal :: "turn_lookup \<Rightarrow> int list \<Rightarrow> bool" where
  "pairs_legal lookup path \<longleftrightarrow> (\<forall>ab \<in> set (zip path (tl path)). lookup ab \<noteq> None)"

lemma pairs_legal_simps [simp]:
  "pairs_legal lookup []" "pairs_legal lookup [a]"
  "pairs_legal lookup (a # b # path) \<longleftrightarrow> lookup (a, b) \<noteq> None \<and> pairs_legal lookup (b # path)"
  by (simp_all add: pairs_legal_def)

lemma pairs_legal_append:
  "pairs_legal lookup (xs @ ys) \<longleftrightarrow> pairs_legal lookup xs \<and> pairs_legal lookup ys \<and>
     (xs \<noteq> [] \<and> ys \<noteq> [] \<longrightarrow> lookup (last xs, hd ys) \<noteq> None)"
proof (induction xs)
  case (Cons a xs)
  show ?case
  proof (cases xs)
    case Nil
    then show ?thesis by (cases ys) auto
  next
    case (Cons b zs)
    then show ?thesis using Cons.IH by auto
  qed
qed simp

lemma authority_pairs:
  "validate_route_path_authority net lookup path dest = Inr u \<longleftrightarrow> path \<noteq> [] \<and>
     (\<forall>l \<in> set path. link_index net l \<noteq> None) \<and>
     dst_node (net_links net ! the (link_index net (last path))) = dest \<and> pairs_legal lookup path"
  by (auto simp: validate_route_path_authority_def check_simps pairs_legal_def)

lemma legal_pair:
  assumes "wf_network net" "turns_complete net" "legal_turn net i l" "i < net_link_count net" "l < net_link_count net"
  shows "turn_pair_index net (lid net i, lid net l) \<noteq> None"
  using assms by (auto simp: legal_turn_def turns_complete_def)

lemma legal_route_pairs:
  assumes net: "wf_network net" "turns_complete net"
    and "legal_route net b node inc p" "\<forall>i. inc = Some i \<longrightarrow> (\<exists>idx < net_link_count net. i = lid net idx)"
  shows "pairs_legal (turn_pair_index net) ((case inc of None \<Rightarrow> [] | Some i \<Rightarrow> [i]) @ map (lid net) p)"
  using assms(3,4)
proof (induction p arbitrary: node inc)
  case Nil
  then show ?case by (cases inc) simp_all
next
  case (Cons l p)
  have l: "l < net_link_count net" using Cons.prems(1) by simp
  have rest: "pairs_legal (turn_pair_index net) (lid net l # map (lid net) p)"
    using Cons.IH[of "dst_node (net_links net ! l)" "Some (lid net l)"] Cons.prems(1) l by auto
  show ?case
  proof (cases inc)
    case None
    then show ?thesis using rest by simp
  next
    case (Some i)
    then obtain idx where idx: "idx < net_link_count net" "i = lid net idx" using Cons.prems(2) by blast
    then have "link_index net i = Some idx" using link_known[OF net(1)] by simp
    then have "legal_turn net idx l" using Cons.prems(1) Some by auto
    then show ?thesis using legal_pair[OF net _ idx(1) l] rest idx(2) by (simp add: Some)
  qed
qed

lemma candidate_accepted:
  assumes net: "wf_network net" "turns_complete net" and p: "candidate_route net b origin dest None hops p"
  shows "validate_route_path_authority net (turn_pair_index net) (map (lid net) p) dest = Inr ()"
proof -
  have links: "\<forall>l \<in> set p. l < net_link_count net" by (rule candidate_links_valid[OF p])
  have known: "link_index net (lid net l) = Some l" if "l \<in> set p" for l
    using that links link_known[OF net(1)] by simp
  have p': "legal_route net b origin None p" "p \<noteq> []" "route_end net origin p = dest"
    using p by (simp_all add: candidate_route_def simple_route_def)
  have "dst_node (net_links net ! last p) = dest"
    using p'(2,3) by (metis append_butlast_last_id route_end_simps(2))
  moreover have "pairs_legal (turn_pair_index net) (map (lid net) p)"
    using legal_route_pairs[OF net p'(1)] by simp
  ultimately show ?thesis using p'(2) known by (auto simp: authority_pairs last_map)
qed

section \<open>Candidate sets that serve a pair of nodes\<close>

definition serves :: "road_network \<Rightarrow> int \<Rightarrow> int \<Rightarrow> candidate_set \<Rightarrow> bool" where
  "serves net a b s \<longleftrightarrow> (\<exists>m P. candidate_meta s = Some m \<and> meta_origin m = a \<and> meta_destination m = b \<and>
     candidate_paths s = map (map (lid net)) P \<and> length (candidate_ids s) = length P \<and> length (path_costs m) = length P \<and>
     (\<forall>p \<in> set P. \<exists>blocked hops. candidate_route net blocked a b None hops p))"

definition sets_ok :: "road_network \<Rightarrow> (int \<times> int \<rightharpoonup> candidate_set) \<Rightarrow> bool" where
  "sets_ok net sets \<longleftrightarrow> (\<forall>od s. sets od = Some s \<longrightarrow> od_key s = od \<and> (\<exists>a b. serves net a b s))"

lemma built_serves: "candidates_of net ls a b None hops P s \<Longrightarrow> serves net a b s"
  unfolding candidates_of_def serves_def by (fastforce intro!: exI[of _ P])

lemma serves_selection:
  assumes net: "wf_network net" "turns_complete net" and s: "serves net a b s"
  obtains sel where "select_candidate_route lg rust (Some s) gamma ''baseline'' = Inr sel"
    "\<forall>c. sel = Some c \<longrightarrow> validate_route_path_authority net (turn_pair_index net) (chosen_path c) b = Inr ()"
proof -
  obtain m P where m: "candidate_meta s = Some m" "candidate_paths s = map (map (lid net)) P"
    "length (candidate_ids s) = length P" "length (path_costs m) = length P"
    "\<forall>p \<in> set P. \<exists>blocked hops. candidate_route net blocked a b None hops p" using s by (auto simp: serves_def)
  obtain sel where sel: "select_candidate_route lg rust (Some s) gamma ''baseline'' = Inr sel"
    "\<forall>c. sel = Some c \<longrightarrow> chosen_path c \<in> set (candidate_paths s) \<and> chosen_path c \<noteq> []"
    by (rule select_baseline_path[OF m(1), of lg rust gamma]) (use m(2-4) in simp_all)
  have "validate_route_path_authority net (turn_pair_index net) (chosen_path c) b = Inr ()" if "sel = Some c" for c
  proof -
    obtain p where p: "p \<in> set P" "chosen_path c = map (lid net) p" using sel(2) \<open>sel = Some c\<close> m(2) by auto
    then show ?thesis using m(5) candidate_accepted[OF net] by auto
  qed
  then show thesis using that sel(1) by blast
qed

text \<open>The refresh of one pair returns a set that serves it, and stores potentials of the current state only.\<close>

lemma refresh_od_serves:
  assumes net: "wf_network net" "plain_links net" "node_index net origin \<noteq> None" "node_index net dest \<noteq> None"
    and ls: "wf_link ls" "link_count ls = net_link_count net"
    and hit: "\<forall>ps. cached_states cache (''baseline'', key) = Some ps \<longrightarrow> potential_for net ls dest ps"
    and args: "1 \<le> max_candidates p" "1 \<le> max_hops p" "0 \<le> tick"
    and old: "\<forall>s. existing = Some s \<longrightarrow> (\<exists>a b. serves net a b s)"
  obtains s cache' where
    "refresh_od_route_candidate_set rust net ls existing od origin dest tick None incident force (Some p) ''baseline'' (Some key) cache
       = Some (Inr (s, cache'))"
    "od_key s = od" "serves net origin dest s"
    "\<forall>b k ps'. cached_states cache' (b, k) = Some ps' \<longrightarrow>
       cached_states cache (b, k) = Some ps' \<or> b = ''baseline'' \<and> k = key \<and> potential_for net ls dest ps'"
proof -
  have hit': "\<forall>k ps. Some key = Some k \<longrightarrow> cached_states cache (''baseline'', k) = Some ps \<longrightarrow> potential_for net ls dest ps"
    using hit by simp
  obtain cs cache' ps P where b:
    "build_route_candidate_set rust net ls od origin dest tick None (max_candidates p) (max_hops p) ''baseline'' (Some key) cache
       = Some (Inr (cs, cache'))"
    "potential_for net ls dest ps" "candidates_of net ls origin dest None (max_hops p) P cs" "od_key cs = od"
    "\<forall>b k ps'. cached_states cache' (b, k) = Some ps' \<longrightarrow>
       cached_states cache (b, k) = Some ps' \<or> b = ''baseline'' \<and> Some key = Some k \<and> ps' = ps"
    by (rule build_candidates[OF net ls hit' args, of rust od None])
  have stored: "\<forall>b k ps'. cached_states cache' (b, k) = Some ps' \<longrightarrow>
      cached_states cache (b, k) = Some ps' \<or> b = ''baseline'' \<and> k = key \<and> potential_for net ls dest ps'"
    using b(2,5) by auto
  let ?kept = "matching_candidates existing od origin dest"
  show thesis
  proof (cases "\<exists>s. ?kept = Some s \<and> \<not> should_refresh_route_candidate_set ?kept tick incident force (Some p)")
    case True
    then obtain s where s: "?kept = Some s" "\<not> should_refresh_route_candidate_set (Some s) tick incident force (Some p)" by auto
    then have m: "existing = Some s" "od_key s = od" "\<forall>m. candidate_meta s = Some m \<longrightarrow> meta_origin m = origin \<and> meta_destination m = dest"
      by (auto simp: matching_candidates_def split: option.splits if_splits)
    obtain a b where "serves net a b s" using old m(1) by blast
    moreover from this have "a = origin" "b = dest" using m(3) by (auto simp: serves_def)
    ultimately have "serves net origin dest s" by simp
    moreover have "refresh_od_route_candidate_set rust net ls existing od origin dest tick None incident force (Some p) ''baseline'' (Some key) cache =
        Some (Inr (s, cache))" using s by (simp add: refresh_od_route_candidate_set_def Let_def)
    ultimately show ?thesis using that m(2) by blast
  next
    case False
    then have "refresh_od_route_candidate_set rust net ls existing od origin dest tick None incident force (Some p) ''baseline'' (Some key) cache =
        Some (Inr (cs, cache'))" using b(1) by (auto simp: refresh_od_route_candidate_set_def Let_def split: option.split)
    then show ?thesis using that b(4) built_serves[OF b(3)] stored by blast
  qed
qed

section \<open>The refresh of a tick always returns\<close>

definition pois_known :: "sim_env \<Rightarrow> bool" where
  "pois_known e \<longleftrightarrow> (\<forall>i p. se_pois e i = Some p \<longrightarrow> node_index (se_net e) (poi_node p) \<noteq> None)"

definition routing_ok :: "sim_env \<Rightarrow> route_setup \<Rightarrow> bool" where
  "routing_ok e rs \<longleftrightarrow> wf_network (se_net e) \<and> plain_links (se_net e) \<and> turns_complete (se_net e) \<and> pois_known e \<and>
     se_routing_backend e = ''baseline'' \<and> 1 \<le> se_refresh_interval e \<and> 1 \<le> rs_max_candidates rs \<and> 1 \<le> rs_max_hops rs"

lemma trip_nodes_known:
  assumes "pois_known e" "trip_od_nodes (se_pois e) t = Some (od, a, b)"
  shows "node_index (se_net e) a \<noteq> None" "node_index (se_net e) b \<noteq> None"
  using assms by (auto simp: pois_known_def trip_od_nodes_def split: option.splits)

lemma trip_nodes_of_key:
  assumes "trip_od_nodes pois t = Some (od, a, b)" "trip_od_nodes pois t' = Some (od, a', b')"
  shows "a' = a" "b' = b"
  using assms by (auto simp: trip_od_nodes_def split: option.splits)

text \<open>Potentials stored under a signature are those of the current state.\<close>

definition potentials_of :: "sim_env \<Rightarrow> route_setup \<Rightarrow> sim_state \<Rightarrow> state_signature \<Rightarrow> potential_key potential_cache \<Rightarrow> bool" where
  "potentials_of e rs w sig cache \<longleftrightarrow> (\<forall>b k ps. cached_states cache (b, k) = Some ps \<longrightarrow>
     b = ''baseline'' \<and> (\<exists>dest. k = route_potential_cache_key rs sig dest \<and> potential_for (se_net e) (w_links w) dest ps))"

lemma potentials_hit:
  assumes "potentials_of e rs w sig cache" "cached_states cache (''baseline'', route_potential_cache_key rs sig dest) = Some ps"
  shows "potential_for (se_net e) (w_links w) dest ps"
proof -
  obtain dest' where d: "route_potential_cache_key rs sig dest = route_potential_cache_key rs sig dest'"
    "potential_for (se_net e) (w_links w) dest' ps" using assms unfolding potentials_of_def by blast
  then show ?thesis by (simp add: route_potential_cache_key_def)
qed

definition trip_served :: "sim_env \<Rightarrow> (int \<times> int \<rightharpoonup> candidate_set) \<Rightarrow> trip_request \<Rightarrow> bool" where
  "trip_served e sets t \<longleftrightarrow> (\<forall>od a b. trip_od_nodes (se_pois e) t = Some (od, a, b) \<longrightarrow>
     (\<exists>s. sets od = Some s \<and> serves (se_net e) a b s))"

lemma trip_served_upd:
  assumes "trip_served e sets t'" "trip_od_nodes (se_pois e) t = Some (od, a, b)" "serves (se_net e) a b s"
  shows "trip_served e (sets(od \<mapsto> s)) t'"
  using assms trip_nodes_of_key[OF assms(2), of t'] by (auto simp: trip_served_def)

lemma refresh_trips_total:
  assumes env: "routing_ok e rs" and w: "wf_link (w_links w)" "link_count (w_links w) = net_link_count (se_net e)" "0 \<le> w_tick w"
    and p: "1 \<le> max_candidates p" "1 \<le> max_hops p"
    and inv: "sets_ok (se_net e) sets" "potentials_of e rs w sig cache"
    and seen: "\<forall>t od a b. trip_od_nodes (se_pois e) t = Some (od, a, b) \<and> od \<in> D \<longrightarrow> trip_served e sets t"
  obtains sets' cache' where "refresh_trips e rs w force p sig ts D (sets, cache) = Some (Inr (sets', cache'))"
    "sets_ok (se_net e) sets'" "potentials_of e rs w sig cache'" "\<forall>t \<in> set ts. trip_served e sets' t"
    "\<forall>t. trip_served e sets t \<longrightarrow> trip_served e sets' t"
  using inv seen
proof (induction ts arbitrary: D sets cache thesis)
  case (Cons t ts)
  show ?case
  proof (cases "trip_od_nodes (se_pois e) t")
    case None
    obtain sets' cache' where r: "refresh_trips e rs w force p sig ts D (sets, cache) = Some (Inr (sets', cache'))"
      "sets_ok (se_net e) sets'" "potentials_of e rs w sig cache'" "\<forall>t \<in> set ts. trip_served e sets' t"
      "\<forall>t. trip_served e sets t \<longrightarrow> trip_served e sets' t"
      by (rule Cons.IH[OF _ Cons.prems(2-4)])
    show ?thesis by (rule Cons.prems(1)[of sets' cache']) (use r None in \<open>simp_all add: trip_served_def\<close>)
  next
    case (Some x)
    obtain od a b where x: "trip_od_nodes (se_pois e) t = Some (od, a, b)" using Some by (cases x) auto
    show ?thesis
    proof (cases "od \<in> D")
      case True
      obtain sets' cache' where r: "refresh_trips e rs w force p sig ts D (sets, cache) = Some (Inr (sets', cache'))"
        "sets_ok (se_net e) sets'" "potentials_of e rs w sig cache'" "\<forall>t \<in> set ts. trip_served e sets' t"
        "\<forall>t. trip_served e sets t \<longrightarrow> trip_served e sets' t"
        by (rule Cons.IH[OF _ Cons.prems(2-4)])
      have "trip_served e sets' t" using r(5) Cons.prems(4) x True by blast
      then show ?thesis by (intro Cons.prems(1)[of sets' cache']) (use r x True in simp_all)
    next
      case False
      have net: "wf_network (se_net e)" "plain_links (se_net e)" "se_routing_backend e = ''baseline''" "pois_known e"
        using env by (simp_all add: routing_ok_def)
      let ?key = "route_potential_cache_key rs sig b"
      have hit: "\<forall>ps. cached_states cache (''baseline'', ?key) = Some ps \<longrightarrow> potential_for (se_net e) (w_links w) b ps"
        using potentials_hit[OF Cons.prems(3)] by blast
      have old: "\<forall>s. sets od = Some s \<longrightarrow> (\<exists>a b. serves (se_net e) a b s)" using Cons.prems(2) unfolding sets_ok_def by blast
      obtain s cache1 where s: "refresh_od_route_candidate_set (rs_rust rs) (se_net e) (w_links w) (sets od) od a b (w_tick w) None
          (active_events_of w \<noteq> []) force (Some p) ''baseline'' (Some ?key) cache = Some (Inr (s, cache1))"
        "od_key s = od" "serves (se_net e) a b s"
        "\<forall>b' k ps'. cached_states cache1 (b', k) = Some ps' \<longrightarrow>
           cached_states cache (b', k) = Some ps' \<or> b' = ''baseline'' \<and> k = ?key \<and> potential_for (se_net e) (w_links w) b ps'"
        by (rule refresh_od_serves[OF net(1,2) trip_nodes_known[OF net(4) x] w(1,2) hit p w(3) old])
      have sets1: "sets_ok (se_net e) (sets(od \<mapsto> s))" using Cons.prems(2) s(2,3) by (auto simp: sets_ok_def)
      have pots1: "potentials_of e rs w sig cache1" using Cons.prems(3) s(4) unfolding potentials_of_def by meson
      have kept: "trip_served e (sets(od \<mapsto> s)) t'" if "trip_served e sets t'" for t' by (rule trip_served_upd[OF that x s(3)])
      have now: "trip_served e (sets(od \<mapsto> s)) t'" if "trip_od_nodes (se_pois e) t' = Some (od, a', b')" for t' a' b'
        using trip_nodes_of_key[OF x that] that s(3) by (simp add: trip_served_def)
      have done1: "\<forall>t od' a b. trip_od_nodes (se_pois e) t = Some (od', a, b) \<and> od' \<in> insert od D \<longrightarrow> trip_served e (sets(od \<mapsto> s)) t"
        using Cons.prems(4) kept now by (metis insert_iff)
      obtain sets' cache' where r: "refresh_trips e rs w force p sig ts (insert od D) (sets(od \<mapsto> s), cache1) = Some (Inr (sets', cache'))"
        "sets_ok (se_net e) sets'" "potentials_of e rs w sig cache'" "\<forall>t \<in> set ts. trip_served e sets' t"
        "\<forall>t. trip_served e (sets(od \<mapsto> s)) t \<longrightarrow> trip_served e sets' t"
        by (rule Cons.IH[OF _ sets1 pots1 done1])
      have "refresh_trips e rs w force p sig (t # ts) D (sets, cache) = Some (Inr (sets', cache'))"
        using x False s(1) r(1) net(3) by simp
      then show ?thesis by (intro Cons.prems(1)[of sets' cache']) (use r kept now[OF x] in simp_all)
    qed
  qed
qed simp

text \<open>A cache is fit for a state when its sets serve pairs of nodes and its potentials are older than the state: the
  flow generation grows in every executed tick, and the refresh of the tick stores under the generation it found.\<close>

definition key_generation :: "potential_key \<Rightarrow> int" where
  "key_generation k = (case k of ((_, _, _, flow, _), _) \<Rightarrow> flow)"

definition route_cache_ok :: "sim_env \<Rightarrow> sim_state \<Rightarrow> route_cache \<Rightarrow> bool" where
  "route_cache_ok e w rc \<longleftrightarrow> sets_ok (se_net e) (rc_sets rc) \<and>
     (\<exists>flow. metadata_int (link_metadata (w_links w)) ''runtime_flow_generation'' = Inr flow \<and>
        (\<forall>b k. cached_states (rc_potentials rc) (b, k) \<noteq> None \<longrightarrow> key_generation k < flow)) \<and>
     (\<exists>n. metadata_int (link_metadata (w_links w)) ''runtime_incident_generation'' = Inr n)"

definition links_fit :: "sim_env \<Rightarrow> sim_state \<Rightarrow> bool" where
  "links_fit e w \<longleftrightarrow> wf_link (w_links w) \<and> link_count (w_links w) = net_link_count (se_net e) \<and> 0 \<le> w_tick w"

lemma refresh_total:
  assumes env: "routing_ok e rs" and w: "links_fit e w" and rc: "route_cache_ok e w rc"
  obtains rc' flow where "refresh_runtime_route_candidates e rs w rc = Some (Inr rc')" "sets_ok (se_net e) (rc_sets rc')"
    "\<forall>t \<in> set (route_relevant_trips (w_ids w) (w_trips w)). trip_served e (rc_sets rc') t"
    "metadata_int (link_metadata (w_links w)) ''runtime_flow_generation'' = Inr flow"
    "\<forall>b k. cached_states (rc_potentials rc') (b, k) \<noteq> None \<longrightarrow> key_generation k = flow"
proof -
  obtain flow n where g: "metadata_int (link_metadata (w_links w)) ''runtime_flow_generation'' = Inr flow"
    "metadata_int (link_metadata (w_links w)) ''runtime_incident_generation'' = Inr n"
    "\<forall>b k. cached_states (rc_potentials rc) (b, k) \<noteq> None \<longrightarrow> key_generation k < flow"
    using rc unfolding route_cache_ok_def by blast
  define sig where "sig = (rs_geometry rs, net_node_count (se_net e), net_link_count (se_net e), flow, n)"
  have sig: "state_cache_signature e rs w = Inr sig" by (simp add: state_cache_signature_def g sig_def)
  let ?cache = "prune_potential_cache e rs sig (rc_potentials rc)"
  have gen: "key_generation (route_potential_cache_key rs sig d) = flow" for d
    by (simp add: key_generation_def route_potential_cache_key_def sig_def)
  have empty: "cached_states ?cache key = None" for key
  proof (rule ccontr)
    assume some: "cached_states ?cache key \<noteq> None"
    then have cur: "current_key e rs sig key" "cached_states (rc_potentials rc) key \<noteq> None"
      by (auto simp: prune_potential_cache_def split: if_splits)
    obtain b sg d h k where key: "key = (b, sg, d, h, k)" by (cases key) auto
    have "key_generation (sg, d, h, k) = flow" using cur(1) by (simp add: current_key_def key key_generation_def sig_def)
    moreover have "key_generation (sg, d, h, k) < flow" using g(3) cur(2) unfolding key by blast
    ultimately show False by simp
  qed
  have backend: "validate_routing_backend (se_routing_backend e) = Inr ()"
    using env by (simp add: routing_ok_def validate_routing_backend_def check_eval)
  show thesis
  proof (cases "route_relevant_trips (w_ids w) (w_trips w) = []")
    case True
    have "refresh_runtime_route_candidates e rs w rc = Some (Inr (rc\<lparr>rc_potentials := ?cache, rc_generation := rc_generation rc + 1\<rparr>))"
      using True backend sig by (simp add: refresh_runtime_route_candidates_def Let_def)
    then show ?thesis using that g(1) True empty rc by (simp add: route_cache_ok_def)
  next
    case False
    define p where "p = \<lparr>refresh_interval_ticks = se_refresh_interval e, force_refresh_on_incident = True,
      max_candidates = rs_max_candidates rs, max_hops = rs_max_hops rs\<rparr>"
    have p: "make_refresh_policy p = Inr p" "1 \<le> max_candidates p" "1 \<le> max_hops p"
      using env by (simp_all add: p_def make_refresh_policy_def routing_ok_def check_eval)
    have sets: "sets_ok (se_net e) (rc_sets rc)" using rc by (simp add: route_cache_ok_def)
    have pots: "potentials_of e rs w sig ?cache" by (simp add: potentials_of_def empty)
    have wl: "wf_link (w_links w)" "link_count (w_links w) = net_link_count (se_net e)" "0 \<le> w_tick w"
      using w by (simp_all add: links_fit_def)
    obtain sets' cache' where r: "refresh_trips e rs w (w_incident_tick w = w_tick w) p sig
        (route_relevant_trips (w_ids w) (w_trips w)) {} (rc_sets rc, ?cache) = Some (Inr (sets', cache'))"
      "sets_ok (se_net e) sets'" "potentials_of e rs w sig cache'"
      "\<forall>t \<in> set (route_relevant_trips (w_ids w) (w_trips w)). trip_served e sets' t"
      by (rule refresh_trips_total[OF env wl p(2,3) sets pots, where D = "{}"]) auto
    have "refresh_runtime_route_candidates e rs w rc =
        Some (Inr \<lparr>rc_sets = sets', rc_potentials = cache', rc_generation = rc_generation rc + 1\<rparr>)"
      using False backend sig p(1) r(1) by (simp add: refresh_runtime_route_candidates_def Let_def p_def[symmetric])
    moreover have "\<forall>b k. cached_states cache' (b, k) \<noteq> None \<longrightarrow> key_generation k = flow"
      using r(3) gen unfolding potentials_of_def by fastforce
    ultimately show ?thesis using that r(2,4) g(1) by simp
  qed
qed

section \<open>Tails\<close>

lemma tail_total:
  assumes env: "routing_ok e rs" and w: "links_fit e w" and rc: "route_cache_ok e w rc"
  obtains sel cache' where "build_reroute_tail_selection e rs w fresh_potentials cur dest = Some (Inr (sel, cache'))"
    "\<forall>c. sel = Some c \<longrightarrow> (\<exists>p i blocked hops. chosen_path c = map (lid (se_net e)) p \<and> link_index (se_net e) cur = Some i \<and>
       candidate_route (se_net e) blocked (dst_node (net_links (se_net e) ! i)) dest (Some cur) hops p)"
proof (cases "link_index (se_net e) cur = None \<or> node_index (se_net e) dest = None \<or>
    dst_node (net_links (se_net e) ! the (link_index (se_net e) cur)) = dest")
  case True
  then have "build_reroute_tail_selection e rs w fresh_potentials cur dest = Some (Inr (None, fresh_potentials))"
    by (auto simp: build_reroute_tail_selection_def Let_def split: option.split)
  then show ?thesis using that by blast
next
  case False
  then obtain i where i: "link_index (se_net e) cur = Some i" "node_index (se_net e) dest \<noteq> None"
    "dst_node (net_links (se_net e) ! i) \<noteq> dest" by auto
  let ?net = "se_net e" and ?from = "dst_node (net_links (se_net e) ! i)"
  have net: "wf_network ?net" "plain_links ?net" "se_routing_backend e = ''baseline''" using env by (simp_all add: routing_ok_def)
  have "i < net_link_count ?net" using i(1) link_known[OF net(1)] by simp
  then have from_known: "node_index ?net ?from \<noteq> None"
    using link_nodes(2)[OF net(1)] by simp
  obtain flow n where g: "metadata_int (link_metadata (w_links w)) ''runtime_flow_generation'' = Inr flow"
    "metadata_int (link_metadata (w_links w)) ''runtime_incident_generation'' = Inr n"
    using rc unfolding route_cache_ok_def by blast
  then obtain sig where sig: "state_cache_signature e rs w = Inr sig" by (simp add: state_cache_signature_def)
  have wl: "wf_link (w_links w)" "link_count (w_links w) = net_link_count ?net" "0 \<le> w_tick w"
    using w by (simp_all add: links_fit_def)
  have hit: "\<forall>k ps. Some (route_potential_cache_key rs sig dest) = Some k \<longrightarrow> cached_states fresh_potentials (''baseline'', k) = Some ps \<longrightarrow>
      potential_for ?net (w_links w) dest ps" by (simp add: fresh_potentials_def)
  have one: "1 \<le> max 1 (rs_max_candidates rs)" "1 \<le> max 1 (rs_max_hops rs)" by simp_all
  obtain s cache' P where s: "build_route_candidate_set (rs_rust rs) ?net (w_links w) (?from, dest) ?from dest (w_tick w) (Some cur)
      (max 1 (rs_max_candidates rs)) (max 1 (rs_max_hops rs)) ''baseline'' (Some (route_potential_cache_key rs sig dest)) fresh_potentials
      = Some (Inr (s, cache'))" "candidates_of ?net (w_links w) ?from dest (Some cur) (max 1 (rs_max_hops rs)) P s"
    by (rule build_candidates[OF net(1,2) from_known i(2) wl(1,2) hit one wl(3), of "rs_rust rs" "(?from, dest)" "Some cur"])
  obtain m where m: "candidate_meta s = Some m" "length (path_costs m) = length (candidate_paths s)"
    "length (candidate_ids s) = length (candidate_paths s)" "candidate_paths s = map (map (lid ?net)) P"
    using s(2) by (auto simp: candidates_of_def)
  obtain sel where sel: "select_candidate_route (rs_log rs) (rs_rust rs) (Some s) (rs_gamma rs) ''baseline'' = Inr sel"
    "\<forall>c. sel = Some c \<longrightarrow> chosen_path c \<in> set (candidate_paths s) \<and> chosen_path c \<noteq> []"
    by (rule select_baseline_path[OF m(1-3)])
  have "build_reroute_tail_selection e rs w fresh_potentials cur dest = Some (Inr (sel, cache'))"
    using i sig s(1) sel(1) net(3) by (auto simp: build_reroute_tail_selection_def Let_def)
  moreover have "\<forall>c. sel = Some c \<longrightarrow> (\<exists>p i blocked hops. chosen_path c = map (lid ?net) p \<and> link_index ?net cur = Some i \<and>
       candidate_route ?net blocked (dst_node (net_links ?net ! i)) dest (Some cur) hops p)"
    using sel(2) s(2) i(1) unfolding m(4) candidates_of_def by fastforce
  ultimately show ?thesis by (rule that)
qed

section \<open>The selected route is a cheapest one\<close>

lemma route_cost_float: "is_f64 (route_cost costs p)"
proof (cases p rule: rev_cases)
  case Nil
  then show ?thesis by (simp add: is_f64_def)
next
  case (snoc q l)
  then show ?thesis by simp
qed



end
