(* ===== verification/TickPreparation.thy ===== *)
theory TickPreparation
  imports RouteService
begin

text \<open>
  The preparation of a tick never raises (src/src/metroflow/sim/step.py, \<^verbatim>\<open>_prepare_runtime_routing_state\<close>):
  on a ready state with the baseline backend the refresh returns, every trip and every agent can be
  offered a route, the offered routes pass the authority check, admission and rerouting return, the
  queue increments are exact and the demand is rebuilt.
\<close>

section \<open>Tails continue the route of an agent\<close>

lemma tail_accepted:
  assumes net: "wf_network net" "turns_complete net"
    and path: "validate_route_path_authority net (turn_pair_index net) path dest0 = Inr ()" "on_route path ptr cur"
    and i: "link_index net cur = Some i"
    and p: "candidate_route net blocked (dst_node (net_links net ! i)) dest (Some cur) hops p"
  shows "validate_route_path_authority net (turn_pair_index net) (route_prefix path ptr cur @ map (lid net) p) dest = Inr ()"
proof -
  have r: "path \<noteq> []" "0 \<le> ptr" "ptr < int (length path)" "nat ptr < length path" "path ! nat ptr = cur" using path(2) by (auto simp: on_route_def)
  let ?pre = "take (nat ptr + 1) path"
  have pre: "route_prefix path ptr cur = ?pre" using r by (simp add: route_prefix_def)
  have last: "?pre \<noteq> []" "last ?pre = cur" using r by (simp_all add: last_conv_nth)
  have links: "\<forall>l \<in> set p. l < net_link_count net" by (rule candidate_links_valid[OF p])
  have p': "legal_route net blocked (dst_node (net_links net ! i)) (Some cur) p" "p \<noteq> []"
    "route_end net (dst_node (net_links net ! i)) p = dest"
    using p by (simp_all add: candidate_route_def simple_route_def)
  have cur: "i < net_link_count net" "cur = lid net i" using i link_known[OF net(1)] by auto
  have tail: "pairs_legal (turn_pair_index net) (cur # map (lid net) p)"
    using legal_route_pairs[OF net p'(1)] cur by auto
  have "path = ?pre @ drop (nat ptr + 1) path" by simp
  then have "pairs_legal (turn_pair_index net) ?pre"
    using path(1) unfolding authority_pairs by (metis pairs_legal_append)
  moreover have "pairs_legal (turn_pair_index net) (map (lid net) p)" "turn_pair_index net (cur, lid net (hd p)) \<noteq> None"
    using tail p'(2) by (cases p; simp)+
  ultimately have pairs: "pairs_legal (turn_pair_index net) (?pre @ map (lid net) p)"
    using last p'(2) by (simp add: pairs_legal_append hd_map)
  have "dst_node (net_links net ! last p) = dest" using p'(2,3) by (metis append_butlast_last_id route_end_simps(2))
  moreover have known: "link_index net (lid net l) = Some l" if "l \<in> set p" for l
    using that links link_known[OF net(1)] by simp
  moreover have "\<forall>l \<in> set ?pre. link_index net l \<noteq> None" using path(1) by (auto simp: authority_pairs dest: in_set_takeD)
  ultimately show ?thesis using p'(2) pairs unfolding pre authority_pairs by (auto simp: last_map)
qed

section \<open>The reroute phase returns\<close>

lemma foldE_total:
  assumes "P s" and "\<And>x s. x \<in> set xs \<Longrightarrow> P s \<Longrightarrow> \<exists>s'. f x s = Inr s' \<and> P s'"
  shows "\<exists>t. foldE f xs s = Inr t \<and> P t"
  using assms
proof (induction xs arbitrary: s)
  case (Cons x xs)
  obtain s' where s': "f x s = Inr s'" "P s'" using Cons.prems(2)[of x s] Cons.prems(1) by auto
  have "\<exists>t. foldE f xs s' = Inr t \<and> P t" by (rule Cons.IH[OF s'(2)]) (use Cons.prems(2) in simp)
  then show ?case using s'(1) by simp
qed simp

lemma make_decision_total: "0 \<le> cool \<Longrightarrow> \<exists>d. make_reroute_decision go reason imp score cool = Inr d"
  by (simp add: make_reroute_decision_def check_eval)

lemma decide_baseline_total: "\<exists>d. decide_reroute_vs_persist kn ''baseline'' p x y default_reroute_args = Inr d"
proof -
  have core: "reroute_decision_core kn ''baseline'' p imp = Inr (reroute_decision_baseline p imp)" for imp
    by (simp add: reroute_decision_core_def check_eval)
  obtain willing score where b: "reroute_decision_baseline p (improvement_of (finite_part x) (finite_part y)) = (willing, score)"
    by fastforce
  have args: "reroute_cooldown default_reroute_args = 0" "incident_active default_reroute_args"
    "0 \<le> cooldown_after_reroute default_reroute_args" by (simp_all add: default_reroute_args_def)
  show ?thesis
    unfolding decide_reroute_vs_persist_def Let_def core bindE_simps b prod.case using args
    by (simp add: check_eval make_decision_total[unfolded check_eval])
qed

text \<open>A tail choice that continues every legal route from its link to its destination.\<close>

definition tails_continue :: "reroute_env \<Rightarrow> bool" where
  "tails_continue e \<longleftrightarrow> (\<forall>cur dest sel. re_tails e cur dest = Some sel \<longrightarrow>
     (\<exists>p i blocked hops. selected_path sel = map (lid (re_net e)) p \<and> link_index (re_net e) cur = Some i \<and>
        candidate_route (re_net e) blocked (dst_node (net_links (re_net e) ! i)) dest (Some cur) hops p))"

lemma reroute_slot_total:
  assumes net: "wf_network (re_net e)" "turns_complete (re_net e)" "re_backend e = ''baseline''"
    and tails: "tails_ok e" "tails_continue e"
    and inv: "reroute_inv e (turn_pair_index (re_net e)) p st" "k < length (alive_mask p)"
  shows "\<exists>st'. reroute_slot e (turn_pair_index (re_net e)) tr p k st = Inr st'"
proof (cases "alive_mask p ! k \<and> int k \<notin> re_skip e \<and> \<not> 0 < rr_cooldown st ! k")
  case False
  then show ?thesis by (auto simp: reroute_slot_def)
next
  case True
  let ?lookup = "turn_pair_index (re_net e)" and ?q = "reroute_pool p st"
  let ?cur = "current_link_id p ! k" and ?dest = "dest_node_id p ! k" and ?ptr = "remaining_route_ptr p ! k"
  have "slot_routed (re_net e) ?lookup ?q k"
    using inv True by (simp add: reroute_inv_def agents_routed_def active_def)
  then obtain path where route: "read_slot_route ?q k = Inr path" "on_route path ?ptr ?cur"
    "validate_route_path_authority (re_net e) ?lookup path ?dest = Inr ()"
    by (auto simp: slot_routed_def)
  then have "path \<noteq> []" by (simp add: on_route_def)
  obtain d where d: "plugin_memory ?q (int k) = Some (DictEntry d)" "d ''route_path'' = Some (MemPath path)"
    by (rule slot_route_memory[OF route(1) \<open>path \<noteq> []\<close>])
  have path: "route_path_of (slot_plugin_memory (rr_memory st) k) = Inr path"
    using d by (simp add: slot_plugin_memory_def route_path_of_def)
  have agent: "\<exists>st'. reroute_agent e ?lookup tr p k path sel st = Inr st'" if sel: "re_tails e ?cur ?dest = Some sel" for sel
  proof -
    obtain q i blocked hops where q: "selected_path sel = map (lid (re_net e)) q" "link_index (re_net e) ?cur = Some i"
      "candidate_route (re_net e) blocked (dst_node (net_links (re_net e) ! i)) ?dest (Some ?cur) hops q"
      using tails(2) sel unfolding tails_continue_def by blast
    have "validate_route_path_authority (re_net e) ?lookup (route_prefix path ?ptr ?cur @ selected_path sel) ?dest = Inr ()"
      unfolding q(1) by (rule tail_accepted[OF net(1,2) route(3,2) q(2,3)])
    moreover obtain d where "decide_reroute_vs_persist (re_kernel e) (re_backend e)
          (route_choice_profile_for_slot (re_profiles e) (behavior_profile_id p ! k))
          (path_link_cost (re_net e) (re_links e) 0 (remaining_route_tail path ?ptr ?cur))
          (path_link_cost (re_net e) (re_links e) 0 (selected_path sel)) default_reroute_args = Inr d"
      unfolding net(3) using decide_baseline_total by blast
    ultimately show ?thesis by (simp add: reroute_agent_def Let_def)
  qed
  show ?thesis
  proof (cases "re_tails e ?cur ?dest")
    case None
    then show ?thesis using True path by (simp add: reroute_slot_def Let_def)
  next
    case (Some sel)
    obtain st' where "reroute_agent e ?lookup tr p k path sel st = Inr st'" using agent[OF Some] by blast
    then show ?thesis using True path Some by (simp add: reroute_slot_def Let_def)
  qed
qed

lemma reroute_policy_total:
  assumes net: "wf_network (re_net e)" "turns_complete (re_net e)" "re_backend e = ''baseline''"
    and tails: "tails_ok e" "tails_continue e"
    and p: "pool_ok p" "agents_routed (re_net e) (turn_pair_index (re_net e)) p {}"
      "runtime_turn_index_lookup (re_net e) ns = Inr (turn_pair_index (re_net e))"
  shows "\<exists>r. apply_runtime_reroute_policy e ns trigger p = Inr r"
proof -
  let ?lookup = "turn_pair_index (re_net e)"
  have "reroute_pool p (start_reroute p) = p" by (simp add: reroute_pool_def start_reroute_def)
  then have start: "reroute_inv e ?lookup p (start_reroute p)"
    using p(1,2) by (simp add: reroute_inv_def start_reroute_def)
  have step: "\<exists>st'. reroute_slot e ?lookup tr p k st = Inr st' \<and> reroute_inv e ?lookup p st'"
    if "k \<in> set [0..<length (alive_mask p)]" "reroute_inv e ?lookup p st" for tr k st
    using reroute_slot_total[OF net tails that(2), of k tr] reroute_slot_inv[OF that(2) _ tails(1), of k tr] that(1) by auto
  show ?thesis
  proof (cases trigger)
    case None
    then show ?thesis by (simp add: apply_runtime_reroute_policy_def)
  next
    case (Some tr)
    obtain st where st: "foldE (reroute_slot e ?lookup tr p) [0..<length (alive_mask p)] (start_reroute p) = Inr st"
      "reroute_inv e ?lookup p st"
      using foldE_total[where P = "reroute_inv e ?lookup p" and f = "reroute_slot e ?lookup tr p", OF start step] by blast
    have "replace_pool_reroute_state p (rr_cooldown st) (rr_memory st) = Inr (reroute_pool p st)"
      using pool_internal_ok[of "reroute_pool p st"] st(2)
      by (simp add: replace_pool_reroute_state_def reroute_inv_def flip: reroute_pool_def)
    then show ?thesis using st(1) p(3) Some by (simp add: apply_runtime_reroute_policy_def)
  qed
qed

section \<open>Admission returns\<close>

text \<open>What the routes picked for the open trips must satisfy: they pass the check, and the ids fit the int32 arrays.\<close>

definition picks_legal :: "road_network \<Rightarrow> turn_lookup \<Rightarrow> (int \<rightharpoonup> poi) \<Rightarrow> route_choice \<Rightarrow> demand_ids \<Rightarrow> trip_request list \<Rightarrow> bool" where
  "picks_legal net lookup pois pick ids ts \<longleftrightarrow> (\<forall>t \<in> set ts. \<forall>od a b sel.
     trip_request_id t \<notin> allocated_trips ids \<union> completed_trips ids \<union> failed_trips ids \<and>
     trip_od_nodes pois t = Some (od, a, b) \<and> pick od = Some sel \<longrightarrow>
       validate_route_path_authority net lookup (selected_path sel) b = Inr () \<and>
       fits32 (trip_citizen t) \<and> fits32 (trip_request_id t) \<and> fits32 (hd (selected_path sel)) \<and> fits32 b)"

lemma admit_selected_total:
  assumes "admission_inv net lookup p0 st" "0 < free_slot_count (ad_pool st)"
    "validate_route_path_authority net lookup (selected_path sel) dest = Inr ()"
    "fits32 (trip_citizen t)" "fits32 (trip_request_id t)" "fits32 (hd (selected_path sel))" "fits32 dest"
  shows "\<exists>st'. admit_selected False net lookup ls tick t dest sel st = Inr st'"
proof -
  let ?s = "\<lparr>slot_id = - 1, slot_alive = True, slot_citizen = trip_citizen t, slot_trip = trip_request_id t,
    slot_link = hd (selected_path sel), slot_progress = 0, slot_route_ptr = 0, slot_dest = dest, slot_profile = 0,
    slot_cooldown = 0, slot_memory = (Map.empty :: memory_dict)\<rparr>"
  have payload: "payload_ok ?s" by (simp add: payload_ok_def)
  have fits: "payload_fits ?s" using assms(4-7) by (simp add: payload_fits_def fits32_def)
  have spawn: "spawn_agent_slot (trip_citizen t) (trip_request_id t) (hd (selected_path sel)) dest 0 (Fin 0) 0 0 = Inr ?s"
    by (simp add: spawn_agent_slot_def make_agent_slot_def check_eval)
  have ok: "pool_ok (ad_pool st)" using assms(1) by (simp add: admission_inv_def Let_def admission_pool_ok)
  have "\<exists>p i. allocate_active_agent_slot (ad_pool st) ?s = Inr (p, i)"
    using allocate_iff[OF ok payload] assms(2) fits by auto
  then show ?thesis using assms(3) spawn
    by (auto simp: admit_selected_def Let_def source_link_admission_available_def)
qed

lemma admit_trips_total:
  assumes net: "wf_network net" "\<forall>od sel. pick od = Some sel \<longrightarrow> selection_ok sel"
    and inv: "admission_inv net lookup p0 st" "admission_books (allocated_trips ids) (completed_trips ids) (failed_trips ids) st"
    and legal: "picks_legal net lookup pois pick ids ts"
  shows "\<exists>st'. admit_trips False net lookup ls tick pois pick (completed_trips ids) ts st = Inr st'"
  using inv legal
proof (induction ts arbitrary: st)
  case (Cons t ts)
  let ?k = "trip_request_id t"
  let ?failed = "st\<lparr>ad_failed := insert ?k (ad_failed st), ad_reasons := (ad_reasons st)(?k \<mapsto> ''no_route_candidate''),
      ad_failed_count := ad_failed_count st + 1\<rparr>"
  have rest: "picks_legal net lookup pois pick ids ts" using Cons.prems(3) unfolding picks_legal_def by (meson list.set_intros(2))
  show ?case
  proof (cases "?k \<in> ad_allocated st \<or> ?k \<in> completed_trips ids \<or> ?k \<in> ad_failed st")
    case True
    then show ?thesis using Cons.IH[OF Cons.prems(1,2) rest] by (simp add: Let_def)
  next
    case fresh: False
    have fail: "admission_inv net lookup p0 ?failed"
        "admission_books (allocated_trips ids) (completed_trips ids) (failed_trips ids) ?failed"
      using Cons.prems(1,2) fresh books_fail[OF Cons.prems(2), of ?k ?failed]
      by (simp_all add: admission_inv_def admission_pool_def)
    note failed = Cons.IH[OF fail rest]
    show ?thesis
    proof (cases "free_slot_count (ad_pool st) \<le> 0")
      case True
      then show ?thesis using fresh by (simp add: Let_def)
    next
      case free: False
      show ?thesis
      proof (cases "trip_od_nodes pois t")
        case None
        then show ?thesis using failed fresh free by (simp add: Let_def)
      next
        case (Some odn)
        obtain od a b where odn: "odn = (od, a, b)" by (cases odn) auto
        show ?thesis
        proof (cases "pick od")
          case None
          then show ?thesis using failed fresh free Some odn by (simp add: Let_def)
        next
          case sel: (Some sel)
          have "?k \<notin> allocated_trips ids \<union> completed_trips ids \<union> failed_trips ids"
            using fresh Cons.prems(2) by (auto simp: admission_books_def)
          then have l: "validate_route_path_authority net lookup (selected_path sel) b = Inr ()"
            "fits32 (trip_citizen t)" "fits32 ?k" "fits32 (hd (selected_path sel))" "fits32 b"
            using Cons.prems(3) Some sel unfolding odn picks_legal_def by (metis list.set_intros(1))+
          have "0 < free_slot_count (ad_pool st)" using free by simp
          from admit_selected_total[OF Cons.prems(1) this l]
          obtain st1 where st1: "admit_selected False net lookup ls tick t b sel st = Inr st1" by blast
          have ok: "admission_inv net lookup p0 st1 \<and>
              admission_books (allocated_trips ids) (completed_trips ids) (failed_trips ids) st1"
          proof (rule admit_selected_ok[OF net(1) Cons.prems(1) _ _ st1 Cons.prems(2)])
            show "selection_ok sel" using net(2) sel by blast
          qed (use free fresh in auto)
          from Cons.IH[OF ok[THEN conjunct1] ok[THEN conjunct2] rest] show ?thesis
            using fresh free Some odn sel st1 by (simp add: Let_def)
        qed
      qed
    qed
  qed
qed simp

lemma allocate_activated_total:
  assumes net: "wf_network net" "\<forall>od sel. pick od = Some sel \<longrightarrow> selection_ok sel"
    and p: "runtime_turn_index_lookup net ns = Inr lookup" "pool_ok p" "agents_routed net lookup p {}"
    and legal: "picks_legal net lookup pois pick ids (activated_trip_requests trips)"
  shows "\<exists>r. allocate_activated_trips False net ls ns tick pois pick trips ids reasons p = Inr r"
proof -
  obtain st where st: "admit_trips False net lookup ls tick pois pick (completed_trips ids) (activated_trip_requests trips)
      (start_admission p ids reasons) = Inr st"
    using admit_trips_total[OF net start_admission_inv[OF p(2,3)] legal] by blast
  have "pool_ok (admission_pool st)"
    using admit_trips_ok[OF net st start_admission_inv[OF p(2,3)]] by (simp add: admission_inv_def Let_def)
  then have "\<exists>q. replace_pool_plugin_memory (ad_pool st) (ad_memory st) = Inr q"
    using pool_internal_ok[of "admission_pool st"] by (simp add: replace_pool_plugin_memory_def admission_pool_def)
  then show ?thesis using p(1) st by (auto simp: allocate_activated_trips_def)
qed

section \<open>The preparation returns\<close>

definition ids_fit :: "sim_env \<Rightarrow> sim_state \<Rightarrow> bool" where
  "ids_fit e w \<longleftrightarrow> (\<forall>l \<in> set (net_links (se_net e)). fits32 (link_id l)) \<and> (\<forall>v \<in> set (net_nodes (se_net e)). fits32 (node_id v)) \<and>
     (\<forall>t \<in> set (w_trips w). fits32 (trip_citizen t) \<and> fits32 (trip_request_id t))"

lemma route_pick_served:
  assumes env: "routing_ok e rs" and t: "trip_served e (rc_sets rc) t" "trip_od_nodes (se_pois e) t = Some (od, a, b)"
  shows "\<exists>x. chosen_for e rs (rc_sets rc od) = Inr x"
    "route_pick e rs rc od = Some sel \<Longrightarrow> validate_route_path_authority (se_net e) (turn_pair_index (se_net e)) (selected_path sel) b = Inr ()"
proof -
  have net: "wf_network (se_net e)" "turns_complete (se_net e)" "se_routing_backend e = ''baseline''"
    using env by (simp_all add: routing_ok_def)
  obtain s where s: "rc_sets rc od = Some s" "serves (se_net e) a b s" using t by (auto simp: trip_served_def)
  obtain x where x: "select_candidate_route (rs_log rs) (rs_rust rs) (Some s) (rs_gamma rs) ''baseline'' = Inr x"
    "\<forall>c. x = Some c \<longrightarrow> validate_route_path_authority (se_net e) (turn_pair_index (se_net e)) (chosen_path c) b = Inr ()"
    by (rule serves_selection[OF net(1,2) s(2)])
  then show "\<exists>x. chosen_for e rs (rc_sets rc od) = Inr x" by (simp add: chosen_for_def s(1) net(3))
  show "validate_route_path_authority (se_net e) (turn_pair_index (se_net e)) (selected_path sel) b = Inr ()"
    if "route_pick e rs rc od = Some sel"
    using that x by (auto simp: route_pick_def chosen_for_def s(1) net(3) selection_of_def)
qed

lemma relevant_trip: "t \<in> set (route_relevant_trips ids ts) \<longleftrightarrow> t \<in> set (activated_trip_requests ts) \<and>
    trip_request_id t \<notin> allocated_trips ids \<union> completed_trips ids \<union> failed_trips ids"
  by (auto simp: route_relevant_trips_def activated_trip_requests_def)

lemma routed_picks_legal:
  assumes env: "routing_ok e rs" and fit: "ids_fit e w"
    and served: "\<forall>t \<in> set (route_relevant_trips (w_ids w) (w_trips w)). trip_served e (rc_sets rc) t"
  shows "picks_legal (se_net e) (turn_pair_index (se_net e)) (se_pois e) (route_pick e rs rc) (w_ids w) (activated_trip_requests (w_trips w))"
  unfolding picks_legal_def
proof (intro ballI allI impI, elim conjE)
  fix t od a b sel
  assume t: "t \<in> set (activated_trip_requests (w_trips w))"
    "trip_request_id t \<notin> allocated_trips (w_ids w) \<union> completed_trips (w_ids w) \<union> failed_trips (w_ids w)"
    "trip_od_nodes (se_pois e) t = Some (od, a, b)" "route_pick e rs rc od = Some sel"
  let ?net = "se_net e"
  have net: "wf_network ?net" "pois_known e" using env by (simp_all add: routing_ok_def)
  have "trip_served e (rc_sets rc) t" using served t(1,2) by (simp add: relevant_trip)
  from route_pick_served(2)[OF env this t(3,4)]
  have v: "validate_route_path_authority ?net (turn_pair_index ?net) (selected_path sel) b = Inr ()" .
  then have "link_index ?net (hd (selected_path sel)) \<noteq> None" by (auto simp: authority_pairs)
  then obtain l where "l < net_link_count ?net" "lid ?net l = hd (selected_path sel)" using link_known[OF net(1)] by auto
  moreover from this have "net_links ?net ! l \<in> set (net_links ?net)" by (simp add: net_link_count_def)
  ultimately have h: "fits32 (hd (selected_path sel))" using fit unfolding ids_fit_def by metis
  obtain j where "node_index ?net b = Some j" using trip_nodes_known(2)[OF net(2) t(3)] by auto
  then have "j < net_node_count ?net \<and> node_id (net_nodes ?net ! j) = b" using index_known[OF net(1)] by simp
  moreover from this have "net_nodes ?net ! j \<in> set (net_nodes ?net)" by (simp add: net_node_count_def)
  ultimately have "fits32 b" using fit unfolding ids_fit_def by metis
  moreover have "t \<in> set (w_trips w)" using t(1) by (simp add: activated_trip_requests_def)
  ultimately show "validate_route_path_authority ?net (turn_pair_index ?net) (selected_path sel) b = Inr () \<and>
      fits32 (trip_citizen t) \<and> fits32 (trip_request_id t) \<and> fits32 (hd (selected_path sel)) \<and> fits32 b"
    using v h fit by (simp add: ids_fit_def)
qed

lemma routed_choices_computed:
  assumes env: "routing_ok e rs" and w: "links_fit e w" and rc: "route_cache_ok e w rc0"
    and served: "\<forall>t \<in> set (route_relevant_trips (w_ids w) (w_trips w)). trip_served e (rc_sets rc) t"
  shows "choices_computed e rs w rc"
  unfolding choices_computed_def
proof (intro conjI ballI allI impI)
  fix t od a b assume t: "t \<in> set (route_relevant_trips (w_ids w) (w_trips w))" "trip_od_nodes (se_pois e) t = Some (od, a, b)"
  obtain x where "chosen_for e rs (rc_sets rc od) = Inr x" using route_pick_served(1)[OF env _ t(2)] served t(1) by blast
  then show "case chosen_for e rs (rc_sets rc od) of Inr _ \<Rightarrow> True | Inl _ \<Rightarrow> False" by simp
next
  fix k
  obtain sel cache' where "build_reroute_tail_selection e rs w fresh_potentials (current_link_id (w_pool w) ! k) (dest_node_id (w_pool w) ! k)
      = Some (Inr (sel, cache'))" by (rule tail_total[OF env w rc])
  then show "case build_reroute_tail_selection e rs w fresh_potentials (current_link_id (w_pool w) ! k) (dest_node_id (w_pool w) ! k) of
      Some (Inr _) \<Rightarrow> True | _ \<Rightarrow> False" by simp
qed

lemma routed_tails_continue:
  assumes env: "routing_ok e rs" and w: "links_fit e w" and rc: "route_cache_ok e w rc0"
  shows "tails_continue (reroute_env_of e (routed_input e rs w rc c) w' skip)"
  unfolding tails_continue_def reroute_env_of_def routed_input_def
proof (simp, intro allI impI)
  fix cur dest sel assume sel: "route_tails e rs w cur dest = Some sel"
  obtain x cache' where x: "build_reroute_tail_selection e rs w fresh_potentials cur dest = Some (Inr (x, cache'))"
    "\<forall>c. x = Some c \<longrightarrow> (\<exists>p i blocked hops. chosen_path c = map (lid (se_net e)) p \<and> link_index (se_net e) cur = Some i \<and>
       candidate_route (se_net e) blocked (dst_node (net_links (se_net e) ! i)) dest (Some cur) hops p)"
    by (rule tail_total[OF env w rc])
  then obtain c where "x = Some c" "selected_path sel = chosen_path c" using sel by (auto simp: route_tails_def selection_of_def)
  then show "\<exists>p. selected_path sel = map (lid (se_net e)) p \<and> (\<exists>i. link_index (se_net e) cur = Some i \<and>
      (\<exists>blocked hops. candidate_route (se_net e) blocked (dst_node (net_links (se_net e) ! i)) dest (Some cur) hops p))"
    using x(2) by metis
qed

lemma agents_prepared_total:
  assumes env: "routing_ok e rs" "env_ok e" "\<not> se_spatial e" and w: "sim_ready e n w" "links_fit e w" "ids_fit e w"
    and lookup: "runtime_turn_index_lookup (se_net e) (w_nodes w) = Inr (turn_pair_index (se_net e))"
    and rc: "route_cache_ok e w rc0"
    and served: "\<forall>t \<in> set (route_relevant_trips (w_ids w) (w_trips w)). trip_served e (rc_sets rc) t"
  shows "\<exists>w' skip. prepare_runtime_active_agents e (routed_input e rs w rc c) w = Inr (w', skip)"
proof -
  let ?net = "se_net e" and ?c = "routed_input e rs w rc c" and ?lookup = "turn_pair_index (se_net e)"
  have net: "wf_network ?net" "turns_complete ?net" "se_routing_backend e = ''baseline''" using env(1) by (simp_all add: routing_ok_def)
  have rt: "runtime_ready ?net ?lookup (w_pool w) (w_links w) (w_nodes w)" and cap: "capacity (w_pool w) < 2 ^ 23"
    using w(1) lookup by (auto simp: sim_ready_def runtime_ready_def)
  have p: "pool_ok (w_pool w)" "agents_routed ?net ?lookup (w_pool w) {}" using rt by (simp_all add: runtime_ready_def)
  have picks: "\<forall>od sel. ti_pick ?c od = Some sel \<longrightarrow> selection_ok sel" using routed_input_ok(1)[of e rs w rc c] by (simp add: input_ok_def)
  have "ti_pick ?c = route_pick e rs rc" by (simp add: routed_input_def)
  then have legal: "picks_legal ?net ?lookup (se_pois e) (ti_pick ?c) (w_ids w) (activated_trip_requests (w_trips w))"
    using routed_picks_legal[OF env(1) w(3) served] by simp
  obtain q st where alloc: "allocate_activated_trips False ?net (w_links w) (w_nodes w) (w_tick w) (se_pois e) (ti_pick ?c)
      (w_trips w) (w_ids w) (w_reasons w) (w_pool w) = Inr (q, st)"
    using allocate_activated_total[OF net(1) picks lookup p legal] by fastforce
  obtain ls where ls: "apply_source_queue_increments ?net (w_links w) (ad_increments st) = Inr ls"
    "runtime_ready ?net ?lookup q ls (w_nodes w)"
    using admission_ready[OF net(1) rt cap picks alloc] by auto
  have q: "pool_ok q" "agents_routed ?net ?lookup q {}" using ls(2) by (simp_all add: runtime_ready_def)
  let ?re = "reroute_env_of e ?c w (ad_slots st)"
  have re: "re_net ?re = ?net" "re_backend ?re = ''baseline''" "tails_ok ?re"
    using net(3) routed_input_ok(1)[of e rs w rc c] by (simp_all add: reroute_env_of_def tails_ok_def input_ok_def)
  have "\<exists>r. apply_runtime_reroute_policy ?re (w_nodes w) (runtime_reroute_trigger (w_incident_tick w) (w_incident w)
      (active_events_of w \<noteq> []) (w_tick w) (se_refresh_interval e)) q = Inr r"
    using reroute_policy_total[of ?re q "w_nodes w", OF _ _ re(2,3) routed_tails_continue[OF env(1) w(2) rc]]
      net(1,2) q lookup by (simp add: re(1))
  then obtain q2 n1 n2 where "apply_runtime_reroute_policy ?re (w_nodes w) (runtime_reroute_trigger (w_incident_tick w) (w_incident w)
      (active_events_of w \<noteq> []) (w_tick w) (se_refresh_interval e)) q = Inr (q2, n1, n2)" by (metis prod_cases3)
  then show ?thesis using alloc ls(1) env(3) by (simp add: prepare_runtime_active_agents_def Let_def)
qed

text \<open>Routing never stops a tick.  On a ready state with the baseline backend, in the point-queue mode and with a
  route cache that is fit for the state, the refresh of the candidates returns; every trip and every agent can be
  offered a route; the phases that check, admit, reroute and rebuild the demand return without raising; and whenever
  the flow engine returns, the commit of its tokens returns too, in a state that is ready again.\<close>

lemma routed_tick_not_stopped:
  assumes env: "routing_ok e rs" "env_ok e" "\<not> se_spatial e"
    and w: "sim_ready e (Suc n) w" "0 \<le> w_tick w" "ids_fit e w"
    and lookup: "runtime_turn_index_lookup (se_net e) (w_nodes w) = Inr (turn_pair_index (se_net e))"
    and rc: "route_cache_ok e w rc"
  shows "\<exists>rc' w' skip. refresh_runtime_route_candidates e rs w rc = Some (Inr rc') \<and> choices_computed e rs w rc' \<and>
    prepare_runtime_routing_state e (routed_input e rs w rc' c) w = Inr (w', skip) \<and>
    (\<forall>w1. advance_flow_state e w' = Inr w1 \<longrightarrow> (\<exists>w2. commit_runtime_routing_state e skip w1 = Inr w2 \<and> sim_ready e n w2))"
proof -
  let ?net = "se_net e"
  have net: "wf_network ?net" "turns_indexed ?net" using env by (simp_all add: routing_ok_def env_ok_def)
  have fit: "links_fit e w"
    using w(1,2) by (auto simp: links_fit_def sim_ready_def runtime_ready_def tick_ready_def lockstep_def)
  obtain rc' flow where r: "refresh_runtime_route_candidates e rs w rc = Some (Inr rc')"
    "\<forall>t \<in> set (route_relevant_trips (w_ids w) (w_trips w)). trip_served e (rc_sets rc') t"
    by (rule refresh_total[OF env(1) fit rc])
  obtain w' skip where p: "prepare_runtime_active_agents e (routed_input e rs w rc' c) w = Inr (w', skip)"
    using agents_prepared_total[OF env w(1) fit w(3) lookup rc r(2)] by blast
  note ready = prepare_agents_ready[OF p w(1) env(2) routed_input_ok(1)]
  obtain lk where rt: "runtime_ready ?net lk (w_pool w') (w_links w') (w_nodes w')" using ready(1) by (auto simp: sim_ready_def)
  then have p': "tick_ready (w_links w') (w_nodes w')" "runtime_turn_index_lookup ?net (w_nodes w') = Inr lk" "pool_ok (w_pool w')"
    "agents_routed ?net lk (w_pool w') {}" "agents_routed ?net lk (w_pool w') skip" "lockstep ?net (w_pool w') (w_links w')"
    by (simp_all add: runtime_ready_def agents_routed_def active_def)
  have "wf_node (w_nodes w')" "link_count (w_links w') = net_link_count ?net" "alive_count (w_pool w') < 2 ^ 24"
    using p'(1,6) lockstep_alive[OF net(1) p'(4,3,6)] by (simp_all add: tick_ready_def lockstep_def)
  then obtain ns where ns: "rebuild_runtime_turn_demand ?net (se_spatial e) skip (w_pool w') (w_links w') (w_nodes w') = Inr ns"
    using rebuild_exact[OF net _ p'(2,5,3)] by blast
  then have prep: "prepare_runtime_routing_state e (routed_input e rs w rc' c) w = Inr (w'\<lparr>w_nodes := ns\<rparr>, skip)"
    using p env(3) by (simp add: prepare_runtime_routing_state_def advance_runtime_agent_progress_def)
  have "\<exists>w2. commit_runtime_routing_state e skip w1 = Inr w2 \<and> sim_ready e n w2" if "advance_flow_state e (w'\<lparr>w_nodes := ns\<rparr>) = Inr w1" for w1
    using flow_commit_ready[OF ready(1) env(2) ns that] by blast
  then show ?thesis using r(1) prep routed_choices_computed[OF env(1) fit rc r(2)] by blast
qed

end
