(* ===== verification/RoutedInvariant.thy ===== *)
theory RoutedInvariant
  imports TickPreparation
begin

text \<open>
  The route cache over a whole run (src/src/metroflow/sim/step.py over sim/routing_runtime.py): every
  executed tick raises the flow generation that keys the potentials, so a refresh never meets a
  potential of another state, and the sets keep serving their pairs of nodes.  Hence in every state
  that a routed run reaches, routing cannot stop the next tick.
\<close>

section \<open>What the phases leave alone\<close>

text \<open>The part of a state that routing depends on: the metadata keys of the generations, the turn table, the ids.\<close>

definition generations :: "sim_state \<Rightarrow> int result \<times> int result" where
  "generations w = (metadata_int (link_metadata (w_links w)) ''runtime_flow_generation'',
     metadata_int (link_metadata (w_links w)) ''runtime_incident_generation'')"

definition static_turns :: "sim_env \<Rightarrow> node_state \<Rightarrow> bool" where
  "static_turns e ns \<longleftrightarrow> runtime_turn_index_lookup (se_net e) ns = Inr (turn_pair_index (se_net e))"

definition routed_ready :: "sim_env \<Rightarrow> nat \<Rightarrow> sim_state \<times> route_cache \<Rightarrow> bool" where
  "routed_ready e n st \<longleftrightarrow> sim_ready e n (fst st) \<and> 0 \<le> w_tick (fst st) \<and> ids_fit e (fst st) \<and>
     static_turns e (w_nodes (fst st)) \<and> route_cache_ok e (fst st) (snd st)"

text \<open>The cache stays fit while the flow generation does not change and the incident generation can be read.\<close>

lemma route_cache_ok_cong:
  assumes "route_cache_ok e w rc" "fst (generations w') = fst (generations w)" "\<exists>n. snd (generations w') = Inr n"
  shows "route_cache_ok e w' rc"
  using assms by (simp add: route_cache_ok_def generations_def)

lemma metadata_int_upd: "metadata_int (md(key \<mapsto> MInt n)) key' = (if key' = key then Inr n else metadata_int md key')"
  by (simp add: metadata_int_def)

lemma increment_metadata_links:
  assumes "apply_source_queue_increments net ls incs = Inr ls'"
  shows "link_metadata ls' = link_metadata ls"
proof -
  have "link_metadata x = md" if "link_from_internal_arrays a b c d f g h md = Inr x" for a b c d f g h md x
    using that by (auto simp: link_from_internal_arrays_def check_simps)
  then show ?thesis using assms by (auto simp: apply_source_queue_increments_def check_simps split: if_splits)
qed

lemma event_effects_generations:
  assumes "apply_event_effects_to_flow_state e w = Inr w'" "wf_link (w_links w)"
  shows "fst (generations w') = fst (generations w)" "\<exists>n. snd (generations w) = Inr n \<Longrightarrow> \<exists>n. snd (generations w') = Inr n"
    "w_nodes w' = w_nodes w" "w_tick w' = w_tick w" "w_trips w' = w_trips w"
proof -
  have "w' = w \<or> (\<exists>res v cache ev. apply_active_event_effects (axis_of e) (w_links w) ev v (w_cache w) = Inr (res, cache) \<and>
      (w' = w\<lparr>w_links := effects_link res, w_cache := cache\<rparr> \<or>
       (\<exists>ls' s t. with_link_metadata_increment (effects_link res) ''runtime_incident_generation'' = Inr ls' \<and>
          w' = w\<lparr>w_links := ls', w_cache := cache, w_incident := s, w_incident_tick := t\<rparr>)))"
    using assms(1) by (auto simp: apply_event_effects_to_flow_state_def check_simps Let_def split: if_splits) blast+
  then have "fst (generations w') = fst (generations w) \<and> ((\<exists>n. snd (generations w) = Inr n) \<longrightarrow> (\<exists>n. snd (generations w') = Inr n)) \<and>
      w_nodes w' = w_nodes w \<and> w_tick w' = w_tick w \<and> w_trips w' = w_trips w"
  proof (elim disjE exE conjE)
    fix res v cache ev
    assume run: "apply_active_event_effects (axis_of e) (w_links w) ev v (w_cache w) = Inr (res, cache)"
    note wfr = effects_wf(1)[OF assms(2) run] and same = effects_wf(4)[OF assms(2) run]
    {
      assume "w' = w\<lparr>w_links := effects_link res, w_cache := cache\<rparr>"
      then show ?thesis by (simp add: generations_def same)
    next
      fix ls' s t
      assume inc: "with_link_metadata_increment (effects_link res) ''runtime_incident_generation'' = Inr ls'"
        "w' = w\<lparr>w_links := ls', w_cache := cache, w_incident := s, w_incident_tick := t\<rparr>"
      obtain k where "ls' = (effects_link res)\<lparr>link_metadata := (link_metadata (effects_link res))
          (''runtime_incident_generation'' \<mapsto> MInt k)\<rparr>"
        by (rule increment_metadata[OF inc(1) wfr])
      then show ?thesis by (simp add: inc(2) generations_def same metadata_int_upd)
    }
  qed simp
  then show "fst (generations w') = fst (generations w)" "\<exists>n. snd (generations w) = Inr n \<Longrightarrow> \<exists>n. snd (generations w') = Inr n"
    "w_nodes w' = w_nodes w" "w_tick w' = w_tick w" "w_trips w' = w_trips w" by blast+
qed

lemma activation_ids_fit:
  assumes "activate_due_trip_requests w = Inr w'" "ids_fit e w"
  shows "ids_fit e w'" "w_links w' = w_links w" "w_nodes w' = w_nodes w" "w_tick w' = w_tick w"
proof -
  have "ids_fit e w' \<and> w_links w' = w_links w \<and> w_nodes w' = w_nodes w \<and> w_tick w' = w_tick w"
  proof (cases "w_trips w = []")
    case True
    then show ?thesis using assms by (simp add: activate_due_trip_requests_def)
  next
    case False
    then obtain ts c where ts: "activate_trip_requests (w_trips w) (w_tick w) = Inr ts" "w' = w\<lparr>w_trips := ts, w_counts := c\<rparr>"
      using assms(1) by (auto simp: activate_due_trip_requests_def check_simps Let_def)
    have same: "trip_citizen t' = trip_citizen t \<and> trip_request_id t' = trip_request_id t" if "t' = t \<or> t' = activated now t" for t t' now
      using that by (auto simp: activated_def)
    have "\<exists>t \<in> set (w_trips w). trip_citizen t' = trip_citizen t \<and> trip_request_id t' = trip_request_id t" if t': "t' \<in> set ts" for t'
    proof -
      obtain i where i: "i < length ts" "ts ! i = t'" using t' unfolding in_set_conv_nth by blast
      then have "i < length (w_trips w)" "t' = w_trips w ! i \<or> t' = activated (w_tick w) (w_trips w ! i)"
        using activation_ids(2)[OF ts(1)] by (auto simp: list_all2_conv_all_nth)
      then show ?thesis using same nth_mem by blast
    qed
    then have "\<forall>t' \<in> set ts. fits32 (trip_citizen t') \<and> fits32 (trip_request_id t')"
      using assms(2) unfolding ids_fit_def by metis
    then show ?thesis using assms(2) by (simp add: ts(2) ids_fit_def)
  qed
  then show "ids_fit e w'" "w_links w' = w_links w" "w_nodes w' = w_nodes w" "w_tick w' = w_tick w" by blast+
qed

text \<open>The flow keeps the metadata keys that are not its own.\<close>

lemma flow_metadata_kept:
  assumes "tick_ready ls ns" "update_link_node_flow rust ls ns v bk True arg = Inr r"
    "key \<in> {''runtime_flow_generation'', ''runtime_incident_generation''}"
  shows "link_metadata (result_link r) key = link_metadata ls key"
proof -
  obtain A0 b su st storage A lm nm where t: "finish_authority A0 b su st storage = Inr (A, lm, nm)"
    "link_metadata (result_link r) = (link_metadata ls)(''free_flow_travel_time_cost'' \<mapsto> fin_vector b) ++ lm"
    using discrete_tick[OF assms(1,2)] by (metis committed_link_metadata flow_update_result.select_convs(1))
  have "lm key = None"
    by (rule authority_link_keys[OF t(1)]) (use assms(3) in \<open>auto simp: authority_link_metadata_def Let_def split: option.splits\<close>)
  then show ?thesis using assms(3) by (auto simp: t(2) map_add_def)
qed

lemma advance_flow_generations:
  assumes "advance_flow_state e w = Inr w'" "tick_ready (w_links w) (w_nodes w)" "fst (generations w) = Inr g"
  shows "generations w' = (Inr (g + 1), snd (generations w))"
proof -
  obtain arg r ls1 ls2 where run: "update_link_node_flow (se_rust e) (w_links w) (w_nodes w) False (se_flow_backend e) True arg = Inr r"
    "with_link_metadata (result_link r) ((link_metadata (result_link r))(
         ''runtime_transition_authority_version'' \<mapsto> MInt 1, ''runtime_transition_tick'' \<mapsto> MInt (w_tick w),
         ''runtime_flow_input_queue_vehicles'' \<mapsto> fin_vector (queue_vehicles (w_links w)))) = Inr ls1"
    "with_link_metadata_increment ls1 ''runtime_flow_generation'' = Inr ls2"
    "w' = w\<lparr>w_links := ls2, w_nodes := result_node r\<rparr>"
    using assms(1) by (auto simp: advance_flow_state_def check_simps)
  have wfr: "wf_link (result_link r)" by (rule discrete_tick_wf(1)[OF assms(2) run(1)])
  note ls1 = run(2)[unfolded with_link_metadata_ok[OF wfr] sum.inject, symmetric]
  have kept: "link_metadata (result_link r) key = link_metadata (w_links w) key"
    if "key \<in> {''runtime_flow_generation'', ''runtime_incident_generation''}" for key
    by (rule flow_metadata_kept[OF assms(2) run(1) that])
  then have g: "metadata_int (link_metadata ls1) ''runtime_flow_generation'' = Inr g"
    using assms(3) by (simp add: ls1 generations_def metadata_int_def)
  have "wf_link ls1" using wfr by (simp add: ls1)
  then have "ls2 = ls1\<lparr>link_metadata := (link_metadata ls1)(''runtime_flow_generation'' \<mapsto> MInt (g + 1))\<rparr>"
    using run(3) g by (simp add: with_link_metadata_increment_def with_link_metadata_ok)
  then show ?thesis using kept by (simp add: generations_def run(4) ls1 metadata_int_def)
qed

section \<open>The invariant of a routed run\<close>

definition routed_env :: "sim_env \<Rightarrow> route_setup \<Rightarrow> bool" where
  "routed_env e rs \<longleftrightarrow> routing_ok e rs \<and> env_ok e \<and> \<not> se_spatial e"

lemma routed_opening:
  assumes "routed_ready e n (w, rc)" "apply_event_effects_to_flow_state e w = Inr w1" "activate_due_trip_requests w1 = Inr w2"
  shows "routed_ready e n (w2, rc)"
proof -
  have r: "sim_ready e n w" "0 \<le> w_tick w" "ids_fit e w" "static_turns e (w_nodes w)" "route_cache_ok e w rc"
    using assms(1) by (simp_all add: routed_ready_def)
  have wf: "wf_link (w_links w)" using r(1) by (auto simp: sim_ready_def runtime_ready_def tick_ready_def)
  note e = event_effects_generations[OF assms(2) wf]
  have "\<exists>n. snd (generations w) = Inr n" using r(5) by (simp add: route_cache_ok_def generations_def)
  then have "route_cache_ok e w1 rc" using route_cache_ok_cong[OF r(5) e(1)] e(2) by blast
  moreover have "ids_fit e w1" using r(3) e(5) by (simp add: ids_fit_def)
  note a = activation_ids_fit[OF assms(3) this]
  moreover have "generations w2 = generations w1" using a(2) by (simp add: generations_def)
  ultimately have "route_cache_ok e w2 rc" using a(2) by (simp add: route_cache_ok_def)
  moreover have "sim_ready e n w2"
    by (rule activation_ready(1)[OF assms(3) event_effects_ready(1)[OF assms(2) r(1)]])
  ultimately show ?thesis using a r(2,4) e(3,4) by (simp add: routed_ready_def)
qed

lemma prepared_generations:
  assumes "prepare_runtime_active_agents e c w = Inr (w', skip)"
  shows "generations w' = generations w" "w_tick w' = w_tick w"
  using assms increment_metadata_links
  by (auto simp: prepare_runtime_active_agents_def check_simps Let_def generations_def split: prod.splits)

lemma commit_frame:
  assumes "commit_runtime_routing_state e skip w = Inr w'"
  shows "w_links w' = w_links w" "w_nodes w' = w_nodes w" "w_tick w' = w_tick w" "w_trips w' = w_trips w"
  using assms by (auto simp: commit_runtime_routing_state_def check_simps)

text \<open>From the prepared agents to the end of the tick.\<close>

lemma routed_closing:
  assumes env: "routed_env e rs" and ready: "sim_ready e (Suc n) w" "ids_fit e w" "static_turns e (w_nodes w)" "0 \<le> w_tick w"
    and g: "fst (generations w) = Inr g" "\<exists>i. snd (generations w) = Inr i"
    and rc: "sets_ok (se_net e) (rc_sets rc)" "\<forall>b k. cached_states (rc_potentials rc) (b, k) \<noteq> None \<longrightarrow> key_generation k = g"
    and run: "rebuild_runtime_turn_demand (se_net e) (se_spatial e) skip (w_pool w) (w_links w) (w_nodes w) = Inr ns"
      "advance_flow_state e (w\<lparr>w_nodes := ns\<rparr>) = Inr w1" "commit_runtime_routing_state e skip w1 = Inr w2"
  shows "routed_ready e n (w2, rc)"
proof -
  let ?net = "se_net e" and ?lookup = "turn_pair_index (se_net e)"
  have net: "wf_network ?net" "turns_indexed ?net" "se_agent_backend e \<noteq> ''rust_cpu''" "env_ok e"
    using env by (simp_all add: routed_env_def env_ok_def)
  have rt: "runtime_ready ?net ?lookup (w_pool w) (w_links w) (w_nodes w)"
    using ready(1,3) by (auto simp: sim_ready_def runtime_ready_def static_turns_def)
  note reb = rebuilt_tick_ready[OF net(1,2) rt run(1)]
  have tick: "tick_ready (w_links (w\<lparr>w_nodes := ns\<rparr>)) (w_nodes (w\<lparr>w_nodes := ns\<rparr>))" using reb(1) by simp
  obtain r arg where flow: "update_link_node_flow (se_rust e) (w_links w) ns False (se_flow_backend e) True arg = Inr r"
    "w_nodes w1 = result_node r" "w_tick w1 = w_tick w" "w_trips w1 = w_trips w"
    by (rule advance_flow_view[OF run(2) tick]) simp
  have lookup: "runtime_turn_index_lookup ?net (result_node r) = Inr ?lookup"
    by (rule runtime_tick[OF net(1,2) rt run(1) flow(1) net(3), of "w_ids w"])
  have "generations w1 = (Inr (g + 1), snd (generations w))"
    using advance_flow_generations[OF run(2) tick, of g] g(1) by (simp add: generations_def)
  then have gen: "generations w2 = (Inr (g + 1), snd (generations w))"
    using commit_frame(1)[OF run(3)] by (simp add: generations_def)
  have "key_generation k < g + 1" if "cached_states (rc_potentials rc) (b, k) \<noteq> None" for b k
  proof -
    have "key_generation k = g" using rc(2) that by blast
    then show ?thesis by simp
  qed
  then have "route_cache_ok e w2 rc"
    using rc(1) gen g(2) unfolding route_cache_ok_def generations_def by (metis fst_conv snd_conv)
  moreover have "sim_ready e n w2" using flow_commit_ready[OF ready(1) net(4) run(1,2)] run(3) by auto
  ultimately show ?thesis
    using commit_frame(2-4)[OF run(3)] flow(2-4) lookup ready(2,4) by (simp add: routed_ready_def static_turns_def ids_fit_def)
qed

lemma routed_tick_ready:
  assumes env: "routed_env e rs" and ready: "routed_ready e (Suc n) (w, rc)"
    and run: "routed_run_tick e rs c (w, rc) = Some (Inr (w', rc'))"
  shows "routed_ready e n (w', rc')"
proof -
  obtain w1 w2 w3 skip w4 where t: "apply_event_effects_to_flow_state e w = Inr w1" "activate_due_trip_requests w1 = Inr w2"
    "refresh_runtime_route_candidates e rs w2 rc = Some (Inr rc')"
    "prepare_runtime_routing_state e (routed_input e rs w2 rc' c) w2 = Inr (w3, skip)" "advance_flow_state e w3 = Inr w4"
    "commit_runtime_routing_state e skip w4 = Inr w'"
    using run by (auto simp: routed_run_tick_def check_simps split: if_splits)
  have r: "sim_ready e (Suc n) w2" "0 \<le> w_tick w2" "ids_fit e w2" "static_turns e (w_nodes w2)" "route_cache_ok e w2 rc"
    using routed_opening[OF ready t(1,2)] by (simp_all add: routed_ready_def)
  have e: "routing_ok e rs" "env_ok e" "\<not> se_spatial e" using env by (simp_all add: routed_env_def)
  have fit: "links_fit e w2" using r(1,2) by (auto simp: links_fit_def sim_ready_def runtime_ready_def tick_ready_def lockstep_def)
  obtain rc2 flow where rc2: "refresh_runtime_route_candidates e rs w2 rc = Some (Inr rc2)" "sets_ok (se_net e) (rc_sets rc2)"
    "metadata_int (link_metadata (w_links w2)) ''runtime_flow_generation'' = Inr flow"
    "\<forall>b k. cached_states (rc_potentials rc2) (b, k) \<noteq> None \<longrightarrow> key_generation k = flow"
    by (rule refresh_total[OF e(1) fit r(5)])
  then have rc': "rc2 = rc'" using t(3) by simp
  obtain w5 ns where p: "prepare_runtime_active_agents e (routed_input e rs w2 rc' c) w2 = Inr (w5, skip)"
    "rebuild_runtime_turn_demand (se_net e) (se_spatial e) skip (w_pool w5) (w_links w5) (w_nodes w5) = Inr ns" "w3 = w5\<lparr>w_nodes := ns\<rparr>"
    using t(4) e(3) by (auto simp: prepare_runtime_routing_state_def advance_runtime_agent_progress_def check_simps split: prod.splits)
  note prep = prepare_agents_ready[OF p(1) r(1) e(2) routed_input_ok(1)] and gens = prepared_generations[OF p(1)]
  have flow: "fst (generations w5) = Inr flow" "\<exists>i. snd (generations w5) = Inr i"
    using rc2(3) r(5) unfolding gens(1) by (simp_all add: generations_def route_cache_ok_def)
  have "ids_fit e w5" "static_turns e (w_nodes w5)" "0 \<le> w_tick w5" using r(2-4) prep(2,3) gens(2) by (simp_all add: ids_fit_def)
  from routed_closing[OF env prep(1) this flow, of rc' skip ns w4 w'] rc2(2,4) p(2) t(5,6)
  show ?thesis by (simp add: rc' p(3))
qed

lemma routed_step_ready:
  assumes env: "routed_env e rs" and ready: "routed_ready e (Suc n) (w, rc)"
    and run: "routed_step e rs c (w, rc) = Some (Inr (w', rc'))"
  shows "routed_ready e n (w', rc')"
proof -
  obtain w1 where w1: "advance_event_state c (apply_control_to_state c w) = Inr w1"
    using run by (auto simp: routed_step_def check_simps)
  note frame = control_events_frame[OF w1]
  have tick: "0 \<le> w_tick w1"
    using w1 ready by (auto simp: advance_event_state_def apply_control_to_state_def check_simps Let_def routed_ready_def split: if_splits)
  have ready1: "routed_ready e (Suc n) (w1, rc)"
    using ready tick sim_ready_cong[OF frame(1-5)] frame by (simp add: routed_ready_def ids_fit_def route_cache_ok_def)
  show ?thesis
  proof (cases "ti_pause c")
    case True
    then have w': "w' = w1\<lparr>w_authority := False, w_counter_tick := w_tick w1, w_completed_count := 0\<rparr>" "rc' = rc"
      using run w1 by (simp_all add: routed_step_def)
    have "sim_ready e n w'" using sim_ready_cong[of w' w1 e n] sim_ready_weaken[of e "Suc n" w1 n] ready1
      by (simp add: w'(1) routed_ready_def)
    then show ?thesis using ready1 by (simp add: routed_ready_def w' ids_fit_def route_cache_ok_def)
  next
    case False
    then obtain w2 where w2: "routed_run_tick e rs c (w1, rc) = Some (Inr (w2, rc'))"
      "w' = w2\<lparr>w_authority := True, w_counter_tick := w_tick w2\<rparr>"
      using run w1 by (auto simp: routed_step_def check_simps)
    have r2: "routed_ready e n (w2, rc')" by (rule routed_tick_ready[OF env ready1 w2(1)])
    then have "sim_ready e n w'" using sim_ready_cong[of w' w2 e n] by (simp add: w2(2) routed_ready_def)
    then show ?thesis using r2 by (simp add: routed_ready_def w2(2) ids_fit_def route_cache_ok_def)
  qed
qed

lemma routed_rollout_ready:
  assumes "routed_env e rs" "routed_ready e (length cs + n) (w, rc)" "routed_rollout e rs cs (w, rc) = Some (Inr (w', rc'))"
  shows "routed_ready e n (w', rc')"
  using assms(2,3)
proof (induction cs arbitrary: w rc)
  case (Cons c cs)
  obtain w1 rc1 where s: "routed_step e rs c (w, rc) = Some (Inr (w1, rc1))"
    "routed_rollout e rs cs (w1, rc1) = Some (Inr (w', rc'))" using Cons.prems(2) by (auto simp: check_simps)
  have "routed_ready e (length cs + n) (w1, rc1)"
    by (rule routed_step_ready[OF assms(1) _ s(1)]) (use Cons.prems(1) in simp)
  then show ?case by (rule Cons.IH[OF _ s(2)])
qed simp


section \<open>A routed run on the concrete network\<close>

definition plain_setup :: route_setup where
  "plain_setup = \<lparr>rs_max_candidates = 1, rs_max_hops = 64, rs_gamma = 0, rs_geometry = ''demo'', rs_log = (\<lambda>x. x - 1),
     rs_rust = no_rust_candidates\<rparr>"

lemma demo_turns_complete: "turns_complete demo_net" "turn_pair_index demo_net = fleet_lookup"
proof -
  have "turn_pair_index demo_net (10, 11) \<noteq> None" by (simp add: demo_net_def)
  then show "turns_complete demo_net"
    by (simp add: turns_complete_def demo_net_def net_turn_count_def demo_turns_def demo_roads_def demo_road_def less_Suc_cases numeral_2_eq_2)
  show "turn_pair_index demo_net = fleet_lookup" by (simp add: demo_net_def fleet_lookup_def)
qed

lemma fleet_routed_env: "routed_env fleet_env plain_setup"
  using fleet_env_ok(1) demo_net_wf demo_plain_links demo_turns_complete
  by (simp add: routed_env_def routing_ok_def fleet_env_def plain_setup_def pois_known_def)

lemma fleet_routed_ready: "routed_ready fleet_env 5 (fleet_world, create_route_cache)"
proof -
  have "ids_fit fleet_env fleet_world"
    by (simp add: ids_fit_def fleet_env_def fleet_world_def fleet_trips_def demo_trip_def demo_net_def demo_roads_def demo_road_def
        demo_junctions_def fits32_def)
  moreover have "route_cache_ok fleet_env fleet_world create_route_cache"
    by (simp add: route_cache_ok_def create_route_cache_def sets_ok_def metadata_int_def fleet_world_def fleet_links_def)
  moreover have "static_turns fleet_env (w_nodes fleet_world)"
    using fleet_lookup by (simp add: static_turns_def fleet_env_def fleet_world_def demo_turns_complete)
  ultimately show ?thesis using fleet_sim_ready by (simp add: routed_ready_def) (simp add: fleet_world_def)
qed

lemma routed_quiet: "routed_input e rs w rc (quiet_input b) = (quiet_input b)\<lparr>ti_pick := route_pick e rs rc, ti_tails := route_tails e rs w\<rparr>"
  by (simp add: routed_input_def)

lemma fleet_routed_step:
  obtains w' rc' where "routed_step fleet_env plain_setup (quiet_input False) (fleet_world, create_route_cache) = Some (Inr (w', rc'))"
    "w_events w' = None"
proof -
  have e: "routing_ok fleet_env plain_setup" "env_ok fleet_env" "\<not> se_spatial fleet_env"
    using fleet_routed_env by (simp_all add: routed_env_def)
  let ?w1 = "fleet_world\<lparr>w_tick := 1\<rparr>" and ?w = "fleet_tick_one (0, 2, 2)"
  have "routed_ready fleet_env 5 (?w1, create_route_cache)"
    using fleet_routed_ready sim_ready_cong[of ?w1 fleet_world fleet_env 5]
    by (simp add: routed_ready_def ids_fit_def route_cache_ok_def)
  from routed_opening[OF this fleet_opening(2,3)]
  have r: "sim_ready fleet_env (Suc 4) ?w" "0 \<le> w_tick ?w" "ids_fit fleet_env ?w"
    "runtime_turn_index_lookup (se_net fleet_env) (w_nodes ?w) = Inr (turn_pair_index (se_net fleet_env))" "route_cache_ok fleet_env ?w create_route_cache"
    by (simp_all add: routed_ready_def static_turns_def)
  obtain rc2 where t: "refresh_runtime_route_candidates fleet_env plain_setup ?w create_route_cache = Some (Inr rc2)"
    "choices_computed fleet_env plain_setup ?w rc2"
    using routed_tick_not_stopped[OF e r, of "quiet_input False"] by blast
  obtain w2 w3 w4 where c:
    "\<forall>p t. prepare_runtime_routing_state fleet_env ((quiet_input False)\<lparr>ti_pick := p, ti_tails := t\<rparr>) ?w = Inr (w2, {})"
    "advance_flow_state fleet_env w2 = Inr w3" "commit_runtime_routing_state fleet_env {} w3 = Inr w4" "w_events w4 = None"
    by (rule fleet_closing)
  have "routed_step fleet_env plain_setup (quiet_input False) (fleet_world, create_route_cache) =
      Some (Inr (w4\<lparr>w_authority := True, w_counter_tick := w_tick w4\<rparr>, rc2))"
    using fleet_opening t c by (simp add: routed_step_def routed_run_tick_def routed_quiet) (simp add: quiet_input_def)
  then show thesis by (rule that) (simp add: c(4))
qed


lemma fleet_routed_rollout:
  obtains w' rc' where "routed_rollout fleet_env plain_setup [quiet_input False, quiet_input True] (fleet_world, create_route_cache) =
    Some (Inr (w', rc'))"
proof -
  obtain w1 rc1 where s: "routed_step fleet_env plain_setup (quiet_input False) (fleet_world, create_route_cache) = Some (Inr (w1, rc1))"
    "w_events w1 = None" by (rule fleet_routed_step)
  have "\<exists>st. routed_step fleet_env plain_setup (quiet_input True) (w1, rc1) = Some (Inr st)"
    using s(2) by (simp add: routed_step_def advance_event_state_def apply_control_to_state_def quiet_input_def)
  then show thesis using that s(1) by auto
qed

lemma routed_run_keeps_lockstep_witness:
  "\<exists>w' rc'. routed_rollout fleet_env plain_setup [quiet_input False, quiet_input True] (fleet_world, create_route_cache) = Some (Inr (w', rc')) \<and>
    queue_vehicles (w_links w') = map (\<lambda>s. of_int (occupancy demo_net (w_pool w') s)) [0..<net_link_count demo_net]"
proof -
  let ?cs = "[quiet_input False, quiet_input True]"
  obtain w' rc' where run: "routed_rollout fleet_env plain_setup ?cs (fleet_world, create_route_cache) = Some (Inr (w', rc'))"
    by (rule fleet_routed_rollout)
  have "sim_ready fleet_env (length ?cs) fleet_world" by (rule sim_ready_weaken[OF fleet_sim_ready]) simp
  from routed_run_keeps_lockstep[OF fleet_env_ok(1) this run] show ?thesis using run by (auto simp: fleet_env_def)
qed

lemma routed_report_clean_witness:
  "\<exists>w' rc' rep. routed_rollout fleet_env plain_setup [quiet_input False] (fleet_world, create_route_cache) = Some (Inr (w', rc')) \<and>
    validate_invariants fleet_env w' = Inr rep \<and> report_ok rep"
proof -
  obtain w' rc' where "routed_step fleet_env plain_setup (quiet_input False) (fleet_world, create_route_cache) = Some (Inr (w', rc'))"
    by (rule fleet_routed_step)
  then have run: "routed_rollout fleet_env plain_setup [quiet_input False] (fleet_world, create_route_cache) = Some (Inr (w', rc'))" by simp
  have ready: "sim_ready fleet_env (length [quiet_input False]) fleet_world" by (rule sim_ready_weaken[OF fleet_sim_ready]) simp
  have storage: "storage_ready fleet_env fleet_world" by (simp add: storage_ready_def fleet_env_def)
  have "[quiet_input False] \<noteq> []" "\<not> ti_pause (last [quiet_input False])" "0 \<le> w_tick fleet_world"
    by (simp_all add: quiet_input_def fleet_world_def)
  from routed_report_clean[OF fleet_env_ok(1) ready storage run this] show ?thesis using run by blast
qed

end
