(* ===== verification/StaleRoutes.thy ===== *)
theory StaleRoutes
  imports RoutedInvariant
begin

text \<open>
  A closure that is over still fails trips (src/src/metroflow/routing/candidates.py and
  sim/routing_runtime.py).  A candidate set that was built while a closure left no route is empty.  The end
  of the closure forces a refresh in its own tick only, and only for the pairs that trips wait for
  in that tick.  A trip of the pair that is activated a tick later meets the empty set, which is
  younger than the refresh interval, and the runtime fails it for good although the road is open again.
\<close>

section \<open>The closed road\<close>

text \<open>The network of theory RoadNetwork with its second road closed, and open again.\<close>

definition shut_links :: link_state where
  "shut_links = demo_live\<lparr>incident_capacity_multiplier := [1, 0, 1, 1]\<rparr>"

lemma shut_links_wf: "wf_link shut_links" "link_count shut_links = net_link_count demo_net"
  using demo_live_wf by (simp_all add: shut_links_def wf_link_def demo_live_def link_count_def Let_def)

lemma shut_mask: "resolve_blocked_link_mask demo_net (Some shut_links) = [False, True, False, False]"
  by (simp add: resolve_blocked_link_mask_def effective_capacity_vehicles_def shut_links_def demo_live_def
      static_blockable_mask_def demo_net_def demo_roads_def demo_road_def)

lemma open_mask: "resolve_blocked_link_mask demo_net (Some demo_live) = [False, False, False, False]"
  by (simp add: resolve_blocked_link_mask_def effective_capacity_vehicles_def demo_live_def
      static_blockable_mask_def demo_net_def demo_roads_def demo_road_def)

lemma demo_links_cases: "l < net_link_count demo_net \<longleftrightarrow> l = 0 \<or> l = 1 \<or> l = 2 \<or> l = 3"
  by (auto simp: demo_net_def net_link_count_def demo_roads_def)

lemma demo_ends:
  "src_node (net_links demo_net ! 0) = 1" "dst_node (net_links demo_net ! 0) = 2" "src_node (net_links demo_net ! 1) = 2"
  "dst_node (net_links demo_net ! 1) = 3" "src_node (net_links demo_net ! 2) = 2" "dst_node (net_links demo_net ! 2) = 1"
  "src_node (net_links demo_net ! 3) = 3" "dst_node (net_links demo_net ! 3) = 2"
  by (simp_all add: demo_net_def demo_roads_def demo_road_def)

lemma shut_no_route: "\<not> candidate_route demo_net [False, True, False, False] 1 3 None hops p"
proof
  assume "candidate_route demo_net [False, True, False, False] 1 3 None hops p"
  then have p: "legal_route demo_net [False, True, False, False] 1 None p" "distinct (1 # ends_of demo_net p)" "route_end demo_net 1 p = 3"
    by (simp_all add: candidate_route_def simple_route_def)
  obtain l q where p1: "p = l # q" using p(3) by (cases p) auto
  then have l: "l = 0" using p(1) by (auto simp: demo_links_cases demo_ends)
  obtain m r where q: "q = m # r" using p(3) by (cases q) (auto simp: p1 l demo_ends)
  then have "m = 2" using p(1) by (auto simp: p1 l demo_links_cases demo_ends)
  then show False using p(2) by (simp add: p1 q demo_ends)
qed

lemma open_route: "candidate_route demo_net [False, False, False, False] 1 3 None 64 [0, 1]"
proof -
  have "legal_turn demo_net 0 1"
    by (auto simp: legal_turn_def demo_net_def net_turn_count_def demo_turns_def intro: exI[of _ 0])
  moreover have "link_index demo_net (link_id (net_links demo_net ! 0)) = Some 0"
    using link_known[OF demo_net_wf] by (simp add: demo_links_cases)
  ultimately show ?thesis
    by (simp add: candidate_route_def simple_route_def demo_links_cases demo_ends demo_ends(3,4)[unfolded One_nat_def])
qed

text \<open>Whatever is asked for, the set built on the closed road is empty.\<close>

lemma shut_set:
  obtains s cache where "build_route_candidate_set no_rust_candidates demo_net shut_links (7, 8) 1 3 12 None 1 64 ''baseline'' None empty_cache
      = Some (Inr (s, cache))" "candidate_paths s = []" "od_key s = (7, 8)" "last_refresh_tick s = 12"
    "\<exists>m. candidate_meta s = Some m \<and> meta_origin m = 1 \<and> meta_destination m = 3"
proof -
  have n: "node_index demo_net 1 \<noteq> None" "node_index demo_net 3 \<noteq> None" by (simp_all add: demo_net_def index_of_def)
  have hit: "\<forall>k ps. None = Some k \<longrightarrow> cached_states empty_cache (''baseline'', k) = Some ps \<longrightarrow> potential_for demo_net shut_links 3 ps" by simp
  have args: "(1 :: int) \<le> 1" "(1 :: int) \<le> 64" "(0 :: int) \<le> 12" by simp_all
  obtain s cache P where b: "build_route_candidate_set no_rust_candidates demo_net shut_links (7, 8) 1 3 12 None 1 64 ''baseline'' None empty_cache
      = Some (Inr (s, cache))" "candidates_of demo_net shut_links 1 3 None 64 P s" "od_key s = (7, 8)" "last_refresh_tick s = 12"
    by (rule build_candidates[OF demo_net_wf demo_plain_links n shut_links_wf hit args, of no_rust_candidates "(7, 8)" None])
  then have "P = []" using shut_no_route unfolding candidates_of_def shut_mask by (cases P) auto
  then show ?thesis using that b by (auto simp: candidates_of_def)
qed

section \<open>Two ticks later\<close>

definition stale_env :: sim_env where
  "stale_env = fleet_env\<lparr>se_pois := demo_poi_map\<rparr>"

definition reopened_world :: sim_state where
  "reopened_world = fleet_world\<lparr>w_tick := 14, w_links := demo_live, w_pool := idle_pool, w_trips := [demo_trip], w_ids := demo_ids,
     w_incident_tick := 13, w_incident := ''cleared''\<rparr>"

definition stale_cache :: "candidate_set \<Rightarrow> route_cache" where
  "stale_cache s = create_route_cache\<lparr>rc_sets := [(7, 8) \<mapsto> s]\<rparr>"

lemma stale_refresh:
  assumes "candidate_paths s = []" "od_key s = (7, 8)" "last_refresh_tick s = 12"
    "candidate_meta s = Some m" "meta_origin m = 1" "meta_destination m = 3"
  obtains rc where "refresh_runtime_route_candidates stale_env plain_setup reopened_world (stale_cache s) = Some (Inr rc)"
    "rc_sets rc = [(7, 8) \<mapsto> s]"
proof -
  define w where "w = reopened_world"
  have w: "w_tick w = 14" "w_incident_tick w = 13" "active_events_of w = []" "w_links w = demo_live" "w_trips w = [demo_trip]" "w_ids w = demo_ids"
    by (simp_all add: w_def reopened_world_def active_events_of_def fleet_world_def)
  have trips: "route_relevant_trips demo_ids [demo_trip] = [demo_trip]"
    by (simp add: route_relevant_trips_def demo_trip_def demo_ids_def)
  have nodes: "trip_od_nodes demo_poi_map demo_trip = Some ((7, 8), 1, 3)"
    by (simp add: trip_od_nodes_def demo_poi_map_def demo_pois_def demo_trip_def)
  have env: "se_routing_backend stale_env = ''baseline''" "se_pois stale_env = demo_poi_map" "se_refresh_interval stale_env = 10"
    by (simp_all add: stale_env_def fleet_env_def)
  obtain sig where sig: "state_cache_signature stale_env plain_setup w = Inr sig"
    by (simp add: state_cache_signature_def metadata_int_def w(4) demo_live_def)
  define p where "p = \<lparr>refresh_interval_ticks = 10, force_refresh_on_incident = True, max_candidates = 1, max_hops = 64\<rparr>"
  have p: "make_refresh_policy p = Inr p" by (simp add: p_def make_refresh_policy_def check_eval)
  have reuse: "refresh_od_route_candidate_set rust net ls (Some s) (7, 8) 1 3 14 None False False (Some p) ''baseline'' key cache = Some (Inr (s, cache))"
    for rust net ls key and cache :: "potential_key potential_cache"
    using assms by (simp add: refresh_od_route_candidate_set_def matching_candidates_def should_refresh_route_candidate_set_def Let_def p_def)
  have "\<exists>rc. refresh_runtime_route_candidates stale_env plain_setup w (stale_cache s) = Some (Inr rc) \<and> rc_sets rc = [(7, 8) \<mapsto> s]"
    using sig p by (simp add: refresh_runtime_route_candidates_def env w trips nodes validate_routing_backend_def check_eval Let_def
        plain_setup_def p_def[symmetric] stale_cache_def create_route_cache_def reuse)
  then show thesis using that by (auto simp: w_def)
qed

text \<open>C38: a candidate set that a closure emptied outlives the closure.  Built at tick 12 on the closed road it
  is empty; at tick 14, after the road was reopened in tick 13, the refresh returns it for the trip that has just been
  activated, and admission fails that trip for want of a route, while a legal route over open links exists.\<close>

theorem emptied_set_fails_trip:
  "\<exists>s cache rc w' skip. build_route_candidate_set no_rust_candidates demo_net shut_links (7, 8) 1 3 12 None 1 64 ''baseline'' None empty_cache
      = Some (Inr (s, cache)) \<and>
    refresh_runtime_route_candidates stale_env plain_setup reopened_world (stale_cache s) = Some (Inr rc) \<and>
    prepare_runtime_active_agents stale_env (routed_input stale_env plain_setup reopened_world rc (quiet_input False)) reopened_world
      = Inr (w', skip) \<and>
    failed_trips (w_ids w') = {1} \<and> w_reasons w' 1 = Some ''no_route_candidate'' \<and>
    candidate_route demo_net (resolve_blocked_link_mask demo_net (Some (w_links reopened_world))) 1 3 None 64 [0, 1]"
proof -
  obtain s cache m where s: "build_route_candidate_set no_rust_candidates demo_net shut_links (7, 8) 1 3 12 None 1 64 ''baseline'' None empty_cache
      = Some (Inr (s, cache))" "candidate_paths s = []" "od_key s = (7, 8)" "last_refresh_tick s = 12"
    "candidate_meta s = Some m" "meta_origin m = 1" "meta_destination m = 3"
    by (rule shut_set) blast
  obtain rc where rc: "refresh_runtime_route_candidates stale_env plain_setup reopened_world (stale_cache s) = Some (Inr rc)"
    "rc_sets rc = [(7, 8) \<mapsto> s]" by (rule stale_refresh[OF s(2-7)])
  have none: "route_pick stale_env plain_setup rc (7, 8) = None"
    using s(2) by (simp add: route_pick_def chosen_for_def rc(2) select_none)
  let ?c = "routed_input stale_env plain_setup reopened_world rc (quiet_input False)"
  have trips: "activated_trip_requests [demo_trip] = [demo_trip]" by (simp add: activated_trip_requests_def demo_trip_def)
  have nodes: "trip_od_nodes demo_poi_map demo_trip = Some ((7, 8), 1, 3)"
    by (simp add: trip_od_nodes_def demo_poi_map_def demo_pois_def demo_trip_def)
  have pick: "ti_pick ?c (7, 8) = None" using none by (simp add: routed_input_def)
  have id: "trip_request_id demo_trip = 1" by (simp add: demo_trip_def)
  obtain st where alloc: "allocate_activated_trips False demo_net demo_live fleet_nodes 14 demo_poi_map (ti_pick ?c) [demo_trip] demo_ids
      Map.empty idle_pool = Inr (idle_pool, st)" "ad_failed st = {1}" "ad_reasons st 1 = Some ''no_route_candidate''" "ad_increments st = Map.empty"
    using fleet_lookup
    by (simp add: allocate_activated_trips_def trips nodes pick id start_admission_def demo_ids_def idle_pool_def Let_def)
  have trigger: "runtime_reroute_trigger 13 ''cleared'' False 14 10 = None" by (simp add: runtime_reroute_trigger_def)
  have "\<exists>w'. prepare_runtime_active_agents stale_env ?c reopened_world = Inr (w', ad_slots st) \<and>
      failed_trips (w_ids w') = {1} \<and> w_reasons w' 1 = Some ''no_route_candidate''"
    using alloc trigger
    by (simp add: prepare_runtime_active_agents_def stale_env_def fleet_env_def reopened_world_def fleet_world_def
        active_events_of_def apply_runtime_reroute_policy_def apply_source_queue_increments_def demo_ids_def Let_def)
  moreover have "candidate_route demo_net (resolve_blocked_link_mask demo_net (Some (w_links reopened_world))) 1 3 None 64 [0, 1]"
    using open_route by (simp add: reopened_world_def open_mask)
  ultimately show ?thesis using s(1) rc(1) by blast
qed

end
