(* ===== verification/PyFloatOps.thy ===== *)
theory PyFloatOps
  imports PyFloat
begin

text \<open>
  Float operations whose operands may be infinite or NaN, and whose results may overflow: where the
  code tests its results with \<^verbatim>\<open>isfinite\<close>, the theories on rationals are not enough.  An operation
  is the exact one followed by \<open>f32_value\<close> or \<open>f64_value\<close>, the rounding of the format with its
  overflow to an infinity.  Python's \<^verbatim>\<open>min\<close> and \<^verbatim>\<open>max\<close> keep their first argument unless the second
  is strictly better, which is what decides their value on NaN.
\<close>

definition f32_value :: "rat \<Rightarrow> pyfloat" where
  "f32_value x = (let y = r32 x in if 2 ^ 128 \<le> y then PosInf else if y \<le> - (2 ^ 128) then NegInf else Fin y)"

definition f64_value :: "rat \<Rightarrow> pyfloat" where
  "f64_value x = (let y = r64 x in if 2 ^ 1024 \<le> y then PosInf else if y \<le> - (2 ^ 1024) then NegInf else Fin y)"

text \<open>\<^verbatim>\<open>np.asarray(x, dtype=np.float32)\<close> of one value.\<close>

fun as_f32 :: "pyfloat \<Rightarrow> pyfloat" where
  "as_f32 (Fin a) = f32_value a"
| "as_f32 x = x"

fun pf_add :: "(rat \<Rightarrow> pyfloat) \<Rightarrow> pyfloat \<Rightarrow> pyfloat \<Rightarrow> pyfloat" where
  "pf_add rd NaN _ = NaN"
| "pf_add rd _ NaN = NaN"
| "pf_add rd (Fin a) (Fin b) = rd (a + b)"
| "pf_add rd (Fin _) y = y"
| "pf_add rd x (Fin _) = x"
| "pf_add rd x y = (if x = y then x else NaN)"

text \<open>An infinity with the sign of a finite factor; zero times an infinity is NaN.\<close>

definition inf_times :: "bool \<Rightarrow> rat \<Rightarrow> pyfloat" where
  "inf_times positive a = (if a = 0 then NaN else if (0 < a) = positive then PosInf else NegInf)"

fun pf_mul :: "(rat \<Rightarrow> pyfloat) \<Rightarrow> pyfloat \<Rightarrow> pyfloat \<Rightarrow> pyfloat" where
  "pf_mul rd NaN _ = NaN"
| "pf_mul rd _ NaN = NaN"
| "pf_mul rd (Fin a) (Fin b) = rd (a * b)"
| "pf_mul rd (Fin a) y = inf_times (y = PosInf) a"
| "pf_mul rd x (Fin b) = inf_times (x = PosInf) b"
| "pf_mul rd x y = (if x = y then PosInf else NegInf)"

text \<open>Division by a positive divisor; the clients test for zero first.\<close>

fun pf_div :: "(rat \<Rightarrow> pyfloat) \<Rightarrow> pyfloat \<Rightarrow> pyfloat \<Rightarrow> pyfloat" where
  "pf_div rd (Fin a) (Fin b) = (if b = 0 then NaN else rd (a / b))"
| "pf_div rd PosInf (Fin b) = inf_times True b"
| "pf_div rd NegInf (Fin b) = inf_times False b"
| "pf_div rd (Fin a) PosInf = Fin 0"
| "pf_div rd (Fin a) NegInf = Fin 0"
| "pf_div rd _ _ = NaN"

definition py_max :: "pyfloat \<Rightarrow> pyfloat \<Rightarrow> pyfloat" where
  "py_max a b = (if pf_lt a b then b else a)"

definition py_min :: "pyfloat \<Rightarrow> pyfloat \<Rightarrow> pyfloat" where
  "py_min a b = (if pf_lt b a then b else a)"

section \<open>Facts\<close>

text \<open>Clamping gives a value of the interval whatever the argument, NaN included.\<close>

lemma py_clamp:
  assumes "a \<le> b" shows "\<exists>c. py_min (Fin b) (py_max (Fin a) x) = Fin c \<and> a \<le> c \<and> c \<le> b"
proof (cases x)
  case (Fin y)
  then have "py_min (Fin b) (py_max (Fin a) x) = Fin (min b (max a y))"
    by (auto simp: py_min_def py_max_def)
  then show ?thesis using assms by auto
qed (use assms in \<open>auto simp: py_min_def py_max_def\<close>)

lemma py_clamp_inside: "a \<le> x \<Longrightarrow> x \<le> b \<Longrightarrow> py_min (Fin b) (py_max (Fin a) (Fin x)) = Fin x"
  by (auto simp: py_min_def py_max_def)

lemma f32_value_fin: "\<bar>r32 x\<bar> < 2 ^ 128 \<Longrightarrow> f32_value x = Fin (r32 x)"
  by (auto simp: f32_value_def Let_def)

lemma f32_value_below:
  assumes "0 \<le> x" "x \<le> y" "is_f32 y" "y < 2 ^ 128" shows "f32_value x = Fin (r32 x)"
proof (rule f32_value_fin)
  have "0 \<le> r32 x" "r32 x \<le> y"
    using assms f32.rd_nonneg f32.rd_le_float[of x y] by (simp_all add: is_f32_def)
  then show "\<bar>r32 x\<bar> < 2 ^ 128" using assms(4) by linarith
qed

text \<open>The error of rounding to nearest is half a quantum, and for a normal number it is a relative one.\<close>

lemma rne_error: "\<bar>of_int (rne x) - x\<bar> \<le> 1 / 2"
proof -
  have "of_int \<lfloor>x\<rfloor> \<le> x" "x < of_int \<lfloor>x\<rfloor> + 1" by linarith+
  then show ?thesis unfolding rne_def Let_def by (simp split: if_split)
qed

lemma round_pos_error: "\<bar>round_pos p qmin x - x\<bar> \<le> 2 powi quantum p qmin x / 2"
proof -
  let ?q = "2 powi quantum p qmin x :: rat"
  have "round_pos p qmin x - x = (of_int (rne (x / ?q)) - x / ?q) * ?q"
    by (simp add: round_pos_def Let_def left_diff_distrib)
  then have "\<bar>round_pos p qmin x - x\<bar> = \<bar>of_int (rne (x / ?q)) - x / ?q\<bar> * ?q"
    by (simp add: abs_mult)
  also have "\<dots> \<le> 1 / 2 * ?q"
    by (rule mult_right_mono[OF rne_error]) simp
  finally show ?thesis by simp
qed

text \<open>Rounding any part of a normal number changes it by at most a \<open>2\<^sup>-\<^sup>2\<^sup>4\<close>-th of the whole.\<close>

lemma r32_error_of_whole:
  assumes "0 \<le> y" "y \<le> d" "2 powi (- 126) \<le> d"
  shows "\<bar>r32 y - y\<bar> \<le> d / 2 ^ 24"
proof (cases "y = 0")
  case True
  then show ?thesis using assms by simp
next
  case False
  then have y: "0 < y" using assms(1) by simp
  then have d: "0 < d" using assms(2) by linarith
  have "2 powi (- 126) < (2 powi (expo d + 1) :: rat)"
    using assms(3) expo_bounds(2)[OF d] by linarith
  then have e: "- 126 < expo d + 1" by (simp only: powi2_less_iff)
  have q: "quantum 24 (- 149) d = expo d - 23" using e by (simp add: quantum_def)
  have "2 powi quantum 24 (- 149) y \<le> (2 powi (expo d - 23) :: rat)"
    using powi2_mono[OF quantum_mono[OF y assms(2), of 24 "- 149"]] by (simp only: q)
  also have "\<dots> = 2 powi expo d / 2 ^ 23" by (simp add: power_int_diff)
  also have "\<dots> \<le> d / 2 ^ 23" by (rule divide_right_mono[OF expo_bounds(1)[OF d]]) simp
  finally have "2 powi quantum 24 (- 149) y / 2 \<le> d / 2 ^ 24" by simp
  then show ?thesis
    using round_pos_error[of 24 "- 149" y] y by (simp add: r32_def round_float_def)
qed

end
