(* ===== verification/StreamBuffer.thy ===== *)
theory StreamBuffer
  imports PyFloatOps
begin

text \<open>
  The throttled buffer between the simulation and the viewers (src/src/metroflow/ui/stream_buffer.py).
  It holds at most one snapshot; a newer one replaces it, and it is emitted when the minimum number of
  ticks has passed since the last emission, or at once when forced.  Snapshots are values of a type
  variable.  The buffer is mutated in place by the code and returned updated here.
\<close>

section \<open>Emissions and counters\<close>

record 'a emission =
  snapshot_source :: "'a option"
  snapshot_tick :: int
  emitted_at_tick :: int
  frame_seq :: int
  dropped_before :: int
  emission_forced :: bool

definition make_emission :: "'a option \<Rightarrow> int \<Rightarrow> int \<Rightarrow> int \<Rightarrow> int \<Rightarrow> bool \<Rightarrow> 'a emission result" where
  "make_emission source tick now seq dropped forced = bindE (checks [
     (tick < 0 \<or> now < 0, ''tick values must be >= 0''),
     (seq < 0, ''frame_seq must be >= 0''),
     (dropped < 0, ''dropped_since_last_emit must be >= 0'')]) (\<lambda>_.
     Inr \<lparr>snapshot_source = source, snapshot_tick = tick, emitted_at_tick = now, frame_seq = seq,
       dropped_before = dropped, emission_forced = forced\<rparr>)"

record buffer_stats =
  offered :: int
  emitted :: int
  dropped_coalesced :: int
  forced_emits :: int

definition make_buffer_stats :: "int \<Rightarrow> int \<Rightarrow> int \<Rightarrow> int \<Rightarrow> buffer_stats result" where
  "make_buffer_stats off em lost forced = bindE (checks [
     (off < 0, ''offered must be >= 0''), (em < 0, ''emitted must be >= 0''),
     (lost < 0, ''dropped_coalesced must be >= 0''), (forced < 0, ''forced_emits must be >= 0'')]) (\<lambda>_.
     Inr \<lparr>offered = off, emitted = em, dropped_coalesced = lost, forced_emits = forced\<rparr>)"

section \<open>The emission interval\<close>

text \<open>
  \<^verbatim>\<open>math.ceil(1.0 / (tick_seconds * hz_limit))\<close>: a product that underflows to zero, a quotient that
  overflows and NaN each have their own exception.  NaN passes the two comparisons.
\<close>

definition compute_min_emit_interval_ticks :: "pyfloat \<Rightarrow> pyfloat \<Rightarrow> int result" where
  "compute_min_emit_interval_ticks tick_s hz = bindE (checks [
     (pf_le tick_s (Fin 0), ''tick_seconds must be > 0''),
     (pf_le hz (Fin 0), ''hz_limit must be > 0'')]) (\<lambda>_.
     let rate = pf_mul f64_value tick_s hz in
     if rate = Fin 0 then Inl (ZeroDivisionError ''float division by zero'')
     else case pf_div f64_value (Fin 1) rate of
       Fin q \<Rightarrow> Inr (max 1 \<lceil>q\<rceil>)
     | NaN \<Rightarrow> Inl (ValueError ''cannot convert float NaN to integer'')
     | _ \<Rightarrow> Inl (OverflowError ''cannot convert float infinity to integer''))"

section \<open>The buffer\<close>

record 'a stream_buffer =
  tick_seconds :: pyfloat
  hz_limit :: pyfloat
  min_emit_interval :: int
  last_emitted_tick :: "int option"
  pending_source :: "'a option"
  pending_tick :: "int option"
  dropped_since_last :: int
  frame_seq_next :: int
  buffer_counts :: buffer_stats

definition make_stream_buffer :: "pyfloat \<Rightarrow> pyfloat \<Rightarrow> int option \<Rightarrow> int option \<Rightarrow> 'a option \<Rightarrow> int option \<Rightarrow>
    int \<Rightarrow> int \<Rightarrow> buffer_stats \<Rightarrow> 'a stream_buffer result" where
  "make_stream_buffer tick_s hz interval last_tick source pending dropped seq stats = bindE (checks [
     (pf_le tick_s (Fin 0), ''tick_seconds must be > 0''),
     (pf_le hz (Fin 0), ''hz_limit must be > 0'')]) (\<lambda>_.
     bindE (case interval of Some k \<Rightarrow> Inr k | None \<Rightarrow> compute_min_emit_interval_ticks tick_s hz) (\<lambda>k.
     bindE (checks [
       (k < 1, ''min_emit_interval_ticks must be >= 1''),
       (case last_tick of None \<Rightarrow> False | Some t \<Rightarrow> t < 0, ''last_emitted_tick must be >= 0''),
       (case pending of None \<Rightarrow> False | Some t \<Rightarrow> t < 0, ''_pending_snapshot_tick must be >= 0''),
       (dropped < 0 \<or> seq < 0, ''internal counters must be >= 0'')]) (\<lambda>_.
     Inr \<lparr>tick_seconds = tick_s, hz_limit = hz, min_emit_interval = k, last_emitted_tick = last_tick,
       pending_source = source, pending_tick = pending, dropped_since_last = dropped,
       frame_seq_next = seq, buffer_counts = stats\<rparr>)))"

text \<open>A buffer with the defaults of the dataclass.\<close>

definition new_stream_buffer :: "pyfloat \<Rightarrow> pyfloat \<Rightarrow> 'a stream_buffer result" where
  "new_stream_buffer tick_s hz = bindE (make_buffer_stats 0 0 0 0) (make_stream_buffer tick_s hz None None None None 0 0)"

definition has_pending_snapshot :: "'a stream_buffer \<Rightarrow> bool" where
  "has_pending_snapshot b = (pending_tick b \<noteq> None)"

definition is_emit_due :: "'a stream_buffer \<Rightarrow> int \<Rightarrow> bool" where
  "is_emit_due b tick = (case last_emitted_tick b of None \<Rightarrow> True | Some t \<Rightarrow> min_emit_interval b \<le> tick - t)"

definition emit_pending :: "int \<Rightarrow> bool \<Rightarrow> 'a stream_buffer \<Rightarrow> ('a emission \<times> 'a stream_buffer) result" where
  "emit_pending now forced b =
     bindE (make_emission (pending_source b) (the (pending_tick b)) now (frame_seq_next b) (dropped_since_last b) forced) (\<lambda>e.
     let stats = buffer_counts b in
     Inr (e, b\<lparr>frame_seq_next := frame_seq_next b + 1, last_emitted_tick := Some now, pending_source := None,
       pending_tick := None, dropped_since_last := 0,
       buffer_counts := stats\<lparr>emitted := emitted stats + 1,
         forced_emits := forced_emits stats + (if forced then 1 else 0)\<rparr>\<rparr>))"

definition poll :: "int \<Rightarrow> bool \<Rightarrow> 'a stream_buffer \<Rightarrow> ('a emission option \<times> 'a stream_buffer) result" where
  "poll tick forced b = bindE (checks [(tick < 0, ''tick must be >= 0'')]) (\<lambda>_.
     if \<not> has_pending_snapshot b then Inr (None, b)
     else if \<not> forced \<and> \<not> is_emit_due b tick then Inr (None, b)
     else bindE (emit_pending tick forced b) (\<lambda>(e, b'). Inr (Some e, b')))"

definition offer :: "'a \<Rightarrow> int \<Rightarrow> bool \<Rightarrow> 'a stream_buffer \<Rightarrow> ('a emission option \<times> 'a stream_buffer) result" where
  "offer source tick forced b = bindE (checks [(tick < 0, ''tick must be >= 0'')]) (\<lambda>_.
     let stats = buffer_counts b;
         b1 = b\<lparr>buffer_counts := stats\<lparr>offered := offered stats + 1\<rparr>\<rparr>;
         b2 = (if has_pending_snapshot b1
               then b1\<lparr>dropped_since_last := dropped_since_last b1 + 1,
                 buffer_counts := (buffer_counts b1)\<lparr>dropped_coalesced := dropped_coalesced (buffer_counts b1) + 1\<rparr>\<rparr>
               else b1)
     in poll tick forced (b2\<lparr>pending_source := Some source, pending_tick := Some tick\<rparr>))"

definition flush :: "int \<Rightarrow> 'a stream_buffer \<Rightarrow> ('a emission option \<times> 'a stream_buffer) result" where
  "flush tick b = poll tick True b"

definition clear_pending :: "'a stream_buffer \<Rightarrow> 'a stream_buffer" where
  "clear_pending b =
     (let b1 = (if has_pending_snapshot b
                then b\<lparr>dropped_since_last := dropped_since_last b + 1,
                  buffer_counts := (buffer_counts b)\<lparr>dropped_coalesced := dropped_coalesced (buffer_counts b) + 1\<rparr>\<rparr>
                else b)
      in b1\<lparr>pending_source := None, pending_tick := None\<rparr>)"

section \<open>Sequences of calls\<close>

text \<open>What the simulation and the viewers may ask of a buffer, and the answers to a list of calls.\<close>

datatype 'a buffer_call = Offer 'a int bool | Poll int bool | Flush int | Clear

fun answer_call :: "'a buffer_call \<Rightarrow> 'a stream_buffer \<Rightarrow> ('a emission option \<times> 'a stream_buffer) result" where
  "answer_call (Offer x tick forced) b = offer x tick forced b"
| "answer_call (Poll tick forced) b = poll tick forced b"
| "answer_call (Flush tick) b = flush tick b"
| "answer_call Clear b = Inr (None, clear_pending b)"

definition serve_calls :: "'a buffer_call list \<Rightarrow> 'a stream_buffer \<Rightarrow> ('a emission option list \<times> 'a stream_buffer) result" where
  "serve_calls cs b = foldE (\<lambda>c (as, b). bindE (answer_call c b) (\<lambda>(a, b'). Inr (as @ [a], b'))) cs ([], b)"

fun call_tick :: "'a buffer_call \<Rightarrow> int" where
  "call_tick (Offer x tick forced) = tick"
| "call_tick (Poll tick forced) = tick"
| "call_tick (Flush tick) = tick"
| "call_tick Clear = 0"

fun latest_offer :: "('a \<times> int) option \<Rightarrow> 'a buffer_call list \<Rightarrow> ('a \<times> int) option" where
  "latest_offer lt [] = lt"
| "latest_offer lt (Offer x tick forced # cs) = latest_offer (Some (x, tick)) cs"
| "latest_offer lt (c # cs) = latest_offer lt cs"

definition emissions :: "'a emission option list \<Rightarrow> 'a emission list" where
  "emissions as = map the (filter (\<lambda>a. a \<noteq> None) as)"

text \<open>An emission that was not forced comes at least an interval after the one before it.\<close>

definition throttled :: "int \<Rightarrow> 'a emission list \<Rightarrow> bool" where
  "throttled k es \<longleftrightarrow> (\<forall>i. Suc i < length es \<longrightarrow> \<not> emission_forced (es ! Suc i) \<longrightarrow>
     k \<le> emitted_at_tick (es ! Suc i) - emitted_at_tick (es ! i))"

text \<open>The counters of a buffer, read against the emissions it has made and the latest offer.\<close>

definition pending_is :: "('a \<times> int) option \<Rightarrow> 'a stream_buffer \<Rightarrow> bool" where
  "pending_is lt b \<longleftrightarrow> (pending_tick b = None \<and> pending_source b = None) \<or>
     (\<exists>x t. lt = Some (x, t) \<and> 0 \<le> t \<and> pending_source b = Some x \<and> pending_tick b = Some t)"

definition balanced :: "'a emission list \<Rightarrow> 'a stream_buffer \<Rightarrow> bool" where
  "balanced es b \<longleftrightarrow> (let st = buffer_counts b in
     frame_seq_next b = int (length es) \<and> emitted st = int (length es) \<and>
     forced_emits st = int (length (filter emission_forced es)) \<and>
     offered st = emitted st + dropped_coalesced st + (if has_pending_snapshot b then 1 else 0) \<and>
     dropped_coalesced st = sum_list (map dropped_before es) + dropped_since_last b \<and> 0 \<le> dropped_since_last b)"

definition buffer_inv :: "int \<Rightarrow> ('a \<times> int) option \<Rightarrow> 'a emission list \<Rightarrow> 'a stream_buffer \<Rightarrow> bool" where
  "buffer_inv k lt es b \<longleftrightarrow> min_emit_interval b = k \<and> balanced es b \<and> pending_is lt b \<and>
     last_emitted_tick b = (if es = [] then None else Some (emitted_at_tick (last es))) \<and>
     map frame_seq es = map int [0..<length es] \<and> throttled k es"

lemma emissions_snoc: "emissions (as @ [a]) = emissions as @ (case a of None \<Rightarrow> [] | Some e \<Rightarrow> [e])"
  by (simp add: emissions_def split: option.split)

lemma latest_offer_append: "latest_offer lt (cs @ ds) = latest_offer (latest_offer lt cs) ds"
  by (induction lt cs rule: latest_offer.induct) simp_all

lemma throttled_snoc:
  assumes "throttled k es" "es \<noteq> [] \<Longrightarrow> \<not> emission_forced e \<Longrightarrow> k \<le> emitted_at_tick e - emitted_at_tick (last es)"
  shows "throttled k (es @ [e])"
  unfolding throttled_def
proof (intro allI impI)
  fix i assume i: "Suc i < length (es @ [e])" "\<not> emission_forced ((es @ [e]) ! Suc i)"
  show "k \<le> emitted_at_tick ((es @ [e]) ! Suc i) - emitted_at_tick ((es @ [e]) ! i)"
  proof (cases "Suc i < length es")
    case True
    then show ?thesis using i assms(1) by (simp add: throttled_def nth_append)
  next
    case False
    then have e: "Suc i = length es" using i by simp
    then have "es \<noteq> []" "i = length es - 1" by auto
    then have "es ! i = last es" "es \<noteq> []" by (simp_all add: last_conv_nth)
    then show ?thesis using i e assms(2) by (simp add: nth_append)
  qed
qed

lemma poll_inv:
  assumes "0 \<le> tick" and inv: "buffer_inv k lt es b"
  obtains a b' where "poll tick forced b = Inr (a, b')"
    "buffer_inv k lt (es @ (case a of None \<Rightarrow> [] | Some e \<Rightarrow> [e])) b'"
    "\<And>e. a = Some e \<Longrightarrow> \<exists>x t. lt = Some (x, t) \<and> snapshot_source e = Some x \<and> snapshot_tick e = t"
proof (cases "has_pending_snapshot b \<and> (forced \<or> is_emit_due b tick)")
  case False
  then have "poll tick forced b = Inr (None, b)" using assms(1) by (auto simp: poll_def check_eval)
  then show ?thesis by (rule that) (use inv in simp_all)
next
  case True
  then obtain x t where lt: "lt = Some (x, t)" "0 \<le> t" "pending_source b = Some x" "pending_tick b = Some t"
    using inv by (auto simp: buffer_inv_def pending_is_def has_pending_snapshot_def)
  define e where "e = \<lparr>snapshot_source = Some x, snapshot_tick = t, emitted_at_tick = tick,
    frame_seq = int (length es), dropped_before = dropped_since_last b, emission_forced = forced\<rparr>"
  have seq: "frame_seq_next b = int (length es)" and dr: "0 \<le> dropped_since_last b"
    using inv by (simp_all add: buffer_inv_def balanced_def Let_def)
  define b' where "b' = b\<lparr>frame_seq_next := frame_seq_next b + 1, last_emitted_tick := Some tick, pending_source := None,
    pending_tick := None, dropped_since_last := 0, buffer_counts := (buffer_counts b)\<lparr>emitted := emitted (buffer_counts b) + 1,
      forced_emits := forced_emits (buffer_counts b) + (if forced then 1 else 0)\<rparr>\<rparr>"
  have run: "poll tick forced b = Inr (Some e, b')"
    using True assms(1) lt seq dr
    by (simp add: poll_def emit_pending_def make_emission_def check_eval e_def b'_def Let_def)
  have "es \<noteq> [] \<Longrightarrow> \<not> forced \<Longrightarrow> k \<le> tick - emitted_at_tick (last es)"
    using True inv by (simp add: buffer_inv_def is_emit_due_def)
  then have "throttled k (es @ [e])"
    using inv by (intro throttled_snoc) (simp_all add: buffer_inv_def e_def)
  moreover have "balanced (es @ [e]) b'"
    using inv True by (simp add: buffer_inv_def balanced_def Let_def e_def b'_def has_pending_snapshot_def)
  ultimately have "buffer_inv k lt (es @ [e]) b'"
    using inv by (simp add: buffer_inv_def pending_is_def e_def b'_def)
  then show ?thesis by (intro that[OF run]) (use lt in \<open>auto simp: e_def\<close>)
qed

text \<open>An offer is the arrival of a snapshot, which drops the one that waits, and a poll.\<close>

definition arrive :: "'a \<Rightarrow> int \<Rightarrow> 'a stream_buffer \<Rightarrow> 'a stream_buffer" where
  "arrive x tick b = (clear_pending b)\<lparr>pending_source := Some x, pending_tick := Some tick,
     buffer_counts := (buffer_counts (clear_pending b))\<lparr>offered := offered (buffer_counts b) + 1\<rparr>\<rparr>"

lemma offer_is_arrival: "0 \<le> tick \<Longrightarrow> offer x tick forced b = poll tick forced (arrive x tick b)"
  by (cases b; cases "buffer_counts b")
    (simp add: offer_def check_eval arrive_def clear_pending_def has_pending_snapshot_def Let_def)

lemma clear_inv: "buffer_inv k lt es b \<Longrightarrow> buffer_inv k lt' es (clear_pending b)"
  by (simp add: buffer_inv_def balanced_def pending_is_def clear_pending_def has_pending_snapshot_def Let_def)

lemma arrive_inv: "0 \<le> tick \<Longrightarrow> buffer_inv k lt es b \<Longrightarrow> buffer_inv k (Some (x, tick)) es (arrive x tick b)"
  by (simp add: buffer_inv_def balanced_def pending_is_def arrive_def clear_pending_def has_pending_snapshot_def Let_def)

lemma call_inv:
  assumes "0 \<le> call_tick c" and inv: "buffer_inv k lt es b"
  obtains a b' where "answer_call c b = Inr (a, b')"
    "buffer_inv k (latest_offer lt [c]) (es @ (case a of None \<Rightarrow> [] | Some e \<Rightarrow> [e])) b'"
    "\<And>e. a = Some e \<Longrightarrow> \<exists>x t. latest_offer lt [c] = Some (x, t) \<and> snapshot_source e = Some x \<and> snapshot_tick e = t"
proof (cases c)
  case (Offer x tick forced)
  then show ?thesis
    using poll_inv[of tick k "Some (x, tick)" es "arrive x tick b" forced] arrive_inv[of tick k lt es b x] assms that
    by (simp add: offer_is_arrival) blast
next
  case (Poll tick forced)
  then show ?thesis using poll_inv[of tick k lt es b forced] assms that by simp blast
next
  case (Flush tick)
  then show ?thesis using poll_inv[of tick k lt es b True] assms that by (simp add: flush_def) blast
next
  case Clear
  then show ?thesis using clear_inv[OF inv] that by simp
qed

lemma serve_snoc:
  "serve_calls (cs @ [c]) b = bindE (serve_calls cs b) (\<lambda>(as, b). bindE (answer_call c b) (\<lambda>(a, b'). Inr (as @ [a], b')))"
  unfolding serve_calls_def foldE_append by (simp add: bindE_def split: sum.splits prod.splits)

text \<open>Every emission answers with the snapshot offered last.\<close>

definition answers_fresh :: "'a buffer_call list \<Rightarrow> 'a emission option list \<Rightarrow> bool" where
  "answers_fresh cs as \<longleftrightarrow> length as = length cs \<and> (\<forall>i e. i < length cs \<longrightarrow> as ! i = Some e \<longrightarrow>
     latest_offer None (take (Suc i) cs) = Some (the (snapshot_source e), snapshot_tick e) \<and> snapshot_source e \<noteq> None)"

lemma answers_fresh_snoc:
  assumes "answers_fresh cs as"
    "\<And>e. a = Some e \<Longrightarrow> \<exists>x t. latest_offer None (cs @ [c]) = Some (x, t) \<and> snapshot_source e = Some x \<and> snapshot_tick e = t"
  shows "answers_fresh (cs @ [c]) (as @ [a])"
  using assms unfolding answers_fresh_def by (auto simp: nth_append less_Suc_eq)

lemma serve_inv:
  assumes "buffer_inv k None [] b" "\<forall>c \<in> set cs. 0 \<le> call_tick c"
  shows "\<exists>as b'. serve_calls cs b = Inr (as, b') \<and> buffer_inv k (latest_offer None cs) (emissions as) b' \<and> answers_fresh cs as"
  using assms(2)
proof (induction cs rule: rev_induct)
  case Nil
  then show ?case using assms(1) by (simp add: serve_calls_def emissions_def answers_fresh_def)
next
  case (snoc c cs)
  then obtain as b' where run: "serve_calls cs b = Inr (as, b')" "answers_fresh cs as"
    and inv: "buffer_inv k (latest_offer None cs) (emissions as) b'" by auto
  have "0 \<le> call_tick c" using snoc.prems by simp
  then obtain a b'' where a: "answer_call c b' = Inr (a, b'')"
    "buffer_inv k (latest_offer (latest_offer None cs) [c]) (emissions as @ (case a of None \<Rightarrow> [] | Some e \<Rightarrow> [e])) b''"
    "\<And>e. a = Some e \<Longrightarrow> \<exists>x t. latest_offer (latest_offer None cs) [c] = Some (x, t) \<and> snapshot_source e = Some x \<and> snapshot_tick e = t"
    using call_inv[OF _ inv] by metis
  have "answers_fresh (cs @ [c]) (as @ [a])"
    using answers_fresh_snoc[OF run(2)] a(3) by (simp add: latest_offer_append)
  then show ?case
    using run(1) a(1,2) by (simp add: serve_snoc emissions_snoc latest_offer_append)
qed

lemma new_buffer_inv:
  assumes "new_stream_buffer tick_s hz = Inr b" shows "buffer_inv (min_emit_interval b) None [] b" and "1 \<le> min_emit_interval b"
  using assms by (auto simp: new_stream_buffer_def make_buffer_stats_def make_stream_buffer_def check_simps buffer_inv_def
    balanced_def pending_is_def has_pending_snapshot_def throttled_def Let_def)

section \<open>What a viewer sees\<close>

text \<open>C27: Along every sequence of calls on a new buffer no call raises; the frames are numbered without
  a gap, each emission carries the snapshot offered last, and one that was not forced comes at least the
  minimum interval after the emission before it.  Every offered snapshot is emitted, counted as
  dropped, or still waiting, and the drops are those the emissions report and those since the last one.\<close>

theorem stream_throttled:
  assumes "new_stream_buffer tick_s hz = Inr b" "\<forall>c \<in> set cs. 0 \<le> call_tick c"
  shows "\<exists>as b'. serve_calls cs b = Inr (as, b') \<and> answers_fresh cs as \<and>
    throttled (min_emit_interval b) (emissions as) \<and> 1 \<le> min_emit_interval b \<and>
    map frame_seq (emissions as) = map int [0..<length (emissions as)] \<and> balanced (emissions as) b'"
  using serve_inv[OF new_buffer_inv(1)[OF assms(1)] assms(2)] new_buffer_inv(2)[OF assms(1)]
  by (fastforce simp: buffer_inv_def)

text \<open>Two ticks between emissions: the offer at tick 1 waits and is replaced, the one at tick 2 is emitted; the
  forced emission at tick 3 makes the offer at tick 4 wait.\<close>

definition two_tick_buffer :: "nat stream_buffer" where
  "two_tick_buffer = \<lparr>tick_seconds = Fin 1, hz_limit = Fin (1 / 2), min_emit_interval = 2, last_emitted_tick = None,
     pending_source = None, pending_tick = None, dropped_since_last = 0, frame_seq_next = 0,
     buffer_counts = \<lparr>offered = 0, emitted = 0, dropped_coalesced = 0, forced_emits = 0\<rparr>\<rparr>"

lemma two_tick_buffer_new: "new_stream_buffer (Fin 1) (Fin (1 / 2)) = Inr two_tick_buffer"
proof -
  have r: "r64 (1 / 2) = 1 / 2" "r64 2 = 2" by (simp_all add: float_eval)
  have v: "f64_value (1 / 2) = Fin (1 / 2)" "f64_value 2 = Fin 2" unfolding f64_value_def r by simp_all
  have "compute_min_emit_interval_ticks (Fin 1) (Fin (1 / 2)) = Inr 2"
    by (simp add: compute_min_emit_interval_ticks_def check_eval v)
  then show ?thesis
    by (simp add: new_stream_buffer_def make_buffer_stats_def make_stream_buffer_def check_eval two_tick_buffer_def)
qed

lemma stream_throttled_witness:
  "\<exists>as b'. serve_calls [Offer 10 0 False, Offer 11 1 False, Offer 12 2 False, Offer 13 3 True, Offer 14 4 False] two_tick_buffer
     = Inr (as, b') \<and> answers_fresh [Offer 10 0 False, Offer 11 1 False, Offer 12 2 False, Offer 13 3 True, Offer 14 4 False] as \<and>
    throttled 2 (emissions as) \<and> balanced (emissions as) b'"
  using stream_throttled[OF two_tick_buffer_new,
    of "[Offer 10 0 False, Offer 11 1 False, Offer 12 2 False, Offer 13 3 True, Offer 14 4 False]"]
  by (simp add: two_tick_buffer_def) blast

text \<open>The docstring says that a forced emission leaves the cadence alone.  It does not: the next emission
  that is not forced is due an interval after the forced one.\<close>

theorem forced_emission_moves_cadence:
  "bindE (serve_calls [Offer 10 0 False, Offer 11 1 True, Offer 12 2 False] two_tick_buffer) (\<lambda>(as, b). Inr (map (\<lambda>a. a = None) as))
     = Inr [False, False, True]"
  "bindE (serve_calls [Offer 10 0 False, Offer 11 1 False, Offer 12 2 False] two_tick_buffer) (\<lambda>(as, b). Inr (map (\<lambda>a. a = None) as))
     = Inr [False, True, False]"
  by (simp_all add: serve_calls_def offer_def poll_def emit_pending_def make_emission_def is_emit_due_def has_pending_snapshot_def
    two_tick_buffer_def check_eval Let_def)

end
