(* ===== verification/PolicyBlend.thy ===== *)
theory PolicyBlend
  imports PyFloatOps
begin

text \<open>
  The controller that decides, tick by tick, how far learned route preferences are mixed into the
  baseline (src/src/metroflow/learning/policy_blend.py), with the bounds of the mix from
  src/src/metroflow/sim/config.py.  A mix coefficient enters as any Python float and is a rational in
  [0, 1] once a state has been built; \<^verbatim>\<open>replace\<close> builds a new state and so repeats the check.  The
  metadata dictionary, which nothing reads, is left out.
\<close>

section \<open>Bounds and state\<close>

record mix_bounds =
  lambda_min :: rat
  lambda_max :: rat

definition in_unit :: "pyfloat \<Rightarrow> bool" where
  "in_unit x \<longleftrightarrow> pf_le (Fin 0) x \<and> pf_le x (Fin 1)"

definition make_mix_bounds :: "pyfloat \<Rightarrow> pyfloat \<Rightarrow> mix_bounds result" where
  "make_mix_bounds lo hi = bindE (checks [
     (\<not> in_unit lo, ''lambda_min must be in [0, 1]''),
     (\<not> in_unit hi, ''lambda_max must be in [0, 1]''),
     (pf_lt hi lo, ''lambda_min must be <= lambda_max'')]) (\<lambda>_.
     Inr \<lparr>lambda_min = finite_part lo, lambda_max = finite_part hi\<rparr>)"

datatype fallback_cause = Instability | NoSignal | InvalidOutput | IncidentMode

record blend_state =
  lambda_mix :: rat
  fallback_triggered :: bool
  fallback_reason :: "fallback_cause option"
  baseline_only_mode :: bool

definition make_blend_state :: "pyfloat \<Rightarrow> bool \<Rightarrow> fallback_cause option \<Rightarrow> bool \<Rightarrow> blend_state result" where
  "make_blend_state lam triggered reason baseline_only = bindE (checks [
     (\<not> in_unit lam, ''lambda_mix must be in [0, 1]'')]) (\<lambda>_.
     Inr \<lparr>lambda_mix = finite_part lam, fallback_triggered = triggered, fallback_reason = reason,
       baseline_only_mode = baseline_only\<rparr>)"

definition default_blend_state :: blend_state where
  "default_blend_state = \<lparr>lambda_mix = 0, fallback_triggered = False, fallback_reason = None, baseline_only_mode = True\<rparr>"

definition adaptive_enabled :: "blend_state \<Rightarrow> bool" where
  "adaptive_enabled s \<longleftrightarrow> \<not> baseline_only_mode s \<and> 0 < lambda_mix s"

section \<open>The mix coefficient\<close>

definition compute_policy_mix_lambda :: "pyfloat \<Rightarrow> mix_bounds \<Rightarrow> bool \<Rightarrow> pyfloat" where
  "compute_policy_mix_lambda target b learning =
     (if \<not> learning then Fin 0
      else let clipped = py_min (Fin (lambda_max b)) (py_max (Fin (lambda_min b)) target)
           in py_min (Fin 1) (py_max (Fin 0) clipped))"

definition with_lambda :: "blend_state \<Rightarrow> pyfloat \<Rightarrow> mix_bounds option \<Rightarrow> blend_state result" where
  "with_lambda s lam bounds =
     (let next_lambda = (case bounds of Some b \<Rightarrow> compute_policy_mix_lambda lam b True
                         | None \<Rightarrow> py_min (Fin 1) (py_max (Fin 0) lam))
      in make_blend_state next_lambda False None (pf_le next_lambda (Fin 0)))"

section \<open>The controller\<close>

definition fallback_to_baseline :: "blend_state \<Rightarrow> fallback_cause \<Rightarrow> pyfloat option \<Rightarrow> blend_state result" where
  "fallback_to_baseline s reason lam =
     (let next_lambda = (case lam of None \<Rightarrow> Fin (lambda_mix s) | Some l \<Rightarrow> py_min (Fin 1) (py_max (Fin 0) l))
      in make_blend_state next_lambda True (Some reason) True)"

record blend_signals =
  learning_enabled :: bool
  incident_mode :: bool
  signal_available :: bool
  output_valid :: bool

definition retarget :: "blend_state \<Rightarrow> pyfloat option \<Rightarrow> mix_bounds option \<Rightarrow> bool \<Rightarrow> blend_state result" where
  "retarget s target bounds learning = (case target of None \<Rightarrow> Inr s
     | Some t \<Rightarrow> (case bounds of None \<Rightarrow> with_lambda s t None
       | Some b \<Rightarrow> bindE (make_blend_state (compute_policy_mix_lambda t b learning) False None (\<not> learning)) (\<lambda>s1.
           if lambda_mix s1 \<le> 0
           then make_blend_state (Fin (lambda_mix s1)) (fallback_triggered s1) (fallback_reason s1) True
           else if learning
           then make_blend_state (Fin (lambda_mix s1)) (fallback_triggered s1) (fallback_reason s1) False
           else Inr s1)))"

definition apply_policy_blend_control :: "blend_state \<Rightarrow> pyfloat option \<Rightarrow> mix_bounds option \<Rightarrow> blend_signals \<Rightarrow> blend_state result" where
  "apply_policy_blend_control s target bounds sig =
     bindE (retarget s target bounds (learning_enabled sig)) (\<lambda>s1.
     if \<not> learning_enabled sig then fallback_to_baseline s1 NoSignal (Some (Fin 0))
     else if incident_mode sig then fallback_to_baseline s1 IncidentMode None
     else if \<not> signal_available sig then fallback_to_baseline s1 NoSignal None
     else if \<not> output_valid sig then fallback_to_baseline s1 InvalidOutput None
     else make_blend_state (Fin (lambda_mix s1)) False None (baseline_only_mode s1))"

section \<open>Blended scores\<close>

text \<open>
  The arithmetic of \<^verbatim>\<open>(1.0 - lam) * baseline + lam * adaptive\<close> in float32, element by element; the
  Python literal takes the type of the array (NumPy 2).
\<close>

definition mix_elements :: "rat \<Rightarrow> pyfloat list \<Rightarrow> pyfloat list \<Rightarrow> pyfloat list" where
  "mix_elements lam baseline adaptive = (let l = r32 lam; rest = r32 (1 - l) in
     map2 (\<lambda>x y. pf_add f32_value (pf_mul f32_value (Fin rest) x) (pf_mul f32_value (Fin l) y)) baseline adaptive)"

definition blend_route_scores :: "pyfloat list \<Rightarrow> pyfloat list option \<Rightarrow> blend_state \<Rightarrow> pyfloat list" where
  "blend_route_scores baseline_scores adaptive_scores s =
     (let baseline = map as_f32 baseline_scores in
      case adaptive_scores of None \<Rightarrow> baseline
      | Some scores \<Rightarrow>
          if baseline_only_mode s \<or> lambda_mix s \<le> 0 then baseline
          else let adaptive = map as_f32 scores in
               if length adaptive \<noteq> length baseline then baseline
               else if \<exists>y \<in> set adaptive. \<not> isfinite y then baseline
               else mix_elements (lambda_mix s) baseline adaptive)"

section \<open>The controller always answers with a state of its type\<close>

definition blend_ok :: "blend_state \<Rightarrow> bool" where
  "blend_ok s \<longleftrightarrow> 0 \<le> lambda_mix s \<and> lambda_mix s \<le> 1 \<and> (fallback_triggered s \<longleftrightarrow> fallback_reason s \<noteq> None) \<and>
     (fallback_triggered s \<longrightarrow> baseline_only_mode s)"

definition bounds_ok :: "mix_bounds \<Rightarrow> bool" where
  "bounds_ok b \<longleftrightarrow> 0 \<le> lambda_min b \<and> lambda_min b \<le> lambda_max b \<and> lambda_max b \<le> 1"

lemma make_mix_bounds_ok: "make_mix_bounds lo hi = Inr b \<Longrightarrow> bounds_ok b"
  by (cases lo; cases hi) (auto simp: make_mix_bounds_def in_unit_def check_simps bounds_ok_def)

lemma make_blend_state_eq [simp]:
  "0 \<le> lam \<Longrightarrow> lam \<le> 1 \<Longrightarrow> make_blend_state (Fin lam) trig reason base =
    Inr \<lparr>lambda_mix = lam, fallback_triggered = trig, fallback_reason = reason, baseline_only_mode = base\<rparr>"
  by (simp add: make_blend_state_def in_unit_def check_eval)

text \<open>Whatever the target is, NaN included, the coefficient lies within its bounds, and a target within the bounds is taken.\<close>

lemma mix_lambda_bounded:
  assumes "bounds_ok b"
  obtains l where "compute_policy_mix_lambda target b True = Fin l" "lambda_min b \<le> l" "l \<le> lambda_max b"
    "\<And>t. target = Fin t \<Longrightarrow> lambda_min b \<le> t \<Longrightarrow> t \<le> lambda_max b \<Longrightarrow> l = t"
proof -
  obtain c where c: "py_min (Fin (lambda_max b)) (py_max (Fin (lambda_min b)) target) = Fin c"
    "lambda_min b \<le> c" "c \<le> lambda_max b"
    using py_clamp assms unfolding bounds_ok_def by blast
  have "compute_policy_mix_lambda target b True = Fin c"
    using c assms by (simp add: compute_policy_mix_lambda_def bounds_ok_def py_clamp_inside)
  moreover have "c = t" if "target = Fin t" "lambda_min b \<le> t" "t \<le> lambda_max b" for t
    using c(1) py_clamp_inside[OF that(2,3)] that(1) by simp
  ultimately show ?thesis using c(2,3) that by blast
qed

lemma retarget_spec:
  assumes "blend_ok s" "\<And>b. bounds = Some b \<Longrightarrow> bounds_ok b"
  obtains s1 where "retarget s target bounds learning = Inr s1" "0 \<le> lambda_mix s1" "lambda_mix s1 \<le> 1"
    "target = None \<Longrightarrow> s1 = s"
    "target \<noteq> None \<Longrightarrow> learning \<Longrightarrow> baseline_only_mode s1 \<longleftrightarrow> lambda_mix s1 \<le> 0"
    "\<And>b. target \<noteq> None \<Longrightarrow> learning \<Longrightarrow> bounds = Some b \<Longrightarrow> lambda_min b \<le> lambda_mix s1 \<and> lambda_mix s1 \<le> lambda_max b"
proof (cases target)
  case None
  then show ?thesis using assms(1) that by (simp add: retarget_def blend_ok_def)
next
  case (Some t)
  show ?thesis
  proof (cases bounds)
    case None
    obtain l where "py_min (Fin 1) (py_max (Fin 0) t) = Fin l" "0 \<le> l" "l \<le> 1" using py_clamp[of 0 1 t] by auto
    then have "retarget s target bounds learning =
        Inr \<lparr>lambda_mix = l, fallback_triggered = False, fallback_reason = None, baseline_only_mode = l \<le> 0\<rparr>"
      using Some None by (simp add: retarget_def with_lambda_def)
    then show ?thesis by (rule that) (use \<open>0 \<le> l\<close> \<open>l \<le> 1\<close> Some None in simp_all)
  next
    case (Some b)
    have b: "bounds_ok b" using assms(2) Some .
    obtain l where l: "compute_policy_mix_lambda t b learning = Fin l" "0 \<le> l" "l \<le> 1"
      "learning \<Longrightarrow> lambda_min b \<le> l \<and> l \<le> lambda_max b"
    proof (cases learning)
      case True
      obtain l where "compute_policy_mix_lambda t b True = Fin l" "lambda_min b \<le> l" "l \<le> lambda_max b"
        by (rule mix_lambda_bounded[OF b])
      then show ?thesis using that[of l] True b by (auto simp: bounds_ok_def)
    qed (use that[of 0] in \<open>simp add: compute_policy_mix_lambda_def\<close>)
    have "retarget s target bounds learning = Inr \<lparr>lambda_mix = l, fallback_triggered = False, fallback_reason = None,
        baseline_only_mode = (l \<le> 0 \<or> \<not> learning)\<rparr>"
      using \<open>target = Some t\<close> Some l by (simp add: retarget_def)
    then show ?thesis by (rule that) (use l Some \<open>target = Some t\<close> in simp_all)
  qed
qed

text \<open>The first cause that applies, in the order of the controller.\<close>

fun cause_of :: "blend_signals \<Rightarrow> fallback_cause option" where
  "cause_of sig = (if \<not> learning_enabled sig then Some NoSignal else if incident_mode sig then Some IncidentMode
     else if \<not> signal_available sig then Some NoSignal else if \<not> output_valid sig then Some InvalidOutput else None)"

lemma blend_control_spec:
  assumes "blend_ok s" "\<forall>b. bounds = Some b \<longrightarrow> bounds_ok b"
  shows "\<exists>s'. apply_policy_blend_control s target bounds sig = Inr s' \<and> blend_ok s' \<and>
    fallback_reason s' = cause_of sig \<and>
    (baseline_only_mode s' \<longleftrightarrow> cause_of sig \<noteq> None \<or> (if target = None then baseline_only_mode s else lambda_mix s' \<le> 0)) \<and>
    (if \<not> learning_enabled sig then lambda_mix s' = 0
     else if target = None then lambda_mix s' = lambda_mix s
     else \<forall>b. bounds = Some b \<longrightarrow> lambda_min b \<le> lambda_mix s' \<and> lambda_mix s' \<le> lambda_max b)"
proof -
  obtain s1 where s1: "retarget s target bounds (learning_enabled sig) = Inr s1" "0 \<le> lambda_mix s1" "lambda_mix s1 \<le> 1"
    "target = None \<Longrightarrow> s1 = s"
    "target \<noteq> None \<Longrightarrow> learning_enabled sig \<Longrightarrow> baseline_only_mode s1 \<longleftrightarrow> lambda_mix s1 \<le> 0"
    "\<And>b. target \<noteq> None \<Longrightarrow> learning_enabled sig \<Longrightarrow> bounds = Some b \<Longrightarrow> lambda_min b \<le> lambda_mix s1 \<and> lambda_mix s1 \<le> lambda_max b"
    using retarget_spec[OF assms(1)] assms(2) by metis
  show ?thesis
  proof (cases "learning_enabled sig")
    case False
    then show ?thesis
      using s1(1) by (simp add: apply_policy_blend_control_def fallback_to_baseline_def py_clamp_inside blend_ok_def)
  next
    case True
    then show ?thesis
      using s1 by (cases target) (simp_all add: apply_policy_blend_control_def fallback_to_baseline_def blend_ok_def)
  qed
qed

text \<open>C26: For a state of its type and bounds that passed their check the controller never raises, whatever the
  target (NaN and the infinities included), and returns a state of the type: a coefficient within the
  bounds, zero when learning is off and unchanged without a target, the first cause of a fallback that
  applies, and baseline-only routing exactly under a fallback or when nothing switches the mix on.\<close>

theorem blend_control_typed:
  assumes "blend_ok s" "\<forall>b. bounds = Some b \<longrightarrow> bounds_ok b"
  shows "\<exists>s'. apply_policy_blend_control s target bounds sig = Inr s' \<and> blend_ok s' \<and>
    fallback_reason s' = cause_of sig \<and>
    (baseline_only_mode s' \<longleftrightarrow> cause_of sig \<noteq> None \<or> (if target = None then baseline_only_mode s else lambda_mix s' \<le> 0)) \<and>
    (if \<not> learning_enabled sig then lambda_mix s' = 0
     else if target = None then lambda_mix s' = lambda_mix s
     else \<forall>b. bounds = Some b \<longrightarrow> lambda_min b \<le> lambda_mix s' \<and> lambda_mix s' \<le> lambda_max b)"
  by (rule blend_control_spec[OF assms])

definition mixed_state :: blend_state where
  "mixed_state = \<lparr>lambda_mix = 1 / 2, fallback_triggered = False, fallback_reason = None, baseline_only_mode = False\<rparr>"

definition all_clear :: blend_signals where
  "all_clear = \<lparr>learning_enabled = True, incident_mode = False, signal_available = True, output_valid = True\<rparr>"

lemma blend_control_typed_witness:
  "\<exists>s'. apply_policy_blend_control mixed_state (Some NaN) (Some \<lparr>lambda_min = 1 / 4, lambda_max = 3 / 4\<rparr>) all_clear = Inr s' \<and>
    blend_ok s' \<and> fallback_reason s' = None \<and> 1 / 4 \<le> lambda_mix s' \<and> lambda_mix s' \<le> 3 / 4"
  using blend_control_typed[of mixed_state "Some \<lparr>lambda_min = 1 / 4, lambda_max = 3 / 4\<rparr>" "Some NaN" all_clear]
  by (auto simp: mixed_state_def all_clear_def blend_ok_def bounds_ok_def)

section \<open>A fallback outlives its tick\<close>

text \<open>The controller without a new target, over a list of signals.\<close>

definition control_ticks :: "blend_signals list \<Rightarrow> blend_state \<Rightarrow> blend_state result" where
  "control_ticks sigs s = foldE (\<lambda>sig s. apply_policy_blend_control s None None sig) sigs s"

lemma quiet_tick:
  "blend_ok s \<Longrightarrow> cause_of sig = None \<Longrightarrow> apply_policy_blend_control s None None sig =
     Inr \<lparr>lambda_mix = lambda_mix s, fallback_triggered = False, fallback_reason = None, baseline_only_mode = baseline_only_mode s\<rparr>"
  by (simp add: apply_policy_blend_control_def retarget_def blend_ok_def split: if_splits)

lemma incident_tick:
  "blend_ok s \<Longrightarrow> learning_enabled sig \<Longrightarrow> incident_mode sig \<Longrightarrow> apply_policy_blend_control s None None sig =
     Inr \<lparr>lambda_mix = lambda_mix s, fallback_triggered = True, fallback_reason = Some IncidentMode, baseline_only_mode = True\<rparr>"
  by (simp add: apply_policy_blend_control_def retarget_def fallback_to_baseline_def blend_ok_def)

lemma quiet_ticks_idle:
  assumes "blend_ok s" "baseline_only_mode s" "quiet \<noteq> []" "\<forall>sig \<in> set quiet. cause_of sig = None"
  shows "control_ticks quiet s = Inr \<lparr>lambda_mix = lambda_mix s, fallback_triggered = False, fallback_reason = None, baseline_only_mode = True\<rparr>"
  using assms
proof (induction quiet arbitrary: s)
  case (Cons sig quiet)
  let ?s = "\<lparr>lambda_mix = lambda_mix s, fallback_triggered = False, fallback_reason = None, baseline_only_mode = True\<rparr>"
  have step: "apply_policy_blend_control s None None sig = Inr ?s" using Cons.prems quiet_tick[of s sig] by simp
  have "blend_ok ?s" using Cons.prems(1) by (simp add: blend_ok_def)
  then show ?case
    using Cons.IH[of ?s] Cons.prems(4) step by (cases quiet) (simp_all add: control_ticks_def)
qed simp

text \<open>C39: The fallback of one tick with an incident is meant for that tick.  Without a new target it is
  permanent: after any number of later ticks with every signal clear the state still routes by the
  baseline alone, with the mix coefficient as configured and no fallback recorded.\<close>

theorem fallback_outlives_its_tick:
  assumes "blend_ok s" "adaptive_enabled s" "learning_enabled sig" "incident_mode sig"
    "quiet \<noteq> []" "\<forall>q \<in> set quiet. cause_of q = None"
  shows "\<exists>s'. control_ticks (sig # quiet) s = Inr s' \<and> \<not> adaptive_enabled s' \<and> fallback_reason s' = None \<and>
    lambda_mix s' = lambda_mix s \<and> (\<exists>s''. control_ticks quiet s = Inr s'' \<and> adaptive_enabled s'')"
proof -
  let ?s = "\<lparr>lambda_mix = lambda_mix s, fallback_triggered = True, fallback_reason = Some IncidentMode, baseline_only_mode = True\<rparr>"
  have "blend_ok ?s" using assms(1) by (simp add: blend_ok_def)
  then have "control_ticks (sig # quiet) s =
      Inr \<lparr>lambda_mix = lambda_mix s, fallback_triggered = False, fallback_reason = None, baseline_only_mode = True\<rparr>"
    using incident_tick[OF assms(1,3,4)] quiet_ticks_idle[of ?s quiet] assms(5,6) by (simp add: control_ticks_def)
  moreover have "\<exists>s''. control_ticks quiet s = Inr s'' \<and> adaptive_enabled s''"
    using assms(1,2,6)
  proof (induction quiet arbitrary: s)
    case (Cons q quiet)
    let ?t = "\<lparr>lambda_mix = lambda_mix s, fallback_triggered = False, fallback_reason = None, baseline_only_mode = baseline_only_mode s\<rparr>"
    have "blend_ok ?t" "adaptive_enabled ?t" using Cons.prems by (simp_all add: blend_ok_def adaptive_enabled_def)
    then show ?case using Cons.IH[of ?t] Cons.prems quiet_tick[of s q] by (simp add: control_ticks_def)
  qed (simp add: control_ticks_def)
  ultimately show ?thesis by (simp add: adaptive_enabled_def)
qed

lemma fallback_outlives_its_tick_witness:
  "\<exists>s'. control_ticks [all_clear\<lparr>incident_mode := True\<rparr>, all_clear, all_clear] mixed_state = Inr s' \<and> \<not> adaptive_enabled s' \<and>
    fallback_reason s' = None \<and> lambda_mix s' = 1 / 2"
  using fallback_outlives_its_tick[of mixed_state "all_clear\<lparr>incident_mode := True\<rparr>" "[all_clear, all_clear]"]
  by (auto simp: mixed_state_def all_clear_def blend_ok_def adaptive_enabled_def)

end
