(* ===== verification/PolicyMixer.thy ===== *)
theory PolicyMixer
  imports PolicyBlend
begin

text \<open>
  The choice of a route from mixed scores (src/src/metroflow/routing/policy_mixer.py).  Baseline costs and
  learned rewards are first mapped into preferences in which higher is better, then mixed under the blend
  state of the tick, and the first best preference wins.  Scores are one-dimensional float32 arrays, lists
  of \<open>pyfloat\<close>; literals take the type of the array (NumPy 2).
\<close>

section \<open>Preferences\<close>

definition span_floor :: rat where
  "span_floor = r32 (r64 (1 / 10 ^ 6))"

definition directional :: "bool \<Rightarrow> pyfloat list \<Rightarrow> rat list" where
  "directional prefer_higher arr = map (\<lambda>x. if prefer_higher then finite_part x else - finite_part x) arr"

definition normalize_route_preference_scores_core :: "pyfloat list \<Rightarrow> bool \<Rightarrow> pyfloat list" where
  "normalize_route_preference_scores_core scores prefer_higher =
     (let arr = map as_f32 scores in
      if arr = [] then arr
      else let d = directional prefer_higher arr; lo = Min (set d); hi = Max (set d); span = f32_value (hi - lo);
               divisor = (if pf_le span (Fin span_floor) then Fin span_floor else span);
               normalized = map (\<lambda>x. pf_div f32_value (f32_value (x - lo)) divisor) d;
               stable = (if pf_le span (Fin span_floor) then map (\<lambda>_. Fin 1) normalized else normalized)
           in if \<forall>x \<in> set arr. isfinite x then stable else map (\<lambda>_. Fin 0) stable)"

definition mix_route_candidate_scores_core :: "pyfloat list \<Rightarrow> pyfloat list option \<Rightarrow> blend_state \<Rightarrow> pyfloat list result" where
  "mix_route_candidate_scores_core baseline_preferences adaptive_preferences s =
     (let baseline = map as_f32 baseline_preferences in
      case adaptive_preferences of None \<Rightarrow> Inr baseline
      | Some prefs \<Rightarrow>
          if baseline_only_mode s \<or> lambda_mix s \<le> 0 then Inr baseline
          else bindE (checks [(length prefs \<noteq> length baseline,
              ''adaptive_preferences must match baseline_preferences shape'')]) (\<lambda>_.
            Inr (mix_elements (lambda_mix s) baseline (map as_f32 prefs))))"

section \<open>The selection\<close>

text \<open>\<^verbatim>\<open>np.argmax\<close> and \<^verbatim>\<open>np.argmin\<close>: the first NaN, or else the first best element.\<close>

fun arg_best :: "(pyfloat \<Rightarrow> pyfloat \<Rightarrow> bool) \<Rightarrow> pyfloat list \<Rightarrow> nat" where
  "arg_best better [] = 0"
| "arg_best better [x] = 0"
| "arg_best better (x # y # ys) =
     (let k = Suc (arg_best better (y # ys)); best = (x # y # ys) ! k in
      if x = NaN then 0 else if best = NaN \<or> better best x then k else 0)"

definition select_mixed_route_index_core :: "pyfloat list \<Rightarrow> bool \<Rightarrow> nat result" where
  "select_mixed_route_index_core mixed_scores prefer_higher = (let scores = map as_f32 mixed_scores in
     if scores = [] then Inl (ValueError (if prefer_higher then ''attempt to get argmax of an empty sequence''
       else ''attempt to get argmin of an empty sequence''))
     else Inr (arg_best (\<lambda>x y. if prefer_higher then pf_lt y x else pf_lt x y) scores))"

definition select_mixed_route_index :: "pyfloat list \<Rightarrow> bool \<Rightarrow> nat option result" where
  "select_mixed_route_index mixed_scores prefer_higher = (let scores = map as_f32 mixed_scores in
     if scores = [] then Inr None
     else bindE (checks [(\<exists>x \<in> set scores. \<not> isfinite x, ''mixed_scores must be finite'')]) (\<lambda>_.
       bindE (select_mixed_route_index_core scores prefer_higher) (\<lambda>i. Inr (Some i))))"

section \<open>The mixer\<close>

record mix_result =
  mixed_scores :: "pyfloat list"
  result_blend :: blend_state
  selected_index :: "nat option"
  mix_metadata :: "nat \<times> bool \<times> bool \<times> bool \<times> bool"

definition make_mix_result :: "pyfloat list \<Rightarrow> blend_state \<Rightarrow> nat option \<Rightarrow> nat \<times> bool \<times> bool \<times> bool \<times> bool \<Rightarrow> mix_result result" where
  "make_mix_result scores s idx meta = bindE (checks [
     (case idx of None \<Rightarrow> False | Some i \<Rightarrow> \<not> i < length scores, ''selected_index out of range'')]) (\<lambda>_.
     Inr \<lparr>mixed_scores = map as_f32 scores, result_blend = s, selected_index = idx, mix_metadata = meta\<rparr>)"

record mix_args =
  target_lambda :: "pyfloat option"
  mix_args_bounds :: "mix_bounds option"
  learning_on :: bool
  incident_on :: bool
  adaptive_signal :: "bool option"
  adaptive_valid :: "bool option"
  baseline_prefer_higher :: bool
  adaptive_prefer_higher :: bool

definition default_mix_args :: mix_args where
  "default_mix_args = \<lparr>target_lambda = None, mix_args_bounds = None, learning_on = True, incident_on = False,
     adaptive_signal = None, adaptive_valid = None, baseline_prefer_higher = False, adaptive_prefer_higher = True\<rparr>"

definition mix_signals :: "mix_args \<Rightarrow> pyfloat list \<Rightarrow> pyfloat list option \<Rightarrow> blend_signals" where
  "mix_signals a baseline adaptive = \<lparr>learning_enabled = learning_on a, incident_mode = incident_on a,
     signal_available = (case adaptive_signal a of Some b \<Rightarrow> b | None \<Rightarrow> adaptive \<noteq> None),
     output_valid = (case adaptive_valid a of Some b \<Rightarrow> b
       | None \<Rightarrow> (case adaptive of None \<Rightarrow> False
           | Some ys \<Rightarrow> length ys = length baseline \<and> (\<forall>y \<in> set ys. isfinite y)))\<rparr>"

text \<open>An absent array that the caller vouches for becomes a zero-dimensional one, which the normalization refuses.\<close>

definition adaptive_preferences :: "mix_args \<Rightarrow> blend_signals \<Rightarrow> pyfloat list option \<Rightarrow> pyfloat list option result" where
  "adaptive_preferences a sig adaptive =
     (if \<not> (signal_available sig \<and> output_valid sig) then Inr None
      else case adaptive of None \<Rightarrow> Inl (ValueError ''scores must be 1-D'')
        | Some ys \<Rightarrow> Inr (Some (normalize_route_preference_scores_core ys (adaptive_prefer_higher a))))"

definition mix_route_candidate_scores :: "pyfloat list \<Rightarrow> pyfloat list option \<Rightarrow> blend_state \<Rightarrow> mix_args \<Rightarrow> mix_result result" where
  "mix_route_candidate_scores baseline_scores adaptive_scores s a =
     (let baseline = map as_f32 baseline_scores; adaptive = map_option (map as_f32) adaptive_scores;
          sig = mix_signals a baseline adaptive in
      bindE (checks [(\<exists>x \<in> set baseline. \<not> isfinite x, ''baseline_scores must be finite'')]) (\<lambda>_.
      bindE (adaptive_preferences a sig adaptive) (\<lambda>adaptive_pref.
      bindE (apply_policy_blend_control s (target_lambda a) (mix_args_bounds a) sig) (\<lambda>s'.
      bindE (mix_route_candidate_scores_core
          (normalize_route_preference_scores_core baseline (baseline_prefer_higher a)) adaptive_pref s') (\<lambda>mixed.
      bindE (select_mixed_route_index mixed True) (\<lambda>idx.
      make_mix_result mixed s' idx
        (length baseline, signal_available sig, output_valid sig, baseline_prefer_higher a, adaptive_prefer_higher a)))))))"

section \<open>The first best element\<close>

lemma arg_best_max:
  assumes "xs \<noteq> []" "\<forall>x \<in> set xs. isfinite x"
  shows "arg_best (\<lambda>x y. pf_lt y x) xs < length xs \<and>
    (\<forall>x \<in> set xs. finite_part x \<le> finite_part (xs ! arg_best (\<lambda>x y. pf_lt y x) xs))"
  using assms
proof (induction "\<lambda>x y. pf_lt y x" xs rule: arg_best.induct)
  case (3 x y ys)
  let ?i = "arg_best (\<lambda>x y. pf_lt y x) (y # ys)"
  have i: "?i < length (y # ys)" "\<forall>z \<in> set (y # ys). finite_part z \<le> finite_part ((y # ys) ! ?i)"
    using 3 by simp_all
  obtain a where a: "x = Fin a" using 3(3) by (auto simp: isfinite_iff)
  have "isfinite ((y # ys) ! ?i)" using 3(3) i(1) nth_mem[of ?i "y # ys"] by auto
  then obtain b where b: "(y # ys) ! ?i = Fin b" by (auto simp: isfinite_iff)
  have le: "finite_part z \<le> b" if "z \<in> set (y # ys)" for z
    using i(2) that b by (metis finite_part.simps(1))
  show ?case
  proof (cases "a < b")
    case True
    have "arg_best (\<lambda>x y. pf_lt y x) (x # y # ys) = Suc ?i" using True a b by (simp add: Let_def)
    then show ?thesis using i(1) le True a b by auto
  next
    case False
    have "arg_best (\<lambda>x y. pf_lt y x) (x # y # ys) = 0" using False a b by (simp add: Let_def)
    then show ?thesis using le False a by fastforce
  qed
qed simp_all

section \<open>The preference of a cost\<close>

text \<open>The costs of candidates are finite non-negative float32 values.\<close>

definition costs_ok :: "rat list \<Rightarrow> bool" where
  "costs_ok cs \<longleftrightarrow> cs \<noteq> [] \<and> (\<forall>c \<in> set cs. is_f32 c \<and> 0 \<le> c \<and> c < 2 ^ 128)"

definition cost_preference :: "rat list \<Rightarrow> rat \<Rightarrow> rat" where
  "cost_preference cs c = (let spread = r32 (Max (set cs) - Min (set cs)) in
     if spread \<le> span_floor then 1 else r32 (r32 (Max (set cs) - c) / spread))"

lemma as_f32_id: "is_f32 c \<Longrightarrow> \<bar>c\<bar> < 2 ^ 128 \<Longrightarrow> as_f32 (Fin c) = Fin c"
  by (simp add: f32_value_fin)

lemma map_as_f32_id: "(\<And>x. x \<in> set xs \<Longrightarrow> as_f32 x = x) \<Longrightarrow> map as_f32 xs = xs"
  by (rule map_idI)

lemma costs_as_f32: "costs_ok cs \<Longrightarrow> map as_f32 (map Fin cs) = map Fin cs"
  by (rule map_as_f32_id) (auto simp: costs_ok_def as_f32_id simp del: as_f32.simps)

lemma costs_range:
  assumes "costs_ok cs" "c \<in> set cs"
  shows "Min (set cs) \<le> c" "c \<le> Max (set cs)" "0 \<le> Min (set cs)" "Max (set cs) < 2 ^ 128" "is_f32 (Max (set cs))" "0 \<le> c"
proof -
  have "Min (set cs) \<in> set cs" "Max (set cs) \<in> set cs" using assms(2) by (auto intro: Min_in Max_in)
  then show "0 \<le> Min (set cs)" "Max (set cs) < 2 ^ 128" "is_f32 (Max (set cs))" "0 \<le> c" "Min (set cs) \<le> c" "c \<le> Max (set cs)"
    using assms by (auto simp: costs_ok_def)
qed

text \<open>The distance from the dearest candidate never overflows.\<close>

lemma cost_gap_value:
  assumes "costs_ok cs" "0 \<le> x" "x \<le> Max (set cs)"
  shows "f32_value x = Fin (r32 x)" "0 \<le> r32 x"
proof -
  obtain c where "c \<in> set cs" using assms(1) by (cases cs) (auto simp: costs_ok_def)
  then show "f32_value x = Fin (r32 x)"
    using f32_value_below[of x "Max (set cs)"] costs_range[OF assms(1)] assms by blast
  show "0 \<le> r32 x" by (rule f32.rd_nonneg[OF assms(2)])
qed

lemma ratio_value:
  assumes "0 \<le> u" "u \<le> v" "0 < v" shows "f32_value (u / v) = Fin (r32 (u / v))" "0 \<le> r32 (u / v)" "r32 (u / v) \<le> 1"
  using f32_value_below[of "u / v" 1] f32.rd_nonneg[of "u / v"] f32.rd_div_le_1[of u v] assms by simp_all

lemma span_floor_pos: "0 < span_floor" and span_floor_big: "2 powi (- 126) \<le> span_floor"
  by (simp_all add: span_floor_def float_eval)

lemma cost_preference_unit:
  assumes "costs_ok cs" "c \<in> set cs" shows "0 \<le> cost_preference cs c \<and> cost_preference cs c \<le> 1"
proof -
  note r = costs_range[OF assms]
  let ?s = "r32 (Max (set cs) - Min (set cs))"
  have "0 \<le> r32 (Max (set cs) - c)" "r32 (Max (set cs) - c) \<le> ?s"
    using r f32.rd_nonneg f32.rd_mono[of "Max (set cs) - c" "Max (set cs) - Min (set cs)"] by simp_all
  then show ?thesis
    using ratio_value[of "r32 (Max (set cs) - c)" ?s] span_floor_pos by (auto simp: cost_preference_def Let_def)
qed

lemma Min_Max_uminus:
  assumes "cs \<noteq> []" shows "Min (uminus ` set cs) = - Max (set cs)" "Max (uminus ` set cs) = - Min (set (cs :: rat list))"
  using assms by (auto intro!: Min_eqI Max_eqI)

lemma normalize_costs:
  assumes "costs_ok cs"
  shows "normalize_route_preference_scores_core (map Fin cs) False = map (\<lambda>c. Fin (cost_preference cs c)) cs"
proof -
  let ?hi = "Max (set cs)" and ?lo = "Min (set cs)"
  have ne: "cs \<noteq> []" using assms by (simp add: costs_ok_def)
  have d: "directional False (map Fin cs) = map uminus cs" by (simp add: directional_def)
  obtain c0 where c0: "c0 \<in> set cs" using ne by (cases cs) auto
  have span: "f32_value (?hi - ?lo) = Fin (r32 (?hi - ?lo))"
    using cost_gap_value(1)[OF assms] costs_range[OF assms c0] by simp
  have elem: "pf_div f32_value (f32_value (?hi - c)) (Fin (r32 (?hi - ?lo))) = Fin (r32 (r32 (?hi - c) / r32 (?hi - ?lo)))"
    if "c \<in> set cs" "\<not> r32 (?hi - ?lo) \<le> span_floor" for c
  proof -
    note r = costs_range[OF assms that(1)]
    have "r32 (?hi - c) \<le> r32 (?hi - ?lo)" using r by (intro f32.rd_mono) simp
    then show ?thesis
      using cost_gap_value[OF assms, of "?hi - c"] r that(2) span_floor_pos
        ratio_value(1)[of "r32 (?hi - c)" "r32 (?hi - ?lo)"] by simp
  qed
  have "normalize_route_preference_scores_core (map Fin cs) False =
      (if r32 (?hi - ?lo) \<le> span_floor then map (\<lambda>_. Fin 1) cs
       else map (\<lambda>c. pf_div f32_value (f32_value (?hi - c)) (Fin (r32 (?hi - ?lo)))) cs)"
    unfolding normalize_route_preference_scores_core_def costs_as_f32[OF assms] Let_def d
    using ne by (simp add: Min_Max_uminus[OF ne] span o_def del: minus_Max_eq_Min minus_Min_eq_Max)
  also have "\<dots> = map (\<lambda>c. Fin (cost_preference cs c)) cs"
  proof (cases "r32 (?hi - ?lo) \<le> span_floor")
    case False
    have "map (\<lambda>c. pf_div f32_value (f32_value (?hi - c)) (Fin (r32 (?hi - ?lo)))) cs =
        map (\<lambda>c. Fin (r32 (r32 (?hi - c) / r32 (?hi - ?lo)))) cs"
      by (rule map_cong[OF refl], rule elem) (simp_all add: False)
    then show ?thesis using False by (simp add: cost_preference_def)
  qed (simp add: cost_preference_def)
  finally show ?thesis .
qed

section \<open>The fallback chooses a nearly cheapest candidate\<close>

lemma small_spread:
  assumes "0 \<le> d" "r32 d \<le> span_floor" shows "d \<le> 11 / 10 ^ 7"
proof (rule ccontr)
  assume "\<not> ?thesis"
  then have "r32 (11 / 10 ^ 7) \<le> r32 d" by (intro f32.rd_mono) simp
  moreover have "span_floor < r32 (11 / 10 ^ 7)" by (simp add: span_floor_def float_eval)
  ultimately show False using assms(2) by simp
qed

text \<open>A preference that rounds to one belongs to a cost within a \<open>2\<^sup>-\<^sup>2\<^sup>2\<close>-th of the spread.\<close>

lemma full_preference_near:
  assumes "0 \<le> g" "g \<le> d" "span_floor < r32 d" "1 \<le> r32 (r32 g / r32 d)"
  shows "d - g \<le> d / 2 ^ 22"
proof (rule ccontr)
  assume "\<not> ?thesis"
  then have far: "g < d - d / 2 ^ 22" by simp
  have d: "2 powi (- 126) \<le> d"
  proof (rule ccontr)
    assume "\<not> ?thesis"
    then have "r32 d \<le> r32 (2 powi (- 126))" by (intro f32.rd_mono) simp
    moreover have "r32 (2 powi (- 126)) \<le> span_floor" by (simp add: span_floor_def float_eval)
    ultimately show False using assms(3) by simp
  qed
  have e: "r32 g - g \<le> d / 2 ^ 24" "d - r32 d \<le> d / 2 ^ 24"
    using r32_error_of_whole[of g d] r32_error_of_whole[of d d] assms(1,2) d by linarith+
  have pos: "0 \<le> d" using assms(1,2) by linarith
  have "r32 g \<le> d - d / 2 ^ 22 + d / 2 ^ 24" using e(1) far by linarith
  also have "\<dots> \<le> (1 - 1 / 2 ^ 24) * (d - d / 2 ^ 24)" using pos by (simp add: field_simps)
  finally have "r32 g \<le> (1 - 1 / 2 ^ 24) * (d - d / 2 ^ 24)" "d - d / 2 ^ 24 \<le> r32 d" using e(2) by linarith+
  then have "r32 g \<le> (1 - 1 / 2 ^ 24) * r32 d" by simp
  then have "r32 g / r32 d \<le> 1 - 1 / 2 ^ 24"
    using assms(3) span_floor_pos by (simp add: pos_divide_le_eq)
  then have "r32 (r32 g / r32 d) \<le> r32 (1 - 1 / 2 ^ 24)" by (rule f32.rd_mono)
  moreover have "r32 (1 - 1 / 2 ^ 24) < 1" by (simp add: float_eval)
  ultimately show False using assms(4) by simp
qed

lemma cost_preference_best:
  assumes "costs_ok cs" "c \<in> set cs" "c = Min (set cs)" shows "cost_preference cs c = 1"
  using assms(3) span_floor_pos by (auto simp: cost_preference_def Let_def)

lemma cost_preference_full:
  assumes "costs_ok cs" "c \<in> set cs" "1 \<le> cost_preference cs c"
  shows "c \<le> Min (set cs) + max (11 / 10 ^ 7) ((Max (set cs) - Min (set cs)) / 2 ^ 22)"
proof (cases "r32 (Max (set cs) - Min (set cs)) \<le> span_floor")
  case True
  then have "Max (set cs) - Min (set cs) \<le> 11 / 10 ^ 7"
    using costs_range[OF assms(1,2)] by (intro small_spread) simp_all
  then show ?thesis using costs_range[OF assms(1,2)] by simp
next
  case False
  then have "(Max (set cs) - Min (set cs)) - (Max (set cs) - c) \<le> (Max (set cs) - Min (set cs)) / 2 ^ 22"
    using costs_range[OF assms(1,2)] assms(3) by (intro full_preference_near) (simp_all add: cost_preference_def)
  then show ?thesis by linarith
qed

lemma preferences_as_f32:
  assumes "costs_ok cs"
  shows "map as_f32 (map (\<lambda>c. Fin (cost_preference cs c)) cs) = map (\<lambda>c. Fin (cost_preference cs c)) cs"
proof (rule map_as_f32_id)
  fix x assume "x \<in> set (map (\<lambda>c. Fin (cost_preference cs c)) cs)"
  then obtain c where c: "c \<in> set cs" "x = Fin (cost_preference cs c)" by auto
  have "is_f32 (cost_preference cs c)" by (simp add: cost_preference_def Let_def)
  moreover have "\<bar>cost_preference cs c\<bar> < 2 ^ 128" using cost_preference_unit[OF assms c(1)] by simp
  ultimately show "as_f32 x = x" unfolding c(2) by (rule as_f32_id)
qed

lemma select_costs:
  assumes "costs_ok cs"
  obtains i where "select_mixed_route_index (map (\<lambda>c. Fin (cost_preference cs c)) cs) True = Inr (Some i)" "i < length cs"
    "cost_preference cs (cs ! i) = 1"
proof -
  let ?ps = "map (\<lambda>c. Fin (cost_preference cs c)) cs" and ?i = "arg_best (\<lambda>x y. pf_lt y x) (map (\<lambda>c. Fin (cost_preference cs c)) cs)"
  have ne: "cs \<noteq> []" using assms by (simp add: costs_ok_def)
  have id: "map as_f32 ?ps = ?ps" by (rule preferences_as_f32[OF assms])
  have m: "?i < length ?ps" "\<forall>x \<in> set ?ps. finite_part x \<le> finite_part (?ps ! ?i)"
    using arg_best_max[of ?ps] ne by auto
  have "Min (set cs) \<in> set cs" using ne by simp
  then have "1 \<le> cost_preference cs (cs ! ?i)"
    using m cost_preference_best[OF assms, of "Min (set cs)"] by (auto simp del: Min_in)
  then have "cost_preference cs (cs ! ?i) = 1"
    using cost_preference_unit[OF assms, of "cs ! ?i"] m(1) by fastforce
  moreover have "select_mixed_route_index ?ps True = Inr (Some ?i)"
    using ne unfolding select_mixed_route_index_def select_mixed_route_index_core_def Let_def id by (simp add: check_eval)
  ultimately show ?thesis using m(1) that[of ?i] by simp
qed

text \<open>C25: Under any fallback (learning off, an incident, absent or invalid learned scores) the mixer answers on
  finite non-negative costs with a state that routes by the baseline and names the cause, and its choice
  costs more than the cheapest candidate by at most a \<open>2\<^sup>-\<^sup>2\<^sup>2\<close>-th of the spread of the costs, or by about a millionth.\<close>

theorem fallback_choice_nearly_cheapest:
  assumes "costs_ok cs" "blend_ok s" "\<forall>b. mix_args_bounds a = Some b \<longrightarrow> bounds_ok b"
    "adaptive_signal a = None" "adaptive_valid a = None" "\<not> baseline_prefer_higher a"
    "cause_of (mix_signals a (map Fin cs) (map_option (map as_f32) ys)) \<noteq> None"
  shows "\<exists>r i. mix_route_candidate_scores (map Fin cs) ys s a = Inr r \<and>
    fallback_reason (result_blend r) = cause_of (mix_signals a (map Fin cs) (map_option (map as_f32) ys)) \<and>
    \<not> adaptive_enabled (result_blend r) \<and> selected_index r = Some i \<and> i < length cs \<and>
    (\<forall>c \<in> set cs. cs ! i \<le> c + max (11 / 10 ^ 7) ((Max (set cs) - Min (set cs)) / 2 ^ 22))"
proof -
  let ?sig = "mix_signals a (map Fin cs) (map_option (map as_f32) ys)" and ?ps = "map (\<lambda>c. Fin (cost_preference cs c)) cs"
  obtain prefs where prefs: "adaptive_preferences a ?sig (map_option (map as_f32) ys) = Inr prefs"
  proof -
    have "\<exists>prefs. adaptive_preferences a ?sig (map_option (map as_f32) ys) = Inr prefs"
      using assms(4,5) by (cases ys) (simp_all add: adaptive_preferences_def mix_signals_def)
    then show ?thesis using that by blast
  qed
  obtain s' where s': "apply_policy_blend_control s (target_lambda a) (mix_args_bounds a) ?sig = Inr s'"
    "fallback_reason s' = cause_of ?sig" "baseline_only_mode s'"
    using blend_control_spec[OF assms(2,3), of "target_lambda a" ?sig] assms(7) by blast
  have core: "mix_route_candidate_scores_core ?ps prefs s' = Inr ?ps"
    unfolding mix_route_candidate_scores_core_def preferences_as_f32[OF assms(1)] Let_def using s'(3) by (cases prefs) simp_all
  obtain i where i: "select_mixed_route_index ?ps True = Inr (Some i)" "i < length cs" "cost_preference cs (cs ! i) = 1"
    by (rule select_costs[OF assms(1)])
  have run: "\<exists>r. mix_route_candidate_scores (map Fin cs) ys s a = Inr r \<and> result_blend r = s' \<and> selected_index r = Some i"
    unfolding mix_route_candidate_scores_def costs_as_f32[OF assms(1)] Let_def
    using prefs s'(1) core i(1,2) normalize_costs[OF assms(1)] assms(6) by (simp add: check_eval make_mix_result_def)
  have "cs ! i \<le> c + max (11 / 10 ^ 7) ((Max (set cs) - Min (set cs)) / 2 ^ 22)" if "c \<in> set cs" for c
    using cost_preference_full[OF assms(1), of "cs ! i"] i(2,3) costs_range(1)[OF assms(1) that] by simp
  then show ?thesis using run s'(2,3) i(2) by (auto simp: adaptive_enabled_def)
qed

lemma fallback_choice_nearly_cheapest_witness:
  "\<exists>r i. mix_route_candidate_scores (map Fin [5, 2, 3]) (Some [Fin 1, NaN, Fin 6]) mixed_state default_mix_args = Inr r \<and>
    fallback_reason (result_blend r) = Some InvalidOutput \<and> selected_index r = Some i \<and> i < 3 \<and>
    [5, 2, 3] ! i \<le> 2 + max (11 / 10 ^ 7) ((5 - 2) / 2 ^ 22 :: rat)"
proof -
  have f: "is_f32 5" "is_f32 2" "is_f32 3"
    using is_f32_of_int[of 5] is_f32_of_int[of 2] is_f32_of_int[of 3] by simp_all
  have "cause_of (mix_signals default_mix_args (map Fin [5, 2, 3]) (map_option (map as_f32) (Some [Fin 1, NaN, Fin 6]))) = Some InvalidOutput"
    by (simp add: mix_signals_def default_mix_args_def isfinite_def)
  then show ?thesis
    using fallback_choice_nearly_cheapest[of "[5, 2, 3]" mixed_state default_mix_args "Some [Fin 1, NaN, Fin 6]"] f
    by (auto simp: costs_ok_def mixed_state_def blend_ok_def default_mix_args_def)
qed

section \<open>Where the choice goes wrong\<close>

text \<open>The bound is needed: beside a very dear candidate a dearer one ties with the cheapest and comes first.\<close>

theorem fallback_misses_cheapest:
  "\<exists>r. mix_route_candidate_scores (map Fin [101, 100, 10 ^ 9]) None default_blend_state default_mix_args = Inr r \<and> selected_index r = Some 0"
proof -
  have big: "\<bar>10 ^ 9 :: rat\<bar> < 2 ^ 128" by simp
  have f: "is_f32 101" "is_f32 100" "is_f32 (10 ^ 9)"
    using is_f32_of_int[of 101] is_f32_of_int[of 100] by (simp_all add: is_f32_def float_eval)
  then have ok: "costs_ok [101, 100, 10 ^ 9]" by (simp add: costs_ok_def)
  have pref: "cost_preference [101, 100, 10 ^ 9] 101 = 1" "cost_preference [101, 100, 10 ^ 9] 100 = 1"
    "cost_preference [101, 100, 10 ^ 9] (10 ^ 9) = 0"
    by (simp_all add: cost_preference_def span_floor_def float_eval)
  have one: "as_f32 (Fin 1) = Fin 1" "as_f32 (Fin 0) = Fin 0" by (rule as_f32_id; simp)+
  let ?sig = "mix_signals default_mix_args (map Fin [101, 100, 10 ^ 9]) None"
  define s' where "s' = \<lparr>lambda_mix = 0, fallback_triggered = True, fallback_reason = Some NoSignal, baseline_only_mode = True\<rparr>"
  have control: "apply_policy_blend_control default_blend_state None None ?sig = Inr s'"
    by (simp add: apply_policy_blend_control_def retarget_def fallback_to_baseline_def default_blend_state_def mix_signals_def
      default_mix_args_def s'_def)
  have none: "adaptive_preferences default_mix_args ?sig None = Inr None"
    by (simp add: adaptive_preferences_def mix_signals_def default_mix_args_def)
  have prefs: "normalize_route_preference_scores_core (map Fin [101, 100, 10 ^ 9]) False = [Fin 1, Fin 1, Fin 0]"
    unfolding normalize_costs[OF ok] by (simp add: pref[simplified])
  have core: "mix_route_candidate_scores_core [Fin 1, Fin 1, Fin 0] None s' = Inr [Fin 1, Fin 1, Fin 0]"
    using one by (simp add: mix_route_candidate_scores_core_def)
  have select: "select_mixed_route_index [Fin 1, Fin 1, Fin 0] True = Inr (Some 0)"
    using one by (simp add: select_mixed_route_index_def select_mixed_route_index_core_def check_eval)
  have args: "target_lambda default_mix_args = None" "mix_args_bounds default_mix_args = None" "\<not> baseline_prefer_higher default_mix_args"
    by (simp_all add: default_mix_args_def)
  show ?thesis
    unfolding mix_route_candidate_scores_def costs_as_f32[OF ok] Let_def option.map args control none
    using prefs core select args(3) by (simp add: check_eval make_mix_result_def)
qed

text \<open>Learned scores that are finite and pass as valid, but whose spread overflows, raise instead of falling back.\<close>

theorem overflowing_scores_raise:
  "mix_route_candidate_scores [Fin 1, Fin 2] (Some [Fin (2 ^ 127), Fin (- (2 ^ 127))]) mixed_state default_mix_args
     = Inl (ValueError ''mixed_scores must be finite'')"
proof -
  have big: "r32 (2 ^ 127) = 2 ^ 127" "r32 (2 ^ 128) = 2 ^ 128" "r32 (1 / 2) = 1 / 2" "r32 2 = 2"
    by (simp_all add: float_eval)
  then have ids: "as_f32 (Fin 1) = Fin 1" "as_f32 (Fin 2) = Fin 2" "as_f32 (Fin (2 ^ 127)) = Fin (2 ^ 127)"
    "as_f32 (Fin (- (2 ^ 127))) = Fin (- (2 ^ 127))" "as_f32 (Fin 0) = Fin 0"
    using f32.rd_minus[of "2 ^ 127"] by (simp_all add: f32_value_def Let_def)
  have ok: "costs_ok [1, 2]" using is_f32_of_int[of 2] by (simp add: costs_ok_def)
  let ?ys = "[Fin (2 ^ 127), Fin (- (2 ^ 127))]"
  let ?sig = "mix_signals default_mix_args [Fin 1, Fin 2] (Some ?ys)"
  have control: "apply_policy_blend_control mixed_state None None ?sig = Inr mixed_state"
    by (simp add: apply_policy_blend_control_def retarget_def mixed_state_def mix_signals_def default_mix_args_def)
  have d: "directional True ?ys = [2 ^ 127, - (2 ^ 127)]" by (simp add: directional_def)
  have inf: "f32_value (2 ^ 127 - - (2 ^ 127)) = PosInf" "f32_value (- (2 ^ 127) - - (2 ^ 127)) = Fin 0"
    using big(2) by (simp_all add: f32_value_def Let_def)
  have mm: "Min (set [2 ^ 127, - (2 ^ 127)]) = (- (2 ^ 127) :: rat)" "Max (set [2 ^ 127, - (2 ^ 127)]) = (2 ^ 127 :: rat)" by simp_all
  have id: "map as_f32 ?ys = ?ys" using ids by simp
  have nan: "normalize_route_preference_scores_core ?ys True = [NaN, Fin 0]"
    unfolding normalize_route_preference_scores_core_def id Let_def d mm inf by (simp add: inf[simplified])
  have prefs: "adaptive_preferences default_mix_args ?sig (Some ?ys) = Inr (Some [NaN, Fin 0])"
    using nan by (simp add: adaptive_preferences_def mix_signals_def default_mix_args_def)
  have base: "normalize_route_preference_scores_core [Fin 1, Fin 2] False = [Fin 1, Fin 0]"
    using normalize_costs[OF ok] by (simp add: cost_preference_def span_floor_def float_eval)
  have half: "f32_value (1 / 2) = Fin (1 / 2)" unfolding f32_value_def big by simp
  obtain v where mixed: "mix_route_candidate_scores_core [Fin 1, Fin 0] (Some [NaN, Fin 0]) mixed_state = Inr [NaN, v]"
    using ids by (auto simp: mix_route_candidate_scores_core_def mixed_state_def mix_elements_def check_eval Let_def big half)
  have sel: "select_mixed_route_index [NaN, v] True = Inl (ValueError ''mixed_scores must be finite'')"
    by (simp add: select_mixed_route_index_def check_eval isfinite_def)
  have args: "target_lambda default_mix_args = None" "mix_args_bounds default_mix_args = None" "\<not> baseline_prefer_higher default_mix_args"
    by (simp_all add: default_mix_args_def)
  show ?thesis
    using prefs control base mixed sel args by (simp add: mix_route_candidate_scores_def Let_def ids[simplified] check_eval)
qed

end
