(* ===== verification/World.thy ===== *)
theory World
  imports PyFloatOps
begin

text \<open>
  The state of the multirate world and its contract (src/src/metroflow/core): the frozen dataclasses of
  state.py as records, the version bumps and cache tokens of state.py and cache.py, the units and tick
  schedule of units.py and contracts.py, and the long validator \<^verbatim>\<open>validate_state_contract\<close>, whose
  checks keep their order.  Floats are finite and are the rationals they denote; strings are opaque.
\<close>

section \<open>State\<close>

record graph_state =
  graph_version :: int
  num_nodes :: int
  num_edges :: int
  edge_src :: "int list"
  edge_dst :: "int list"
  edge_class :: "string list"

record traffic_state =
  traffic_step :: int
  edge_queue :: "rat list"
  edge_stock :: "rat list"
  edge_travel_time :: "rat list"
  movement_queue :: "rat list"

record demand_totals =
  population :: int
  active_trip_count :: int

record accessibility_state =
  access_version :: int
  lagged_snapshot_step :: int
  access_graph_version :: int
  access_landuse_version :: int
  zonal_costs :: "rat list list"

record landuse_state =
  landuse_version :: int
  zone_labels :: "string list"
  housing_capacity :: "rat list"
  jobs_capacity :: "rat list"

record policy_state =
  policy_version :: int
  last_learning_step :: int

record replay_state =
  replay_seed :: int
  journal_length :: int

record world_state =
  graph :: graph_state
  traffic :: traffic_state
  demand :: demand_totals
  accessibility :: accessibility_state
  landuse :: landuse_state
  policy :: policy_state
  replay :: replay_state

definition make_empty_world_state :: "int \<Rightarrow> world_state" where
  "make_empty_world_state seed = \<lparr>
     graph = \<lparr>graph_version = 0, num_nodes = 0, num_edges = 0, edge_src = [], edge_dst = [], edge_class = []\<rparr>,
     traffic = \<lparr>traffic_step = 0, edge_queue = [], edge_stock = [], edge_travel_time = [], movement_queue = []\<rparr>,
     demand = \<lparr>population = 100000, active_trip_count = 0\<rparr>,
     accessibility = \<lparr>access_version = 0, lagged_snapshot_step = - 1, access_graph_version = 0, access_landuse_version = 0,
       zonal_costs = []\<rparr>,
     landuse = \<lparr>landuse_version = 0, zone_labels = [], housing_capacity = [], jobs_capacity = []\<rparr>,
     policy = \<lparr>policy_version = 0, last_learning_step = - 1\<rparr>,
     replay = \<lparr>replay_seed = seed, journal_length = 0\<rparr>\<rparr>"

definition bump_accessibility :: "accessibility_state \<Rightarrow> accessibility_state" where
  "bump_accessibility a = a\<lparr>access_version := access_version a + 1\<rparr>"

definition with_graph_version_bump :: "world_state \<Rightarrow> world_state" where
  "with_graph_version_bump w = w\<lparr>graph := (graph w)\<lparr>graph_version := graph_version (graph w) + 1\<rparr>,
     accessibility := bump_accessibility (accessibility w)\<rparr>"

definition with_landuse_version_bump :: "world_state \<Rightarrow> world_state" where
  "with_landuse_version_bump w = w\<lparr>landuse := (landuse w)\<lparr>landuse_version := landuse_version (landuse w) + 1\<rparr>,
     accessibility := bump_accessibility (accessibility w)\<rparr>"

definition with_policy_version_bump :: "world_state \<Rightarrow> world_state" where
  "with_policy_version_bump w = w\<lparr>policy := (policy w)\<lparr>policy_version := policy_version (policy w) + 1\<rparr>\<rparr>"

section \<open>Cache tokens\<close>

record cache_registry =
  route_cache_version :: int
  accessibility_cache_version :: int
  policy_cache_version :: int
  cache_tags :: "(string \<times> int) list"

definition build_cache_registry :: "world_state \<Rightarrow> cache_registry" where
  "build_cache_registry w = \<lparr>
     route_cache_version = graph_version (graph w),
     accessibility_cache_version = max (max (access_version (accessibility w)) (graph_version (graph w))) (landuse_version (landuse w)),
     policy_cache_version = policy_version (policy w),
     cache_tags = [(''graph'', graph_version (graph w)), (''landuse'', landuse_version (landuse w)),
       (''policy'', policy_version (policy w)), (''accessibility'', access_version (accessibility w))]\<rparr>"

definition route_cache_token :: "world_state \<Rightarrow> int \<times> int" where
  "route_cache_token w = (graph_version (graph w), policy_version (policy w))"

definition accessibility_cache_token :: "world_state \<Rightarrow> int \<times> int \<times> int" where
  "accessibility_cache_token w = (graph_version (graph w), landuse_version (landuse w), access_version (accessibility w))"

definition policy_cache_token :: "world_state \<Rightarrow> int" where
  "policy_cache_token w = policy_version (policy w)"

section \<open>Units and schedule\<close>

record units_config =
  time_unit_seconds :: pyfloat
  length_unit_meters :: pyfloat
  speed_unit_m_per_s :: pyfloat
  flow_unit_veh_per_s :: pyfloat

definition validate_units_config :: "units_config \<Rightarrow> unit result" where
  "validate_units_config u = checks [
     (pf_le (time_unit_seconds u) (Fin 0), ''time_unit_seconds must be positive.''),
     (pf_le (length_unit_meters u) (Fin 0), ''length_unit_meters must be positive.''),
     (pf_le (speed_unit_m_per_s u) (Fin 0), ''speed_unit_m_per_s must be positive.''),
     (pf_le (flow_unit_veh_per_s u) (Fin 0), ''flow_unit_veh_per_s must be positive.'')]"

record tick_schedule =
  fast_every :: int
  medium_every :: int
  slow_every :: int

definition default_schedule :: tick_schedule where
  "default_schedule = \<lparr>fast_every = 1, medium_every = 10, slow_every = 100\<rparr>"

definition validate_time_scale_separation :: "units_config \<Rightarrow> tick_schedule \<Rightarrow> unit result" where
  "validate_time_scale_separation units s = bindE (validate_units_config units) (\<lambda>_. checks [
     (fast_every s \<le> 0, ''fast_every must be positive.''),
     (medium_every s \<le> 0, ''medium_every must be positive.''),
     (slow_every s \<le> 0, ''slow_every must be positive.''),
     (\<not> (fast_every s \<le> medium_every s \<and> medium_every s \<le> slow_every s),
       ''Invalid multirate ordering: fast <= medium <= slow must hold.'')])"

section \<open>The contract\<close>

definition some_negative :: "rat list \<Rightarrow> bool" where
  "some_negative xs = (\<exists>x \<in> set xs. x < 0)"

definition node_outside :: "graph_state \<Rightarrow> int list \<Rightarrow> bool" where
  "node_outside g ends = (\<exists>v \<in> set ends. v < 0 \<or> num_nodes g \<le> v)"

definition graph_checks :: "graph_state \<Rightarrow> (bool \<times> string) list" where
  "graph_checks g = [
     (graph_version g < 0, ''Graph version must be non-negative.''),
     (num_nodes g < 0, ''graph.num_nodes must be non-negative.''),
     (num_edges g < 0, ''graph.num_edges must be non-negative.''),
     (int (length (edge_src g)) \<noteq> num_edges g, ''edge_src length must match graph.num_edges.''),
     (int (length (edge_dst g)) \<noteq> num_edges g, ''edge_dst length must match graph.num_edges.''),
     (int (length (edge_class g)) \<noteq> num_edges g, ''edge_class length must match graph.num_edges.''),
     (node_outside g (edge_src g), ''edge_src values must reference valid graph nodes.''),
     (node_outside g (edge_dst g), ''edge_dst values must reference valid graph nodes.'')]"

definition traffic_checks :: "graph_state \<Rightarrow> traffic_state \<Rightarrow> (bool \<times> string) list" where
  "traffic_checks g t = [
     (num_edges g \<noteq> int (length (edge_queue t)), ''Edge queue length must match graph.num_edges.''),
     (num_edges g \<noteq> int (length (edge_stock t)), ''Edge stock length must match graph.num_edges.''),
     (num_edges g \<noteq> int (length (edge_travel_time t)), ''Edge travel-time length must match graph.num_edges.''),
     (some_negative (movement_queue t), ''Movement queue values must be non-negative.''),
     (some_negative (edge_queue t), ''Edge queue values must be non-negative.''),
     (some_negative (edge_stock t), ''Edge stock values must be non-negative.''),
     (some_negative (edge_travel_time t), ''Edge travel-time values must be non-negative.''),
     (\<exists>(q, s) \<in> set (zip (edge_queue t) (edge_stock t)). s < q, ''Edge queue must not exceed edge stock.'')]"

definition count_checks :: "world_state \<Rightarrow> (bool \<times> string) list" where
  "count_checks w = [
     (population (demand w) < 0, ''Population must be non-negative.''),
     (active_trip_count (demand w) < 0, ''Active trip count must be non-negative.''),
     (population (demand w) < active_trip_count (demand w), ''Active trip count must not exceed population.''),
     (access_version (accessibility w) < 0, ''Accessibility version must be non-negative.''),
     (access_graph_version (accessibility w) < 0, ''Accessibility graph_version must be non-negative.''),
     (access_landuse_version (accessibility w) < 0, ''Accessibility landuse_version must be non-negative.''),
     (landuse_version (landuse w) < 0, ''Land-use version must be non-negative.''),
     (policy_version (policy w) < 0, ''Policy version must be non-negative.''),
     (journal_length (replay w) < 0, ''Replay journal_length must be non-negative.'')]"

definition zone_count :: "world_state \<Rightarrow> nat" where
  "zone_count w = length (zone_labels (landuse w))"

definition zone_checks :: "world_state \<Rightarrow> (bool \<times> string) list" where
  "zone_checks w = (let costs = zonal_costs (accessibility w); lag = lagged_snapshot_step (accessibility w) in [
     (length (housing_capacity (landuse w)) \<noteq> zone_count w, ''housing_capacity length must match zone_labels length.''),
     (length (jobs_capacity (landuse w)) \<noteq> zone_count w, ''jobs_capacity length must match zone_labels length.''),
     (some_negative (housing_capacity (landuse w)), ''Housing capacity values must be non-negative.''),
     (some_negative (jobs_capacity (landuse w)), ''Jobs capacity values must be non-negative.''),
     (length costs \<noteq> 0 \<and> length costs \<noteq> zone_count w, ''Accessibility zonal_costs dimension must match zone_labels length.''),
     (\<exists>row \<in> set costs. length row \<noteq> zone_count w, ''Accessibility zonal_cost rows must match zone_labels length.''),
     (\<exists>row \<in> set costs. some_negative row, ''Accessibility zonal_costs must be non-negative.''),
     (costs = [] \<and> lag \<noteq> - 1, ''Cleared accessibility payload must reset lagged_snapshot_step to -1.''),
     (costs \<noteq> [] \<and> traffic_step (traffic w) \<le> lag, ''Accessibility snapshot must be lagged relative to traffic.step.'')])"

definition validate_state_contract :: "world_state \<Rightarrow> unit result" where
  "validate_state_contract w =
     checks (graph_checks (graph w) @ traffic_checks (graph w) (traffic w) @ count_checks w @ zone_checks w)"

section \<open>The contract as a predicate\<close>

definition graph_ok :: "graph_state \<Rightarrow> bool" where
  "graph_ok g \<longleftrightarrow> 0 \<le> graph_version g \<and> 0 \<le> num_nodes g \<and> 0 \<le> num_edges g \<and> int (length (edge_src g)) = num_edges g \<and>
     int (length (edge_dst g)) = num_edges g \<and> int (length (edge_class g)) = num_edges g \<and>
     (\<forall>v \<in> set (edge_src g) \<union> set (edge_dst g). 0 \<le> v \<and> v < num_nodes g)"

definition traffic_ok :: "int \<Rightarrow> traffic_state \<Rightarrow> bool" where
  "traffic_ok n t \<longleftrightarrow> int (length (edge_queue t)) = n \<and> int (length (edge_stock t)) = n \<and>
     int (length (edge_travel_time t)) = n \<and> (\<forall>x \<in> set (movement_queue t). 0 \<le> x) \<and>
     (\<forall>x \<in> set (edge_travel_time t). 0 \<le> x) \<and> list_all2 (\<lambda>q s. 0 \<le> q \<and> q \<le> s) (edge_queue t) (edge_stock t)"

definition zones_ok :: "world_state \<Rightarrow> bool" where
  "zones_ok w \<longleftrightarrow> length (housing_capacity (landuse w)) = zone_count w \<and> length (jobs_capacity (landuse w)) = zone_count w \<and>
     (\<forall>x \<in> set (housing_capacity (landuse w)). 0 \<le> x) \<and> (\<forall>x \<in> set (jobs_capacity (landuse w)). 0 \<le> x)"

definition snapshot_ok :: "nat \<Rightarrow> int \<Rightarrow> accessibility_state \<Rightarrow> bool" where
  "snapshot_ok n step a \<longleftrightarrow> (zonal_costs a = [] \<and> lagged_snapshot_step a = - 1) \<or>
     (zonal_costs a \<noteq> [] \<and> length (zonal_costs a) = n \<and> (\<forall>row \<in> set (zonal_costs a). length row = n \<and> (\<forall>x \<in> set row. 0 \<le> x)) \<and>
      lagged_snapshot_step a < step)"

definition counts_ok :: "world_state \<Rightarrow> bool" where
  "counts_ok w \<longleftrightarrow> 0 \<le> active_trip_count (demand w) \<and> active_trip_count (demand w) \<le> population (demand w) \<and>
     0 \<le> access_version (accessibility w) \<and> 0 \<le> access_graph_version (accessibility w) \<and>
     0 \<le> access_landuse_version (accessibility w) \<and> 0 \<le> landuse_version (landuse w) \<and> 0 \<le> policy_version (policy w) \<and>
     0 \<le> journal_length (replay w)"

definition world_ok :: "world_state \<Rightarrow> bool" where
  "world_ok w \<longleftrightarrow> graph_ok (graph w) \<and> traffic_ok (num_edges (graph w)) (traffic w) \<and> counts_ok w \<and> zones_ok w \<and>
     snapshot_ok (zone_count w) (traffic_step (traffic w)) (accessibility w)"

lemma some_negative_iff [simp]: "some_negative xs \<longleftrightarrow> \<not> (\<forall>x \<in> set xs. 0 \<le> x)"
  by (auto simp: some_negative_def not_le)

lemma graph_checks_iff: "(\<forall>c \<in> set (graph_checks g). \<not> fst c) \<longleftrightarrow> graph_ok g"
  by (simp add: graph_checks_def graph_ok_def node_outside_def not_less not_le ball_Un)

lemma queue_below_stock:
  "length qs = length ss \<Longrightarrow> (\<forall>q \<in> set qs. 0 \<le> q) \<and> (\<forall>s \<in> set ss. 0 \<le> (s::rat)) \<and>
     \<not> (\<exists>(q, s) \<in> set (zip qs ss). s < q) \<longleftrightarrow>
     list_all2 (\<lambda>q s. 0 \<le> q \<and> q \<le> s) qs ss"
  by (induction qs ss rule: list_induct2) auto

lemma traffic_checks_iff: "(\<forall>c \<in> set (traffic_checks g t). \<not> fst c) \<longleftrightarrow> traffic_ok (num_edges g) t"
proof (cases "length (edge_queue t) = length (edge_stock t)")
  case True
  show ?thesis
    unfolding traffic_checks_def traffic_ok_def queue_below_stock[OF True, symmetric]
    by (simp add: not_less eq_commute[of "num_edges g"] conj_ac)
next
  case False
  then show ?thesis by (auto simp: traffic_checks_def traffic_ok_def)
qed

lemma count_checks_iff: "(\<forall>c \<in> set (count_checks w). \<not> fst c) \<longleftrightarrow> counts_ok w"
  by (auto simp: count_checks_def counts_ok_def)

lemma zone_checks_iff: "(\<forall>c \<in> set (zone_checks w). \<not> fst c) \<longleftrightarrow> zones_ok w \<and> snapshot_ok (zone_count w) (traffic_step (traffic w)) (accessibility w)"
  by (auto simp: zone_checks_def zones_ok_def snapshot_ok_def Let_def)

lemma validate_state_contract_iff: "validate_state_contract w = Inr () \<longleftrightarrow> world_ok w"
  by (simp only: validate_state_contract_def checks_eq_Inr set_append ball_Un graph_checks_iff traffic_checks_iff
    count_checks_iff zone_checks_iff world_ok_def)

end
