(* ===== verification/Meso.thy ===== *)
theory Meso
  imports World
begin

text \<open>
  The mesoscopic edge dynamics of the multirate world (src/src/metroflow/traffic/meso.py): the update of one
  edge in float64, the batch over all edges with its three backends, and the projection of movements.  The
  Rust and JAX kernels are parameters; what they raise reaches the caller as the code lets it.
\<close>

section \<open>One edge\<close>

record edge_dynamic =
  edge_dyn_queue :: rat
  edge_dyn_stock :: rat
  edge_dyn_travel_time :: rat
  edge_dyn_capacity :: rat

definition micro :: rat where
  "micro = r64 (1 / 10 ^ 6)"

definition safe_travel_time :: "rat \<Rightarrow> rat \<Rightarrow> rat \<Rightarrow> rat result" where
  "safe_travel_time free_flow q cap = bindE (checks [(cap < 0, ''capacity must be non-negative'')]) (\<lambda>_.
     Inr (r64 (free_flow + r64 (q / max cap micro))))"

definition feasible_outflow :: "rat \<Rightarrow> rat \<Rightarrow> rat \<Rightarrow> rat" where
  "feasible_outflow outflow available cap = (if cap \<le> 0 then 0 else min (min outflow available) cap)"

definition update_edge_state :: "rat \<Rightarrow> rat \<Rightarrow> rat \<Rightarrow> rat \<Rightarrow> rat \<Rightarrow> rat \<Rightarrow> edge_dynamic result" where
  "update_edge_state q stock inflow outflow free_flow cap = bindE (checks [
     (q < 0, ''queue must be non-negative''),
     (stock < 0, ''stock must be non-negative''),
     (stock < q, ''queue must not exceed stock''),
     (inflow < 0, ''inflow must be non-negative''),
     (outflow < 0, ''outflow must be non-negative''),
     (free_flow < 0, ''free_flow_time must be non-negative'')]) (\<lambda>_.
     let available = r64 (stock + inflow); out = feasible_outflow outflow available cap;
         new_stock = r64 (available - out); queued = r64 (q + max (r64 (inflow - out)) 0);
         new_queue = min (max queued 0) new_stock
     in bindE (safe_travel_time free_flow new_queue cap) (\<lambda>tt.
        Inr \<lparr>edge_dyn_queue = new_queue, edge_dyn_stock = new_stock, edge_dyn_travel_time = tt, edge_dyn_capacity = cap\<rparr>))"

section \<open>All edges\<close>

definition normalize_edge_values :: "rat list option \<Rightarrow> int \<Rightarrow> rat \<Rightarrow> string \<Rightarrow> rat list result" where
  "normalize_edge_values vals n dflt msg = (case vals of
     None \<Rightarrow> Inr (replicate (nat n) dflt)
   | Some xs \<Rightarrow> bindE (checks [(int (length xs) \<noteq> n, msg)]) (\<lambda>_. Inr xs))"

definition validate_edge_backend :: "string \<Rightarrow> unit result" where
  "validate_edge_backend backend = checks [(backend \<notin> {''baseline'', ''rust_cpu'', ''jax'', ''auto''},
     ''edge_backend must be one of: baseline, rust_cpu, jax, auto.'')]"

record edge_batch =
  batch_queue :: "rat list"
  batch_stock :: "rat list"
  batch_inflow :: "rat list"
  batch_outflow :: "rat list"
  batch_free_flow :: "rat list"
  batch_capacity :: "rat list"

definition validate_edge_batch_for_accelerator :: "edge_batch \<Rightarrow> unit result" where
  "validate_edge_batch_for_accelerator b = checks [
     (some_negative (batch_queue b), ''queue must be non-negative''),
     (some_negative (batch_stock b), ''stock must be non-negative''),
     (\<exists>(q, s) \<in> set (zip (batch_queue b) (batch_stock b)). s < q, ''queue must not exceed stock''),
     (some_negative (batch_inflow b), ''inflow must be non-negative''),
     (some_negative (batch_outflow b), ''outflow must be non-negative''),
     (some_negative (batch_free_flow b), ''free_flow_time must be non-negative''),
     (some_negative (batch_capacity b), ''capacity must be non-negative'')]"

type_synonym edge_columns = "rat list \<times> rat list \<times> rat list"

record edge_kernels =
  rust_edges :: "edge_batch \<Rightarrow> edge_columns result"
  jax_edges :: "edge_batch \<Rightarrow> edge_columns result"

definition evolve_edges_fast_tick_rust :: "edge_kernels \<Rightarrow> edge_batch \<Rightarrow> edge_columns result" where
  "evolve_edges_fast_tick_rust k b = bindE (validate_edge_batch_for_accelerator b) (\<lambda>_. rust_edges k b)"

text \<open>Every failure inside the JAX kernel is a \<^verbatim>\<open>RuntimeError\<close>.\<close>

definition evolve_edges_fast_tick_jax :: "edge_kernels \<Rightarrow> edge_batch \<Rightarrow> edge_columns result" where
  "evolve_edges_fast_tick_jax k b = bindE (validate_edge_batch_for_accelerator b) (\<lambda>_.
     case jax_edges k b of Inr r \<Rightarrow> Inr r | Inl e \<Rightarrow> Inl (RuntimeError ''JAX edge backend failed.''))"

text \<open>A backend that was asked for raises its \<^verbatim>\<open>RuntimeError\<close>; under \<^verbatim>\<open>auto\<close> the next one is tried.\<close>

definition try_backend :: "bool \<Rightarrow> edge_columns result \<Rightarrow> edge_columns option result" where
  "try_backend required r = (case r of
     Inr c \<Rightarrow> Inr (Some c)
   | Inl (RuntimeError m) \<Rightarrow> if required then Inl (RuntimeError m) else Inr None
   | Inl e \<Rightarrow> Inl e)"

definition accelerated_edges :: "edge_kernels \<Rightarrow> string \<Rightarrow> edge_batch \<Rightarrow> edge_columns option result" where
  "accelerated_edges k backend b =
     bindE (if backend = ''rust_cpu'' \<or> backend = ''auto''
            then try_backend (backend = ''rust_cpu'') (evolve_edges_fast_tick_rust k b) else Inr None) (\<lambda>acc.
     if acc = None \<and> (backend = ''jax'' \<or> backend = ''auto'')
     then try_backend (backend = ''jax'') (evolve_edges_fast_tick_jax k b) else Inr acc)"

definition baseline_edges :: "edge_batch \<Rightarrow> edge_columns result" where
  "baseline_edges b = bindE (mapE (\<lambda>i. update_edge_state (batch_queue b ! i) (batch_stock b ! i) (batch_inflow b ! i)
       (batch_outflow b ! i) (batch_free_flow b ! i) (batch_capacity b ! i)) [0..<length (batch_queue b)]) (\<lambda>es.
     Inr (map edge_dyn_queue es, map edge_dyn_stock es, map edge_dyn_travel_time es))"

record fast_tick_input =
  edge_inflow :: "rat list option"
  edge_outflow :: "rat list option"
  edge_free_flow :: "rat list option"
  edge_capacity :: "rat list option"
  edge_backend :: string

definition default_fast_tick :: fast_tick_input where
  "default_fast_tick = \<lparr>edge_inflow = None, edge_outflow = None, edge_free_flow = None, edge_capacity = None,
     edge_backend = ''baseline''\<rparr>"

definition edge_batch_of :: "world_state \<Rightarrow> fast_tick_input \<Rightarrow> edge_batch result" where
  "edge_batch_of w i = (let n = num_edges (graph w); t = traffic w in
     bindE (checks [
       (int (length (edge_queue t)) \<noteq> n, ''edge_queue length must match graph.num_edges.''),
       (int (length (edge_stock t)) \<noteq> n, ''edge_stock length must match graph.num_edges.''),
       (int (length (edge_travel_time t)) \<noteq> n, ''edge_travel_time length must match graph.num_edges.'')]) (\<lambda>_.
     bindE (normalize_edge_values (edge_inflow i) n 0 ''edge_inflow_veh_per_tick length must match graph.num_edges.'') (\<lambda>inflow.
     bindE (normalize_edge_values (edge_outflow i) n 0 ''edge_outflow_veh_per_tick length must match graph.num_edges.'') (\<lambda>outflow.
     bindE (normalize_edge_values (edge_free_flow i) n 1 ''edge_free_flow_time_ticks length must match graph.num_edges.'') (\<lambda>free.
     bindE (normalize_edge_values (edge_capacity i) n 1 ''edge_capacity_veh_per_tick length must match graph.num_edges.'') (\<lambda>cap.
     Inr \<lparr>batch_queue = edge_queue t, batch_stock = edge_stock t, batch_inflow = inflow, batch_outflow = outflow,
       batch_free_flow = free, batch_capacity = cap\<rparr>))))))"

definition evolve_edges_fast_tick :: "edge_kernels \<Rightarrow> world_state \<Rightarrow> fast_tick_input \<Rightarrow> world_state result" where
  "evolve_edges_fast_tick k w i =
     bindE (validate_edge_backend (edge_backend i)) (\<lambda>_.
     let next_step = traffic_step (traffic w) + 1 in
     if num_edges (graph w) = 0 then Inr (w\<lparr>traffic := (traffic w)\<lparr>traffic_step := next_step\<rparr>\<rparr>)
     else bindE (edge_batch_of w i) (\<lambda>b.
       bindE (accelerated_edges k (edge_backend i) b) (\<lambda>acc.
       bindE (case acc of Some c \<Rightarrow> Inr c | None \<Rightarrow> baseline_edges b) (\<lambda>(qs, ss, tts).
       Inr (w\<lparr>traffic := (traffic w)\<lparr>traffic_step := next_step, edge_queue := qs, edge_stock := ss, edge_travel_time := tts\<rparr>\<rparr>)))))"

definition project_feasible_movements :: "rat list \<Rightarrow> rat list \<Rightarrow> rat list \<Rightarrow> rat list result" where
  "project_feasible_movements sending receiving cap =
     bindE (checks [(\<not> (length sending = length receiving \<and> length receiving = length cap), ''movement arrays must have matching lengths.'')]) (\<lambda>_.
     Inr (map (\<lambda>i. max (min (min (sending ! i) (receiving ! i)) (cap ! i)) 0) [0..<length sending]))"

section \<open>The update of an edge\<close>

lemma micro_pos: "0 < micro"
  by (simp add: micro_def float_eval)

text \<open>With non-negative inputs the update returns: the queue stays within the stock, nothing is negative, and the
  outflow it takes is within the demand, the capacity and what is there.\<close>

lemma update_edge_state_ok:
  assumes "0 \<le> q" "q \<le> stock" "0 \<le> inflow" "0 \<le> outflow" "0 \<le> free_flow" "0 \<le> cap"
  obtains e where "update_edge_state q stock inflow outflow free_flow cap = Inr e"
    "0 \<le> edge_dyn_queue e" "edge_dyn_queue e \<le> edge_dyn_stock e" "0 \<le> edge_dyn_travel_time e"
    "edge_dyn_stock e = r64 (r64 (stock + inflow) - feasible_outflow outflow (r64 (stock + inflow)) cap)"
proof -
  define av where "av = r64 (stock + inflow)"
  define out where "out = feasible_outflow outflow av cap"
  define st where "st = r64 (av - out)"
  define qu where "qu = min (max (r64 (q + max (r64 (inflow - out)) 0)) 0) st"
  define tt where "tt = r64 (free_flow + r64 (qu / max cap micro))"
  have "0 \<le> av" using assms unfolding av_def by (intro f64.rd_nonneg) simp
  then have "out \<le> av" by (simp add: out_def feasible_outflow_def min_le_iff_disj)
  then have st: "0 \<le> st" unfolding st_def by (intro f64.rd_nonneg) simp
  then have qu: "0 \<le> qu" "qu \<le> st" unfolding qu_def by (rule min.boundedI[OF max.cobounded2]) (rule min.cobounded2)
  have "0 < max cap micro" using micro_pos by (rule less_le_trans) (rule max.cobounded2)
  then have "0 \<le> r64 (qu / max cap micro)" using qu(1) by (intro f64.rd_nonneg divide_nonneg_pos)
  then have tt: "0 \<le> tt" unfolding tt_def by (rule f64.rd_nonneg[OF add_nonneg_nonneg[OF assms(5)]])
  have "checks [(q < 0, ''queue must be non-negative''), (stock < 0, ''stock must be non-negative''),
      (stock < q, ''queue must not exceed stock''), (inflow < 0, ''inflow must be non-negative''),
      (outflow < 0, ''outflow must be non-negative''), (free_flow < 0, ''free_flow_time must be non-negative'')] = Inr ()"
    "safe_travel_time free_flow qu cap = Inr tt"
    using assms by (simp_all add: safe_travel_time_def check_eval tt_def)
  then have run: "update_edge_state q stock inflow outflow free_flow cap = Inr \<lparr>edge_dyn_queue = qu, edge_dyn_stock = st,
      edge_dyn_travel_time = tt, edge_dyn_capacity = cap\<rparr>"
    by (simp only: update_edge_state_def bindE_simps Let_def av_def[symmetric] out_def[symmetric] st_def[symmetric] qu_def[symmetric])
  have eq: "r64 (r64 (stock + inflow) - feasible_outflow outflow (r64 (stock + inflow)) cap) = st"
    by (simp only: st_def out_def av_def)
  show ?thesis by (rule that[OF run]) (use qu tt in \<open>simp_all add: eq\<close>)
qed

text \<open>Whole vehicles are conserved exactly.\<close>

lemma update_edge_state_whole:
  assumes "0 \<le> q" "q \<le> s" "0 \<le> i" "0 \<le> out" "0 \<le> cap" "0 \<le> free_flow" "s + i \<le> 2 ^ 53"
  obtains e where "update_edge_state (of_int q) (of_int s) (of_int i) (of_int out) free_flow (of_int cap) = Inr e"
    "edge_dyn_stock e = of_int (s + i - min (min out (s + i)) cap)"
proof -
  have whole: "r64 (of_int s + of_int i) = of_int (s + i)"
    using r64_of_int[of "s + i"] assms by simp
  have "feasible_outflow (of_int out) (of_int (s + i)) (of_int cap) = of_int (min (min out (s + i)) cap)"
    using assms by (auto simp: feasible_outflow_def min_def)
  moreover have "r64 (of_int (s + i) - of_int (min (min out (s + i)) cap)) = of_int (s + i - min (min out (s + i)) cap)"
    using r64_of_int[of "s + i - min (min out (s + i)) cap"] assms by simp
  moreover obtain e where "update_edge_state (of_int q) (of_int s) (of_int i) (of_int out) free_flow (of_int cap) = Inr e"
    "edge_dyn_stock e = r64 (r64 (of_int s + of_int i) - feasible_outflow (of_int out) (r64 (of_int s + of_int i)) (of_int cap))"
    by (rule update_edge_state_ok[of "of_int q" "of_int s" "of_int i" "of_int out" free_flow "of_int cap"]) (use assms in simp_all)
  ultimately show ?thesis using that whole by simp
qed

section \<open>The batch\<close>

definition column_ok :: "int \<Rightarrow> rat list option \<Rightarrow> bool" where
  "column_ok n vals \<longleftrightarrow> (\<forall>xs. vals = Some xs \<longrightarrow> int (length xs) = n \<and> (\<forall>x \<in> set xs. 0 \<le> x))"

definition fast_inputs_ok :: "int \<Rightarrow> fast_tick_input \<Rightarrow> bool" where
  "fast_inputs_ok n i \<longleftrightarrow> column_ok n (edge_inflow i) \<and> column_ok n (edge_outflow i) \<and> column_ok n (edge_free_flow i) \<and>
     column_ok n (edge_capacity i)"

lemma normalize_ok:
  assumes "column_ok n vals" "0 \<le> n" "0 \<le> dflt"
  obtains xs where "normalize_edge_values vals n dflt msg = Inr xs" "int (length xs) = n" "\<forall>x \<in> set xs. 0 \<le> x"
  using assms that by (cases vals) (auto simp: normalize_edge_values_def column_ok_def check_eval)

lemma baseline_edges_ok:
  assumes "list_all2 (\<lambda>q s. 0 \<le> q \<and> q \<le> s) (batch_queue b) (batch_stock b)"
    "\<forall>xs \<in> {batch_inflow b, batch_outflow b, batch_free_flow b, batch_capacity b}. length xs = length (batch_queue b) \<and> (\<forall>x \<in> set xs. 0 \<le> x)"
  obtains qs ss tts where "baseline_edges b = Inr (qs, ss, tts)" "list_all2 (\<lambda>q s. 0 \<le> q \<and> q \<le> s) qs ss"
    "length qs = length (batch_queue b)" "length tts = length (batch_queue b)" "\<forall>x \<in> set tts. 0 \<le> x"
proof -
  let ?n = "length (batch_queue b)"
  let ?f = "\<lambda>i. update_edge_state (batch_queue b ! i) (batch_stock b ! i) (batch_inflow b ! i)
       (batch_outflow b ! i) (batch_free_flow b ! i) (batch_capacity b ! i)"
  have edge: "\<exists>e. ?f i = Inr e \<and> 0 \<le> edge_dyn_queue e \<and> edge_dyn_queue e \<le> edge_dyn_stock e \<and> 0 \<le> edge_dyn_travel_time e"
    if "i < ?n" for i
  proof -
    have "0 \<le> batch_queue b ! i" "batch_queue b ! i \<le> batch_stock b ! i"
      using list_all2_nthD[OF assms(1) that] by simp_all
    moreover have "0 \<le> batch_inflow b ! i" "0 \<le> batch_outflow b ! i" "0 \<le> batch_free_flow b ! i" "0 \<le> batch_capacity b ! i"
      using assms(2) that by simp_all
    ultimately show ?thesis by (rule update_edge_state_ok) blast
  qed
  have "\<forall>i \<in> set [0..<?n]. \<exists>e. ?f i = Inr e" using edge by fastforce
  from mapE_total[OF this] obtain es where es: "mapE ?f [0..<?n] = Inr es" by blast
  have len: "length es = ?n" using mapE_length[OF es] by simp
  have ok: "0 \<le> edge_dyn_queue (es ! i) \<and> edge_dyn_queue (es ! i) \<le> edge_dyn_stock (es ! i) \<and> 0 \<le> edge_dyn_travel_time (es ! i)"
    if "i < ?n" for i
    using edge[OF that] mapE_nth[OF es, of i] that by auto
  show ?thesis
  proof (rule that)
    show "baseline_edges b = Inr (map edge_dyn_queue es, map edge_dyn_stock es, map edge_dyn_travel_time es)"
      using es by (simp add: baseline_edges_def)
    show "list_all2 (\<lambda>q s. 0 \<le> q \<and> q \<le> s) (map edge_dyn_queue es) (map edge_dyn_stock es)"
      using ok len by (simp add: list_all2_conv_all_nth)
    show "\<forall>x \<in> set (map edge_dyn_travel_time es). 0 \<le> x" using ok len by (auto simp: in_set_conv_nth)
  qed (use len in simp_all)
qed

lemma evolve_ok:
  assumes "traffic_ok (num_edges (graph w)) (traffic w)" "0 \<le> num_edges (graph w)"
    "fast_inputs_ok (num_edges (graph w)) i" "edge_backend i = ''baseline''"
  obtains t where "evolve_edges_fast_tick k w i = Inr (w\<lparr>traffic := t\<rparr>)" "traffic_ok (num_edges (graph w)) t"
    "traffic_step t = traffic_step (traffic w) + 1"
proof (cases "num_edges (graph w) = 0")
  case True
  then show ?thesis
    using that[of "(traffic w)\<lparr>traffic_step := traffic_step (traffic w) + 1\<rparr>"] assms
    by (simp add: evolve_edges_fast_tick_def validate_edge_backend_def check_eval Let_def traffic_ok_def)
next
  case False
  let ?n = "num_edges (graph w)"
  have col: "\<exists>xs. normalize_edge_values vals ?n dflt msg = Inr xs \<and> int (length xs) = ?n \<and> (\<forall>x \<in> set xs. 0 \<le> x)"
    if "column_ok ?n vals" "0 \<le> dflt" for vals dflt msg
    using normalize_ok[OF that(1) assms(2) that(2)] by metis
  obtain b where b: "edge_batch_of w i = Inr b" "batch_queue b = edge_queue (traffic w)" "batch_stock b = edge_stock (traffic w)"
    "\<forall>xs \<in> {batch_inflow b, batch_outflow b, batch_free_flow b, batch_capacity b}. int (length xs) = ?n \<and> (\<forall>x \<in> set xs. 0 \<le> x)"
  proof -
    obtain xs1 where x1: "normalize_edge_values (edge_inflow i) ?n 0 ''edge_inflow_veh_per_tick length must match graph.num_edges.'' = Inr xs1"
      "int (length xs1) = ?n \<and> (\<forall>x \<in> set xs1. 0 \<le> x)" using col assms(3) by (metis fast_inputs_ok_def order_refl)
    obtain xs2 where x2: "normalize_edge_values (edge_outflow i) ?n 0 ''edge_outflow_veh_per_tick length must match graph.num_edges.'' = Inr xs2"
      "int (length xs2) = ?n \<and> (\<forall>x \<in> set xs2. 0 \<le> x)" using col assms(3) by (metis fast_inputs_ok_def order_refl)
    obtain xs3 where x3: "normalize_edge_values (edge_free_flow i) ?n 1 ''edge_free_flow_time_ticks length must match graph.num_edges.'' = Inr xs3"
      "int (length xs3) = ?n \<and> (\<forall>x \<in> set xs3. 0 \<le> x)" using col assms(3) by (metis fast_inputs_ok_def zero_le_one)
    obtain xs4 where x4: "normalize_edge_values (edge_capacity i) ?n 1 ''edge_capacity_veh_per_tick length must match graph.num_edges.'' = Inr xs4"
      "int (length xs4) = ?n \<and> (\<forall>x \<in> set xs4. 0 \<le> x)" using col assms(3) by (metis fast_inputs_ok_def zero_le_one)
    show ?thesis
      using that x1 x2 x3 x4 assms(1) by (simp add: edge_batch_of_def traffic_ok_def check_eval Let_def)
  qed
  have len: "int (length (batch_queue b)) = ?n" using assms(1) b(2) by (simp add: traffic_ok_def)
  obtain qs ss tts where o: "baseline_edges b = Inr (qs, ss, tts)" "list_all2 (\<lambda>q s. 0 \<le> q \<and> q \<le> s) qs ss"
    "length qs = length (batch_queue b)" "length tts = length (batch_queue b)" "\<forall>x \<in> set tts. 0 \<le> x"
    by (rule baseline_edges_ok[of b]) (use assms(1) b len in \<open>auto simp: traffic_ok_def\<close>)
  have "length ss = length qs" using o(2) by (simp add: list_all2_lengthD)
  then show ?thesis
    using that[of "(traffic w)\<lparr>traffic_step := traffic_step (traffic w) + 1, edge_queue := qs, edge_stock := ss, edge_travel_time := tts\<rparr>"]
      False b(1) o len assms(1,4)
    by (simp add: evolve_edges_fast_tick_def validate_edge_backend_def accelerated_edges_def check_eval Let_def traffic_ok_def)
qed

text \<open>Whatever the backend answers, a fast tick changes the traffic alone and advances the step by one.\<close>

lemma evolve_effect:
  assumes "evolve_edges_fast_tick k w i = Inr w'"
  obtains t where "w' = w\<lparr>traffic := t\<rparr>" "traffic_step t = traffic_step (traffic w) + 1"
  using assms that
  by (auto simp: evolve_edges_fast_tick_def check_simps Let_def split: if_splits option.splits)

end
