(* ===== verification/Multirate.thy ===== *)
theory Multirate
  imports Meso Candidates
begin

text \<open>
  The multirate step of the world (src/src/metroflow/sim/orchestrator.py) over its scheduler
  (sim/scheduler.py), the accessibility snapshot (demand/accessibility.py) and the land-use feedback
  (landuse/evolution.py).  A medium tick takes a snapshot of accessibility, a slow tick consumes the snapshot
  that was there before the call and clears it, a fast tick moves the edges and advances the clock; the
  contract is validated before and after.
\<close>

section \<open>The scheduler\<close>

record scheduler_choice =
  run_fast :: bool
  run_medium :: bool
  run_slow :: bool

definition should_run :: "int \<Rightarrow> int \<Rightarrow> bool result" where
  "should_run step every = bindE (checks [
     (step < 0, ''step_idx must be non-negative.''),
     (every \<le> 0, ''Cadence must be positive.'')]) (\<lambda>_. Inr (step mod every = 0))"

definition scheduler_decision :: "int \<Rightarrow> tick_schedule \<Rightarrow> scheduler_choice result" where
  "scheduler_decision step s = bindE (checks [
     (\<not> (fast_every s \<le> medium_every s \<and> medium_every s \<le> slow_every s),
       ''Invalid multirate ordering: fast <= medium <= slow must hold.'')]) (\<lambda>_.
     bindE (should_run step (fast_every s)) (\<lambda>f.
     bindE (should_run step (medium_every s)) (\<lambda>m.
     bindE (should_run step (slow_every s)) (\<lambda>sl.
     Inr \<lparr>run_fast = f, run_medium = m, run_slow = sl\<rparr>))))"

section \<open>Accessibility\<close>

record accessibility_snapshot =
  computed_at_step :: int
  snapshot_graph_version :: int
  snapshot_landuse_version :: int
  snapshot_costs :: "rat list list"

definition compute_accessibility_snapshot :: "int \<Rightarrow> int \<Rightarrow> int \<Rightarrow> rat list list \<Rightarrow> rat list \<Rightarrow> accessibility_snapshot result" where
  "compute_accessibility_snapshot step gv lv travel opportunities = (let n = length opportunities in
     bindE (checks [
       (length travel \<noteq> n, ''zonal_travel_times dimension must match zone_opportunities length.''),
       (\<exists>row \<in> set travel. length row \<noteq> n, ''zonal_travel_times rows must match zone_opportunities length.''),
       (\<exists>row \<in> set travel. some_negative row, ''zonal_travel_times must be non-negative.''),
       (some_negative opportunities, ''zone_opportunities must be non-negative.'')]) (\<lambda>_.
     Inr \<lparr>computed_at_step = step, snapshot_graph_version = gv, snapshot_landuse_version = lv,
       snapshot_costs = map (\<lambda>row. map2 (\<lambda>t opp. r64 (t / max opp 1)) row opportunities) travel\<rparr>))"

definition snapshot_is_stale :: "accessibility_snapshot \<Rightarrow> world_state \<Rightarrow> bool" where
  "snapshot_is_stale s w \<longleftrightarrow> snapshot_graph_version s \<noteq> graph_version (graph w) \<or>
     snapshot_landuse_version s \<noteq> landuse_version (landuse w)"

definition update_accessibility_cache :: "world_state \<Rightarrow> accessibility_snapshot \<Rightarrow> world_state" where
  "update_accessibility_cache w s = w\<lparr>accessibility := (accessibility w)\<lparr>
     access_version := access_version (accessibility w) + 1,
     lagged_snapshot_step := (if snapshot_costs s \<noteq> [] then computed_at_step s else - 1),
     access_graph_version := snapshot_graph_version s,
     access_landuse_version := snapshot_landuse_version s,
     zonal_costs := snapshot_costs s\<rparr>\<rparr>"

section \<open>Land use\<close>

definition reduce_zonal_costs_to_lagged_accessibility :: "rat list list \<Rightarrow> rat list result" where
  "reduce_zonal_costs_to_lagged_accessibility costs = bindE (checks [
     (\<exists>row \<in> set costs. length row \<noteq> length costs, ''zonal_costs rows must match zonal_costs dimension.''),
     (\<exists>row \<in> set costs. some_negative row, ''zonal_costs must be non-negative.'')]) (\<lambda>_.
     Inr (map (\<lambda>row. r64 (1 / max (r64 (float_sum row / of_nat (length row))) micro)) costs))"

definition feedback_gain :: rat where
  "feedback_gain = r64 (1 / 100)"

definition apply_lagged_landuse_feedback :: "rat list \<Rightarrow> rat list \<Rightarrow> rat list \<Rightarrow> rat \<Rightarrow> (rat list \<times> rat list) result" where
  "apply_lagged_landuse_feedback lagged housing jobs gain = bindE (checks [
     (length lagged \<noteq> length housing \<or> length lagged \<noteq> length jobs,
       ''lagged_accessibility, current_housing, and current_jobs must align.''),
     (gain < 0, ''gain must be non-negative.''),
     (some_negative housing, ''current_housing must be non-negative.''),
     (some_negative jobs, ''current_jobs must be non-negative.'')]) (\<lambda>_.
     let delta = map (\<lambda>a. r64 (gain * max a 0)) lagged in Inr (delta, delta))"

definition apply_landuse_delta :: "rat list \<Rightarrow> rat list \<Rightarrow> rat list \<times> rat list \<Rightarrow> rat list \<times> rat list" where
  "apply_landuse_delta housing jobs delta =
     (map2 (\<lambda>h d. max (r64 (h + d)) 0) housing (fst delta), map2 (\<lambda>j d. max (r64 (j + d)) 0) jobs (snd delta))"

section \<open>The step\<close>

record medium_tick_input =
  zonal_travel_times :: "rat list list option"
  zone_opportunities :: "rat list option"

definition validate_medium_inputs :: "world_state \<Rightarrow> medium_tick_input \<Rightarrow> (rat list list \<times> rat list) result" where
  "validate_medium_inputs w m = (case (zonal_travel_times m, zone_opportunities m) of
     (Some travel, Some opps) \<Rightarrow> bindE (checks [
       (length opps \<noteq> zone_count w, ''zone_opportunities length must match landuse.zone_labels length.''),
       (length travel \<noteq> zone_count w, ''zonal_travel_times dimension must match landuse.zone_labels length.''),
       (\<exists>row \<in> set travel. length row \<noteq> zone_count w, ''zonal_travel_times rows must match landuse.zone_labels length.'')])
       (\<lambda>_. Inr (travel, opps))
   | _ \<Rightarrow> Inl (ValueError ''zonal_travel_times and zone_opportunities are required for medium cadence.''))"

definition validate_slow_snapshot :: "world_state \<Rightarrow> unit result" where
  "validate_slow_snapshot w = (let a = accessibility w in checks [
     (zonal_costs a = [], ''A pre-call lagged accessibility snapshot is required for slow cadence.''),
     (length (zonal_costs a) \<noteq> zone_count w, ''Lagged accessibility payload dimension must match landuse.zone_labels length.''),
     (\<exists>row \<in> set (zonal_costs a). length row \<noteq> zone_count w, ''Lagged accessibility rows must match landuse.zone_labels length.''),
     (traffic_step (traffic w) \<le> lagged_snapshot_step a, ''Lagged accessibility snapshot must predate the current traffic.step.''),
     (access_graph_version a \<noteq> graph_version (graph w), ''Lagged accessibility graph_version must match the pre-call world.''),
     (access_landuse_version a \<noteq> landuse_version (landuse w), ''Lagged accessibility landuse_version must match the pre-call world.'')])"

text \<open>The three phases of a step, each applied when it is due.\<close>

definition medium_phase :: "world_state \<Rightarrow> rat list list \<times> rat list \<Rightarrow> world_state \<Rightarrow> world_state result" where
  "medium_phase w inputs w' = bindE (compute_accessibility_snapshot (traffic_step (traffic w)) (graph_version (graph w))
     (landuse_version (landuse w)) (fst inputs) (snd inputs)) (\<lambda>s. Inr (update_accessibility_cache w' s))"

definition slow_phase :: "accessibility_state \<Rightarrow> world_state \<Rightarrow> world_state result" where
  "slow_phase before w' =
     bindE (reduce_zonal_costs_to_lagged_accessibility (zonal_costs before)) (\<lambda>lagged.
     bindE (apply_lagged_landuse_feedback lagged (housing_capacity (landuse w')) (jobs_capacity (landuse w')) feedback_gain) (\<lambda>delta.
     let (housing, jobs) = apply_landuse_delta (housing_capacity (landuse w')) (jobs_capacity (landuse w')) delta in
     Inr (w'\<lparr>landuse := (landuse w')\<lparr>landuse_version := landuse_version (landuse w') + 1, housing_capacity := housing, jobs_capacity := jobs\<rparr>,
       accessibility := (accessibility w')\<lparr>access_version := access_version (accessibility w') + 1, lagged_snapshot_step := - 1,
         access_graph_version := access_graph_version before, access_landuse_version := access_landuse_version before,
         zonal_costs := []\<rparr>\<rparr>)))"

definition step_world :: "edge_kernels \<Rightarrow> tick_schedule \<Rightarrow> world_state \<Rightarrow> fast_tick_input \<times> medium_tick_input \<Rightarrow> world_state result" where
  "step_world k sched w inputs =
     bindE (validate_state_contract w) (\<lambda>_.
     bindE (scheduler_decision (traffic_step (traffic w)) sched) (\<lambda>d.
     bindE (checks [
       (run_medium d \<and> \<not> run_fast d, ''Illegal schedule: medium cadence requires fast cadence.''),
       (run_medium d \<and> run_slow d, ''Illegal same-step medium and slow overlap is forbidden.'')]) (\<lambda>_.
     bindE (if run_medium d then bindE (validate_medium_inputs w (snd inputs)) (\<lambda>m. Inr (Some m)) else Inr None) (\<lambda>medium.
     bindE (if run_slow d then validate_slow_snapshot w else Inr ()) (\<lambda>_.
     if \<not> (run_fast d \<or> run_medium d \<or> run_slow d) then Inr w
     else
       bindE (case medium of Some m \<Rightarrow> medium_phase w m w | None \<Rightarrow> Inr w) (\<lambda>w1.
       bindE (if run_fast d then evolve_edges_fast_tick k w1 (fst inputs) else Inr w1) (\<lambda>w2.
       bindE (if run_slow d then slow_phase (accessibility w) w2 else Inr w2) (\<lambda>w3.
       bindE (validate_state_contract w3) (\<lambda>_. Inr w3)))))))))"

text \<open>\<^verbatim>\<open>step_world_from_inputs\<close>: an absent part is the default one.\<close>

definition step_world_from_inputs :: "edge_kernels \<Rightarrow> tick_schedule option \<Rightarrow> world_state \<Rightarrow> fast_tick_input option \<Rightarrow>
    medium_tick_input option \<Rightarrow> world_state result" where
  "step_world_from_inputs k sched w fast medium =
     step_world k (case sched of None \<Rightarrow> default_schedule | Some s \<Rightarrow> s) w
       (case fast of None \<Rightarrow> default_fast_tick | Some f \<Rightarrow> f,
        case medium of None \<Rightarrow> \<lparr>zonal_travel_times = None, zone_opportunities = None\<rparr> | Some m \<Rightarrow> m)"

section \<open>A legal step always returns\<close>

definition schedule_ok :: "tick_schedule \<Rightarrow> bool" where
  "schedule_ok s \<longleftrightarrow> 0 < fast_every s \<and> fast_every s \<le> medium_every s \<and> medium_every s \<le> slow_every s"

definition due :: "int \<Rightarrow> int \<Rightarrow> bool" where
  "due step every \<longleftrightarrow> step mod every = 0"

lemma scheduler_decision_ok:
  "schedule_ok s \<Longrightarrow> 0 \<le> step \<Longrightarrow> scheduler_decision step s =
     Inr \<lparr>run_fast = due step (fast_every s), run_medium = due step (medium_every s), run_slow = due step (slow_every s)\<rparr>"
  by (simp add: scheduler_decision_def should_run_def check_eval schedule_ok_def due_def)

definition medium_inputs_ok :: "world_state \<Rightarrow> medium_tick_input \<Rightarrow> bool" where
  "medium_inputs_ok w m \<longleftrightarrow> (\<exists>travel opps. zonal_travel_times m = Some travel \<and> zone_opportunities m = Some opps \<and>
     length opps = zone_count w \<and> length travel = zone_count w \<and> (\<forall>x \<in> set opps. 0 \<le> x) \<and>
     (\<forall>row \<in> set travel. length row = zone_count w \<and> (\<forall>x \<in> set row. 0 \<le> x)))"

definition snapshot_fresh :: "world_state \<Rightarrow> bool" where
  "snapshot_fresh w \<longleftrightarrow> zonal_costs (accessibility w) \<noteq> [] \<and> access_graph_version (accessibility w) = graph_version (graph w) \<and>
     access_landuse_version (accessibility w) = landuse_version (landuse w)"

text \<open>The feedback of a slow tick, as a function of the snapshot alone.\<close>

definition landuse_feedback :: "rat list list \<Rightarrow> landuse_state \<Rightarrow> landuse_state" where
  "landuse_feedback costs l = (let delta = map (\<lambda>row. r64 (feedback_gain *
        max (r64 (1 / max (r64 (float_sum row / of_nat (length row))) micro)) 0)) costs in
     l\<lparr>landuse_version := landuse_version l + 1,
       housing_capacity := map2 (\<lambda>h d. max (r64 (h + d)) 0) (housing_capacity l) delta,
       jobs_capacity := map2 (\<lambda>j d. max (r64 (j + d)) 0) (jobs_capacity l) delta\<rparr>)"

definition cleared_access :: "accessibility_state \<Rightarrow> accessibility_state \<Rightarrow> accessibility_state" where
  "cleared_access before a = a\<lparr>access_version := access_version a + 1, lagged_snapshot_step := - 1,
     access_graph_version := access_graph_version before, access_landuse_version := access_landuse_version before, zonal_costs := []\<rparr>"

definition medium_costs :: "medium_tick_input \<Rightarrow> rat list list" where
  "medium_costs m = map (\<lambda>row. map2 (\<lambda>t opp. r64 (t / max opp 1)) row (the (zone_opportunities m))) (the (zonal_travel_times m))"

definition snapshot_access :: "world_state \<Rightarrow> medium_tick_input \<Rightarrow> accessibility_state" where
  "snapshot_access w m = (accessibility w)\<lparr>access_version := access_version (accessibility w) + 1,
     lagged_snapshot_step := (if zone_count w = 0 then - 1 else traffic_step (traffic w)),
     access_graph_version := graph_version (graph w), access_landuse_version := landuse_version (landuse w),
     zonal_costs := medium_costs m\<rparr>"

lemma feedback_gain_nonneg: "0 \<le> feedback_gain"
  unfolding feedback_gain_def by (rule f64.rd_nonneg) simp

lemma medium_ready:
  assumes "medium_inputs_ok w m"
  obtains inputs where "validate_medium_inputs w m = Inr inputs" "medium_phase w inputs w' = Inr (w'\<lparr>accessibility :=
     (accessibility w')\<lparr>access_version := access_version (accessibility w') + 1,
       lagged_snapshot_step := (if zone_count w = 0 then - 1 else traffic_step (traffic w)),
       access_graph_version := graph_version (graph w), access_landuse_version := landuse_version (landuse w),
       zonal_costs := medium_costs m\<rparr>\<rparr>)"
proof -
  obtain travel opps where i: "zonal_travel_times m = Some travel" "zone_opportunities m = Some opps"
    "length opps = zone_count w" "length travel = zone_count w" "\<forall>x \<in> set opps. 0 \<le> x"
    "\<forall>row \<in> set travel. length row = zone_count w \<and> (\<forall>x \<in> set row. 0 \<le> x)"
    using assms by (auto simp: medium_inputs_ok_def)
  have "travel = [] \<longleftrightarrow> zone_count w = 0" using i(4) by (metis length_0_conv)
  then show ?thesis using that[of "(travel, opps)"] i
    by (simp add: validate_medium_inputs_def medium_phase_def compute_accessibility_snapshot_def update_accessibility_cache_def
      medium_costs_def check_eval Let_def)
qed

lemma medium_costs_ok:
  assumes "medium_inputs_ok w m"
  shows "length (medium_costs m) = zone_count w" "\<forall>row \<in> set (medium_costs m). length row = zone_count w \<and> (\<forall>x \<in> set row. 0 \<le> x)"
proof -
  obtain travel opps where i: "zonal_travel_times m = Some travel" "zone_opportunities m = Some opps"
    "length opps = zone_count w" "length travel = zone_count w"
    "\<forall>row \<in> set travel. length row = zone_count w \<and> (\<forall>x \<in> set row. 0 \<le> x)"
    using assms by (auto simp: medium_inputs_ok_def)
  show "length (medium_costs m) = zone_count w" using i by (simp add: medium_costs_def)
  have "0 \<le> r64 (t / max opp 1)" if "0 \<le> t" for t opp :: rat
    using that by (intro f64.rd_nonneg) simp
  then show "\<forall>row \<in> set (medium_costs m). length row = zone_count w \<and> (\<forall>x \<in> set row. 0 \<le> x)"
    using i by (auto simp: medium_costs_def dest!: set_zip_leftD)
qed

lemma slow_ready:
  assumes "zones_ok w'" "length costs = zone_count w'" "\<forall>row \<in> set costs. length row = zone_count w' \<and> (\<forall>x \<in> set row. 0 \<le> x)"
    "zonal_costs before = costs"
  shows "slow_phase before w' = Inr (w'\<lparr>landuse := landuse_feedback costs (landuse w'), accessibility := cleared_access before (accessibility w')\<rparr>)"
  using assms feedback_gain_nonneg
  by (simp add: slow_phase_def reduce_zonal_costs_to_lagged_accessibility_def apply_lagged_landuse_feedback_def apply_landuse_delta_def
    check_eval Let_def zones_ok_def landuse_feedback_def cleared_access_def o_def)

text \<open>The inputs with which a step is legal: the cadences that are due come with what they need.\<close>

definition step_legal :: "tick_schedule \<Rightarrow> world_state \<Rightarrow> fast_tick_input \<times> medium_tick_input \<Rightarrow> bool" where
  "step_legal sched w inputs \<longleftrightarrow> (let step = traffic_step (traffic w) in
     0 \<le> step \<and> schedule_ok sched \<and> fast_inputs_ok (num_edges (graph w)) (fst inputs) \<and> edge_backend (fst inputs) = ''baseline'' \<and>
     (due step (medium_every sched) \<longrightarrow> due step (fast_every sched) \<and> \<not> due step (slow_every sched) \<and> medium_inputs_ok w (snd inputs)) \<and>
     (due step (slow_every sched) \<longrightarrow> snapshot_fresh w))"

text \<open>What a legal step does to the parts of the world.\<close>

definition step_effect :: "tick_schedule \<Rightarrow> world_state \<Rightarrow> fast_tick_input \<times> medium_tick_input \<Rightarrow> world_state \<Rightarrow> bool" where
  "step_effect sched w inputs w' \<longleftrightarrow> (let step = traffic_step (traffic w) in
     graph w' = graph w \<and> demand w' = demand w \<and> policy w' = policy w \<and> replay w' = replay w \<and>
     traffic_step (traffic w') = (if due step (fast_every sched) then step + 1 else step) \<and>
     (\<not> due step (fast_every sched) \<longrightarrow> traffic w' = traffic w) \<and>
     landuse w' = (if due step (slow_every sched) then landuse_feedback (zonal_costs (accessibility w)) (landuse w) else landuse w) \<and>
     accessibility w' = (if due step (slow_every sched) then cleared_access (accessibility w) (accessibility w)
       else if due step (medium_every sched) then snapshot_access w (snd inputs) else accessibility w))"

lemma landuse_feedback_ok:
  assumes "zones_ok w" "length costs = zone_count w"
  shows "length (housing_capacity (landuse_feedback costs (landuse w))) = zone_count w"
    "length (jobs_capacity (landuse_feedback costs (landuse w))) = zone_count w"
    "\<forall>x \<in> set (housing_capacity (landuse_feedback costs (landuse w))). 0 \<le> x"
    "\<forall>x \<in> set (jobs_capacity (landuse_feedback costs (landuse w))). 0 \<le> x"
    "landuse_version (landuse_feedback costs (landuse w)) = landuse_version (landuse w) + 1"
    "zone_labels (landuse_feedback costs (landuse w)) = zone_labels (landuse w)"
  using assms by (auto simp: landuse_feedback_def zones_ok_def Let_def)

text \<open>The fast phase after an optional medium phase, and the world that results.\<close>

lemma fast_phase_ok:
  assumes "world_ok w" "fast_inputs_ok (num_edges (graph w)) i" "edge_backend i = ''baseline''"
  obtains t where "evolve_edges_fast_tick k (w\<lparr>accessibility := a\<rparr>) i = Inr (w\<lparr>accessibility := a, traffic := t\<rparr>)"
    "traffic_ok (num_edges (graph w)) t" "traffic_step t = traffic_step (traffic w) + 1"
  using evolve_ok[of "w\<lparr>accessibility := a\<rparr>" i k] assms by (auto simp: world_ok_def graph_ok_def)

lemma contract_step:
  assumes "world_ok w" "traffic_ok (num_edges (graph w)) t" "snapshot_ok (zone_count w) (traffic_step t) a"
    "0 \<le> access_version a" "0 \<le> access_graph_version a" "0 \<le> access_landuse_version a"
  shows "validate_state_contract (w\<lparr>accessibility := a, traffic := t\<rparr>) = Inr ()"
  using assms by (simp add: validate_state_contract_iff world_ok_def counts_ok_def zones_ok_def zone_count_def)

lemma contract_slow:
  assumes "world_ok w" "traffic_ok (num_edges (graph w)) t" "length costs = zone_count w"
  shows "validate_state_contract (w\<lparr>traffic := t, landuse := landuse_feedback costs (landuse w),
    accessibility := cleared_access (accessibility w) (accessibility w)\<rparr>) = Inr ()"
proof -
  have z: "zones_ok w" using assms(1) by (simp add: world_ok_def)
  note l = landuse_feedback_ok[OF z assms(3)]
  show ?thesis
    using assms(1,2) l by (simp add: validate_state_contract_iff world_ok_def counts_ok_def zones_ok_def snapshot_ok_def
      cleared_access_def zone_count_def)
qed

lemma snapshot_weaken: "snapshot_ok n step a \<Longrightarrow> step \<le> step' \<Longrightarrow> snapshot_ok n step' a"
  by (auto simp: snapshot_ok_def)

lemma snapshot_access_ok:
  assumes "world_ok w" "medium_inputs_ok w m"
  shows "snapshot_ok (zone_count w) (traffic_step (traffic w) + 1) (snapshot_access w m)"
    "0 \<le> access_version (snapshot_access w m)" "0 \<le> access_graph_version (snapshot_access w m)"
    "0 \<le> access_landuse_version (snapshot_access w m)"
  using assms medium_costs_ok[OF assms(2)]
  by (auto simp: snapshot_access_def snapshot_ok_def world_ok_def counts_ok_def graph_ok_def)

lemma medium_then:
  assumes "medium_inputs_ok w m"
  obtains inputs where "validate_medium_inputs w m = Inr inputs" "medium_phase w inputs w = Inr (w\<lparr>accessibility := snapshot_access w m\<rparr>)"
  by (rule medium_ready[OF assms, of w]) (simp add: that snapshot_access_def)

lemma slow_validated: "world_ok w \<Longrightarrow> snapshot_fresh w \<Longrightarrow> validate_slow_snapshot w = Inr ()"
  by (auto simp: validate_slow_snapshot_def check_simps snapshot_fresh_def world_ok_def snapshot_ok_def Let_def)

lemma slow_then:
  assumes "world_ok w" "snapshot_fresh w"
  shows "slow_phase (accessibility w) (w\<lparr>traffic := t\<rparr>) = Inr (w\<lparr>traffic := t, landuse := landuse_feedback (zonal_costs (accessibility w)) (landuse w),
    accessibility := cleared_access (accessibility w) (accessibility w)\<rparr>)"
    and "length (zonal_costs (accessibility w)) = zone_count w"
proof -
  have s: "length (zonal_costs (accessibility w)) = zone_count w"
    "\<forall>row \<in> set (zonal_costs (accessibility w)). length row = zone_count w \<and> (\<forall>x \<in> set row. 0 \<le> x)"
    using assms by (auto simp: world_ok_def snapshot_ok_def snapshot_fresh_def)
  then show "length (zonal_costs (accessibility w)) = zone_count w" by simp
  show "slow_phase (accessibility w) (w\<lparr>traffic := t\<rparr>) = Inr (w\<lparr>traffic := t, landuse := landuse_feedback (zonal_costs (accessibility w)) (landuse w),
    accessibility := cleared_access (accessibility w) (accessibility w)\<rparr>)"
    using slow_ready[of "w\<lparr>traffic := t\<rparr>" "zonal_costs (accessibility w)" "accessibility w"] s assms(1)
    by (simp add: world_ok_def zones_ok_def zone_count_def)
qed

lemma step_world_cases:
  assumes "world_ok w" "0 \<le> traffic_step (traffic w)" "schedule_ok sched"
  shows "step_world k sched w inputs = (let step = traffic_step (traffic w); f = due step (fast_every sched);
       m = due step (medium_every sched); sl = due step (slow_every sched) in
     bindE (checks [
       (m \<and> \<not> f, ''Illegal schedule: medium cadence requires fast cadence.''),
       (m \<and> sl, ''Illegal same-step medium and slow overlap is forbidden.'')]) (\<lambda>_.
     bindE (if m then bindE (validate_medium_inputs w (snd inputs)) (\<lambda>x. Inr (Some x)) else Inr None) (\<lambda>medium.
     bindE (if sl then validate_slow_snapshot w else Inr ()) (\<lambda>_.
     if \<not> (f \<or> m \<or> sl) then Inr w
     else
       bindE (case medium of Some x \<Rightarrow> medium_phase w x w | None \<Rightarrow> Inr w) (\<lambda>w1.
       bindE (if f then evolve_edges_fast_tick k w1 (fst inputs) else Inr w1) (\<lambda>w2.
       bindE (if sl then slow_phase (accessibility w) w2 else Inr w2) (\<lambda>w3.
       bindE (validate_state_contract w3) (\<lambda>_. Inr w3))))))))"
  using assms(1) scheduler_decision_ok[OF assms(3,2)]
  by (simp add: step_world_def validate_state_contract_iff[symmetric] Let_def)

lemma world_parts: "w\<lparr>accessibility := accessibility w\<rparr> = w" "w\<lparr>traffic := traffic w\<rparr> = w"
  by simp_all

lemma step_world_medium:
  assumes "world_ok w" "step_legal sched w inputs" "due (traffic_step (traffic w)) (medium_every sched)"
  shows "\<exists>w'. step_world k sched w inputs = Inr w' \<and> world_ok w' \<and> step_effect sched w inputs w'"
proof -
  have l: "0 \<le> traffic_step (traffic w)" "schedule_ok sched" "fast_inputs_ok (num_edges (graph w)) (fst inputs)"
    "edge_backend (fst inputs) = ''baseline''" "due (traffic_step (traffic w)) (fast_every sched)"
    "\<not> due (traffic_step (traffic w)) (slow_every sched)" "medium_inputs_ok w (snd inputs)"
    using assms(2,3) by (simp_all add: step_legal_def Let_def)
  obtain inp where inp: "validate_medium_inputs w (snd inputs) = Inr inp"
    "medium_phase w inp w = Inr (w\<lparr>accessibility := snapshot_access w (snd inputs)\<rparr>)"
    by (rule medium_then[OF l(7)])
  obtain t where t: "evolve_edges_fast_tick k (w\<lparr>accessibility := snapshot_access w (snd inputs)\<rparr>) (fst inputs) =
      Inr (w\<lparr>accessibility := snapshot_access w (snd inputs), traffic := t\<rparr>)"
    "traffic_ok (num_edges (graph w)) t" "traffic_step t = traffic_step (traffic w) + 1"
    by (rule fast_phase_ok[OF assms(1) l(3,4)])
  let ?w = "w\<lparr>accessibility := snapshot_access w (snd inputs), traffic := t\<rparr>"
  have c: "validate_state_contract ?w = Inr ()"
    using snapshot_access_ok[OF assms(1) l(7)] t(2,3) by (intro contract_step[OF assms(1)]) simp_all
  have "step_world k sched w inputs = Inr ?w"
    using inp t(1) c l(5,6) assms(3) by (simp add: step_world_cases[OF assms(1) l(1,2)] check_eval)
  moreover have "world_ok ?w" using c by (simp add: validate_state_contract_iff)
  moreover have "step_effect sched w inputs ?w" using l(5,6) assms(3) t(3) by (simp add: step_effect_def Let_def)
  ultimately show ?thesis by blast
qed

lemma step_world_slow:
  assumes "world_ok w" "step_legal sched w inputs" "due (traffic_step (traffic w)) (slow_every sched)"
  shows "\<exists>w'. step_world k sched w inputs = Inr w' \<and> world_ok w' \<and> step_effect sched w inputs w'"
proof -
  let ?step = "traffic_step (traffic w)"
  have l: "0 \<le> ?step" "schedule_ok sched" "fast_inputs_ok (num_edges (graph w)) (fst inputs)"
    "edge_backend (fst inputs) = ''baseline''" "\<not> due ?step (medium_every sched)" "snapshot_fresh w"
    using assms(2,3) by (auto simp: step_legal_def Let_def)
  obtain t where t: "(if due ?step (fast_every sched) then evolve_edges_fast_tick k w (fst inputs) else Inr w) = Inr (w\<lparr>traffic := t\<rparr>)"
    "traffic_ok (num_edges (graph w)) t" "traffic_step t = (if due ?step (fast_every sched) then ?step + 1 else ?step)"
    "\<not> due ?step (fast_every sched) \<Longrightarrow> t = traffic w"
  proof (cases "due ?step (fast_every sched)")
    case True
    obtain t where "evolve_edges_fast_tick k w (fst inputs) = Inr (w\<lparr>traffic := t\<rparr>)"
      "traffic_ok (num_edges (graph w)) t" "traffic_step t = ?step + 1"
      by (rule fast_phase_ok[OF assms(1) l(3,4), of k "accessibility w"]) simp
    then show ?thesis using True by (intro that) simp_all
  next
    case False
    show ?thesis by (rule that[of "traffic w"]) (use False assms(1) in \<open>simp_all add: world_ok_def\<close>)
  qed
  let ?w = "w\<lparr>traffic := t, landuse := landuse_feedback (zonal_costs (accessibility w)) (landuse w),
    accessibility := cleared_access (accessibility w) (accessibility w)\<rparr>"
  note sl = slow_then[OF assms(1) l(6)]
  have c: "validate_state_contract ?w = Inr ()" by (rule contract_slow[OF assms(1) t(2) sl(2)])
  have "step_world k sched w inputs = Inr ?w"
    using t(1) sl(1) c slow_validated[OF assms(1) l(6)] l(5) assms(3)
    by (simp add: step_world_cases[OF assms(1) l(1,2)] check_eval)
  moreover have "world_ok ?w" using c by (simp add: validate_state_contract_iff)
  moreover have "step_effect sched w inputs ?w" using l(5) assms(3) t(3,4) by (simp add: step_effect_def Let_def)
  ultimately show ?thesis by blast
qed

lemma step_world_fast:
  assumes "world_ok w" "step_legal sched w inputs" "\<not> due (traffic_step (traffic w)) (slow_every sched)"
    "\<not> due (traffic_step (traffic w)) (medium_every sched)"
  shows "\<exists>w'. step_world k sched w inputs = Inr w' \<and> world_ok w' \<and> step_effect sched w inputs w'"
proof -
  let ?step = "traffic_step (traffic w)"
  have l: "0 \<le> ?step" "schedule_ok sched" "fast_inputs_ok (num_edges (graph w)) (fst inputs)"
    "edge_backend (fst inputs) = ''baseline''"
    using assms(2) by (auto simp: step_legal_def Let_def)
  show ?thesis
  proof (cases "due ?step (fast_every sched)")
    case False
    then show ?thesis using assms(1,3,4) by (simp add: step_world_cases[OF assms(1) l(1,2)] check_eval step_effect_def Let_def)
  next
    case True
    obtain t where t: "evolve_edges_fast_tick k w (fst inputs) = Inr (w\<lparr>traffic := t\<rparr>)"
      "traffic_ok (num_edges (graph w)) t" "traffic_step t = ?step + 1"
      by (rule fast_phase_ok[OF assms(1) l(3,4), of k "accessibility w"]) simp
    have "snapshot_ok (zone_count w) (traffic_step t) (accessibility w)"
      by (rule snapshot_weaken[of _ ?step]) (use assms(1) t(3) in \<open>simp_all add: world_ok_def\<close>)
    then have c: "validate_state_contract (w\<lparr>traffic := t\<rparr>) = Inr ()"
      using contract_step[OF assms(1) t(2), of "accessibility w"] assms(1) by (simp add: world_ok_def counts_ok_def)
    have "step_world k sched w inputs = Inr (w\<lparr>traffic := t\<rparr>)"
      using t(1) c True assms(3,4) by (simp add: step_world_cases[OF assms(1) l(1,2)] check_eval)
    moreover have "world_ok (w\<lparr>traffic := t\<rparr>)" using c by (simp add: validate_state_contract_iff)
    moreover have "step_effect sched w inputs (w\<lparr>traffic := t\<rparr>)" using True assms(3,4) t(3) by (simp add: step_effect_def Let_def)
    ultimately show ?thesis by blast
  qed
qed

lemma step_world_returns:
  assumes "world_ok w" "step_legal sched w inputs"
  shows "\<exists>w'. step_world k sched w inputs = Inr w' \<and> world_ok w' \<and> step_effect sched w inputs w'"
proof (cases "due (traffic_step (traffic w)) (medium_every sched)")
  case True
  show ?thesis by (rule step_world_medium[OF assms True])
next
  case False
  show ?thesis
  proof (cases "due (traffic_step (traffic w)) (slow_every sched)")
    case True
    show ?thesis by (rule step_world_slow[OF assms True])
  next
    case F: False
    show ?thesis by (rule step_world_fast[OF assms F False])
  qed
qed

text \<open>C7: A world that meets its contract always steps when the due cadences have what they need: nothing
  raises, the closing validation included.  The clock advances by one exactly on a fast tick, a medium tick
  records the snapshot of this tick, and a slow tick changes land use by a function of the snapshot that was
  there before the call and clears it, so no cadence feeds back within its own tick.\<close>

theorem legal_step_keeps_contract:
  assumes "world_ok w" "step_legal sched w inputs"
  shows "\<exists>w'. step_world k sched w inputs = Inr w' \<and> validate_state_contract w' = Inr () \<and> step_effect sched w inputs w'"
  using step_world_returns[OF assms, of k] by (simp add: validate_state_contract_iff)

definition no_kernels :: edge_kernels where
  "no_kernels = \<lparr>rust_edges = (\<lambda>_. Inl (RuntimeError ''no kernel'')), jax_edges = (\<lambda>_. Inl (RuntimeError ''no kernel''))\<rparr>"

definition zoned_world :: "int \<Rightarrow> world_state" where
  "zoned_world step = (make_empty_world_state 17)\<lparr>
     graph := \<lparr>graph_version = 0, num_nodes = 2, num_edges = 1, edge_src = [0], edge_dst = [1], edge_class = [''road'']\<rparr>,
     traffic := \<lparr>traffic_step = step, edge_queue = [0], edge_stock = [1], edge_travel_time = [1], movement_queue = []\<rparr>,
     landuse := \<lparr>landuse_version = 3, zone_labels = [''core''], housing_capacity = [100], jobs_capacity = [120]\<rparr>\<rparr>"

definition medium_demo :: medium_tick_input where
  "medium_demo = \<lparr>zonal_travel_times = Some [[4]], zone_opportunities = Some [2]\<rparr>"

lemma zoned_world_ok: "0 \<le> step \<Longrightarrow> world_ok (zoned_world step)"
  by (simp add: zoned_world_def make_empty_world_state_def world_ok_def graph_ok_def traffic_ok_def counts_ok_def zones_ok_def
    zone_count_def snapshot_ok_def)

lemma zoned_step_legal: "step_legal default_schedule (zoned_world 10) (default_fast_tick, medium_demo)"
  by (simp add: step_legal_def schedule_ok_def default_schedule_def fast_inputs_ok_def column_ok_def default_fast_tick_def
    due_def medium_inputs_ok_def medium_demo_def zoned_world_def zone_count_def)

lemma legal_step_keeps_contract_witness:
  "\<exists>w'. step_world no_kernels default_schedule (zoned_world 10) (default_fast_tick, medium_demo) = Inr w' \<and>
     validate_state_contract w' = Inr () \<and> traffic_step (traffic w') = 11 \<and> lagged_snapshot_step (accessibility w') = 10 \<and>
     landuse w' = landuse (zoned_world 10)"
  using legal_step_keeps_contract[OF zoned_world_ok zoned_step_legal, of no_kernels]
  by (auto simp: step_effect_def Let_def due_def default_schedule_def snapshot_access_def zoned_world_def zone_count_def)

section \<open>Every run of the world stops\<close>

definition run_world :: "edge_kernels \<Rightarrow> tick_schedule \<Rightarrow> world_state \<Rightarrow> (fast_tick_input \<times> medium_tick_input) list \<Rightarrow> world_state result" where
  "run_world k sched w inputs = foldE (\<lambda>i w. step_world k sched w i) inputs w"

text \<open>The next tick, from a given one on, at which medium and slow are both due.\<close>

definition next_collision :: "tick_schedule \<Rightarrow> int \<Rightarrow> int" where
  "next_collision s step = (let p = lcm (medium_every s) (slow_every s) in p * ((step + p - 1) div p))"

lemma slow_phase_traffic: "slow_phase a w = Inr w' \<Longrightarrow> traffic w' = traffic w"
  by (auto simp: slow_phase_def check_simps Let_def case_prod_beta)

lemma medium_phase_traffic: "medium_phase v m w = Inr w' \<Longrightarrow> traffic w' = traffic w"
  by (auto simp: medium_phase_def check_simps update_accessibility_cache_def)

lemma step_advances:
  assumes "step_world k sched w i = Inr w'"
  shows "traffic_step (traffic w') = (if due (traffic_step (traffic w)) (fast_every sched) then traffic_step (traffic w) + 1
      else traffic_step (traffic w))"
    and "\<not> (due (traffic_step (traffic w)) (medium_every sched) \<and> due (traffic_step (traffic w)) (slow_every sched))"
proof -
  obtain d where d: "scheduler_decision (traffic_step (traffic w)) sched = Inr d" "\<not> (run_medium d \<and> run_slow d)"
    using assms by (auto simp: step_world_def check_simps)
  have due: "run_fast d \<longleftrightarrow> due (traffic_step (traffic w)) (fast_every sched)"
    "run_medium d \<longleftrightarrow> due (traffic_step (traffic w)) (medium_every sched)"
    "run_slow d \<longleftrightarrow> due (traffic_step (traffic w)) (slow_every sched)"
    using d(1) by (auto simp: scheduler_decision_def should_run_def check_simps due_def)
  then show "\<not> (due (traffic_step (traffic w)) (medium_every sched) \<and> due (traffic_step (traffic w)) (slow_every sched))"
    using d(2) by simp
  show "traffic_step (traffic w') = (if due (traffic_step (traffic w)) (fast_every sched) then traffic_step (traffic w) + 1
      else traffic_step (traffic w))"
  proof (cases "run_fast d \<or> run_medium d \<or> run_slow d")
    case False
    then show ?thesis using assms d due by (auto simp: step_world_def check_simps)
  next
    case True
    obtain w1 w2 where "traffic w1 = traffic w" "(if run_fast d then evolve_edges_fast_tick k w1 (fst i) else Inr w1) = Inr w2"
      "traffic w' = traffic w2"
      using assms d(1) True
      by (auto simp: step_world_def check_simps dest!: medium_phase_traffic slow_phase_traffic split: option.splits if_splits)
    then show ?thesis using due(1) by (auto elim!: evolve_effect split: if_splits)
  qed
qed

lemma run_bounded:
  assumes "run_world k sched w inputs = Inr w'" "traffic_step (traffic w) \<le> c" "due c (medium_every sched)" "due c (slow_every sched)"
  shows "traffic_step (traffic w') \<le> c"
  using assms(1,2)
proof (induction inputs arbitrary: w)
  case (Cons i inputs)
  then obtain v where v: "step_world k sched w i = Inr v" "run_world k sched v inputs = Inr w'"
    by (auto simp: run_world_def check_simps)
  have "traffic_step (traffic w) \<noteq> c" using step_advances(2)[OF v(1)] assms(3,4) by auto
  then have "traffic_step (traffic v) \<le> c" using step_advances(1)[OF v(1)] Cons.prems(2) by auto
  then show ?case using Cons.IH v(2) by blast
qed (simp add: run_world_def)

lemma sparse_fast_stalls:
  assumes "run_world k sched w inputs = Inr w'" "1 < fast_every sched" "\<not> due (traffic_step (traffic w)) (fast_every sched)"
  shows "traffic_step (traffic w') = traffic_step (traffic w)"
  using assms(1,3)
proof (induction inputs arbitrary: w)
  case (Cons i inputs)
  then obtain v where v: "step_world k sched w i = Inr v" "run_world k sched v inputs = Inr w'"
    by (auto simp: run_world_def check_simps)
  have "traffic_step (traffic v) = traffic_step (traffic w)" using step_advances(1)[OF v(1)] Cons.prems(2) by simp
  then show ?case using Cons.IH[OF v(2)] Cons.prems(2) by simp
qed (simp add: run_world_def)

lemma sparse_fast_one_tick:
  assumes "run_world k sched w inputs = Inr w'" "1 < fast_every sched"
  shows "traffic_step (traffic w') \<le> traffic_step (traffic w) + 1"
proof (cases inputs)
  case (Cons i rest)
  then obtain v where v: "step_world k sched w i = Inr v" "run_world k sched v rest = Inr w'"
    using assms(1) by (auto simp: run_world_def check_simps)
  show ?thesis
  proof (cases "due (traffic_step (traffic w)) (fast_every sched)")
    case False
    then show ?thesis using sparse_fast_stalls[OF assms] by simp
  next
    case True
    have n: "traffic_step (traffic v) = traffic_step (traffic w) + 1" using step_advances(1)[OF v(1)] True by simp
    have "\<not> due (traffic_step (traffic v)) (fast_every sched)"
      using True assms(2) unfolding n due_def by (simp add: mod_add_eq[symmetric, of "traffic_step (traffic w)"] mod_pos_pos_trivial)
    then show ?thesis using sparse_fast_stalls[OF v(2) assms(2)] n by simp
  qed
qed (use assms in \<open>simp add: run_world_def\<close>)

lemma next_collision_due:
  assumes "schedule_ok s"
  shows "due (next_collision s step) (medium_every s)" "due (next_collision s step) (slow_every s)" "step \<le> next_collision s step"
proof -
  let ?p = "lcm (medium_every s) (slow_every s)"
  have p: "0 < ?p" using assms by (auto simp: schedule_ok_def intro: lcm_pos_int)
  have "medium_every s dvd next_collision s step" "slow_every s dvd next_collision s step"
    by (simp_all add: next_collision_def Let_def dvd_mult2)
  then show "due (next_collision s step) (medium_every s)" "due (next_collision s step) (slow_every s)"
    by (simp_all add: due_def)
  have "?p * ((step + ?p - 1) div ?p) + (step + ?p - 1) mod ?p = step + ?p - 1" by simp
  moreover have "(step + ?p - 1) mod ?p < ?p" using p by simp
  ultimately show "step \<le> next_collision s step" unfolding next_collision_def Let_def by linarith
qed

text \<open>C23: No run of the world goes on for ever, whatever its inputs and kernels: the clock never passes the
  next tick at which medium and slow are both due, since the step there always raises; tick 0 is such a
  tick for every schedule, so a new world cannot be stepped at all.  With a fast cadence above one the
  clock advances by at most one tick in any run.\<close>

theorem world_runs_stop:
  assumes "schedule_ok sched" "run_world k sched w inputs = Inr w'"
  shows "traffic_step (traffic w') \<le> next_collision sched (traffic_step (traffic w)) \<and>
    (1 < fast_every sched \<longrightarrow> traffic_step (traffic w') \<le> traffic_step (traffic w) + 1) \<and>
    next_collision sched 0 = 0 \<and>
    (\<forall>v k i. traffic_step (traffic v) = next_collision sched (traffic_step (traffic w)) \<longrightarrow> (\<exists>e. step_world k sched v i = Inl e))"
proof -
  note c = next_collision_due[OF assms(1), of "traffic_step (traffic w)"]
  have stuck: "\<exists>e. step_world k sched v i = Inl e"
    if "traffic_step (traffic v) = next_collision sched (traffic_step (traffic w))" for v k i
    using step_advances(2)[of k sched v i] c that by (cases "step_world k sched v i") auto
  have "0 < lcm (medium_every sched) (slow_every sched)" using assms(1) by (auto simp: schedule_ok_def intro: lcm_pos_int)
  then have "next_collision sched 0 = 0" by (simp add: next_collision_def Let_def div_pos_pos_trivial)
  then show ?thesis
    using run_bounded[OF assms(2) c(3,1,2)] sparse_fast_one_tick[OF assms(2)] stuck by blast
qed

lemma world_runs_stop_witness:
  "\<exists>w'. run_world no_kernels default_schedule (zoned_world 10) [(default_fast_tick, medium_demo)] = Inr w' \<and>
     traffic_step (traffic w') \<le> 100 \<and>
     (\<forall>v k i. traffic_step (traffic v) = 100 \<longrightarrow> (\<exists>e. step_world k default_schedule v i = Inl e))"
proof -
  obtain w' where run: "run_world no_kernels default_schedule (zoned_world 10) [(default_fast_tick, medium_demo)] = Inr w'"
    using step_world_returns[OF zoned_world_ok zoned_step_legal, of no_kernels] by (auto simp: run_world_def)
  have c: "next_collision default_schedule (traffic_step (traffic (zoned_world 10))) = 100"
    by (simp add: next_collision_def default_schedule_def zoned_world_def lcm_int_def[symmetric])
  show ?thesis
    using world_runs_stop[of default_schedule no_kernels "zoned_world 10", OF _ run] run unfolding c
    by (auto simp: schedule_ok_def default_schedule_def)
qed

end
