(* ===== verification/Spec2Isabelle.thy ===== *)
theory Spec2Isabelle
  imports StaleRoutes StreamBuffer PolicyMixer Multirate
begin

text \<open>
  A verification of the simulation core of metroflow, the traffic simulator under src/src/metroflow.
  File names below are relative to that directory.

  \<^bold>\<open>The program.\<close>  A simulation state holds a static road network (city/graph.py), the link and node
  arrays of the traffic engine (flow/state.py), a pool of active agents (sim/active_agents.py), the
  trip requests with the ids that were allocated, completed and failed (demand/trips.py and the demand
  state of the runtime), and a scheduler of traffic events (flow/events.py).  One tick
  (sim/step.py) applies the control, advances the events, lets the active events reduce link
  capacities (flow/event_effects.py), activates due trips, admits activated trips as agents and
  reroutes agents (sim/routing_runtime.py, routing/reroute_policy.py), moves agents along their links
  in the spatial mode (traffic/spatial_queue.py), rebuilds the demand of turns and sinks from the
  routes of the agents, runs the flow engine (flow/engine.py), and finally moves the agents along the
  turns whose tokens the engine realized.  A report of invariants (sim/invariants.py) checks the
  state that results.  Routes are computed by a reverse Dijkstra search (routing/dynamic_potential.py)
  and kept as sets of candidates per origin and destination (routing/candidates.py), which the runtime
  refreshes at the start of each tick.

  Beside this simulator stand three smaller parts: a mixer that blends learned route preferences into the
  baseline under a controller with fallbacks (learning/policy_blend.py, routing/policy_mixer.py), a buffer
  that throttles the snapshots sent to viewers (ui/stream_buffer.py), and a second, aggregate model, the
  multirate world (core/, traffic/meso.py, sim/orchestrator.py): edges evolve on fast ticks,
  accessibility is measured on medium ticks, and land use follows it on slow ticks.

  \<^bold>\<open>How the theories follow the code.\<close>
  \<^item> Prelude: exceptions as the datatype \<open>error\<close>, results as a sum, the chains of raising
    checks at the head of the source's functions (\<open>checks\<close>), Python loops that can raise
    (\<open>mapE\<close>, \<open>foldE\<close>).
  \<^item> PyFloat: float32 and float64 as rationals rounded to nearest even after each operation
    (\<open>r32\<close>, \<open>r64\<close>), with \<open>pyfloat\<close> for the places where NaN and the infinities occur.
    The locale \<open>rounding\<close> states what the proofs use of a rounding and is interpreted for both
    formats.
  \<^item> Arrays: the NumPy scatter-add and the binary heap of Python; the locale \<open>min_queue\<close> is the
    contract of a priority queue, interpreted on the heap.
  \<^item> FlowState, FlowEngine, FlowUpdate, TokenScheduler, TokenAuthority: flow/state.py and
    flow/engine.py, one definition per function; the long
    \<^verbatim>\<open>_apply_discrete_agent_flow_authority\<close> is cut at its own phases (read the
    stored credits, set up the tokens, serve the heap, commit and store).
  \<^item> DiscreteTick: the tick with the discrete authority as a whole, and the invariant under which
    ticks can follow each other (\<open>tick_ready\<close>, \<open>integral_queue\<close>).
  \<^item> Events, EventEffects, RoadNetwork, DynamicPotential, ActiveAgents, SpatialQueue, Reroute, Trips:
    flow/events.py, flow/event_effects.py, city/graph.py, routing/dynamic_potential.py,
    sim/active_agents.py, traffic/spatial_queue.py, routing/reroute_policy.py, demand/trips.py.
    The locale \<open>slot_allocator\<close> is the contract of the agent pool.
  \<^item> Candidates: routing/candidates.py, the candidate sets of an origin and a destination with the
    ranked enumeration and its refresh.  The locale \<open>consistent_guide\<close> is what a best-first
    search asks of its guide; the dynamic potential gives it.
  \<^item> AgentRuntime, AgentLockstep, LockstepTick, Admission, Rerouting, TripLedger: the phases of
    sim/routing_runtime.py and what each keeps: the demand rebuild and the commit, admission with
    its source increments, the reroute phase, and the books of the trips.
  \<^item> RuntimeStep, SimulationRun: sim/step.py over one state record, \<open>simulation_step\<close>
    and \<open>run_rollout\<close>, with the invariant \<open>sim_ready\<close> of a run.
  \<^item> InvariantChecks, CleanReport: sim/invariants.py, and the proof that its report is empty after
    every executed tick of a run.
  \<^item> RouteChoice: the route choice of sim/routing_runtime.py: the utility and selection of a candidate,
    the refresh of the candidate sets with its two caches, and the tails offered to a reroute.
  \<^item> RoutedRun, RouteService, TickPreparation, RoutedInvariant: the run with the routes it computes
    itself, why a refresh and a selection always answer and what they answer, why the preparation of a
    tick always returns, and the invariant (\<open>routed_ready\<close>) that carries this through a run.
    StaleRoutes shows a trip that fails although it has a route.
  \<^item> PyFloatOps, StreamBuffer, PolicyBlend, PolicyMixer: floats with overflow, infinities and NaN, and
    the three modules that rest on them.
  \<^item> World, Meso, Multirate: the state of the multirate world with its contract, the edge dynamics,
    and the step with its scheduler, accessibility snapshot and land-use feedback.

  \<^bold>\<open>What the lemmas show.\<close>  The flow engine conserves vehicles, stays within its tokens, its
  storage and its capacities, always returns on ready states and stores credits that it accepts
  again.  The search is exact, its routes are legal, and the
  enumeration of candidates leaves no cheaper route out.  The pool, the heap, the CSR rows and the
  event scheduler do what their contracts promise.  Above them stands the composition: in a whole
  run with the routes it computes itself, the queue of every link is the number of live agents on it,
  every agent keeps a legal route, every trip is pending, carried by one agent, completed or failed, none of
  the checks of the invariant report can fire, and nothing but the flow engine can stop the run; the
  selected route is the cheapest legal one.  The blend controller is total and typed whatever target
  it is given, a fallback selects a nearly cheapest route, the stream buffer keeps its interval and accounts
  for every snapshot, and a legal step of the multirate world keeps its contract.  Where the code does not do what it means to, a theorem of kind error
  exhibits it on a concrete state.

  \<^bold>\<open>Bounds.\<close>  Whole numbers are exact in float32 up to 2 to the 24th; the runtime theorems assume a
  pool of fewer than 2 to the 23rd slots and storages below that number, so that a sum of two counts is
  exact too.  The rounding functions do not overflow to infinity; capacities and times of the states
  considered are bounded by the well-formedness predicates, and results outside what is modelled are the
  error \<open>OutOfModel\<close>, which no theorem about success produces.  Signal timers are 32-bit words; a run of n
  ticks needs every timer to be n below the largest value (\<open>timer_room\<close>).  Loops are structural
  recursion, except the search, which is a partial function with a proof that it returns, and the
  token scheduler, which recurses on the work left in its heap.

  \<^bold>\<open>Parameters.\<close>  The compiled kernels of the Rust and JAX backends, the rolls of NumPy's generators, and
  the logarithm of the C library in the utility of a route (\<open>rs_log\<close>) are arguments of the definitions that use
  them.  The theories up to SimulationRun take the selected routes as inputs and assume only that the extra
  memory a route brings along does not overwrite the route and the trip id (\<open>selection_ok\<close>); RoutedRun
  replaces the inputs by the code's own choice.  The agent backend is not the compiled one.  A choice that the
  rational arithmetic cannot follow, because a cost is infinite, is the error \<open>OutOfModel\<close>; the reroute loop
  starts each tick from an empty cache of potentials, as the code does.  NumPy literals take the type of the
  array (NumPy 2), and \<^verbatim>\<open>sum\<close> is compensated (Python 3.12), as the repository's CI pins them.

  \<^bold>\<open>What is not modelled.\<close>  The procedural city generators, land use, maps, plots and user interface
  (geometry over floating-point coordinates, rendering, I/O), the learning and benchmark drivers,
  metrics and timing, the serialisation and fingerprints of replays (JSON and digests), and the second route
  search over the multirate world (traffic/routing.py), which repeats the one proved here.
\<close>

end
